(* ===== verification/Prelude.thy ===== *)
theory Prelude
  imports Complex_Main "HOL-Library.AList" "HOL-Library.Sublist"
begin

text \<open>
  Shared vocabulary of the development: Python exceptions as values, insertion-ordered
  dictionaries, and the generic list lemmas that several components use.

  A Python operation that may raise returns \<open>exn + 'a\<close>: \<open>Inl\<close> the exception, \<open>Inr\<close>
  the result. An operation that changes the object it is called on takes the object's state
  and returns the new one. A \<open>dict\<close> is an association list in insertion order, written with
  \<open>AList.update\<close> (assigning to a present key keeps its place, as in Python) and
  \<open>AList.delete\<close>, and read with \<open>map_of\<close>.
\<close>

named_theorems inv_intros \<open>introduction rules for component invariants\<close>
named_theorems frame_simps \<open>fields an operation does not write\<close>

type_synonym ('k, 'v) dict = "('k \<times> 'v) list"

text \<open>
  The exceptions the modelled code raises or catches. The domain errors of the runtime carry
  the message text, because one caller (the HTTP layer) maps them by substring.
\<close>

datatype exn =
    ValueError string
  | RuntimeError string
  | KeyError string
  | AssertionError
  | SchedulerError string
  | RouterError string
  | CacheError string
  | IntegrityError string
  | OverflowError string
  | NotImplementedError string
  | HTTPException int string
  | OtherException string

text \<open>\<open>str(exc)\<close>: the text of an exception, used where the source formats one into another.\<close>

fun exn_str :: "exn \<Rightarrow> string" where
  "exn_str (ValueError m) = m"
| "exn_str (RuntimeError m) = m"
| "exn_str (KeyError m) = m"
| "exn_str AssertionError = []"
| "exn_str (SchedulerError m) = m"
| "exn_str (RouterError m) = m"
| "exn_str (CacheError m) = m"
| "exn_str (IntegrityError m) = m"
| "exn_str (OverflowError m) = m"
| "exn_str (NotImplementedError m) = m"
| "exn_str (HTTPException c m) = m"
| "exn_str (OtherException m) = m"

subsection \<open>Lists\<close>

lemma filter_snoc: "filter P (xs @ [x]) = filter P xs @ (if P x then [x] else [])"
  by simp

lemma distinct_map_filter: "distinct (map f xs) \<Longrightarrow> distinct (map f (filter P xs))"
  by (induction xs) auto

lemma distinct_mapD_eq:
  "distinct (map f xs) \<Longrightarrow> x \<in> set xs \<Longrightarrow> y \<in> set xs \<Longrightarrow> f x = f y \<Longrightarrow> x = y"
  by (simp add: distinct_map inj_on_def)

lemma sum_list_filter_partition:
  fixes f :: "'a \<Rightarrow> 'b :: comm_monoid_add"
  shows "sum_list (map f (filter P xs)) + sum_list (map f (filter (\<lambda>x. \<not> P x) xs))
    = sum_list (map f xs)"
  by (induction xs) (auto simp: ac_simps)

lemma subseq_append_mono: "subseq xs ys \<Longrightarrow> subseq xs' ys' \<Longrightarrow> subseq (xs @ xs') (ys @ ys')"
  by (rule list_emb_append_mono)

text \<open>The slice \<open>xs[-k:]\<close>: the last k elements, the whole list when k is 0, and for a negative k
  everything from position \<open>-k\<close> on.\<close>

definition py_tail :: "int \<Rightarrow> 'a list \<Rightarrow> 'a list" where
  "py_tail k xs = (if k > 0 then drop (length xs - nat k) xs else drop (nat (- k)) xs)"

lemma length_py_tail: "k > 0 \<Longrightarrow> int (length (py_tail k xs)) = min k (int (length xs))"
  by (simp add: py_tail_def)

lemma py_tail_short: "k > 0 \<Longrightarrow> int (length xs) \<le> k \<Longrightarrow> py_tail k xs = xs"
  by (simp add: py_tail_def)

lemma py_tail_append: "k > 0 \<Longrightarrow> int (length ys) = k \<Longrightarrow> py_tail k (xs @ ys) = ys"
  by (auto simp: py_tail_def)

lemma py_tail_tail: "k > 0 \<Longrightarrow> py_tail k (py_tail k xs @ ys) = py_tail k (xs @ ys)"
  by (cases "nat k \<le> length xs") (simp_all add: py_tail_def drop_append add.commute)

subsection \<open>Chunks\<close>

text \<open>Consecutive pieces of n elements, as a tensor's \<open>reshape(-1, n)\<close> reads its storage.\<close>

fun chunks_of :: "nat \<Rightarrow> 'a list \<Rightarrow> 'a list list" where
  "chunks_of n [] = []"
| "chunks_of n (x # xs) = (if n = 0 then [] else take n (x # xs) # chunks_of n (drop n (x # xs)))"

lemma chunks_concat:
  "n > 0 \<Longrightarrow> \<forall>f \<in> set fs. length f = n \<Longrightarrow> chunks_of n (concat fs) = fs"
proof (induction fs)
  case (Cons f fs)
  then obtain y ys where f: "f = y # ys" by (cases f) auto
  with Cons.prems(2) have "length (y # ys) = n" by simp
  then have "take n (y # ys @ concat fs) = y # ys" "drop n (y # ys @ concat fs) = concat fs"
    using Cons.prems(1) by (cases n; simp)+
  with Cons f show ?case by simp
qed simp

lemma chunks_append:
  "n > 0 \<Longrightarrow> length xs = n \<Longrightarrow> chunks_of n (xs @ ys) = xs # chunks_of n ys"
  by (cases xs) auto

lemma chunks_append':
  "n > 0 \<Longrightarrow> length xs = m * n \<Longrightarrow> chunks_of n (xs @ ys) = chunks_of n xs @ chunks_of n ys
     \<and> length (chunks_of n xs) = m \<and> (\<forall>f \<in> set (chunks_of n xs). length f = n)"
proof (induction m arbitrary: xs)
  case (Suc m)
  let ?a = "take n xs" and ?b = "drop n xs"
  have len: "length ?a = n" "length ?b = m * n" using Suc.prems by auto
  have "chunks_of n (?a @ ?b @ ys) = ?a # chunks_of n (?b @ ys)" "chunks_of n (?a @ ?b) = ?a # chunks_of n ?b"
    using chunks_append [OF Suc.prems(1) len(1)] by blast+
  with Suc.IH [OF Suc.prems(1) len(2)] len(1) show ?case
    by (simp only: append_assoc [symmetric] append_take_drop_id) simp
qed simp

lemma concat_chunks: "n > 0 \<Longrightarrow> concat (chunks_of n xs) = xs"
  by (induction n xs rule: chunks_of.induct) (simp_all del: take.simps drop.simps add: append_take_drop_id)

subsection \<open>Broadcasting\<close>

text \<open>An elementwise operation of torch on two axes: equal sizes, or one of them of size 1.\<close>

definition broadcast :: "('a \<Rightarrow> 'b \<Rightarrow> 'c) \<Rightarrow> 'a list \<Rightarrow> 'b list \<Rightarrow> 'c list option" where
  "broadcast f xs ys =
     (if length xs = length ys then Some (map2 f xs ys)
      else if length xs = 1 then Some (map (f (hd xs)) ys)
      else if length ys = 1 then Some (map (\<lambda>x. f x (hd ys)) xs)
      else None)"

lemma broadcast_same [simp]: "length xs = length ys \<Longrightarrow> broadcast f xs ys = Some (map2 f xs ys)"
  by (simp add: broadcast_def)

subsection \<open>Dictionaries\<close>

lemma map_of_AList_update: "map_of (AList.update k v d) k' = (if k' = k then Some v else map_of d k')"
  by (simp add: AList.update_conv')

lemma map_of_AList_delete: "map_of (AList.delete k d) k' = (if k' = k then None else map_of d k')"
  by (simp add: AList.delete_conv')

lemma length_AList_update:
  "length (AList.update k v d) = (if k \<in> fst ` set d then length d else Suc (length d))"
  by (induction d) auto

lemma update_fresh: "k \<notin> fst ` set d \<Longrightarrow> AList.update k v d = d @ [(k, v)]"
  by (induction d) auto

lemma length_delete_distinct:
  "distinct (map fst d) \<Longrightarrow> k \<in> fst ` set d \<Longrightarrow> Suc (length (AList.delete k d)) = length d"
  by (induction d) (auto simp: AList.delete_id)

lemma set_delete: "set (AList.delete k d) = {e \<in> set d. fst e \<noteq> k}"
  by (auto simp: AList.delete_eq)

lemma map_of_None_iff: "map_of d k = None \<longleftrightarrow> k \<notin> fst ` set d"
  by (rule map_of_eq_None_iff)

lemma map_of_mem: "distinct (map fst d) \<Longrightarrow> map_of d k = Some v \<longleftrightarrow> (k, v) \<in> set d"
  by (rule map_of_eq_Some_iff)

end
