(* ===== verification/PyStr.thy ===== *)
theory PyStr
  imports Prelude
begin

text \<open>
  The string operations of Python that the runtime uses, on \<open>char list\<close>. For \<open>bytes\<close> the
  model is exact: a \<open>char\<close> is a byte. For \<open>str\<close> a \<open>char\<close> is a code point below 256, and
  the case and white-space tables are those of that range.
\<close>

subsection \<open>Decimal notation\<close>

definition digit_char :: "nat \<Rightarrow> char" where
  "digit_char d = char_of (48 + d)"

fun nat_str :: "nat \<Rightarrow> string" where
  "nat_str n = (if n < 10 then [digit_char n] else nat_str (n div 10) @ [digit_char (n mod 10)])"

declare nat_str.simps [simp del]

definition int_str :: "int \<Rightarrow> string" where
  "int_str i = (if i < 0 then CHR ''-'' # nat_str (nat (- i)) else nat_str (nat i))"

definition is_digit :: "char \<Rightarrow> bool" where
  "is_digit c \<longleftrightarrow> 48 \<le> (of_char c :: nat) \<and> (of_char c :: nat) \<le> 57"

lemma of_char_digit_char: "d < 10 \<Longrightarrow> of_char (digit_char d) = (48 + d :: nat)"
  by (simp add: digit_char_def)

lemma is_digit_digit_char [simp]: "d < 10 \<Longrightarrow> is_digit (digit_char d)"
  by (simp add: is_digit_def of_char_digit_char)

lemma nat_str_nonempty [simp]: "nat_str n \<noteq> []"
  by (subst nat_str.simps) simp

lemma nat_str_digits: "c \<in> set (nat_str n) \<Longrightarrow> is_digit c"
proof (induction n arbitrary: c rule: nat_str.induct)
  case (1 n)
  show ?case
  proof (cases "n < 10")
    case True
    with "1.prems" show ?thesis by (simp add: nat_str.simps [of n])
  next
    case False
    with "1.prems" have "c \<in> set (nat_str (n div 10)) \<or> c = digit_char (n mod 10)"
      by (auto simp: nat_str.simps [of n])
    then show ?thesis using "1.IH" [OF False] by auto
  qed
qed

subsection \<open>\<open>str.lower\<close>, \<open>startswith\<close>, \<open>removeprefix\<close>, \<open>in\<close>\<close>

definition lower_char :: "char \<Rightarrow> char" where
  "lower_char c = (let n = (of_char c :: nat)
     in if 65 \<le> n \<and> n \<le> 90 \<or> 192 \<le> n \<and> n \<le> 222 \<and> n \<noteq> 215 then char_of (n + 32) else c)"

definition lower :: "string \<Rightarrow> string" where
  "lower s = map lower_char s"

fun startswith :: "'a list \<Rightarrow> 'a list \<Rightarrow> bool" where
  "startswith s [] = True"
| "startswith [] (p # ps) = False"
| "startswith (c # s) (p # ps) = (c = p \<and> startswith s ps)"

definition removeprefix :: "'a list \<Rightarrow> 'a list \<Rightarrow> 'a list" where
  "removeprefix s p = (if startswith s p then drop (length p) s else s)"

fun str_in :: "'a list \<Rightarrow> 'a list \<Rightarrow> bool" where
  "str_in p [] = (p = [])"
| "str_in p (c # s) = (startswith (c # s) p \<or> str_in p s)"

lemma startswith_prefix: "startswith s p \<longleftrightarrow> prefix p s"
  by (induction s p rule: startswith.induct) auto

lemma startswith_append [simp]: "startswith (p @ s) p"
  by (simp add: startswith_prefix)

lemma removeprefix_append [simp]: "removeprefix (p @ s) p = s"
  by (simp add: removeprefix_def)

lemma str_in_sublist: "str_in p s \<longleftrightarrow> sublist p s"
proof (induction s)
  case Nil
  then show ?case by auto
next
  case (Cons c s)
  then show ?case by (simp add: startswith_prefix sublist_Cons_right)
qed

subsection \<open>\<open>strip\<close>\<close>

text \<open>\<open>bytes.strip\<close> removes ASCII white space; \<open>str.strip\<close> also the Unicode spaces.\<close>

definition is_byte_space :: "char \<Rightarrow> bool" where
  "is_byte_space c = (let n = (of_char c :: nat) in n = 32 \<or> 9 \<le> n \<and> n \<le> 13)"

definition is_str_space :: "char \<Rightarrow> bool" where
  "is_str_space c = (let n = (of_char c :: nat)
     in n = 32 \<or> 9 \<le> n \<and> n \<le> 13 \<or> 28 \<le> n \<and> n \<le> 31 \<or> n = 133 \<or> n = 160)"

definition strip_by :: "('a \<Rightarrow> bool) \<Rightarrow> 'a list \<Rightarrow> 'a list" where
  "strip_by sp s = rev (dropWhile sp (rev (dropWhile sp s)))"

definition bytes_strip :: "string \<Rightarrow> string" where
  "bytes_strip s = strip_by is_byte_space s"

definition str_strip :: "string \<Rightarrow> string" where
  "str_strip s = strip_by is_str_space s"

lemma strip_by_empty_iff: "strip_by sp s = [] \<longleftrightarrow> (\<forall>c \<in> set s. sp c)"
proof
  assume "strip_by sp s = []"
  then have "\<forall>c \<in> set (dropWhile sp s). sp c"
    by (simp add: strip_by_def dropWhile_eq_Nil_conv)
  moreover have "set s = set (takeWhile sp s) \<union> set (dropWhile sp s)"
    by (metis set_append takeWhile_dropWhile_id)
  moreover have "\<forall>c \<in> set (takeWhile sp s). sp c"
    by (auto dest: set_takeWhileD)
  ultimately show "\<forall>c \<in> set s. sp c" by blast
next
  assume "\<forall>c \<in> set s. sp c"
  then have "dropWhile sp s = []" by (simp add: dropWhile_eq_Nil_conv)
  then show "strip_by sp s = []"
    by (simp only: strip_by_def rev.simps dropWhile.simps)
qed

subsection \<open>\<open>str.split(sep, maxsplit)\<close>\<close>

text \<open>Splitting on a one-character separator at most \<open>n\<close> times, from the left.\<close>

fun split_max :: "'a \<Rightarrow> nat \<Rightarrow> 'a list \<Rightarrow> 'a list list" where
  "split_max sep 0 s = [s]"
| "split_max sep (Suc n) s =
     (case dropWhile (\<lambda>c. c \<noteq> sep) s of
        [] \<Rightarrow> [s]
      | _ # rest \<Rightarrow> takeWhile (\<lambda>c. c \<noteq> sep) s # split_max sep n rest)"

lemma split_max_append:
  assumes "sep \<notin> set p"
  shows "split_max sep (Suc n) (p @ sep # s) = p # split_max sep n s"
proof -
  have "dropWhile (\<lambda>c. c \<noteq> sep) (p @ sep # s) = sep # s"
    using assms by (induction p) auto
  moreover have "takeWhile (\<lambda>c. c \<noteq> sep) (p @ sep # s) = p"
    using assms by (induction p) auto
  ultimately show ?thesis by simp
qed

lemma split_max_none: "sep \<notin> set s \<Longrightarrow> split_max sep n s = [s]"
proof (cases n)
  case (Suc m)
  assume "sep \<notin> set s"
  then have "dropWhile (\<lambda>c. c \<noteq> sep) s = []" by (auto simp: dropWhile_eq_Nil_conv)
  then show ?thesis by (simp only: Suc split_max.simps list.case)
qed simp


subsection \<open>\<open>repr\<close> of a string\<close>

text \<open>
  The notation \<open>{x!r}\<close> puts into a message: quoted, with the quote, the backslash and the
  unprintable code points escaped, as CPython does below 256.
\<close>

definition hex_digit :: "nat \<Rightarrow> char" where
  "hex_digit d = (if d < 10 then char_of (48 + d) else char_of (87 + d))"

definition hex_byte :: "nat \<Rightarrow> string" where
  "hex_byte n = [hex_digit (n div 16), hex_digit (n mod 16)]"

definition repr_char :: "char \<Rightarrow> char \<Rightarrow> string" where
  "repr_char q c = (let n = (of_char c :: nat) in
     if c = q \<or> n = 92 then [CHR 0x5C, c]
     else if n = 9 then [CHR 0x5C, CHR ''t'']
     else if n = 10 then [CHR 0x5C, CHR ''n'']
     else if n = 13 then [CHR 0x5C, CHR ''r'']
     else if n < 32 \<or> 127 \<le> n \<and> n \<le> 160 \<or> n = 173 then [CHR 0x5C, CHR ''x''] @ hex_byte n
     else [c])"

definition py_repr :: "string \<Rightarrow> string" where
  "py_repr s = (let q = (if CHR 0x27 \<in> set s \<and> CHR 0x22 \<notin> set s then CHR 0x22 else CHR 0x27)
     in q # concat (map (repr_char q) s) @ [q])"

text \<open>\<open>s.replace(pat, '')\<close>: every occurrence of a non-empty pattern removed, from the left.\<close>

function str_remove :: "'a list \<Rightarrow> 'a list \<Rightarrow> 'a list" where
  "str_remove pat [] = []"
| "str_remove pat (c # s) =
     (if pat \<noteq> [] \<and> startswith (c # s) pat then str_remove pat (drop (length pat) (c # s))
      else c # str_remove pat s)"
  by pat_completeness auto
termination
  by (relation "measure (\<lambda>(pat, s). length s)") (auto simp: neq_Nil_conv)

subsection \<open>\<open>split()\<close>, \<open>splitlines()\<close>, \<open>partition\<close>, \<open>int(s)\<close>\<close>

text \<open>Runs of characters that are not white space.\<close>

fun split_words :: "string \<Rightarrow> string \<Rightarrow> string list" where
  "split_words acc [] = (if acc = [] then [] else [rev acc])"
| "split_words acc (c # s) =
     (if is_str_space c then (if acc = [] then split_words [] s else rev acc # split_words [] s)
      else split_words (c # acc) s)"

definition py_split :: "string \<Rightarrow> string list" where
  "py_split s = split_words [] s"

definition is_line_break :: "char \<Rightarrow> bool" where
  "is_line_break c = (let n = (of_char c :: nat) in 10 \<le> n \<and> n \<le> 13 \<or> 28 \<le> n \<and> n \<le> 30 \<or> n = 133)"

fun split_lines :: "string \<Rightarrow> string \<Rightarrow> string list" where
  "split_lines acc [] = (if acc = [] then [] else [rev acc])"
| "split_lines acc [c] = (if is_line_break c then [rev acc] else [rev (c # acc)])"
| "split_lines acc (c # d # s) =
     (if c = CHR 0x0D \<and> d = CHR 0x0A then rev acc # split_lines [] s
      else if is_line_break c then rev acc # split_lines [] (d # s)
      else split_lines (c # acc) (d # s))"

definition splitlines :: "string \<Rightarrow> string list" where
  "splitlines s = split_lines [] s"

text \<open>\<open>s.partition(sep)\<close> for one character: before and after its first occurrence.\<close>

definition partition_at :: "char \<Rightarrow> string \<Rightarrow> string \<times> string" where
  "partition_at sep s = (takeWhile (\<lambda>c. c \<noteq> sep) s, drop 1 (dropWhile (\<lambda>c. c \<noteq> sep) s))"

text \<open>\<open>int(s)\<close>: white space around, a sign, digits with single underscores between them; \<open>None\<close>
  for the ValueError, also of CPython's limit of 4300 digits.\<close>

fun int_digits :: "nat \<Rightarrow> bool \<Rightarrow> string \<Rightarrow> nat option" where
  "int_digits acc after_digit [] = (if after_digit then Some acc else None)"
| "int_digits acc after_digit (c # s) =
     (if is_digit c then int_digits (acc * 10 + (of_char c - 48)) True s
      else if c = CHR ''_'' \<and> after_digit then int_digits acc False s
      else None)"

definition py_int :: "string \<Rightarrow> int option" where
  "py_int s =
     (let t = str_strip s in
      if length (filter is_digit t) > 4300 then None
      else case t of
        [] \<Rightarrow> None
      | c # r \<Rightarrow> (if c = CHR ''-'' then map_option (\<lambda>n. - int n) (int_digits 0 False r)
                  else if c = CHR ''+'' then map_option int (int_digits 0 False r)
                  else map_option int (int_digits 0 False t)))"

lemma split_lines_line:
  "list_all (\<lambda>c. \<not> is_line_break c) l \<Longrightarrow> split_lines acc (l @ CHR 0x0A # s) = (rev acc @ l) # split_lines [] s"
proof (induction l arbitrary: acc)
  case Nil
  have "is_line_break CHR 0x0A" by (simp add: is_line_break_def Let_def)
  then show ?case by (cases s) auto
next
  case (Cons c l)
  then have c: "\<not> is_line_break c" "c \<noteq> CHR 0x0D" by (auto simp: is_line_break_def Let_def)
  obtain d r where dr: "l @ CHR 0x0A # s = d # r" by (cases l) auto
  with c have "split_lines acc (c # l @ CHR 0x0A # s) = split_lines (c # acc) (l @ CHR 0x0A # s)" by simp
  also have "\<dots> = (rev (c # acc) @ l) # split_lines [] s" using Cons by simp
  finally show ?case by simp
qed

lemma splitlines_line: "list_all (\<lambda>c. \<not> is_line_break c) l \<Longrightarrow> splitlines (l @ CHR 0x0A # s) = l # splitlines s"
  by (simp add: splitlines_def split_lines_line)

lemma partition_at_first: "sep \<notin> set a \<Longrightarrow> partition_at sep (a @ sep # b) = (a, b)"
  by (induction a) (auto simp: partition_at_def)

end
