(* ===== verification/Interfaces.thy ===== *)
theory Interfaces
  imports Prelude "HOL-Library.Multiset"
begin

text \<open>
  The contracts between components, as locales. A provider is a step function on a state:
  each call returns the new state and an event that says what entered and what left.
  \<open>work_queue\<close> promises that nothing is lost or made twice; \<open>fifo_channel\<close> also promises the
  order, and is a \<open>work_queue\<close>. Both are an \<open>invariant_machine\<close>.
\<close>

section \<open>Runs of a step function\<close>

fun run_trace :: "('s \<Rightarrow> 'o \<Rightarrow> 's \<times> 'e) \<Rightarrow> 's \<Rightarrow> 'o list \<Rightarrow> 's \<times> 'e list" where
  "run_trace step s [] = (s, [])"
| "run_trace step s (x # xs) =
     (let (s1, e) = step s x; (s2, es) = run_trace step s1 xs in (s2, e # es))"

lemma fst_run_trace_Cons:
  "fst (run_trace step s (x # xs)) = fst (run_trace step (fst (step s x)) xs)"
  by (simp add: Let_def split: prod.splits)

lemma snd_run_trace_Cons:
  "snd (run_trace step s (x # xs)) = snd (step s x) # snd (run_trace step (fst (step s x)) xs)"
  by (simp add: Let_def split: prod.splits)

declare run_trace.simps(2) [simp del]

lemmas run_trace_simps = fst_run_trace_Cons snd_run_trace_Cons

lemma fst_run_trace: "fst (run_trace step s xs) = fold (\<lambda>x s. fst (step s x)) xs s"
  by (induction xs arbitrary: s) (simp_all add: run_trace_simps)

lemma run_trace_append:
  "fst (run_trace step s (xs @ ys)) = fst (run_trace step (fst (run_trace step s xs)) ys)"
  by (simp add: fst_run_trace)

section \<open>Invariants of runs\<close>

locale invariant_machine =
  fixes inv :: "'s \<Rightarrow> bool"
    and step :: "'s \<Rightarrow> 'o \<Rightarrow> 's \<times> 'e"
  assumes step_inv: "inv s \<Longrightarrow> inv (fst (step s x))"
begin

lemma run_inv: "inv s \<Longrightarrow> inv (fst (run_trace step s xs))"
  by (induction xs arbitrary: s) (simp_all add: run_trace_simps step_inv)

end

section \<open>Queues of work\<close>

locale work_queue = invariant_machine inv step
  for inv :: "'s \<Rightarrow> bool" and step :: "'s \<Rightarrow> 'o \<Rightarrow> 's \<times> 'e" +
  fixes pending :: "'s \<Rightarrow> 'i list"
    and gained :: "'e \<Rightarrow> 'i list"
    and lost :: "'e \<Rightarrow> 'i list"
  assumes step_balance: "inv s \<Longrightarrow>
    mset (pending (fst (step s x))) + mset (lost (snd (step s x)))
      = mset (pending s) + mset (gained (snd (step s x)))"
begin

lemma run_balance:
  "inv s \<Longrightarrow>
    mset (pending (fst (run_trace step s xs))) + mset (concat (map lost (snd (run_trace step s xs))))
      = mset (pending s) + mset (concat (map gained (snd (run_trace step s xs))))"
proof (induction xs arbitrary: s)
  case (Cons x xs)
  let ?s1 = "fst (step s x)" and ?e = "snd (step s x)"
  have "inv ?s1" using Cons.prems by (rule step_inv)
  let ?L = "\<lambda>es. mset (concat (map lost es))" and ?G = "\<lambda>es. mset (concat (map gained es))"
  let ?s' = "fst (run_trace step ?s1 xs)" and ?es = "snd (run_trace step ?s1 xs)"
  from \<open>inv ?s1\<close> have IH: "mset (pending ?s') + ?L ?es = mset (pending ?s1) + ?G ?es"
    by (rule Cons.IH)
  have "mset (pending ?s') + (mset (lost ?e) + ?L ?es)
      = mset (pending ?s1) + mset (lost ?e) + ?G ?es"
    using IH by (simp add: ac_simps)
  also have "\<dots> = mset (pending s) + (mset (gained ?e) + ?G ?es)"
    using step_balance [OF Cons.prems, of x] by (simp add: ac_simps)
  finally show ?case by (simp add: run_trace_simps)
qed simp

end

locale fifo_channel = invariant_machine inv step
  for inv :: "'s \<Rightarrow> bool" and step :: "'s \<Rightarrow> 'o \<Rightarrow> 's \<times> 'e" +
  fixes pending :: "'s \<Rightarrow> 'i list"
    and gained :: "'e \<Rightarrow> 'i list"
    and lost :: "'e \<Rightarrow> 'i list"
  assumes step_fifo: "inv s \<Longrightarrow>
    lost (snd (step s x)) @ pending (fst (step s x)) = pending s @ gained (snd (step s x))"

sublocale fifo_channel \<subseteq> work_queue inv step pending gained lost
proof unfold_locales
  fix s x assume "inv s"
  from arg_cong [OF step_fifo [OF this, of x], of mset]
  show "mset (pending (fst (step s x))) + mset (lost (snd (step s x)))
      = mset (pending s) + mset (gained (snd (step s x)))"
    by (simp add: ac_simps)
qed

context fifo_channel
begin

lemma run_fifo:
  "inv s \<Longrightarrow>
    concat (map lost (snd (run_trace step s xs))) @ pending (fst (run_trace step s xs))
      = pending s @ concat (map gained (snd (run_trace step s xs)))"
proof (induction xs arbitrary: s)
  case (Cons x xs)
  have "inv (fst (step s x))" using Cons.prems by (rule step_inv)
  note IH = Cons.IH [OF this]
  from step_fifo [OF Cons.prems, of x] IH show ?case
    by (simp add: run_trace_simps)
qed simp

lemma run_delivered_prefix:
  "inv s \<Longrightarrow> pending s = [] \<Longrightarrow>
    prefix (concat (map lost (snd (run_trace step s xs))))
      (concat (map gained (snd (run_trace step s xs))))"
  using run_fifo [of s xs] by (auto simp: prefix_def intro: sym)

end

end
