(* ===== verification/Scheduler.thy ===== *)
theory Scheduler
  imports PyStr Interfaces
begin

text \<open>
  The request scheduler (\<open>src/repercep/runtime/scheduler.py\<close>, class \<open>_PythonScheduler\<close>):
  three first-in-first-out queues, one per priority, a capacity, the set of known request ids
  and a shutdown flag. Every method body runs under one \<open>threading.Condition\<close>, so a call
  is one step; the only place where other threads run in the middle of a call is
  \<open>Condition.wait\<close> inside \<open>next_blocking\<close>, which is given the other threads' calls as an
  argument. The module's choice between this class and the native wheel is not modelled.
\<close>

section \<open>State and operations\<close>

datatype prio = High | Normal | Low

fun prio_str :: "prio \<Rightarrow> string" where
  "prio_str High = ''high''"
| "prio_str Normal = ''normal''"
| "prio_str Low = ''low''"

definition priorities :: "prio list" where
  "priorities = [High, Normal, Low]"

text \<open>\<open>parsed = priority.lower()\<close> and the test \<open>parsed not in self._queues\<close>.\<close>

definition parse_prio :: "string \<Rightarrow> prio option" where
  "parse_prio p = find (\<lambda>q. prio_str q = lower p) priorities"

record 'p item =
  item_id :: string
  item_priority :: prio
  item_payload :: 'p

record 'p scheduler =
  s_capacity :: int
  s_queues :: "prio \<Rightarrow> 'p item list"
  s_known :: "string set"
  s_shutdown :: bool

definition sched_init :: "int \<Rightarrow> exn + 'p scheduler" where
  "sched_init cap =
     (if cap < 1 then Inl (ValueError ''capacity must be >= 1'')
      else Inr \<lparr>s_capacity = cap, s_queues = (\<lambda>_. []), s_known = {}, s_shutdown = False\<rparr>)"

definition sched_len :: "'p scheduler \<Rightarrow> int" where
  "sched_len s = sum_list (map (\<lambda>p. int (length (s_queues s p))) priorities)"

definition shutting_down_error :: exn where
  "shutting_down_error = SchedulerError ''scheduler is shutting down''"

definition not_found_error :: "string \<Rightarrow> exn" where
  "not_found_error rid = SchedulerError (''request not found: '' @ py_repr rid)"

definition submit :: "'p scheduler \<Rightarrow> string \<Rightarrow> string \<Rightarrow> 'p \<Rightarrow> exn + 'p scheduler" where
  "submit s rid priority payload =
     (case parse_prio priority of
        None \<Rightarrow> Inl (RuntimeError (''invalid priority: '' @ priority))
      | Some parsed \<Rightarrow>
          if s_shutdown s then Inl shutting_down_error
          else if s_capacity s \<le> sched_len s
            then Inl (SchedulerError (''queue is full: '' @ int_str (s_capacity s)))
          else Inr (s\<lparr>s_queues := (s_queues s)(parsed := s_queues s parsed @
                        [\<lparr>item_id = rid, item_priority = parsed, item_payload = payload\<rparr>]),
                      s_known := insert rid (s_known s)\<rparr>))"

text \<open>\<open>del queue[index]\<close> at the first item with the id; \<open>None\<close> when there is none.\<close>

fun del_first :: "string \<Rightarrow> 'p item list \<Rightarrow> 'p item list option" where
  "del_first rid [] = None"
| "del_first rid (it # q) =
     (if item_id it = rid then Some q else map_option ((#) it) (del_first rid q))"

fun cancel_in :: "prio list \<Rightarrow> 'p scheduler \<Rightarrow> string \<Rightarrow> exn + 'p scheduler" where
  "cancel_in [] s rid = Inl (not_found_error rid)"
| "cancel_in (p # ps) s rid =
     (case del_first rid (s_queues s p) of
        Some q \<Rightarrow> Inr (s\<lparr>s_queues := (s_queues s)(p := q), s_known := s_known s - {rid}\<rparr>)
      | None \<Rightarrow> cancel_in ps s rid)"

definition cancel :: "'p scheduler \<Rightarrow> string \<Rightarrow> exn + 'p scheduler" where
  "cancel s rid =
     (if s_shutdown s then Inl shutting_down_error
      else if rid \<notin> s_known s then Inl (not_found_error rid)
      else cancel_in priorities s rid)"

fun pop_in :: "prio list \<Rightarrow> 'p scheduler \<Rightarrow> 'p item option \<times> 'p scheduler" where
  "pop_in [] s = (None, s)"
| "pop_in (p # ps) s =
     (case s_queues s p of
        it # q \<Rightarrow> (Some it, s\<lparr>s_queues := (s_queues s)(p := q),
                              s_known := s_known s - {item_id it}\<rparr>)
      | [] \<Rightarrow> pop_in ps s)"

definition pop_next :: "'p scheduler \<Rightarrow> 'p item option \<times> 'p scheduler" where
  "pop_next s = pop_in priorities s"

definition sched_shutdown :: "'p scheduler \<Rightarrow> 'p scheduler" where
  "sched_shutdown s = s\<lparr>s_shutdown := True\<rparr>"

section \<open>Steps and traces\<close>

text \<open>
  One call by any thread, with what it did to the queued items. \<open>Pop\<close> is one pass of
  \<open>next_blocking\<close> through \<open>_pop_next_locked\<close>.
\<close>

datatype 'p sched_op = Submit string string 'p | Cancel string | Pop | Shutdown

datatype 'p sched_event =
  Accepted "'p item" | Dropped "'p item" | Taken "'p item" | Refused exn | Quiet

definition queued :: "'p scheduler \<Rightarrow> 'p item list" where
  "queued s = s_queues s High @ s_queues s Normal @ s_queues s Low"

definition first_with :: "string \<Rightarrow> 'p item list \<Rightarrow> 'p item option" where
  "first_with rid xs = find (\<lambda>it. item_id it = rid) xs"

fun sched_step :: "'p scheduler \<Rightarrow> 'p sched_op \<Rightarrow> 'p scheduler \<times> 'p sched_event" where
  "sched_step s (Submit rid pr pl) =
     (case submit s rid pr pl of
        Inl e \<Rightarrow> (s, Refused e)
      | Inr s' \<Rightarrow> (s', case parse_prio pr of
            Some p \<Rightarrow> Accepted \<lparr>item_id = rid, item_priority = p, item_payload = pl\<rparr>
          | None \<Rightarrow> Quiet))"
| "sched_step s (Cancel rid) =
     (case cancel s rid of
        Inl e \<Rightarrow> (s, Refused e)
      | Inr s' \<Rightarrow> (s', case first_with rid (queued s) of Some it \<Rightarrow> Dropped it | None \<Rightarrow> Quiet))"
| "sched_step s Pop =
     (case pop_next s of (Some it, s') \<Rightarrow> (s', Taken it) | (None, s') \<Rightarrow> (s', Quiet))"
| "sched_step s Shutdown = (sched_shutdown s, Quiet)"

text \<open>
  \<open>next_blocking\<close>: pop, else give up when shut down or past the deadline, else wait. The
  waits are the list \<open>env\<close>: each entry holds the calls other threads made while this one
  was parked and the clock at the wake-up. When the list is used up nobody called, and the
  wait ends at its timeout. Clocks are seconds.
\<close>

definition deadline_of :: "rat \<Rightarrow> int \<Rightarrow> rat" where
  "deadline_of now timeout_ms = now + of_int (max timeout_ms 0) / 1000"

definition run_env :: "'p scheduler \<Rightarrow> 'p sched_op list \<Rightarrow> 'p scheduler" where
  "run_env s ops = fold (\<lambda>o' s. fst (sched_step s o')) ops s"

fun next_blocking_from ::
  "rat \<Rightarrow> rat \<Rightarrow> ('p sched_op list \<times> rat) list \<Rightarrow> 'p scheduler \<Rightarrow> 'p item option \<times> 'p scheduler"
where
  "next_blocking_from deadline now env s =
     (case pop_next s of
        (Some it, s') \<Rightarrow> (Some it, s')
      | (None, _) \<Rightarrow>
          if s_shutdown s then (None, s)
          else if deadline \<le> now then (None, s)
          else case env of
            [] \<Rightarrow> (None, s)
          | (ops, now') # env' \<Rightarrow> next_blocking_from deadline now' env' (run_env s ops))"

declare next_blocking_from.simps [simp del]

definition next_blocking ::
  "int \<Rightarrow> rat \<Rightarrow> ('p sched_op list \<times> rat) list \<Rightarrow> 'p scheduler \<Rightarrow> 'p item option \<times> 'p scheduler"
where
  "next_blocking timeout_ms now env s =
     next_blocking_from (deadline_of now timeout_ms) now env s"

section \<open>The invariant\<close>

definition sched_wf :: "'p scheduler \<Rightarrow> bool" where
  "sched_wf s \<longleftrightarrow> 1 \<le> s_capacity s \<and> sched_len s \<le> s_capacity s \<and>
     (\<forall>p. \<forall>it \<in> set (s_queues s p). item_priority it = p) \<and>
     s_known s \<subseteq> item_id ` set (queued s)"

lemma sched_len_queued: "sched_len s = int (length (queued s))"
  by (simp add: sched_len_def queued_def priorities_def)

lemma set_queued: "set (queued s) = (\<Union>p. set (s_queues s p))"
proof
  show "(\<Union>p. set (s_queues s p)) \<subseteq> set (queued s)"
  proof
    fix x assume "x \<in> (\<Union>p. set (s_queues s p))"
    then obtain p where "x \<in> set (s_queues s p)" by blast
    then show "x \<in> set (queued s)" by (cases p) (auto simp: queued_def)
  qed
qed (auto simp: queued_def)

lemma del_first_append:
  "del_first rid (xs @ ys) =
     (case del_first rid xs of Some xs' \<Rightarrow> Some (xs' @ ys)
      | None \<Rightarrow> map_option ((@) xs) (del_first rid ys))"
  by (cases "del_first rid ys"; induction xs) (auto split: option.splits)

lemma del_first_None: "del_first rid q = None \<longleftrightarrow> rid \<notin> item_id ` set q"
  by (induction q) auto

lemma del_first_Some:
  "del_first rid q = Some q' \<Longrightarrow>
     \<exists>xs it ys. q = xs @ it # ys \<and> q' = xs @ ys \<and> item_id it = rid
       \<and> first_with rid q = Some it"
proof (induction q arbitrary: q')
  case (Cons a q)
  show ?case
  proof (cases "item_id a = rid")
    case True
    with Cons.prems have "a # q = [] @ a # q \<and> q' = [] @ q \<and> item_id a = rid
      \<and> first_with rid (a # q) = Some a" by (simp add: first_with_def)
    then show ?thesis by blast
  next
    case False
    with Cons.prems obtain q1 where "del_first rid q = Some q1" and q': "q' = a # q1"
      by auto
    from Cons.IH [OF this(1)] obtain xs it ys
      where "q = xs @ it # ys" "q1 = xs @ ys" "item_id it = rid" "first_with rid q = Some it"
      by blast
    then have "a # q = (a # xs) @ it # ys \<and> q' = (a # xs) @ ys \<and> item_id it = rid
      \<and> first_with rid (a # q) = Some it"
      using q' False by (simp add: first_with_def)
    then show ?thesis by blast
  qed
qed simp

text \<open>Taking the first item: the head of \<open>queued\<close>, and nothing when it is empty.\<close>

lemma pop_next_None: "pop_next s = (None, s') \<longleftrightarrow> queued s = [] \<and> s' = s"
  by (auto simp: pop_next_def priorities_def queued_def split: list.splits)

lemma pop_next_Some:
  "pop_next s = (Some it, s') \<Longrightarrow>
     queued s = it # queued s' \<and> s_known s' = s_known s - {item_id it}
     \<and> s_capacity s' = s_capacity s \<and> s_shutdown s' = s_shutdown s
     \<and> (\<forall>p. set (s_queues s' p) \<subseteq> set (s_queues s p))"
  by (auto simp: pop_next_def priorities_def queued_def split: list.splits if_splits)

lemma pop_next_cases:
  obtains "queued s = []" "pop_next s = (None, s)"
  | it s' where "pop_next s = (Some it, s')" "queued s = it # queued s'"
  by (metis old.prod.exhaust option.exhaust pop_next_None pop_next_Some)

text \<open>Cancelling: with the invariant, a known id is queued, and the first such item goes.\<close>

lemma cancel_in_Inr:
  "cancel_in [High, Normal, Low] s rid = Inr s' \<Longrightarrow>
     del_first rid (queued s) = Some (queued s') \<and> s_known s' = s_known s - {rid}
     \<and> s_capacity s' = s_capacity s \<and> s_shutdown s' = s_shutdown s
     \<and> (\<forall>p. set (s_queues s' p) \<subseteq> set (s_queues s p))"
  by (auto simp: queued_def del_first_append dest!: del_first_Some split: option.splits if_splits)

lemma cancel_in_Inl:
  "cancel_in [High, Normal, Low] s rid = Inl e \<Longrightarrow> del_first rid (queued s) = None"
  by (auto simp: queued_def del_first_append split: option.splits)

lemma cancel_Inr:
  "cancel s rid = Inr s' \<Longrightarrow>
     del_first rid (queued s) = Some (queued s') \<and> s_known s' = s_known s - {rid}
     \<and> s_capacity s' = s_capacity s \<and> s_shutdown s' = s_shutdown s
     \<and> (\<forall>p. set (s_queues s' p) \<subseteq> set (s_queues s p))"
  using cancel_in_Inr [of s rid s']
  by (simp add: cancel_def priorities_def split: if_splits)

text \<open>Submitting: the item goes to the end of its queue.\<close>

lemma submit_Inr:
  "submit s rid pr pl = Inr s' \<Longrightarrow>
     \<exists>p. parse_prio pr = Some p \<and> \<not> s_shutdown s \<and> sched_len s < s_capacity s
       \<and> s' = s\<lparr>s_queues := (s_queues s)(p := s_queues s p @
             [\<lparr>item_id = rid, item_priority = p, item_payload = pl\<rparr>]),
           s_known := insert rid (s_known s)\<rparr>"
  by (auto simp: submit_def not_le split: option.splits if_splits)

definition spec_rank :: "prio \<Rightarrow> nat" where
  "spec_rank p = (case p of High \<Rightarrow> 0 | Normal \<Rightarrow> 1 | Low \<Rightarrow> 2)"

text \<open>
  The abstract scheduler is one list, the order of service. A submitted item is put behind
  every item of its own or a higher priority, and before every item of a lower one.
\<close>

definition spec_insert :: "'p item \<Rightarrow> 'p item list \<Rightarrow> 'p item list" where
  "spec_insert it xs =
     (let ahead = (\<lambda>x. spec_rank (item_priority x) \<le> spec_rank (item_priority it))
      in takeWhile ahead xs @ it # dropWhile ahead xs)"

lemma spec_insert_split:
  assumes "\<forall>x \<in> set xs. spec_rank (item_priority x) \<le> spec_rank (item_priority it)"
    and "\<forall>y \<in> set ys. spec_rank (item_priority it) < spec_rank (item_priority y)"
  shows "spec_insert it (xs @ ys) = xs @ it # ys"
proof -
  have "takeWhile (\<lambda>x. spec_rank (item_priority x) \<le> spec_rank (item_priority it)) ys = []"
    and "dropWhile (\<lambda>x. spec_rank (item_priority x) \<le> spec_rank (item_priority it)) ys = ys"
    using assms(2) by (cases ys; simp)+
  with assms(1) show ?thesis
    by (simp add: spec_insert_def takeWhile_append2 dropWhile_append2)
qed

lemma queued_submit:
  assumes wf: "sched_wf s" and ok: "submit s rid pr pl = Inr s'"
  shows "\<exists>p. parse_prio pr = Some p \<and>
    queued s' = spec_insert \<lparr>item_id = rid, item_priority = p, item_payload = pl\<rparr> (queued s)"
proof -
  obtain p where p: "parse_prio pr = Some p"
    and s': "s' = s\<lparr>s_queues := (s_queues s)(p := s_queues s p @
             [\<lparr>item_id = rid, item_priority = p, item_payload = pl\<rparr>]),
           s_known := insert rid (s_known s)\<rparr>"
    using submit_Inr [OF ok] by blast
  let ?it = "\<lparr>item_id = rid, item_priority = p, item_payload = pl\<rparr>"
  have pr: "\<And>q x. x \<in> set (s_queues s q) \<Longrightarrow> item_priority x = q"
    using wf by (simp add: sched_wf_def)
  define xs where "xs = (case p of High \<Rightarrow> s_queues s High
    | Normal \<Rightarrow> s_queues s High @ s_queues s Normal | Low \<Rightarrow> queued s)"
  define ys where "ys = (case p of High \<Rightarrow> s_queues s Normal @ s_queues s Low
    | Normal \<Rightarrow> s_queues s Low | Low \<Rightarrow> [])"
  have "queued s = xs @ ys" and "queued s' = xs @ ?it # ys"
    by (cases p; simp add: xs_def ys_def s' queued_def)+
  moreover have "spec_insert ?it (xs @ ys) = xs @ ?it # ys"
    by (rule spec_insert_split)
      (cases p; auto simp: xs_def ys_def queued_def spec_rank_def dest: pr)+
  ultimately show ?thesis using p by auto
qed

lemma sched_wf_init: "sched_init cap = Inr s \<Longrightarrow> sched_wf s"
  by (auto simp: sched_init_def sched_wf_def sched_len_def priorities_def split: if_splits)

lemma sched_wf_submit:
  assumes wf: "sched_wf s" and ok: "submit s rid pr pl = Inr s'"
  shows "sched_wf s'"
proof -
  obtain p where lt: "sched_len s < s_capacity s"
    and s': "s' = s\<lparr>s_queues := (s_queues s)(p := s_queues s p @
             [\<lparr>item_id = rid, item_priority = p, item_payload = pl\<rparr>]),
           s_known := insert rid (s_known s)\<rparr>"
    using submit_Inr [OF ok] by blast
  have q: "set (queued s') = insert \<lparr>item_id = rid, item_priority = p, item_payload = pl\<rparr> (set (queued s))"
    by (cases p) (auto simp: s' queued_def)
  have "sched_len s' = sched_len s + 1"
    by (cases p) (simp_all add: s' sched_len_def priorities_def)
  moreover have "s_known s' \<subseteq> item_id ` set (queued s')"
    unfolding q using wf by (auto simp: sched_wf_def s')
  ultimately show ?thesis
    using lt wf by (auto simp: sched_wf_def s')
qed

lemma sched_wf_pop: "sched_wf s \<Longrightarrow> pop_next s = (r, s') \<Longrightarrow> sched_wf s'"
proof (cases r)
  case None
  assume "sched_wf s" "pop_next s = (r, s')"
  with None show ?thesis by (simp add: pop_next_None)
next
  case (Some it)
  assume wf: "sched_wf s" and pop: "pop_next s = (r, s')"
  from pop_next_Some [OF pop [unfolded Some]]
  have *: "queued s = it # queued s'" "s_known s' = s_known s - {item_id it}"
    "s_capacity s' = s_capacity s" "\<And>p. set (s_queues s' p) \<subseteq> set (s_queues s p)" by auto
  have "sched_len s' \<le> s_capacity s'"
    using wf * by (simp add: sched_wf_def sched_len_queued)
  moreover have "\<forall>p. \<forall>x \<in> set (s_queues s' p). item_priority x = p"
    using wf *(4) by (force simp: sched_wf_def)
  moreover have "s_known s' \<subseteq> item_id ` set (queued s')"
    using wf * by (auto simp: sched_wf_def)
  ultimately show ?thesis using wf * by (simp add: sched_wf_def)
qed

lemma sched_wf_cancel:
  assumes wf: "sched_wf s" and ok: "cancel s rid = Inr s'"
  shows "sched_wf s'"
proof -
  from cancel_Inr [OF ok]
  have *: "del_first rid (queued s) = Some (queued s')" "s_known s' = s_known s - {rid}"
    "s_capacity s' = s_capacity s" "\<And>p. set (s_queues s' p) \<subseteq> set (s_queues s p)" by auto
  from del_first_Some [OF *(1)] obtain xs it ys
    where q: "queued s = xs @ it # ys" "queued s' = xs @ ys" "item_id it = rid" by blast
  have "sched_len s' \<le> s_capacity s'"
    using wf * q by (simp add: sched_wf_def sched_len_queued)
  moreover have "\<forall>p. \<forall>x \<in> set (s_queues s' p). item_priority x = p"
    using wf *(4) by (force simp: sched_wf_def)
  moreover have "s_known s' \<subseteq> item_id ` set (queued s')"
    using wf *(2) q by (auto simp: sched_wf_def)
  ultimately show ?thesis using wf * by (simp add: sched_wf_def)
qed

lemma sched_wf_shutdown: "sched_wf s \<Longrightarrow> sched_wf (sched_shutdown s)"
  by (simp add: sched_wf_def sched_shutdown_def sched_len_def queued_def)

section \<open>The scheduler as a work queue\<close>

fun ev_gained :: "'p sched_event \<Rightarrow> 'p item list" where
  "ev_gained (Accepted it) = [it]"
| "ev_gained _ = []"

fun ev_lost :: "'p sched_event \<Rightarrow> 'p item list" where
  "ev_lost (Dropped it) = [it]"
| "ev_lost (Taken it) = [it]"
| "ev_lost _ = []"

lemma mset_queued_submit:
  "submit s rid pr pl = Inr s' \<Longrightarrow>
     \<exists>p. parse_prio pr = Some p \<and>
       mset (queued s') = mset (queued s) + {#\<lparr>item_id = rid, item_priority = p, item_payload = pl\<rparr>#}"
proof -
  assume "submit s rid pr pl = Inr s'"
  from submit_Inr [OF this] obtain p where "parse_prio pr = Some p"
    and "s' = s\<lparr>s_queues := (s_queues s)(p := s_queues s p @
             [\<lparr>item_id = rid, item_priority = p, item_payload = pl\<rparr>]),
           s_known := insert rid (s_known s)\<rparr>" by blast
  then show ?thesis by (cases p) (auto simp: queued_def)
qed

lemma sched_step_wf: "sched_wf s \<Longrightarrow> sched_wf (fst (sched_step s x))"
  by (cases x)
    (auto split: sum.splits prod.splits option.splits
      intro: sched_wf_submit sched_wf_cancel sched_wf_pop sched_wf_shutdown)

lemma sched_step_balance:
  "mset (queued (fst (sched_step s x))) + mset (ev_lost (snd (sched_step s x)))
     = mset (queued s) + mset (ev_gained (snd (sched_step s x)))"
proof (cases x)
  case (Submit rid pr pl)
  then show ?thesis
    by (cases "submit s rid pr pl") (auto dest: mset_queued_submit)
next
  case (Cancel rid)
  show ?thesis
  proof (cases "cancel s rid")
    case (Inr s')
    then have "del_first rid (queued s) = Some (queued s')" by (auto dest: cancel_Inr)
    from del_first_Some [OF this] Inr Cancel show ?thesis by auto
  qed (simp add: Cancel)
next
  case Pop
  then show ?thesis
    by (cases rule: pop_next_cases [of s]) auto
next
  case Shutdown
  then show ?thesis by (simp add: sched_shutdown_def queued_def)
qed

interpretation sched: work_queue sched_wf sched_step queued ev_gained ev_lost
  by unfold_locales (simp_all add: sched_step_wf sched_step_balance)

section \<open>The abstract scheduler and the refinement\<close>

record 'p sched_spec =
  sp_capacity :: int
  sp_items :: "'p item list"
  sp_known :: "string set"
  sp_down :: bool

definition sched_abs :: "'p scheduler \<Rightarrow> 'p sched_spec" where
  "sched_abs s = \<lparr>sp_capacity = s_capacity s, sp_items = queued s, sp_known = s_known s,
     sp_down = s_shutdown s\<rparr>"

fun spec_step :: "'p sched_spec \<Rightarrow> 'p sched_op \<Rightarrow> 'p sched_spec" where
  "spec_step a (Submit rid pr pl) =
     (case parse_prio pr of
        None \<Rightarrow> a
      | Some p \<Rightarrow>
          if sp_down a \<or> sp_capacity a \<le> int (length (sp_items a)) then a
          else a\<lparr>sp_items := spec_insert \<lparr>item_id = rid, item_priority = p, item_payload = pl\<rparr>
                    (sp_items a),
                 sp_known := insert rid (sp_known a)\<rparr>)"
| "spec_step a (Cancel rid) =
     (if sp_down a \<or> rid \<notin> sp_known a then a
      else case del_first rid (sp_items a) of
        None \<Rightarrow> a
      | Some xs \<Rightarrow> a\<lparr>sp_items := xs, sp_known := sp_known a - {rid}\<rparr>)"
| "spec_step a Pop =
     (case sp_items a of
        [] \<Rightarrow> a
      | it # xs \<Rightarrow> a\<lparr>sp_items := xs, sp_known := sp_known a - {item_id it}\<rparr>)"
| "spec_step a Shutdown = a\<lparr>sp_down := True\<rparr>"

lemma submit_Inl_iff:
  "(\<exists>e. submit s rid pr pl = Inl e) \<longleftrightarrow>
     parse_prio pr = None \<or> s_shutdown s \<or> s_capacity s \<le> sched_len s"
  by (auto simp: submit_def split: option.splits)

lemma abs_submit:
  assumes "sched_wf s"
  shows "sched_abs (fst (sched_step s (Submit rid pr pl))) = spec_step (sched_abs s) (Submit rid pr pl)"
proof (cases "submit s rid pr pl")
  case (Inl e)
  with submit_Inl_iff [of s rid pr pl] show ?thesis
    by (auto simp: sched_abs_def sched_len_queued split: option.splits)
next
  case (Inr s')
  from submit_Inr [OF Inr] queued_submit [OF assms Inr] Inr show ?thesis
    by (auto simp: sched_abs_def sched_len_queued)
qed

lemma abs_cancel:
  "sched_abs (fst (sched_step s (Cancel rid))) = spec_step (sched_abs s) (Cancel rid)"
proof (cases "cancel s rid")
  case (Inl e)
  then have "s_shutdown s \<or> rid \<notin> s_known s \<or> del_first rid (queued s) = None"
    by (auto simp: cancel_def priorities_def simp del: cancel_in.simps
      dest!: cancel_in_Inl split: if_splits)
  with Inl show ?thesis by (auto simp: sched_abs_def)
next
  case (Inr s')
  then have "\<not> s_shutdown s" "rid \<in> s_known s" by (auto simp: cancel_def split: if_splits)
  with cancel_Inr [OF Inr] Inr show ?thesis by (simp add: sched_abs_def)
qed

lemma abs_pop: "sched_abs (fst (sched_step s Pop)) = spec_step (sched_abs s) Pop"
proof (cases rule: pop_next_cases [of s])
  case (2 it s')
  with pop_next_Some [OF 2(1)] show ?thesis by (simp add: sched_abs_def)
qed (simp add: sched_abs_def)

lemma sched_step_refines:
  "sched_wf s \<Longrightarrow> sched_abs (fst (sched_step s x)) = spec_step (sched_abs s) x"
  by (cases x)
    (simp_all only: abs_submit abs_cancel abs_pop,
     simp add: sched_abs_def sched_shutdown_def queued_def)

text \<open>The service order of the abstract list: priorities never decrease along it.\<close>

lemma queued_sorted: "sched_wf s \<Longrightarrow> sorted (map (\<lambda>it. spec_rank (item_priority it)) (queued s))"
proof -
  assume "sched_wf s"
  then have *: "\<And>p it. it \<in> set (s_queues s p) \<Longrightarrow> item_priority it = p"
    by (simp add: sched_wf_def)
  have const: "\<And>xs p. \<forall>it \<in> set xs. item_priority it = p \<Longrightarrow>
      sorted (map (\<lambda>it. spec_rank (item_priority it)) xs)"
    by (simp add: sorted_map sorted_wrt_iff_nth_less)
  show ?thesis
    by (simp add: queued_def sorted_append const [of _ High] const [of _ Normal]
        const [of _ Low] *) (auto simp: spec_rank_def dest!: *)
qed

section \<open>Properties\<close>

text \<open>C1: the scheduler refines a single list kept in service order. Along any sequence of
  calls from a fresh scheduler, the three queues, the id set and the flag behave as the
  abstract scheduler does: an accepted item is put behind every item of its own or a higher
  priority and before every lower one, a cancel removes the first item with the id, a pop
  takes the head, refused calls change nothing.\<close>

theorem scheduler_refines_spec:
  assumes "sched_init cap = Inr s0"
  shows "sched_abs (fst (run_trace sched_step s0 ops)) = fold (\<lambda>x a. spec_step a x) ops (sched_abs s0)"
proof -
  have "sched_wf s \<Longrightarrow>
      sched_abs (fst (run_trace sched_step s ops)) = fold (\<lambda>x a. spec_step a x) ops (sched_abs s)" for s
    by (induction ops arbitrary: s)
      (simp_all add: run_trace_simps sched_step_refines sched_step_wf)
  then show ?thesis using sched_wf_init [OF assms] .
qed

definition sched_two :: "nat scheduler" where
  "sched_two = \<lparr>s_capacity = 2, s_queues = (\<lambda>_. []), s_known = {}, s_shutdown = False\<rparr>"

lemma parse_prio_names [simp]:
  "parse_prio ''high'' = Some High" "parse_prio ''normal'' = Some Normal"
  "parse_prio ''low'' = Some Low" "parse_prio ''LOW'' = Some Low"
  "parse_prio ''Normal'' = Some Normal" "parse_prio ''High'' = Some High"
  "parse_prio ''Low'' = Some Low"
  by code_simp+

lemma sched_two_init: "sched_init 2 = Inr sched_two"
  by (simp add: sched_init_def sched_two_def)

theorem scheduler_refines_spec_witness:
  "map item_payload (sp_items (sched_abs (fst (run_trace sched_step sched_two
      [Submit ''a'' ''LOW'' 1, Submit ''b'' ''high'' 2, Submit ''c'' ''high'' 3])))) = [2, 1]"
  unfolding scheduler_refines_spec [OF sched_two_init]
  by (simp add: sched_abs_def sched_two_def queued_def spec_insert_def spec_rank_def)

text \<open>C20: in every state a sequence of calls can reach, the queues hold at most \<open>capacity\<close>
  items, each in the queue of its own priority, every known id is the id of a queued item,
  and the items come out in priority order. In particular the last \<open>raise\<close> of \<open>cancel\<close>,
  after its loop, is never reached: an id that passes the membership test is queued.\<close>

theorem scheduler_invariant:
  fixes ops :: "'p sched_op list"
  assumes "sched_init cap = Inr s0"
  defines "s \<equiv> fst (run_trace sched_step s0 ops)"
  shows "sched_len s \<le> cap \<and> (\<forall>p. \<forall>it \<in> set (s_queues s p). item_priority it = p)
    \<and> sorted (map (\<lambda>it. spec_rank (item_priority it)) (queued s))
    \<and> (\<forall>rid \<in> s_known s. \<exists>s'. cancel_in priorities s rid = Inr s')"
proof -
  have wf: "sched_wf s" unfolding s_def
    by (rule sched.run_inv) (rule sched_wf_init [OF assms(1)])
  have "s_capacity (fst (run_trace sched_step t ops)) = s_capacity t" for t :: "'p scheduler"
  proof (induction ops arbitrary: t)
    case (Cons x xs)
    have "s_capacity (fst (sched_step t x)) = s_capacity t"
      by (cases x)
        (auto dest!: submit_Inr cancel_Inr pop_next_Some simp: pop_next_None sched_shutdown_def
          split: sum.splits prod.splits option.splits)
    with Cons.IH show ?case by (simp add: run_trace_simps)
  qed simp
  then have "s_capacity s = cap"
    using assms(1) by (auto simp: s_def sched_init_def split: if_splits)
  moreover have "\<exists>s'. cancel_in priorities s rid = Inr s'" if "rid \<in> s_known s" for rid
  proof (cases "cancel_in priorities s rid")
    case (Inl e)
    then have "del_first rid (queued s) = None" by (simp add: priorities_def cancel_in_Inl
          del: cancel_in.simps)
    with wf that show ?thesis by (auto simp: del_first_None sched_wf_def)
  qed blast
  ultimately show ?thesis using wf queued_sorted [OF wf] by (simp add: sched_wf_def)
qed

theorem scheduler_invariant_witness:
  "sched_len (fst (run_trace sched_step sched_two
      [Submit ''a'' ''low'' 1, Submit ''b'' ''high'' 2, Submit ''c'' ''high'' 3])) \<le> 2"
  using scheduler_invariant [OF sched_two_init] by blast

text \<open>no request is lost or made twice. Over any sequence of calls, the accepted items
  are, as a multiset, exactly the items still queued, those handed to a caller of
  \<open>next_blocking\<close> and those cancelled.\<close>

theorem scheduler_conserves_items:
  assumes "sched_init cap = Inr s0"
  shows "mset (concat (map ev_gained (snd (run_trace sched_step s0 ops))))
    = mset (queued (fst (run_trace sched_step s0 ops)))
      + mset (concat (map ev_lost (snd (run_trace sched_step s0 ops))))"
proof -
  have "queued s0 = []" using assms by (auto simp: sched_init_def queued_def split: if_splits)
  with sched.run_balance [OF sched_wf_init [OF assms], of ops] show ?thesis by simp
qed

theorem scheduler_conserves_items_witness:
  "mset (concat (map ev_gained (snd (run_trace sched_step sched_two [Submit ''a'' ''low'' 1, Pop]))))
    = mset (queued (fst (run_trace sched_step sched_two [Submit ''a'' ''low'' 1, Pop])))
      + mset (concat (map ev_lost (snd (run_trace sched_step sched_two [Submit ''a'' ''low'' 1, Pop]))))"
  by (rule scheduler_conserves_items [OF sched_two_init])

lemma run_env_wf: "sched_wf s \<Longrightarrow> sched_wf (run_env s ops)"
  unfolding run_env_def fst_run_trace [symmetric] by (rule sched.run_inv)

text \<open>The loop of \<open>next_blocking\<close>, round by round.\<close>

lemma next_blocking_from_result:
  "next_blocking_from d now env s = (r, s') \<Longrightarrow>
     (\<exists>k \<le> length env. let t = fold (\<lambda>e s. run_env s (fst e)) (take k env) s in
        case r of
          Some it \<Rightarrow> pop_next t = (Some it, s')
        | None \<Rightarrow> s' = t \<and> queued t = [] \<and>
            (s_shutdown t \<or> d \<le> (if k = 0 then now else snd (env ! (k - 1))) \<or> k = length env))"
proof (induction env arbitrary: now s)
  case Nil
  then show ?case
    by (cases rule: pop_next_cases [of s])
      (auto simp: next_blocking_from.simps [of d now "[]" s] split: if_splits)
next
  case (Cons e env)
  obtain ops now' where e: "e = (ops, now')" by (cases e)
  note step = next_blocking_from.simps [of d now "(ops, now') # env" s]
  show ?case
  proof (cases "queued s = [] \<and> \<not> s_shutdown s \<and> \<not> d \<le> now")
    case True
    then have "pop_next s = (None, s)" by (simp add: pop_next_None)
    with True Cons.prems have "next_blocking_from d now' env (run_env s ops) = (r, s')"
      by (simp add: e step)
    from Cons.IH [OF this] obtain k where "k \<le> length env"
      and "let t = fold (\<lambda>e s. run_env s (fst e)) (take k env) (run_env s ops) in
        case r of Some it \<Rightarrow> pop_next t = (Some it, s')
        | None \<Rightarrow> s' = t \<and> queued t = [] \<and>
          (s_shutdown t \<or> d \<le> (if k = 0 then now' else snd (env ! (k - 1))) \<or> k = length env)"
      by blast
    then show ?thesis
      by (intro exI [of _ "Suc k"]) (cases k; auto simp: e Let_def split: option.splits)
  next
    case False
    show ?thesis
    proof (cases rule: pop_next_cases [of s])
      case 1
      with False Cons.prems have "r = None \<and> s' = s" by (auto simp: e step split: if_splits)
      with 1 False show ?thesis by (intro exI [of _ 0]) auto
    next
      case (2 it s1)
      with Cons.prems have "r = Some it \<and> s' = s1" by (simp add: e step)
      with 2 show ?thesis by (intro exI [of _ 0]) simp
    qed
  qed
qed

lemma fold_run_env_wf: "sched_wf s \<Longrightarrow> sched_wf (fold (\<lambda>e s. run_env s (fst e)) es s)"
  by (induction es arbitrary: s) (simp_all add: run_env_wf)

text \<open>\<open>next_blocking\<close> never misses work. It gives up only in a state with all queues
  empty, and then only because of a shutdown, an expired deadline, or because no other thread
  called any more; when it returns an item, that item was the head of the service order, with
  no queued item of a higher priority, and it alone left the queues. The other threads' calls
  while it waits are arbitrary.\<close>

theorem next_blocking_never_misses_work:
  assumes "sched_wf s" and "next_blocking timeout_ms now env s = (r, s')"
  shows "case r of
      None \<Rightarrow> queued s' = [] \<and>
        (s_shutdown s' \<or> now + of_int (max timeout_ms 0) / 1000 \<le> now
          \<or> (\<exists>e \<in> set env. now + of_int (max timeout_ms 0) / 1000 \<le> snd e)
          \<or> s' = fold (\<lambda>e s. run_env s (fst e)) env s)
    | Some it \<Rightarrow> \<exists>k t. t = fold (\<lambda>e s. run_env s (fst e)) (take k env) s \<and>
        queued t = it # queued s' \<and>
        (\<forall>x \<in> set (queued s'). spec_rank (item_priority it) \<le> spec_rank (item_priority x))"
proof -
  let ?d = "deadline_of now timeout_ms"
  from assms(2) have "next_blocking_from ?d now env s = (r, s')" by (simp add: next_blocking_def)
  from next_blocking_from_result [OF this] obtain k where "k \<le> length env"
    and R: "let t = fold (\<lambda>e s. run_env s (fst e)) (take k env) s in
        case r of Some it \<Rightarrow> pop_next t = (Some it, s')
        | None \<Rightarrow> s' = t \<and> queued t = [] \<and>
          (s_shutdown t \<or> ?d \<le> (if k = 0 then now else snd (env ! (k - 1))) \<or> k = length env)"
    by blast
  let ?t = "fold (\<lambda>e s. run_env s (fst e)) (take k env) s"
  have wf: "sched_wf ?t" by (rule fold_run_env_wf) (rule assms(1))
  show ?thesis
  proof (cases r)
    case None
    have "k \<noteq> 0 \<Longrightarrow> env ! (k - 1) \<in> set env" using \<open>k \<le> length env\<close> by simp
    with None R show ?thesis
      by (auto simp: Let_def deadline_of_def split: if_splits)
  next
    case (Some it)
    with R have pop: "pop_next ?t = (Some it, s')" by simp
    from pop_next_Some [OF pop] have "queued ?t = it # queued s'" by blast
    moreover from this queued_sorted [OF wf]
    have "\<forall>x \<in> set (queued s'). spec_rank (item_priority it) \<le> spec_rank (item_priority x)" by simp
    ultimately show ?thesis using Some by auto
  qed
qed

text \<open>A waiter that is parked when another thread submits gets the submitted item.\<close>

theorem next_blocking_never_misses_work_witness:
  "case next_blocking 200 0 [([Submit ''a'' ''low'' 7], 1 / 10)] sched_two of (r, s') \<Rightarrow>
     map_option item_payload r = Some 7 \<and> queued s' = []"
proof -
  let ?it = "\<lparr>item_id = ''a'', item_priority = Low, item_payload = 7\<rparr>"
  have wf: "sched_wf sched_two" by (rule sched_wf_init [OF sched_two_init])
  obtain r s' where run: "next_blocking 200 0 [([Submit ''a'' ''low'' 7], 1 / 10)] sched_two = (r, s')"
    by (cases "next_blocking 200 0 [([Submit ''a'' ''low'' (7::nat)], 1 / 10)] sched_two")
  then have "r = Some ?it"
    by (simp add: next_blocking_def next_blocking_from.simps deadline_of_def sched_two_def
        pop_next_def priorities_def run_env_def submit_def sched_len_def split: if_splits)
  moreover from this next_blocking_never_misses_work [OF wf run]
  obtain k t where t: "t = fold (\<lambda>e s. run_env s (fst e)) (take k [([Submit ''a'' ''low'' 7], 1 / 10 :: rat)]) sched_two"
    and q: "queued t = ?it # queued s'" by auto
  have "length (queued t) \<le> 1"
    by (cases k) (simp_all add: t run_env_def sched_two_def submit_def sched_len_def priorities_def queued_def)
  ultimately show ?thesis using run q by simp
qed

text \<open>The discipline of ids that the gateway keeps: every queued id is distinct and known.\<close>

definition sched_ids_ok :: "'p scheduler \<Rightarrow> bool" where
  "sched_ids_ok s \<longleftrightarrow> distinct (map item_id (queued s)) \<and> s_known s = item_id ` set (queued s)"

lemma cancel_exact:
  assumes "sched_ids_ok s" and "cancel s rid = Inr s'"
  shows "queued s' = filter (\<lambda>it. item_id it \<noteq> rid) (queued s) \<and> sched_ids_ok s'"
proof -
  from cancel_Inr [OF assms(2)] have del: "del_first rid (queued s) = Some (queued s')"
    and known: "s_known s' = s_known s - {rid}" by auto
  from del_first_Some [OF del] obtain xs it ys
    where q: "queued s = xs @ it # ys" "queued s' = xs @ ys" "item_id it = rid" by blast
  from assms(1) q have "rid \<notin> item_id ` set (xs @ ys)" by (auto simp: sched_ids_ok_def)
  then have "filter (\<lambda>it. item_id it \<noteq> rid) xs = xs" "filter (\<lambda>it. item_id it \<noteq> rid) ys = ys"
    by (auto simp: filter_id_conv)
  with q have "filter (\<lambda>it. item_id it \<noteq> rid) (queued s) = queued s'" by simp
  moreover have "sched_ids_ok s'"
    using assms(1) q known \<open>rid \<notin> _\<close> by (auto simp: sched_ids_ok_def)
  ultimately show ?thesis by simp
qed

lemma submit_ids_ok:
  assumes "sched_ids_ok s" "rid \<notin> item_id ` set (queued s)" "submit s rid pr pl = Inr s'"
  shows "sched_ids_ok s' \<and> item_id ` set (queued s') = insert rid (item_id ` set (queued s))"
proof -
  from mset_queued_submit [OF assms(3)] obtain p where
    m: "mset (queued s') = add_mset \<lparr>item_id = rid, item_priority = p, item_payload = pl\<rparr> (mset (queued s))"
    by auto
  let ?it = "\<lparr>item_id = rid, item_priority = p, item_payload = pl\<rparr>"
  from m have "mset (map item_id (queued s')) = mset (map item_id (?it # queued s))"
    by (simp add: mset_map)
  from mset_eq_imp_distinct_iff [OF this] mset_eq_setD [OF this]
  have "distinct (map item_id (queued s'))" "item_id ` set (queued s') = insert rid (item_id ` set (queued s))"
    using assms(1,2) by (simp_all add: sched_ids_ok_def)
  moreover from submit_Inr [OF assms(3)] have "s_known s' = insert rid (s_known s)" by auto
  ultimately show ?thesis using assms(1) by (simp add: sched_ids_ok_def)
qed

lemma pop_ids_ok:
  assumes "sched_ids_ok s" "pop_next s = (r, s')"
  shows "sched_ids_ok s' \<and> set (queued s') \<subseteq> set (queued s)"
proof (cases r)
  case None
  with assms pop_next_None [of s s'] show ?thesis by simp
next
  case (Some it)
  with assms(2) pop_next_Some [of s it s'] have "queued s = it # queued s'" "s_known s' = s_known s - {item_id it}"
    by auto
  with assms(1) show ?thesis by (auto simp: sched_ids_ok_def)
qed

text \<open>\<open>cancel\<close> under the runtime's own discipline. When the queued ids are distinct and
  known (the router submits an id once), a successful cancel leaves no item with that id and
  keeps every other item, and the discipline itself.\<close>

theorem cancel_removes_exactly_the_id:
  assumes "sched_ids_ok s" and "cancel s rid = Inr s'"
  shows "queued s' = filter (\<lambda>it. item_id it \<noteq> rid) (queued s) \<and> sched_ids_ok s'"
  using assms by (rule cancel_exact)

theorem cancel_removes_exactly_the_id_witness:
  "\<exists>s'. cancel (fst (run_trace sched_step sched_two [Submit ''a'' ''low'' 1, Submit ''b'' ''high'' 2])) ''a''
      = Inr s' \<and> map item_id (queued s') = [''b'']"
proof -
  let ?s = "fst (run_trace sched_step sched_two [Submit ''a'' ''low'' 1, Submit ''b'' ''high'' 2])"
  have ok: "sched_ids_ok ?s" and q: "map item_id (queued ?s) = [''b'', ''a'']"
    by (simp_all add: run_trace_simps sched_two_def submit_def sched_len_def priorities_def
        queued_def sched_ids_ok_def insert_commute)
  obtain s' where c: "cancel ?s ''a'' = Inr s'"
    by (simp add: run_trace_simps sched_two_def submit_def sched_len_def priorities_def cancel_def)
  with cancel_removes_exactly_the_id [OF ok c] q show ?thesis
    by (auto simp: filter_map comp_def simp flip: filter_map
        intro!: exI [of _ s'] split: if_splits)
qed

text \<open>without that discipline an id queued twice is stranded by one cancel. The set
  \<open>_known\<close> forgets the id with the first copy, so afterwards the other copy is still queued,
  every further cancel of the id answers that there is no such request, and the copy leaves
  the scheduler only by being served.\<close>

theorem duplicate_id_is_stranded:
  assumes "cancel s rid = Inr s'" and "2 \<le> length (filter (\<lambda>it. item_id it = rid) (queued s))"
  shows "rid \<in> item_id ` set (queued s') \<and> cancel s' rid = Inl (not_found_error rid)"
proof -
  from cancel_Inr [OF assms(1)] have del: "del_first rid (queued s) = Some (queued s')"
    and known: "s_known s' = s_known s - {rid}" and "s_shutdown s' = s_shutdown s" by auto
  from del_first_Some [OF del] obtain xs it ys
    where q: "queued s = xs @ it # ys" "queued s' = xs @ ys" "item_id it = rid" by blast
  with assms(2) have "filter (\<lambda>it. item_id it = rid) (queued s') \<noteq> []" by auto
  then have "rid \<in> item_id ` set (queued s')" by (auto simp: filter_empty_conv)
  moreover have "\<not> s_shutdown s'"
    using assms(1) \<open>s_shutdown s' = _\<close> by (simp add: cancel_def split: if_splits)
  ultimately show ?thesis using known by (simp add: cancel_def)
qed

theorem duplicate_id_is_stranded_witness:
  "let s = fst (run_trace sched_step sched_two [Submit ''a'' ''low'' 1, Submit ''a'' ''low'' 2])
   in \<exists>s'. cancel s ''a'' = Inr s' \<and> ''a'' \<in> item_id ` set (queued s')
        \<and> cancel s' ''a'' = Inl (not_found_error ''a'')"
proof -
  let ?s = "fst (run_trace sched_step sched_two [Submit ''a'' ''low'' 1, Submit ''a'' ''low'' 2])"
  have two: "2 \<le> length (filter (\<lambda>it. item_id it = ''a'') (queued ?s))"
    by (simp add: run_trace_simps sched_two_def submit_def sched_len_def priorities_def queued_def)
  obtain s' where c: "cancel ?s ''a'' = Inr s'"
    by (simp add: run_trace_simps sched_two_def submit_def sched_len_def priorities_def cancel_def)
  with duplicate_id_is_stranded [OF c two] show ?thesis by (auto simp: Let_def)
qed

end
