(* ===== verification/Router.thy ===== *)
theory Router
  imports PyStr Interfaces
begin

text \<open>
  The request router (\<open>src/repercep/runtime/router.py\<close>, classes \<open>_PythonRouter\<close>, \<open>_Entry\<close> and
  \<open>_PythonFrameStream\<close>): per request a state machine and a bounded queue of frames, one
  producer (the engine driver) and at most one subscriber. All calls run on one event loop, so
  a method body is one step; the only suspension is \<open>queue.get()\<close> in \<open>__anext__\<close>, modelled by
  the result \<open>Park\<close> and a second call that resumes. The scheduler is a parameter: the two
  operations the router calls on it, over an abstract scheduler state.
\<close>

section \<open>Entries\<close>

datatype req_state = Scheduled | Streaming | Complete | Cancelled | Failed

fun state_str :: "req_state \<Rightarrow> string" where
  "state_str Scheduled = ''Scheduled''"
| "state_str Streaming = ''Streaming''"
| "state_str Complete = ''Complete''"
| "state_str Cancelled = ''Cancelled''"
| "state_str Failed = ''Failed''"

record frame_msg =
  fm_request :: string
  fm_index :: int
  fm_payload :: string
  fm_final :: bool

datatype qitem = Frame frame_msg | Sentinel

record entry =
  e_state :: req_state
  e_queue :: "qitem list"
  e_subscribed :: bool
  e_last :: "int option"
  e_closed :: bool

definition new_entry :: entry where
  "new_entry = \<lparr>e_state = Scheduled, e_queue = [], e_subscribed = False, e_last = None,
     e_closed = False\<rparr>"

definition terminal :: "req_state \<Rightarrow> bool" where
  "terminal st \<longleftrightarrow> st = Complete \<or> st = Cancelled \<or> st = Failed"

definition queue_full :: "int \<Rightarrow> entry \<Rightarrow> bool" where
  "queue_full depth en \<longleftrightarrow> depth \<le> int (length (e_queue en))"

text \<open>\<open>with suppress(asyncio.QueueFull): entry.queue.put_nowait(item)\<close>.\<close>

definition put_suppressed :: "int \<Rightarrow> qitem \<Rightarrow> entry \<Rightarrow> entry" where
  "put_suppressed depth it en =
     (if queue_full depth en then en else en\<lparr>e_queue := e_queue en @ [it]\<rparr>)"

definition out_of_order :: "entry \<Rightarrow> int \<Rightarrow> bool" where
  "out_of_order en idx = (case e_last en of None \<Rightarrow> False | Some l \<Rightarrow> idx \<le> l)"

definition push_entry ::
  "int \<Rightarrow> string \<Rightarrow> int \<Rightarrow> string \<Rightarrow> bool \<Rightarrow> entry \<Rightarrow> exn + entry" where
  "push_entry depth rid idx payload is_final en =
     (if terminal (e_state en) then
        Inl (RouterError (''invalid state transition: '' @ state_str (e_state en) @ '' -> Streaming''))
      else if out_of_order en idx then
        Inl (RouterError (''out-of-order frame for '' @ py_repr rid @ '': got index '' @ int_str idx
          @ '', expected > '' @ int_str (the (e_last en))))
      else if queue_full depth en then
        Inl (RouterError (''backpressure: queue depth '' @ int_str depth @ '' for request '' @ py_repr rid))
      else Inr (en\<lparr>e_last := Some idx,
             e_state := (if is_final then Complete else Streaming),
             e_closed := (is_final \<or> e_closed en),
             e_queue := e_queue en @ [Frame \<lparr>fm_request = rid, fm_index = idx,
               fm_payload = payload, fm_final = is_final\<rparr>]\<rparr>))"

definition cancel_entry :: "int \<Rightarrow> entry \<Rightarrow> exn + entry" where
  "cancel_entry depth en =
     (if terminal (e_state en) then
        Inl (RouterError (''invalid state transition: '' @ state_str (e_state en) @ '' -> Cancelled''))
      else Inr (put_suppressed depth Sentinel (en\<lparr>e_state := Cancelled, e_closed := True\<rparr>)))"

definition shutdown_entry :: "int \<Rightarrow> entry \<Rightarrow> entry" where
  "shutdown_entry depth en = put_suppressed depth Sentinel (en\<lparr>e_closed := True\<rparr>)"

definition subscribe_entry :: "string \<Rightarrow> entry \<Rightarrow> exn + entry" where
  "subscribe_entry rid en =
     (if e_subscribed en then Inl (RouterError (''stream already subscribed: '' @ py_repr rid))
      else Inr (en\<lparr>e_subscribed := True\<rparr>))"

section \<open>The frame stream\<close>

datatype anext_result = Item frame_msg | Stop | Park

text \<open>\<open>item = await self._entry.queue.get()\<close> and what follows it.\<close>

definition get_item :: "entry \<Rightarrow> anext_result \<times> entry" where
  "get_item en =
     (case e_queue en of
        [] \<Rightarrow> (Park, en)
      | Sentinel # q \<Rightarrow> (Stop, en\<lparr>e_queue := q\<rparr>)
      | Frame f # q \<Rightarrow> (Item f, en\<lparr>e_queue := q\<rparr>))"

definition anext :: "entry \<Rightarrow> anext_result \<times> entry" where
  "anext en = (if e_closed en \<and> e_queue en = [] then (Stop, en) else get_item en)"

section \<open>The router\<close>

record 's sched_handle =
  h_submit :: "'s \<Rightarrow> string \<Rightarrow> string \<Rightarrow> exn option \<times> 's"
  h_cancel :: "'s \<Rightarrow> string \<Rightarrow> exn option \<times> 's"

record router =
  r_depth :: int
  r_requests :: "(string, entry) dict"
  r_shutdown :: bool

definition router_init :: "int \<Rightarrow> exn + router" where
  "router_init depth =
     (if depth < 1 then Inl (ValueError ''per_request_queue_depth must be >= 1'')
      else Inr \<lparr>r_depth = depth, r_requests = [], r_shutdown = False\<rparr>)"

definition router_prios :: "(string, string) dict" where
  "router_prios = [(''low'', ''Low''), (''normal'', ''Normal''), (''high'', ''High'')]"

definition parse_priority :: "string \<Rightarrow> exn + string" where
  "parse_priority p =
     (case map_of router_prios (lower p) of
        None \<Rightarrow> Inl (RouterError (''invalid priority: '' @ p))
      | Some c \<Rightarrow> Inr c)"

definition find_entry :: "router \<Rightarrow> string \<Rightarrow> exn + entry" where
  "find_entry r rid =
     (case map_of (r_requests r) rid of
        None \<Rightarrow> Inl (RouterError (''unknown request: '' @ py_repr rid))
      | Some en \<Rightarrow> Inr en)"

definition set_entry :: "router \<Rightarrow> string \<Rightarrow> entry \<Rightarrow> router" where
  "set_entry r rid en = r\<lparr>r_requests := AList.update rid en (r_requests r)\<rparr>"

definition accept ::
  "'s sched_handle \<Rightarrow> router \<Rightarrow> 's \<Rightarrow> string \<Rightarrow> string \<Rightarrow> exn option \<times> router \<times> 's" where
  "accept h r sc rid priority =
     (if r_shutdown r then (Some (RouterError ''router is shutting down''), r, sc)
      else case parse_priority priority of
        Inl e \<Rightarrow> (Some e, r, sc)
      | Inr canonical \<Rightarrow>
          if map_of (r_requests r) rid \<noteq> None then
            (Some (RouterError (''duplicate request id: '' @ py_repr rid)), r, sc)
          else
            let r1 = set_entry r rid new_entry
            in case h_submit h sc rid canonical of
                 (None, sc') \<Rightarrow> (None, r1, sc')
               | (Some e, sc') \<Rightarrow>
                   (Some (RouterError (''scheduler error: '' @ exn_str e)),
                    r1\<lparr>r_requests := AList.delete rid (r_requests r1)\<rparr>, sc'))"

definition subscribe :: "router \<Rightarrow> string \<Rightarrow> exn + router" where
  "subscribe r rid =
     (case find_entry r rid of
        Inl e \<Rightarrow> Inl e
      | Inr en \<Rightarrow>
          (case subscribe_entry rid en of
             Inl e \<Rightarrow> Inl e
           | Inr en' \<Rightarrow> Inr (set_entry r rid en')))"

definition push_frame :: "router \<Rightarrow> string \<Rightarrow> int \<Rightarrow> string \<Rightarrow> bool \<Rightarrow> exn + router" where
  "push_frame r rid idx payload is_final =
     (case find_entry r rid of
        Inl e \<Rightarrow> Inl e
      | Inr en \<Rightarrow>
          (case push_entry (r_depth r) rid idx payload is_final en of
             Inl e \<Rightarrow> Inl e
           | Inr en' \<Rightarrow> Inr (set_entry r rid en')))"

text \<open>The scheduler's own failure is suppressed; its state change is not.\<close>

definition router_cancel ::
  "'s sched_handle \<Rightarrow> router \<Rightarrow> 's \<Rightarrow> string \<Rightarrow> exn option \<times> router \<times> 's" where
  "router_cancel h r sc rid =
     (case find_entry r rid of
        Inl e \<Rightarrow> (Some e, r, sc)
      | Inr en \<Rightarrow>
          (case cancel_entry (r_depth r) en of
             Inl e \<Rightarrow> (Some e, r, sc)
           | Inr en' \<Rightarrow> (None, set_entry r rid en', snd (h_cancel h sc rid))))"

definition router_state :: "router \<Rightarrow> string \<Rightarrow> req_state option" where
  "router_state r rid = map_option e_state (map_of (r_requests r) rid)"

definition router_shutdown :: "router \<Rightarrow> router" where
  "router_shutdown r = r\<lparr>r_shutdown := True,
     r_requests := map (\<lambda>(k, en). (k, shutdown_entry (r_depth r) en)) (r_requests r)\<rparr>"

text \<open>One call, or one resumption, of the coroutine \<open>__anext__\<close> on the stream of \<open>rid\<close>.\<close>

definition anext_or_resume :: "bool \<Rightarrow> entry \<Rightarrow> anext_result \<times> entry" where
  "anext_or_resume parked en = (if parked then get_item en else anext en)"

section \<open>One request as a channel\<close>

text \<open>
  The life of one accepted request: the producer pushes, anyone may cancel, the router may
  shut down, and the subscriber asks for the next item. A subscriber whose call parked is
  resumed by its next step, which goes straight to the queue, as the coroutine does.
\<close>

datatype chan_op = Push int string bool | CancelReq | ShutdownReq | SubscribeReq | Next

record channel =
  c_entry :: entry
  c_parked :: bool

datatype chan_event =
    Put "qitem list" | Got "qitem list" anext_result | Error exn

text \<open>The items a call appended: what the new queue has beyond the old one.\<close>

definition appended :: "entry \<Rightarrow> entry \<Rightarrow> qitem list" where
  "appended en en' = drop (length (e_queue en)) (e_queue en')"

fun chan_step :: "int \<Rightarrow> string \<Rightarrow> channel \<Rightarrow> chan_op \<Rightarrow> channel \<times> chan_event" where
  "chan_step depth rid c (Push idx payload is_final) =
     (case push_entry depth rid idx payload is_final (c_entry c) of
        Inl e \<Rightarrow> (c, Error e)
      | Inr en \<Rightarrow> (c\<lparr>c_entry := en\<rparr>, Put (appended (c_entry c) en)))"
| "chan_step depth rid c CancelReq =
     (case cancel_entry depth (c_entry c) of
        Inl e \<Rightarrow> (c, Error e)
      | Inr en \<Rightarrow> (c\<lparr>c_entry := en\<rparr>, Put (appended (c_entry c) en)))"
| "chan_step depth rid c ShutdownReq =
     (let en = shutdown_entry depth (c_entry c)
      in (c\<lparr>c_entry := en\<rparr>, Put (appended (c_entry c) en)))"
| "chan_step depth rid c SubscribeReq =
     (case subscribe_entry rid (c_entry c) of
        Inl e \<Rightarrow> (c, Error e)
      | Inr en \<Rightarrow> (c\<lparr>c_entry := en\<rparr>, Put (appended (c_entry c) en)))"
| "chan_step depth rid c Next =
     (let (res, en) = anext_or_resume (c_parked c) (c_entry c)
      in (\<lparr>c_entry = en, c_parked = (res = Park)\<rparr>,
          Got (take (length (e_queue (c_entry c)) - length (e_queue en)) (e_queue (c_entry c))) res))"

definition new_channel :: channel where
  "new_channel = \<lparr>c_entry = new_entry, c_parked = False\<rparr>"

fun ch_gained :: "chan_event \<Rightarrow> qitem list" where
  "ch_gained (Put xs) = xs"
| "ch_gained _ = []"

fun ch_lost :: "chan_event \<Rightarrow> qitem list" where
  "ch_lost (Got xs r) = xs"
| "ch_lost _ = []"

lemma put_suppressed_simps [simp]:
  "e_state (put_suppressed d it en) = e_state en"
  "e_closed (put_suppressed d it en) = e_closed en"
  "e_last (put_suppressed d it en) = e_last en"
  "e_subscribed (put_suppressed d it en) = e_subscribed en"
  by (simp_all add: put_suppressed_def)

lemma e_queue_put_suppressed:
  "e_queue (put_suppressed d it en) =
     (if d \<le> int (length (e_queue en)) then e_queue en else e_queue en @ [it])"
  by (simp add: put_suppressed_def queue_full_def)

lemmas entry_defs = push_entry_def cancel_entry_def shutdown_entry_def subscribe_entry_def queue_full_def
  e_queue_put_suppressed appended_def

lemma get_item_cases:
  obtains "e_queue en = []" "get_item en = (Park, en)"
  | q where "e_queue en = Sentinel # q" "get_item en = (Stop, en\<lparr>e_queue := q\<rparr>)"
  | f q where "e_queue en = Frame f # q" "get_item en = (Item f, en\<lparr>e_queue := q\<rparr>)"
proof (cases "e_queue en")
  case (Cons a q)
  then show thesis by (cases a) (simp_all add: get_item_def that)
qed (simp add: get_item_def that)

lemma anext_cases:
  obtains "e_closed en" "e_queue en = []" "anext en = (Stop, en)"
  | "\<not> e_closed en" "e_queue en = []" "anext en = (Park, en)"
  | q where "e_queue en = Sentinel # q" "anext en = (Stop, en\<lparr>e_queue := q\<rparr>)"
  | f q where "e_queue en = Frame f # q" "anext en = (Item f, en\<lparr>e_queue := q\<rparr>)"
  by (cases rule: get_item_cases [of en]) (auto simp: anext_def split: if_splits)

text \<open>
  The channel invariant for a queue depth of at least one: the bound; a parked subscriber has
  something to read as soon as the entry is closed; the state and the closed flag agree on
  completion; no entry ever reaches \<open>Failed\<close>.
\<close>

definition chan_inv :: "int \<Rightarrow> channel \<Rightarrow> bool" where
  "chan_inv depth c \<longleftrightarrow> 1 \<le> depth \<and> int (length (e_queue (c_entry c))) \<le> depth \<and>
     (c_parked c \<longrightarrow> e_closed (c_entry c) \<longrightarrow> e_queue (c_entry c) \<noteq> []) \<and>
     (terminal (e_state (c_entry c)) \<longrightarrow> e_closed (c_entry c)) \<and>
     e_state (c_entry c) \<noteq> Failed"

lemma chan_step_inv: "chan_inv d c \<Longrightarrow> chan_inv d (fst (chan_step d rid c x))"
proof (cases x)
  case Next
  assume inv: "chan_inv d c"
  show ?thesis
  proof (cases "c_parked c")
    case True
    with inv Next show ?thesis
      by (cases rule: get_item_cases [of "c_entry c"]) (auto simp: chan_inv_def anext_or_resume_def)
  next
    case False
    with inv Next show ?thesis
      by (cases rule: anext_cases [of "c_entry c"]) (auto simp: chan_inv_def anext_or_resume_def)
  qed
qed (auto simp: chan_inv_def entry_defs terminal_def Let_def split: sum.splits if_splits)

lemma chan_step_fifo:
  "ch_lost (snd (chan_step d rid c x)) @ e_queue (c_entry (fst (chan_step d rid c x)))
     = e_queue (c_entry c) @ ch_gained (snd (chan_step d rid c x))"
proof (cases x)
  case Next
  show ?thesis
  proof (cases "c_parked c")
    case True
    with Next show ?thesis
      by (cases rule: get_item_cases [of "c_entry c"]) (auto simp: anext_or_resume_def)
  next
    case False
    with Next show ?thesis
      by (cases rule: anext_cases [of "c_entry c"]) (auto simp: anext_or_resume_def)
  qed
qed (auto simp: entry_defs Let_def split: sum.splits if_splits)

interpretation chan: fifo_channel "chan_inv d" "chan_step d rid" "\<lambda>c. e_queue (c_entry c)"
    ch_gained ch_lost for d rid
  by unfold_locales (simp_all add: chan_step_inv chan_step_fifo)

lemma chan_inv_new: "1 \<le> d \<Longrightarrow> chan_inv d new_channel"
  by (simp add: chan_inv_def new_channel_def new_entry_def terminal_def)

subsection \<open>What enters and what leaves\<close>

fun frames_of :: "qitem list \<Rightarrow> frame_msg list" where
  "frames_of [] = []"
| "frames_of (Frame f # q) = f # frames_of q"
| "frames_of (Sentinel # q) = frames_of q"

fun delivered_of :: "chan_event \<Rightarrow> frame_msg list" where
  "delivered_of (Got xs (Item f)) = [f]"
| "delivered_of _ = []"

definition delivered :: "chan_event list \<Rightarrow> frame_msg list" where
  "delivered es = concat (map delivered_of es)"

definition pushed :: "chan_event list \<Rightarrow> frame_msg list" where
  "pushed es = frames_of (concat (map ch_gained es))"

lemma frames_of_append [simp]: "frames_of (xs @ ys) = frames_of xs @ frames_of ys"
  by (induction xs rule: frames_of.induct) auto

lemma chan_step_delivered:
  "frames_of (ch_lost (snd (chan_step d rid c x))) = delivered_of (snd (chan_step d rid c x))"
proof (cases x)
  case Next
  show ?thesis
  proof (cases "c_parked c")
    case True
    with Next show ?thesis
      by (cases rule: get_item_cases [of "c_entry c"]) (auto simp: anext_or_resume_def)
  next
    case False
    with Next show ?thesis
      by (cases rule: anext_cases [of "c_entry c"]) (auto simp: anext_or_resume_def)
  qed
qed (auto simp: Let_def split: sum.splits)

lemma run_delivered:
  "frames_of (concat (map ch_lost (snd (run_trace (chan_step d rid) c ops))))
     = delivered (snd (run_trace (chan_step d rid) c ops))"
  by (induction ops arbitrary: c) (simp_all add: run_trace_simps delivered_def chan_step_delivered)

text \<open>What one step does to the fields that decide about later pushes.\<close>

lemma chan_step_pushed:
  "frames_of (ch_gained (snd (chan_step d rid c x))) \<noteq> [] \<Longrightarrow>
     \<exists>f. frames_of (ch_gained (snd (chan_step d rid c x))) = [f] \<and> fm_request f = rid
       \<and> \<not> terminal (e_state (c_entry c)) \<and> \<not> out_of_order (c_entry c) (fm_index f)
       \<and> e_last (c_entry (fst (chan_step d rid c x))) = Some (fm_index f)
       \<and> terminal (e_state (c_entry (fst (chan_step d rid c x)))) = fm_final f"
  by (cases x)
    (auto simp: entry_defs terminal_def Let_def split: sum.splits if_splits prod.splits)

lemma chan_step_quiet:
  assumes "frames_of (ch_gained (snd (chan_step d rid c x))) = []"
  shows "e_last (c_entry (fst (chan_step d rid c x))) = e_last (c_entry c)
    \<and> (terminal (e_state (c_entry c)) \<longrightarrow> e_state (c_entry (fst (chan_step d rid c x))) = e_state (c_entry c))"
proof (cases x)
  case Next
  show ?thesis
  proof (cases "c_parked c")
    case True
    with Next show ?thesis
      by (cases rule: get_item_cases [of "c_entry c"]) (auto simp: anext_or_resume_def)
  next
    case False
    with Next show ?thesis
      by (cases rule: anext_cases [of "c_entry c"]) (auto simp: anext_or_resume_def)
  qed
qed (use assms in \<open>auto simp: entry_defs Let_def split: sum.splits if_splits\<close>)

lemma run_pushed:
  fixes d :: int and rid :: string
  defines "fs \<equiv> \<lambda>c ops. pushed (snd (run_trace (chan_step d rid) c ops))"
  shows "(terminal (e_state (c_entry c)) \<longrightarrow> fs c ops = [])
    \<and> (\<forall>f \<in> set (fs c ops). fm_request f = rid \<and> \<not> out_of_order (c_entry c) (fm_index f))
    \<and> sorted_wrt (<) (map fm_index (fs c ops))
    \<and> (\<forall>f \<in> set (butlast (fs c ops)). \<not> fm_final f)"
proof (induction ops arbitrary: c)
  case Nil
  then show ?case by (simp add: fs_def pushed_def)
next
  case (Cons x ops)
  let ?c1 = "fst (chan_step d rid c x)" and ?g = "frames_of (ch_gained (snd (chan_step d rid c x)))"
  have split: "fs c (x # ops) = ?g @ fs ?c1 ops"
    by (simp add: fs_def pushed_def run_trace_simps)
  note IH = Cons.IH [of ?c1]
  show ?case
  proof (cases "?g = []")
    case True
    with chan_step_quiet [OF True] IH show ?thesis
      by (simp add: split out_of_order_def)
  next
    case False
    then obtain f where f: "?g = [f]" "fm_request f = rid" "\<not> terminal (e_state (c_entry c))"
      "\<not> out_of_order (c_entry c) (fm_index f)" "e_last (c_entry ?c1) = Some (fm_index f)"
      "terminal (e_state (c_entry ?c1)) = fm_final f"
      using chan_step_pushed [of d rid c x] by blast
    have later: "\<not> out_of_order (c_entry c) i \<and> fm_index f < i"
      if "\<not> out_of_order (c_entry ?c1) i" for i
      using that f(4,5) by (auto simp: out_of_order_def split: option.splits)
    show ?thesis
      using IH f later by (auto simp: split)
  qed
qed

lemma chan_step_terminal:
  "terminal (e_state (c_entry c)) \<Longrightarrow>
    e_state (c_entry (fst (chan_step d rid c x))) = e_state (c_entry c)
    \<and> frames_of (ch_gained (snd (chan_step d rid c x))) = []"
  using chan_step_pushed [of d rid c x] chan_step_quiet [of d rid c x] by blast

lemma terminal_stays:
  "terminal (e_state (c_entry c)) \<Longrightarrow>
    e_state (c_entry (fst (run_trace (chan_step d rid) c ops))) = e_state (c_entry c)"
  by (induction ops arbitrary: c) (simp_all add: run_trace_simps chan_step_terminal)

lemma chan_step_state:
  "e_state (c_entry (fst (chan_step d rid c x))) =
     (case frames_of (ch_gained (snd (chan_step d rid c x))) of
        f # _ \<Rightarrow> if fm_final f then Complete else Streaming
      | [] \<Rightarrow> e_state (c_entry (fst (chan_step d rid c x))))
   \<and> (frames_of (ch_gained (snd (chan_step d rid c x))) = [] \<longrightarrow>
        e_state (c_entry (fst (chan_step d rid c x))) \<in> {e_state (c_entry c), Cancelled})"
proof (cases x)
  case Next
  show ?thesis
  proof (cases "c_parked c")
    case True
    with Next show ?thesis
      by (cases rule: get_item_cases [of "c_entry c"]) (auto simp: anext_or_resume_def)
  next
    case False
    with Next show ?thesis
      by (cases rule: anext_cases [of "c_entry c"]) (auto simp: anext_or_resume_def)
  qed
qed (auto simp: entry_defs Let_def split: sum.splits if_splits)

lemma complete_iff_final_pushed:
  "\<not> terminal (e_state (c_entry c)) \<Longrightarrow>
    e_state (c_entry (fst (run_trace (chan_step d rid) c ops))) = Complete
      \<longleftrightarrow> (\<exists>f \<in> set (pushed (snd (run_trace (chan_step d rid) c ops))). fm_final f)"
proof (induction ops arbitrary: c)
  case Nil
  then show ?case by (auto simp: pushed_def terminal_def)
next
  case (Cons x ops)
  let ?c1 = "fst (chan_step d rid c x)" and ?g = "frames_of (ch_gained (snd (chan_step d rid c x)))"
  have split: "pushed (snd (run_trace (chan_step d rid) c (x # ops)))
      = ?g @ pushed (snd (run_trace (chan_step d rid) ?c1 ops))"
    by (simp add: pushed_def run_trace_simps)
  have later: "pushed (snd (run_trace (chan_step d rid) ?c1 ops)) = []" if "terminal (e_state (c_entry ?c1))"
    using run_pushed [where c = ?c1 and d = d and rid = rid and ops = ops] that by simp
  show ?case
  proof (cases "terminal (e_state (c_entry ?c1))")
    case False
    moreover have "\<not> (\<exists>f \<in> set ?g. fm_final f)"
      using chan_step_pushed [of d rid c x] False by (cases "?g = []") auto
    ultimately show ?thesis using Cons.IH [of ?c1] unfolding split by (auto simp: run_trace_simps)
  next
    case True
    have "e_state (c_entry ?c1) = Complete \<longleftrightarrow> (\<exists>f \<in> set ?g. fm_final f)"
    proof (cases "?g = []")
      case empty: True
      with chan_step_state [of d rid c x] Cons.prems True show ?thesis by (auto simp: terminal_def)
    next
      case False
      from chan_step_pushed [OF this] obtain f where "?g = [f]" "terminal (e_state (c_entry ?c1)) = fm_final f"
        by blast
      with chan_step_state [of d rid c x] True show ?thesis by simp
    qed
    with terminal_stays [OF True, of d rid ops] later [OF True] show ?thesis
      unfolding split by (simp add: run_trace_simps)
  qed
qed

section \<open>Properties of a request\<close>

text \<open>C2: the subscriber sees the producer's frames, in order. Whatever pushes, cancels,
  shutdowns and reads happen to a request, the frames delivered to the subscriber are a prefix
  of the frames accepted from the producer; their indices are strictly increasing, they all
  carry the request's id, only the last can be final, and the queue never exceeds its depth.\<close>

theorem stream_delivers_in_order:
  fixes depth :: int and rid :: string
  assumes "1 \<le> depth"
  defines "run \<equiv> run_trace (chan_step depth rid) new_channel"
  shows "prefix (delivered (snd (run ops))) (pushed (snd (run ops)))
    \<and> sorted_wrt (<) (map fm_index (delivered (snd (run ops))))
    \<and> (\<forall>f \<in> set (delivered (snd (run ops))). fm_request f = rid)
    \<and> (\<forall>f \<in> set (butlast (delivered (snd (run ops)))). \<not> fm_final f)
    \<and> int (length (e_queue (c_entry (fst (run ops))))) \<le> depth"
proof -
  have inv: "chan_inv depth new_channel" using assms(1) by (rule chan_inv_new)
  have "concat (map ch_lost (snd (run ops))) @ e_queue (c_entry (fst (run ops)))
      = concat (map ch_gained (snd (run ops)))"
    using chan.run_fifo [OF inv, of rid ops]
    by (simp add: run_def) (simp add: new_channel_def new_entry_def)
  from arg_cong [OF this, of frames_of]
  have pre: "prefix (delivered (snd (run ops))) (pushed (snd (run ops)))"
    by (auto simp: run_delivered run_def pushed_def prefix_def intro: sym)
  then obtain rest where rest: "pushed (snd (run ops)) = delivered (snd (run ops)) @ rest"
    by (auto simp: prefix_def)
  have "chan_inv depth (fst (run ops))"
    unfolding run_def by (rule chan.run_inv) (rule inv)
  moreover have "\<forall>f \<in> set (butlast (delivered (snd (run ops)))). \<not> fm_final f"
  proof
    fix f assume "f \<in> set (butlast (delivered (snd (run ops))))"
    then have "f \<in> set (butlast (pushed (snd (run ops))))"
      by (auto simp: rest butlast_append dest: in_set_butlastD)
    with run_pushed [where d = depth and rid = rid and c = new_channel and ops = ops]
    show "\<not> fm_final f" by (simp add: run_def)
  qed
  moreover have "sorted_wrt (<) (map fm_index (pushed (snd (run ops))))"
    and "\<forall>f \<in> set (pushed (snd (run ops))). fm_request f = rid"
    using run_pushed [where d = depth and rid = rid and c = new_channel and ops = ops]
    by (simp_all add: run_def)
  ultimately show ?thesis
    using pre by (simp add: chan_inv_def rest sorted_wrt_append)
qed

theorem stream_delivers_in_order_witness:
  "map fm_index (delivered (snd (run_trace (chan_step 2 ''r'') new_channel
     [Push 0 ''x'' False, Next, Push 0 ''y'' False, Push 4 ''z'' True, Push 5 ''w'' False, Next]))) = [0, 4]
   \<and> prefix (delivered (snd (run_trace (chan_step 2 ''r'') new_channel
       [Push 0 ''x'' False, Next, Push 0 ''y'' False, Push 4 ''z'' True, Push 5 ''w'' False, Next])))
     (pushed (snd (run_trace (chan_step 2 ''r'') new_channel
       [Push 0 ''x'' False, Next, Push 0 ''y'' False, Push 4 ''z'' True, Push 5 ''w'' False, Next])))"
proof
  show "prefix (delivered (snd (run_trace (chan_step 2 ''r'') new_channel
       [Push 0 ''x'' False, Next, Push 0 ''y'' False, Push 4 ''z'' True, Push 5 ''w'' False, Next])))
     (pushed (snd (run_trace (chan_step 2 ''r'') new_channel
       [Push 0 ''x'' False, Next, Push 0 ''y'' False, Push 4 ''z'' True, Push 5 ''w'' False, Next])))"
    using stream_delivers_in_order [of 2 "''r''"] by simp
qed (simp add: run_trace_simps delivered_def new_channel_def new_entry_def entry_defs terminal_def
      anext_or_resume_def anext_def get_item_def out_of_order_def)

text \<open>the request state machine. A request that is \<open>Complete\<close> or \<open>Cancelled\<close> stays in that
  state whatever is called: no later frame is accepted, and every push and cancel is refused.
  The state \<open>Failed\<close>, which the guards also test, is never reached.\<close>

theorem terminal_requests_are_final:
  fixes depth :: int and rid :: string and ops :: "chan_op list"
  assumes "1 \<le> depth"
  defines "c \<equiv> fst (run_trace (chan_step depth rid) new_channel ops)"
  shows "e_state (c_entry c) \<noteq> Failed \<and>
    (terminal (e_state (c_entry c)) \<longrightarrow>
      e_state (c_entry (fst (run_trace (chan_step depth rid) c later_ops))) = e_state (c_entry c)
      \<and> pushed (snd (run_trace (chan_step depth rid) c later_ops)) = []
      \<and> (\<forall>idx p fin. \<exists>e. push_entry depth rid idx p fin (c_entry c) = Inl e)
      \<and> (\<exists>e. cancel_entry depth (c_entry c) = Inl e))"
proof -
  have "chan_inv depth c"
    unfolding c_def by (rule chan.run_inv) (rule chan_inv_new [OF assms(1)])
  moreover have "e_state (c_entry (fst (run_trace (chan_step depth rid) t later_ops))) = e_state (c_entry t)"
    if "terminal (e_state (c_entry t))" for t
    using that
  proof (induction later_ops arbitrary: t)
    case (Cons x later_ops)
    have "frames_of (ch_gained (snd (chan_step depth rid t x))) = []"
      using chan_step_pushed [of depth rid t x] Cons.prems by blast
    from chan_step_quiet [OF this] Cons.prems Cons.IH [of "fst (chan_step depth rid t x)"]
    show ?case by (simp add: run_trace_simps)
  qed simp
  moreover have "terminal (e_state (c_entry c)) \<Longrightarrow> pushed (snd (run_trace (chan_step depth rid) c later_ops)) = []"
    using run_pushed [where d = depth and rid = rid and c = c and ops = later_ops] by blast
  ultimately show ?thesis
    by (auto simp: chan_inv_def push_entry_def cancel_entry_def)
qed

theorem terminal_requests_are_final_witness:
  "e_state (c_entry (fst (run_trace (chan_step 2 ''r'')
      (fst (run_trace (chan_step 2 ''r'') new_channel [Push 0 ''x'' False, CancelReq]))
      [Push 1 ''y'' True, ShutdownReq, Next]))) = Cancelled"
proof -
  have st: "e_state (c_entry (fst (run_trace (chan_step 2 ''r'') new_channel
      [Push 0 ''x'' False, CancelReq]))) = Cancelled"
    by (simp add: run_trace_simps new_channel_def new_entry_def entry_defs terminal_def out_of_order_def)
  with terminal_requests_are_final [of 2 "''r''" "[Push 0 ''x'' False, CancelReq]"
      "[Push 1 ''y'' True, ShutdownReq, Next]"]
  show ?thesis by (simp add: terminal_def)
qed

fun result_of :: "chan_event \<Rightarrow> anext_result option" where
  "result_of (Got xs r) = Some r"
| "result_of _ = None"

definition read_all :: "int \<Rightarrow> string \<Rightarrow> channel \<Rightarrow> nat \<Rightarrow> anext_result list" where
  "read_all depth rid c n =
     map (the \<circ> result_of) (snd (run_trace (chan_step depth rid) c (replicate n Next)))"

lemma read_all_Suc:
  "read_all d rid c (Suc n) =
     fst (anext_or_resume (c_parked c) (c_entry c)) # read_all d rid (fst (chan_step d rid c Next)) n"
  by (simp add: read_all_def run_trace_simps split: prod.splits)

lemma read_closed:
  assumes "chan_inv d c" and "e_closed (c_entry c)"
  shows "\<exists>fs. length fs \<le> length (e_queue (c_entry c)) \<and>
    read_all d rid c (Suc (length fs)) = map Item fs @ [Stop]"
  using assms
proof (induction "length (e_queue (c_entry c))" arbitrary: c rule: less_induct)
  case less
  let ?en = "c_entry c"
  have stop: ?case if "fst (anext_or_resume (c_parked c) ?en) = Stop"
    using that by (intro exI [of _ "[]"]) (auto simp: read_all_def run_trace_simps split: prod.splits)
  have item: ?case
    if q: "e_queue ?en = Frame f # q" and r: "anext_or_resume (c_parked c) ?en = (Item f, ?en\<lparr>e_queue := q\<rparr>)" for f q
  proof -
    let ?c1 = "fst (chan_step d rid c Next)"
    have c1: "c_entry ?c1 = ?en\<lparr>e_queue := q\<rparr>" by (simp add: r)
    have "chan_inv d ?c1" by (rule chan_step_inv) (rule less.prems(1))
    moreover have "e_closed (c_entry ?c1)" using less.prems(2) c1 by simp
    ultimately obtain fs where "length fs \<le> length (e_queue (c_entry ?c1))"
      and "read_all d rid ?c1 (Suc (length fs)) = map Item fs @ [Stop]"
      using less.hyps [of ?c1] q c1 by auto
    then show ?thesis
      using q c1 r by (intro exI [of _ "f # fs"]) (simp add: read_all_Suc)
  qed
  show ?case
  proof (cases "c_parked c")
    case True
    show ?thesis
    proof (cases rule: get_item_cases [of ?en])
      case 1
      with True less.prems show ?thesis by (simp add: chan_inv_def)
    next
      case 2
      then show ?thesis using True by (intro stop) (simp add: anext_or_resume_def)
    next
      case (3 f q)
      then show ?thesis using True by (intro item) (simp_all add: anext_or_resume_def)
    qed
  next
    case False
    show ?thesis
    proof (cases rule: anext_cases [of ?en])
      case 2
      with less.prems show ?thesis by simp
    next
      case (4 f q)
      then show ?thesis using False by (intro item) (simp_all add: anext_or_resume_def)
    qed (use False stop in \<open>auto simp: anext_or_resume_def\<close>)
  qed
qed

text \<open>a subscriber is never left waiting on a finished request. Once a request has been
  closed (its final frame was accepted, it was cancelled, or the router shut down), even if the
  subscriber was already parked on the empty queue, its reads return the queued frames and then
  the end of the stream, after at most as many reads as there are queued items.\<close>

theorem closed_stream_ends:
  fixes depth :: int and rid :: string and ops :: "chan_op list"
  assumes "1 \<le> depth"
  defines "c \<equiv> fst (run_trace (chan_step depth rid) new_channel ops)"
  assumes "e_closed (c_entry c)"
  shows "\<exists>fs. length fs \<le> length (e_queue (c_entry c)) \<and>
    read_all depth rid c (Suc (length fs)) = map Item fs @ [Stop]"
proof (rule read_closed)
  show "chan_inv depth c"
    unfolding c_def by (rule chan.run_inv) (rule chan_inv_new [OF assms(1)])
qed (rule assms(3))

theorem closed_stream_ends_witness:
  "\<exists>fs. length fs \<le> 1 \<and>
    read_all 1 ''r'' (fst (run_trace (chan_step 1 ''r'') new_channel [Next, CancelReq])) (Suc (length fs))
      = map Item fs @ [Stop]"
proof -
  have closed: "e_closed (c_entry (fst (run_trace (chan_step 1 ''r'') new_channel [Next, CancelReq])))"
    and len: "length (e_queue (c_entry (fst (run_trace (chan_step 1 ''r'') new_channel [Next, CancelReq])))) = 1"
    by (simp_all add: run_trace_simps new_channel_def new_entry_def entry_defs terminal_def
        anext_or_resume_def anext_def get_item_def)
  show ?thesis using closed_stream_ends [OF _ closed] len by simp
qed

section \<open>The router as a family of channels\<close>

text \<open>
  One state for the router, the scheduler behind it and the set of subscribers parked in
  \<open>get\<close>; one operation per method call. Reads exist only for a subscribed request.
\<close>

record 's rsys =
  rs_router :: router
  rs_sched :: 's
  rs_parked :: "string set"

datatype router_op =
    RAccept string string | RSubscribe string | RPush string int string bool
  | RCancel string | RShutdown | RNext string

fun router_step :: "'s sched_handle \<Rightarrow> 's rsys \<Rightarrow> router_op \<Rightarrow> 's rsys" where
  "router_step h s (RAccept rid pr) =
     (let (e, r, sc) = accept h (rs_router s) (rs_sched s) rid pr
      in s\<lparr>rs_router := r, rs_sched := sc\<rparr>)"
| "router_step h s (RSubscribe rid) =
     (case subscribe (rs_router s) rid of Inl e \<Rightarrow> s | Inr r \<Rightarrow> s\<lparr>rs_router := r\<rparr>)"
| "router_step h s (RPush rid idx p fin) =
     (case push_frame (rs_router s) rid idx p fin of Inl e \<Rightarrow> s | Inr r \<Rightarrow> s\<lparr>rs_router := r\<rparr>)"
| "router_step h s (RCancel rid) =
     (let (e, r, sc) = router_cancel h (rs_router s) (rs_sched s) rid
      in s\<lparr>rs_router := r, rs_sched := sc\<rparr>)"
| "router_step h s RShutdown = s\<lparr>rs_router := router_shutdown (rs_router s)\<rparr>"
| "router_step h s (RNext rid) =
     (case map_of (r_requests (rs_router s)) rid of
        None \<Rightarrow> s
      | Some en \<Rightarrow>
          (let (res, en') = anext_or_resume (rid \<in> rs_parked s) en
           in s\<lparr>rs_router := set_entry (rs_router s) rid en',
                rs_parked := (if res = Park then insert rid (rs_parked s) else rs_parked s - {rid})\<rparr>))"

definition channel_of :: "'s rsys \<Rightarrow> string \<Rightarrow> channel option" where
  "channel_of s rid =
     map_option (\<lambda>en. \<lparr>c_entry = en, c_parked = (rid \<in> rs_parked s)\<rparr>) (map_of (r_requests (rs_router s)) rid)"

fun project :: "string \<Rightarrow> router_op \<Rightarrow> chan_op list" where
  "project rid (RAccept rid' pr) = []"
| "project rid (RSubscribe rid') = (if rid' = rid then [SubscribeReq] else [])"
| "project rid (RPush rid' idx p fin) = (if rid' = rid then [Push idx p fin] else [])"
| "project rid (RCancel rid') = (if rid' = rid then [CancelReq] else [])"
| "project rid RShutdown = [ShutdownReq]"
| "project rid (RNext rid') = (if rid' = rid then [Next] else [])"

lemma set_entry_lookup:
  "map_of (r_requests (set_entry r rid en)) rid' = (if rid' = rid then Some en else map_of (r_requests r) rid')"
  "r_depth (set_entry r rid en) = r_depth r" "r_shutdown (set_entry r rid en) = r_shutdown r"
  by (simp_all add: set_entry_def map_of_AList_update)

lemma accept_known:
  "map_of (r_requests r) rid' = Some en \<Longrightarrow> accept h r sc rid pr = (e, r', sc') \<Longrightarrow>
     map_of (r_requests r') rid' = Some en \<and> r_depth r' = r_depth r"
  by (auto simp: accept_def Let_def set_entry_lookup map_of_AList_delete
      split: if_splits sum.splits prod.splits option.splits)

lemma map_of_map_snd: "map_of (map (\<lambda>(k, v). (k, f v)) d) k = map_option f (map_of d k)"
  by (induction d) auto

lemma router_step_channel:
  assumes "channel_of s rid = Some c"
  defines "d \<equiv> r_depth (rs_router s)"
  shows "channel_of (router_step h s x) rid = Some (fst (run_trace (chan_step d rid) c (project rid x)))
    \<and> r_depth (rs_router (router_step h s x)) = d"
proof -
  obtain en where en: "map_of (r_requests (rs_router s)) rid = Some en"
    and c: "c = \<lparr>c_entry = en, c_parked = (rid \<in> rs_parked s)\<rparr>"
    using assms(1) by (auto simp: channel_of_def)
  show ?thesis
  proof (cases x)
    case (RAccept rid' pr)
    obtain e r sc where acc: "accept h (rs_router s) (rs_sched s) rid' pr = (e, r, sc)"
      by (cases "accept h (rs_router s) (rs_sched s) rid' pr")
    from accept_known [OF en acc] RAccept acc show ?thesis
      by (simp add: channel_of_def c d_def)
  next
    case (RSubscribe rid')
    show ?thesis
    proof (cases "subscribe (rs_router s) rid'")
      case (Inr r)
      with RSubscribe en show ?thesis
        by (auto simp: channel_of_def c d_def subscribe_def find_entry_def set_entry_lookup
            run_trace_simps split: sum.splits option.splits)
    qed (use RSubscribe en in \<open>auto simp: channel_of_def c d_def subscribe_def find_entry_def
            run_trace_simps split: sum.splits option.splits\<close>)
  next
    case (RPush rid' idx p fin)
    show ?thesis
    proof (cases "rid' = rid")
      case True
      with RPush en show ?thesis
        by (cases "push_entry d rid idx p fin en")
          (simp_all add: channel_of_def c d_def push_frame_def find_entry_def set_entry_lookup run_trace_simps)
    next
      case False
      then show ?thesis
        by (cases "push_frame (rs_router s) rid' idx p fin")
          (use RPush en in \<open>auto simp: channel_of_def c d_def push_frame_def set_entry_lookup
            split: sum.splits\<close>)
    qed
  next
    case (RCancel rid')
    show ?thesis
    proof (cases "rid' = rid")
      case True
      with RCancel en show ?thesis
        by (cases "cancel_entry d en")
          (simp_all add: channel_of_def c d_def router_cancel_def find_entry_def set_entry_lookup run_trace_simps)
    next
      case False
      with RCancel en show ?thesis
        by (auto simp: channel_of_def c d_def router_cancel_def set_entry_lookup
            split: sum.splits)
    qed
  next
    case RShutdown
    then show ?thesis
      using en by (simp add: channel_of_def c d_def router_shutdown_def map_of_map_snd run_trace_simps Let_def)
  next
    case (RNext rid')
    then show ?thesis
      using en by (cases "rid' = rid") (auto simp: channel_of_def c d_def set_entry_lookup run_trace_simps
          split: option.splits prod.splits)
  qed
qed

lemma fold_router_channel:
  assumes "channel_of s rid = Some c"
  shows "channel_of (fold (\<lambda>x s. router_step h s x) ops s) rid =
    Some (fst (run_trace (chan_step (r_depth (rs_router s)) rid) c (concat (map (project rid) ops))))"
  using assms
proof (induction ops arbitrary: s c)
  case (Cons x ops)
  from router_step_channel [OF Cons.prems, of h x]
  have step: "channel_of (router_step h s x) rid =
      Some (fst (run_trace (chan_step (r_depth (rs_router s)) rid) c (project rid x)))"
    and depth: "r_depth (rs_router (router_step h s x)) = r_depth (rs_router s)" by blast+
  show ?case
    using Cons.IH [OF step] by (simp add: depth run_trace_append)
qed simp

text \<open>requests do not interfere. Whatever happens to the router, an accepted request's
  entry evolves exactly as its own channel under the calls that name it (and the shutdowns);
  accepting, pushing to, cancelling or reading other requests leaves it alone, so the stream
  and state-machine properties of one channel hold for every request of the router.\<close>

theorem router_requests_are_channels:
  assumes "channel_of s rid = Some c"
  shows "channel_of (fold (\<lambda>x s. router_step h s x) ops s) rid =
    Some (fst (run_trace (chan_step (r_depth (rs_router s)) rid) c (concat (map (project rid) ops))))"
  using assms by (rule fold_router_channel)

text \<open>A scheduler that logs what it is given, to run the router on.\<close>

definition log_handle :: "string list sched_handle" where
  "log_handle = \<lparr>h_submit = (\<lambda>sc rid pr. (None, sc @ [rid])), h_cancel = (\<lambda>sc rid. (None, sc))\<rparr>"

definition two_requests :: "string list rsys" where
  "two_requests = \<lparr>rs_router = \<lparr>r_depth = 2, r_requests = [(''a'', new_entry), (''b'', new_entry)],
     r_shutdown = False\<rparr>, rs_sched = [], rs_parked = {}\<rparr>"

theorem router_requests_are_channels_witness:
  "channel_of (fold (\<lambda>x s. router_step log_handle s x)
      [RPush ''b'' 0 ''x'' False, RPush ''a'' 7 ''y'' False, RCancel ''b'', RNext ''a''] two_requests) ''a''
   = Some (fst (run_trace (chan_step 2 ''a'') new_channel [Push 7 ''y'' False, Next]))"
proof -
  have "channel_of two_requests ''a'' = Some new_channel"
    by (simp add: channel_of_def two_requests_def new_channel_def)
  from router_requests_are_channels [OF this, of log_handle
      "[RPush ''b'' 0 ''x'' False, RPush ''a'' 7 ''y'' False, RCancel ''b'', RNext ''a'']"]
  show ?thesis by (simp add: two_requests_def)
qed

lemma accept_outcome:
  assumes "accept h r sc rid pr = (err, r', sc')"
  shows "case err of
      Some e \<Rightarrow> r' = r
    | None \<Rightarrow> map_of (r_requests r) rid = None \<and> r_requests r' = r_requests r @ [(rid, new_entry)]
        \<and> router_state r' rid = Some Scheduled \<and> \<not> r_shutdown r
        \<and> (\<exists>canonical. parse_priority pr = Inr canonical \<and> h_submit h sc rid canonical = (None, sc'))"
proof (cases err)
  case None
  with assms have "map_of (r_requests r) rid = None \<and> r' = set_entry r rid new_entry \<and> \<not> r_shutdown r
      \<and> (\<exists>canonical. parse_priority pr = Inr canonical \<and> h_submit h sc rid canonical = (None, sc'))"
    by (auto simp: accept_def Let_def split: if_splits sum.splits prod.splits option.splits)
  with None show ?thesis
    by (auto simp: router_state_def set_entry_lookup new_entry_def)
      (simp add: set_entry_def update_fresh map_of_None_iff)
next
  case (Some e)
  have "AList.delete rid (AList.update rid new_entry (r_requests r)) = r_requests r"
    if "map_of (r_requests r) rid = None"
    using that by (simp add: map_of_None_iff AList.delete_update_same AList.delete_id)
  with Some assms show ?thesis
    by (auto simp: accept_def Let_def set_entry_def split: if_splits sum.splits prod.splits option.splits)
qed

text \<open>accepting is all or nothing. A refused accept leaves the table of requests as it
  was, so the id can be used again; a successful one adds exactly one fresh entry, in state
  \<open>Scheduled\<close>, and made exactly one successful submit.\<close>

theorem accept_is_atomic:
  assumes "accept h r sc rid pr = (err, r', sc')"
  shows "case err of
      Some e \<Rightarrow> r' = r
    | None \<Rightarrow> map_of (r_requests r) rid = None \<and> r_requests r' = r_requests r @ [(rid, new_entry)]
        \<and> router_state r' rid = Some Scheduled \<and> \<not> r_shutdown r
        \<and> (\<exists>canonical. parse_priority pr = Inr canonical \<and> h_submit h sc rid canonical = (None, sc'))"
  using assms by (rule accept_outcome)

lemma parse_priority_names [simp]:
  "parse_priority ''low'' = Inr ''Low''" "parse_priority ''normal'' = Inr ''Normal''"
  "parse_priority ''high'' = Inr ''High''"
  by code_simp+

theorem accept_is_atomic_witness:
  "fst (accept log_handle (rs_router two_requests) [] ''c'' ''high'') = None
   \<and> r_requests (fst (snd (accept log_handle (rs_router two_requests) [] ''c'' ''high'')))
      = r_requests (rs_router two_requests) @ [(''c'', new_entry)]"
proof -
  obtain err r' sc' where acc: "accept log_handle (rs_router two_requests) [] ''c'' ''high'' = (err, r', sc')"
    by (cases "accept log_handle (rs_router two_requests) [] ''c'' ''high''")
  then have "err = None" by (auto simp: accept_def two_requests_def log_handle_def)
  with accept_is_atomic [OF acc] acc show ?thesis by simp
qed

end
