(* ===== verification/Driver.thy ===== *)
theory Driver
  imports Scheduler Router
begin

text \<open>
  The v2 generation path: \<open>src/repercep/serving/driver.py\<close> (the adapter between router and
  scheduler, and the engine driver) and the v2 handlers of \<open>src/repercep/serving/app.py\<close>. The
  driver runs in its own thread: between two of its steps the event loop runs other calls, which
  are an argument (\<open>interlude\<close>). The engine is a parameter: the frames it yields for a request
  and the exception it ends with, if any; so is the encoding of frames, and the validation of a
  payload into a request.
\<close>

section \<open>The adapter\<close>

record 'p adapter =
  ad_scheduler :: "'p scheduler"
  ad_payloads :: "(string, 'p) dict"

definition stage :: "'p adapter \<Rightarrow> string \<Rightarrow> 'p \<Rightarrow> 'p adapter" where
  "stage a rid payload = a\<lparr>ad_payloads := AList.update rid payload (ad_payloads a)\<rparr>"

definition discard :: "'p adapter \<Rightarrow> string \<Rightarrow> 'p adapter" where
  "discard a rid = a\<lparr>ad_payloads := AList.delete rid (ad_payloads a)\<rparr>"

definition adapter_submit :: "'p adapter \<Rightarrow> string \<Rightarrow> string \<Rightarrow> exn option \<times> 'p adapter" where
  "adapter_submit a rid priority =
     (let a1 = discard a rid
      in case map_of (ad_payloads a) rid of
           None \<Rightarrow> (Some (RuntimeError (''scheduler adapter: no staged payload for request '' @ py_repr rid)), a1)
         | Some payload \<Rightarrow>
             (case submit (ad_scheduler a1) rid priority payload of
                Inl e \<Rightarrow> (Some e, a1)
              | Inr s \<Rightarrow> (None, a1\<lparr>ad_scheduler := s\<rparr>)))"

text \<open>A failure of the scheduler's own cancel is logged and dropped.\<close>

definition adapter_cancel :: "'p adapter \<Rightarrow> string \<Rightarrow> exn option \<times> 'p adapter" where
  "adapter_cancel a rid =
     (let a1 = discard a rid
      in (None, case cancel (ad_scheduler a1) rid of Inl e \<Rightarrow> a1 | Inr s \<Rightarrow> a1\<lparr>ad_scheduler := s\<rparr>))"

definition adapter_handle :: "'p adapter sched_handle" where
  "adapter_handle = \<lparr>h_submit = adapter_submit, h_cancel = adapter_cancel\<rparr>"

type_synonym 'p v2_state = "'p adapter rsys"

section \<open>The v2 handlers\<close>

text \<open>
  \<open>generate_stream_v2\<close> up to the subscription; the stream is then read by \<open>RNext\<close> steps of the
  router. The request id is what \<open>uuid4\<close> gave.
\<close>

definition generate_stream_v2 ::
  "'p v2_state \<Rightarrow> string \<Rightarrow> string \<Rightarrow> 'p \<Rightarrow> exn option \<times> 'p v2_state"
where
  "generate_stream_v2 s rid priority payload =
     (case accept adapter_handle (rs_router s) (stage (rs_sched s) rid payload) rid priority of
        (Some (RouterError m), r, a) \<Rightarrow>
          (Some (if str_in ''queue is full'' (lower m) \<or> str_in ''queuefull'' (lower m)
                 then HTTPException 503 m else HTTPException 400 m),
           s\<lparr>rs_router := r, rs_sched := discard a rid\<rparr>)
      | (Some e, r, a) \<Rightarrow> (Some e, s\<lparr>rs_router := r, rs_sched := a\<rparr>)
      | (None, r, a) \<Rightarrow>
          (case subscribe r rid of
             Inl e \<Rightarrow> (Some e, s\<lparr>rs_router := r, rs_sched := a\<rparr>)
           | Inr r' \<Rightarrow> (None, s\<lparr>rs_router := r', rs_sched := a\<rparr>)))"

definition cancel_v2 :: "'p v2_state \<Rightarrow> string \<Rightarrow> exn option \<times> 'p v2_state" where
  "cancel_v2 s rid =
     (case router_cancel adapter_handle (rs_router s) (rs_sched s) rid of
        (Some (RouterError m), r, a) \<Rightarrow>
          (Some (if str_in ''unknown request'' (lower m) then HTTPException 404 m else HTTPException 409 m),
           s\<lparr>rs_router := r, rs_sched := a\<rparr>)
      | (e, r, a) \<Rightarrow> (e, s\<lparr>rs_router := r, rs_sched := a\<rparr>))"

definition state_v2 :: "'p v2_state \<Rightarrow> string \<Rightarrow> string option" where
  "state_v2 s rid = map_option state_str (router_state (rs_router s) rid)"

section \<open>The driver\<close>

record 'f gframe =
  gf_index :: int
  gf_total :: int
  gf_pixels :: 'f

text \<open>The fate of a push bounced to the event loop within its 30 seconds: it ran; it ran but the
  driver had given up; it did not run before the driver's cancel (and is refused after it).\<close>

datatype push_fate = Landed | LandedLate | NotLanded

text \<open>What happens around one frame: calls by others before the stop flag is read, the flag,
  calls between the state check and the push, and the fate of the push.\<close>

record interlude =
  il_before :: "router_op list"
  il_stop :: bool
  il_mid :: "router_op list"
  il_fate :: push_fate

definition quiet :: interlude where
  "quiet = \<lparr>il_before = [], il_stop = False, il_mid = [], il_fate = Landed\<rparr>"

definition others :: "'s sched_handle \<Rightarrow> router_op list \<Rightarrow> 's rsys \<Rightarrow> 's rsys" where
  "others h ops s = fold (\<lambda>x s. router_step h s x) ops s"

definition cancel_silently :: "'s sched_handle \<Rightarrow> string \<Rightarrow> 's rsys \<Rightarrow> 's rsys" where
  "cancel_silently h rid s =
     (let (e, r, sc) = router_cancel h (rs_router s) (rs_sched s) rid in s\<lparr>rs_router := r, rs_sched := sc\<rparr>)"

definition do_push :: "string \<Rightarrow> int \<Rightarrow> string \<Rightarrow> bool \<Rightarrow> 's rsys \<Rightarrow> bool \<times> 's rsys" where
  "do_push rid idx line fin s =
     (case push_frame (rs_router s) rid idx line fin of
        Inl e \<Rightarrow> (False, s)
      | Inr r \<Rightarrow> (True, s\<lparr>rs_router := r\<rparr>))"

definition driver_push ::
  "'s sched_handle \<Rightarrow> string \<Rightarrow> int \<Rightarrow> string \<Rightarrow> bool \<Rightarrow> push_fate \<Rightarrow> 's rsys \<Rightarrow> bool \<times> 's rsys"
where
  "driver_push h rid idx line fin fate s =
     (case fate of
        Landed \<Rightarrow>
          (case do_push rid idx line fin s of
             (True, s1) \<Rightarrow> (True, s1)
           | (False, s1) \<Rightarrow> (False, cancel_silently h rid s1))
      | LandedLate \<Rightarrow> (False, cancel_silently h rid (snd (do_push rid idx line fin s)))
      | NotLanded \<Rightarrow> (False, cancel_silently h rid s))"

text \<open>The loop over the engine's frames. \<open>None\<close>: the method returned; \<open>Some i\<close>: the frames ran
  out with \<open>i\<close> the last index (-1 without frames).\<close>

fun drive_frames ::
  "'s sched_handle \<Rightarrow> ('f gframe \<Rightarrow> string) \<Rightarrow> string \<Rightarrow> 'f gframe list \<Rightarrow> interlude list \<Rightarrow> int \<Rightarrow> 's rsys
    \<Rightarrow> int option \<times> interlude list \<times> 's rsys"
where
  "drive_frames h enc rid [] env index s = (Some index, env, s)"
| "drive_frames h enc rid (f # fs) env index s =
     (let il = (case env of [] \<Rightarrow> quiet | x # _ \<Rightarrow> x);
          s1 = others h (il_before il) s
      in if il_stop il then (None, tl env, cancel_silently h rid s1)
         else if router_state (rs_router s1) rid = Some Cancelled then (None, tl env, s1)
         else
           let s2 = others h (il_mid il) s1;
               (ok, s3) = driver_push h rid (gf_index f) (enc f) (gf_index f = gf_total f - 1) (il_fate il) s2
           in if ok then drive_frames h enc rid fs (tl env) (gf_index f) s3 else (None, tl env, s3))"

record ('p, 'q, 'f) engine =
  en_validate :: "'p \<Rightarrow> 'q option"
  en_num_frames :: "'q \<Rightarrow> int"
  en_generate :: "'q \<Rightarrow> 'f gframe list \<times> exn option"
  en_encode :: "'f gframe \<Rightarrow> string"
  en_marker :: "int \<Rightarrow> int \<Rightarrow> string"

text \<open>\<open>_run_one\<close> on an item the scheduler returned.\<close>

definition run_one ::
  "'s sched_handle \<Rightarrow> ('p, 'q, 'f) engine \<Rightarrow> 'p item \<Rightarrow> interlude list \<Rightarrow> 's rsys \<Rightarrow> 's rsys"
where
  "run_one h eng it env s =
     (let rid = item_id it
      in case en_validate eng (item_payload it) of
           None \<Rightarrow> cancel_silently h rid s
         | Some q \<Rightarrow>
             let (fs, failure) = en_generate eng q; total = en_num_frames eng q
             in case drive_frames h (en_encode eng) rid fs env (-1) s of
                  (None, env', s') \<Rightarrow> s'
                | (Some index, env', s') \<Rightarrow>
                    if failure \<noteq> None then cancel_silently h rid s'
                    else if 0 \<le> index \<and> index \<noteq> total - 1 then
                      let il = (case env' of [] \<Rightarrow> quiet | x # _ \<Rightarrow> x)
                      in snd (driver_push h rid (index + 1) (en_marker eng (index + 1) total) True (il_fate il)
                           (others h (il_before il) s'))
                    else s')"


section \<open>The driver and one request\<close>

text \<open>The message of a pushed frame.\<close>

definition msg :: "string \<Rightarrow> ('f gframe \<Rightarrow> string) \<Rightarrow> 'f gframe \<Rightarrow> frame_msg" where
  "msg rid enc f = \<lparr>fm_request = rid, fm_index = gf_index f, fm_payload = enc f,
     fm_final = (gf_index f = gf_total f - 1)\<rparr>"

definition no_push :: "string \<Rightarrow> router_op list \<Rightarrow> bool" where
  "no_push rid ops \<longleftrightarrow> (\<forall>x \<in> set ops. \<forall>idx p fin. x \<noteq> RPush rid idx p fin)"

definition no_pushes :: "string \<Rightarrow> interlude list \<Rightarrow> bool" where
  "no_pushes rid env \<longleftrightarrow> (\<forall>il \<in> set env. no_push rid (il_before il) \<and> no_push rid (il_mid il))"

text \<open>
  \<open>reaches d rid c c' ps\<close>: the request's channel can get from \<open>c\<close> to \<open>c'\<close> by calls that make
  the channel accept exactly the frames \<open>ps\<close>.
\<close>

definition reaches :: "int \<Rightarrow> string \<Rightarrow> channel \<Rightarrow> channel \<Rightarrow> frame_msg list \<Rightarrow> bool" where
  "reaches d rid c c' ps \<longleftrightarrow>
     (\<exists>ops. fst (run_trace (chan_step d rid) c ops) = c' \<and> pushed (snd (run_trace (chan_step d rid) c ops)) = ps)"

lemma snd_run_trace_append:
  "snd (run_trace step s (xs @ ys)) = snd (run_trace step s xs) @ snd (run_trace step (fst (run_trace step s xs)) ys)"
  by (induction xs arbitrary: s) (simp_all add: run_trace_simps)

lemma reaches_refl [simp]: "reaches d rid c c []"
  by (auto simp: reaches_def pushed_def intro: exI [of _ "[]"])

lemma reaches_trans: "reaches d rid c c1 ps \<Longrightarrow> reaches d rid c1 c2 qs \<Longrightarrow> reaches d rid c c2 (ps @ qs)"
proof -
  assume "reaches d rid c c1 ps" "reaches d rid c1 c2 qs"
  then obtain xs ys where "fst (run_trace (chan_step d rid) c xs) = c1" "pushed (snd (run_trace (chan_step d rid) c xs)) = ps"
      "fst (run_trace (chan_step d rid) c1 ys) = c2" "pushed (snd (run_trace (chan_step d rid) c1 ys)) = qs"
    by (auto simp: reaches_def)
  then show ?thesis
    unfolding reaches_def
    by (intro exI [of _ "xs @ ys"]) (simp add: run_trace_append snd_run_trace_append pushed_def)
qed

lemma reaches_terminal: "reaches d rid c c' ps \<Longrightarrow> terminal (e_state (c_entry c)) \<Longrightarrow> e_state (c_entry c') = e_state (c_entry c)"
  by (auto simp: reaches_def terminal_stays)

lemma chan_step_no_push:
  "(\<And>idx p fin. x \<noteq> Push idx p fin) \<Longrightarrow> frames_of (ch_gained (snd (chan_step d rid c x))) = []"
proof (cases x)
  case Next
  then show ?thesis by (simp add: Let_def split: prod.splits)
qed (auto simp: entry_defs Let_def split: sum.splits if_splits)

lemma run_no_push:
  "(\<And>idx p fin. Push idx p fin \<notin> set ops) \<Longrightarrow> pushed (snd (run_trace (chan_step d rid) c ops)) = []"
proof (induction ops arbitrary: c)
  case (Cons x ops)
  then have "frames_of (ch_gained (snd (chan_step d rid c x))) = []"
    by (intro chan_step_no_push) (metis list.set_intros(1))
  with Cons show ?case by (simp add: run_trace_simps pushed_def)
qed (simp add: pushed_def)

text \<open>A change of the system during which the request's channel accepts exactly \<open>ps\<close>.\<close>

definition evolves :: "int \<Rightarrow> string \<Rightarrow> 's rsys \<Rightarrow> 's rsys \<Rightarrow> frame_msg list \<Rightarrow> bool" where
  "evolves d rid s s' ps \<longleftrightarrow>
     (\<forall>c. channel_of s rid = Some c \<and> r_depth (rs_router s) = d \<longrightarrow>
       (\<exists>c'. channel_of s' rid = Some c' \<and> r_depth (rs_router s') = d \<and> reaches d rid c c' ps))"

lemma evolves_refl [simp]: "evolves d rid s s []"
  by (simp add: evolves_def)

lemma evolves_trans: "evolves d rid s s1 ps \<Longrightarrow> evolves d rid s1 s2 qs \<Longrightarrow> evolves d rid s s2 (ps @ qs)"
  unfolding evolves_def by (meson reaches_trans)

lemma evolves_trans_Nil: "evolves d rid s s1 [] \<Longrightarrow> evolves d rid s1 s2 qs \<Longrightarrow> evolves d rid s s2 qs"
  using evolves_trans [of d rid s s1 "[]" s2 qs] by simp

lemma router_step_evolves:
  assumes "\<And>idx p fin. x \<noteq> RPush rid idx p fin"
  shows "evolves d rid s (router_step h s x) []"
proof -
  have "Push idx p fin \<notin> set (project rid x)" for idx p fin
    using assms by (cases x) auto
  then have "reaches d rid c (fst (run_trace (chan_step d rid) c (project rid x))) []" for c
    by (auto simp: reaches_def run_no_push)
  then show ?thesis
    using router_step_channel [of s rid _ h x] by (auto simp: evolves_def)
qed

lemma others_evolves: "no_push rid ops \<Longrightarrow> evolves d rid s (others h ops s) []"
proof (induction ops arbitrary: s)
  case (Cons x ops)
  then have "evolves d rid s (router_step h s x) []"
    by (intro router_step_evolves) (auto simp: no_push_def)
  moreover have "evolves d rid (router_step h s x) (others h ops (router_step h s x)) []"
    using Cons by (simp add: no_push_def)
  ultimately show ?case
    unfolding others_def by (simp add: evolves_trans_Nil)
qed (simp add: others_def)

lemma cancel_silently_step: "cancel_silently h rid s = router_step h s (RCancel rid)"
  by (simp add: cancel_silently_def)

lemma cancel_silently_evolves: "evolves d rid s (cancel_silently h rid s) []"
  unfolding cancel_silently_step by (rule router_step_evolves) simp

text \<open>Whether the request has reached a final state.\<close>

definition finished :: "'s rsys \<Rightarrow> string \<Rightarrow> bool" where
  "finished s rid \<longleftrightarrow> (\<exists>st. router_state (rs_router s) rid = Some st \<and> terminal st)"

definition known :: "'s rsys \<Rightarrow> string \<Rightarrow> bool" where
  "known s rid \<longleftrightarrow> router_state (rs_router s) rid \<noteq> None"

lemma known_channel: "known s rid \<longleftrightarrow> (\<exists>c. channel_of s rid = Some c)"
  by (auto simp: known_def channel_of_def router_state_def)

lemma finished_channel: "channel_of s rid = Some c \<Longrightarrow> finished s rid \<longleftrightarrow> terminal (e_state (c_entry c))"
  by (auto simp: finished_def channel_of_def router_state_def)

lemma finished_known: "finished s rid \<Longrightarrow> known s rid"
  by (auto simp: finished_def known_def)

lemma evolves_known:
  assumes "evolves (r_depth (rs_router s)) rid s s' ps" "known s rid"
  shows "known s' rid"
  using assms by (auto simp: evolves_def known_channel)

lemma evolves_finished:
  assumes "evolves (r_depth (rs_router s)) rid s s' ps" "finished s rid"
  shows "finished s' rid"
proof -
  from assms(2) obtain c where c: "channel_of s rid = Some c" "terminal (e_state (c_entry c))"
    using finished_known finished_channel by (metis known_channel)
  with assms(1) obtain c' where "channel_of s' rid = Some c'" "reaches (r_depth (rs_router s)) rid c c' ps"
    by (auto simp: evolves_def)
  with reaches_terminal [OF this(2) c(2)] c(2) show ?thesis by (simp add: finished_channel)
qed

lemma cancel_silently_finishes: "known s rid \<Longrightarrow> finished (cancel_silently h rid s) rid"
  by (auto simp: known_def finished_def cancel_silently_def router_cancel_def find_entry_def router_state_def
      cancel_entry_def set_entry_lookup terminal_def split: option.splits)

lemma do_push_False: "do_push rid idx line fin s = (False, s') \<Longrightarrow> s' = s"
  by (auto simp: do_push_def split: sum.splits)

lemma do_push_True:
  assumes "do_push rid idx line fin s = (True, s')"
  shows "evolves d rid s s' [\<lparr>fm_request = rid, fm_index = idx, fm_payload = line, fm_final = fin\<rparr>]"
    and "fin \<Longrightarrow> finished s' rid"
proof -
  from assms obtain r en en' where r: "push_frame (rs_router s) rid idx line fin = Inr r" "s' = s\<lparr>rs_router := r\<rparr>"
    by (auto simp: do_push_def split: sum.splits)
  from r(1) obtain en en' where en: "map_of (r_requests (rs_router s)) rid = Some en"
      "push_entry (r_depth (rs_router s)) rid idx line fin en = Inr en'" "r = set_entry (rs_router s) rid en'"
    by (auto simp: push_frame_def find_entry_def split: sum.splits option.splits)
  let ?f = "\<lparr>fm_request = rid, fm_index = idx, fm_payload = line, fm_final = fin\<rparr>"
  show "fin \<Longrightarrow> finished s' rid"
    using en(2) by (auto simp: finished_def r(2) en(3) router_state_def set_entry_lookup push_entry_def
        terminal_def split: if_splits)
  show "evolves d rid s s' [?f]"
    unfolding evolves_def
  proof (intro allI impI)
    fix c assume "channel_of s rid = Some c \<and> r_depth (rs_router s) = d"
    then have c: "c = \<lparr>c_entry = en, c_parked = (rid \<in> rs_parked s)\<rparr>" "r_depth (rs_router s) = d"
      using en(1) by (auto simp: channel_of_def)
    let ?c' = "c\<lparr>c_entry := en'\<rparr>"
    have "e_queue en' = e_queue en @ [Frame ?f]"
      using en(2) by (auto simp: push_entry_def split: if_splits)
    then have "reaches d rid c ?c' [?f]"
      unfolding reaches_def using en(2) c
      by (intro exI [of _ "[Push idx line fin]"]) (simp add: run_trace_simps pushed_def appended_def)
    moreover have "channel_of s' rid = Some ?c'" "r_depth (rs_router s') = d"
      using c by (simp_all add: channel_of_def r(2) en(3) set_entry_lookup)
    ultimately show "\<exists>c'. channel_of s' rid = Some c' \<and> r_depth (rs_router s') = d \<and> reaches d rid c c' [?f]"
      by blast
  qed
qed


lemma driver_push_cases:
  assumes "driver_push h rid idx line fin fate s = (ok, s')"
  defines "f \<equiv> \<lparr>fm_request = rid, fm_index = idx, fm_payload = line, fm_final = fin\<rparr>"
  obtains "ok" "\<And>d. evolves d rid s s' [f]" "fin \<longrightarrow> finished s' rid"
  | ps where "\<not> ok" "\<And>d. evolves d rid s s' ps" "ps = [] \<or> ps = [f]" "known s rid \<longrightarrow> finished s' rid"
proof -
  note outcome = that
  obtain b s1 where p: "do_push rid idx line fin s = (b, s1)" by (cases "do_push rid idx line fin s")
  have giveup: thesis if "ok = False" "s' = cancel_silently h rid s2" "\<And>d. evolves d rid s s2 ps" "ps = [] \<or> ps = [f]"
    for s2 ps
  proof (rule outcome(2))
    show "\<not> ok" using that(1) by simp
    show "evolves d rid s s' (ps @ [])" for d
      unfolding that(2) by (rule evolves_trans [OF that(3) cancel_silently_evolves])
    show "ps @ [] = [] \<or> ps @ [] = [f]" using that(4) by simp
    show "known s rid \<longrightarrow> finished s' rid"
      unfolding that(2) using that(3) by (blast intro: cancel_silently_finishes evolves_known)
  qed
  show thesis
  proof (cases b)
    case True
    from p True have pT: "do_push rid idx line fin s = (True, s1)" by simp
    note ev = do_push_True(1) [OF pT, folded f_def]
    show thesis
    proof (cases fate)
      case Landed
      with p True assms(1) have "ok" "s' = s1" by (simp_all add: driver_push_def)
      then show thesis using outcome(1) ev do_push_True(2) [OF pT] by simp
    next
      case LandedLate
      with p assms(1) show thesis by (intro giveup [of s1 "[f]"] ev) (simp_all add: driver_push_def)
    next
      case NotLanded
      with assms(1) show thesis by (intro giveup [of s "[]"]) (simp_all add: driver_push_def)
    qed
  next
    case False
    with p have "s1 = s" using do_push_False by simp
    with p False assms(1) show thesis
      by (intro giveup [of s "[]"]) (cases fate; simp add: driver_push_def)+
  qed
qed

definition final_frame :: "'f gframe \<Rightarrow> bool" where
  "final_frame f \<longleftrightarrow> gf_index f = gf_total f - 1"

lemma finished_cancelled: "router_state (rs_router s) rid = Some Cancelled \<Longrightarrow> finished s rid"
  by (simp add: finished_def terminal_def)

lemma no_pushes_tl: "no_pushes rid env \<Longrightarrow> no_pushes rid (tl env)"
  by (cases env) (simp_all add: no_pushes_def)

lemma no_pushes_hd: "no_pushes rid env \<Longrightarrow> no_push rid (il_before (case env of [] \<Rightarrow> quiet | x # _ \<Rightarrow> x))
    \<and> no_push rid (il_mid (case env of [] \<Rightarrow> quiet | x # _ \<Rightarrow> x))"
  by (cases env) (simp_all add: no_pushes_def no_push_def quiet_def)

lemma drive_frames_spec:
  assumes "drive_frames h enc rid fs env i s = (res, env', s')" "no_pushes rid env"
  shows "\<exists>ps. (\<forall>d. evolves d rid s s' ps) \<and> prefix ps (map (msg rid enc) fs)
    \<and> (case res of
         None \<Rightarrow> known s rid \<longrightarrow> finished s' rid
       | Some j \<Rightarrow> ps = map (msg rid enc) fs \<and> j = last (i # map gf_index fs)
           \<and> ((\<exists>f \<in> set fs. final_frame f) \<longrightarrow> finished s' rid) \<and> no_pushes rid env')"
  using assms
proof (induction fs arbitrary: env i s)
  case Nil
  then show ?case by (auto intro: exI [of _ "[]"])
next
  case (Cons f fs)
  let ?il = "case env of [] \<Rightarrow> quiet | x # _ \<Rightarrow> x"
  let ?s1 = "others h (il_before ?il) s" and ?fin = "gf_index f = gf_total f - 1"
  have e1: "evolves d rid s ?s1 []" for d
    using no_pushes_hd [OF Cons.prems(2)] by (intro others_evolves) blast
  have early: ?case if "res = None" "\<And>d. evolves d rid ?s1 s' []" "known ?s1 rid \<longrightarrow> finished s' rid"
    using that evolves_trans [OF e1 that(2)] evolves_known [OF e1] by (intro exI [of _ "[]"]) auto
  show ?case
  proof (cases "il_stop ?il")
    case True
    with Cons.prems(1) have "res = None" "s' = cancel_silently h rid ?s1" by (simp_all add: Let_def)
    then show ?thesis by (intro early) (simp_all add: cancel_silently_evolves cancel_silently_finishes)
  next
    case running: False
    show ?thesis
    proof (cases "router_state (rs_router ?s1) rid = Some Cancelled")
      case True
      with running Cons.prems(1) have "res = None" "s' = ?s1" by (simp_all add: Let_def)
      with True show ?thesis by (intro early) (simp_all add: finished_cancelled)
    next
      case False
      let ?s2 = "others h (il_mid ?il) ?s1"
      have e2: "evolves d rid s ?s2 []" for d
        using no_pushes_hd [OF Cons.prems(2)] by (intro evolves_trans_Nil [OF e1] others_evolves) blast
      obtain ok s3 where p: "driver_push h rid (gf_index f) (enc f) ?fin (il_fate ?il) ?s2 = (ok, s3)"
        by (cases "driver_push h rid (gf_index f) (enc f) ?fin (il_fate ?il) ?s2")
      from p show ?thesis
      proof (cases rule: driver_push_cases)
        case 1
        have rest: "drive_frames h enc rid fs (tl env) (gf_index f) s3 = (res, env', s')"
          using running False p 1(1) Cons.prems(1) by (simp add: Let_def)
        from Cons.IH [OF rest no_pushes_tl [OF Cons.prems(2)]] obtain ps where
          ps: "\<And>d. evolves d rid s3 s' ps" "prefix ps (map (msg rid enc) fs)"
            "case res of None \<Rightarrow> known s3 rid \<longrightarrow> finished s' rid
             | Some j \<Rightarrow> ps = map (msg rid enc) fs \<and> j = last (gf_index f # map gf_index fs)
                 \<and> ((\<exists>f \<in> set fs. final_frame f) \<longrightarrow> finished s' rid) \<and> no_pushes rid env'" by blast
        have s3: "evolves d rid s s3 [msg rid enc f]" for d
          using evolves_trans_Nil [OF e2 1(2)] by (simp add: msg_def)
        have all: "evolves d rid s s' (msg rid enc f # ps)" for d
          using evolves_trans [OF s3 ps(1)] by simp
        show ?thesis
        proof (cases res)
          case None
          with ps all evolves_known [OF s3] show ?thesis by (intro exI [of _ "msg rid enc f # ps"]) simp
        next
          case (Some j)
          have "finished s' rid" if "final_frame f"
            using that 1(3) evolves_finished [OF ps(1)] by (simp add: final_frame_def)
          with Some ps all show ?thesis by (intro exI [of _ "msg rid enc f # ps"]) auto
        qed
      next
        case (2 ps)
        have "res = None" "s' = s3" using running False p 2(1) Cons.prems(1) by (simp_all add: Let_def)
        moreover have "evolves d rid s s3 ps" for d by (rule evolves_trans_Nil [OF e2 2(2)])
        moreover have "prefix ps (map (msg rid enc) (f # fs))" using 2(3) by (auto simp: msg_def)
        moreover have "known s rid \<longrightarrow> finished s3 rid" using 2(4) evolves_known [OF e2] by blast
        ultimately show ?thesis by (intro exI [of _ ps]) simp
      qed
    qed
  qed
qed


section \<open>What a driven request comes to\<close>

lemma run_one_spec:
  fixes h :: "'s sched_handle" and eng :: "('p, 'q, 'f) engine"
  assumes "known s (item_id it)" "no_pushes (item_id it) env" "en_validate eng (item_payload it) = Some q"
    and "en_generate eng q = (fs, failure)"
  shows "\<exists>ps. (\<forall>d. evolves d (item_id it) s (run_one h eng it env s) ps)
    \<and> (prefix ps (map (msg (item_id it) (en_encode eng)) fs)
       \<or> (last (-1 # map gf_index fs) \<noteq> en_num_frames eng q - 1))
    \<and> (finished (run_one h eng it env s) (item_id it)
       \<or> failure = None \<and> \<not> (\<exists>f \<in> set fs. final_frame f)
         \<and> (last (-1 # map gf_index fs) < 0 \<or> last (-1 # map gf_index fs) = en_num_frames eng q - 1))"
proof -
  let ?rid = "item_id it"
  obtain res env' s1 where run: "drive_frames h (en_encode eng) ?rid fs env (-1) s = (res, env', s1)"
    by (cases "drive_frames h (en_encode eng) ?rid fs env (-1) s")
  from drive_frames_spec [OF run assms(2)] obtain ps where
    ps: "\<And>d. evolves d ?rid s s1 ps" "prefix ps (map (msg ?rid (en_encode eng)) fs)"
      "case res of None \<Rightarrow> known s ?rid \<longrightarrow> finished s1 ?rid
       | Some j \<Rightarrow> ps = map (msg ?rid (en_encode eng)) fs \<and> j = last (-1 # map gf_index fs)
           \<and> ((\<exists>f \<in> set fs. final_frame f) \<longrightarrow> finished s1 ?rid) \<and> no_pushes ?rid env'" by blast
  let ?s' = "run_one h eng it env s"
  show ?thesis
  proof (cases res)
    case None
    then have "?s' = s1" using assms(3,4) run by (simp add: run_one_def Let_def)
    with None ps assms(1) show ?thesis by (intro exI [of _ ps]) simp
  next
    case (Some j)
    with ps(3) have j: "j = last (-1 # map gf_index fs)" and fin: "(\<exists>f \<in> set fs. final_frame f) \<longrightarrow> finished s1 ?rid"
      and np: "no_pushes ?rid env'" by simp_all
    have known: "known s1 ?rid" using evolves_known [OF ps(1) assms(1)] .
    consider (failed) "failure \<noteq> None" | (marker) "failure = None" "0 \<le> j" "j \<noteq> en_num_frames eng q - 1"
      | (over) "failure = None" "j < 0 \<or> j = en_num_frames eng q - 1" by linarith
    then show ?thesis
    proof cases
      case failed
      then have s': "?s' = cancel_silently h ?rid s1"
        using assms(3,4) run Some by (simp add: run_one_def Let_def)
      have "evolves d ?rid s ?s' ps" for d
        unfolding s' using evolves_trans [OF ps(1) cancel_silently_evolves] by simp
      with ps(2) cancel_silently_finishes [OF known] show ?thesis by (intro exI [of _ ps]) (simp add: s')
    next
      case marker
      let ?il = "case env' of [] \<Rightarrow> quiet | x # _ \<Rightarrow> x"
      let ?s2 = "others h (il_before ?il) s1" and ?line = "en_marker eng (j + 1) (en_num_frames eng q)"
      obtain ok s3 where p: "driver_push h ?rid (j + 1) ?line True (il_fate ?il) ?s2 = (ok, s3)"
        by (cases "driver_push h ?rid (j + 1) ?line True (il_fate ?il) ?s2")
      have s': "?s' = s3" using assms(3,4) run Some marker p by (simp add: run_one_def Let_def)
      have e2: "evolves d ?rid s ?s2 ps" for d
        using evolves_trans [OF ps(1) others_evolves [of ?rid "il_before ?il"]] no_pushes_hd [OF np] by simp
      from p have "\<exists>qs. (\<forall>d. evolves d ?rid ?s2 s3 qs) \<and> finished s3 ?rid"
        by (cases rule: driver_push_cases) (use evolves_known [OF e2 assms(1)] in blast)+
      then obtain qs where "\<And>d. evolves d ?rid ?s2 s3 qs" "finished s3 ?rid" by blast
      moreover from this(1) have "evolves d ?rid s s3 (ps @ qs)" for d by (rule evolves_trans [OF e2])
      ultimately show ?thesis using marker(3) j by (intro exI [of _ "ps @ qs"]) (simp add: s' del: last.simps)
    next
      case over
      then have "?s' = s1" using assms(3,4) run Some by (auto simp: run_one_def Let_def)
      with ps fin over j show ?thesis by (intro exI [of _ ps]) auto
    qed
  qed
qed

text \<open>C15: A driven request comes to an end. After the driver has run a request the router knows,
  whatever others did in between and however its pushes fared, the request is \<open>Complete\<close> or
  \<open>Cancelled\<close>, except when the engine returned without error and without a final frame, and
  either the last index is the one expected last or there was none.\<close>

theorem driven_request_ends:
  assumes "known s (item_id it)" "no_pushes (item_id it) env"
  shows "finished (run_one h eng it env s) (item_id it)
    \<or> (\<exists>q fs. en_validate eng (item_payload it) = Some q \<and> en_generate eng q = (fs, None)
        \<and> \<not> (\<exists>f \<in> set fs. final_frame f)
        \<and> (last (-1 # map gf_index fs) < 0 \<or> last (-1 # map gf_index fs) = en_num_frames eng q - 1))"
proof (cases "en_validate eng (item_payload it)")
  case None
  then show ?thesis using assms(1) by (simp add: run_one_def Let_def cancel_silently_finishes)
next
  case (Some q)
  obtain fs failure where g: "en_generate eng q = (fs, failure)" by (cases "en_generate eng q")
  from run_one_spec [OF assms Some g, of h] Some g show ?thesis by auto
qed

text \<open>An engine that does what \<open>generate\<close> promises: frames 0 to n - 1 of n, and no exception.\<close>

definition regular_engine :: "('p, 'q, 'f) engine \<Rightarrow> 'q \<Rightarrow> nat \<Rightarrow> bool" where
  "regular_engine eng q n \<longleftrightarrow> 0 < n \<and> en_num_frames eng q = int n \<and> snd (en_generate eng q) = None
     \<and> map gf_index (fst (en_generate eng q)) = map int [0..<n]
     \<and> (\<forall>f \<in> set (fst (en_generate eng q)). gf_total f = int n)"

lemma regular_last_only_final:
  assumes "regular_engine eng q n" "fst (en_generate eng q) = fs"
  shows "\<exists>f. f \<in> set fs \<and> final_frame f" "last (-1 # map gf_index fs) = en_num_frames eng q - 1"
    "\<forall>i < length fs. final_frame (fs ! i) \<longleftrightarrow> Suc i = length fs"
proof -
  from assms have n: "0 < n" and idx: "map gf_index fs = map int [0..<n]" and tot: "\<forall>f \<in> set fs. gf_total f = int n"
    by (auto simp: regular_engine_def)
  from idx have len: "length fs = n" by (metis length_map length_upt minus_nat.diff_0)
  have at: "gf_index (fs ! i) = int i" if "i < n" for i
    using arg_cong [OF idx, of "\<lambda>xs. xs ! i"] that len by simp
  show only: "\<forall>i < length fs. final_frame (fs ! i) \<longleftrightarrow> Suc i = length fs"
    using at tot len by (auto simp: final_frame_def)
  from n len have "fs ! (n - 1) \<in> set fs" by simp
  moreover have "final_frame (fs ! (n - 1))" using only n len by simp
  ultimately show "\<exists>f. f \<in> set fs \<and> final_frame f" by blast
  from n obtain m where "n = Suc m" by (cases n) auto
  with assms(1) show "last (-1 # map gf_index fs) = en_num_frames eng q - 1"
    by (simp add: idx regular_engine_def)
qed

lemma prefix_with_last:
  assumes "prefix ps qs" "x \<in> set ps" "\<forall>i < length qs. P (qs ! i) \<longleftrightarrow> Suc i = length qs" "P x"
  shows "ps = qs"
proof -
  from assms(2) obtain i where i: "i < length ps" "ps ! i = x" by (auto simp: in_set_conv_nth)
  from assms(1) obtain r where r: "qs = ps @ r" by (auto simp: prefix_def)
  with i have "qs ! i = x" by (simp add: nth_append)
  moreover have "i < length qs" using i r by simp
  ultimately have "Suc i = length qs" using assms(3,4) by blast
  with i(1) have "length qs \<le> length ps" by linarith
  with r show ?thesis by simp
qed

text \<open>C8: Complete means complete. For a regular engine, and an accepted request that nobody else
  pushes to, the frames the router accepts are a prefix of the engine's frames, in order, with
  the driver's encoding; the request ends \<open>Complete\<close> exactly if it accepted all of them, and
  otherwise \<open>Cancelled\<close>. By the stream properties the subscriber then reads a prefix of those.\<close>

theorem complete_means_every_frame:
  assumes "channel_of s (item_id it) = Some c" "\<not> terminal (e_state (c_entry c))" "e_state (c_entry c) \<noteq> Failed"
    and "r_depth (rs_router s) = d" "1 \<le> d" "chan_inv d c"
    and "no_pushes (item_id it) env" "en_validate eng (item_payload it) = Some q" "regular_engine eng q n"
  shows "\<exists>ops. let c' = fst (run_trace (chan_step d (item_id it)) c ops);
        accepted = pushed (snd (run_trace (chan_step d (item_id it)) c ops));
        wanted = map (msg (item_id it) (en_encode eng)) (fst (en_generate eng q))
    in channel_of (run_one h eng it env s) (item_id it) = Some c' \<and> prefix accepted wanted
      \<and> e_state (c_entry c') = (if accepted = wanted then Complete else Cancelled)"
proof -
  let ?rid = "item_id it" and ?s' = "run_one h eng it env s" and ?fs = "fst (en_generate eng q)"
  let ?wanted = "map (msg ?rid (en_encode eng)) ?fs"
  have g: "en_generate eng q = (?fs, None)"
    using assms(9) by (auto simp: regular_engine_def intro: prod_eqI)
  have reg: "\<exists>f. f \<in> set ?fs \<and> final_frame f" "last (-1 # map gf_index ?fs) = en_num_frames eng q - 1"
      "\<forall>i < length ?fs. final_frame (?fs ! i) \<longleftrightarrow> Suc i = length ?fs"
    by (rule regular_last_only_final [OF assms(9) refl])+
  have kn: "known s ?rid" using assms(1) known_channel by blast
  from run_one_spec [OF kn assms(7,8) g, of h] reg obtain ps where
    ps: "\<forall>d. evolves d ?rid s ?s' ps" "prefix ps ?wanted" and fin: "finished ?s' ?rid" by auto
  from ps(1) assms(1,4) obtain c' where c': "channel_of ?s' ?rid = Some c'" "reaches d ?rid c c' ps"
    unfolding evolves_def by blast
  then obtain ops where ops: "fst (run_trace (chan_step d ?rid) c ops) = c'"
      "pushed (snd (run_trace (chan_step d ?rid) c ops)) = ps" by (auto simp: reaches_def)
  have "chan_inv d c'" unfolding ops(1) [symmetric] by (rule chan.run_inv) (rule assms(6))
  then have nf: "e_state (c_entry c') \<noteq> Failed" by (simp add: chan_inv_def)
  have "e_state (c_entry c') = Complete \<longleftrightarrow> (\<exists>m \<in> set ps. fm_final m)"
    using complete_iff_final_pushed [OF assms(2), of d ?rid ops] by (simp add: ops)
  also have "\<dots> \<longleftrightarrow> ps = ?wanted"
  proof
    assume "\<exists>m \<in> set ps. fm_final m"
    then obtain m where m: "m \<in> set ps" "fm_final m" by blast
    have "\<forall>i < length ?wanted. fm_final (?wanted ! i) \<longleftrightarrow> Suc i = length ?wanted"
      using reg(3) by (simp add: msg_def final_frame_def)
    from prefix_with_last [OF ps(2) m(1) this m(2)] show "ps = ?wanted" .
  next
    assume "ps = ?wanted"
    with reg(1) show "\<exists>m \<in> set ps. fm_final m" by (auto simp: msg_def final_frame_def)
  qed
  finally have "e_state (c_entry c') = (if ps = ?wanted then Complete else Cancelled)"
    using fin nf c'(1) by (auto simp: finished_channel terminal_def)
  with c' ps(2) ops show ?thesis by (intro exI [of _ ops]) (simp add: Let_def)
qed

end
