(* ===== verification/V2System.thy ===== *)
theory V2System
  imports Driver
begin

text \<open>
  The v2 path put together: handlers, router, adapter and scheduler as one machine, driven by
  clients and by the driver's pops, with the invariants that hold across the components and the
  mapping of refused requests to HTTP answers.
\<close>

section \<open>The machine\<close>

datatype 'p v2_op =
    VGenerate string string 'p | VCancel string | VRouter router_op | VPop | VStop

datatype 'p v2_event = Answered "exn option" | Popped "'p item option" | Silent

definition with_scheduler :: "'p v2_state \<Rightarrow> 'p scheduler \<Rightarrow> 'p v2_state" where
  "with_scheduler s sc = s\<lparr>rs_sched := (rs_sched s)\<lparr>ad_scheduler := sc\<rparr>\<rparr>"

fun v2_step :: "'p v2_state \<Rightarrow> 'p v2_op \<Rightarrow> 'p v2_state \<times> 'p v2_event" where
  "v2_step s (VGenerate rid priority payload) =
     (let (e, s') = generate_stream_v2 s rid priority payload in (s', Answered e))"
| "v2_step s (VCancel rid) = (let (e, s') = cancel_v2 s rid in (s', Answered e))"
| "v2_step s (VRouter x) = (router_step adapter_handle s x, Silent)"
| "v2_step s VPop =
     (let (it, sc) = pop_next (ad_scheduler (rs_sched s)) in (with_scheduler s sc, Popped it))"
| "v2_step s VStop = (with_scheduler s (sched_shutdown (ad_scheduler (rs_sched s))), Silent)"

definition v2_init :: "int \<Rightarrow> int \<Rightarrow> exn + 'p v2_state" where
  "v2_init capacity depth =
     (case sched_init capacity of
        Inl e \<Rightarrow> Inl e
      | Inr sc \<Rightarrow>
          (case router_init depth of
             Inl e \<Rightarrow> Inl e
           | Inr r \<Rightarrow> Inr \<lparr>rs_router = r, rs_sched = \<lparr>ad_scheduler = sc, ad_payloads = []\<rparr>, rs_parked = {}\<rparr>))"

section \<open>The invariant across router, adapter and scheduler\<close>

definition known_ids :: "'s rsys \<Rightarrow> string set" where
  "known_ids s = fst ` set (r_requests (rs_router s))"

definition ids_inv :: "string set \<Rightarrow> 'p adapter \<Rightarrow> bool" where
  "ids_inv K a \<longleftrightarrow> sched_ids_ok (ad_scheduler a) \<and> item_id ` set (queued (ad_scheduler a)) \<subseteq> K"

definition v2_inv :: "'p v2_state \<Rightarrow> bool" where
  "v2_inv s \<longleftrightarrow> ids_inv (known_ids s) (rs_sched s) \<and> ad_payloads (rs_sched s) = []"

lemma ids_inv_mono: "ids_inv K a \<Longrightarrow> K \<subseteq> K' \<Longrightarrow> ids_inv K' a"
  by (auto simp: ids_inv_def)

lemma fst_set_update: "fst ` set (AList.update k v d) = insert k (fst ` set d)"
  by (induction d) auto

lemma adapter_cancel_inv:
  assumes "ids_inv K a"
  shows "ids_inv K (snd (adapter_cancel a rid))"
    and "ad_payloads a = [] \<Longrightarrow> ad_payloads (snd (adapter_cancel a rid)) = []"
proof -
  show "ids_inv K (snd (adapter_cancel a rid))"
  proof (cases "cancel (ad_scheduler a) rid")
    case (Inl e)
    with assms show ?thesis by (simp add: adapter_cancel_def Let_def discard_def ids_inv_def)
  next
    case (Inr sc)
    with assms have "sched_ids_ok (ad_scheduler a)" by (simp add: ids_inv_def)
    from cancel_exact [OF this Inr] assms Inr show ?thesis
      by (auto simp: adapter_cancel_def Let_def discard_def ids_inv_def)
  qed
  show "ad_payloads a = [] \<Longrightarrow> ad_payloads (snd (adapter_cancel a rid)) = []"
    by (simp add: adapter_cancel_def Let_def discard_def split: sum.split)
qed

lemma adapter_submit_inv:
  assumes "ids_inv K a" "rid \<notin> K" "adapter_submit a rid priority = (e, a')"
  shows "ids_inv (insert rid K) a'" and "e \<noteq> None \<Longrightarrow> ids_inv K a'"
    and "ad_payloads a' = AList.delete rid (ad_payloads a)"
proof -
  have ok: "sched_ids_ok (ad_scheduler a)" and sub: "item_id ` set (queued (ad_scheduler a)) \<subseteq> K"
    using assms(1) by (simp_all add: ids_inv_def)
  have fresh: "rid \<notin> item_id ` set (queued (ad_scheduler a))" using sub assms(2) by blast
  consider (bad) err where "e = Some err" "a' = discard a rid"
    | (fine) payload sc where "e = None" "submit (ad_scheduler a) rid priority payload = Inr sc"
        "a' = (discard a rid)\<lparr>ad_scheduler := sc\<rparr>"
    using assms(3) by (auto simp: adapter_submit_def Let_def discard_def split: option.splits sum.splits)
  then have "ids_inv (insert rid K) a' \<and> (e \<noteq> None \<longrightarrow> ids_inv K a') \<and> ad_payloads a' = AList.delete rid (ad_payloads a)"
  proof cases
    case bad
    with assms(1) show ?thesis by (auto simp: discard_def ids_inv_def)
  next
    case fine
    from submit_ids_ok [OF ok fresh fine(2)] fine sub show ?thesis by (auto simp: discard_def ids_inv_def)
  qed
  then show "ids_inv (insert rid K) a'" "e \<noteq> None \<Longrightarrow> ids_inv K a'"
    "ad_payloads a' = AList.delete rid (ad_payloads a)" by blast+
qed

text \<open>Accepting through the adapter: fresh id, submitted once, or nothing but the staged payload gone.\<close>

lemma accept_inv:
  assumes "ids_inv (fst ` set (r_requests r)) a" "accept adapter_handle r a rid priority = (e, r', a')"
  shows "ids_inv (fst ` set (r_requests r')) a'"
    and "ad_payloads a' = ad_payloads a \<or> ad_payloads a' = AList.delete rid (ad_payloads a)"
    and "e = None \<Longrightarrow> ad_payloads a' = AList.delete rid (ad_payloads a)"
proof -
  let ?K = "fst ` set (r_requests r)"
  note out = accept_outcome [OF assms(2)]
  consider (early) "e \<noteq> None" "a' = a" | (sub) canonical e' where "rid \<notin> ?K"
      "adapter_submit a rid canonical = (e', a')" "e = None \<longleftrightarrow> e' = None"
    using assms(2) by (auto simp: accept_def Let_def adapter_handle_def map_of_None_iff
        split: if_splits sum.splits prod.splits option.splits)
  then have "ids_inv (fst ` set (r_requests r')) a'
      \<and> (ad_payloads a' = ad_payloads a \<or> ad_payloads a' = AList.delete rid (ad_payloads a))
      \<and> (e = None \<longrightarrow> ad_payloads a' = AList.delete rid (ad_payloads a))"
  proof cases
    case early
    with out assms(1) show ?thesis by auto
  next
    case sub
    note s = adapter_submit_inv [OF assms(1) sub(1,2)]
    show ?thesis
    proof (cases e)
      case None
      with out have "fst ` set (r_requests r') = insert rid ?K" by auto
      with s None show ?thesis by simp
    next
      case (Some x)
      with out have "r' = r" by simp
      with s(2,3) sub(3) Some show ?thesis by simp
    qed
  qed
  then show "ids_inv (fst ` set (r_requests r')) a'"
    "ad_payloads a' = ad_payloads a \<or> ad_payloads a' = AList.delete rid (ad_payloads a)"
    "e = None \<Longrightarrow> ad_payloads a' = AList.delete rid (ad_payloads a)" by blast+
qed

lemma known_set_entry:
  assumes "map_of (r_requests r) rid = Some en"
  shows "fst ` set (r_requests (set_entry r rid en')) = fst ` set (r_requests r)"
proof -
  have "rid \<in> fst ` set (r_requests r)" using assms by (metis map_of_eq_None_iff option.distinct(1))
  then show ?thesis by (simp add: set_entry_def fst_set_update insert_absorb)
qed

lemma find_entry_Inr: "find_entry r rid = Inr en \<longleftrightarrow> map_of (r_requests r) rid = Some en"
  by (simp add: find_entry_def split: option.split)

lemma subscribe_ids:
  assumes "subscribe r rid = Inr r'"
  shows "fst ` set (r_requests r') = fst ` set (r_requests r)"
proof -
  from assms obtain en en' where "find_entry r rid = Inr en" "r' = set_entry r rid en'"
    by (auto simp: subscribe_def split: sum.splits)
  then show ?thesis by (simp add: find_entry_Inr known_set_entry)
qed

lemma router_cancel_cases:
  assumes "router_cancel h r sc rid = (e, r', sc')"
  obtains (refused) "r' = r" "sc' = sc"
  | (cancelled) en en' where "find_entry r rid = Inr en" "r' = set_entry r rid en'" "sc' = snd (h_cancel h sc rid)"
proof (cases "find_entry r rid")
  case (Inl x)
  with assms show thesis by (intro refused) (simp_all add: router_cancel_def)
next
  case (Inr en)
  show thesis
  proof (cases "cancel_entry (r_depth r) en")
    case (Inl x)
    with assms Inr show thesis by (intro refused) (simp_all add: router_cancel_def)
  next
    case en': (Inr en')
    with assms Inr show thesis by (intro cancelled [OF Inr, of en']) (simp_all add: router_cancel_def)
  qed
qed

lemma router_cancel_inv:
  assumes "ids_inv (fst ` set (r_requests r)) a" "ad_payloads a = []"
    and "router_cancel adapter_handle r a rid = (e, r', a')"
  shows "ids_inv (fst ` set (r_requests r')) a' \<and> ad_payloads a' = []"
  using assms(3)
proof (cases rule: router_cancel_cases)
  case refused
  with assms show ?thesis by simp
next
  case (cancelled en en')
  have "a' = snd (adapter_cancel a rid)" using cancelled(3) by (simp add: adapter_handle_def)
  moreover have "fst ` set (r_requests r') = fst ` set (r_requests r)"
    unfolding cancelled(2) using cancelled(1) by (simp only: find_entry_Inr known_set_entry)
  ultimately show ?thesis using adapter_cancel_inv [OF assms(1), of rid] assms(2) by simp
qed


lemma v2_inv_iff: "v2_inv s \<longleftrightarrow> ids_inv (fst ` set (r_requests (rs_router s))) (rs_sched s) \<and> ad_payloads (rs_sched s) = []"
  by (simp add: v2_inv_def known_ids_def)

lemma router_step_inv:
  assumes inv: "v2_inv s"
  shows "v2_inv (router_step adapter_handle s x)"
proof -
  have same: "v2_inv (s\<lparr>rs_router := r\<rparr>)" if "fst ` set (r_requests r) = fst ` set (r_requests (rs_router s))" for r
    using inv that by (simp add: v2_inv_iff)
  show ?thesis
  proof (cases x)
    case (RAccept rid pr)
    obtain e r a where acc: "accept adapter_handle (rs_router s) (rs_sched s) rid pr = (e, r, a)"
      by (cases "accept adapter_handle (rs_router s) (rs_sched s) rid pr")
    from inv accept_inv [OF _ acc] show ?thesis
      by (auto simp: v2_inv_iff RAccept acc)
  next
    case (RSubscribe rid)
    show ?thesis
      by (cases "subscribe (rs_router s) rid") (simp_all add: RSubscribe inv same subscribe_ids)
  next
    case (RPush rid idx p fin)
    show ?thesis
    proof (cases "push_frame (rs_router s) rid idx p fin")
      case (Inr r)
      then obtain en en' where "find_entry (rs_router s) rid = Inr en" "r = set_entry (rs_router s) rid en'"
        by (auto simp: push_frame_def split: sum.splits)
      with Inr show ?thesis by (simp add: RPush same find_entry_Inr known_set_entry)
    qed (simp add: RPush inv)
  next
    case (RCancel rid)
    obtain e r a where c: "router_cancel adapter_handle (rs_router s) (rs_sched s) rid = (e, r, a)"
      by (cases "router_cancel adapter_handle (rs_router s) (rs_sched s) rid")
    from inv router_cancel_inv [OF _ _ c] show ?thesis by (simp add: v2_inv_iff RCancel c)
  next
    case RShutdown
    have "fst ` set (r_requests (router_shutdown (rs_router s))) = fst ` set (r_requests (rs_router s))"
      by (force simp: router_shutdown_def image_image)
    with inv show ?thesis by (simp add: v2_inv_iff RShutdown)
  next
    case (RNext rid)
    show ?thesis
    proof (cases "map_of (r_requests (rs_router s)) rid")
      case (Some en)
      with inv show ?thesis
        by (simp add: RNext v2_inv_iff known_set_entry split: prod.split)
    qed (simp add: RNext inv)
  qed
qed

lemma ad_payloads_stage: "ad_payloads a = [] \<Longrightarrow> ad_payloads (stage a rid payload) = [(rid, payload)]"
  by (simp add: stage_def)

text \<open>What a generate call can come to: accepted and subscribed, or refused by the router.\<close>

lemma generate_cases:
  assumes "generate_stream_v2 s rid priority payload = (e, s')"
    and acc: "accept adapter_handle (rs_router s) (stage (rs_sched s) rid payload) rid priority = (err, r, a)"
  obtains (refused) m where "err = Some (RouterError m)" "s' = s\<lparr>rs_router := r, rs_sched := discard a rid\<rparr>"
      "e = Some (HTTPException (if str_in ''queue is full'' (lower m) \<or> str_in ''queuefull'' (lower m) then 503 else 400) m)"
  | (accepted) r' where "err = None" "subscribe r rid = Inr r'" "e = None" "s' = s\<lparr>rs_router := r', rs_sched := a\<rparr>"
proof (cases err)
  case None
  with accept_outcome [OF acc] have "r_requests r = r_requests (rs_router s) @ [(rid, new_entry)]"
      "map_of (r_requests (rs_router s)) rid = None" by simp_all
  then have "find_entry r rid = Inr new_entry" by (simp add: find_entry_Inr map_add_def)
  then obtain r' where r': "subscribe r rid = Inr r'"
    by (simp add: subscribe_def subscribe_entry_def new_entry_def)
  with None assms show thesis by (intro accepted [of r']) (simp_all add: generate_stream_v2_def)
next
  case (Some x)
  moreover from acc this obtain m where "x = RouterError m"
    by (auto simp: accept_def Let_def parse_priority_def split: if_splits sum.splits prod.splits option.splits)
  ultimately show thesis using assms by (intro refused [of m]) (auto simp: generate_stream_v2_def)
qed

lemma v2_step_inv:
  assumes inv: "v2_inv s"
  shows "v2_inv (fst (v2_step s x))"
proof (cases x)
  case (VGenerate rid priority payload)
  let ?a0 = "stage (rs_sched s) rid payload"
  have inv0: "ids_inv (fst ` set (r_requests (rs_router s))) ?a0"
    using inv by (simp add: v2_inv_iff ids_inv_def stage_def)
  have pl: "ad_payloads ?a0 = [(rid, payload)]" using inv by (simp add: v2_inv_iff ad_payloads_stage)
  obtain err r a where acc: "accept adapter_handle (rs_router s) ?a0 rid priority = (err, r, a)"
    by (cases "accept adapter_handle (rs_router s) ?a0 rid priority")
  obtain e s' where gen: "generate_stream_v2 s rid priority payload = (e, s')"
    by (cases "generate_stream_v2 s rid priority payload")
  note av = accept_inv [OF inv0 acc]
  from gen acc have "v2_inv s'"
  proof (cases rule: generate_cases)
    case (refused m)
    have "ad_payloads (discard a rid) = []" using av(2) pl by (auto simp: discard_def)
    with av(1) show ?thesis by (simp add: refused(2) v2_inv_iff ids_inv_def discard_def)
  next
    case (accepted r')
    then show ?thesis using av(1,3) pl by (simp add: v2_inv_iff subscribe_ids)
  qed
  then show ?thesis by (simp add: VGenerate gen)
next
  case (VCancel rid)
  obtain e r a where c: "router_cancel adapter_handle (rs_router s) (rs_sched s) rid = (e, r, a)"
    by (cases "router_cancel adapter_handle (rs_router s) (rs_sched s) rid")
  have "snd (cancel_v2 s rid) = s\<lparr>rs_router := r, rs_sched := a\<rparr>"
    by (simp add: cancel_v2_def c split: option.split exn.split)
  with inv router_cancel_inv [OF _ _ c] show ?thesis
    by (simp add: VCancel v2_inv_iff case_prod_beta Let_def)
next
  case VPop
  obtain it sc where p: "pop_next (ad_scheduler (rs_sched s)) = (it, sc)"
    by (cases "pop_next (ad_scheduler (rs_sched s))")
  from inv have "sched_ids_ok (ad_scheduler (rs_sched s))" by (simp add: v2_inv_iff ids_inv_def)
  from pop_ids_ok [OF this p] inv show ?thesis
    by (auto simp: VPop p v2_inv_iff ids_inv_def with_scheduler_def)
next
  case VStop
  with inv show ?thesis
    by (simp add: v2_inv_iff ids_inv_def with_scheduler_def sched_shutdown_def sched_ids_ok_def queued_def)
qed (simp add: router_step_inv inv)

interpretation v2: invariant_machine v2_inv v2_step
  by unfold_locales (rule v2_step_inv)

lemma v2_init_inv: "v2_init capacity depth = Inr s \<Longrightarrow> v2_inv s"
  by (auto simp: v2_init_def v2_inv_iff ids_inv_def sched_ids_ok_def sched_init_def router_init_def queued_def
      split: sum.splits if_splits)

text \<open>C4: Router, adapter and scheduler stay consistent. From startup, after any sequence of generate
  and cancel calls, router calls, driver pops and the stop: queued request ids are distinct and
  known to the scheduler, every queued request has an entry in the router, and no staged payload
  is left behind. So the duplicate ids the scheduler alone would accept never reach it.\<close>

theorem v2_components_stay_consistent:
  assumes "v2_init capacity depth = Inr s0"
  shows "let s = fst (run_trace v2_step s0 ops); sc = ad_scheduler (rs_sched s)
    in distinct (map item_id (queued sc)) \<and> s_known sc = item_id ` set (queued sc)
      \<and> (\<forall>it \<in> set (queued sc). router_state (rs_router s) (item_id it) \<noteq> None)
      \<and> ad_payloads (rs_sched s) = []"
proof -
  let ?s = "fst (run_trace v2_step s0 ops)"
  have "v2_inv ?s" by (rule v2.run_inv) (rule v2_init_inv [OF assms])
  moreover have "router_state (rs_router ?s) rid \<noteq> None" if "rid \<in> fst ` set (r_requests (rs_router ?s))" for rid
    using that by (simp add: router_state_def map_of_eq_None_iff)
  moreover from calculation(1) have "item_id it \<in> fst ` set (r_requests (rs_router ?s))"
    if "it \<in> set (queued (ad_scheduler (rs_sched ?s)))" for it
    using that by (auto simp: v2_inv_iff ids_inv_def)
  ultimately show ?thesis
    unfolding Let_def v2_inv_iff ids_inv_def sched_ids_ok_def by blast
qed


section \<open>HTTP answers of the generate call\<close>

lemma lower_append: "lower (a @ b) = lower a @ lower b"
  by (simp add: lower_def)

lemma str_in_append: "str_in p a \<Longrightarrow> str_in p (a @ b)"
  unfolding str_in_sublist by (rule sublist_append_rightI [THEN sublist_order.order_trans [rotated]])

definition full_message :: "int \<Rightarrow> string" where
  "full_message cap = ''scheduler error: queue is full: '' @ int_str cap"

lemma full_message_matches: "str_in ''queue is full'' (lower (full_message cap))"
proof -
  have "str_in ''queue is full'' (lower ''scheduler error: queue is full: '')" by code_simp
  then show ?thesis unfolding full_message_def lower_append by (rule str_in_append)
qed

text \<open>The messages of the other refusals are not taken for a full queue.\<close>

lemma other_messages:
  "\<not> str_in ''queue is full'' (lower ''router is shutting down'')"
  "\<not> str_in ''queuefull'' (lower ''router is shutting down'')"
  "\<not> str_in ''queue is full'' (lower ''scheduler error: scheduler is shutting down'')"
  "\<not> str_in ''queuefull'' (lower ''scheduler error: scheduler is shutting down'')"
  by code_simp+

definition accept_result :: "'p v2_state \<Rightarrow> string option" where
  "accept_result s =
     (let sc = ad_scheduler (rs_sched s)
      in if r_shutdown (rs_router s) then Some ''router is shutting down''
         else if s_shutdown sc then Some ''scheduler error: scheduler is shutting down''
         else if s_capacity sc \<le> sched_len sc then Some (full_message (s_capacity sc))
         else None)"

lemma priority_ok:
  assumes "priority \<in> {''low'', ''normal'', ''high''}"
  obtains canonical p where "parse_priority priority = Inr canonical" "parse_prio canonical = Some p"
  using assms by auto

lemma accept_staged:
  assumes "ad_payloads (rs_sched s) = []" "priority \<in> {''low'', ''normal'', ''high''}"
    and "map_of (r_requests (rs_router s)) rid = None"
    and "accept adapter_handle (rs_router s) (stage (rs_sched s) rid payload) rid priority = (err, r, a)"
  shows "err = map_option RouterError (accept_result s)"
    and "err \<noteq> None \<Longrightarrow> r = rs_router s \<and> discard a rid = rs_sched s"
    and "err = None \<Longrightarrow> \<exists>p. mset (queued (ad_scheduler a)) = add_mset \<lparr>item_id = rid, item_priority = p,
        item_payload = payload\<rparr> (mset (queued (ad_scheduler (rs_sched s))))"
proof -
  from assms(2) obtain canonical p where c: "parse_priority priority = Inr canonical" "parse_prio canonical = Some p"
    by (rule priority_ok)
  let ?sc = "ad_scheduler (rs_sched s)"
  have stage: "map_of (ad_payloads (stage (rs_sched s) rid payload)) rid = Some payload"
    "ad_scheduler (stage (rs_sched s) rid payload) = ?sc"
    "discard (stage (rs_sched s) rid payload) rid = rs_sched s"
    using assms(1) by (simp_all add: stage_def discard_def)
  have sub: "submit ?sc rid canonical payload =
     (if s_shutdown ?sc then Inl shutting_down_error
      else if s_capacity ?sc \<le> sched_len ?sc then Inl (SchedulerError (''queue is full: '' @ int_str (s_capacity ?sc)))
      else submit ?sc rid canonical payload)"
    using c(2) by (simp add: submit_def)
  have ad: "adapter_submit (stage (rs_sched s) rid payload) rid canonical =
     (if s_shutdown ?sc then (Some shutting_down_error, rs_sched s)
      else if s_capacity ?sc \<le> sched_len ?sc
        then (Some (SchedulerError (''queue is full: '' @ int_str (s_capacity ?sc))), rs_sched s)
      else (None, (rs_sched s)\<lparr>ad_scheduler := projr (submit ?sc rid canonical payload)\<rparr>))"
    using c(2) stage by (simp add: adapter_submit_def Let_def submit_def)
  show err: "err = map_option RouterError (accept_result s)"
    using assms(3,4) c(1) ad
    by (auto simp: accept_def adapter_handle_def accept_result_def Let_def shutting_down_error_def full_message_def
        split: if_splits)
  show "err \<noteq> None \<Longrightarrow> r = rs_router s \<and> discard a rid = rs_sched s"
  proof -
    assume "err \<noteq> None"
    then obtain x where x: "err = Some x" by auto
    with accept_outcome [OF assms(4)] have "r = rs_router s" by simp
    moreover have "discard a rid = rs_sched s"
    proof (cases "r_shutdown (rs_router s)")
      case True
      with assms(4) stage(3) show ?thesis by (auto simp: accept_def)
    next
      case False
      have "discard (rs_sched s) rid = rs_sched s" using assms(1) by (simp add: discard_def)
      with False assms(3,4) c(1) ad x show ?thesis
        by (auto simp: accept_def adapter_handle_def Let_def split: if_splits)
    qed
    ultimately show ?thesis by simp
  qed
  assume "err = None"
  with err have ok: "\<not> r_shutdown (rs_router s)" "\<not> s_shutdown ?sc" "\<not> s_capacity ?sc \<le> sched_len ?sc"
    by (auto simp: accept_result_def Let_def split: if_splits)
  with c(2) obtain sc' where s': "submit ?sc rid canonical payload = Inr sc'" by (simp add: submit_def)
  with ok assms(3,4) c(1) ad have "ad_scheduler a = sc'"
    by (auto simp: accept_def adapter_handle_def Let_def)
  with mset_queued_submit [OF s'] show "\<exists>p. mset (queued (ad_scheduler a)) = add_mset \<lparr>item_id = rid,
      item_priority = p, item_payload = payload\<rparr> (mset (queued ?sc))" by auto
qed

text \<open>C21: How a generate call is answered. For a new id and a valid priority the call is accepted
  exactly if neither router nor scheduler is shutting down and the scheduler has room, and
  then the request is queued once with its payload. It is answered 503 exactly when the
  scheduler is full, 400 when something is shutting down, and a refused call leaves router,
  scheduler and staged payloads as they were.\<close>

theorem generate_answers:
  assumes "v2_init capacity depth = Inr s0" "fst (run_trace v2_step s0 ops) = s"
    and "priority \<in> {''low'', ''normal'', ''high''}" "map_of (r_requests (rs_router s)) rid = None"
    and "generate_stream_v2 s rid priority payload = (e, s')"
  defines "sc \<equiv> ad_scheduler (rs_sched s)"
  defines "down \<equiv> r_shutdown (rs_router s) \<or> s_shutdown sc" and "full \<equiv> s_capacity sc \<le> sched_len sc"
  shows "(e = None \<longleftrightarrow> \<not> down \<and> \<not> full)
    \<and> ((\<exists>m. e = Some (HTTPException 503 m)) \<longleftrightarrow> \<not> down \<and> full)
    \<and> ((\<exists>m. e = Some (HTTPException 400 m)) \<longleftrightarrow> down)
    \<and> (e \<noteq> None \<longrightarrow> s' = s)
    \<and> (e = None \<longrightarrow> (\<exists>p. mset (queued (ad_scheduler (rs_sched s'))) =
         add_mset \<lparr>item_id = rid, item_priority = p, item_payload = payload\<rparr> (mset (queued sc))))"
proof -
  have "v2_inv s" unfolding assms(2) [symmetric] by (rule v2.run_inv) (rule v2_init_inv [OF assms(1)])
  then have pl: "ad_payloads (rs_sched s) = []" by (simp add: v2_inv_def)
  obtain err r a where acc: "accept adapter_handle (rs_router s) (stage (rs_sched s) rid payload) rid priority = (err, r, a)"
    by (cases "accept adapter_handle (rs_router s) (stage (rs_sched s) rid payload) rid priority")
  note st = accept_staged [OF pl assms(3,4) acc]
  from assms(5) acc show ?thesis
  proof (cases rule: generate_cases)
    case (refused m)
    from refused(1) st(1) have m: "accept_result s = Some m" by auto
    have s': "s' = s" using refused(1,2) st(2) by simp
    show ?thesis
    proof (cases down)
      case True
      with m have "m = ''router is shutting down'' \<or> m = ''scheduler error: scheduler is shutting down''"
        by (auto simp: accept_result_def Let_def down_def sc_def split: if_splits)
      with other_messages have "e = Some (HTTPException 400 m)" by (auto simp: refused(3))
      with True s' show ?thesis by auto
    next
      case False
      with m have "m = full_message (s_capacity sc)" "full"
        by (auto simp: accept_result_def Let_def down_def full_def sc_def split: if_splits)
      with full_message_matches [of "s_capacity sc"] have "e = Some (HTTPException 503 m)" "full"
        by (simp_all add: refused(3))
      with False s' show ?thesis by auto
    qed
  next
    case (accepted r')
    with st(1) have "accept_result s = None" by simp
    then have "\<not> down" "\<not> full" by (auto simp: accept_result_def Let_def down_def full_def sc_def split: if_splits)
    with accepted st(3) show ?thesis by (simp add: sc_def)
  qed
qed


section \<open>Witnesses\<close>

definition v2_start :: "string v2_state" where
  "v2_start = projr (v2_init 1 4)"

lemma v2_start_init: "v2_init 1 4 = Inr v2_start"
  by (simp add: v2_start_def v2_init_def sched_init_def router_init_def)

definition v2_sample_ops :: "string v2_op list" where
  "v2_sample_ops = [VGenerate ''a'' ''normal'' ''pa'', VGenerate ''b'' ''high'' ''pb'', VPop,
     VGenerate ''c'' ''high'' ''pc'', VCancel ''zz'']"

definition v2_sample :: "string v2_state" where
  "v2_sample = fst (run_trace v2_step v2_start v2_sample_ops)"

lemma v2_sample_events:
  "snd (run_trace v2_step v2_start v2_sample_ops) =
     [Answered None, Answered (Some (HTTPException 503 ''scheduler error: queue is full: 1'')),
      Popped (Some \<lparr>item_id = ''a'', item_priority = Normal, item_payload = ''pa''\<rparr>), Answered None,
      Answered (Some (HTTPException 404 (''unknown request: '' @ py_repr ''zz'')))]"
  by code_simp

theorem v2_components_stay_consistent_witness:
  "map item_id (queued (ad_scheduler (rs_sched v2_sample))) = [''c'']
   \<and> s_known (ad_scheduler (rs_sched v2_sample)) = {''c''}
   \<and> ad_payloads (rs_sched v2_sample) = []"
proof -
  have q: "map item_id (queued (ad_scheduler (rs_sched v2_sample))) = [''c'']" by code_simp
  then have "item_id ` set (queued (ad_scheduler (rs_sched v2_sample))) = {''c''}"
    by (metis list.set(1) list.set(2) set_map)
  with v2_components_stay_consistent [OF v2_start_init, of v2_sample_ops] q show ?thesis
    by (simp add: Let_def v2_sample_def)
qed

theorem generate_answers_witness:
  "\<exists>m. fst (generate_stream_v2 v2_sample ''d'' ''low'' ''pd'') = Some (HTTPException 503 m)"
proof -
  obtain e s' where g: "generate_stream_v2 v2_sample ''d'' ''low'' ''pd'' = (e, s')"
    by (cases "generate_stream_v2 v2_sample ''d'' ''low'' ''pd''")
  have fresh: "map_of (r_requests (rs_router v2_sample)) ''d'' = None" by code_simp
  have full: "\<not> (r_shutdown (rs_router v2_sample) \<or> s_shutdown (ad_scheduler (rs_sched v2_sample)))"
    "s_capacity (ad_scheduler (rs_sched v2_sample)) \<le> sched_len (ad_scheduler (rs_sched v2_sample))"
    by code_simp+
  from generate_answers [OF v2_start_init v2_sample_def [symmetric] _ fresh g] full g show ?thesis by simp
qed

text \<open>An engine of two frames, driven on the popped request while its reader reads.\<close>

definition two_frames :: "(string, string, unit) engine" where
  "two_frames = \<lparr>en_validate = Some, en_num_frames = (\<lambda>_. 2),
     en_generate = (\<lambda>_. ([\<lparr>gf_index = 0, gf_total = 2, gf_pixels = ()\<rparr>, \<lparr>gf_index = 1, gf_total = 2, gf_pixels = ()\<rparr>], None)),
     en_encode = (\<lambda>f. int_str (gf_index f)), en_marker = (\<lambda>i t. ''m'')\<rparr>"

definition popped :: "string item" where
  "popped = \<lparr>item_id = ''a'', item_priority = Normal, item_payload = ''pa''\<rparr>"

definition reading :: "interlude list" where
  "reading = [quiet\<lparr>il_before := [RNext ''a'']\<rparr>, quiet\<lparr>il_mid := [RNext ''a'', RCancel ''c'']\<rparr>]"

lemma reading_no_pushes: "no_pushes (item_id popped) reading"
  by (simp add: reading_def no_pushes_def no_push_def quiet_def)

theorem driven_request_ends_witness:
  "finished (run_one adapter_handle two_frames popped reading v2_sample) (item_id popped)"
proof -
  have "router_state (rs_router v2_sample) ''a'' = Some Scheduled" by code_simp
  then have "known v2_sample (item_id popped)" by (simp add: known_def popped_def)
  from driven_request_ends [OF this reading_no_pushes, of adapter_handle two_frames]
  show ?thesis by (auto simp: two_frames_def final_frame_def)
qed

theorem complete_means_every_frame_witness:
  "\<exists>c'. channel_of (run_one adapter_handle two_frames popped reading v2_sample) ''a'' = Some c'
     \<and> e_state (c_entry c') \<in> {Complete, Cancelled}"
proof -
  let ?c = "\<lparr>c_entry = new_entry\<lparr>e_subscribed := True\<rparr>, c_parked = False\<rparr>"
  have "map_of (r_requests (rs_router v2_sample)) ''a'' = Some (new_entry\<lparr>e_subscribed := True\<rparr>)"
    "r_depth (rs_router v2_sample) = 4" by code_simp+
  moreover have "rs_parked v2_sample = {}" by code_simp
  ultimately have "channel_of v2_sample (item_id popped) = Some ?c" "r_depth (rs_router v2_sample) = 4"
    by (simp_all add: channel_of_def popped_def)
  moreover have "chan_inv 4 ?c" by (simp add: chan_inv_def new_entry_def terminal_def)
  moreover have "regular_engine two_frames q 2" for q
    by (simp add: regular_engine_def two_frames_def upt_rec)
  moreover have "en_validate two_frames (item_payload popped) = Some ''pa''"
    by (simp add: two_frames_def popped_def)
  ultimately obtain ops where "channel_of (run_one adapter_handle two_frames popped reading v2_sample) (item_id popped)
      = Some (fst (run_trace (chan_step 4 (item_id popped)) ?c ops))"
    "e_state (c_entry (fst (run_trace (chan_step 4 (item_id popped)) ?c ops))) \<in> {Complete, Cancelled}"
    using complete_means_every_frame [of v2_sample popped ?c 4 reading two_frames "''pa''" 2 adapter_handle]
      reading_no_pushes
    by (auto simp: new_entry_def terminal_def Let_def split: if_splits)
  then show ?thesis by (auto simp: popped_def)
qed


section \<open>An engine without frames\<close>

text \<open>An engine that yields no frame and raises nothing leaves its request behind: the driver
  returns with everything unchanged, the request stays in the state it was accepted in, and its
  subscriber, having asked for the first frame, is parked with nothing left to wake it.\<close>

theorem frameless_engine_leaves_reader_waiting:
  assumes "channel_of s (item_id it) = Some \<lparr>c_entry = new_entry\<lparr>e_subscribed := True\<rparr>, c_parked = False\<rparr>"
    and "en_validate eng (item_payload it) = Some q" "en_generate eng q = ([], None)"
  shows "let s' = router_step h (run_one h eng it env s) (RNext (item_id it))
    in router_state (rs_router s') (item_id it) = Some Scheduled \<and> item_id it \<in> rs_parked s'
      \<and> rs_sched s' = rs_sched s"
proof -
  have "run_one h eng it env s = s" using assms(2,3) by (simp add: run_one_def)
  moreover from assms(1) have "map_of (r_requests (rs_router s)) (item_id it) = Some (new_entry\<lparr>e_subscribed := True\<rparr>)"
    "item_id it \<notin> rs_parked s" by (auto simp: channel_of_def)
  ultimately show ?thesis
    by (simp add: Let_def anext_or_resume_def anext_def get_item_def new_entry_def router_state_def set_entry_lookup)
qed

theorem frameless_engine_leaves_reader_waiting_witness:
  "''a'' \<in> rs_parked (router_step adapter_handle
      (run_one adapter_handle (two_frames\<lparr>en_generate := \<lambda>_. ([], None)\<rparr>) popped [] v2_sample) (RNext ''a''))"
proof -
  have "map_of (r_requests (rs_router v2_sample)) ''a'' = Some (new_entry\<lparr>e_subscribed := True\<rparr>)"
    "rs_parked v2_sample = {}" by code_simp+
  then have "channel_of v2_sample (item_id popped) = Some \<lparr>c_entry = new_entry\<lparr>e_subscribed := True\<rparr>, c_parked = False\<rparr>"
    by (simp add: channel_of_def popped_def)
  from frameless_engine_leaves_reader_waiting [OF this, of "two_frames\<lparr>en_generate := \<lambda>_. ([], None)\<rparr>" "''pa''"]
  show ?thesis by (simp add: two_frames_def popped_def Let_def)
qed

end
