(* ===== verification/Json.thy ===== *)
theory Json
  imports PyStr
begin

text \<open>
  JSON documents as Python's \<open>json\<close> module gives them to the runtime. A number without fraction
  or exponent is an unbounded \<open>int\<close>; any other is a float, kept as its exact rational value or
  as one of the three non-finite values. An object is a dictionary: distinct keys, in order of
  first occurrence. The decoder and the encoder themselves are arguments of the definitions
  that use them: a decoder returns \<open>None\<close> where \<open>json.loads\<close> raises \<open>JSONDecodeError\<close> or
  \<open>UnicodeDecodeError\<close>. The interpreter's resource limits (recursion depth, digits of an
  integer) are not part of the model.
\<close>

datatype pyfloat = Fin rat | PosInf | NegInf | NotANumber

datatype json =
    JNull
  | JBool bool
  | JInt int
  | JFloat pyfloat
  | JStr string
  | JList "json list"
  | JObj "(string \<times> json) list"

type_synonym decoder = "string \<Rightarrow> json option"
type_synonym encoder = "json \<Rightarrow> string"

text \<open>Truth value of a decoded document, as \<open>bool(x)\<close> and \<open>if x\<close> compute it.\<close>

fun truthy :: "json \<Rightarrow> bool" where
  "truthy JNull = False"
| "truthy (JBool b) = b"
| "truthy (JInt i) = (i \<noteq> 0)"
| "truthy (JFloat x) = (x \<noteq> Fin 0)"
| "truthy (JStr s) = (s \<noteq> [])"
| "truthy (JList xs) = (xs \<noteq> [])"
| "truthy (JObj kvs) = (kvs \<noteq> [])"

text \<open>\<open>obj.get(k)\<close>: a missing key and a \<open>null\<close> are the same.\<close>

definition jget :: "(string \<times> json) list \<Rightarrow> string \<Rightarrow> json" where
  "jget kvs k = (case map_of kvs k of None \<Rightarrow> JNull | Some v \<Rightarrow> v)"

text \<open>\<open>isinstance(x, int)\<close> holds for booleans too; their integer values are 0 and 1.\<close>

fun as_int :: "json \<Rightarrow> int option" where
  "as_int (JInt i) = Some i"
| "as_int (JBool b) = Some (of_bool b)"
| "as_int _ = None"

fun as_obj :: "json \<Rightarrow> (string \<times> json) list option" where
  "as_obj (JObj kvs) = Some kvs"
| "as_obj _ = None"

lemma as_obj_Some: "as_obj v = Some kvs \<longleftrightarrow> v = JObj kvs"
  by (cases v) auto

end
