(* ===== verification/Metering.thy ===== *)
theory Metering
  imports Json
begin

text \<open>
  Token accounting for OpenAI-compatible traffic (\<open>src/repercep/serving/metering.py\<close>): the
  request plan, the reading of \<open>usage\<close> objects, and \<open>ResponseMeter\<close>, which forwards the
  upstream's bytes and counts tokens. The JSON decoder and encoder are parameters; no law is
  assumed of them unless a theorem says so.
\<close>

section \<open>Token usage\<close>

record token_usage =
  prompt_tokens :: int
  completion_tokens :: int

definition total_tokens :: "token_usage \<Rightarrow> int" where
  "total_tokens u = prompt_tokens u + completion_tokens u"

definition max_accumulate_bytes :: int where
  "max_accumulate_bytes = 8 * 1024 * 1024"

section \<open>The request plan\<close>

record request_plan =
  rp_body :: string
  rp_model :: string
  rp_streaming :: bool
  rp_injected :: bool

definition untouched :: "string \<Rightarrow> string \<Rightarrow> bool \<Rightarrow> request_plan" where
  "untouched raw model streaming =
     \<lparr>rp_body = raw, rp_model = model, rp_streaming = streaming, rp_injected = False\<rparr>"

definition model_name_of :: "(string \<times> json) list \<Rightarrow> string" where
  "model_name_of kvs = (case jget kvs ''model'' of JStr m \<Rightarrow> m | _ \<Rightarrow> [])"

definition plan_request :: "decoder \<Rightarrow> encoder \<Rightarrow> string \<Rightarrow> request_plan" where
  "plan_request loads dumps raw =
     (case loads raw of
        None \<Rightarrow> untouched raw [] False
      | Some doc \<Rightarrow>
          (case as_obj doc of
             None \<Rightarrow> untouched raw [] False
           | Some parsed \<Rightarrow>
               let model_name = model_name_of parsed;
                   streaming = (case map_of parsed ''stream'' of None \<Rightarrow> False | Some v \<Rightarrow> truthy v)
               in if \<not> streaming then untouched raw model_name False
                  else
                    let opts = as_obj (jget parsed ''stream_options'')
                    in if (case opts of None \<Rightarrow> False | Some o' \<Rightarrow> map_of o' ''include_usage'' \<noteq> None)
                       then untouched raw model_name True
                       else
                         let merged = AList.update ''include_usage'' (JBool True)
                                        (case opts of None \<Rightarrow> [] | Some o' \<Rightarrow> o')
                         in \<lparr>rp_body = dumps (JObj (AList.update ''stream_options'' (JObj merged) parsed)),
                             rp_model = model_name, rp_streaming = True, rp_injected = True\<rparr>))"

section \<open>Reading usage\<close>

definition usage_from_obj :: "json \<Rightarrow> token_usage option" where
  "usage_from_obj obj =
     (case as_obj obj of
        None \<Rightarrow> None
      | Some kvs \<Rightarrow>
          (case as_obj (jget kvs ''usage'') of
             None \<Rightarrow> None
           | Some u \<Rightarrow>
               let prompt = as_int (jget u ''prompt_tokens'');
                   completion = as_int (jget u ''completion_tokens'')
               in if prompt = None \<and> completion = None then None
                  else Some \<lparr>prompt_tokens = (case prompt of None \<Rightarrow> 0 | Some n \<Rightarrow> n),
                             completion_tokens = (case completion of None \<Rightarrow> 0 | Some n \<Rightarrow> n)\<rparr>))"

definition extract_usage :: "decoder \<Rightarrow> string \<Rightarrow> token_usage option" where
  "extract_usage loads payload =
     (case loads payload of None \<Rightarrow> None | Some doc \<Rightarrow> usage_from_obj doc)"

text \<open>One choice of a streamed chunk: a chat delta with content, or a completion's text.\<close>

definition choice_has_content :: "json \<Rightarrow> bool" where
  "choice_has_content choice =
     (case as_obj choice of
        None \<Rightarrow> False
      | Some c \<Rightarrow>
          (case as_obj (jget c ''delta'') of
             None \<Rightarrow> False
           | Some delta \<Rightarrow> truthy (jget delta ''content''))
          \<or> truthy (jget c ''text''))"

definition has_content_delta :: "(string \<times> json) list \<Rightarrow> bool" where
  "has_content_delta kvs =
     (case jget kvs ''choices'' of
        JList choices \<Rightarrow> list_ex choice_has_content choices
      | _ \<Rightarrow> False)"

section \<open>The response meter\<close>

record meter =
  m_streaming :: bool
  m_suppress :: bool
  m_buffer :: string
  m_body :: string
  m_truncated :: bool
  m_usage :: "token_usage option"
  m_delta_chunks :: int
  m_drop_next_blank :: bool

definition meter_init :: "bool \<Rightarrow> bool \<Rightarrow> meter" where
  "meter_init streaming suppress = \<lparr>m_streaming = streaming, m_suppress = suppress, m_buffer = [],
     m_body = [], m_truncated = False, m_usage = None, m_delta_chunks = 0, m_drop_next_blank = False\<rparr>"

definition measured_usage :: "meter \<Rightarrow> token_usage" where
  "measured_usage m =
     (case m_usage m of
        Some u \<Rightarrow> u
      | None \<Rightarrow> \<lparr>prompt_tokens = 0, completion_tokens = m_delta_chunks m\<rparr>)"

definition is_exact :: "meter \<Rightarrow> bool" where
  "is_exact m \<longleftrightarrow> m_usage m \<noteq> None"

definition sse_data_prefix :: string where
  "sse_data_prefix = ''data:''"

definition sse_done :: string where
  "sse_done = ''[DONE]''"

text \<open>The JSON object of a \<open>data:\<close> line, when there is one.\<close>

definition data_object :: "decoder \<Rightarrow> string \<Rightarrow> (string \<times> json) list option" where
  "data_object loads line =
     (let stripped = bytes_strip line
      in if \<not> startswith stripped sse_data_prefix then None
         else
           let payload = bytes_strip (drop (length sse_data_prefix) stripped)
           in if payload = [] \<or> payload = sse_done then None
              else (case loads payload of None \<Rightarrow> None | Some doc \<Rightarrow> as_obj doc))"

definition inspect_sse_line :: "decoder \<Rightarrow> meter \<Rightarrow> string \<Rightarrow> bool \<times> meter" where
  "inspect_sse_line loads m line =
     (case data_object loads line of
        None \<Rightarrow> (False, m)
      | Some obj \<Rightarrow>
          (case usage_from_obj (JObj obj) of
             Some found \<Rightarrow>
               (m_suppress m \<and> \<not> truthy (jget obj ''choices''), m\<lparr>m_usage := Some found\<rparr>)
           | None \<Rightarrow>
               (False, if has_content_delta obj then m\<lparr>m_delta_chunks := m_delta_chunks m + 1\<rparr> else m)))"

definition forward_line :: "decoder \<Rightarrow> meter \<Rightarrow> string \<Rightarrow> bool \<times> meter" where
  "forward_line loads m line =
     (if bytes_strip line = [] then
        if m_drop_next_blank m then (False, m\<lparr>m_drop_next_blank := False\<rparr>) else (True, m)
      else
        let (suppress, m') = inspect_sse_line loads (m\<lparr>m_drop_next_blank := False\<rparr>) line
        in if suppress then (False, m'\<lparr>m_drop_next_blank := True\<rparr>) else (True, m'))"

lemma forward_line_buffer: "m_buffer (snd (forward_line loads m line)) = m_buffer m"
  by (auto simp: forward_line_def inspect_sse_line_def Let_def split: option.splits)

text \<open>\<open>self._buffer.find(b"\n")\<close>: the index of the first line feed.\<close>

fun find_newline :: "string \<Rightarrow> nat option" where
  "find_newline [] = None"
| "find_newline (c # s) = (if c = CHR 0x0A then Some 0 else map_option Suc (find_newline s))"

lemma find_newline_less: "find_newline s = Some i \<Longrightarrow> i < length s"
  by (induction s arbitrary: i) (auto split: if_splits)

text \<open>The loop of \<open>_feed_sse\<close>: cut off complete lines until none is left.\<close>

function sse_loop :: "decoder \<Rightarrow> meter \<Rightarrow> string \<Rightarrow> meter \<times> string" where
  "sse_loop loads m out =
     (case find_newline (m_buffer m) of
        None \<Rightarrow> (m, out)
      | Some idx \<Rightarrow>
          let line = take (Suc idx) (m_buffer m);
              fm = forward_line loads (m\<lparr>m_buffer := drop (Suc idx) (m_buffer m)\<rparr>) line
          in sse_loop loads (snd fm) (if fst fm then out @ line else out))"
  by pat_completeness auto
termination
proof (relation "measure (\<lambda>(loads, m, out). length (m_buffer m))", goal_cases)
  case (2 loads m out idx)
  then show ?case by (auto simp: forward_line_buffer dest: find_newline_less)
qed simp

declare sse_loop.simps [simp del]

text \<open>The same loop cut off after a number of rounds: \<open>None\<close> while it still runs.\<close>

fun sse_rounds :: "nat \<Rightarrow> decoder \<Rightarrow> meter \<Rightarrow> string \<Rightarrow> (meter \<times> string) option" where
  "sse_rounds 0 loads m out = None"
| "sse_rounds (Suc k) loads m out =
     (case find_newline (m_buffer m) of
        None \<Rightarrow> Some (m, out)
      | Some idx \<Rightarrow>
          let line = take (Suc idx) (m_buffer m);
              fm = forward_line loads (m\<lparr>m_buffer := drop (Suc idx) (m_buffer m)\<rparr>) line
          in sse_rounds k loads (snd fm) (if fst fm then out @ line else out))"

definition feed_sse :: "decoder \<Rightarrow> meter \<Rightarrow> string \<Rightarrow> meter \<times> string" where
  "feed_sse loads m chunk = sse_loop loads (m\<lparr>m_buffer := m_buffer m @ chunk\<rparr>) []"

definition feed :: "decoder \<Rightarrow> meter \<Rightarrow> string \<Rightarrow> meter \<times> string" where
  "feed loads m chunk =
     (if \<not> m_streaming m then
        if \<not> m_truncated m then
          if int (length (m_body m)) + int (length chunk) > max_accumulate_bytes
          then (m\<lparr>m_truncated := True, m_body := []\<rparr>, chunk)
          else (m\<lparr>m_body := m_body m @ chunk\<rparr>, chunk)
        else (m, chunk)
      else feed_sse loads m chunk)"

definition finish :: "decoder \<Rightarrow> meter \<Rightarrow> meter \<times> string" where
  "finish loads m =
     (if \<not> m_streaming m then
        if \<not> m_truncated m then (m\<lparr>m_usage := extract_usage loads (m_body m)\<rparr>, [])
        else (m, [])
      else
        let tail = m_buffer m; m1 = m\<lparr>m_buffer := []\<rparr>
        in if tail = [] then (m1, [])
           else (snd (inspect_sse_line loads m1 tail), tail))"

text \<open>A whole response: every chunk in turn, then the end of the stream.\<close>

fun feed_all :: "decoder \<Rightarrow> meter \<Rightarrow> string list \<Rightarrow> meter \<times> string" where
  "feed_all loads m [] = (m, [])"
| "feed_all loads m (c # cs) =
     (let r1 = feed loads m c; r2 = feed_all loads (fst r1) cs in (fst r2, snd r1 @ snd r2))"

definition meter_response :: "decoder \<Rightarrow> meter \<Rightarrow> string list \<Rightarrow> meter \<times> string" where
  "meter_response loads m cs =
     (let r1 = feed_all loads m cs; r2 = finish loads (fst r1) in (fst r2, snd r1 @ snd r2))"

section \<open>The meter line by line\<close>

text \<open>The complete lines of a byte string, each with its line feed, and the unfinished rest.\<close>

fun lines_of :: "string \<Rightarrow> string list \<times> string" where
  "lines_of [] = ([], [])"
| "lines_of (c # s) =
     (let (ls, t) = lines_of s in
      if c = CHR 0x0A then ([c] # ls, t)
      else case ls of [] \<Rightarrow> ([], c # t) | l # ls' \<Rightarrow> ((c # l) # ls', t))"

lemma lines_of_concat: "concat (fst (lines_of s)) @ snd (lines_of s) = s"
  by (induction s) (auto simp: Let_def split: prod.splits list.splits)

lemma lines_of_no_newline: "find_newline s = None \<Longrightarrow> lines_of s = ([], s)"
  by (induction s) (auto split: if_splits)

lemma lines_of_newline:
  "find_newline s = Some i \<Longrightarrow>
     lines_of s = (take (Suc i) s # fst (lines_of (drop (Suc i) s)), snd (lines_of (drop (Suc i) s)))"
  by (induction s arbitrary: i) (auto split: if_splits prod.splits list.splits)

lemma find_newline_tail: "find_newline (snd (lines_of s)) = None"
  by (induction s) (auto simp: Let_def split: prod.splits list.splits)

lemma lines_of_append:
  "lines_of (a @ b) =
     (fst (lines_of a) @ fst (lines_of (snd (lines_of a) @ b)), snd (lines_of (snd (lines_of a) @ b)))"
proof (induction a)
  case (Cons c a)
  obtain la ta where la: "lines_of a = (la, ta)" by (cases "lines_of a")
  obtain lb tb where lb: "lines_of (ta @ b) = (lb, tb)" by (cases "lines_of (ta @ b)")
  show ?case
    using Cons.IH by (cases la; cases lb) (simp_all add: la lb)
qed simp

fun process_lines :: "decoder \<Rightarrow> meter \<Rightarrow> string list \<Rightarrow> meter \<times> string" where
  "process_lines loads m [] = (m, [])"
| "process_lines loads m (l # ls) =
     (let fm = forward_line loads m l; r = process_lines loads (snd fm) ls
      in (fst r, (if fst fm then l else []) @ snd r))"

lemma process_lines_append:
  "process_lines loads m (xs @ ys) =
     (let r = process_lines loads m xs; r' = process_lines loads (fst r) ys
      in (fst r', snd r @ snd r'))"
  by (induction xs arbitrary: m) (simp_all add: Let_def)

lemma forward_line_set_buffer:
  "forward_line loads (m\<lparr>m_buffer := b\<rparr>) l =
     (fst (forward_line loads m l), (snd (forward_line loads m l))\<lparr>m_buffer := b\<rparr>)"
  by (auto simp: forward_line_def inspect_sse_line_def Let_def split: option.splits)

lemma process_lines_set_buffer:
  "process_lines loads (m\<lparr>m_buffer := b\<rparr>) ls =
     ((fst (process_lines loads m ls))\<lparr>m_buffer := b\<rparr>, snd (process_lines loads m ls))"
  by (induction ls arbitrary: m) (simp_all add: Let_def forward_line_set_buffer)

lemma sse_loop_lines:
  "sse_loop loads m out =
     (let ls = lines_of (m_buffer m); r = process_lines loads (m\<lparr>m_buffer := snd ls\<rparr>) (fst ls)
      in (fst r, out @ snd r))"
proof (induction loads m out rule: sse_loop.induct)
  case (1 loads m out)
  show ?case
  proof (cases "find_newline (m_buffer m)")
    case None
    then show ?thesis by (simp add: sse_loop.simps [of loads m out] lines_of_no_newline)
  next
    case (Some i)
    let ?b = "drop (Suc i) (m_buffer m)" and ?l = "take (Suc i) (m_buffer m)"
    let ?fm = "forward_line loads (m\<lparr>m_buffer := ?b\<rparr>) ?l"
    have "sse_loop loads m out = sse_loop loads (snd ?fm) (if fst ?fm then out @ ?l else out)"
      by (simp add: sse_loop.simps [of loads m out] Some Let_def)
    also have "\<dots> = (let ls = lines_of ?b; r = process_lines loads ((snd ?fm)\<lparr>m_buffer := snd ls\<rparr>) (fst ls)
        in (fst r, (if fst ?fm then out @ ?l else out) @ snd r))"
      using "1.IH" [OF Some refl refl] by (simp add: forward_line_buffer)
    finally show ?thesis
      by (simp add: lines_of_newline [OF Some] Let_def forward_line_set_buffer)
  qed
qed

text \<open>Feeding never loses track of the unfinished line, and a chunk can be cut anywhere.\<close>

lemma feed_sse_lines:
  "feed_sse loads m chunk =
     (let ls = lines_of (m_buffer m @ chunk); r = process_lines loads m (fst ls)
      in ((fst r)\<lparr>m_buffer := snd ls\<rparr>, snd r))"
  by (simp add: feed_sse_def sse_loop_lines Let_def process_lines_set_buffer)

lemma feed_sse_append:
  "feed_sse loads m (a @ b) =
     (let r = feed_sse loads m a; r' = feed_sse loads (fst r) b in (fst r', snd r @ snd r'))"
proof -
  have "lines_of (m_buffer m @ a @ b) =
      (fst (lines_of (m_buffer m @ a)) @ fst (lines_of (snd (lines_of (m_buffer m @ a)) @ b)),
       snd (lines_of (snd (lines_of (m_buffer m @ a)) @ b)))"
    using lines_of_append [of "m_buffer m @ a" b] by simp
  then show ?thesis
    by (simp add: feed_sse_lines Let_def process_lines_append process_lines_set_buffer)
qed

lemma process_lines_streaming:
  "m_streaming (fst (process_lines loads m ls)) = m_streaming m
   \<and> m_suppress (fst (process_lines loads m ls)) = m_suppress m"
proof (induction ls arbitrary: m)
  case (Cons l ls)
  have "m_streaming (snd (forward_line loads m l)) = m_streaming m
      \<and> m_suppress (snd (forward_line loads m l)) = m_suppress m"
    by (auto simp: forward_line_def inspect_sse_line_def Let_def split: option.splits)
  with Cons show ?case by (simp add: Let_def)
qed simp

lemma feed_streaming: "m_streaming (fst (feed loads m c)) = m_streaming m"
  by (simp add: feed_def feed_sse_lines Let_def process_lines_streaming)

lemma feed_append:
  "feed loads m (a @ b) =
     (let r = feed loads m a; r' = feed loads (fst r) b in (fst r', snd r @ snd r'))"
proof (cases "m_streaming m")
  case True
  then have "m_streaming (fst (feed_sse loads m a))"
    using feed_streaming [of loads m a] by (simp add: feed_def)
  with True show ?thesis by (simp add: feed_def feed_sse_append Let_def)
next
  case False
  then show ?thesis by (auto simp: feed_def Let_def)
qed

lemma feed_all_Cons:
  "feed_all loads m (c # cs) = feed loads m (concat (c # cs))"
proof (induction cs arbitrary: m c)
  case (Cons d cs)
  have "feed_all loads m (c # d # cs) =
      (fst (feed_all loads (fst (feed loads m c)) (d # cs)),
       snd (feed loads m c) @ snd (feed_all loads (fst (feed loads m c)) (d # cs)))"
    by (simp only: feed_all.simps(2) [of loads m c] Let_def)
  also have "\<dots> = feed loads m (c @ concat (d # cs))"
    unfolding Cons.IH by (simp only: feed_append [of loads m c] Let_def)
  finally show ?case by simp
qed (simp add: Let_def)

section \<open>What the meter promises\<close>

text \<open>
  The specification, on whole lines. A line is dropped when the proxy caused it (\<open>injected\<close>), it
  carries usage and no choices; the blank line that ends such an event goes with it. Nothing
  else is dropped.
\<close>

definition usage_of_line :: "decoder \<Rightarrow> string \<Rightarrow> token_usage option" where
  "usage_of_line loads l =
     (case data_object loads l of None \<Rightarrow> None | Some obj \<Rightarrow> usage_from_obj (JObj obj))"

definition has_choices :: "decoder \<Rightarrow> string \<Rightarrow> bool" where
  "has_choices loads l =
     (case data_object loads l of None \<Rightarrow> False | Some obj \<Rightarrow> truthy (jget obj ''choices''))"

definition counts_as_delta :: "decoder \<Rightarrow> string \<Rightarrow> bool" where
  "counts_as_delta loads l =
     (case data_object loads l of
        None \<Rightarrow> False
      | Some obj \<Rightarrow> usage_from_obj (JObj obj) = None \<and> has_content_delta obj)"

definition suppressed :: "decoder \<Rightarrow> bool \<Rightarrow> string \<Rightarrow> bool" where
  "suppressed loads injected l \<longleftrightarrow> injected \<and> usage_of_line loads l \<noteq> None \<and> \<not> has_choices loads l"

fun spec_keep :: "decoder \<Rightarrow> bool \<Rightarrow> bool \<Rightarrow> string list \<Rightarrow> string list" where
  "spec_keep loads injected after_drop [] = []"
| "spec_keep loads injected after_drop (l # ls) =
     (if bytes_strip l = [] then
        (if after_drop then spec_keep loads injected False ls else l # spec_keep loads injected False ls)
      else if suppressed loads injected l then spec_keep loads injected True ls
      else l # spec_keep loads injected False ls)"

text \<open>The last usage seen wins; chunks with content are counted until then and after.\<close>

fun last_usage :: "decoder \<Rightarrow> token_usage option \<Rightarrow> string list \<Rightarrow> token_usage option" where
  "last_usage loads u [] = u"
| "last_usage loads u (l # ls) =
     last_usage loads (case usage_of_line loads l of None \<Rightarrow> u | Some v \<Rightarrow> Some v) ls"

lemma strip_startswith_data: "bytes_strip l = [] \<Longrightarrow> data_object loads l = None"
  by (simp add: data_object_def sse_data_prefix_def)

lemma inspect_spec:
  "inspect_sse_line loads m l =
     (suppressed loads (m_suppress m) l,
      m\<lparr>m_usage := (case usage_of_line loads l of None \<Rightarrow> m_usage m | Some v \<Rightarrow> Some v),
        m_delta_chunks := m_delta_chunks m + of_bool (counts_as_delta loads l)\<rparr>)"
  by (auto simp: inspect_sse_line_def suppressed_def usage_of_line_def has_choices_def
      counts_as_delta_def split: option.splits)

lemma process_lines_spec:
  "process_lines loads m ls = (m', out) \<Longrightarrow>
     out = concat (spec_keep loads (m_suppress m) (m_drop_next_blank m) ls)
     \<and> m_usage m' = last_usage loads (m_usage m) ls
     \<and> m_delta_chunks m' = m_delta_chunks m + int (length (filter (counts_as_delta loads) ls))
     \<and> m_streaming m' = m_streaming m \<and> m_suppress m' = m_suppress m"
proof (induction ls arbitrary: m m' out)
  case (Cons l ls)
  let ?fm = "forward_line loads m l"
  obtain m2 o2 where r: "process_lines loads (snd ?fm) ls = (m2, o2)"
    by (cases "process_lines loads (snd ?fm) ls")
  with Cons.prems have eq: "m' = m2" "out = (if fst ?fm then l else []) @ o2"
    by (simp_all add: Let_def)
  show ?case
  proof (cases "bytes_strip l = []")
    case True
    with strip_startswith_data [of l loads]
    have "usage_of_line loads l = None" "\<not> counts_as_delta loads l"
      by (simp_all add: usage_of_line_def counts_as_delta_def)
    with Cons.IH [OF r] True show ?thesis by (auto simp: eq forward_line_def)
  next
    case False
    then have fm: "?fm = (\<not> suppressed loads (m_suppress m) l,
        m\<lparr>m_drop_next_blank := suppressed loads (m_suppress m) l,
          m_usage := (case usage_of_line loads l of None \<Rightarrow> m_usage m | Some v \<Rightarrow> Some v),
          m_delta_chunks := m_delta_chunks m + of_bool (counts_as_delta loads l)\<rparr>)"
      by (simp add: forward_line_def inspect_spec cong: option.case_cong)
    from Cons.IH [OF r] False show ?thesis by (simp add: eq fm)
  qed
qed simp

lemma lines_of_Nil [simp]: "lines_of [] = ([], [])" by simp

text \<open>
  The end-to-end result for a streamed response, in terms of the lines of the whole response.
\<close>

lemma meter_response_streaming:
  fixes loads :: decoder and m :: meter
  assumes "m_streaming m" and "m_buffer m = []"
  defines "r \<equiv> \<lambda>cs. meter_response loads m cs"
  shows "snd (r cs) = concat (spec_keep loads (m_suppress m) (m_drop_next_blank m) (fst (lines_of (concat cs))))
      @ snd (lines_of (concat cs))
    \<and> m_usage (fst (r cs)) = last_usage loads (m_usage m) (fst (lines_of (concat cs)) @ [snd (lines_of (concat cs))])
    \<and> m_delta_chunks (fst (r cs)) = m_delta_chunks m + int (length (filter (counts_as_delta loads)
        (fst (lines_of (concat cs)) @ [snd (lines_of (concat cs))])))"
proof -
  have all: "feed_all loads m cs = feed_sse loads m (concat cs)"
  proof (cases cs)
    case Nil
    with assms show ?thesis by (simp add: feed_sse_lines Let_def)
  next
    case (Cons c cs')
    with assms show ?thesis by (simp only: feed_all_Cons) (simp add: feed_def)
  qed
  obtain ls t where lt: "lines_of (concat cs) = (ls, t)" by (cases "lines_of (concat cs)")
  obtain m1 o1 where pl: "process_lines loads m ls = (m1, o1)" by (cases "process_lines loads m ls")
  note spec = process_lines_spec [OF pl]
  have empty: "usage_of_line loads [] = None" "\<not> counts_as_delta loads []"
    by (simp_all add: usage_of_line_def counts_as_delta_def data_object_def bytes_strip_def
        strip_by_def sse_data_prefix_def)
  have last: "last_usage loads u (xs @ [x]) =
      (case usage_of_line loads x of None \<Rightarrow> last_usage loads u xs | Some v \<Rightarrow> Some v)" for u xs x
    by (induction xs arbitrary: u) (auto split: option.splits)
  show ?thesis
    using spec empty assms(1)
    by (auto simp: r_def meter_response_def all feed_sse_lines assms(2) lt pl finish_def Let_def
        inspect_spec last split: option.splits)
qed

section \<open>Properties\<close>

text \<open>how the network cuts the response does not matter. Forwarded bytes, measured usage
  and exactness are the same for any division of the upstream's bytes into chunks, streaming or
  not, whatever the decoder does.\<close>

theorem metering_is_chunk_independent:
  "meter_response loads (meter_init streaming suppress) cs =
   meter_response loads (meter_init streaming suppress) [concat cs]"
proof (cases cs)
  case Nil
  then show ?thesis
    by (cases streaming)
      (simp_all add: meter_response_def meter_init_def feed_def feed_sse_lines max_accumulate_bytes_def Let_def)
next
  case (Cons c cs')
  then show ?thesis by (simp only: meter_response_def feed_all_Cons concat.simps append_Nil2)
qed

lemma streamed_spec:
  fixes loads :: decoder and cs :: "string list"
  defines "ls \<equiv> fst (lines_of (concat cs))" and "rest \<equiv> snd (lines_of (concat cs))"
  shows "snd (meter_response loads (meter_init True suppress) cs)
      = concat (spec_keep loads suppress False ls) @ rest
    \<and> is_exact (fst (meter_response loads (meter_init True suppress) cs))
      = (\<exists>l \<in> set (ls @ [rest]). usage_of_line loads l \<noteq> None)
    \<and> measured_usage (fst (meter_response loads (meter_init True suppress) cs))
      = (case last_usage loads None (ls @ [rest]) of
           Some u \<Rightarrow> u
         | None \<Rightarrow> \<lparr>prompt_tokens = 0,
             completion_tokens = int (length (filter (counts_as_delta loads) (ls @ [rest])))\<rparr>)"
proof -
  have some: "(last_usage loads u xs \<noteq> None) = (u \<noteq> None \<or> (\<exists>l \<in> set xs. usage_of_line loads l \<noteq> None))"
    for u xs
    by (induction xs arbitrary: u) (auto split: option.splits)
  have init: "m_streaming (meter_init True suppress)" "m_buffer (meter_init True suppress) = []"
    by (simp_all add: meter_init_def)
  from meter_response_streaming [OF init, of loads cs] some [of None "ls @ [rest]"]
  show ?thesis
    unfolding ls_def rest_def
    by (simp add: is_exact_def measured_usage_def meter_init_def split: option.split)
qed

text \<open>C3: the metered stream against its specification. For a streamed response the client
  receives every line of the upstream except the usage-only chunks the proxy itself asked for
  (and the blank line ending each such event), followed by the unterminated rest; the usage is
  that of the last line that carries any, and without one the number of content chunks.\<close>

theorem streamed_response_meets_spec:
  fixes loads :: decoder and cs :: "string list"
  defines "ls \<equiv> fst (lines_of (concat cs))" and "rest \<equiv> snd (lines_of (concat cs))"
  shows "snd (meter_response loads (meter_init True suppress) cs)
      = concat (spec_keep loads suppress False ls) @ rest
    \<and> is_exact (fst (meter_response loads (meter_init True suppress) cs))
      = (\<exists>l \<in> set (ls @ [rest]). usage_of_line loads l \<noteq> None)
    \<and> measured_usage (fst (meter_response loads (meter_init True suppress) cs))
      = (case last_usage loads None (ls @ [rest]) of
           Some u \<Rightarrow> u
         | None \<Rightarrow> \<lparr>prompt_tokens = 0,
             completion_tokens = int (length (filter (counts_as_delta loads) (ls @ [rest])))\<rparr>)"
  unfolding ls_def rest_def by (rule streamed_spec)

lemma spec_keep_all: "spec_keep loads False False ls = ls"
  by (induction ls) (auto simp: suppressed_def)

lemma spec_keep_subseq: "subseq (spec_keep loads su d ls) ls"
  by (induction loads su d ls rule: spec_keep.induct) auto

lemma spec_keep_keeps:
  "l \<in> set ls \<Longrightarrow> bytes_strip l \<noteq> [] \<Longrightarrow> \<not> suppressed loads su l \<Longrightarrow> l \<in> set (spec_keep loads su d ls)"
  by (induction loads su d ls rule: spec_keep.induct) auto

lemma subseq_concat: "subseq xs ys \<Longrightarrow> subseq (concat xs) (concat ys)"
  by (induction xs ys rule: list_emb.induct) (auto intro: subseq_append_mono list_emb_append2)

lemma feed_transparent:
  "\<not> m_streaming m \<Longrightarrow> snd (feed_all loads m cs) = concat cs"
proof (induction cs arbitrary: m)
  case (Cons c cs)
  then show ?case
    using feed_streaming [of loads m c] by (auto simp: Let_def feed_def)
qed simp

lemma line_feeds_left:
  "find_newline s = None \<Longrightarrow> count_list s (CHR 0x0A) = 0"
  "find_newline s = Some i \<Longrightarrow> count_list s (CHR 0x0A) = Suc (count_list (drop (Suc i) s) (CHR 0x0A))"
  by (induction s arbitrary: i) (auto split: if_splits)

text \<open>C29: the loop of \<open>_feed_sse\<close> ends, and after exactly as many rounds as the buffer has line
  feeds and one more: with that many rounds or more it has its result, with fewer it still
  runs.\<close>

theorem sse_loop_takes_one_round_per_line:
  "sse_rounds k loads m out
     = (if count_list (m_buffer m) (CHR 0x0A) < k then Some (sse_loop loads m out) else None)"
proof (induction k arbitrary: m out)
  case (Suc k)
  show ?case
  proof (cases "find_newline (m_buffer m)")
    case None
    then show ?thesis by (simp add: sse_loop.simps [of loads m out] line_feeds_left(1))
  next
    case (Some idx)
    from Suc.IH line_feeds_left(2) [OF Some] show ?thesis
      by (simp add: sse_loop.simps [of loads m out] Some Let_def forward_line_buffer)
  qed
qed simp

text \<open>the client's stream is the upstream's. When the proxy did not inject the usage
  option, and for every response that is not a stream, the forwarded bytes are exactly the
  upstream's. When it did, they are a subsequence of them, and no line that carries a choice
  or no usage is left out.\<close>

theorem forwarding_is_transparent:
  "(\<not> streaming \<or> \<not> suppress \<longrightarrow>
      snd (meter_response loads (meter_init streaming suppress) cs) = concat cs)
   \<and> subseq (snd (meter_response loads (meter_init streaming suppress) cs)) (concat cs)
   \<and> (\<forall>l \<in> set (fst (lines_of (concat cs))).
        bytes_strip l \<noteq> [] \<and> (usage_of_line loads l = None \<or> has_choices loads l) \<longrightarrow>
        sublist l (snd (meter_response loads (meter_init streaming suppress) cs)))"
proof (cases streaming)
  case False
  then have "m_streaming (meter_init streaming suppress) = False" by (simp add: meter_init_def)
  then have out: "snd (meter_response loads (meter_init streaming suppress) cs) = concat cs"
  proof -
    assume ns: "m_streaming (meter_init streaming suppress) = False"
    have "\<not> m_streaming (fst (feed_all loads m cs))" if "\<not> m_streaming m" for m
      using that by (induction cs arbitrary: m) (auto simp: Let_def feed_streaming)
    with ns feed_transparent [of "meter_init streaming suppress" loads cs] show ?thesis
      by (simp add: meter_response_def Let_def finish_def)
  qed
  have "sublist l (concat cs)" if "l \<in> set (fst (lines_of (concat cs)))" for l
  proof -
    from split_list [OF that] obtain xs ys where "fst (lines_of (concat cs)) = xs @ l # ys" by blast
    with lines_of_concat [of "concat cs"] show ?thesis
      by (metis append.assoc concat.simps(2) concat_append sublist_appendI)
  qed
  with out show ?thesis by simp
next
  case True
  let ?ls = "fst (lines_of (concat cs))" and ?t = "snd (lines_of (concat cs))"
  have out: "snd (meter_response loads (meter_init True suppress) cs)
      = concat (spec_keep loads suppress False ?ls) @ ?t"
    using meter_response_streaming [of "meter_init True suppress" loads cs]
    by (simp add: meter_init_def)
  have "subseq (concat (spec_keep loads suppress False ?ls) @ ?t) (concat ?ls @ ?t)"
    by (intro subseq_append_mono subseq_concat spec_keep_subseq) simp
  then have sub: "subseq (concat (spec_keep loads suppress False ?ls) @ ?t) (concat cs)"
    by (simp only: lines_of_concat)
  have eq: "suppress \<or> concat (spec_keep loads suppress False ?ls) @ ?t = concat cs"
    using lines_of_concat [of "concat cs"] by (cases suppress) (simp_all add: spec_keep_all)
  have keep: "sublist l (concat (spec_keep loads suppress False ?ls) @ ?t)"
    if "l \<in> set ?ls" "bytes_strip l \<noteq> []" "usage_of_line loads l = None \<or> has_choices loads l" for l
  proof -
    have "l \<in> set (spec_keep loads suppress False ?ls)"
      using that by (intro spec_keep_keeps) (auto simp: suppressed_def)
    then obtain xs ys where "spec_keep loads suppress False ?ls = xs @ l # ys"
      by (auto dest: split_list)
    then show ?thesis by (metis append.assoc concat.simps(2) concat_append sublist_appendI)
  qed
  from True have st: "streaming = True" by simp
  show ?thesis
    unfolding st out
  proof (intro conjI impI ballI)
    assume "\<not> True \<or> \<not> suppress"
    with eq show "concat (spec_keep loads suppress False ?ls) @ ?t = concat cs" by blast
  next
    show "subseq (concat (spec_keep loads suppress False ?ls) @ ?t) (concat cs)" by (rule sub)
  qed (blast intro: keep)
qed

text \<open>
  A decoder that knows two documents, a content chunk and a usage chunk, to run the meter on.
\<close>

definition two_docs :: decoder where
  "two_docs s =
     (if s = ''C'' then Some (JObj [(''choices'', JList [JObj [(''text'', JStr ''hi'')]])])
      else if s = ''U'' then Some (JObj [(''choices'', JList []),
        (''usage'', JObj [(''prompt_tokens'', JInt 3), (''completion_tokens'', JInt 5)])])
      else None)"

definition nl :: string where
  "nl = [CHR 0x0A]"

text \<open>A stream of a content chunk, the usage chunk the proxy asked for and the end mark,
  cut in the middle of lines.\<close>

definition sample_chunks :: "string list" where
  "sample_chunks = [''data: C'' @ nl @ nl @ ''da'', ''ta: U'' @ nl, nl @ ''data: [DONE]'' @ nl @ nl]"

theorem forwarding_is_transparent_witness:
  "sublist (''data: C'' @ nl) (snd (meter_response two_docs (meter_init True True) sample_chunks))
   \<and> snd (meter_response two_docs (meter_init True False) sample_chunks) = concat sample_chunks"
proof
  have "''data: C'' @ nl \<in> set (fst (lines_of (concat sample_chunks)))"
    by code_simp
  moreover have "bytes_strip (''data: C'' @ nl) \<noteq> []" by code_simp
  moreover have "usage_of_line two_docs (''data: C'' @ nl) = None" by code_simp
  ultimately show "sublist (''data: C'' @ nl) (snd (meter_response two_docs (meter_init True True) sample_chunks))"
    using forwarding_is_transparent [of True True two_docs sample_chunks] by blast
  show "snd (meter_response two_docs (meter_init True False) sample_chunks) = concat sample_chunks"
    using forwarding_is_transparent [of True False two_docs sample_chunks] by blast
qed

text \<open>The same stream with the proxy's own usage chunk: the client does not see it.\<close>

lemma sample_response:
  "snd (meter_response two_docs (meter_init True True) sample_chunks)
     = ''data: C'' @ nl @ nl @ ''data: [DONE]'' @ nl @ nl
   \<and> measured_usage (fst (meter_response two_docs (meter_init True True) sample_chunks))
     = \<lparr>prompt_tokens = 3, completion_tokens = 5\<rparr>"
  by code_simp

text \<open>\<open>finish\<close> may be called again, as the proxy does on its way out: the second call gives no
  bytes and changes neither usage nor exactness nor anything else.\<close>

theorem finish_is_idempotent: "finish loads (fst (finish loads m)) = (fst (finish loads m), [])"
  by (simp add: finish_def Let_def inspect_spec)

text \<open>the request plan changes a request only where it says so. Without injection the body
  goes upstream byte for byte. With it, the request is a streaming JSON object that did not set
  \<open>include_usage\<close> itself; the new body encodes the same object with \<open>include_usage\<close> true and
  every other member, and every other stream option, as the client sent it.\<close>

theorem plan_request_changes_only_include_usage:
  fixes loads :: decoder and dumps :: encoder and raw :: string
  defines "p \<equiv> plan_request loads dumps raw"
  shows "(\<not> rp_injected p \<longrightarrow> rp_body p = raw) \<and>
    (rp_injected p \<longrightarrow> rp_streaming p \<and>
      (\<exists>parsed parsed' opts. loads raw = Some (JObj parsed) \<and> rp_body p = dumps (JObj parsed')
        \<and> (\<forall>k. k \<noteq> ''stream_options'' \<longrightarrow> map_of parsed' k = map_of parsed k)
        \<and> map_of parsed' ''stream_options'' = Some (JObj opts)
        \<and> map_of opts ''include_usage'' = Some (JBool True)
        \<and> (\<forall>o'. map_of parsed ''stream_options'' = Some (JObj o') \<longrightarrow>
             map_of o' ''include_usage'' = None \<and>
             (\<forall>k. k \<noteq> ''include_usage'' \<longrightarrow> map_of opts k = map_of o' k))))"
proof (cases "rp_injected p")
  case False
  then show ?thesis
    by (auto simp: p_def plan_request_def untouched_def Let_def split: option.splits if_splits)
next
  case True
  then obtain parsed where doc: "loads raw = Some (JObj parsed)"
    by (auto simp: p_def plan_request_def untouched_def as_obj_Some split: option.splits if_splits)
  let ?opts = "as_obj (jget parsed ''stream_options'')"
  let ?merged = "AList.update ''include_usage'' (JBool True) (case ?opts of None \<Rightarrow> [] | Some o' \<Rightarrow> o')"
  let ?parsed' = "AList.update ''stream_options'' (JObj ?merged) parsed"
  from True doc have body: "rp_body p = dumps (JObj ?parsed')" and "rp_streaming p"
    and fresh: "\<And>o'. ?opts = Some o' \<Longrightarrow> map_of o' ''include_usage'' = None"
    by (auto simp: p_def plan_request_def untouched_def Let_def split: option.splits if_splits)
  have client: "?opts = Some o'" if "map_of parsed ''stream_options'' = Some (JObj o')" for o'
    using that by (simp add: jget_def)
  have "\<forall>o'. map_of parsed ''stream_options'' = Some (JObj o') \<longrightarrow>
      map_of o' ''include_usage'' = None \<and>
      (\<forall>k. k \<noteq> ''include_usage'' \<longrightarrow> map_of ?merged k = map_of o' k)"
    using client fresh by (simp add: map_of_AList_update)
  then show ?thesis
    using True \<open>rp_streaming p\<close> doc body
    by (intro conjI impI exI [of _ parsed] exI [of _ ?parsed'] exI [of _ ?merged])
      (simp_all add: map_of_AList_update)
qed

theorem plan_request_changes_only_include_usage_witness:
  "rp_injected (plan_request (\<lambda>s. Some (JObj [(''stream'', JBool True)])) (\<lambda>v. ''new'') ''old'')
   \<and> rp_streaming (plan_request (\<lambda>s. Some (JObj [(''stream'', JBool True)])) (\<lambda>v. ''new'') ''old'')"
proof -
  have inj: "rp_injected (plan_request (\<lambda>s. Some (JObj [(''stream'', JBool True)])) (\<lambda>v. ''new'') ''old'')"
    by (simp add: plan_request_def jget_def Let_def)
  with plan_request_changes_only_include_usage [of "\<lambda>s. Some (JObj [(''stream'', JBool True)])" "\<lambda>v. ''new''" "''old''"]
  show ?thesis by simp
qed

end
