(* ===== verification/LlmProxy.thy ===== *)
theory LlmProxy
  imports Metering
begin

text \<open>
  The OpenAI-compatible reverse proxy (\<open>src/repercep/serving/llm_proxy.py\<close>). The HTTP client is
  a parameter: a function from the request the proxy builds to what the upstream does, which is
  to be unreachable, or to answer with a status, a content type and a body that arrives in
  chunks and ends, breaks off, or is no longer wanted because the client went away. A call
  returns what its client receives and the records the metering sink got.
\<close>

section \<open>Requests and answers\<close>

type_synonym headers = "(string, string) dict"

record up_request =
  uq_method :: string
  uq_path :: string
  uq_body :: string
  uq_headers :: headers

datatype stream_end = Exhausted | Broken exn | ClientGone

datatype up_answer =
    Unreachable string
  | Answer int "string option" "string list" stream_end

type_synonym http_client = "up_request \<Rightarrow> up_answer"

record call_record =
  cr_route :: string
  cr_model :: string
  cr_prompt :: int
  cr_completion :: int
  cr_exact :: bool
  cr_status :: int
  cr_latency_ms :: pyfloat

record response =
  rs_status :: int
  rs_body :: string
  rs_media :: "string option"

definition upstream_unreachable :: int where
  "upstream_unreachable = 502"

record llm_proxy =
  lp_url :: string
  lp_api_key :: "string option"

definition rstrip_slash :: "string \<Rightarrow> string" where
  "rstrip_slash s = rev (dropWhile (\<lambda>c. c = CHR ''/'') (rev s))"

definition llm_proxy_init :: "string \<Rightarrow> string option \<Rightarrow> llm_proxy" where
  "llm_proxy_init url key = \<lparr>lp_url = rstrip_slash url, lp_api_key = key\<rparr>"

section \<open>The metering sink\<close>

text \<open>A sink may raise; it acts on a state of its own (the ledger). Sinks chain.\<close>

type_synonym 's sink = "call_record \<Rightarrow> 's \<Rightarrow> exn option \<times> 's"

definition attach_call_sink :: "'s sink option \<Rightarrow> 's sink \<Rightarrow> 's sink option" where
  "attach_call_sink current sink =
     (case current of
        None \<Rightarrow> Some sink
      | Some existing \<Rightarrow> Some (\<lambda>r s.
          case existing r s of
            (Some e, s1) \<Rightarrow> (Some e, s1)
          | (None, s1) \<Rightarrow> sink r s1))"

text \<open>The exception of a sink is logged and dropped.\<close>

definition emit :: "'s sink option \<Rightarrow> call_record \<Rightarrow> 's \<Rightarrow> 's" where
  "emit on_call r s = (case on_call of None \<Rightarrow> s | Some f \<Rightarrow> snd (f r s))"

section \<open>Proxied calls\<close>

definition upstream_headers :: "llm_proxy \<Rightarrow> string \<Rightarrow> string option \<Rightarrow> headers" where
  "upstream_headers p content_type accept' =
     (''content-type'', content_type)
     # (case accept' of None \<Rightarrow> [] | Some a \<Rightarrow> [(''accept'', a)])
     @ (case lp_api_key p of None \<Rightarrow> [] | Some k \<Rightarrow> [(''authorization'', ''Bearer '' @ k)])"

text \<open>
  The generator \<open>metered\<close>: what it yielded, the record it emits in \<open>finally\<close>, and how it ended.
  The second \<open>finish\<close> is the one in \<open>finally\<close>.
\<close>

definition metered ::
  "decoder \<Rightarrow> meter \<Rightarrow> string list \<Rightarrow> stream_end \<Rightarrow> string \<times> meter"
where
  "metered loads m chunks how =
     (let fed = feed_all loads m chunks
      in case how of
           Exhausted \<Rightarrow>
             let fin = finish loads (fst fed)
             in (snd fed @ snd fin, fst (finish loads (fst fin)))
         | Broken e \<Rightarrow> (snd fed, fst (finish loads (fst fed)))
         | ClientGone \<Rightarrow> (snd fed, fst (finish loads (fst fed))))"

definition end_error :: "stream_end \<Rightarrow> exn option" where
  "end_error how = (case how of Broken e \<Rightarrow> Some e | _ \<Rightarrow> None)"

definition failed_record :: "string \<Rightarrow> request_plan \<Rightarrow> int \<Rightarrow> pyfloat \<Rightarrow> call_record" where
  "failed_record path plan status latency =
     \<lparr>cr_route = path, cr_model = rp_model plan, cr_prompt = 0, cr_completion = 0, cr_exact = True,
      cr_status = status, cr_latency_ms = latency\<rparr>"

definition measured_record :: "string \<Rightarrow> request_plan \<Rightarrow> int \<Rightarrow> pyfloat \<Rightarrow> meter \<Rightarrow> call_record" where
  "measured_record path plan status latency m =
     \<lparr>cr_route = path, cr_model = rp_model plan, cr_prompt = prompt_tokens (measured_usage m),
      cr_completion = completion_tokens (measured_usage m), cr_exact = is_exact m,
      cr_status = status, cr_latency_ms = latency\<rparr>"

definition upstream_request ::
  "decoder \<Rightarrow> encoder \<Rightarrow> llm_proxy \<Rightarrow> string \<Rightarrow> headers \<Rightarrow> string \<Rightarrow> up_request"
where
  "upstream_request loads dumps p path hs raw_body =
     \<lparr>uq_method = ''POST'', uq_path = path, uq_body = rp_body (plan_request loads dumps raw_body),
      uq_headers = upstream_headers p
        (case map_of hs ''content-type'' of None \<Rightarrow> ''application/json'' | Some t \<Rightarrow> t)
        (map_of hs ''accept'')\<rparr>"

text \<open>
  \<open>_proxy_post_stream\<close>. The first component is the exception the handler raises or the response
  (with the exception its body broke off with), the second the records emitted, in order.
\<close>

definition proxy_post_stream ::
  "decoder \<Rightarrow> encoder \<Rightarrow> (string \<Rightarrow> string) \<Rightarrow> http_client \<Rightarrow> llm_proxy \<Rightarrow> string \<Rightarrow> headers \<Rightarrow> string
    \<Rightarrow> pyfloat \<Rightarrow> (exn + response \<times> exn option) \<times> call_record list"
where
  "proxy_post_stream loads dumps decode send p path hs raw_body latency =
     (let plan = plan_request loads dumps raw_body
      in case send (upstream_request loads dumps p path hs raw_body) of
           Unreachable msg \<Rightarrow>
             (Inl (HTTPException upstream_unreachable (''llm upstream unreachable: '' @ msg)),
              [failed_record path plan upstream_unreachable latency])
         | Answer status media chunks how \<Rightarrow>
             if 400 \<le> status then
               (case end_error how of
                  Some e \<Rightarrow> (Inl e, [])
                | None \<Rightarrow> (Inl (HTTPException status (decode (concat chunks))),
                            [failed_record path plan status latency]))
             else
               let r = metered loads (meter_init (rp_streaming plan) (rp_injected plan)) chunks how
               in (Inr (\<lparr>rs_status = status, rs_body = fst r, rs_media = media\<rparr>, end_error how),
                   [measured_record path plan status latency (snd r)]))"

definition get_request :: "string \<Rightarrow> headers \<Rightarrow> up_request" where
  "get_request path hs = \<lparr>uq_method = ''GET'', uq_path = path, uq_body = [], uq_headers = hs\<rparr>"

definition proxy_get :: "http_client \<Rightarrow> llm_proxy \<Rightarrow> string \<Rightarrow> exn + response" where
  "proxy_get send p path =
     (let hs = (case lp_api_key p of None \<Rightarrow> [] | Some k \<Rightarrow> [(''authorization'', ''Bearer '' @ k)])
      in case send (get_request path hs) of
           Unreachable msg \<Rightarrow> Inl (HTTPException upstream_unreachable (''llm upstream unreachable: '' @ msg))
         | Answer status media chunks how \<Rightarrow>
             (case how of
                Broken e \<Rightarrow> Inl (HTTPException upstream_unreachable (''llm upstream unreachable: '' @ exn_str e))
              | _ \<Rightarrow> Inr \<lparr>rs_status = status, rs_body = concat chunks,
                    rs_media = Some (case media of None \<Rightarrow> ''application/json'' | Some t \<Rightarrow> t)\<rparr>))"

text \<open>The status of the readiness probe and whether it reports the upstream as usable.\<close>

definition readiness :: "http_client \<Rightarrow> bool \<times> int" where
  "readiness send =
     (case send (get_request ''/v1/models'' []) of
        Unreachable msg \<Rightarrow> (False, 503)
      | Answer status media chunks how \<Rightarrow>
          (case how of Broken e \<Rightarrow> (False, 503)
           | _ \<Rightarrow> if status = 200 then (True, 200) else (False, 503)))"


section \<open>What the proxy promises\<close>

lemma finish_twice: "fst (finish loads (fst (finish loads m))) = fst (finish loads m)"
  by (simp add: finish_def Let_def inspect_spec)

text \<open>However the response ends, the meter has seen the chunks that arrived and the final
  partial line, once.\<close>

lemma metered_meter: "snd (metered loads m chunks how) = fst (meter_response loads m chunks)"
  by (cases how) (simp_all add: metered_def meter_response_def Let_def finish_twice)

lemma metered_body:
  "fst (metered loads m chunks Exhausted) = snd (meter_response loads m chunks)"
  "fst (metered loads m chunks (Broken e)) = snd (feed_all loads m chunks)"
  "fst (metered loads m chunks ClientGone) = snd (feed_all loads m chunks)"
  by (simp_all add: metered_def meter_response_def Let_def)

lemma proxy_post_answer:
  assumes "send (upstream_request loads dumps p path hs raw) = Answer status media chunks how" "status < 400"
  shows "proxy_post_stream loads dumps decode send p path hs raw latency =
    (let plan = plan_request loads dumps raw; m = meter_init (rp_streaming plan) (rp_injected plan)
     in (Inr (\<lparr>rs_status = status, rs_body = fst (metered loads m chunks how), rs_media = media\<rparr>, end_error how),
         [measured_record path plan status latency (fst (meter_response loads m chunks))]))"
  using assms by (simp add: proxy_post_stream_def Let_def metered_meter)

text \<open>Every proxied call is billed exactly once. It emits one record, with the route, the model
  the client named and the status the client sees, whether the upstream was unreachable, refused,
  answered, broke off in the middle of the body or the client went away. The one exception is an
  error answer whose body cannot be read, which emits none.\<close>

theorem every_call_is_recorded_once:
  fixes loads :: decoder and dumps :: encoder and decode send p path hs raw latency
  defines "r \<equiv> proxy_post_stream loads dumps decode send p path hs raw latency"
    and "a \<equiv> send (upstream_request loads dumps p path hs raw)"
  shows "(\<exists>c. snd r = [c] \<and> cr_route c = path \<and> cr_model c = rp_model (plan_request loads dumps raw)
            \<and> cr_latency_ms c = latency
            \<and> (case fst r of Inl e \<Rightarrow> (\<exists>d. e = HTTPException (cr_status c) d)
                \<and> cr_prompt c = 0 \<and> cr_completion c = 0 | Inr (resp, _) \<Rightarrow> rs_status resp = cr_status c))
      \<or> (\<exists>status media chunks e. a = Answer status media chunks (Broken e) \<and> 400 \<le> status
            \<and> fst r = Inl e \<and> snd r = [])"
proof (cases a)
  case (Unreachable msg)
  then show ?thesis by (simp add: r_def a_def proxy_post_stream_def Let_def failed_record_def)
next
  case (Answer status media chunks how)
  show ?thesis
  proof (cases "400 \<le> status")
    case True
    with Answer show ?thesis
      by (cases how) (simp_all add: r_def a_def proxy_post_stream_def Let_def failed_record_def end_error_def)
  next
    case False
    with Answer show ?thesis
      by (simp add: r_def a_def proxy_post_answer Let_def measured_record_def)
  qed
qed

text \<open>C22: What a streamed call costs and what its client sees. If the upstream answers a streaming
  request with a status below 400, the record counts the last usage the received lines carry, and
  without one the received content chunks, however the response ended; and when the response was
  read to its end the client got every line but the usage chunk the proxy had asked for.\<close>

theorem streamed_call_is_metered_to_spec:
  assumes "send (upstream_request loads dumps p path hs raw) = Answer status media chunks how"
    and "status < 400" and "rp_streaming (plan_request loads dumps raw)"
  shows "\<exists>resp c ls rest. proxy_post_stream loads dumps decode send p path hs raw latency = (Inr (resp, end_error how), [c])
    \<and> lines_of (concat chunks) = (ls, rest) \<and> rs_status resp = status
    \<and> cr_exact c = (\<exists>l \<in> set (ls @ [rest]). usage_of_line loads l \<noteq> None)
    \<and> (cr_prompt c, cr_completion c) =
        (case last_usage loads None (ls @ [rest]) of
           Some u \<Rightarrow> (prompt_tokens u, completion_tokens u)
         | None \<Rightarrow> (0, int (length (filter (counts_as_delta loads) (ls @ [rest])))))
    \<and> (how = Exhausted \<longrightarrow>
        rs_body resp = concat (spec_keep loads (rp_injected (plan_request loads dumps raw)) False ls) @ rest)"
proof -
  let ?inj = "rp_injected (plan_request loads dumps raw)"
  let ?m = "meter_init True ?inj"
  let ?mr = "meter_response loads ?m chunks"
  obtain ls rest where lr: "lines_of (concat chunks) = (ls, rest)" by (cases "lines_of (concat chunks)")
  from streamed_spec [of loads ?inj chunks] have spec:
    "snd ?mr = concat (spec_keep loads ?inj False ls) @ rest"
    "is_exact (fst ?mr) = (\<exists>l \<in> set (ls @ [rest]). usage_of_line loads l \<noteq> None)"
    "measured_usage (fst ?mr) = (case last_usage loads None (ls @ [rest]) of Some u \<Rightarrow> u
       | None \<Rightarrow> \<lparr>prompt_tokens = 0, completion_tokens = int (length (filter (counts_as_delta loads) (ls @ [rest])))\<rparr>)"
    unfolding lr fst_conv snd_conv by blast+
  let ?plan = "plan_request loads dumps raw"
  let ?resp = "\<lparr>rs_status = status, rs_body = fst (metered loads ?m chunks how), rs_media = media\<rparr>"
  let ?c = "measured_record path ?plan status latency (fst ?mr)"
  have run: "proxy_post_stream loads dumps decode send p path hs raw latency = (Inr (?resp, end_error how), [?c])"
    using proxy_post_answer [of send loads dumps p path hs raw, OF assms(1,2)] assms(3) by (simp add: Let_def)
  have "how = Exhausted \<longrightarrow> rs_body ?resp = concat (spec_keep loads ?inj False ls) @ rest"
    using spec(1) by (auto simp: metered_body)
  moreover have "cr_exact ?c = (\<exists>l \<in> set (ls @ [rest]). usage_of_line loads l \<noteq> None)"
    unfolding spec(2) [symmetric] by (simp add: measured_record_def)
  moreover have "(cr_prompt ?c, cr_completion ?c) = (case last_usage loads None (ls @ [rest]) of
      Some u \<Rightarrow> (prompt_tokens u, completion_tokens u)
    | None \<Rightarrow> (0, int (length (filter (counts_as_delta loads) (ls @ [rest])))))"
    unfolding measured_record_def call_record.simps spec(3) by (simp split: option.split)
  ultimately show ?thesis
    using run lr by (intro exI [of _ ?resp] exI [of _ ?c] exI [of _ ls] exI [of _ rest]) simp
qed

text \<open>The credentials of a client stay at the gateway: the request sent upstream carries an
  \<open>authorization\<close> header only if the proxy has a key of its own, and then that key; besides it only
  the content type and the accepted type are sent, and no other header of the client matters.\<close>

theorem client_credentials_stay_here:
  "map_of (uq_headers (upstream_request loads dumps p path hs raw)) ''authorization''
     = map_option (\<lambda>k. ''Bearer '' @ k) (lp_api_key p)
   \<and> fst ` set (uq_headers (upstream_request loads dumps p path hs raw))
       \<subseteq> {''content-type'', ''accept'', ''authorization''}
   \<and> upstream_request loads dumps p path (filter (\<lambda>h. fst h \<in> {''content-type'', ''accept''}) hs) raw
     = upstream_request loads dumps p path hs raw"
proof (intro conjI)
  have get: "map_of (filter (\<lambda>h. fst h \<in> K) hs) k = map_of hs k" if "k \<in> K" for k K
    using that by (induction hs) auto
  show "upstream_request loads dumps p path (filter (\<lambda>h. fst h \<in> {''content-type'', ''accept''}) hs) raw
     = upstream_request loads dumps p path hs raw"
    unfolding upstream_request_def by (simp only: get insertI1 insertI2)
qed (auto simp: upstream_request_def upstream_headers_def split: option.splits)

text \<open>The readiness route never presents the proxy's key. If the upstream refuses requests
  without an \<open>authorization\<close> header, readiness reports it as unreachable even though the model
  listing, which does send the key, is answered.\<close>

theorem readiness_ignores_the_key:
  assumes "lp_api_key p = Some key"
    and "\<And>rq. map_of (uq_headers rq) ''authorization'' = None \<Longrightarrow> send rq = Answer 401 None [] Exhausted"
    and "\<And>rq. map_of (uq_headers rq) ''authorization'' = Some (''Bearer '' @ key) \<Longrightarrow>
      send rq = Answer 200 media chunks Exhausted"
  shows "readiness send = (False, 503) \<and>
    proxy_get send p path = Inr \<lparr>rs_status = 200, rs_body = concat chunks,
      rs_media = Some (case media of None \<Rightarrow> ''application/json'' | Some t \<Rightarrow> t)\<rparr>"
  using assms by (simp_all add: readiness_def proxy_get_def get_request_def)


definition sample_proxy :: llm_proxy where
  "sample_proxy = llm_proxy_init ''http://llm:8000//'' (Some ''k'')"

text \<open>An upstream that answers every request that carries the key with the sample stream.\<close>

definition sample_upstream :: http_client where
  "sample_upstream rq =
     (if map_of (uq_headers rq) ''authorization'' = Some ''Bearer k''
      then Answer 200 None sample_chunks Exhausted else Answer 401 None [] Exhausted)"

definition stream_request :: decoder where
  "stream_request s = (if s = ''R'' then Some (JObj [(''stream'', JBool True)]) else two_docs s)"

theorem streamed_call_is_metered_to_spec_witness:
  "map (\<lambda>c. (cr_prompt c, cr_completion c)) (snd (proxy_post_stream stream_request (\<lambda>d. ''E'') id
      sample_upstream sample_proxy ''/v1/completions'' [] ''R'' (Fin 0))) = [(3, 5)]"
proof -
  have "sample_upstream (upstream_request stream_request (\<lambda>d. ''E'') sample_proxy ''/v1/completions'' [] ''R'')
      = Answer 200 None sample_chunks Exhausted" by code_simp
  moreover have "rp_streaming (plan_request stream_request (\<lambda>d. ''E'') ''R'')" by code_simp
  ultimately have "\<exists>resp c ls rest. proxy_post_stream stream_request (\<lambda>d. ''E'') id sample_upstream sample_proxy
        ''/v1/completions'' [] ''R'' (Fin 0) = (Inr (resp, end_error Exhausted), [c])
      \<and> lines_of (concat sample_chunks) = (ls, rest) \<and> rs_status resp = 200
      \<and> cr_exact c = (\<exists>l \<in> set (ls @ [rest]). usage_of_line stream_request l \<noteq> None)
      \<and> (cr_prompt c, cr_completion c) = (case last_usage stream_request None (ls @ [rest]) of
           Some u \<Rightarrow> (prompt_tokens u, completion_tokens u)
         | None \<Rightarrow> (0, int (length (filter (counts_as_delta stream_request) (ls @ [rest])))))
      \<and> (Exhausted = Exhausted \<longrightarrow> rs_body resp = concat (spec_keep stream_request
           (rp_injected (plan_request stream_request (\<lambda>d. ''E'') ''R'')) False ls) @ rest)"
    by (intro streamed_call_is_metered_to_spec) simp_all
  then obtain resp c ls rest where c:
    "proxy_post_stream stream_request (\<lambda>d. ''E'') id sample_upstream sample_proxy
        ''/v1/completions'' [] ''R'' (Fin 0) = (Inr (resp, end_error Exhausted), [c])"
    "lines_of (concat sample_chunks) = (ls, rest)"
    "(cr_prompt c, cr_completion c) = (case last_usage stream_request None (ls @ [rest]) of
           Some u \<Rightarrow> (prompt_tokens u, completion_tokens u)
         | None \<Rightarrow> (0, int (length (filter (counts_as_delta stream_request) (ls @ [rest])))))"
    by (elim exE conjE)
  have "last_usage stream_request None (fst (lines_of (concat sample_chunks)) @ [snd (lines_of (concat sample_chunks))])
      = Some \<lparr>prompt_tokens = 3, completion_tokens = 5\<rparr>" by code_simp
  with c(2,3) have "(cr_prompt c, cr_completion c) = (3, 5)" by simp
  with c(1) show ?thesis by simp
qed

theorem readiness_ignores_the_key_witness: "readiness sample_upstream = (False, 503)"
  using readiness_ignores_the_key [of sample_proxy "''k''" sample_upstream None sample_chunks "[]"]
  by (simp add: sample_proxy_def llm_proxy_init_def sample_upstream_def)

end
