(* ===== verification/Sql.thy ===== *)
theory Sql
  imports Prelude "HOL-Library.Multiset"
begin

text \<open>
  What the stores use of SQLite: the range of an INTEGER column, the byte-wise order of TEXT,
  and \<open>ORDER BY\<close>. A table is a list of rows in insertion order. The locale \<open>row_order\<close> is the
  contract of a sort key: a total, transitive comparison. Under it the result of a query is
  sorted and holds the selected rows, each once.
\<close>

section \<open>Values\<close>

text \<open>Binding a Python integer outside 64 bits raises.\<close>

definition sql_int_ok :: "int \<Rightarrow> bool" where
  "sql_int_ok i \<longleftrightarrow> - (2 ^ 63) \<le> i \<and> i < 2 ^ 63"

definition sql_int_error :: exn where
  "sql_int_error = OverflowError ''Python int too large to convert to SQLite INTEGER''"

definition char_less :: "char \<Rightarrow> char \<Rightarrow> bool" where
  "char_less c d \<longleftrightarrow> (of_char c :: nat) < of_char d"

fun text_le :: "string \<Rightarrow> string \<Rightarrow> bool" where
  "text_le [] t = True"
| "text_le (c # s) [] = False"
| "text_le (c # s) (d # t) = (char_less c d \<or> (c = d \<and> text_le s t))"

lemma char_less_linear: "char_less c d \<or> c = d \<or> char_less d c"
  using of_char_eq_iff [of c d, where 'a = nat] by (auto simp: char_less_def)

lemma char_less_irrefl [simp]: "\<not> char_less c c"
  by (simp add: char_less_def)

lemma char_less_trans: "char_less c d \<Longrightarrow> char_less d e \<Longrightarrow> char_less c e"
  by (simp add: char_less_def)

lemma text_le_total: "text_le s t \<or> text_le t s"
proof (induction s t rule: text_le.induct)
  case (3 c s d t)
  then show ?case using char_less_linear [of c d] by auto
qed simp_all

lemma text_le_refl [simp]: "text_le s s"
  using text_le_total [of s s] by simp

lemma text_le_trans: "text_le s t \<Longrightarrow> text_le t u \<Longrightarrow> text_le s u"
proof (induction s arbitrary: t u)
  case (Cons c s)
  then obtain d t' e u' where tu: "t = d # t'" "u = e # u'"
    by (cases t; cases u) auto
  with Cons show ?case by (auto intro: char_less_trans)
qed simp

lemma text_le_antisym: "text_le s t \<Longrightarrow> text_le t s \<Longrightarrow> s = t"
proof (induction s t rule: text_le.induct)
  case (2 c s)
  then show ?case by simp
next
  case (1 t)
  then show ?case by (cases t) auto
next
  case (3 c s d t)
  then show ?case by (auto simp: char_less_def)
qed

section \<open>\<open>ORDER BY\<close>\<close>

fun insert_by :: "('a \<Rightarrow> 'a \<Rightarrow> bool) \<Rightarrow> 'a \<Rightarrow> 'a list \<Rightarrow> 'a list" where
  "insert_by le x [] = [x]"
| "insert_by le x (y # ys) = (if le x y then x # y # ys else y # insert_by le x ys)"

definition order_by :: "('a \<Rightarrow> 'a \<Rightarrow> bool) \<Rightarrow> 'a list \<Rightarrow> 'a list" where
  "order_by le xs = foldr (insert_by le) xs []"

lemma mset_insert_by [simp]: "mset (insert_by le x ys) = add_mset x (mset ys)"
  by (induction ys) auto

lemma mset_order_by [simp]: "mset (order_by le xs) = mset xs"
  by (induction xs) (simp_all add: order_by_def)

lemma set_insert_by [simp]: "set (insert_by le x ys) = insert x (set ys)"
  by (induction ys) auto

lemma set_order_by [simp]: "set (order_by le xs) = set xs"
  by (metis mset_order_by set_mset_mset)

lemma sum_list_order_by:
  fixes f :: "'a \<Rightarrow> 'b :: comm_monoid_add"
  shows "sum_list (map f (order_by le xs)) = sum_list (map f xs)"
  by (metis mset_map mset_order_by sum_mset_sum_list)

lemma distinct_order_by [simp]: "distinct (map f (order_by le xs)) = distinct (map f xs)"
  by (rule mset_eq_imp_distinct_iff) (simp add: mset_map)

locale row_order =
  fixes le :: "'a \<Rightarrow> 'a \<Rightarrow> bool"
  assumes le_total: "le x y \<or> le y x"
    and le_trans: "le x y \<Longrightarrow> le y z \<Longrightarrow> le x z"
begin

lemma insert_by_sorted: "sorted_wrt le ys \<Longrightarrow> sorted_wrt le (insert_by le x ys)"
  by (induction ys) (use le_total le_trans in auto)

lemma order_by_sorted: "sorted_wrt le (order_by le xs)"
  by (induction xs) (simp_all add: order_by_def insert_by_sorted)

end

end
