(* ===== verification/Tenancy.thy ===== *)
theory Tenancy
  imports PyStr Sql Interfaces
begin

text \<open>
  Per-customer API keys (\<open>src/repercep/serving/tenancy.py\<close>): the key format, the SQLite table
  \<open>api_keys\<close> as a list of rows in insertion order with a primary key, and the operations of
  \<open>KeyStore\<close>. Random bytes and the clock are inputs; the hash function (SHA-256 in hexadecimal)
  is a parameter. Every operation runs under the store's lock, so it is one step.
\<close>

section \<open>The key format\<close>

definition key_prefix :: string where
  "key_prefix = ''rpc''"

definition legacy_key_id :: string where
  "legacy_key_id = ''legacy-shared''"

text \<open>\<open>secrets.token_hex\<close>: two hexadecimal digits per random byte.\<close>

definition token_hex :: "nat list \<Rightarrow> string" where
  "token_hex bs = concat (map hex_byte bs)"

text \<open>\<open>secrets.token_urlsafe\<close>: base 64 with the URL-safe alphabet, without padding.\<close>

definition b64_char :: "nat \<Rightarrow> char" where
  "b64_char n =
     (if n < 26 then char_of (65 + n)
      else if n < 52 then char_of (97 + (n - 26))
      else if n < 62 then char_of (48 + (n - 52))
      else if n = 62 then CHR ''-'' else CHR ''_'')"

fun token_urlsafe :: "nat list \<Rightarrow> string" where
  "token_urlsafe [] = []"
| "token_urlsafe [a] = [b64_char (a div 4), b64_char ((a mod 4) * 16)]"
| "token_urlsafe [a, b] =
     [b64_char (a div 4), b64_char ((a mod 4) * 16 + b div 16), b64_char ((b mod 16) * 4)]"
| "token_urlsafe (a # b # c # rest) =
     [b64_char (a div 4), b64_char ((a mod 4) * 16 + b div 16),
      b64_char ((b mod 16) * 4 + c div 64), b64_char (c mod 64)] @ token_urlsafe rest"

definition key_id_bytes :: nat where
  "key_id_bytes = 4"

definition secret_bytes :: nat where
  "secret_bytes = 32"

text \<open>The argument is what the random source yields, first for the id, then for the secret.\<close>

definition mint_key :: "nat list \<Rightarrow> string \<times> string" where
  "mint_key random =
     (let key_id = token_hex (take key_id_bytes random);
          secret = token_urlsafe (take secret_bytes (drop key_id_bytes random))
      in (key_prefix @ ''_'' @ key_id @ ''_'' @ secret, key_id))"

definition parse_key_id :: "string \<Rightarrow> string option" where
  "parse_key_id full_key =
     (case split_max (CHR ''_'') 2 full_key of
        [p, kid, secret] \<Rightarrow>
          if p \<noteq> key_prefix \<or> kid = [] \<or> secret = [] then None else Some kid
      | _ \<Rightarrow> None)"

section \<open>Rows and records\<close>

record principal =
  p_key_id :: string
  p_customer :: string
  p_label :: string
  p_quota :: "int option"

definition is_legacy_shared_token :: "principal \<Rightarrow> bool" where
  "is_legacy_shared_token p \<longleftrightarrow> p_key_id p = legacy_key_id"

record api_key_record =
  k_key_id :: string
  k_customer :: string
  k_label :: string
  k_created_at :: string
  k_revoked_at :: "string option"
  k_quota :: "int option"

definition key_active :: "api_key_record \<Rightarrow> bool" where
  "key_active r \<longleftrightarrow> k_revoked_at r = None"

text \<open>A row of \<open>api_keys\<close>: the record's columns and the hash.\<close>

record key_row =
  row_rec :: api_key_record
  row_hash :: string

type_synonym key_table = "key_row list"

definition row_id :: "key_row \<Rightarrow> string" where
  "row_id r = k_key_id (row_rec r)"

text \<open>\<open>SELECT * FROM api_keys WHERE key_id = ?\<close>, one row.\<close>

definition select_key :: "key_table \<Rightarrow> string \<Rightarrow> key_row option" where
  "select_key t kid = find (\<lambda>r. row_id r = kid) t"

section \<open>Operations\<close>

definition create_key ::
  "(string \<Rightarrow> string) \<Rightarrow> nat list \<Rightarrow> string \<Rightarrow> string \<Rightarrow> string \<Rightarrow> int option \<Rightarrow> key_table
    \<Rightarrow> exn + (string \<times> api_key_record) \<times> key_table"
where
  "create_key hash_key random now customer label quota t =
     (if str_strip customer = [] then Inl (ValueError ''customer must be a non-empty name'')
      else
        let (full_key, key_id) = mint_key random;
            rcd = \<lparr>k_key_id = key_id, k_customer = customer, k_label = label,
                   k_created_at = now, k_revoked_at = None, k_quota = quota\<rparr>
        in if (case quota of None \<Rightarrow> False | Some q \<Rightarrow> \<not> sql_int_ok q) then Inl sql_int_error
           else if select_key t key_id \<noteq> None
           then Inl (IntegrityError ''UNIQUE constraint failed: api_keys.key_id'')
           else Inr ((full_key, rcd), t @ [\<lparr>row_rec = rcd, row_hash = hash_key full_key\<rparr>]))"

definition revoke_row :: "string \<Rightarrow> key_row \<Rightarrow> key_row" where
  "revoke_row now r = r\<lparr>row_rec := (row_rec r)\<lparr>k_revoked_at := Some now\<rparr>\<rparr>"

text \<open>The \<open>UPDATE\<close> with its two conditions; the result is \<open>cur.rowcount > 0\<close>.\<close>

definition revoke :: "string \<Rightarrow> string \<Rightarrow> key_table \<Rightarrow> bool \<times> key_table" where
  "revoke now kid t =
     (let hit = (\<lambda>r. row_id r = kid \<and> k_revoked_at (row_rec r) = None)
      in (list_ex hit t, map (\<lambda>r. if hit r then revoke_row now r else r) t))"

definition authenticate :: "(string \<Rightarrow> string) \<Rightarrow> key_table \<Rightarrow> string \<Rightarrow> principal option" where
  "authenticate hash_key t full_key =
     (case parse_key_id full_key of
        None \<Rightarrow> None
      | Some kid \<Rightarrow>
          (case select_key t kid of
             None \<Rightarrow> None
           | Some row \<Rightarrow>
               if k_revoked_at (row_rec row) \<noteq> None then None
               else if row_hash row \<noteq> hash_key full_key then None
               else Some \<lparr>p_key_id = k_key_id (row_rec row), p_customer = k_customer (row_rec row),
                          p_label = k_label (row_rec row), p_quota = k_quota (row_rec row)\<rparr>))"

definition get_key :: "key_table \<Rightarrow> string \<Rightarrow> api_key_record option" where
  "get_key t kid = map_option row_rec (select_key t kid)"

definition key_order :: "api_key_record \<Rightarrow> api_key_record \<Rightarrow> bool" where
  "key_order a b \<longleftrightarrow>
     (if k_created_at a = k_created_at b then text_le (k_key_id a) (k_key_id b)
      else text_le (k_created_at a) (k_created_at b))"

definition list_keys :: "key_table \<Rightarrow> string option \<Rightarrow> bool \<Rightarrow> api_key_record list" where
  "list_keys t customer include_revoked =
     order_by key_order (filter (\<lambda>r.
        (case customer of None \<Rightarrow> True | Some c \<Rightarrow> k_customer r = c)
        \<and> (include_revoked \<or> k_revoked_at r = None)) (map row_rec t))"


section \<open>The store as a machine\<close>

datatype key_op = CreateKey "nat list" string string string "int option" | RevokeKey string string

datatype key_event = Created string api_key_record | Revoked bool | Refused exn

fun key_step :: "(string \<Rightarrow> string) \<Rightarrow> key_table \<Rightarrow> key_op \<Rightarrow> key_table \<times> key_event" where
  "key_step hash_key t (CreateKey random now customer label quota) =
     (case create_key hash_key random now customer label quota t of
        Inl e \<Rightarrow> (t, Refused e)
      | Inr (out, t') \<Rightarrow> (t', Created (fst out) (snd out)))"
| "key_step hash_key t (RevokeKey now kid) = (let (b, t') = revoke now kid t in (t', Revoked b))"

section \<open>The key format\<close>

lemma hex_digit_not_underscore:
  assumes "d < 16"
  shows "hex_digit d \<noteq> CHR ''_''"
proof
  assume "hex_digit d = CHR ''_''"
  then have "(of_char (hex_digit d) :: nat) = of_char CHR ''_''" by (rule arg_cong)
  with assms show False by (simp add: hex_digit_def split: if_splits)
qed

lemma token_hex_no_underscore:
  "\<forall>b \<in> set bs. b < 256 \<Longrightarrow> CHR ''_'' \<notin> set (token_hex bs)"
proof (induction bs)
  case (Cons b bs)
  then have "b div 16 < 16" "b mod 16 < 16" by auto
  with Cons hex_digit_not_underscore [of "b div 16"] hex_digit_not_underscore [of "b mod 16"]
  show ?case by (auto simp: token_hex_def hex_byte_def)
qed (simp add: token_hex_def)

lemma token_hex_empty_iff: "token_hex bs = [] \<longleftrightarrow> bs = []"
  by (cases bs) (simp_all add: token_hex_def hex_byte_def)

lemma token_urlsafe_empty_iff: "token_urlsafe bs = [] \<longleftrightarrow> bs = []"
  by (cases bs rule: token_urlsafe.cases) simp_all

lemma split_key:
  assumes "CHR ''_'' \<notin> set kid"
  shows "split_max (CHR ''_'') 2 (key_prefix @ ''_'' @ kid @ ''_'' @ secret) = [key_prefix, kid, secret]"
proof -
  have outer: "split_max (CHR ''_'') (Suc 1) (key_prefix @ CHR ''_'' # (kid @ CHR ''_'' # secret))
      = key_prefix # split_max (CHR ''_'') 1 (kid @ CHR ''_'' # secret)"
    by (rule split_max_append) (simp add: key_prefix_def)
  have "split_max (CHR ''_'') (Suc 0) (kid @ CHR ''_'' # secret)
      = kid # split_max (CHR ''_'') 0 secret"
    using assms by (rule split_max_append)
  with outer show ?thesis by (simp add: numeral_2_eq_2)
qed

definition random_ok :: "nat list \<Rightarrow> bool" where
  "random_ok random \<longleftrightarrow> length random = key_id_bytes + secret_bytes \<and> (\<forall>b \<in> set random. b < 256)"

lemma mint_parse:
  assumes "random_ok random"
  shows "parse_key_id (fst (mint_key random)) = Some (snd (mint_key random))"
proof -
  let ?kid = "token_hex (take key_id_bytes random)"
  have "CHR ''_'' \<notin> set ?kid"
    using assms by (intro token_hex_no_underscore) (auto simp: random_ok_def dest: in_set_takeD)
  from split_key [OF this] assms show ?thesis
    by (auto simp: parse_key_id_def mint_key_def Let_def token_hex_empty_iff token_urlsafe_empty_iff
        random_ok_def key_id_bytes_def secret_bytes_def)
qed

section \<open>Selection\<close>

lemma select_key_append:
  "select_key (t @ u) kid = (case select_key t kid of None \<Rightarrow> select_key u kid | Some r \<Rightarrow> Some r)"
  by (induction t) (simp_all add: select_key_def)

lemma select_key_None_iff: "select_key t kid = None \<longleftrightarrow> kid \<notin> set (map row_id t)"
  by (auto simp: select_key_def find_None_iff)

lemma select_key_map:
  assumes "\<And>r. row_id (f r) = row_id r"
  shows "select_key (map f t) kid = map_option f (select_key t kid)"
  using assms by (induction t) (simp_all add: select_key_def)

lemma select_key_row_id: "select_key t kid = Some r \<Longrightarrow> row_id r = kid \<and> r \<in> set t"
  by (auto simp: select_key_def find_Some_iff)

lemma row_id_revoke [simp]: "row_id (revoke_row now r) = row_id r"
  by (simp add: row_id_def revoke_row_def)

definition revoke_if :: "string \<Rightarrow> string \<Rightarrow> key_row \<Rightarrow> key_row" where
  "revoke_if now kid r =
     (if row_id r = kid \<and> k_revoked_at (row_rec r) = None then revoke_row now r else r)"

lemma snd_revoke: "snd (revoke now kid t) = map (revoke_if now kid) t"
  by (simp add: revoke_def Let_def revoke_if_def)

lemma row_id_revoke_if [simp]: "row_id (revoke_if now kid r) = row_id r"
  by (simp add: revoke_if_def)

lemma row_hash_revoke_if [simp]: "row_hash (revoke_if now kid r) = row_hash r"
  by (simp add: revoke_if_def revoke_row_def)

lemma revoke_if_rec:
  "row_rec (revoke_if now kid r) =
     (if row_id r = kid \<and> k_revoked_at (row_rec r) = None
      then (row_rec r)\<lparr>k_revoked_at := Some now\<rparr> else row_rec r)"
  by (simp add: revoke_if_def revoke_row_def)

lemma select_revoke: "select_key (snd (revoke now kid t)) k = map_option (revoke_if now kid) (select_key t k)"
  unfolding snd_revoke by (rule select_key_map) simp

lemma revoke_none:
  assumes "\<And>r. r \<in> set t \<Longrightarrow> row_id r = kid \<longrightarrow> k_revoked_at (row_rec r) \<noteq> None"
  shows "revoke now kid t = (False, t)"
proof -
  have "revoke_if now kid r = r" if "r \<in> set t" for r
    using assms [OF that] by (auto simp: revoke_if_def)
  then have "snd (revoke now kid t) = t" by (simp add: snd_revoke map_idI)
  moreover have "\<not> fst (revoke now kid t)" using assms by (auto simp: revoke_def Let_def list_ex_iff)
  ultimately show ?thesis by (cases "revoke now kid t") simp
qed

lemma create_key_cases:
  assumes "create_key h random now customer label quota t = Inr ((full, rcd), t')"
  shows "(full, k_key_id rcd) = mint_key random" "select_key t (k_key_id rcd) = None"
    "t' = t @ [\<lparr>row_rec = rcd, row_hash = h full\<rparr>]" "k_revoked_at rcd = None"
    "k_customer rcd = customer" "k_label rcd = label" "k_quota rcd = quota" "k_created_at rcd = now"
  using assms by (auto simp: create_key_def Let_def split: if_splits prod.splits)


section \<open>Invariant of the store\<close>

definition key_table_ok :: "key_table \<Rightarrow> bool" where
  "key_table_ok t \<longleftrightarrow> distinct (map row_id t)"

lemma key_step_ok: "key_table_ok t \<Longrightarrow> key_table_ok (fst (key_step h t x))"
proof (cases x)
  case (CreateKey random now customer label quota)
  assume ok: "key_table_ok t"
  show ?thesis
  proof (cases "create_key h random now customer label quota t")
    case (Inr r)
    obtain full rcd t' where r: "r = ((full, rcd), t')" by (cases r) auto
    note c = create_key_cases [OF Inr [unfolded r]]
    from c(2) have "k_key_id rcd \<notin> set (map row_id t)" by (simp add: select_key_None_iff)
    with ok c(3) CreateKey Inr r show ?thesis
      by (simp add: key_table_ok_def row_id_def)
  qed (use ok CreateKey in simp)
next
  case (RevokeKey now kid)
  assume "key_table_ok t"
  moreover have "map row_id (snd (revoke now kid t)) = map row_id t"
    by (simp add: snd_revoke)
  ultimately show ?thesis
    by (simp add: RevokeKey key_table_ok_def case_prod_beta Let_def del: map_map)
qed

interpretation keys: invariant_machine key_table_ok "key_step h" for h
  by unfold_locales (rule key_step_ok)

text \<open>What later operations leave of a stored row: everything but a first revocation.\<close>

definition row_evolves :: "key_row \<Rightarrow> key_row \<Rightarrow> bool" where
  "row_evolves r r' \<longleftrightarrow> row_hash r' = row_hash r \<and>
     (row_rec r' = row_rec r \<or>
      k_revoked_at (row_rec r) = None \<and> (\<exists>now. row_rec r' = (row_rec r)\<lparr>k_revoked_at := Some now\<rparr>))"

lemma row_evolves_refl [simp]: "row_evolves r r"
  by (simp add: row_evolves_def)

lemma row_evolves_trans: "row_evolves r r' \<Longrightarrow> row_evolves r' r'' \<Longrightarrow> row_evolves r r''"
  by (auto simp: row_evolves_def)

lemma row_evolves_revoke_if [simp]: "row_evolves r (revoke_if now kid r)"
  by (auto simp: row_evolves_def revoke_if_rec)

lemma key_step_evolves:
  "select_key t kid = Some r \<Longrightarrow>
    \<exists>r'. select_key (fst (key_step h t x)) kid = Some r' \<and> row_evolves r r'"
proof (cases x)
  case (CreateKey random now customer label quota)
  assume sel: "select_key t kid = Some r"
  show ?thesis
  proof (cases "create_key h random now customer label quota t")
    case (Inr res)
    obtain full rcd t' where r: "res = ((full, rcd), t')" by (cases res) auto
    from create_key_cases(3) [OF Inr [unfolded r]] sel CreateKey Inr r show ?thesis
      by (simp add: select_key_append)
  qed (use sel CreateKey in simp)
next
  case (RevokeKey now k)
  assume "select_key t kid = Some r"
  then show ?thesis
    using select_revoke [of now k t kid] by (simp add: RevokeKey case_prod_beta)
qed

lemma run_evolves:
  "select_key t kid = Some r \<Longrightarrow>
    \<exists>r'. select_key (fst (run_trace (key_step h) t ops)) kid = Some r' \<and> row_evolves r r'"
proof (induction ops arbitrary: t r)
  case (Cons x ops)
  from key_step_evolves [OF Cons.prems] obtain r1 where
    r1: "select_key (fst (key_step h t x)) kid = Some r1" "row_evolves r r1" by blast
  from Cons.IH [OF r1(1)] r1(2) show ?case
    by (auto simp: run_trace_simps intro: row_evolves_trans)
qed simp

lemma authenticate_select:
  "authenticate h t k =
     (case parse_key_id k of None \<Rightarrow> None
      | Some kid \<Rightarrow> (case select_key t kid of None \<Rightarrow> None
         | Some row \<Rightarrow> if k_revoked_at (row_rec row) = None \<and> row_hash row = h k
             then Some \<lparr>p_key_id = k_key_id (row_rec row), p_customer = k_customer (row_rec row),
                        p_label = k_label (row_rec row), p_quota = k_quota (row_rec row)\<rparr>
             else None))"
  by (simp add: authenticate_def split: option.splits)

definition principal_of :: "api_key_record \<Rightarrow> principal" where
  "principal_of r = \<lparr>p_key_id = k_key_id r, p_customer = k_customer r, p_label = k_label r, p_quota = k_quota r\<rparr>"

interpretation key_order: row_order key_order
proof
  show "key_order x y \<or> key_order y x" for x y
    using text_le_total by (auto simp: key_order_def)
  show "key_order x y \<Longrightarrow> key_order y z \<Longrightarrow> key_order x z" for x y z
    using text_le_trans text_le_antisym by (fastforce simp: key_order_def split: if_splits)
qed


section \<open>What the store promises\<close>

fun revokes :: "string \<Rightarrow> key_op \<Rightarrow> bool" where
  "revokes kid (RevokeKey now k) = (k = kid)"
| "revokes kid (CreateKey _ _ _ _ _) = False"

lemma run_keeps_row:
  "select_key t kid = Some r \<Longrightarrow> \<not> list_ex (revokes kid) ops \<Longrightarrow>
    select_key (fst (run_trace (key_step h) t ops)) kid = Some r"
proof (induction ops arbitrary: t)
  case (Cons x ops)
  have "select_key (fst (key_step h t x)) kid = Some r"
  proof (cases x)
    case (CreateKey random now customer label quota)
    with key_step_evolves [OF Cons.prems(1), of h x] show ?thesis
      using create_key_cases(3) [of h random now customer label quota t] Cons.prems(1)
      by (auto simp: select_key_append split: sum.splits prod.splits)
  next
    case (RevokeKey now k)
    with Cons.prems have "k \<noteq> kid" by auto
    with Cons.prems(1) show ?thesis
      using select_revoke [of now k t kid] select_key_row_id [of t kid r]
      by (auto simp: RevokeKey case_prod_beta revoke_if_def)
  qed
  with Cons show ?case by (simp add: run_trace_simps)
qed simp

lemma run_revokes_row:
  "select_key t kid = Some r \<Longrightarrow> list_ex (revokes kid) ops \<Longrightarrow>
    \<exists>r'. select_key (fst (run_trace (key_step h) t ops)) kid = Some r' \<and> k_revoked_at (row_rec r') \<noteq> None"
proof (induction ops arbitrary: t r)
  case (Cons x ops)
  from key_step_evolves [OF Cons.prems(1), of h x] obtain r1 where
    r1: "select_key (fst (key_step h t x)) kid = Some r1" by blast
  show ?case
  proof (cases "revokes kid x")
    case True
    then obtain now where x: "x = RevokeKey now kid" by (cases x) auto
    from Cons.prems(1) r1 have "k_revoked_at (row_rec r1) \<noteq> None"
      using select_revoke [of now kid t kid] select_key_row_id [of t kid r]
      by (auto simp: x case_prod_beta revoke_if_rec)
    moreover from run_evolves [OF r1, of h ops] obtain r2 where
      "select_key (fst (run_trace (key_step h) (fst (key_step h t x)) ops)) kid = Some r2"
      "row_evolves r1 r2" by blast
    ultimately show ?thesis by (auto simp: run_trace_simps row_evolves_def)
  next
    case False
    with Cons.prems r1 Cons.IH [OF r1] show ?thesis by (simp add: run_trace_simps)
  qed
qed simp

text \<open>C16: A newly issued key identifies its owner for as long as it is not revoked: after any
  sequence of further operations on the store, presenting it gives the principal it was created
  for, unless one of the operations revoked its id; then it is refused for good, since a key id
  is never issued twice.\<close>

theorem issued_key_works_until_revoked:
  assumes "random_ok random"
    and "create_key h random now customer label quota t = Inr ((full, rcd), t')"
  shows "authenticate h (fst (run_trace (key_step h) t' ops)) full =
    (if list_ex (revokes (k_key_id rcd)) ops then None else Some (principal_of rcd))"
proof -
  note c = create_key_cases [OF assms(2)]
  let ?row = "\<lparr>row_rec = rcd, row_hash = h full\<rparr>" and ?kid = "k_key_id rcd"
  from mint_parse [OF assms(1)] c(1) have parse: "parse_key_id full = Some ?kid"
    by (metis fst_conv snd_conv)
  have sel: "select_key t' ?kid = Some ?row"
    using c(2) by (simp add: c(3) select_key_append) (simp add: select_key_def row_id_def)
  show ?thesis
  proof (cases "list_ex (revokes ?kid) ops")
    case True
    from run_revokes_row [OF sel True, of h] show ?thesis
      using True parse by (auto simp: authenticate_select)
  next
    case False
    from run_keeps_row [OF sel False, of h] show ?thesis
      using False parse c(4) by (simp add: authenticate_select principal_of_def)
  qed
qed

lemma authenticate_SomeD:
  assumes "authenticate h t k = Some p"
  obtains kid r where "parse_key_id k = Some kid" "select_key t kid = Some r"
    "k_revoked_at (row_rec r) = None" "row_hash r = h k" "p = principal_of (row_rec r)"
  using assms by (auto simp: authenticate_select principal_of_def split: option.splits if_splits)

text \<open>Every row of a store that started empty was issued by a creation.\<close>

lemma run_rows_issued:
  assumes "\<forall>r \<in> set t. \<exists>full rcd. (full, rcd) \<in> I \<and> row_hash r = h full \<and> k_revoked_at rcd = None
      \<and> row_evolves \<lparr>row_rec = rcd, row_hash = h full\<rparr> r"
    and "\<forall>full rcd. Created full rcd \<in> set (snd (run_trace (key_step h) t ops)) \<longrightarrow> (full, rcd) \<in> I"
  shows "\<forall>r \<in> set (fst (run_trace (key_step h) t ops)). \<exists>full rcd. (full, rcd) \<in> I \<and> row_hash r = h full
      \<and> k_revoked_at rcd = None \<and> row_evolves \<lparr>row_rec = rcd, row_hash = h full\<rparr> r"
  using assms
proof (induction ops arbitrary: t)
  case (Cons x ops)
  let ?P = "\<lambda>r. \<exists>full rcd. (full, rcd) \<in> I \<and> row_hash r = h full \<and> k_revoked_at rcd = None
      \<and> row_evolves \<lparr>row_rec = rcd, row_hash = h full\<rparr> r"
  have "\<forall>r \<in> set (fst (key_step h t x)). ?P r"
  proof (cases x)
    case (CreateKey random now customer label quota)
    show ?thesis
    proof (cases "create_key h random now customer label quota t")
      case (Inr res)
      obtain full rcd t' where r: "res = ((full, rcd), t')" by (cases res) auto
      note c = create_key_cases [OF Inr [unfolded r]]
      have "(full, rcd) \<in> I"
        using Cons.prems(2) by (simp add: CreateKey Inr r run_trace_simps)
      then have "?P \<lparr>row_rec = rcd, row_hash = h full\<rparr>"
        using c(4) by (intro exI [of _ full] exI [of _ rcd]) simp
      with Cons.prems(1) c(3) show ?thesis by (simp add: CreateKey Inr r)
    qed (use Cons.prems(1) CreateKey in simp)
  next
    case (RevokeKey now k)
    have "?P (revoke_if now k r)" if P: "?P r" for r
    proof -
      from P obtain full rcd where *: "(full, rcd) \<in> I" "row_hash r = h full" "k_revoked_at rcd = None"
        "row_evolves \<lparr>row_rec = rcd, row_hash = h full\<rparr> r" by blast
      then have "row_evolves \<lparr>row_rec = rcd, row_hash = h full\<rparr> (revoke_if now k r)"
        by (auto intro: row_evolves_trans)
      with * show ?thesis by auto
    qed
    with Cons.prems(1) show ?thesis
      by (simp add: RevokeKey case_prod_beta snd_revoke)
  qed
  moreover have "\<forall>full rcd. Created full rcd \<in> set (snd (run_trace (key_step h) (fst (key_step h t x)) ops))
      \<longrightarrow> (full, rcd) \<in> I"
    using Cons.prems(2) by (auto simp: run_trace_simps)
  ultimately show ?case by (simp add: run_trace_simps Cons.IH)
qed simp

text \<open>C17: Only an issued key authenticates. In a store that started empty, if presenting
  \<open>k\<close> gives a principal, and no other string has the hash of \<open>k\<close>, then \<open>k\<close> is the full
  key an earlier creation returned, and the principal is that of the record it returned.\<close>

theorem only_issued_keys_authenticate:
  assumes "authenticate h (fst (run_trace (key_step h) [] ops)) k = Some p"
    and "\<forall>k'. h k' = h k \<longrightarrow> k' = k"
  shows "\<exists>rcd. Created k rcd \<in> set (snd (run_trace (key_step h) [] ops)) \<and> p = principal_of rcd"
proof -
  let ?es = "snd (run_trace (key_step h) [] ops)"
  from assms(1) obtain kid r where r: "select_key (fst (run_trace (key_step h) [] ops)) kid = Some r"
      "k_revoked_at (row_rec r) = None" "row_hash r = h k" "p = principal_of (row_rec r)"
    by (rule authenticate_SomeD)
  from select_key_row_id [OF r(1)] run_rows_issued [of "[]" "{(f, r). Created f r \<in> set ?es}" h ops]
  obtain full rcd where *: "Created full rcd \<in> set ?es" "row_hash r = h full"
      "row_evolves \<lparr>row_rec = rcd, row_hash = h full\<rparr> r" by auto
  from *(2) r(3) assms(2) have "full = k" by simp
  moreover from *(3) r(2) have "row_rec r = rcd" by (auto simp: row_evolves_def)
  ultimately show ?thesis using * r(4) by blast
qed

text \<open>A revocation concerns one key id: afterwards no key with that id authenticates and
  every other key does exactly as before, no row disappears, and revoking again answers
  \<open>False\<close> and changes nothing, so the first revocation time stays on record.\<close>

theorem revocation_is_exact:
  "authenticate h (snd (revoke now kid t)) k =
     (if parse_key_id k = Some kid then None else authenticate h t k)
   \<and> map row_id (snd (revoke now kid t)) = map row_id t
   \<and> (fst (revoke now kid t) \<longleftrightarrow> (\<exists>r. r \<in> set t \<and> row_id r = kid \<and> key_active (row_rec r)))
   \<and> revoke later kid (snd (revoke now kid t)) = (False, snd (revoke now kid t))"
proof -
  have "authenticate h (snd (revoke now kid t)) k =
     (if parse_key_id k = Some kid then None else authenticate h t k)"
  proof (cases "parse_key_id k")
    case (Some k')
    show ?thesis
    proof (cases "select_key t k'")
      case (Some r)
      with \<open>parse_key_id k = Some k'\<close> select_key_row_id [OF Some] show ?thesis
        by (auto simp: authenticate_select select_revoke revoke_if_rec)
    qed (simp add: authenticate_select select_revoke \<open>parse_key_id k = Some k'\<close>)
  qed (simp add: authenticate_select)
  moreover have "map row_id (snd (revoke now kid t)) = map row_id t"
    by (simp add: snd_revoke)
  moreover have "revoke later kid (snd (revoke now kid t)) = (False, snd (revoke now kid t))"
    by (rule revoke_none) (auto simp: snd_revoke revoke_if_rec simp del: not_None_eq)
  moreover have "fst (revoke now kid t) \<longleftrightarrow> (\<exists>r. r \<in> set t \<and> row_id r = kid \<and> key_active (row_rec r))"
    by (auto simp add: revoke_def Let_def list_ex_iff key_active_def)
  ultimately show ?thesis by (intro conjI)
qed

text \<open>Listing the keys returns exactly the stored records that match the two filters,
  ordered by creation time and then by key id.\<close>

theorem list_keys_is_filtered_and_sorted:
  "mset (list_keys t customer include_revoked) =
     filter_mset (\<lambda>r. (customer = None \<or> customer = Some (k_customer r)) \<and> (include_revoked \<or> key_active r))
       (mset (map row_rec t))
   \<and> sorted_wrt key_order (list_keys t customer include_revoked)"
proof -
  have "mset (list_keys t customer include_revoked) =
     filter_mset (\<lambda>r. (customer = None \<or> customer = Some (k_customer r)) \<and> (include_revoked \<or> key_active r))
       (mset (map row_rec t))"
    unfolding list_keys_def key_active_def mset_order_by mset_filter
    by (cases customer) (auto intro!: filter_mset_cong)
  then show ?thesis
    by (simp only: list_keys_def key_order.order_by_sorted)
qed

definition sample_random :: "nat list" where
  "sample_random = [18, 52, 171, 255] @ replicate 32 7"

definition sample_ops :: "key_op list" where
  "sample_ops = [CreateKey sample_random ''t0'' ''acme'' ''prod'' (Some 100)]"

theorem issued_key_works_until_revoked_witness:
  "authenticate id (fst (run_trace (key_step id)
      (snd (projr (create_key id sample_random ''t0'' ''acme'' [] None [])))
      [RevokeKey ''t1'' ''1234abff''])) (fst (mint_key sample_random)) = None"
proof -
  have "random_ok sample_random" by code_simp
  moreover have "create_key id sample_random ''t0'' ''acme'' [] None [] =
    Inr ((fst (mint_key sample_random), \<lparr>k_key_id = ''1234abff'', k_customer = ''acme'', k_label = [],
      k_created_at = ''t0'', k_revoked_at = None, k_quota = None\<rparr>),
      snd (projr (create_key id sample_random ''t0'' ''acme'' [] None [])))"
    by code_simp
  ultimately show ?thesis
    using issued_key_works_until_revoked [of sample_random id "''t0''" "''acme''" "[]" None "[]"] by simp
qed

theorem only_issued_keys_authenticate_witness:
  "\<exists>rcd. Created (fst (mint_key sample_random)) rcd \<in> set (snd (run_trace (key_step id) [] sample_ops))
     \<and> principal_of rcd = \<lparr>p_key_id = ''1234abff'', p_customer = ''acme'', p_label = ''prod'', p_quota = Some 100\<rparr>"
proof -
  have "authenticate id (fst (run_trace (key_step id) [] sample_ops)) (fst (mint_key sample_random))
    = Some \<lparr>p_key_id = ''1234abff'', p_customer = ''acme'', p_label = ''prod'', p_quota = Some 100\<rparr>"
    by code_simp
  from only_issued_keys_authenticate [OF this] show ?thesis by auto
qed

end
