(* ===== verification/Usage.thy ===== *)
theory Usage
  imports PyStr Sql Interfaces Json
begin

text \<open>
  The usage ledger (\<open>src/repercep/serving/usage.py\<close>): UTC timestamps as text, the append-only
  table \<open>usage_events\<close>, the quota query \<open>tokens_since\<close>, the invoice query \<open>summary\<close> and
  \<open>recent\<close>. Every operation runs under the ledger's lock, so it is one step; the clock is an
  input. Sums are exact; SQLite agrees while they stay below 2^63.
\<close>

section \<open>Timestamps\<close>

record datetime =
  dt_year :: nat
  dt_month :: nat
  dt_day :: nat
  dt_hour :: nat
  dt_minute :: nat
  dt_second :: nat
  dt_microsecond :: nat

definition datetime_ok :: "datetime \<Rightarrow> bool" where
  "datetime_ok d \<longleftrightarrow> 1 \<le> dt_year d \<and> dt_year d \<le> 9999 \<and> 1 \<le> dt_month d \<and> dt_month d \<le> 12 \<and>
     1 \<le> dt_day d \<and> dt_day d \<le> 31 \<and> dt_hour d < 24 \<and> dt_minute d < 60 \<and> dt_second d < 60 \<and>
     dt_microsecond d < 1000000"

definition pad2 :: "nat \<Rightarrow> string" where
  "pad2 n = [digit_char (n div 10), digit_char (n mod 10)]"

definition pad4 :: "nat \<Rightarrow> string" where
  "pad4 n = pad2 (n div 100) @ pad2 (n mod 100)"

text \<open>\<open>isoformat(timespec="seconds")\<close> of an aware UTC datetime.\<close>

definition isoformat :: "datetime \<Rightarrow> string" where
  "isoformat d = pad4 (dt_year d) @ ''-'' @ pad2 (dt_month d) @ ''-'' @ pad2 (dt_day d) @ ''T''
     @ pad2 (dt_hour d) @ '':'' @ pad2 (dt_minute d) @ '':'' @ pad2 (dt_second d) @ ''+00:00''"

definition month_start :: "datetime \<Rightarrow> string" where
  "month_start ref = isoformat (ref\<lparr>dt_day := 1, dt_hour := 0, dt_minute := 0, dt_second := 0,
     dt_microsecond := 0\<rparr>)"

section \<open>The ledger\<close>

record usage_event =
  ue_key_id :: string
  ue_customer :: string
  ue_route :: string
  ue_model :: string
  ue_prompt :: int
  ue_completion :: int
  ue_exact :: bool
  ue_status :: int
  ue_latency_ms :: pyfloat
  ue_request_id :: string

definition event_total :: "usage_event \<Rightarrow> int" where
  "event_total e = ue_prompt e + ue_completion e"

record usage_row =
  ur_id :: int
  ur_ts :: string
  ur_event :: usage_event

type_synonym ledger = "usage_row list"

text \<open>A NaN is bound as NULL, which the column refuses.\<close>

definition record_usage :: "string \<Rightarrow> usage_event \<Rightarrow> ledger \<Rightarrow> exn + ledger" where
  "record_usage now ev l =
     (if \<not> sql_int_ok (ue_prompt ev) \<or> \<not> sql_int_ok (ue_completion ev) \<or> \<not> sql_int_ok (ue_status ev)
      then Inl sql_int_error
      else if ue_latency_ms ev = NotANumber
      then Inl (IntegrityError ''NOT NULL constraint failed: usage_events.latency_ms'')
      else Inr (l @ [\<lparr>ur_id = int (length l) + 1, ur_ts = now, ur_event = ev\<rparr>]))"

definition sum_of :: "('a \<Rightarrow> int) \<Rightarrow> 'a list \<Rightarrow> int" where
  "sum_of f xs = sum_list (map f xs)"

definition tokens_since :: "string option \<Rightarrow> string option \<Rightarrow> string \<Rightarrow> ledger \<Rightarrow> exn + int" where
  "tokens_since key_id customer since l =
     (if (key_id = None) = (customer = None)
      then Inl (ValueError ''pass exactly one of key_id or customer'')
      else
        let matches = (\<lambda>r. case key_id of
              Some k \<Rightarrow> ue_key_id (ur_event r) = k
            | None \<Rightarrow> Some (ue_customer (ur_event r)) = customer)
        in Inr (sum_of (\<lambda>r. ue_prompt (ur_event r) + ue_completion (ur_event r))
             (filter (\<lambda>r. matches r \<and> text_le since (ur_ts r)) l)))"

record usage_summary =
  us_key_id :: string
  us_customer :: string
  us_calls :: int
  us_prompt :: int
  us_completion :: int
  us_estimated :: int

definition summary_total :: "usage_summary \<Rightarrow> int" where
  "summary_total s = us_prompt s + us_completion s"

definition group_key :: "usage_row \<Rightarrow> string \<times> string" where
  "group_key r = (ue_key_id (ur_event r), ue_customer (ur_event r))"

text \<open>One group of \<open>GROUP BY key_id, customer\<close> with its aggregates.\<close>

definition summarize :: "ledger \<Rightarrow> string \<times> string \<Rightarrow> usage_summary" where
  "summarize rows g =
     (let rs = filter (\<lambda>r. group_key r = g) rows
      in \<lparr>us_key_id = fst g, us_customer = snd g, us_calls = int (length rs),
          us_prompt = sum_of (\<lambda>r. ue_prompt (ur_event r)) rs,
          us_completion = sum_of (\<lambda>r. ue_completion (ur_event r)) rs,
          us_estimated = sum_of (\<lambda>r. if ue_exact (ur_event r) then 0
             else ue_prompt (ur_event r) + ue_completion (ur_event r)) rs\<rparr>)"

text \<open>\<open>ORDER BY pt + ct DESC, key_id\<close>.\<close>

definition summary_order :: "usage_summary \<Rightarrow> usage_summary \<Rightarrow> bool" where
  "summary_order a b \<longleftrightarrow> summary_total b < summary_total a \<or>
     summary_total a = summary_total b \<and> text_le (us_key_id a) (us_key_id b)"

definition selected :: "string option \<Rightarrow> string option \<Rightarrow> usage_row \<Rightarrow> bool" where
  "selected since customer r \<longleftrightarrow>
     (case since of None \<Rightarrow> True | Some s \<Rightarrow> text_le s (ur_ts r)) \<and>
     (case customer of None \<Rightarrow> True | Some c \<Rightarrow> ue_customer (ur_event r) = c)"

definition usage_summaries :: "string option \<Rightarrow> string option \<Rightarrow> ledger \<Rightarrow> usage_summary list" where
  "usage_summaries since customer l =
     (let rows = filter (selected since customer) l
      in order_by summary_order (map (summarize rows) (remdups (map group_key rows))))"

text \<open>\<open>ORDER BY id DESC LIMIT ?\<close>; a negative limit is no limit.\<close>

definition recent :: "string option \<Rightarrow> int \<Rightarrow> ledger \<Rightarrow> usage_row list" where
  "recent key_id limit l =
     (let rows = order_by (\<lambda>a b. ur_id b \<le> ur_id a)
            (filter (\<lambda>r. case key_id of None \<Rightarrow> True | Some k \<Rightarrow> ue_key_id (ur_event r) = k) l)
      in if limit < 0 then rows else take (nat limit) rows)"

section \<open>The text order of timestamps is the order of time\<close>

lemma char_less_digit: "m < 10 \<Longrightarrow> n < 10 \<Longrightarrow> char_less (digit_char m) (digit_char n) \<longleftrightarrow> m < n"
  by (simp add: char_less_def of_char_digit_char)

lemma digit_char_inj: "m < 10 \<Longrightarrow> n < 10 \<Longrightarrow> digit_char m = digit_char n \<longleftrightarrow> m = n"
  by (metis add_left_cancel of_char_digit_char)

lemma text_le_same: "text_le (p @ s) (p @ t) \<longleftrightarrow> text_le s t"
  by (induction p) simp_all

lemma div_mod_lex:
  fixes m n b :: nat
  shows "m div b < n div b \<or> m div b = n div b \<and> (m mod b < n mod b \<or> m mod b = n mod b \<and> P)
    \<longleftrightarrow> m < n \<or> m = n \<and> P"
proof -
  consider "m div b < n div b" | "n div b < m div b" | "m div b = n div b" by linarith
  then show ?thesis
  proof cases
    case 1
    then have "m < n" by (meson div_le_mono not_less)
    with 1 show ?thesis by simp
  next
    case 2
    then have "n < m" by (meson div_le_mono not_less)
    with 2 show ?thesis by simp
  next
    case 3
    moreover have "m = b * (m div b) + m mod b" "n = b * (n div b) + n mod b" by simp_all
    ultimately have "m mod b < n mod b \<longleftrightarrow> m < n" "m mod b = n mod b \<longleftrightarrow> m = n"
      by (metis add_less_cancel_left, metis add_left_cancel)
    with 3 show ?thesis by simp
  qed
qed

lemma text_le_pad2:
  assumes "m < 100" "n < 100"
  shows "text_le (pad2 m @ s) (pad2 n @ t) \<longleftrightarrow> m < n \<or> m = n \<and> text_le s t"
proof -
  have "m div 10 < 10" "n div 10 < 10" using assms by auto
  then have "text_le (pad2 m @ s) (pad2 n @ t) \<longleftrightarrow>
      m div 10 < n div 10 \<or> m div 10 = n div 10 \<and> (m mod 10 < n mod 10 \<or> m mod 10 = n mod 10 \<and> text_le s t)"
    by (simp add: pad2_def char_less_digit digit_char_inj)
  then show ?thesis by (simp only: div_mod_lex)
qed

lemma text_le_pad4:
  assumes "m < 10000" "n < 10000"
  shows "text_le (pad4 m @ s) (pad4 n @ t) \<longleftrightarrow> m < n \<or> m = n \<and> text_le s t"
proof -
  have "m div 100 < 100" "n div 100 < 100" using assms by auto
  then have "text_le (pad4 m @ s) (pad4 n @ t) \<longleftrightarrow>
      m div 100 < n div 100 \<or> m div 100 = n div 100 \<and> (m mod 100 < n mod 100 \<or> m mod 100 = n mod 100 \<and> text_le s t)"
    by (simp add: pad4_def text_le_pad2)
  then show ?thesis by (simp only: div_mod_lex)
qed

lemma text_le_sep: "text_le (c # s) (c # t) \<longleftrightarrow> text_le s t"
  by simp

definition time_key :: "datetime \<Rightarrow> nat list" where
  "time_key d = [dt_year d, dt_month d, dt_day d, dt_hour d, dt_minute d, dt_second d]"

fun lex_le :: "nat list \<Rightarrow> nat list \<Rightarrow> bool" where
  "lex_le [] ys = True"
| "lex_le (x # xs) [] = False"
| "lex_le (x # xs) (y # ys) = (x < y \<or> x = y \<and> lex_le xs ys)"

lemma isoformat_order:
  "datetime_ok a \<Longrightarrow> datetime_ok b \<Longrightarrow> text_le (isoformat a) (isoformat b) \<longleftrightarrow> lex_le (time_key a) (time_key b)"
  by (simp add: isoformat_def time_key_def datetime_ok_def text_le_pad2 text_le_pad4 char_less_def)

lemma datetime_ok_month_start:
  "datetime_ok d \<Longrightarrow> datetime_ok (d\<lparr>dt_day := 1, dt_hour := 0, dt_minute := 0, dt_second := 0, dt_microsecond := 0\<rparr>)"
  by (simp add: datetime_ok_def)


lemma month_window:
  assumes "datetime_ok now" "datetime_ok d"
  shows "text_le (month_start now) (isoformat d) \<longleftrightarrow>
    dt_year now < dt_year d \<or> dt_year now = dt_year d \<and> dt_month now \<le> dt_month d"
  using assms isoformat_order [OF datetime_ok_month_start [OF assms(1)] assms(2)]
  by (auto simp: month_start_def time_key_def datetime_ok_def)

lemma month_start_eq:
  "dt_year a = dt_year b \<Longrightarrow> dt_month a = dt_month b \<Longrightarrow> month_start a = month_start b"
  by (simp add: month_start_def isoformat_def)

text \<open>The quota window is the calendar month. Comparing the stored text of a time with
  \<open>month_start\<close> of another, as the quota query does, is the same as asking whether the first
  lies in the month of the second or in a later one.\<close>

theorem quota_window_is_calendar_month:
  assumes "datetime_ok now" "datetime_ok d"
  shows "text_le (month_start now) (isoformat d) \<longleftrightarrow>
    dt_year now < dt_year d \<or> dt_year now = dt_year d \<and> dt_month now \<le> dt_month d"
  using assms by (rule month_window)

definition sample_time :: datetime where
  "sample_time = \<lparr>dt_year = 2026, dt_month = 3, dt_day = 31, dt_hour = 23, dt_minute = 59, dt_second = 59,
     dt_microsecond = 5\<rparr>"

theorem quota_window_is_calendar_month_witness:
  "\<not> text_le (month_start (sample_time\<lparr>dt_month := 4, dt_day := 1\<rparr>)) (isoformat sample_time)
   \<and> text_le (month_start sample_time) (isoformat sample_time)"
  using quota_window_is_calendar_month [of "sample_time\<lparr>dt_month := 4, dt_day := 1\<rparr>" sample_time]
    quota_window_is_calendar_month [of sample_time sample_time]
  by (simp add: sample_time_def datetime_ok_def)

section \<open>Quota and invoice\<close>

interpretation summary_order: row_order summary_order
proof
  show "summary_order x y \<or> summary_order y x" for x y
    using text_le_total by (auto simp: summary_order_def)
  show "summary_order x y \<Longrightarrow> summary_order y z \<Longrightarrow> summary_order x z" for x y z
    using text_le_trans by (auto simp: summary_order_def)
qed

interpretation newest_first: row_order "\<lambda>a b. ur_id b \<le> ur_id a"
  by unfold_locales auto

lemma sum_of_Nil [simp]: "sum_of f [] = 0"
  by (simp add: sum_of_def)

lemma sum_of_Cons [simp]: "sum_of f (x # xs) = f x + sum_of f xs"
  by (simp add: sum_of_def)

lemma sum_of_append [simp]: "sum_of f (xs @ ys) = sum_of f xs + sum_of f ys"
  by (simp add: sum_of_def)

lemma sum_of_add: "sum_of (\<lambda>x. f x + g x) xs = sum_of f xs + sum_of g xs"
  by (induction xs) simp_all

text \<open>Summing group by group gives the sum over all rows whose group is listed.\<close>

lemma sum_of_groups:
  assumes "distinct gs"
  shows "sum_list (map (\<lambda>g. sum_of f (filter (\<lambda>r. k r = g) rs)) gs) = sum_of f (filter (\<lambda>r. k r \<in> set gs) rs)"
proof (induction rs)
  case (Cons r rs)
  have "sum_list (map (\<lambda>g. sum_of f (filter (\<lambda>r. k r = g) (r # rs))) gs)
      = sum_list (map (\<lambda>g. (if k r = g then f r else 0) + sum_of f (filter (\<lambda>r. k r = g) rs)) gs)"
    by (intro arg_cong [of _ _ sum_list] map_cong) simp_all
  also have "\<dots> = sum_list (map (\<lambda>g. if k r = g then f r else 0) gs)
      + sum_list (map (\<lambda>g. sum_of f (filter (\<lambda>r. k r = g) rs)) gs)"
    by (rule sum_list_addf)
  also have "sum_list (map (\<lambda>g. if k r = g then f r else 0) gs) = (if k r \<in> set gs then f r else 0)"
    using assms by (induction gs) auto
  finally show ?case using Cons by simp
qed (simp add: sum_list_0)

lemma summarize_simps [simp]:
  "us_key_id (summarize rows g) = fst g"
  "us_customer (summarize rows g) = snd g"
  by (simp_all add: summarize_def Let_def)

lemma summary_total_summarize:
  "summary_total (summarize rows g) =
     sum_of (\<lambda>r. event_total (ur_event r)) (filter (\<lambda>r. group_key r = g) rows)"
  by (simp add: summary_total_def summarize_def Let_def event_total_def sum_of_add)

definition row_total :: "usage_row \<Rightarrow> int" where
  "row_total r = event_total (ur_event r)"

text \<open>The total of the summaries that satisfy a condition on the group.\<close>

lemma summaries_total:
  "sum_of summary_total (filter (\<lambda>s. P (us_key_id s, us_customer s)) (usage_summaries since customer l))
    = sum_of row_total (filter (\<lambda>r. selected since customer r \<and> P (group_key r)) l)"
proof -
  let ?rows = "filter (selected since customer) l"
  let ?gs = "remdups (map group_key ?rows)"
  have "sum_of summary_total (filter (\<lambda>s. P (us_key_id s, us_customer s)) (usage_summaries since customer l))
      = sum_list (map summary_total (filter (\<lambda>s. P (us_key_id s, us_customer s)) (map (summarize ?rows) ?gs)))"
    unfolding usage_summaries_def Let_def sum_of_def
    by (metis (no_types, lifting) mset_filter mset_map mset_order_by sum_mset_sum_list)
  also have "\<dots> = sum_list (map (\<lambda>g. sum_of row_total (filter (\<lambda>r. group_key r = g) ?rows)) (filter P ?gs))"
    by (simp add: filter_map comp_def summary_total_summarize row_total_def [abs_def])
  also have "\<dots> = sum_of row_total (filter (\<lambda>r. group_key r \<in> set (filter P ?gs)) ?rows)"
    by (rule sum_of_groups) simp
  also have "filter (\<lambda>r. group_key r \<in> set (filter P ?gs)) ?rows
      = filter (\<lambda>r. selected since customer r \<and> P (group_key r)) l"
    by (auto simp: filter_filter intro!: filter_cong)
  finally show ?thesis .
qed

lemma tokens_since_key:
  "tokens_since (Some k) None since l =
     Inr (sum_of row_total (filter (\<lambda>r. ue_key_id (ur_event r) = k \<and> text_le since (ur_ts r)) l))"
  by (simp add: tokens_since_def row_total_def [abs_def] event_total_def)

lemma tokens_since_customer:
  "tokens_since None (Some c) since l =
     Inr (sum_of row_total (filter (\<lambda>r. ue_customer (ur_event r) = c \<and> text_le since (ur_ts r)) l))"
  by (simp add: tokens_since_def row_total_def [abs_def] event_total_def)

text \<open>The quota check and the invoice agree: what \<open>tokens_since\<close> answers for a key is the sum
  of the totals of that key's lines in the invoice of the same window, and what it answers for a
  customer is the sum of all lines of the customer's invoice; asking for both or neither raises.\<close>

theorem quota_agrees_with_invoice:
  "tokens_since (Some k) None since l =
     Inr (sum_of summary_total (filter (\<lambda>s. us_key_id s = k) (usage_summaries (Some since) None l)))
   \<and> tokens_since None (Some c) since l =
     Inr (sum_of summary_total (usage_summaries (Some since) (Some c) l))
   \<and> tokens_since None None since l = Inl (ValueError ''pass exactly one of key_id or customer'')
   \<and> tokens_since (Some k) (Some c) since l = Inl (ValueError ''pass exactly one of key_id or customer'')"
proof (intro conjI)
  show "tokens_since (Some k) None since l =
     Inr (sum_of summary_total (filter (\<lambda>s. us_key_id s = k) (usage_summaries (Some since) None l)))"
    using summaries_total [of "\<lambda>g. fst g = k" "Some since" None l]
    by (simp add: tokens_since_key selected_def group_key_def conj_commute)
  show "tokens_since None (Some c) since l =
     Inr (sum_of summary_total (usage_summaries (Some since) (Some c) l))"
    using summaries_total [of "\<lambda>g. True" "Some since" "Some c" l]
    by (simp add: tokens_since_customer selected_def conj_commute)
qed (simp_all add: tokens_since_def)


lemma in_summaries:
  assumes "s \<in> set (usage_summaries since customer l)"
  obtains g rows where "rows = filter (selected since customer) l" "g \<in> group_key ` set rows" "s = summarize rows g"
  using assms by (auto simp: usage_summaries_def Let_def)

lemma sum_of_mono:
  "(\<And>x. x \<in> set xs \<Longrightarrow> f x \<le> g x) \<Longrightarrow> sum_of f xs \<le> sum_of g xs"
  by (induction xs) (auto intro: add_mono)

lemma sum_of_nonneg: "(\<And>x. x \<in> set xs \<Longrightarrow> 0 \<le> f x) \<Longrightarrow> 0 \<le> sum_of f xs"
  by (induction xs) auto

definition nonneg_row :: "usage_row \<Rightarrow> bool" where
  "nonneg_row r \<longleftrightarrow> 0 \<le> ue_prompt (ur_event r) \<and> 0 \<le> ue_completion (ur_event r)"

lemma summaries_distinct:
  "distinct (map (\<lambda>s. (us_key_id s, us_customer s)) (usage_summaries since customer l))"
proof -
  have "map (\<lambda>s. (us_key_id s, us_customer s)) (map (summarize rows) gs) = gs" for rows gs
    by (simp add: comp_def)
  then show ?thesis
    by (simp only: usage_summaries_def Let_def distinct_order_by distinct_remdups)
qed

lemma summaries_keys:
  "(\<lambda>s. (us_key_id s, us_customer s)) ` set (usage_summaries since customer l)
    = group_key ` {r \<in> set l. selected since customer r}"
  by (auto simp: usage_summaries_def Let_def image_image)

text \<open>The invoice has one line per key and customer that made a call in the window, heaviest
  first and then by key id; every line counts at least one call, all lines together count every
  selected row, and when token counts are not negative the estimated tokens are part of the total.\<close>

theorem invoice_lines:
  "distinct (map (\<lambda>s. (us_key_id s, us_customer s)) (usage_summaries since customer l))
   \<and> sorted_wrt summary_order (usage_summaries since customer l)
   \<and> set (map (\<lambda>s. (us_key_id s, us_customer s)) (usage_summaries since customer l))
       = group_key ` {r \<in> set l. selected since customer r}
   \<and> (\<forall>s \<in> set (usage_summaries since customer l). 1 \<le> us_calls s)
   \<and> (list_all nonneg_row l \<longrightarrow>
       (\<forall>s \<in> set (usage_summaries since customer l). 0 \<le> us_estimated s \<and> us_estimated s \<le> summary_total s))"
proof (intro conjI impI ballI)
  show "distinct (map (\<lambda>s. (us_key_id s, us_customer s)) (usage_summaries since customer l))"
    by (rule summaries_distinct)
  show "sorted_wrt summary_order (usage_summaries since customer l)"
    unfolding usage_summaries_def Let_def by (rule summary_order.order_by_sorted)
  show "set (map (\<lambda>s. (us_key_id s, us_customer s)) (usage_summaries since customer l))
       = group_key ` {r \<in> set l. selected since customer r}"
    by (simp only: set_map summaries_keys)
next
  fix s assume "s \<in> set (usage_summaries since customer l)"
  then obtain g rows where s: "g \<in> group_key ` set rows" "s = summarize rows g"
    by (rule in_summaries)
  then have "filter (\<lambda>r. group_key r = g) rows \<noteq> []" by (auto simp: filter_empty_conv)
  then show "1 \<le> us_calls s"
    by (cases "filter (\<lambda>r. group_key r = g) rows") (simp_all add: s(2) summarize_def Let_def)
next
  fix s assume nn: "list_all nonneg_row l" and "s \<in> set (usage_summaries since customer l)"
  from this(2) obtain g rows where s: "rows = filter (selected since customer) l" "s = summarize rows g"
    by (rule in_summaries)
  let ?rs = "filter (\<lambda>r. group_key r = g) rows"
  have nn': "nonneg_row r" if "r \<in> set ?rs" for r using that nn s(1) by (auto simp: list_all_iff)
  have est: "us_estimated s = sum_of (\<lambda>r. if ue_exact (ur_event r) then 0
             else ue_prompt (ur_event r) + ue_completion (ur_event r)) ?rs"
    by (simp add: s(2) summarize_def Let_def)
  show "0 \<le> us_estimated s"
    unfolding est by (rule sum_of_nonneg) (use nn' in \<open>auto simp: nonneg_row_def\<close>)
  show "us_estimated s \<le> summary_total s"
    unfolding s(2) summary_total_summarize est [unfolded s(2)]
    by (rule sum_of_mono) (use nn' in \<open>auto simp: nonneg_row_def event_total_def\<close>)
qed

section \<open>The ledger as a machine\<close>

fun ledger_step :: "ledger \<Rightarrow> string \<times> usage_event \<Rightarrow> ledger \<times> exn option" where
  "ledger_step l (now, ev) = (case record_usage now ev l of Inl e \<Rightarrow> (l, Some e) | Inr l' \<Rightarrow> (l', None))"

definition ledger_ok :: "ledger \<Rightarrow> bool" where
  "ledger_ok l \<longleftrightarrow> map ur_id l = map int [1..<Suc (length l)]"

lemma record_usage_Inr: "record_usage now ev l = Inr l' \<Longrightarrow> l' = l @ [\<lparr>ur_id = int (length l) + 1, ur_ts = now, ur_event = ev\<rparr>]"
  by (auto simp: record_usage_def split: if_splits)

lemma ledger_step_ok: "ledger_ok l \<Longrightarrow> ledger_ok (fst (ledger_step l x))"
proof (cases x)
  case (Pair now ev)
  assume "ledger_ok l"
  then show ?thesis
    by (cases "record_usage now ev l") (auto simp: Pair ledger_ok_def dest!: record_usage_Inr)
qed

interpretation ledger: invariant_machine ledger_ok ledger_step
  by unfold_locales (rule ledger_step_ok)

lemma ledger_step_prefix: "prefix l (fst (ledger_step l x))"
proof (cases x)
  case (Pair now ev)
  then show ?thesis
    by (cases "record_usage now ev l") (auto dest!: record_usage_Inr)
qed

lemma run_ledger_prefix: "prefix l (fst (run_trace ledger_step l evs))"
proof (induction evs arbitrary: l)
  case (Cons x evs)
  from ledger_step_prefix [of l x] Cons [of "fst (ledger_step l x)"] show ?case
    by (simp add: run_trace_simps)
qed simp

lemma rev_sorted_order_by:
  assumes "sorted_wrt (\<lambda>a b. ur_id a < ur_id b) xs"
  shows "order_by (\<lambda>a b. ur_id b \<le> ur_id a) xs = rev xs"
  using assms
proof (induction xs)
  case (Cons x xs)
  have "insert_by (\<lambda>a b. ur_id b \<le> ur_id a) x ys = ys @ [x]" if "\<forall>y \<in> set ys. ur_id x < ur_id y" for ys
    using that by (induction ys) auto
  with Cons show ?case by (simp add: order_by_def)
qed (simp add: order_by_def)

lemma ledger_ok_sorted: "ledger_ok l \<Longrightarrow> sorted_wrt (\<lambda>a b. ur_id a < ur_id b) l"
proof -
  assume "ledger_ok l"
  then have "sorted_wrt (<) (map ur_id l)"
    by (simp only: ledger_ok_def sorted_wrt_map of_nat_less_iff sorted_wrt_upt)
  then show ?thesis by (simp add: sorted_wrt_map)
qed

definition ledger_after :: "(string \<times> usage_event) list \<Rightarrow> ledger" where
  "ledger_after evs = fst (run_trace ledger_step [] evs)"

text \<open>The ledger is append-only: whatever is recorded later, every earlier row stays where it
  is with the same content, row ids count 1, 2, 3 and so on, and \<open>recent\<close> answers the rows of a
  key newest first, all of them or as many as the limit says.\<close>

theorem ledger_is_append_only:
  "prefix (ledger_after evs) (ledger_after (evs @ evs'))
   \<and> map ur_id (ledger_after evs) = map int [1..<Suc (length (ledger_after evs))]
   \<and> recent key_id limit (ledger_after evs) =
      (let rows = rev (filter (\<lambda>r. key_id = None \<or> key_id = Some (ue_key_id (ur_event r))) (ledger_after evs))
       in if limit < 0 then rows else take (nat limit) rows)"
proof (intro conjI)
  have ok: "ledger_ok (ledger_after evs)"
    unfolding ledger_after_def by (rule ledger.run_inv) (simp add: ledger_ok_def)
  show "prefix (ledger_after evs) (ledger_after (evs @ evs'))"
    by (simp add: ledger_after_def run_trace_append run_ledger_prefix)
  show "map ur_id (ledger_after evs) = map int [1..<Suc (length (ledger_after evs))]"
    using ok by (simp only: ledger_ok_def)
  have P: "(case key_id of None \<Rightarrow> True | Some k \<Rightarrow> ue_key_id (ur_event r) = k)
      \<longleftrightarrow> key_id = None \<or> key_id = Some (ue_key_id (ur_event r))" for r
    by (cases key_id) auto
  have "order_by (\<lambda>a b. ur_id b \<le> ur_id a) (filter Q (ledger_after evs)) = rev (filter Q (ledger_after evs))" for Q
    by (intro rev_sorted_order_by sorted_wrt_filter ledger_ok_sorted ok)
  then show "recent key_id limit (ledger_after evs) =
      (let rows = rev (filter (\<lambda>r. key_id = None \<or> key_id = Some (ue_key_id (ur_event r))) (ledger_after evs))
       in if limit < 0 then rows else take (nat limit) rows)"
    by (simp only: recent_def Let_def P)
qed


definition sample_event :: usage_event where
  "sample_event = \<lparr>ue_key_id = ''k1'', ue_customer = ''acme'', ue_route = ''/v1/completions'', ue_model = ''m'',
     ue_prompt = 3, ue_completion = 4, ue_exact = True, ue_status = 200, ue_latency_ms = Fin 1, ue_request_id = []\<rparr>"

definition sample_ledger :: ledger where
  "sample_ledger = ledger_after [(''2026-03-01'', sample_event),
     (''2026-03-02'', sample_event\<lparr>ue_exact := False\<rparr>), (''2026-03-03'', sample_event\<lparr>ue_key_id := ''k2''\<rparr>)]"

theorem invoice_lines_witness:
  "map us_calls (usage_summaries None None sample_ledger) = [2, 1]
   \<and> us_estimated (hd (usage_summaries None None sample_ledger)) = 7
   \<and> us_estimated (hd (usage_summaries None None sample_ledger)) \<le> summary_total (hd (usage_summaries None None sample_ledger))"
proof (intro conjI)
  show "map us_calls (usage_summaries None None sample_ledger) = [2, 1]" by code_simp
  have "list_all nonneg_row sample_ledger" by code_simp
  moreover have "hd (usage_summaries None None sample_ledger) \<in> set (usage_summaries None None sample_ledger)"
  proof (rule hd_in_set)
    have "map us_calls (usage_summaries None None sample_ledger) = [2, 1]" by code_simp
    then show "usage_summaries None None sample_ledger \<noteq> []" by auto
  qed
  ultimately show "us_estimated (hd (usage_summaries None None sample_ledger)) \<le> summary_total (hd (usage_summaries None None sample_ledger))"
    using invoice_lines [of None None sample_ledger] by blast
  show "us_estimated (hd (usage_summaries None None sample_ledger)) = 7" by code_simp
qed

end
