(* ===== verification/Gateway.thy ===== *)
theory Gateway
  imports Tenancy Usage LlmProxy
begin

text \<open>
  The gateway's own decisions (\<open>src/repercep/serving/app.py\<close>, the closures of \<open>create_app\<close>):
  who a bearer credential is, whether the caller has quota left, what is written to the ledger
  for a proxied call, and the month-to-date report. The key store, the shared token and the
  ledger may each be absent.
\<close>

section \<open>Authentication\<close>

record gateway =
  gw_keys :: "key_table option"
  gw_token :: "string option"
  gw_ledger :: "ledger option"

definition anonymous :: principal where
  "anonymous = \<lparr>p_key_id = ''anonymous'', p_customer = ''anonymous'', p_label = [], p_quota = None\<rparr>"

definition legacy :: principal where
  "legacy = \<lparr>p_key_id = legacy_key_id, p_customer = ''legacy'', p_label = [], p_quota = None\<rparr>"

definition is_ascii :: "string \<Rightarrow> bool" where
  "is_ascii s \<longleftrightarrow> list_all (\<lambda>c. (of_char c :: nat) < 128) s"

text \<open>\<open>hmac.compare_digest\<close> on \<open>str\<close> takes ASCII strings only.\<close>

definition compare_digest :: "string \<Rightarrow> string \<Rightarrow> exn + bool" where
  "compare_digest a b =
     (if is_ascii a \<and> is_ascii b then Inr (a = b)
      else Inl (OtherException ''comparing strings with non-ASCII characters is not supported''))"

definition resolve :: "(string \<Rightarrow> string) \<Rightarrow> gateway \<Rightarrow> string option \<Rightarrow> exn + principal option" where
  "resolve hash_key gw bearer =
     (if gw_keys gw = None \<and> gw_token gw = None then Inr (Some anonymous)
      else case bearer of
        None \<Rightarrow> Inr None
      | Some b \<Rightarrow>
          (case Option.bind (gw_keys gw) (\<lambda>t. authenticate hash_key t b) of
             Some who \<Rightarrow> Inr (Some who)
           | None \<Rightarrow>
               (case gw_token gw of
                  None \<Rightarrow> Inr None
                | Some token \<Rightarrow>
                    (case compare_digest b token of
                       Inl e \<Rightarrow> Inl e
                     | Inr eq \<Rightarrow> Inr (if eq then Some legacy else None)))))"

definition check_quota :: "gateway \<Rightarrow> datetime \<Rightarrow> principal \<Rightarrow> exn option" where
  "check_quota gw now p =
     (case (p_quota p, gw_ledger gw) of
        (Some quota, Some l) \<Rightarrow>
          (case tokens_since (Some (p_key_id p)) None (month_start now) l of
             Inl e \<Rightarrow> Some e
           | Inr spent \<Rightarrow>
               if quota \<le> spent
               then Some (HTTPException 429 (''monthly token quota exhausted ('' @ int_str spent
                      @ ''/'' @ int_str quota @ '')''))
               else None)
      | _ \<Rightarrow> None)"

definition bearer_of :: "string option \<Rightarrow> string option" where
  "bearer_of authorization =
     (case authorization of
        None \<Rightarrow> None
      | Some a \<Rightarrow> if startswith a ''Bearer '' then Some (removeprefix a ''Bearer '') else None)"

definition unauthorized :: exn where
  "unauthorized = HTTPException 401 ''missing or invalid bearer token''"

definition require_api_token ::
  "(string \<Rightarrow> string) \<Rightarrow> gateway \<Rightarrow> datetime \<Rightarrow> string option \<Rightarrow> exn + principal"
where
  "require_api_token hash_key gw now authorization =
     (case resolve hash_key gw (bearer_of authorization) of
        Inl e \<Rightarrow> Inl e
      | Inr None \<Rightarrow> Inl unauthorized
      | Inr (Some p) \<Rightarrow> (case check_quota gw now p of Some e \<Rightarrow> Inl e | None \<Rightarrow> Inr p))"

section \<open>Metering\<close>

text \<open>The sink: the principal is the one the request was authenticated as.\<close>

definition event_of :: "principal \<Rightarrow> call_record \<Rightarrow> usage_event" where
  "event_of p c = \<lparr>ue_key_id = p_key_id p, ue_customer = p_customer p, ue_route = cr_route c,
     ue_model = cr_model c, ue_prompt = cr_prompt c, ue_completion = cr_completion c,
     ue_exact = cr_exact c, ue_status = cr_status c, ue_latency_ms = cr_latency_ms c, ue_request_id = []\<rparr>"

definition record_call :: "datetime \<Rightarrow> principal option \<Rightarrow> call_record \<Rightarrow> gateway \<Rightarrow> exn option \<times> gateway" where
  "record_call now who c gw =
     (case gw_ledger gw of
        None \<Rightarrow> (None, gw)
      | Some l \<Rightarrow>
          (case record_usage (isoformat now) (event_of (case who of None \<Rightarrow> anonymous | Some p \<Rightarrow> p) c) l of
             Inl e \<Rightarrow> (Some e, gw)
           | Inr l' \<Rightarrow> (None, gw\<lparr>gw_ledger := Some l'\<rparr>)))"

record usage_report =
  up_key_id :: string
  up_since :: string
  up_metered :: bool
  up_customer :: string
  up_calls :: int
  up_prompt :: int
  up_completion :: int
  up_total :: int
  up_estimated :: int
  up_quota :: "int option"

text \<open>\<open>GET /v1/usage\<close>; without a ledger only the first three fields are in the answer.\<close>

definition usage_endpoint :: "datetime \<Rightarrow> principal \<Rightarrow> gateway \<Rightarrow> usage_report" where
  "usage_endpoint now p gw =
     (let since = month_start now;
          base = \<lparr>up_key_id = p_key_id p, up_since = since, up_metered = gw_ledger gw \<noteq> None,
                  up_customer = p_customer p, up_calls = 0, up_prompt = 0, up_completion = 0,
                  up_total = 0, up_estimated = 0, up_quota = p_quota p\<rparr>
      in case gw_ledger gw of
           None \<Rightarrow> base
         | Some l \<Rightarrow>
             (case filter (\<lambda>s. us_key_id s = p_key_id p) (usage_summaries (Some since) None l) of
                [] \<Rightarrow> base
              | s # _ \<Rightarrow> base\<lparr>up_calls := us_calls s, up_prompt := us_prompt s,
                  up_completion := us_completion s, up_total := summary_total s, up_estimated := us_estimated s\<rparr>))"

section \<open>Calls in flight\<close>

text \<open>
  Calls arrive, are admitted, and are billed when they finish. The state is the gateway and the
  principals of the calls in flight; the failure of a sink is dropped by the proxy.
\<close>

datatype gw_op = Arrive datetime "string option" | Finish datetime nat call_record

datatype gw_event = Admitted principal | Rejected exn | Billed principal | NoSuchCall

type_synonym gw_state = "gateway \<times> principal list"

fun gw_step :: "(string \<Rightarrow> string) \<Rightarrow> gw_state \<Rightarrow> gw_op \<Rightarrow> gw_state \<times> gw_event" where
  "gw_step hash_key (gw, fl) (Arrive now authorization) =
     (case require_api_token hash_key gw now authorization of
        Inl e \<Rightarrow> ((gw, fl), Rejected e)
      | Inr p \<Rightarrow> ((gw, fl @ [p]), Admitted p))"
| "gw_step hash_key (gw, fl) (Finish now i c) =
     (if i < length fl
      then ((snd (record_call now (Some (fl ! i)) c gw), take i fl @ drop (Suc i) fl), Billed (fl ! i))
      else ((gw, fl), NoSuchCall))"


section \<open>Who gets in\<close>

definition spent_of :: "string \<Rightarrow> string \<Rightarrow> ledger \<Rightarrow> int" where
  "spent_of kid since l = sum_of row_total (filter (\<lambda>r. ue_key_id (ur_event r) = kid \<and> text_le since (ur_ts r)) l)"

lemma tokens_since_spent: "tokens_since (Some kid) None since l = Inr (spent_of kid since l)"
  by (simp add: tokens_since_key spent_of_def)

lemma check_quota_None_iff:
  "check_quota gw now p = None \<longleftrightarrow>
     (\<forall>q l. p_quota p = Some q \<longrightarrow> gw_ledger gw = Some l \<longrightarrow> spent_of (p_key_id p) (month_start now) l < q)"
  by (auto simp: check_quota_def tokens_since_spent split: option.splits)

lemma bearer_of_Some: "bearer_of a = Some k \<longleftrightarrow> a = Some (''Bearer '' @ k)"
proof
  assume b: "bearer_of a = Some k"
  then obtain s where "a = Some s" "startswith s ''Bearer ''" "k = removeprefix s ''Bearer ''"
    by (auto simp: bearer_of_def split: option.splits if_splits)
  moreover from this(2) obtain u where "s = ''Bearer '' @ u"
    unfolding startswith_prefix by (rule prefixE)
  ultimately show "a = Some (''Bearer '' @ k)" by (simp only: removeprefix_append)
next
  assume "a = Some (''Bearer '' @ k)"
  then show "bearer_of a = Some k"
    unfolding bearer_of_def by (simp only: option.case startswith_append removeprefix_append if_True)
qed

lemma check_quota_legacy [simp]: "check_quota gw now legacy = None"
  by (simp add: check_quota_def legacy_def)

lemma resolve_Some:
  assumes "gw_keys gw \<noteq> None \<or> gw_token gw \<noteq> None"
  shows "resolve h gw b = Inr (Some p) \<longleftrightarrow>
    (\<exists>k. b = Some k \<and>
      (Option.bind (gw_keys gw) (\<lambda>t. authenticate h t k) = Some p \<or>
       Option.bind (gw_keys gw) (\<lambda>t. authenticate h t k) = None \<and> gw_token gw = Some k \<and> is_ascii k \<and> p = legacy))"
  using assms by (auto simp: resolve_def compare_digest_def split: option.splits)

lemma require_Inr:
  "require_api_token h gw now a = Inr p \<longleftrightarrow>
     resolve h gw (bearer_of a) = Inr (Some p) \<and> check_quota gw now p = None"
  by (auto simp: require_api_token_def split: sum.splits option.splits)

text \<open>C23: Who is admitted. With a key store or a shared token configured, a request is admitted as
  \<open>p\<close> exactly if its \<open>Authorization\<close> header is \<open>Bearer\<close> and a credential that is either a live
  key of \<open>p\<close> with quota left in the month, or, when it is no live key, the shared token, and
  then \<open>p\<close> is the legacy principal.\<close>

theorem admission_is_exact:
  assumes "gw_keys gw \<noteq> None \<or> gw_token gw \<noteq> None"
  shows "require_api_token h gw now authorization = Inr p \<longleftrightarrow>
    (\<exists>k. authorization = Some (''Bearer '' @ k) \<and>
      ((\<exists>t. gw_keys gw = Some t \<and> authenticate h t k = Some p
          \<and> (\<forall>q l. p_quota p = Some q \<longrightarrow> gw_ledger gw = Some l \<longrightarrow>
               spent_of (p_key_id p) (month_start now) l < q)) \<or>
       ((\<forall>t. gw_keys gw = Some t \<longrightarrow> authenticate h t k = None)
          \<and> gw_token gw = Some k \<and> is_ascii k \<and> p = legacy)))"
proof -
  have bind: "Option.bind (gw_keys gw) f = Some p \<longleftrightarrow> (\<exists>t. gw_keys gw = Some t \<and> f t = Some p)" for f
    by (cases "gw_keys gw") auto
  have bind': "Option.bind (gw_keys gw) f = None \<longleftrightarrow> (\<forall>t. gw_keys gw = Some t \<longrightarrow> f t = None)" for f
    by (cases "gw_keys gw") auto
  show ?thesis
    unfolding require_Inr resolve_Some [OF assms] bearer_of_Some bind bind'
    using check_quota_None_iff [of gw now p] check_quota_legacy [of gw now] by blast
qed

text \<open>A credential with a character outside ASCII is not refused with 401. When a shared token
  is configured and the credential is no live key, the comparison raises a \<open>TypeError\<close>, which
  no handler turns into an HTTP answer.\<close>

theorem non_ascii_bearer_raises:
  assumes "gw_token gw = Some token" and "\<not> is_ascii k"
    and "\<forall>t. gw_keys gw = Some t \<longrightarrow> authenticate h t k = None"
  shows "require_api_token h gw now (Some (''Bearer '' @ k))
    = Inl (OtherException ''comparing strings with non-ASCII characters is not supported'')"
proof -
  have "bearer_of (Some (''Bearer '' @ k)) = Some k" by (simp only: bearer_of_Some)
  moreover have "Option.bind (gw_keys gw) (\<lambda>t. authenticate h t k) = None"
    using assms(3) by (cases "gw_keys gw") simp_all
  ultimately show ?thesis
    using assms(1,2) by (simp only: require_api_token_def) (simp add: resolve_def compare_digest_def)
qed


section \<open>How far a quota can be overshot\<close>

definition same_month :: "datetime \<Rightarrow> datetime \<Rightarrow> bool" where
  "same_month ref d \<longleftrightarrow> datetime_ok d \<and> dt_year d = dt_year ref \<and> dt_month d = dt_month ref"

definition in_flight :: "string \<Rightarrow> gw_state \<Rightarrow> nat" where
  "in_flight kid st = length (filter (\<lambda>p. p_key_id p = kid) (snd st))"

text \<open>All of a run lies in one month, no call costs more than \<open>B\<close>, and at most \<open>n\<close> calls of the
  key are in flight at a time.\<close>

fun op_ok :: "datetime \<Rightarrow> int \<Rightarrow> gw_op \<Rightarrow> bool" where
  "op_ok ref B (Arrive now a) = same_month ref now"
| "op_ok ref B (Finish now i c) = (same_month ref now \<and> cr_prompt c + cr_completion c \<le> B)"

fun concurrency_ok :: "(string \<Rightarrow> string) \<Rightarrow> string \<Rightarrow> nat \<Rightarrow> gw_state \<Rightarrow> gw_op list \<Rightarrow> bool" where
  "concurrency_ok h kid n st [] = True"
| "concurrency_ok h kid n st (x # xs) =
     (in_flight kid (fst (gw_step h st x)) \<le> n \<and> concurrency_ok h kid n (fst (gw_step h st x)) xs)"

definition gw_spent :: "string \<Rightarrow> string \<Rightarrow> gateway \<Rightarrow> int" where
  "gw_spent kid since gw = (case gw_ledger gw of None \<Rightarrow> 0 | Some l \<Rightarrow> spent_of kid since l)"

definition quota_inv :: "string \<Rightarrow> int \<Rightarrow> datetime \<Rightarrow> int \<Rightarrow> nat \<Rightarrow> gw_state \<Rightarrow> bool" where
  "quota_inv kid q ref B n st \<longleftrightarrow>
     (\<exists>t row. gw_keys (fst st) = Some t \<and> select_key t kid = Some row \<and> k_quota (row_rec row) = Some q)
     \<and> gw_ledger (fst st) \<noteq> None
     \<and> gw_spent kid (month_start ref) (fst st) + B * int (in_flight kid st) \<le> q - 1 + B * int n"

lemma month_start_same: "same_month ref d \<Longrightarrow> month_start d = month_start ref"
  by (rule month_start_eq) (simp_all add: same_month_def)

lemma text_le_same_month:
  "same_month ref d \<Longrightarrow> datetime_ok ref \<Longrightarrow> text_le (month_start ref) (isoformat d)"
  by (simp add: same_month_def month_window)

lemma admitted_spent:
  assumes "require_api_token h gw now a = Inr p" "p_key_id p = kid"
    and "gw_keys gw = Some t" "select_key t kid = Some row" "k_quota (row_rec row) = Some q"
    and "gw_ledger gw \<noteq> None" "kid \<noteq> legacy_key_id"
  shows "gw_spent kid (month_start now) gw < q"
proof -
  from assms(1) have r: "resolve h gw (bearer_of a) = Inr (Some p)" "check_quota gw now p = None"
    by (simp_all add: require_Inr)
  with assms(3) obtain k where "authenticate h t k = Some p \<or> p = legacy"
    using resolve_Some [of gw h "bearer_of a" p] by auto
  moreover have "p \<noteq> legacy" using assms(2,7) by (auto simp: legacy_def)
  ultimately obtain kid' r' where r': "select_key t kid' = Some r'" "p = principal_of (row_rec r')"
    by (auto elim: authenticate_SomeD)
  with assms(2) select_key_row_id [OF r'(1)] have "kid' = kid"
    by (simp add: principal_of_def row_id_def)
  with r' assms(4,5) have "p_quota p = Some q" by (simp add: principal_of_def)
  moreover from assms(6) obtain l where l: "gw_ledger gw = Some l" by auto
  ultimately have "spent_of kid (month_start now) l < q"
    using r(2) assms(2) unfolding check_quota_None_iff by blast
  then show ?thesis by (simp add: gw_spent_def l)
qed

lemma record_call_cases:
  assumes "gw_ledger gw = Some l"
  obtains "snd (record_call now (Some p) c gw) = gw"
  | "snd (record_call now (Some p) c gw) = gw\<lparr>gw_ledger := Some (l @ [\<lparr>ur_id = int (length l) + 1,
       ur_ts = isoformat now, ur_event = event_of p c\<rparr>])\<rparr>"
proof (cases "record_usage (isoformat now) (event_of p c) l")
  case (Inl e)
  with assms show thesis by (intro that(1)) (simp add: record_call_def)
next
  case (Inr l')
  with assms record_usage_Inr [OF Inr] show thesis by (intro that(2)) (simp add: record_call_def)
qed

lemma in_flight_remove:
  "i < length fl \<Longrightarrow> p_key_id (fl ! i) = kid \<Longrightarrow>
     int (in_flight kid (gw', take i fl @ drop (Suc i) fl)) = int (in_flight kid (gw, fl)) - 1"
  "i < length fl \<Longrightarrow> p_key_id (fl ! i) \<noteq> kid \<Longrightarrow>
     in_flight kid (gw', take i fl @ drop (Suc i) fl) = in_flight kid (gw, fl)"
proof -
  assume "i < length fl"
  then have "filter (\<lambda>p. p_key_id p = kid) fl = filter (\<lambda>p. p_key_id p = kid) (take i fl @ fl ! i # drop (Suc i) fl)"
    by (simp add: id_take_nth_drop [symmetric])
  note eq = arg_cong [OF this, of length]
  show "p_key_id (fl ! i) = kid \<Longrightarrow>
     int (in_flight kid (gw', take i fl @ drop (Suc i) fl)) = int (in_flight kid (gw, fl)) - 1"
    using eq by (simp add: in_flight_def)
  show "p_key_id (fl ! i) \<noteq> kid \<Longrightarrow>
     in_flight kid (gw', take i fl @ drop (Suc i) fl) = in_flight kid (gw, fl)"
    using eq by (simp add: in_flight_def)
qed

lemma gw_spent_record:
  assumes "gw_ledger gw = Some l" "same_month ref now" "datetime_ok ref"
    and "cr_prompt c + cr_completion c \<le> B" "0 \<le> B"
  shows "gw_spent kid (month_start ref) (snd (record_call now (Some p) c gw))
    \<le> gw_spent kid (month_start ref) gw + (if p_key_id p = kid then B else 0)"
proof (cases rule: record_call_cases [OF assms(1), where now = now and p = p and c = c])
  case 1
  with assms(5) show ?thesis by simp
next
  case 2
  with assms text_le_same_month [OF assms(2,3)] show ?thesis
    by (simp add: gw_spent_def spent_of_def row_total_def event_total_def event_of_def)
qed

lemma record_call_frame:
  assumes "gw_ledger gw = Some l"
  shows "gw_keys (snd (record_call now (Some p) c gw)) = gw_keys gw"
    "gw_ledger (snd (record_call now (Some p) c gw)) \<noteq> None"
  by (cases rule: record_call_cases [OF assms, where now = now and p = p and c = c]; use assms in simp)+

lemma gw_step_quota:
  assumes "quota_inv kid q ref B n st" "op_ok ref B x" "datetime_ok ref" "0 \<le> B"
    and "in_flight kid (fst (gw_step h st x)) \<le> n" "kid \<noteq> legacy_key_id"
  shows "quota_inv kid q ref B n (fst (gw_step h st x))"
proof -
  obtain gw fl where st: "st = (gw, fl)" by (cases st)
  from assms(1) obtain t row l where k: "gw_keys gw = Some t" "select_key t kid = Some row"
      "k_quota (row_rec row) = Some q" and l: "gw_ledger gw = Some l"
    and le: "gw_spent kid (month_start ref) gw + B * int (in_flight kid (gw, fl)) \<le> q - 1 + B * int n"
    by (auto simp: quota_inv_def st)
  show ?thesis
  proof (cases x)
    case (Arrive now a)
    with assms(2) have m: "month_start now = month_start ref" by (simp add: month_start_same)
    show ?thesis
    proof (cases "require_api_token h gw now a")
      case (Inl e)
      with assms(1) show ?thesis by (simp add: st Arrive)
    next
      case (Inr p)
      have "gw_spent kid (month_start ref) gw + B * int (in_flight kid (gw, fl @ [p])) \<le> q - 1 + B * int n"
      proof (cases "p_key_id p = kid")
        case True
        from admitted_spent [OF Inr True k] l assms(6) m have "gw_spent kid (month_start ref) gw \<le> q - 1"
          by simp
        moreover have "B * int (in_flight kid (gw, fl @ [p])) \<le> B * int n"
          using assms(4,5) Inr by (intro mult_left_mono) (simp_all add: st Arrive)
        ultimately show ?thesis by linarith
      next
        case False
        with le show ?thesis by (simp add: in_flight_def)
      qed
      with k l show ?thesis by (simp add: quota_inv_def st Arrive Inr)
    qed
  next
    case (Finish now i c)
    show ?thesis
    proof (cases "i < length fl")
      case True
      let ?gw = "snd (record_call now (Some (fl ! i)) c gw)"
      from assms(2) Finish have s: "same_month ref now" "cr_prompt c + cr_completion c \<le> B" by simp_all
      note sp = gw_spent_record [OF l s(1) assms(3) s(2) assms(4), of kid "fl ! i"]
      have "gw_spent kid (month_start ref) ?gw + B * int (in_flight kid (?gw, take i fl @ drop (Suc i) fl))
          \<le> q - 1 + B * int n"
      proof (cases "p_key_id (fl ! i) = kid")
        case same: True
        have "B * int (in_flight kid (?gw, take i fl @ drop (Suc i) fl)) = B * int (in_flight kid (gw, fl)) - B"
          unfolding in_flight_remove(1) [OF True same, of ?gw gw] by (simp add: right_diff_distrib)
        moreover from sp same have "gw_spent kid (month_start ref) ?gw \<le> gw_spent kid (month_start ref) gw + B"
          by simp
        ultimately show ?thesis using le by linarith
      next
        case other: False
        with sp le in_flight_remove(2) [OF True other, of ?gw gw] show ?thesis by simp
      qed
      with k record_call_frame [OF l, of now "fl ! i" c] True show ?thesis
        by (auto simp: quota_inv_def st Finish)
    next
      case False
      with assms(1) show ?thesis by (simp add: st Finish)
    qed
  qed
qed

lemma run_quota:
  assumes "datetime_ok ref" "0 \<le> B" "kid \<noteq> legacy_key_id"
  shows "quota_inv kid q ref B n st \<Longrightarrow> list_all (op_ok ref B) ops \<Longrightarrow> concurrency_ok h kid n st ops \<Longrightarrow>
    quota_inv kid q ref B n (fst (run_trace (gw_step h) st ops))"
proof (induction ops arbitrary: st)
  case (Cons x ops)
  then have "quota_inv kid q ref B n (fst (gw_step h st x))"
    by (intro gw_step_quota assms) simp_all
  with Cons show ?case by (simp add: run_trace_simps)
qed simp

text \<open>C10: The bound on overshooting a quota. Within a month, if no call costs more than \<open>B\<close> tokens
  and never more than \<open>n\<close> calls of a key are in flight together, the key ends at most \<open>n\<close> times
  \<open>B\<close> tokens beyond the last unit of its quota, whatever the other callers do.\<close>

theorem quota_overshoot_is_bounded:
  assumes "gw_keys gw = Some t" "select_key t kid = Some row" "k_quota (row_rec row) = Some q"
    and "gw_ledger gw = Some l" "spent_of kid (month_start ref) l < q" "kid \<noteq> legacy_key_id"
    and "datetime_ok ref" "0 \<le> B" "list_all (op_ok ref B) ops" "concurrency_ok h kid n (gw, []) ops"
    and "fst (run_trace (gw_step h) (gw, []) ops) = (gw', fl)" "gw_ledger gw' = Some l'"
    and "tokens_since (Some kid) None (month_start ref) l' = Inr spent"
  shows "spent \<le> q - 1 + B * int n"
proof -
  have "quota_inv kid q ref B n (gw, [])"
    using assms by (simp add: quota_inv_def gw_spent_def in_flight_def add_increasing2)
  from run_quota [OF assms(7,8,6) this assms(9,10)]
  have "gw_spent kid (month_start ref) gw' + B * int (in_flight kid (gw', fl)) \<le> q - 1 + B * int n"
    by (simp add: quota_inv_def assms(11))
  moreover have "gw_spent kid (month_start ref) gw' = spent"
    using assms(12,13) by (simp add: gw_spent_def tokens_since_spent)
  moreover have "0 \<le> B * int (in_flight kid (gw', fl))" using assms(8) by simp
  ultimately show ?thesis by linarith
qed


text \<open>A burst: \<open>n\<close> calls of the same caller arrive before the first of them finishes.\<close>

lemma run_arrivals:
  "require_api_token h gw now a = Inr p \<Longrightarrow>
    fst (run_trace (gw_step h) (gw, fl) (replicate n (Arrive now a))) = (gw, fl @ replicate n p)"
  by (induction n arbitrary: fl) (simp_all add: run_trace_simps)

lemma run_finishes:
  assumes "sql_int_ok (cr_prompt c)" "sql_int_ok (cr_completion c)" "sql_int_ok (cr_status c)"
    "cr_latency_ms c \<noteq> NotANumber" "text_le since (isoformat now)"
  shows "gw_ledger gw = Some l \<Longrightarrow> \<exists>gw' l'. fst (run_trace (gw_step h) (gw, replicate n p) (replicate n (Finish now 0 c)))
      = (gw', []) \<and> gw_ledger gw' = Some l'
    \<and> spent_of (p_key_id p) since l' = spent_of (p_key_id p) since l + int n * (cr_prompt c + cr_completion c)"
proof (induction n arbitrary: gw l)
  case (Suc n)
  let ?l1 = "l @ [\<lparr>ur_id = int (length l) + 1, ur_ts = isoformat now, ur_event = event_of p c\<rparr>]"
  let ?gw1 = "gw\<lparr>gw_ledger := Some ?l1\<rparr>"
  have "snd (record_call now (Some p) c gw) = ?gw1"
    using assms Suc.prems by (simp add: record_call_def record_usage_def event_of_def)
  then have step: "fst (gw_step h (gw, replicate (Suc n) p) (Finish now 0 c)) = (?gw1, replicate n p)"
    by simp
  have "spent_of (p_key_id p) since ?l1 = spent_of (p_key_id p) since l + (cr_prompt c + cr_completion c)"
    using assms(5) by (simp add: spent_of_def row_total_def event_total_def event_of_def)
  with Suc.IH [of ?gw1 ?l1] step show ?case
    by (simp add: run_trace_simps algebra_simps)
qed simp

text \<open>The quota does not bound concurrent calls. If a key has quota left, then \<open>n\<close> calls of it that
  arrive before the first one finishes are all admitted, whatever they will cost together, and
  the month ends with the full cost of all \<open>n\<close> of them on top of what was spent before.\<close>

theorem burst_overshoots_by_all_its_calls:
  assumes "require_api_token h gw now authorization = Inr p" "gw_ledger gw = Some l" "datetime_ok now"
    and "sql_int_ok (cr_prompt c)" "sql_int_ok (cr_completion c)" "sql_int_ok (cr_status c)"
    and "cr_latency_ms c \<noteq> NotANumber"
  shows "\<exists>gw' l'. fst (run_trace (gw_step h) (gw, [])
        (replicate n (Arrive now authorization) @ replicate n (Finish now 0 c))) = (gw', [])
    \<and> gw_ledger gw' = Some l'
    \<and> tokens_since (Some (p_key_id p)) None (month_start now) l' =
        Inr (spent_of (p_key_id p) (month_start now) l + int n * (cr_prompt c + cr_completion c))"
proof -
  have "text_le (month_start now) (isoformat now)" using assms(3) by (simp add: month_window)
  from run_finishes [OF assms(4-7) this assms(2), of h n p] run_arrivals [OF assms(1), of "[]" n]
  show ?thesis by (simp add: run_trace_append tokens_since_spent)
qed

section \<open>The report a customer sees\<close>

lemma at_most_one:
  assumes "distinct (map (\<lambda>s. (f s, g s)) xs)" "\<forall>s \<in> set xs. f s = a \<and> g s = b"
  shows "xs = [] \<or> (\<exists>x. xs = [x])"
proof (cases xs)
  case (Cons x ys)
  with assms show ?thesis by (cases ys) auto
qed simp

text \<open>The report agrees with enforcement. When the rows of a key all name one customer, as they
  do when keys belong to one customer, the total that \<open>/v1/usage\<close> shows is the number of tokens
  the quota check counts, so the next call is refused exactly if the shown total has reached
  the quota.\<close>

theorem report_agrees_with_quota:
  assumes "gw_ledger gw = Some l"
    and "\<forall>r \<in> set l. ue_key_id (ur_event r) = p_key_id p \<longrightarrow> ue_customer (ur_event r) = cust"
  shows "tokens_since (Some (p_key_id p)) None (month_start now) l = Inr (up_total (usage_endpoint now p gw))
    \<and> (check_quota gw now p \<noteq> None \<longleftrightarrow> (\<exists>q. p_quota p = Some q \<and> q \<le> up_total (usage_endpoint now p gw)))"
proof -
  let ?since = "Some (month_start now)"
  let ?xs = "filter (\<lambda>s. us_key_id s = p_key_id p) (usage_summaries ?since None l)"
  have "us_key_id s = p_key_id p \<and> us_customer s = cust" if "s \<in> set ?xs" for s
  proof -
    from that have "(us_key_id s, us_customer s) \<in> (\<lambda>s. (us_key_id s, us_customer s)) ` set (usage_summaries ?since None l)"
      by (intro image_eqI [of _ _ s]) simp_all
    then obtain r where "r \<in> set l" "group_key r = (us_key_id s, us_customer s)"
      unfolding summaries_keys by auto
    moreover from that have "us_key_id s = p_key_id p" by simp
    ultimately show ?thesis using assms(2) by (auto simp: group_key_def)
  qed
  then have "?xs = [] \<or> (\<exists>x. ?xs = [x])"
    by (intro at_most_one [of us_key_id us_customer _ "p_key_id p" cust] distinct_map_filter summaries_distinct ballI) simp
  moreover have "sum_of summary_total ?xs = spent_of (p_key_id p) (month_start now) l"
    using summaries_total [of "\<lambda>g. fst g = p_key_id p" ?since None l]
    by (simp add: selected_def group_key_def spent_of_def conj_commute)
  ultimately have total: "up_total (usage_endpoint now p gw) = spent_of (p_key_id p) (month_start now) l"
    using assms(1) by (auto simp: usage_endpoint_def Let_def)
  then show ?thesis
    using assms(1) check_quota_None_iff [of gw now p] by (auto simp: tokens_since_spent not_less)
qed

section \<open>Witnesses\<close>

definition sample_hash :: "string \<Rightarrow> string" where
  "sample_hash s = rev s"

definition sample_key :: string where
  "sample_key = fst (mint_key sample_random)"

text \<open>A gateway with one key of quota 1, a shared token and a ledger.\<close>

definition sample_gateway :: gateway where
  "sample_gateway = \<lparr>gw_keys = Some (snd (projr (create_key sample_hash sample_random ''t'' ''acme'' ''prod'' (Some 1) []))),
     gw_token = Some ''shared'', gw_ledger = Some []\<rparr>"

definition sample_header :: string where
  "sample_header = ''Bearer '' @ sample_key"

definition sample_principal :: principal where
  "sample_principal = \<lparr>p_key_id = ''1234abff'', p_customer = ''acme'', p_label = ''prod'', p_quota = Some 1\<rparr>"

definition sample_call :: call_record where
  "sample_call = \<lparr>cr_route = ''/v1/completions'', cr_model = [], cr_prompt = 3, cr_completion = 4, cr_exact = True,
     cr_status = 200, cr_latency_ms = Fin 1\<rparr>"

lemma sample_time_ok: "datetime_ok sample_time"
  by (simp add: sample_time_def datetime_ok_def)

lemma sample_admitted: "require_api_token sample_hash sample_gateway sample_time (Some sample_header) = Inr sample_principal"
  by code_simp

theorem admission_is_exact_witness:
  "\<exists>k. Some sample_header = Some (''Bearer '' @ k) \<and>
     ((\<exists>t. gw_keys sample_gateway = Some t \<and> authenticate sample_hash t k = Some sample_principal) \<or> gw_token sample_gateway = Some k)"
proof -
  have "gw_keys sample_gateway \<noteq> None \<or> gw_token sample_gateway \<noteq> None" by (simp add: sample_gateway_def)
  from admission_is_exact [OF this, of sample_hash sample_time "Some sample_header" sample_principal] sample_admitted
  show ?thesis by blast
qed

theorem non_ascii_bearer_raises_witness:
  "require_api_token sample_hash sample_gateway sample_time (Some (''Bearer '' @ [CHR 0xE9]))
     = Inl (OtherException ''comparing strings with non-ASCII characters is not supported'')"
proof (rule non_ascii_bearer_raises)
  show "gw_token sample_gateway = Some ''shared''" by (simp add: sample_gateway_def)
  show "\<not> is_ascii [CHR 0xE9]" by code_simp
  have "parse_key_id [CHR 0xE9] = None" by code_simp
  then show "\<forall>t. gw_keys sample_gateway = Some t \<longrightarrow> authenticate sample_hash t [CHR 0xE9] = None"
    by (simp add: authenticate_select)
qed

definition sample_run :: "gw_op list" where
  "sample_run = [Arrive sample_time (Some sample_header), Finish sample_time 0 sample_call]"

theorem quota_overshoot_is_bounded_witness:
  "tokens_since (Some ''1234abff'') None (month_start sample_time)
      (the (gw_ledger (fst (fst (run_trace (gw_step sample_hash) (sample_gateway, []) sample_run))))) = Inr 7
   \<and> (7 :: int) \<le> 1 - 1 + 7 * int 1"
proof -
  let ?t = "the (gw_keys sample_gateway)"
  let ?last = "fst (run_trace (gw_step sample_hash) (sample_gateway, []) sample_run)"
  let ?l' = "the (gw_ledger (fst ?last))"
  have spent: "tokens_since (Some ''1234abff'') None (month_start sample_time) ?l' = Inr 7" by code_simp
  have "(7 :: int) \<le> 1 - 1 + 7 * int 1"
  proof (rule quota_overshoot_is_bounded [of sample_gateway ?t "''1234abff''" "the (select_key ?t ''1234abff'')"
        1 "[]" sample_time 7 sample_run sample_hash 1 "fst ?last" "snd ?last" ?l' 7])
    show "gw_keys sample_gateway = Some ?t" by (simp add: sample_gateway_def)
    show "select_key ?t ''1234abff'' = Some (the (select_key ?t ''1234abff''))" by code_simp
    show "k_quota (row_rec (the (select_key ?t ''1234abff''))) = Some 1" by code_simp
    show "gw_ledger sample_gateway = Some []" by (simp add: sample_gateway_def)
    show "spent_of ''1234abff'' (month_start sample_time) [] < 1" by (simp add: spent_of_def)
    show "''1234abff'' \<noteq> legacy_key_id" by (simp add: legacy_key_id_def)
    show "datetime_ok sample_time" by (rule sample_time_ok)
    show "list_all (op_ok sample_time 7) sample_run"
      by (simp add: sample_run_def same_month_def sample_time_ok sample_call_def)
    show "concurrency_ok sample_hash ''1234abff'' 1 (sample_gateway, []) sample_run" by code_simp
    show "gw_ledger (fst ?last) = Some ?l'" by code_simp
  qed (simp_all add: spent)
  with spent show ?thesis by blast
qed

theorem burst_overshoots_by_all_its_calls_witness:
  "\<exists>gw' l'. fst (run_trace (gw_step sample_hash) (sample_gateway, [])
        (replicate 5 (Arrive sample_time (Some sample_header)) @ replicate 5 (Finish sample_time 0 sample_call))) = (gw', [])
    \<and> gw_ledger gw' = Some l' \<and> tokens_since (Some ''1234abff'') None (month_start sample_time) l' = Inr 35"
proof -
  have fits: "sql_int_ok (cr_prompt sample_call)" "sql_int_ok (cr_completion sample_call)"
    "sql_int_ok (cr_status sample_call)" "cr_latency_ms sample_call \<noteq> NotANumber" by code_simp+
  have "gw_ledger sample_gateway = Some []" by (simp add: sample_gateway_def)
  from burst_overshoots_by_all_its_calls [OF sample_admitted this sample_time_ok fits, of 5]
  show ?thesis by (simp add: sample_principal_def sample_call_def spent_of_def)
qed

theorem report_agrees_with_quota_witness:
  "up_total (usage_endpoint sample_time sample_principal (sample_gateway\<lparr>gw_ledger := Some [\<lparr>ur_id = 1,
      ur_ts = isoformat sample_time, ur_event = event_of sample_principal sample_call\<rparr>]\<rparr>)) = 7"
proof -
  let ?l = "[\<lparr>ur_id = 1, ur_ts = isoformat sample_time, ur_event = event_of sample_principal sample_call\<rparr>]"
  have "tokens_since (Some (p_key_id sample_principal)) None (month_start sample_time) ?l = Inr 7" by code_simp
  with report_agrees_with_quota [of "sample_gateway\<lparr>gw_ledger := Some ?l\<rparr>" ?l sample_principal "''acme''" sample_time]
  show ?thesis by (simp add: event_of_def sample_principal_def)
qed

end
