(* ===== verification/WorldSession.thy ===== *)
theory WorldSession
  imports Gateway
begin

text \<open>
  The interactive session endpoint (\<open>world_session\<close> in \<open>src/repercep/serving/app.py\<close>) as a state
  machine over all connections. The handler suspends only where it awaits the client or the
  thread pool, so a session is in one of four phases, and a step runs it from one suspension to
  the next: the client's message, timeout or disconnect, the end of an engine call, or the
  cancellation of the task. What becomes of a reply is part of the step: it is sent, or the
  client is gone and the send raises \<open>WebSocketDisconnect\<close>, or the task is cancelled there.
  Engine calls run in the thread pool, which shields the task until the call has returned, so a
  cancellation that comes meanwhile takes effect at the reply. The engine and the two message
  parsers are parameters.
\<close>

section \<open>Sessions\<close>

datatype 'st phase = WaitReset | Resetting | WaitAction 'st | Stepping 'st

datatype ('r, 'a, 'l, 'st) ws_output =
    AcceptConn | CloseConn int | SendError string | SendLatent 'l
  | CallReset 'r | CallStep 'st 'a | CallRelease 'st | Raised exn

datatype send_result = Sent | Gone | CancelledSend

datatype inbound = Text string | Idle | Disconnect

record ('r, 'a) ws_config =
  wc_max :: int
  wc_engine :: bool
  wc_release :: bool
  wc_parse_reset :: "string \<Rightarrow> 'r option"
  wc_parse_action :: "string \<Rightarrow> 'a option"

record 'st ws_server =
  ws_active :: int
  ws_sessions :: "(nat, 'st phase) dict"

text \<open>The credential: the query parameter, else the header when it is a bearer header.\<close>

definition ws_supplied :: "string option \<Rightarrow> string option \<Rightarrow> string option" where
  "ws_supplied token header = (case token of Some t \<Rightarrow> Some t | None \<Rightarrow> bearer_of header)"

definition ws_refused ::
  "(string \<Rightarrow> string) \<Rightarrow> gateway \<Rightarrow> string option \<Rightarrow> string option \<Rightarrow> ('r, 'a, 'l, 'st) ws_output list option"
where
  "ws_refused hash_key gw token header =
     (if gw_token gw = None \<and> gw_keys gw = None then None
      else case resolve hash_key gw (ws_supplied token header) of
        Inl e \<Rightarrow> Some [Raised e]
      | Inr None \<Rightarrow> Some [CloseConn 1008]
      | Inr (Some p) \<Rightarrow> None)"

definition ws_connect ::
  "(string \<Rightarrow> string) \<Rightarrow> gateway \<Rightarrow> ('r, 'a) ws_config \<Rightarrow> nat \<Rightarrow> string option \<Rightarrow> string option \<Rightarrow> 'st ws_server
    \<Rightarrow> 'st ws_server \<times> ('r, 'a, 'l, 'st) ws_output list"
where
  "ws_connect hash_key gw cfg sid token header s =
     (case ws_refused hash_key gw token header of
        Some out \<Rightarrow> (s, out)
      | None \<Rightarrow>
          if \<not> wc_engine cfg then
            (s, [AcceptConn, SendError ''no interactive engine configured'', CloseConn 1008])
          else if wc_max cfg \<le> ws_active s then
            (s, [AcceptConn, SendError ''session capacity reached'', CloseConn 1013])
          else (s\<lparr>ws_active := ws_active s + 1, ws_sessions := (sid, WaitReset) # ws_sessions s\<rparr>, [AcceptConn]))"

text \<open>The \<open>finally\<close> block: the slot is given back, and the state last reached is released.\<close>

definition ws_finally ::
  "('r, 'a) ws_config \<Rightarrow> nat \<Rightarrow> 'st option \<Rightarrow> 'st ws_server \<Rightarrow> ('r, 'a, 'l, 'st) ws_output list
    \<Rightarrow> 'st ws_server \<times> ('r, 'a, 'l, 'st) ws_output list"
where
  "ws_finally cfg sid opened s out =
     (s\<lparr>ws_active := ws_active s - 1, ws_sessions := AList.delete sid (ws_sessions s)\<rparr>,
      out @ (case opened of None \<Rightarrow> [] | Some st \<Rightarrow> if wc_release cfg then [CallRelease st] else []))"

definition set_phase :: "nat \<Rightarrow> 'st phase \<Rightarrow> 'st ws_server \<Rightarrow> 'st ws_server" where
  "set_phase sid ph s = s\<lparr>ws_sessions := AList.update sid ph (ws_sessions s)\<rparr>"

text \<open>What a send raises.\<close>

fun send_error :: "send_result \<Rightarrow> exn option" where
  "send_error Sent = None"
| "send_error Gone = Some (OtherException ''WebSocketDisconnect'')"
| "send_error CancelledSend = Some (OtherException ''CancelledError'')"

text \<open>Inside the session loop a \<open>WebSocketDisconnect\<close> is caught, a cancellation is not.\<close>

fun uncaught :: "send_result \<Rightarrow> ('r, 'a, 'l, 'st) ws_output list" where
  "uncaught CancelledSend = [Raised (OtherException ''CancelledError'')]"
| "uncaught _ = []"

text \<open>What the client sent, or did not; \<open>sent\<close> is the fate of an error reply.\<close>

definition ws_receive ::
  "('r, 'a) ws_config \<Rightarrow> nat \<Rightarrow> inbound \<Rightarrow> send_result \<Rightarrow> 'st ws_server
    \<Rightarrow> 'st ws_server \<times> ('r, 'a, 'l, 'st) ws_output list"
where
  "ws_receive cfg sid msg sent s =
     (case map_of (ws_sessions s) sid of
        Some WaitReset \<Rightarrow>
          (case msg of
             Idle \<Rightarrow> ws_finally cfg sid None s [CloseConn 1001]
           | Disconnect \<Rightarrow> ws_finally cfg sid None s []
           | Text raw \<Rightarrow>
               (case wc_parse_reset cfg raw of
                  None \<Rightarrow> ws_finally cfg sid None s
                    (case send_error sent of
                       None \<Rightarrow> [SendError ''first message must be a ResetRequest'', CloseConn 1008]
                     | Some e \<Rightarrow> [Raised e])
                | Some r \<Rightarrow> (set_phase sid Resetting s, [CallReset r])))
      | Some (WaitAction st) \<Rightarrow>
          (case msg of
             Idle \<Rightarrow> ws_finally cfg sid (Some st) s [CloseConn 1001]
           | Disconnect \<Rightarrow> ws_finally cfg sid (Some st) s []
           | Text raw \<Rightarrow>
               (case wc_parse_action cfg raw of
                  None \<Rightarrow> if sent = Sent then (s, [SendError ''invalid action''])
                    else ws_finally cfg sid (Some st) s (uncaught sent)
                | Some a \<Rightarrow> (set_phase sid (Stepping st) s, [CallStep st a])))
      | _ \<Rightarrow> (s, []))"

text \<open>The end of \<open>engine.reset\<close>. The acknowledgement is sent outside the inner \<open>try\<close>.\<close>

definition ws_reset_done ::
  "('r, 'a) ws_config \<Rightarrow> 'l \<Rightarrow> nat \<Rightarrow> exn + 'st \<Rightarrow> send_result \<Rightarrow> 'st ws_server
    \<Rightarrow> 'st ws_server \<times> ('r, 'a, 'l, 'st) ws_output list"
where
  "ws_reset_done cfg ack sid res sent s =
     (case map_of (ws_sessions s) sid of
        Some Resetting \<Rightarrow>
          (case res of
             Inl e \<Rightarrow> ws_finally cfg sid None s [Raised e]
           | Inr st \<Rightarrow>
               (case send_error sent of
                  None \<Rightarrow> (set_phase sid (WaitAction st) s, [SendLatent ack])
                | Some e \<Rightarrow> ws_finally cfg sid (Some st) s [Raised e]))
      | _ \<Rightarrow> (s, []))"

text \<open>The end of \<open>engine.step\<close>; on an exception the state is still the one before the step.\<close>

definition ws_step_done ::
  "('r, 'a) ws_config \<Rightarrow> nat \<Rightarrow> exn + 'st \<times> 'l \<Rightarrow> send_result \<Rightarrow> 'st ws_server
    \<Rightarrow> 'st ws_server \<times> ('r, 'a, 'l, 'st) ws_output list"
where
  "ws_step_done cfg sid res sent s =
     (case map_of (ws_sessions s) sid of
        Some (Stepping st) \<Rightarrow>
          (case res of
             Inl e \<Rightarrow> ws_finally cfg sid (Some st) s [Raised e]
           | Inr (st', l) \<Rightarrow> if sent = Sent then (set_phase sid (WaitAction st') s, [SendLatent l])
               else ws_finally cfg sid (Some st') s (uncaught sent))
      | _ \<Rightarrow> (s, []))"

text \<open>The task is cancelled while it waits for the client.\<close>

definition ws_cancel ::
  "('r, 'a) ws_config \<Rightarrow> nat \<Rightarrow> 'st ws_server \<Rightarrow> 'st ws_server \<times> ('r, 'a, 'l, 'st) ws_output list"
where
  "ws_cancel cfg sid s =
     (case map_of (ws_sessions s) sid of
        Some WaitReset \<Rightarrow> ws_finally cfg sid None s (uncaught CancelledSend)
      | Some (WaitAction st) \<Rightarrow> ws_finally cfg sid (Some st) s (uncaught CancelledSend)
      | _ \<Rightarrow> (s, []))"

section \<open>The machine\<close>

datatype ('l, 'st) ws_op =
    Connect nat "string option" "string option"
  | Receive nat inbound send_result
  | ResetDone nat "exn + 'st" send_result
  | StepDone nat "exn + 'st \<times> 'l" send_result
  | CancelTask nat

text \<open>A connection gets an id no open connection has.\<close>

fun ws_step ::
  "(string \<Rightarrow> string) \<Rightarrow> gateway \<Rightarrow> ('r, 'a) ws_config \<Rightarrow> 'l \<Rightarrow> 'st ws_server \<Rightarrow> ('l, 'st) ws_op
    \<Rightarrow> 'st ws_server \<times> ('r, 'a, 'l, 'st) ws_output list"
where
  "ws_step h gw cfg ack s (Connect sid token header) =
     (if map_of (ws_sessions s) sid \<noteq> None then (s, []) else ws_connect h gw cfg sid token header s)"
| "ws_step h gw cfg ack s (Receive sid msg sent) = ws_receive cfg sid msg sent s"
| "ws_step h gw cfg ack s (ResetDone sid res sent) = ws_reset_done cfg ack sid res sent s"
| "ws_step h gw cfg ack s (StepDone sid res sent) = ws_step_done cfg sid res sent s"
| "ws_step h gw cfg ack s (CancelTask sid) = ws_cancel cfg sid s"

definition ws_init :: "'st ws_server" where
  "ws_init = \<lparr>ws_active = 0, ws_sessions = []\<rparr>"


section \<open>Slots and engine sessions\<close>

definition ws_inv :: "('r, 'a) ws_config \<Rightarrow> 'st ws_server \<Rightarrow> bool" where
  "ws_inv cfg s \<longleftrightarrow> ws_active s = int (length (ws_sessions s)) \<and> distinct (map fst (ws_sessions s))
     \<and> ws_active s \<le> max 0 (wc_max cfg)"

fun holds :: "'st phase \<Rightarrow> bool" where
  "holds WaitReset = False"
| "holds Resetting = False"
| "holds (WaitAction st) = True"
| "holds (Stepping st) = True"

text \<open>The sessions that hold engine state, and the effect of an operation on that set.\<close>

definition holding :: "(nat \<times> 'st phase) list \<Rightarrow> nat list" where
  "holding d = map fst (filter (\<lambda>e. holds (snd e)) d)"

fun op_sid :: "('l, 'st) ws_op \<Rightarrow> nat" where
  "op_sid (Connect sid _ _) = sid"
| "op_sid (Receive sid _ _) = sid"
| "op_sid (ResetDone sid _ _) = sid"
| "op_sid (StepDone sid _ _) = sid"
| "op_sid (CancelTask sid) = sid"

fun opens :: "'st ws_server \<Rightarrow> ('l, 'st) ws_op \<Rightarrow> bool" where
  "opens s (ResetDone sid (Inr st) sent) = (map_of (ws_sessions s) sid = Some Resetting)"
| "opens s _ = False"

fun is_release :: "('r, 'a, 'l, 'st) ws_output \<Rightarrow> bool" where
  "is_release (CallRelease st) = True"
| "is_release _ = False"

type_synonym ('r, 'a, 'l, 'st) ws_event = "nat \<times> bool \<times> ('r, 'a, 'l, 'st) ws_output list"

definition ws_logged ::
  "(string \<Rightarrow> string) \<Rightarrow> gateway \<Rightarrow> ('r, 'a) ws_config \<Rightarrow> 'l \<Rightarrow> 'st ws_server \<Rightarrow> ('l, 'st) ws_op
    \<Rightarrow> 'st ws_server \<times> ('r, 'a, 'l, 'st) ws_event"
where
  "ws_logged h gw cfg ack s x =
     (let r = ws_step h gw cfg ack s x in (fst r, (op_sid x, opens s x, snd r)))"

definition opened_by :: "('r, 'a, 'l, 'st) ws_event \<Rightarrow> nat list" where
  "opened_by e = (if fst (snd e) then [fst e] else [])"

definition released_by :: "('r, 'a, 'l, 'st) ws_event \<Rightarrow> nat list" where
  "released_by e = map (\<lambda>_. fst e) (filter is_release (snd (snd e)))"

lemma holding_delete:
  "distinct (map fst d) \<Longrightarrow> map_of d sid = Some ph \<Longrightarrow>
    mset (holding d) = mset (holding (AList.delete sid d)) + (if holds ph then {#sid#} else {#})"
proof (induction d)
  case (Cons e d)
  show ?case
  proof (cases "fst e = sid")
    case True
    with Cons.prems have "sid \<notin> fst ` set d" by auto
    then have "AList.delete sid d = d" by (simp add: AList.delete_id)
    with True Cons.prems show ?thesis by (cases e) (simp add: holding_def)
  next
    case False
    with Cons show ?thesis by (cases e) (auto simp: holding_def)
  qed
qed simp

lemma delete_update: "AList.delete k (AList.update k v d) = AList.delete k d"
  by (induction d) auto

lemma holding_update:
  "distinct (map fst d) \<Longrightarrow>
    mset (holding (AList.update sid ph d)) = mset (holding (AList.delete sid d)) + (if holds ph then {#sid#} else {#})"
  using holding_delete [of "AList.update sid ph d" sid ph]
  by (simp add: delete_update AList.distinct_update map_of_AList_update)

lemma ws_inv_finally:
  assumes "ws_inv cfg s" "map_of (ws_sessions s) sid = Some ph"
  shows "ws_inv cfg (fst (ws_finally cfg sid opened s out))"
proof -
  from assms have "sid \<in> fst ` set (ws_sessions s)" by (metis map_of_eq_None_iff option.distinct(1))
  with assms have "Suc (length (AList.delete sid (ws_sessions s))) = length (ws_sessions s)"
    by (intro length_delete_distinct) (simp_all add: ws_inv_def)
  with assms show ?thesis by (auto simp: ws_inv_def ws_finally_def AList.distinct_delete)
qed

lemma ws_inv_set_phase:
  assumes "ws_inv cfg s" "map_of (ws_sessions s) sid = Some ph"
  shows "ws_inv cfg (set_phase sid ph' s)"
proof -
  from assms have "sid \<in> fst ` set (ws_sessions s)" by (metis map_of_eq_None_iff option.distinct(1))
  with assms show ?thesis
    by (simp add: ws_inv_def set_phase_def length_AList_update AList.distinct_update)
qed

lemmas ws_handler_defs = ws_receive_def ws_reset_done_def ws_step_done_def ws_cancel_def

lemma ws_inv_connect:
  "ws_inv cfg s \<Longrightarrow> map_of (ws_sessions s) sid = None \<Longrightarrow> ws_inv cfg (fst (ws_connect h gw cfg sid token header s))"
  by (auto simp: ws_connect_def ws_inv_def map_of_eq_None_iff split: option.splits)

lemma ws_step_inv:
  assumes inv: "ws_inv cfg s"
  shows "ws_inv cfg (fst (ws_step h gw cfg ack s x))"
proof (cases x)
  case (Connect sid token header)
  with inv show ?thesis by (auto intro: ws_inv_connect)
qed (use inv in \<open>auto simp: ws_handler_defs ws_inv_finally ws_inv_set_phase
      split: option.splits phase.splits inbound.splits sum.splits prod.splits\<close>)

text \<open>What one step does to the sessions that hold engine state.\<close>

lemma holding_finally:
  assumes "ws_inv cfg s" "map_of (ws_sessions s) sid = Some ph" "wc_release cfg" "filter is_release out = []"
  shows "mset (holding (ws_sessions (fst (ws_finally cfg sid opened s out))))
      + mset (released_by (sid, b, snd (ws_finally cfg sid opened s out))) + (if holds ph then {#sid#} else {#})
    = mset (holding (ws_sessions s)) + (if opened = None then {#} else {#sid#})"
proof -
  from assms(1,2) have "mset (holding (ws_sessions s))
      = mset (holding (AList.delete sid (ws_sessions s))) + (if holds ph then {#sid#} else {#})"
    by (intro holding_delete) (simp_all add: ws_inv_def)
  with assms(3,4) show ?thesis
    by (cases opened) (simp_all add: ws_finally_def released_by_def)
qed

lemma holding_set_phase:
  assumes "ws_inv cfg s" "map_of (ws_sessions s) sid = Some ph"
  shows "mset (holding (ws_sessions (set_phase sid ph' s))) + (if holds ph then {#sid#} else {#})
    = mset (holding (ws_sessions s)) + (if holds ph' then {#sid#} else {#})"
  using assms holding_delete [of "ws_sessions s" sid ph] holding_update [of "ws_sessions s" sid ph']
  by (simp add: set_phase_def ws_inv_def)


lemma no_release_uncaught [simp]: "filter is_release (uncaught sent) = []"
  by (cases sent) simp_all

text \<open>The balance of one handler: holders after, plus releases, are holders before, plus openings.\<close>

definition balanced :: "'st ws_server \<Rightarrow> nat \<Rightarrow> bool \<Rightarrow> 'st ws_server \<times> ('r, 'a, 'l, 'st) ws_output list \<Rightarrow> bool" where
  "balanced s sid b r \<longleftrightarrow>
     mset (holding (ws_sessions (fst r))) + mset (released_by (sid, b, snd r))
       = mset (holding (ws_sessions s)) + mset (opened_by (sid, b, snd r))"

lemma balanced_same: "filter is_release out = [] \<Longrightarrow> balanced s sid False (s, out)"
  by (simp add: balanced_def released_by_def opened_by_def)

lemma balanced_finally:
  assumes "ws_inv cfg s" "map_of (ws_sessions s) sid = Some ph" "wc_release cfg" "filter is_release out = []"
    and "b \<longleftrightarrow> \<not> holds ph \<and> opened \<noteq> None" "holds ph \<longrightarrow> opened \<noteq> None"
  shows "balanced s sid b (ws_finally cfg sid opened s out)"
  using holding_finally [OF assms(1-4), of opened b] assms(5,6)
  by (cases "holds ph"; cases "opened = None") (simp_all add: balanced_def opened_by_def)

lemma balanced_set_phase:
  assumes "ws_inv cfg s" "map_of (ws_sessions s) sid = Some ph" "filter is_release out = []"
    and "b \<longleftrightarrow> \<not> holds ph \<and> holds ph'" "holds ph \<longrightarrow> holds ph'"
  shows "balanced s sid b (set_phase sid ph' s, out)"
  using holding_set_phase [OF assms(1,2), of ph'] assms(3-5)
  by (cases "holds ph"; cases "holds ph'") (simp_all add: balanced_def opened_by_def released_by_def)

lemma balanced_connect:
  "balanced s sid False (ws_connect h gw cfg sid token header s)"
  by (auto simp: balanced_def ws_connect_def ws_refused_def released_by_def opened_by_def holding_def
      split: option.splits sum.splits)

lemma balanced_finally_phase:
  assumes "ws_inv cfg s" "wc_release cfg" "filter is_release out = []"
  shows "map_of (ws_sessions s) sid = Some WaitReset \<Longrightarrow> balanced s sid False (ws_finally cfg sid None s out)"
    and "map_of (ws_sessions s) sid = Some Resetting \<Longrightarrow> balanced s sid False (ws_finally cfg sid None s out)"
    and "map_of (ws_sessions s) sid = Some Resetting \<Longrightarrow> balanced s sid True (ws_finally cfg sid (Some st') s out)"
    and "map_of (ws_sessions s) sid = Some (WaitAction st) \<Longrightarrow> balanced s sid False (ws_finally cfg sid (Some st') s out)"
    and "map_of (ws_sessions s) sid = Some (Stepping st) \<Longrightarrow> balanced s sid False (ws_finally cfg sid (Some st') s out)"
  by (erule balanced_finally [OF assms(1) _ assms(2,3)]; simp)+

lemma balanced_phase:
  assumes "ws_inv cfg s" "filter is_release out = []"
  shows "map_of (ws_sessions s) sid = Some WaitReset \<Longrightarrow> balanced s sid False (set_phase sid Resetting s, out)"
    and "map_of (ws_sessions s) sid = Some Resetting \<Longrightarrow> balanced s sid True (set_phase sid (WaitAction st') s, out)"
    and "map_of (ws_sessions s) sid = Some (WaitAction st) \<Longrightarrow> balanced s sid False (set_phase sid (Stepping st') s, out)"
    and "map_of (ws_sessions s) sid = Some (Stepping st) \<Longrightarrow> balanced s sid False (set_phase sid (WaitAction st') s, out)"
  by (erule balanced_set_phase [OF assms(1) _ assms(2)]; simp)+

lemma ws_step_balanced:
  assumes inv: "ws_inv cfg s" and rel: "wc_release cfg"
  shows "balanced s (op_sid x) (opens s x) (ws_step h gw cfg ack s x)"
proof (cases x)
  case (Connect sid token header)
  then show ?thesis by (simp add: balanced_same balanced_connect)
next
  case (Receive sid msg sent)
  then show ?thesis
    by (auto simp: ws_receive_def balanced_same balanced_finally_phase [OF inv rel] balanced_phase [OF inv]
        split: option.splits phase.splits inbound.splits)
next
  case (ResetDone sid res sent)
  then show ?thesis
    by (cases res) (auto simp: ws_reset_done_def
        balanced_same balanced_finally_phase [OF inv rel] balanced_phase [OF inv]
        split: option.splits phase.splits)
next
  case (StepDone sid res sent)
  then show ?thesis
    by (auto simp: ws_step_done_def balanced_same balanced_finally_phase [OF inv rel] balanced_phase [OF inv]
        split: option.splits phase.splits sum.splits)
next
  case (CancelTask sid)
  then show ?thesis
    by (auto simp: ws_cancel_def balanced_same balanced_finally_phase [OF inv rel]
        split: option.splits phase.splits)
qed

interpretation sessions: work_queue "ws_inv (cfg\<lparr>wc_release := True\<rparr>)" "ws_logged h gw (cfg\<lparr>wc_release := True\<rparr>) ack"
    "\<lambda>s. holding (ws_sessions s)" opened_by released_by for h gw cfg ack
proof
  fix s x
  assume inv: "ws_inv (cfg\<lparr>wc_release := True\<rparr>) s"
  then show "ws_inv (cfg\<lparr>wc_release := True\<rparr>) (fst (ws_logged h gw (cfg\<lparr>wc_release := True\<rparr>) ack s x))"
    by (simp add: ws_logged_def Let_def ws_step_inv)
  show "mset (holding (ws_sessions (fst (ws_logged h gw (cfg\<lparr>wc_release := True\<rparr>) ack s x))))
      + mset (released_by (snd (ws_logged h gw (cfg\<lparr>wc_release := True\<rparr>) ack s x)))
    = mset (holding (ws_sessions s)) + mset (opened_by (snd (ws_logged h gw (cfg\<lparr>wc_release := True\<rparr>) ack s x)))"
    using ws_step_balanced [OF inv, of x h gw ack] by (simp add: ws_logged_def Let_def balanced_def)
qed


lemma accept_only_connect:
  "AcceptConn \<in> set (snd (ws_step h gw cfg ack s x)) \<Longrightarrow>
    \<exists>sid token header. x = Connect sid token header \<and> (ws_refused h gw token header :: ('r, 'a, 'l, 'st) ws_output list option) = None"
  for cfg :: "('r, 'a) ws_config" and s :: "'st ws_server" and x :: "('l, 'st) ws_op"
proof -
  have no: "AcceptConn \<notin> set (snd (ws_finally cfg sid opened s out))" if "AcceptConn \<notin> set out"
    for sid opened and out :: "('r, 'a, 'l, 'st) ws_output list"
    using that by (simp add: ws_finally_def split: option.split)
  have unc: "AcceptConn \<notin> set (uncaught sent :: ('r, 'a, 'l, 'st) ws_output list)" for sent
    by (cases sent) simp_all
  assume acc: "AcceptConn \<in> set (snd (ws_step h gw cfg ack s x))"
  show ?thesis
  proof (cases x)
    case (Connect sid token header)
    with acc show ?thesis
      by (cases "ws_refused h gw token header :: ('r, 'a, 'l, 'st) ws_output list option")
        (auto simp: ws_connect_def ws_refused_def split: if_splits sum.splits option.splits)
  qed (use acc in \<open>auto simp: ws_handler_defs no unc
        split: option.splits phase.splits inbound.splits sum.splits if_splits\<close>)
qed

text \<open>C11: Session accounting. Whatever clients, engine and cancellations do in whatever order, the
  counter is the number of open sessions and never exceeds the configured maximum, and when the
  engine can release, every engine session that was opened has been released exactly once or
  still belongs to an open connection; with no connection open, none is left.\<close>

theorem session_slots_and_engine_state_are_accounted:
  fixes cfg :: "('r, 'a) ws_config" and ack :: 'l and ops :: "('l, 'st) ws_op list" and h gw
  defines "step \<equiv> ws_logged h gw (cfg\<lparr>wc_release := True\<rparr>) ack"
  defines "s \<equiv> fst (run_trace step ws_init ops)" and "es \<equiv> snd (run_trace step ws_init ops)"
  shows "ws_active s = int (length (ws_sessions s)) \<and> ws_active s \<le> max 0 (wc_max cfg)
    \<and> mset (concat (map opened_by es)) = mset (concat (map released_by es)) + mset (holding (ws_sessions s))
    \<and> (ws_sessions s = [] \<longrightarrow> mset (concat (map opened_by es)) = mset (concat (map released_by es)))"
proof -
  have inv0: "ws_inv (cfg\<lparr>wc_release := True\<rparr>) ws_init" by (simp add: ws_inv_def ws_init_def)
  from sessions.run_inv [OF inv0, of h gw ack ops] have "ws_inv (cfg\<lparr>wc_release := True\<rparr>) s"
    by (simp add: s_def step_def)
  moreover from sessions.run_balance [OF inv0, of h gw ack ops]
  have "mset (concat (map opened_by es)) = mset (concat (map released_by es)) + mset (holding (ws_sessions s))"
    by (simp add: s_def es_def step_def ws_init_def holding_def union_commute)
  moreover have "holding ([] :: (nat \<times> 'st phase) list) = []" by (simp add: holding_def)
  ultimately show ?thesis by (auto simp: ws_inv_def)
qed

text \<open>No connection is accepted before its credential. If the machine accepts a WebSocket, then
  the step was a connection attempt, and either no authentication is configured or the token
  of the query, or without one the bearer header, resolves to a principal.\<close>

theorem sockets_are_authenticated_before_accept:
  fixes cfg :: "('r, 'a) ws_config" and s :: "'st ws_server" and x :: "('l, 'st) ws_op"
  assumes "AcceptConn \<in> set (snd (ws_step h gw cfg ack s x))"
  shows "\<exists>sid token header. x = Connect sid token header \<and>
    (gw_keys gw = None \<and> gw_token gw = None \<or>
     (\<exists>p. resolve h gw (case token of Some t \<Rightarrow> Some t | None \<Rightarrow> bearer_of header) = Inr (Some p)))"
proof -
  from accept_only_connect [OF assms] obtain sid token header where x: "x = Connect sid token header"
    and r: "(ws_refused h gw token header :: ('r, 'a, 'l, 'st) ws_output list option) = None" by blast
  from r have "gw_keys gw = None \<and> gw_token gw = None \<or>
      (\<exists>p. resolve h gw (ws_supplied token header) = Inr (Some p))"
    unfolding ws_refused_def by (auto split: if_splits sum.splits option.splits)
  with x show ?thesis unfolding ws_supplied_def by blast
qed

definition sample_ws :: "(string, string) ws_config" where
  "sample_ws = \<lparr>wc_max = 1, wc_engine = True, wc_release = False,
     wc_parse_reset = (\<lambda>s. if s = ''R'' then Some s else None), wc_parse_action = Some\<rparr>"

text \<open>Two clients, one slot: the first one runs a step and times out, the second is turned away.\<close>

definition sample_ws_ops :: "(string, string) ws_op list" where
  "sample_ws_ops = [Connect 1 (Some ''shared'') None, Connect 2 None (Some ''Bearer shared''),
     Receive 1 (Text ''R'') Sent, ResetDone 1 (Inr ''s0'') Sent, Receive 1 (Text ''a'') Sent,
     StepDone 1 (Inr (''s1'', ''l1'')) Sent, Receive 1 Idle Sent]"

theorem session_slots_and_engine_state_are_accounted_witness:
  "snd (run_trace (ws_logged sample_hash sample_gateway (sample_ws\<lparr>wc_release := True\<rparr>) ''l0'') ws_init sample_ws_ops) =
     [(1, False, [AcceptConn]), (2, False, [AcceptConn, SendError ''session capacity reached'', CloseConn 1013]),
      (1, False, [CallReset ''R'']), (1, True, [SendLatent ''l0'']), (1, False, [CallStep ''s0'' ''a'']),
      (1, False, [SendLatent ''l1'']), (1, False, [CloseConn 1001, CallRelease ''s1''])]
   \<and> mset (concat (map opened_by (snd (run_trace (ws_logged sample_hash sample_gateway
        (sample_ws\<lparr>wc_release := True\<rparr>) ''l0'') ws_init sample_ws_ops)))) =
     mset (concat (map released_by (snd (run_trace (ws_logged sample_hash sample_gateway
        (sample_ws\<lparr>wc_release := True\<rparr>) ''l0'') ws_init sample_ws_ops))))"
proof
  have "ws_sessions (fst (run_trace (ws_logged sample_hash sample_gateway (sample_ws\<lparr>wc_release := True\<rparr>) ''l0'')
      ws_init sample_ws_ops)) = []"
    by code_simp
  with session_slots_and_engine_state_are_accounted [of sample_hash sample_gateway sample_ws "''l0''" sample_ws_ops]
  show "mset (concat (map opened_by (snd (run_trace (ws_logged sample_hash sample_gateway
        (sample_ws\<lparr>wc_release := True\<rparr>) ''l0'') ws_init sample_ws_ops)))) =
     mset (concat (map released_by (snd (run_trace (ws_logged sample_hash sample_gateway
        (sample_ws\<lparr>wc_release := True\<rparr>) ''l0'') ws_init sample_ws_ops))))"
    by blast
qed code_simp

theorem sockets_are_authenticated_before_accept_witness:
  "\<exists>p. resolve sample_hash sample_gateway (Some ''shared'') = Inr (Some p)"
proof -
  have "AcceptConn \<in> set (snd (ws_step sample_hash sample_gateway sample_ws ''l0''
      (ws_init :: string ws_server) (Connect 1 (Some ''shared'') None)))"
    by code_simp
  from sockets_are_authenticated_before_accept [OF this] show ?thesis
    by (auto simp: sample_gateway_def)
qed

end
