(* ===== verification/LatentCache.thy ===== *)
theory LatentCache
  imports Interfaces "HOL-Library.Product_Lexorder"
begin

text \<open>
  The paged latent cache (\<open>runtime/latent_cache.py\<close>, the Python implementation): a fixed pool
  of pages, each owned by a request and tagged with the frame it holds, and the policy that
  picks the page to reclaim when the pool is full. The cache takes any policy, so the facts
  about \<open>allocate\<close> are proved in the locale \<open>eviction_policy\<close> and reached through its
  interpretation on \<open>FrameAwareEviction\<close>. The native wheel that may replace this class is not
  under \<open>src/src/repercep\<close> and is not modelled.
\<close>

section \<open>Pages and policies\<close>

record latent_page =
  page_id :: int
  page_request :: string
  frame_index :: int
  last_used_step :: int
  in_use :: bool

type_synonym policy = "latent_page list \<Rightarrow> int \<Rightarrow> exn + int"

text \<open>\<open>min(xs, key=...)\<close>: the first of the elements with the least key.\<close>

fun min_from :: "('a \<Rightarrow> 'k :: linorder) \<Rightarrow> 'a \<Rightarrow> 'a list \<Rightarrow> 'a" where
  "min_from key m [] = m"
| "min_from key m (x # xs) = min_from key (if key x < key m then x else m) xs"

definition evict_key :: "int \<Rightarrow> latent_page \<Rightarrow> int \<times> int" where
  "evict_key current_frame p = (frame_index p - current_frame, last_used_step p)"

definition frame_aware_victim :: policy where
  "frame_aware_victim ps current_frame =
     (case filter (\<lambda>p. \<not> in_use p) ps of
        [] \<Rightarrow> Inl (CacheError ''no evictable pages: cache is fully pinned'')
      | p # rest \<Rightarrow> Inr (page_id (min_from (evict_key current_frame) p rest)))"

section \<open>The cache\<close>

record latent_cache =
  capacity :: int
  pages :: "(int, latent_page) dict"
  next_id :: int

definition cache_init :: "int \<Rightarrow> exn + latent_cache" where
  "cache_init num_pages =
     (if num_pages < 1 then Inl (ValueError ''num_pages must be >= 1'')
      else Inr \<lparr>capacity = num_pages, pages = [], next_id = 0\<rparr>)"

text \<open>The constructor's \<open>policy or FrameAwareEviction()\<close>.\<close>

definition cache_policy :: "policy option \<Rightarrow> policy" where
  "cache_policy p = (case p of None \<Rightarrow> frame_aware_victim | Some v \<Rightarrow> v)"

definition insert_page :: "latent_cache \<Rightarrow> string \<Rightarrow> int \<Rightarrow> int \<Rightarrow> latent_cache \<times> (exn + int)" where
  "insert_page c rid frame step =
     (let pid = next_id c;
          p = \<lparr>page_id = pid, page_request = rid, frame_index = frame,
               last_used_step = step, in_use = True\<rparr>
      in (c\<lparr>next_id := next_id c + 1, pages := AList.update pid p (pages c)\<rparr>, Inr pid))"

definition allocate ::
    "policy \<Rightarrow> latent_cache \<Rightarrow> string \<Rightarrow> int \<Rightarrow> int \<Rightarrow> int \<Rightarrow> latent_cache \<times> (exn + int)" where
  "allocate pol c rid frame step current_frame =
     (if int (length (pages c)) \<ge> capacity c then
        (case pol (map snd (pages c)) current_frame of
           Inl e \<Rightarrow> (c, Inl e)
         | Inr v \<Rightarrow>
             (if map_of (pages c) v = None then (c, Inl (KeyError []))
              else insert_page (c\<lparr>pages := AList.delete v (pages c)\<rparr>) rid frame step))
      else insert_page c rid frame step)"

definition touch :: "latent_cache \<Rightarrow> int \<Rightarrow> int \<Rightarrow> latent_cache" where
  "touch c pid step =
     (case map_of (pages c) pid of
        None \<Rightarrow> c
      | Some p \<Rightarrow> c\<lparr>pages := AList.update pid (p\<lparr>last_used_step := step\<rparr>) (pages c)\<rparr>)"

definition unpin :: "latent_cache \<Rightarrow> int \<Rightarrow> latent_cache" where
  "unpin c pid =
     (case map_of (pages c) pid of
        None \<Rightarrow> c
      | Some p \<Rightarrow> c\<lparr>pages := AList.update pid (p\<lparr>in_use := False\<rparr>) (pages c)\<rparr>)"

definition release_request :: "latent_cache \<Rightarrow> string \<Rightarrow> latent_cache \<times> int" where
  "release_request c rid =
     (let victims = map fst (filter (\<lambda>(pid, p). page_request p = rid) (pages c))
      in (c\<lparr>pages := fold AList.delete victims (pages c)\<rparr>, int (length victims)))"

record cache_stats =
  st_capacity :: int
  st_allocated :: int
  st_free :: int
  st_pinned :: int

definition stats :: "latent_cache \<Rightarrow> cache_stats" where
  "stats c =
     \<lparr>st_capacity = capacity c, st_allocated = int (length (pages c)),
      st_free = capacity c - int (length (pages c)),
      st_pinned = int (length (filter in_use (map snd (pages c))))\<rparr>"

section \<open>The page picked\<close>

lemma min_from_mem: "min_from key m xs \<in> insert m (set xs)"
proof (induction xs arbitrary: m)
  case (Cons x xs)
  from Cons.IH [of "if key x < key m then x else m"] show ?case by (auto split: if_splits)
qed simp

lemma min_from_le: "y \<in> insert m (set xs) \<Longrightarrow> key (min_from key m xs) \<le> key y"
proof (induction xs arbitrary: m y)
  case (Cons x xs)
  let ?m = "if key x < key m then x else m"
  have "key (min_from key ?m xs) \<le> key ?m" by (rule Cons.IH) simp
  moreover have "y \<in> set xs \<Longrightarrow> key (min_from key ?m xs) \<le> key y" by (rule Cons.IH) simp
  moreover have "key ?m \<le> key x" "key ?m \<le> key m" by (auto split: if_splits)
  ultimately show ?case using Cons.prems by (auto intro: order_trans split: if_splits)
qed simp

lemma frame_aware_victimD:
  assumes "frame_aware_victim ps cur = Inr v"
  shows "\<exists>p \<in> set ps. \<not> in_use p \<and> page_id p = v \<and>
    (\<forall>q \<in> set ps. \<not> in_use q \<longrightarrow> evict_key cur p \<le> evict_key cur q)"
proof (cases "filter (\<lambda>p. \<not> in_use p) ps")
  case (Cons p rest)
  let ?m = "min_from (evict_key cur) p rest"
  have "?m \<in> set (filter (\<lambda>p. \<not> in_use p) ps)"
    using min_from_mem [of "evict_key cur" p rest] by (simp only: Cons list.set)
  then have m: "?m \<in> set ps" "\<not> in_use ?m" by simp_all
  have le: "evict_key cur ?m \<le> evict_key cur q" if "q \<in> set ps" "\<not> in_use q" for q
  proof (rule min_from_le)
    have "q \<in> set (filter (\<lambda>p. \<not> in_use p) ps)" using that by simp
    then show "q \<in> insert p (set rest)" by (simp only: Cons list.set)
  qed
  have "v = page_id ?m" using assms Cons by (simp add: frame_aware_victim_def)
  with m le show ?thesis by blast
qed (use assms in \<open>simp add: frame_aware_victim_def\<close>)

lemma frame_aware_victim_fails:
  "frame_aware_victim ps cur = Inl e \<longleftrightarrow>
    (\<forall>p \<in> set ps. in_use p) \<and> e = CacheError ''no evictable pages: cache is fully pinned''"
  by (auto simp: frame_aware_victim_def filter_empty_conv split: list.splits
      dest: arg_cong [of _ _ set])

section \<open>The invariant\<close>

definition cache_inv :: "latent_cache \<Rightarrow> bool" where
  "cache_inv c \<longleftrightarrow>
     distinct (map fst (pages c)) \<and>
     (\<forall>(k, p) \<in> set (pages c). page_id p = k \<and> 0 \<le> k \<and> k < next_id c) \<and>
     int (length (pages c)) \<le> capacity c \<and> 1 \<le> capacity c \<and> 0 \<le> next_id c"

lemma cache_init_inv: "cache_init n = Inr c \<Longrightarrow> cache_inv c"
  by (auto simp: cache_init_def cache_inv_def split: if_splits)

lemma cache_invD:
  assumes "cache_inv c"
  shows "distinct (map fst (pages c))" "next_id c \<notin> fst ` set (pages c)"
    "int (length (pages c)) \<le> capacity c"
    "(k, p) \<in> set (pages c) \<Longrightarrow> page_id p = k"
  using assms by (auto simp: cache_inv_def)

lemma distinct_keys_update: "distinct (map fst d) \<Longrightarrow> distinct (map fst (AList.update k v d))"
  by (rule AList.distinct_update)

lemma distinct_keys_delete: "distinct (map fst d) \<Longrightarrow> distinct (map fst (AList.delete k d))"
  by (rule AList.distinct_delete)

lemma insert_page_inv:
  assumes inv: "cache_inv c" and room: "int (length (pages c)) < capacity c"
  shows "cache_inv (fst (insert_page c rid frame step))"
    and "pages (fst (insert_page c rid frame step)) = pages c @ [(next_id c,
      \<lparr>page_id = next_id c, page_request = rid, frame_index = frame,
       last_used_step = step, in_use = True\<rparr>)]"
proof -
  show eq: "pages (fst (insert_page c rid frame step)) = pages c @ [(next_id c,
      \<lparr>page_id = next_id c, page_request = rid, frame_index = frame,
       last_used_step = step, in_use = True\<rparr>)]"
    using cache_invD(2) [OF inv] by (simp add: insert_page_def Let_def update_fresh)
  have "next_id (fst (insert_page c rid frame step)) = next_id c + 1"
    and "capacity (fst (insert_page c rid frame step)) = capacity c"
    by (simp_all add: insert_page_def Let_def)
  moreover have "\<forall>(k, p) \<in> set (pages c). page_id p = k \<and> 0 \<le> k \<and> k < next_id c + 1"
    using inv by (auto simp: cache_inv_def)
  ultimately show "cache_inv (fst (insert_page c rid frame step))"
    using inv room cache_invD(2) [OF inv] by (simp add: cache_inv_def eq)
qed

lemma set_update_subset: "set (AList.update k v d) \<subseteq> insert (k, v) (set d)"
  by (induction d) auto

lemma update_page_inv:
  assumes "cache_inv c" "map_of (pages c) pid = Some p" "page_id q = page_id p"
  shows "cache_inv (c\<lparr>pages := AList.update pid q (pages c)\<rparr>)"
proof -
  have mem: "(pid, p) \<in> set (pages c)" using assms(2) by (rule map_of_SomeD)
  then have key: "pid \<in> fst ` set (pages c)" by force
  have ok: "page_id r = k \<and> 0 \<le> k \<and> k < next_id c" if "(k, r) \<in> insert (pid, q) (set (pages c))" for k r
    using that mem assms(1,3) by (auto simp: cache_inv_def)
  then have "\<forall>(k, r) \<in> set (AList.update pid q (pages c)). page_id r = k \<and> 0 \<le> k \<and> k < next_id c"
    using set_update_subset [of pid q "pages c"] by blast
  moreover have "length (AList.update pid q (pages c)) = length (pages c)"
    using key by (simp add: length_AList_update)
  moreover have "distinct (map fst (AList.update pid q (pages c)))"
    using cache_invD(1) [OF assms(1)] by (rule distinct_keys_update)
  ultimately show ?thesis using assms(1) unfolding cache_inv_def by (intro conjI) simp_all
qed

lemma touch_inv: "cache_inv c \<Longrightarrow> cache_inv (touch c pid step)"
  by (auto simp: touch_def update_page_inv split: option.splits)

lemma unpin_inv: "cache_inv c \<Longrightarrow> cache_inv (unpin c pid)"
  by (auto simp: unpin_def update_page_inv split: option.splits)

lemma fold_delete: "fold AList.delete ks d = filter (\<lambda>(k, v). k \<notin> set ks) d"
  by (induction ks arbitrary: d) (auto simp: AList.delete_eq intro: filter_cong)

lemma release_request_pages:
  assumes "cache_inv c"
  shows "pages (fst (release_request c rid)) = filter (\<lambda>(k, p). page_request p \<noteq> rid) (pages c)"
    and "snd (release_request c rid)
      = int (length (filter (\<lambda>(k, p). page_request p = rid) (pages c)))"
proof -
  have "(k \<notin> fst ` {(k, p) \<in> set (pages c). page_request p = rid}) \<longleftrightarrow> page_request p \<noteq> rid"
    if mem: "(k, p) \<in> set (pages c)" for k p
  proof -
    have "q = p" if "(k, q) \<in> set (pages c)" for q
      using eq_key_imp_eq_value [OF cache_invD(1) [OF assms] that mem] .
    with mem have "(\<exists>q. (k, q) \<in> set (pages c) \<and> page_request q = rid) \<longleftrightarrow> page_request p = rid"
      by blast
    moreover have "k \<in> fst ` {(k, p) \<in> set (pages c). page_request p = rid}
        \<longleftrightarrow> (\<exists>q. (k, q) \<in> set (pages c) \<and> page_request q = rid)"
      by (simp add: image_iff split_beta)
    ultimately show ?thesis by blast
  qed
  then show "pages (fst (release_request c rid))
      = filter (\<lambda>(k, p). page_request p \<noteq> rid) (pages c)"
    by (auto simp: release_request_def Let_def fold_delete intro!: filter_cong)
  show "snd (release_request c rid)
      = int (length (filter (\<lambda>(k, p). page_request p = rid) (pages c)))"
    by (simp add: release_request_def Let_def)
qed

lemma release_request_inv: 
  assumes "cache_inv c" shows "cache_inv (fst (release_request c rid))"
proof -
  have "length (filter (\<lambda>(k, p). page_request p \<noteq> rid) (pages c)) \<le> length (pages c)"
    by (rule length_filter_le)
  then have "int (length (filter (\<lambda>(k, p). page_request p \<noteq> rid) (pages c))) \<le> capacity c"
    using cache_invD(3) [OF assms] by linarith
  moreover have "capacity (fst (release_request c rid)) = capacity c"
    "next_id (fst (release_request c rid)) = next_id c"
    by (simp_all add: release_request_def Let_def)
  ultimately show ?thesis using assms
    by (auto simp: cache_inv_def release_request_pages [OF assms] distinct_map_filter)
qed

section \<open>What a policy must promise\<close>

locale eviction_policy =
  fixes pol :: policy
  assumes picks_unpinned: "pol ps cur = Inr v \<Longrightarrow> \<exists>p \<in> set ps. \<not> in_use p \<and> page_id p = v"
    and fails_only_pinned: "pol ps cur = Inl e \<Longrightarrow> \<forall>p \<in> set ps. in_use p"
begin

lemma victim_present:
  assumes "cache_inv c" "pol (map snd (pages c)) cur = Inr v"
  obtains p where "(v, p) \<in> set (pages c)" "\<not> in_use p" "map_of (pages c) v = Some p"
proof -
  obtain k p where p: "(k, p) \<in> set (pages c)" "\<not> in_use p" "page_id p = v"
    using picks_unpinned [OF assms(2)] by auto
  then have "k = v" using cache_invD(4) [OF assms(1)] by simp
  with p map_of_mem [OF cache_invD(1) [OF assms(1)]] that show thesis by simp
qed

lemma evicted_inv:
  assumes "cache_inv c" "pol (map snd (pages c)) cur = Inr v"
  shows "cache_inv (c\<lparr>pages := AList.delete v (pages c)\<rparr>)"
    and "int (length (AList.delete v (pages c))) < capacity c"
proof -
  obtain p where "(v, p) \<in> set (pages c)" using victim_present [OF assms] by blast
  then have "v \<in> fst ` set (pages c)" by force
  from length_delete_distinct [OF cache_invD(1) [OF assms(1)] this]
  show "int (length (AList.delete v (pages c))) < capacity c"
    using cache_invD(3) [OF assms(1)] by linarith
  then show "cache_inv (c\<lparr>pages := AList.delete v (pages c)\<rparr>)"
    using assms(1) by (auto simp: cache_inv_def set_delete distinct_keys_delete)
qed

lemma allocate_inv:
  assumes "cache_inv c"
  shows "cache_inv (fst (allocate pol c rid frame step cur))"
proof (cases "int (length (pages c)) \<ge> capacity c")
  case True
  show ?thesis
  proof (cases "pol (map snd (pages c)) cur")
    case (Inr v)
    from evicted_inv [OF assms Inr] show ?thesis
      using True Inr assms by (simp add: allocate_def insert_page_inv)
  qed (use True assms in \<open>simp add: allocate_def\<close>)
qed (use assms in \<open>simp add: allocate_def insert_page_inv\<close>)

lemma allocate_keeps_pinned:
  assumes "cache_inv c" "(k, p) \<in> set (pages c)" "in_use p"
  shows "(k, p) \<in> set (pages (fst (allocate pol c rid frame step cur)))"
proof (cases "int (length (pages c)) \<ge> capacity c")
  case True
  show ?thesis
  proof (cases "pol (map snd (pages c)) cur")
    case (Inr v)
    obtain q where "(v, q) \<in> set (pages c)" "\<not> in_use q" "map_of (pages c) v = Some q"
      using victim_present [OF assms(1) Inr] by blast
    with assms cache_invD(1) [OF assms(1)] have "k \<noteq> v"
      by (metis eq_key_imp_eq_value)
    with evicted_inv [OF assms(1) Inr] True Inr assms \<open>map_of (pages c) v = Some q\<close> show ?thesis
      by (simp add: allocate_def insert_page_inv(2) set_delete)
  qed (use True assms in \<open>simp add: allocate_def\<close>)
qed (use assms in \<open>simp add: allocate_def insert_page_inv(2)\<close>)

lemma allocate_fails_iff:
  assumes "cache_inv c"
  shows "(\<exists>e. snd (allocate pol c rid frame step cur) = Inl e) \<longleftrightarrow>
    int (length (pages c)) = capacity c \<and> (\<forall>(k, p) \<in> set (pages c). in_use p)"
proof (cases "int (length (pages c)) \<ge> capacity c")
  case True
  show ?thesis
  proof (cases "pol (map snd (pages c)) cur")
    case (Inl e)
    with True cache_invD(3) [OF assms] fails_only_pinned [OF Inl] show ?thesis
      by (auto simp: allocate_def)
  next
    case (Inr v)
    then obtain q where "(v, q) \<in> set (pages c)" "\<not> in_use q" "map_of (pages c) v = Some q"
      using victim_present [OF assms Inr] by blast
    with True Inr show ?thesis by (auto simp: allocate_def insert_page_def Let_def)
  qed
qed (auto simp: allocate_def insert_page_def Let_def)

lemma allocate_result:
  assumes "cache_inv c" "snd (allocate pol c rid frame step cur) = Inr pid"
  shows "pid = next_id c" "next_id (fst (allocate pol c rid frame step cur)) = next_id c + 1"
  using assms
  by (auto simp: allocate_def insert_page_def Let_def split: if_splits sum.splits)

end

interpretation frame_aware: eviction_policy frame_aware_victim
  by unfold_locales (use frame_aware_victimD frame_aware_victim_fails in blast)+

section \<open>Runs\<close>

datatype cache_op =
    Allocate string int int int
  | Touch int int
  | Unpin int
  | ReleaseRequest string

fun cache_step :: "latent_cache \<Rightarrow> cache_op \<Rightarrow> latent_cache \<times> int list" where
  "cache_step c (Allocate rid frame step cur) =
     (case allocate frame_aware_victim c rid frame step cur of
        (c', Inl e) \<Rightarrow> (c', [])
      | (c', Inr pid) \<Rightarrow> (c', [pid]))"
| "cache_step c (Touch pid step) = (touch c pid step, [])"
| "cache_step c (Unpin pid) = (unpin c pid, [])"
| "cache_step c (ReleaseRequest rid) = (fst (release_request c rid), [])"

lemma fst_cache_step_allocate [simp]:
  "fst (cache_step c (Allocate rid frame step cur))
     = fst (allocate frame_aware_victim c rid frame step cur)"
  by (simp split: prod.splits sum.splits)

declare cache_step.simps(1) [simp del]

interpretation latent_machine: invariant_machine cache_inv cache_step
proof
  fix c x assume "cache_inv c"
  then show "cache_inv (fst (cache_step c x))"
    by (cases x) (simp_all add: frame_aware.allocate_inv touch_inv unpin_inv release_request_inv)
qed

lemma update_frame: "next_id (touch c pid step) = next_id c" "next_id (unpin c pid) = next_id c"
    "capacity (touch c pid step) = capacity c" "capacity (unpin c pid) = capacity c"
  by (simp_all add: touch_def unpin_def split: option.splits)

lemma release_frame: "next_id (fst (release_request c rid)) = next_id c"
    "capacity (fst (release_request c rid)) = capacity c"
  by (simp_all add: release_request_def Let_def)

lemma allocate_frame:
  "capacity (fst (allocate pol c rid frame step cur)) = capacity c"
  "snd (allocate pol c rid frame step cur) = Inl e \<Longrightarrow>
     next_id (fst (allocate pol c rid frame step cur)) = next_id c"
  by (auto simp: allocate_def insert_page_def Let_def split: if_splits sum.splits)

lemma capacity_step: "capacity (fst (cache_step c x)) = capacity c"
  by (cases x) (simp_all add: allocate_frame update_frame release_frame)

lemma capacity_run: "capacity (fst (run_trace cache_step c xs)) = capacity c"
  by (induction xs arbitrary: c) (simp_all add: run_trace_simps capacity_step)

lemma step_ids:
  assumes "cache_inv c"
  shows "(snd (cache_step c x) = [] \<and> next_id (fst (cache_step c x)) = next_id c) \<or>
    (snd (cache_step c x) = [next_id c] \<and> next_id (fst (cache_step c x)) = next_id c + 1)"
proof (cases x)
  case (Allocate rid frame step cur)
  show ?thesis
  proof (cases "snd (allocate frame_aware_victim c rid frame step cur)")
    case (Inl e)
    with allocate_frame(2) [OF Inl] show ?thesis using Allocate
      by (cases "allocate frame_aware_victim c rid frame step cur") (simp add: cache_step.simps)
  next
    case (Inr pid)
    with frame_aware.allocate_result [OF assms Inr] show ?thesis using Allocate
      by (cases "allocate frame_aware_victim c rid frame step cur") (simp add: cache_step.simps)
  qed
qed (simp_all add: update_frame release_frame)

lemma run_ids:
  assumes "cache_inv c"
  shows "\<exists>n. concat (snd (run_trace cache_step c xs)) = map (\<lambda>i. next_id c + int i) [0..<n]
    \<and> next_id (fst (run_trace cache_step c xs)) = next_id c + int n"
  using assms
proof (induction xs arbitrary: c)
  case Nil
  show ?case by (intro exI [of _ 0]) simp
next
  case (Cons x xs)
  let ?c = "fst (cache_step c x)"
  have "cache_inv ?c" using Cons.prems by (rule latent_machine.step_inv)
  then obtain n where n: "concat (snd (run_trace cache_step ?c xs))
      = map (\<lambda>i. next_id ?c + int i) [0..<n]"
      "next_id (fst (run_trace cache_step ?c xs)) = next_id ?c + int n"
    using Cons.IH by blast
  from step_ids [OF Cons.prems, of x] show ?case
  proof
    assume "snd (cache_step c x) = [] \<and> next_id ?c = next_id c"
    with n show ?thesis by (intro exI [of _ n]) (simp add: run_trace_simps)
  next
    assume *: "snd (cache_step c x) = [next_id c] \<and> next_id ?c = next_id c + 1"
    have "map (\<lambda>i. next_id c + int i) [0..<Suc n]
        = next_id c # map (\<lambda>i. next_id c + 1 + int i) [0..<n]"
      by (simp add: upt_conv_Cons map_Suc_upt [symmetric] o_def del: upt_Suc)
    with * n show ?thesis by (intro exI [of _ "Suc n"]) (simp add: run_trace_simps del: upt_Suc)
  qed
qed

text \<open>C12: whatever sequence of allocations, touches, unpins and releases the runtime makes on
  a fresh cache of n pages, the cache never holds more than n pages, its dictionary keys are
  the ids of its pages, and the ids it hands out are 0, 1, 2, ... in order: none is reused,
  not even after an eviction or a release.\<close>

theorem latent_cache_is_bounded_and_ids_are_fresh:
  assumes "cache_init n = Inr c"
  shows "int (length (pages (fst (run_trace cache_step c ops)))) \<le> n
    \<and> list_all (\<lambda>(k, p). page_id p = k) (pages (fst (run_trace cache_step c ops)))
    \<and> concat (snd (run_trace cache_step c ops))
        = map int [0..<length (concat (snd (run_trace cache_step c ops)))]"
proof -
  have inv: "cache_inv c" using assms by (rule cache_init_inv)
  then have run: "cache_inv (fst (run_trace cache_step c ops))" by (rule latent_machine.run_inv)
  have "capacity c = n" "next_id c = 0" using assms by (auto simp: cache_init_def split: if_splits)
  moreover obtain k where "concat (snd (run_trace cache_step c ops))
      = map (\<lambda>i. next_id c + int i) [0..<k]"
    using run_ids [OF inv] by blast
  ultimately show ?thesis using cache_invD(3,4) [OF run]
    by (auto simp: capacity_run list_all_iff)
qed

theorem latent_cache_is_bounded_and_ids_are_fresh_witness:
  "concat (snd (run_trace cache_step \<lparr>capacity = 1, pages = [], next_id = 0\<rparr>
      [Allocate ''r'' 0 0 0, Unpin 0, Allocate ''r'' 1 1 1, ReleaseRequest ''r'',
       Allocate ''s'' 0 0 0])) = [0, 1, 2]
   \<and> length (pages (fst (run_trace cache_step \<lparr>capacity = 1, pages = [], next_id = 0\<rparr>
      [Allocate ''r'' 0 0 0, Unpin 0, Allocate ''r'' 1 1 1, ReleaseRequest ''r'',
       Allocate ''s'' 0 0 0]))) \<le> 1"
proof -
  have "cache_init 1 = Inr \<lparr>capacity = 1, pages = [], next_id = 0\<rparr>" by (simp add: cache_init_def)
  from latent_cache_is_bounded_and_ids_are_fresh [OF this,
      of "[Allocate ''r'' 0 0 0, Unpin 0, Allocate ''r'' 1 1 1, ReleaseRequest ''r'',
       Allocate ''s'' 0 0 0]"]
  have "length (pages (fst (run_trace cache_step \<lparr>capacity = 1, pages = [], next_id = 0\<rparr>
      [Allocate ''r'' 0 0 0, Unpin 0, Allocate ''r'' 1 1 1, ReleaseRequest ''r'',
       Allocate ''s'' 0 0 0]))) \<le> 1" by simp
  then show ?thesis by code_simp
qed

text \<open>eviction is safe and exact. An allocation on a well-formed cache fails just when
  the pool is full and every page is pinned, and then changes nothing; otherwise it keeps every
  pinned page and drops at most one page, an unpinned one, whose frame is the furthest behind
  the current frame (ties broken by the least recent use), and only when the pool was full.\<close>

theorem latent_allocation_evicts_furthest_unpinned:
  assumes inv: "cache_inv c"
  shows "case allocate frame_aware_victim c rid frame step cur of
      (c', Inl e) \<Rightarrow> c' = c \<and> int (length (pages c)) = capacity c \<and> list_all (in_use \<circ> snd) (pages c)
    | (c', Inr pid) \<Rightarrow> pid = next_id c \<and>
        (\<exists>kept. pages c' = kept @ [(pid, \<lparr>page_id = pid, page_request = rid, frame_index = frame,
            last_used_step = step, in_use = True\<rparr>)] \<and>
          (if int (length (pages c)) < capacity c then kept = pages c
           else \<exists>v p. (v, p) \<in> set (pages c) \<and> \<not> in_use p \<and> kept = AList.delete v (pages c) \<and>
             list_all (\<lambda>(k, q). in_use q \<or> evict_key cur p \<le> evict_key cur q) (pages c)))"
proof (cases "int (length (pages c)) \<ge> capacity c")
  case full: True
  then have eq: "int (length (pages c)) = capacity c" using cache_invD(3) [OF inv] by simp
  show ?thesis
  proof (cases "frame_aware_victim (map snd (pages c)) cur")
    case (Inl e)
    with full have "allocate frame_aware_victim c rid frame step cur = (c, Inl e)"
      by (simp add: allocate_def)
    with eq Inl show ?thesis by (auto simp: list_all_iff frame_aware_victim_fails)
  next
    case (Inr v)
    obtain k p where k: "(k, p) \<in> set (pages c)" and p: "\<not> in_use p" "page_id p = v"
        "\<forall>q \<in> snd ` set (pages c). \<not> in_use q \<longrightarrow> evict_key cur p \<le> evict_key cur q"
      using frame_aware_victimD [OF Inr] by auto
    from k p(2) cache_invD(4) [OF inv] have "(v, p) \<in> set (pages c)" by blast
    moreover have "list_all (\<lambda>(k, q). in_use q \<or> evict_key cur p \<le> evict_key cur q) (pages c)"
      using p(3) by (force simp: list_all_iff)
    ultimately have p: "(v, p) \<in> set (pages c)" "\<not> in_use p"
        "list_all (\<lambda>(k, q). in_use q \<or> evict_key cur p \<le> evict_key cur q) (pages c)"
      using p(1) by blast+
    have "map_of (pages c) v = Some p" using p map_of_mem [OF cache_invD(1) [OF inv]] by simp
    with full Inr have A: "allocate frame_aware_victim c rid frame step cur
        = insert_page (c\<lparr>pages := AList.delete v (pages c)\<rparr>) rid frame step"
      by (simp add: allocate_def)
    from insert_page_inv(2) [OF frame_aware.evicted_inv(1) [OF inv Inr]]
      frame_aware.evicted_inv(2) [OF inv Inr]
    have B: "pages (fst (insert_page (c\<lparr>pages := AList.delete v (pages c)\<rparr>) rid frame step))
        = AList.delete v (pages c) @ [(next_id c, \<lparr>page_id = next_id c, page_request = rid,
            frame_index = frame, last_used_step = step, in_use = True\<rparr>)]" by simp
    have C: "snd (insert_page (c\<lparr>pages := AList.delete v (pages c)\<rparr>) rid frame step)
        = Inr (next_id c)" by (simp add: insert_page_def Let_def)
    have "allocate frame_aware_victim c rid frame step cur
        = (fst (insert_page (c\<lparr>pages := AList.delete v (pages c)\<rparr>) rid frame step), Inr (next_id c))"
      unfolding A using C by (metis prod.collapse)
    moreover from full have "\<not> int (length (pages c)) < capacity c" by simp
    moreover have "\<exists>u r. (u, r) \<in> set (pages c) \<and> \<not> in_use r
        \<and> AList.delete v (pages c) = AList.delete u (pages c)
        \<and> list_all (\<lambda>(k, q). in_use q \<or> evict_key cur r \<le> evict_key cur q) (pages c)"
      using p by blast
    ultimately show ?thesis using B by simp
  qed
next
  case False
  then have A: "allocate frame_aware_victim c rid frame step cur = insert_page c rid frame step"
    by (simp add: allocate_def)
  have C: "snd (insert_page c rid frame step) = Inr (next_id c)"
    by (simp add: insert_page_def Let_def)
  have "allocate frame_aware_victim c rid frame step cur
      = (fst (insert_page c rid frame step), Inr (next_id c))"
    unfolding A using C by (metis prod.collapse)
  with insert_page_inv(2) [OF inv, of rid frame step] False show ?thesis by simp
qed

theorem latent_allocation_evicts_furthest_unpinned_witness:
  "fst ` set (pages (fst (allocate frame_aware_victim
      \<lparr>capacity = 2, pages =
        [(0, \<lparr>page_id = 0, page_request = ''r'', frame_index = 4, last_used_step = 1, in_use = False\<rparr>),
         (1, \<lparr>page_id = 1, page_request = ''r'', frame_index = 2, last_used_step = 3, in_use = False\<rparr>)], next_id = 2\<rparr>
      ''s'' 5 0 5))) = {0, 2}"
proof -
  let ?c = "\<lparr>capacity = 2, pages =
        [(0, \<lparr>page_id = 0, page_request = ''r'', frame_index = 4, last_used_step = 1, in_use = False\<rparr>),
         (1, \<lparr>page_id = 1, page_request = ''r'', frame_index = 2, last_used_step = 3, in_use = False\<rparr>)], next_id = 2\<rparr>"
  have "cache_inv ?c" by (simp add: cache_inv_def)
  from latent_allocation_evicts_furthest_unpinned [OF this, of "''s''" 5 0 5]
  have "snd (allocate frame_aware_victim ?c ''s'' 5 0 5) = Inr 2"
    by (simp add: list_all_iff split: prod.splits sum.splits)
  moreover have "pages (fst (allocate frame_aware_victim ?c ''s'' 5 0 5))
      = [(0, \<lparr>page_id = 0, page_request = ''r'', frame_index = 4, last_used_step = 1, in_use = False\<rparr>),
         (2, \<lparr>page_id = 2, page_request = ''s'', frame_index = 5, last_used_step = 0, in_use = True\<rparr>)]"
    by code_simp
  ultimately show ?thesis by simp
qed

end
