(* ===== verification/Denoise.thy ===== *)
theory Denoise
  imports Prelude
begin

text \<open>
  The Cosmos denoising loop with its forward-skipping gate (\<open>runtime/denoise.py\<close>). Tensors,
  Python floats and the diffusers scheduler are the type parameters \<open>'x\<close>, \<open>'f\<close> and \<open>'c\<close>; the
  pipeline's components and the torch operations the loop applies are the fields of
  \<open>cosmos_pipe\<close>. A scheduler call takes the scheduler's state and returns the new one. The
  theory shows which steps run the transformer in each cache mode, that the loop's assertion
  never fails, and that the batched guidance call computes what two separate calls compute.
\<close>

section \<open>The pipeline\<close>

record ('x, 'f, 'c) cosmos_pipe =
  encode_prompt :: "string \<Rightarrow> string option \<Rightarrow> 'x \<times> 'x"
  set_timesteps :: "int \<Rightarrow> 'c \<Rightarrow> 'c \<times> 'x list"
  prepare_latents :: "int \<Rightarrow> int \<Rightarrow> int \<Rightarrow> int option \<Rightarrow> 'x"
  zero_mask :: "'x \<Rightarrow> int \<Rightarrow> int \<Rightarrow> 'x"
  scale_model_input :: "'x \<Rightarrow> 'x \<Rightarrow> 'c \<Rightarrow> 'c \<times> 'x"
  to_dtype :: "'x \<Rightarrow> 'x"
  expand_to :: "'x \<Rightarrow> 'x \<Rightarrow> 'x"
  transformer :: "'x \<Rightarrow> 'x \<Rightarrow> 'x \<Rightarrow> int \<Rightarrow> 'x \<Rightarrow> 'x"
  scheduler_step :: "'x \<Rightarrow> 'x \<Rightarrow> 'x \<Rightarrow> 'x option \<Rightarrow> 'c \<Rightarrow> 'c \<times> ('x \<times> 'x)"
  rewind_index :: "'c \<Rightarrow> 'c"
  t_cat :: "'x \<Rightarrow> 'x \<Rightarrow> 'x"
  t_repeat2 :: "'x \<Rightarrow> 'x"
  t_chunk2 :: "'x \<Rightarrow> 'x \<times> 'x"
  t_add :: "'x \<Rightarrow> 'x \<Rightarrow> 'x"
  t_sub :: "'x \<Rightarrow> 'x \<Rightarrow> 'x"
  t_mul :: "'x \<Rightarrow> 'x \<Rightarrow> 'x"
  t_div :: "'x \<Rightarrow> 'x \<Rightarrow> 'x"
  t_scale :: "'f \<Rightarrow> 'x \<Rightarrow> 'x"
  t_unscale :: "'x \<Rightarrow> 'f \<Rightarrow> 'x"
  t_abs :: "'x \<Rightarrow> 'x"
  t_mean :: "'x \<Rightarrow> 'x"
  clamp_min_eps :: "'x \<Rightarrow> 'x"
  t_float :: "'x \<Rightarrow> 'f"
  f_zero :: 'f
  f_add :: "'f \<Rightarrow> 'f \<Rightarrow> 'f"
  f_less :: "'f \<Rightarrow> 'f \<Rightarrow> bool"
  latents_mean :: "'x option"
  latents_std :: 'x
  view_as :: "'x \<Rightarrow> 'x \<Rightarrow> 'x"
  sigma_data :: 'f
  vae_decode :: "'x \<Rightarrow> 'x"
  postprocess_video :: "'x \<Rightarrow> string \<Rightarrow> 'x"

record 'f denoise_stats =
  full_forwards :: int
  skipped :: int
  rel_l1_history :: "'f list"
  skip_reasons :: "string list"

definition stats_init :: "'f denoise_stats" where
  "stats_init = \<lparr>full_forwards = 0, skipped = 0, rel_l1_history = [], skip_reasons = []\<rparr>"

record 'f denoise_args =
  prompt :: string
  negative_prompt :: "string option"
  height :: int
  width :: int
  num_frames :: int
  num_inference_steps :: int
  guidance_scale :: 'f
  fps :: int
  seed :: "int option"
  output_type :: string
  cfg_batched :: bool
  cache_skip_every :: int
  cache_warmup_steps :: int
  cache_mode :: string
  cache_adaptive_threshold :: 'f
  cache_force_full_every :: int

record ('x, 'f, 'c) loop_state =
  latents :: 'x
  cached_noise_pred :: "'x option"
  last_full_input :: "'x option"
  accumulated_rel_l1 :: 'f
  steps_since_full :: int
  scheduler :: 'c
  run_stats :: "'f denoise_stats option"

section \<open>The gate\<close>

definition cache_modes :: "string list" where
  "cache_modes = [''none'', ''fixed'', ''adaptive'']"

definition effective_mode :: "'f denoise_args \<Rightarrow> string" where
  "effective_mode a =
     (if cache_mode a = ''none'' \<and> cache_skip_every a \<ge> 2 then ''fixed'' else cache_mode a)"

definition fixed_gate :: "'f denoise_args \<Rightarrow> int \<Rightarrow> 'x option \<Rightarrow> bool" where
  "fixed_gate a step_idx cached \<longleftrightarrow>
     cache_skip_every a \<ge> 2 \<and> step_idx \<ge> cache_warmup_steps a \<and> cached \<noteq> None \<and>
     (step_idx - cache_warmup_steps a) mod cache_skip_every a \<noteq> 0"

definition rel_l1 :: "('x, 'f, 'c) cosmos_pipe \<Rightarrow> 'x \<Rightarrow> 'x \<Rightarrow> 'f" where
  "rel_l1 p x ref =
     (let diff = t_mean p (t_abs p (t_sub p x ref));
          denom = clamp_min_eps p (t_mean p (t_abs p ref))
      in t_float p (t_div p diff denom))"

text \<open>
  One gate decision: \<open>should_skip\<close>, \<open>skip_reason\<close>, \<open>rel_l1_value\<close>, and the accumulator after
  it. The only statement that can raise is the assertion that an input is remembered.
\<close>

definition adaptive_gate ::
    "('x, 'f, 'c) cosmos_pipe \<Rightarrow> 'f denoise_args \<Rightarrow> int \<Rightarrow> int \<Rightarrow> 'x \<Rightarrow> ('x, 'f, 'c) loop_state
      \<Rightarrow> exn + (bool \<times> string \<times> 'f \<times> 'f)" where
  "adaptive_gate p a n_steps step_idx x s =
     (let in_warmup = step_idx < cache_warmup_steps a;
          is_last = step_idx = n_steps - 1;
          acc = accumulated_rel_l1 s
      in if in_warmup \<or> is_last \<or> cached_noise_pred s = None then
           Inr (False,
             (if cached_noise_pred s = None \<and> \<not> in_warmup then ''no_cache_yet''
              else if in_warmup then ''warmup'' else ''last_step''), f_zero p, acc)
         else if cache_force_full_every a > 0 \<and> steps_since_full s \<ge> cache_force_full_every a then
           Inr (False, ''force_floor'', f_zero p, acc)
         else (case last_full_input s of
             None \<Rightarrow> Inl AssertionError
           | Some ref \<Rightarrow>
               (let v = rel_l1 p x ref; acc' = f_add p acc v
                in if f_less p acc' (cache_adaptive_threshold a)
                   then Inr (True, ''adaptive_skip'', v, acc')
                   else Inr (False, ''accumulator_over_threshold'', v, acc'))))"

definition gate ::
    "('x, 'f, 'c) cosmos_pipe \<Rightarrow> 'f denoise_args \<Rightarrow> int \<Rightarrow> int \<Rightarrow> 'x \<Rightarrow> ('x, 'f, 'c) loop_state
      \<Rightarrow> exn + (bool \<times> string \<times> 'f \<times> 'f)" where
  "gate p a n_steps step_idx x s =
     (if effective_mode a = ''fixed'' then
        (let skip = fixed_gate a step_idx (cached_noise_pred s)
         in Inr (skip, (if skip then ''fixed_skip'' else ''fixed_full''), f_zero p,
                 accumulated_rel_l1 s))
      else if effective_mode a = ''adaptive'' then adaptive_gate p a n_steps step_idx x s
      else Inr (False, ''full'', f_zero p, accumulated_rel_l1 s))"

section \<open>One step\<close>

definition forward_pass ::
    "('x, 'f, 'c) cosmos_pipe \<Rightarrow> 'f denoise_args \<Rightarrow> 'x \<times> 'x \<Rightarrow> 'x \<Rightarrow> 'x \<Rightarrow> 'x \<Rightarrow> 'x" where
  "forward_pass p a embeds padding x timestep =
     (let (cond, uncond) = embeds
      in if cfg_batched a then
           transformer p (t_repeat2 p x) (t_repeat2 p timestep) (t_cat p uncond cond) (fps a) padding
         else
           (let noise_pred_cond = transformer p x timestep cond (fps a) padding;
                noise_pred_uncond = transformer p x timestep uncond (fps a) padding
            in t_cat p noise_pred_uncond noise_pred_cond))"

definition full_forward ::
    "('x, 'f, 'c) cosmos_pipe \<Rightarrow> 'f denoise_args \<Rightarrow> 'x \<times> 'x \<Rightarrow> 'x \<Rightarrow> 'x \<Rightarrow> 'x
      \<Rightarrow> ('x, 'f, 'c) loop_state \<Rightarrow> ('x, 'f, 'c) loop_state \<times> 'x" where
  "full_forward p a embeds padding x timestep s =
     (let n = forward_pass p a embeds padding x timestep;
          s1 = s\<lparr>cached_noise_pred := Some n\<rparr>;
          s2 = (if effective_mode a = ''adaptive''
                then s1\<lparr>last_full_input := Some x, accumulated_rel_l1 := f_zero p,
                       steps_since_full := 0\<rparr>
                else s1)
      in (s2\<lparr>run_stats :=
            map_option (\<lambda>st. st\<lparr>full_forwards := full_forwards st + 1\<rparr>) (run_stats s2)\<rparr>, n))"

text \<open>
  The noise prediction used at a step, and the bookkeeping that goes with it. Skipping with
  nothing cached would hand \<open>None\<close> to the scheduler.
\<close>

definition predict ::
    "('x, 'f, 'c) cosmos_pipe \<Rightarrow> 'f denoise_args \<Rightarrow> 'x \<times> 'x \<Rightarrow> 'x \<Rightarrow> 'x \<Rightarrow> 'x \<Rightarrow> bool
      \<Rightarrow> ('x, 'f, 'c) loop_state \<Rightarrow> exn + (('x, 'f, 'c) loop_state \<times> 'x)" where
  "predict p a embeds padding x timestep should_skip s =
     (if should_skip then
        (case cached_noise_pred s of
           None \<Rightarrow> Inl (OtherException ''AttributeError'')
         | Some n \<Rightarrow>
             Inr (s\<lparr>steps_since_full := steps_since_full s + 1,
                    run_stats := map_option (\<lambda>st. st\<lparr>skipped := skipped st + 1\<rparr>) (run_stats s)\<rparr>, n))
      else Inr (full_forward p a embeds padding x timestep s))"

definition record_step :: "'f \<Rightarrow> string \<Rightarrow> 'f denoise_stats \<Rightarrow> 'f denoise_stats" where
  "record_step v reason st =
     st\<lparr>rel_l1_history := rel_l1_history st @ [v], skip_reasons := skip_reasons st @ [reason]\<rparr>"

text \<open>
  The two scheduler calls around classifier-free guidance: the first yields the prediction of
  the clean sample, and its advance of the step index is undone; the second advances the
  latents.
\<close>

definition advance ::
    "('x, 'f, 'c) cosmos_pipe \<Rightarrow> 'f denoise_args \<Rightarrow> 'x \<Rightarrow> 'x \<Rightarrow> ('x, 'f, 'c) loop_state
      \<Rightarrow> ('x, 'f, 'c) loop_state" where
  "advance p a t noise_pred s =
     (let sample = t_cat p (latents s) (latents s);
          (c1, (_, x0)) = scheduler_step p noise_pred t sample None (scheduler s);
          c2 = rewind_index p c1;
          (uncond, cond) = t_chunk2 p x0;
          guided = t_add p cond (t_scale p (guidance_scale a) (t_sub p cond uncond));
          (c3, (l, _)) = scheduler_step p guided t (latents s) (Some guided) c2
      in s\<lparr>latents := l, scheduler := c3\<rparr>)"

definition denoise_step ::
    "('x, 'f, 'c) cosmos_pipe \<Rightarrow> 'f denoise_args \<Rightarrow> 'x \<times> 'x \<Rightarrow> 'x \<Rightarrow> int \<Rightarrow> int \<Rightarrow> 'x
      \<Rightarrow> ('x, 'f, 'c) loop_state \<Rightarrow> exn + ('x, 'f, 'c) loop_state" where
  "denoise_step p a embeds padding n_steps step_idx t s0 =
     (let (c, scaled) = scale_model_input p (latents s0) t (scheduler s0);
          s = s0\<lparr>scheduler := c\<rparr>;
          x = to_dtype p scaled;
          timestep = to_dtype p (expand_to p t (latents s))
      in case gate p a n_steps step_idx x s of
           Inl e \<Rightarrow> Inl e
         | Inr (should_skip, reason, v, acc) \<Rightarrow>
             (case predict p a embeds padding x timestep should_skip (s\<lparr>accumulated_rel_l1 := acc\<rparr>) of
                Inl e \<Rightarrow> Inl e
              | Inr (s2, n) \<Rightarrow>
                  Inr (advance p a t n
                    (s2\<lparr>run_stats := map_option (record_step v reason) (run_stats s2)\<rparr>))))"

fun denoise_loop ::
    "('x, 'f, 'c) cosmos_pipe \<Rightarrow> 'f denoise_args \<Rightarrow> 'x \<times> 'x \<Rightarrow> 'x \<Rightarrow> int \<Rightarrow> int \<Rightarrow> 'x list
      \<Rightarrow> ('x, 'f, 'c) loop_state \<Rightarrow> exn + ('x, 'f, 'c) loop_state" where
  "denoise_loop p a embeds padding n_steps step_idx [] s = Inr s"
| "denoise_loop p a embeds padding n_steps step_idx (t # ts) s =
     (case denoise_step p a embeds padding n_steps step_idx t s of
        Inl e \<Rightarrow> Inl e
      | Inr s' \<Rightarrow> denoise_loop p a embeds padding n_steps (step_idx + 1) ts s')"

section \<open>The whole call\<close>

definition decode_video :: "('x, 'f, 'c) cosmos_pipe \<Rightarrow> 'f denoise_args \<Rightarrow> 'x \<Rightarrow> 'x" where
  "decode_video p a l =
     (let l' = (case latents_mean p of
                  Some m \<Rightarrow>
                    t_add p (t_unscale p (t_mul p l (view_as p (latents_std p) l)) (sigma_data p))
                      (view_as p m l)
                | None \<Rightarrow> t_unscale p l (sigma_data p))
      in postprocess_video p (vae_decode p l') (output_type a))"

definition denoise_impl ::
    "('x, 'f, 'c) cosmos_pipe \<Rightarrow> 'f denoise_args \<Rightarrow> 'f denoise_stats option \<Rightarrow> 'c
      \<Rightarrow> exn + ('x \<times> 'f denoise_stats option \<times> 'c)" where
  "denoise_impl p a st c0 =
     (let embeds = encode_prompt p (prompt a) (negative_prompt a);
          (c1, ts) = set_timesteps p (num_inference_steps a) c0;
          l = prepare_latents p (height a) (width a) (num_frames a) (seed a);
          padding = zero_mask p l (height a) (width a)
      in case denoise_loop p a embeds padding (int (length ts)) 0 ts
             \<lparr>latents = l, cached_noise_pred = None, last_full_input = None,
              accumulated_rel_l1 = f_zero p, steps_since_full = 0, scheduler = c1,
              run_stats = st\<rparr> of
           Inl e \<Rightarrow> Inl e
         | Inr s \<Rightarrow> Inr (decode_video p a (latents s), run_stats s, scheduler s))"

definition denoise_cosmos_video ::
    "('x, 'f, 'c) cosmos_pipe \<Rightarrow> 'f denoise_args \<Rightarrow> 'f denoise_stats option \<Rightarrow> 'c
      \<Rightarrow> exn + ('x \<times> 'f denoise_stats option \<times> 'c)" where
  "denoise_cosmos_video p a st c0 =
     (if cache_mode a \<notin> set cache_modes
      then Inl (ValueError (''cache_mode must be one of ('' @ concat cache_modes @ ''); got ''
                  @ cache_mode a))
      else denoise_impl p a st c0)"

section \<open>What each step does\<close>

definition is_skip :: "string \<Rightarrow> bool" where
  "is_skip r \<longleftrightarrow> r \<in> {''fixed_skip'', ''adaptive_skip''}"

definition step_reason :: "'f denoise_args \<Rightarrow> int \<Rightarrow> int \<Rightarrow> string \<Rightarrow> bool" where
  "step_reason a n_steps i r \<longleftrightarrow>
     (if effective_mode a = ''fixed'' then
        r = (if cache_skip_every a \<ge> 2 \<and> i > 0 \<and> i \<ge> cache_warmup_steps a
                \<and> (i - cache_warmup_steps a) mod cache_skip_every a \<noteq> 0
             then ''fixed_skip'' else ''fixed_full'')
      else if effective_mode a = ''adaptive'' then
        (if i < cache_warmup_steps a then r = ''warmup''
         else if i = 0 then r = ''no_cache_yet''
         else if i = n_steps - 1 then r = ''last_step''
         else r \<in> {''force_floor'', ''adaptive_skip'', ''accumulator_over_threshold''})
      else r = ''full'')"

fun skip_runs_within :: "int \<Rightarrow> int \<Rightarrow> string list \<Rightarrow> bool" where
  "skip_runs_within m k [] = True"
| "skip_runs_within m k (r # rs) =
     (if r = ''adaptive_skip'' then k + 1 \<le> m \<and> skip_runs_within m (k + 1) rs
      else skip_runs_within m 0 rs)"

lemma skip_runs_prefix:
  "skip_runs_within m k (replicate n ''adaptive_skip'' @ rs) \<Longrightarrow> k \<le> m \<Longrightarrow> k + int n \<le> m"
  by (induction n arbitrary: k) (auto, fastforce)

lemma skip_runs_sublist:
  "skip_runs_within m k rs \<Longrightarrow> k \<ge> 0 \<Longrightarrow> m \<ge> 0 \<Longrightarrow>
    sublist (replicate n ''adaptive_skip'') rs \<Longrightarrow> int n \<le> m"
proof (induction rs arbitrary: k)
  case (Cons r rs)
  show ?case
  proof (cases "prefix (replicate n ''adaptive_skip'') (r # rs)")
    case True
    then obtain zs where zs: "r # rs = replicate n ''adaptive_skip'' @ zs" by (auto simp: prefix_def)
    show ?thesis
    proof (cases n)
      case (Suc k')
      then have r: "r = ''adaptive_skip''" using zs by simp
      then have "k \<le> m" using Cons.prems(1) by simp
      with skip_runs_prefix [of m k n zs] Cons.prems(1,2) zs show ?thesis by simp
    qed (use Cons.prems in simp)
  next
    case False
    with Cons.prems(4) have "sublist (replicate n ''adaptive_skip'') rs"
      by (simp add: sublist_Cons_right)
    with Cons.IH Cons.prems(1-3) show ?thesis by (auto split: if_splits)
  qed
qed simp

definition counted :: "'f \<Rightarrow> string \<Rightarrow> 'f denoise_stats \<Rightarrow> 'f denoise_stats" where
  "counted v r st = record_step v r
     (if is_skip r then st\<lparr>skipped := skipped st + 1\<rparr>
      else st\<lparr>full_forwards := full_forwards st + 1\<rparr>)"

definition loop_inv :: "'f denoise_args \<Rightarrow> int \<Rightarrow> ('x, 'f, 'c) loop_state \<Rightarrow> bool" where
  "loop_inv a i s \<longleftrightarrow> 0 \<le> i \<and> (cached_noise_pred s = None \<longleftrightarrow> i = 0) \<and>
     (effective_mode a = ''adaptive'' \<longrightarrow> (last_full_input s = None \<longleftrightarrow> i = 0)
        \<and> 0 \<le> steps_since_full s)"

text \<open>The part of the loop state the gate reads, after a step with reason \<open>r\<close>.\<close>

definition step_effect ::
    "'f denoise_args \<Rightarrow> string \<Rightarrow> 'f \<Rightarrow> ('x, 'f, 'c) loop_state \<Rightarrow> ('x, 'f, 'c) loop_state \<Rightarrow> bool" where
  "step_effect a r v s s' \<longleftrightarrow> run_stats s' = map_option (counted v r) (run_stats s) \<and>
     (effective_mode a = ''adaptive'' \<longrightarrow>
        (if r = ''adaptive_skip''
         then steps_since_full s' = steps_since_full s + 1 \<and>
           (cache_force_full_every a > 0 \<longrightarrow> steps_since_full s' \<le> cache_force_full_every a)
         else steps_since_full s' = 0))"

lemma gate_total:
  assumes "loop_inv a i s" shows "gate p a n_steps i x s \<noteq> Inl e"
  using assms by (auto simp: gate_def adaptive_gate_def loop_inv_def Let_def split: option.splits)

lemma fixed_gate_result:
  assumes "loop_inv a i s" "effective_mode a = ''fixed''" "gate p a n_steps i x s = Inr (sk, r, v, acc)"
  shows "step_reason a n_steps i r \<and> sk = is_skip r \<and> (sk \<longrightarrow> i > 0)"
  using assms by (auto simp: gate_def fixed_gate_def step_reason_def is_skip_def loop_inv_def Let_def
      split: if_splits)

lemma adaptive_gate_result:
  assumes "loop_inv a i s" "effective_mode a = ''adaptive''"
    "adaptive_gate p a n_steps i x s = Inr (sk, r, v, acc)"
  shows "step_reason a n_steps i r \<and> sk = (r = ''adaptive_skip'') \<and> r \<noteq> ''fixed_skip'' \<and>
    (sk \<longrightarrow> i > 0 \<and> (cache_force_full_every a > 0 \<longrightarrow> steps_since_full s < cache_force_full_every a))"
  using assms by (auto simp: adaptive_gate_def step_reason_def loop_inv_def Let_def
      split: if_splits option.splits)

lemma gate_ok:
  assumes "loop_inv a i s"
  obtains sk r v acc where "gate p a n_steps i x s = Inr (sk, r, v, acc)"
    "step_reason a n_steps i r" "sk = is_skip r" "sk \<longrightarrow> i > 0"
    "effective_mode a = ''adaptive'' \<longrightarrow> (sk \<longleftrightarrow> r = ''adaptive_skip'')"
    "effective_mode a = ''adaptive'' \<and> sk \<and> cache_force_full_every a > 0 \<longrightarrow>
       steps_since_full s < cache_force_full_every a"
proof -
  obtain sk r v acc where g: "gate p a n_steps i x s = Inr (sk, r, v, acc)"
    using gate_total [OF assms, of p n_steps x] by (metis prod_cases4 sum.exhaust)
  consider (fixed) "effective_mode a = ''fixed''" | (adaptive) "effective_mode a = ''adaptive''"
    | (full) "effective_mode a \<noteq> ''fixed''" "effective_mode a \<noteq> ''adaptive''" by blast
  then show thesis
  proof cases
    case fixed
    with fixed_gate_result [OF assms fixed g] g that show thesis by simp
  next
    case adaptive
    then have "adaptive_gate p a n_steps i x s = Inr (sk, r, v, acc)"
      using g by (simp add: gate_def)
    from adaptive_gate_result [OF assms adaptive this] g that show thesis
      by (auto simp: is_skip_def)
  next
    case full
    with g have "r = ''full''" "\<not> sk" by (auto simp: gate_def)
    with full g that show thesis by (simp add: step_reason_def is_skip_def)
  qed
qed

lemma advance_frame [simp]:
  "cached_noise_pred (advance p a t n s) = cached_noise_pred s"
  "last_full_input (advance p a t n s) = last_full_input s"
  "accumulated_rel_l1 (advance p a t n s) = accumulated_rel_l1 s"
  "steps_since_full (advance p a t n s) = steps_since_full s"
  "run_stats (advance p a t n s) = run_stats s"
  by (simp_all add: advance_def Let_def split: prod.splits)

lemma map_option_counted:
  "map_option (record_step v r) (map_option (\<lambda>st. st\<lparr>skipped := skipped st + 1\<rparr>) o1)
     = map_option (counted v r) o1" if "is_skip r" for o1
  using that by (cases o1) (simp_all add: counted_def)

lemma map_option_counted':
  "map_option (record_step v r) (map_option (\<lambda>st. st\<lparr>full_forwards := full_forwards st + 1\<rparr>) o1)
     = map_option (counted v r) o1" if "\<not> is_skip r" for o1
  using that by (cases o1) (simp_all add: counted_def)

lemma denoise_step_ok:
  assumes "loop_inv a i s"
  obtains s' r v where "denoise_step p a embeds padding n_steps i t s = Inr s'"
    "loop_inv a (i + 1) s'" "step_reason a n_steps i r" "step_effect a r v s s'"
proof -
  let ?c = "fst (scale_model_input p (latents s) t (scheduler s))"
  let ?x = "to_dtype p (snd (scale_model_input p (latents s) t (scheduler s)))"
  let ?s = "s\<lparr>scheduler := ?c\<rparr>"
  let ?ts = "to_dtype p (expand_to p t (latents s))"
  have "loop_inv a i ?s" using assms by (simp add: loop_inv_def)
  then obtain sk r v acc where g: "gate p a n_steps i ?x ?s = Inr (sk, r, v, acc)"
    "step_reason a n_steps i r" "sk = is_skip r" "sk \<longrightarrow> i > 0"
    "effective_mode a = ''adaptive'' \<longrightarrow> (sk \<longleftrightarrow> r = ''adaptive_skip'')"
    "effective_mode a = ''adaptive'' \<and> sk \<and> cache_force_full_every a > 0 \<longrightarrow>
       steps_since_full s < cache_force_full_every a"
    by (rule gate_ok [of a i ?s p n_steps ?x]) simp
  let ?p = "predict p a embeds padding ?x ?ts sk (?s\<lparr>accumulated_rel_l1 := acc\<rparr>)"
  have step: "denoise_step p a embeds padding n_steps i t s = (case ?p of Inl e \<Rightarrow> Inl e
      | Inr (s2, n) \<Rightarrow> Inr (advance p a t n
          (s2\<lparr>run_stats := map_option (record_step v r) (run_stats s2)\<rparr>)))"
    using g(1) by (simp add: denoise_step_def Let_def split_beta split: sum.split)
  show thesis
  proof (cases sk)
    case True
    with g(4) assms obtain n where n: "cached_noise_pred s = Some n" by (auto simp: loop_inv_def)
    with True step have "denoise_step p a embeds padding n_steps i t s = Inr (advance p a t n
        (?s\<lparr>accumulated_rel_l1 := acc, steps_since_full := steps_since_full s + 1,
           run_stats := map_option (counted v r) (run_stats s)\<rparr>))"
      using g(3) by (simp add: predict_def map_option_counted)
    then show thesis
      by (rule that) (use assms g n True in \<open>auto simp: loop_inv_def step_effect_def\<close>)
  next
    case False
    let ?s1 = "?s\<lparr>accumulated_rel_l1 := acc, cached_noise_pred :=
        Some (forward_pass p a embeds padding ?x ?ts)\<rparr>"
    from False step have "denoise_step p a embeds padding n_steps i t s = Inr (advance p a t
        (forward_pass p a embeds padding ?x ?ts)
        ((if effective_mode a = ''adaptive''
          then ?s1\<lparr>last_full_input := Some ?x, accumulated_rel_l1 := f_zero p, steps_since_full := 0\<rparr>
          else ?s1)\<lparr>run_stats := map_option (counted v r) (run_stats s)\<rparr>))"
      using g(3) by (simp add: predict_def full_forward_def map_option_counted' Let_def)
    then show thesis
      by (rule that) (use assms g False in \<open>auto simp: loop_inv_def step_effect_def\<close>)
  qed
qed

section \<open>What the loop does\<close>

definition counted_run :: "string list \<Rightarrow> 'f denoise_stats \<Rightarrow> 'f denoise_stats \<Rightarrow> bool" where
  "counted_run rs st st' \<longleftrightarrow>
     skip_reasons st' = skip_reasons st @ rs \<and>
     length (rel_l1_history st') = length (rel_l1_history st) + length rs \<and>
     skipped st' = skipped st + int (length (filter is_skip rs)) \<and>
     full_forwards st' = full_forwards st + int (length (filter (\<lambda>r. \<not> is_skip r) rs))"

lemma counted_run_Nil: "counted_run [] st st"
  by (simp add: counted_run_def)

lemma counted_run_Cons: "counted_run rs (counted v r st) st' \<Longrightarrow> counted_run (r # rs) st st'"
  by (auto simp: counted_run_def counted_def record_step_def)

definition reasons_ok :: "'f denoise_args \<Rightarrow> int \<Rightarrow> int \<Rightarrow> string list \<Rightarrow> bool" where
  "reasons_ok a n_steps i rs \<longleftrightarrow> (\<forall>j < length rs. step_reason a n_steps (i + int j) (rs ! j))"

lemma reasons_ok_Cons:
  assumes "step_reason a n_steps i r" "reasons_ok a n_steps (i + 1) rs"
  shows "reasons_ok a n_steps i (r # rs)"
  unfolding reasons_ok_def
proof (intro allI impI)
  fix j assume "j < length (r # rs)"
  with assms show "step_reason a n_steps (i + int j) ((r # rs) ! j)"
    by (cases j) (auto simp: reasons_ok_def algebra_simps)
qed

lemma denoise_loop_ok:
  assumes "loop_inv a i s"
  obtains s' rs where "denoise_loop p a embeds padding n_steps i ts s = Inr s'"
    "length rs = length ts" "reasons_ok a n_steps i rs"
    "rel_option (counted_run rs) (run_stats s) (run_stats s')"
    "effective_mode a = ''adaptive'' \<and> cache_force_full_every a > 0 \<longrightarrow>
       skip_runs_within (cache_force_full_every a) (steps_since_full s) rs"
  using assms
proof (induction ts arbitrary: i s thesis)
  case Nil
  have "rel_option (counted_run []) (run_stats s) (run_stats s)"
    by (rule option.rel_refl) (rule counted_run_Nil)
  then show ?case using Nil.prems(1) [of s "[]"] by (simp add: reasons_ok_def)
next
  case (Cons t ts)
  obtain s1 r v where s1: "denoise_step p a embeds padding n_steps i t s = Inr s1"
    "loop_inv a (i + 1) s1" "step_reason a n_steps i r" "step_effect a r v s s1"
    using denoise_step_ok [OF Cons.prems(2)] by metis
  obtain s' rs where IH: "denoise_loop p a embeds padding n_steps (i + 1) ts s1 = Inr s'"
    "length rs = length ts" "reasons_ok a n_steps (i + 1) rs"
    "rel_option (counted_run rs) (run_stats s1) (run_stats s')"
    "effective_mode a = ''adaptive'' \<and> cache_force_full_every a > 0 \<longrightarrow>
       skip_runs_within (cache_force_full_every a) (steps_since_full s1) rs"
    using Cons.IH [OF _ s1(2)] by metis
  show ?case
  proof (rule Cons.prems(1) [of s' "r # rs"])
    show "denoise_loop p a embeds padding n_steps i (t # ts) s = Inr s'" using s1(1) IH(1) by simp
    show "length (r # rs) = length (t # ts)" using IH(2) by simp
    show "reasons_ok a n_steps i (r # rs)" using s1(3) IH(3) by (rule reasons_ok_Cons)
    show "rel_option (counted_run (r # rs)) (run_stats s) (run_stats s')"
      using IH(4) s1(4) by (cases "run_stats s"; cases "run_stats s'")
        (auto simp: step_effect_def intro: counted_run_Cons)
    show "effective_mode a = ''adaptive'' \<and> cache_force_full_every a > 0 \<longrightarrow>
       skip_runs_within (cache_force_full_every a) (steps_since_full s) (r # rs)"
      using IH(5) s1(4) by (auto simp: step_effect_def)
  qed
qed

definition denoise_steps :: "('x, 'f, 'c) cosmos_pipe \<Rightarrow> 'f denoise_args \<Rightarrow> 'c \<Rightarrow> 'x list" where
  "denoise_steps p a c0 = snd (set_timesteps p (num_inference_steps a) c0)"

lemma denoise_video_ok:
  assumes "cache_mode a \<in> set cache_modes"
  obtains v st c where "denoise_cosmos_video p a (Some stats_init) c0 = Inr (v, Some st, c)"
    "length (skip_reasons st) = length (denoise_steps p a c0)"
    "counted_run (skip_reasons st) stats_init st"
    "reasons_ok a (int (length (denoise_steps p a c0))) 0 (skip_reasons st)"
    "effective_mode a = ''adaptive'' \<and> cache_force_full_every a > 0 \<longrightarrow>
       skip_runs_within (cache_force_full_every a) 0 (skip_reasons st)"
proof -
  let ?c = "fst (set_timesteps p (num_inference_steps a) c0)" and ?ts = "denoise_steps p a c0"
  let ?l = "prepare_latents p (height a) (width a) (num_frames a) (seed a)"
  let ?s = "\<lparr>latents = ?l, cached_noise_pred = None, last_full_input = None,
      accumulated_rel_l1 = f_zero p, steps_since_full = 0, scheduler = ?c,
      run_stats = Some stats_init\<rparr>"
  have "loop_inv a 0 ?s" by (simp add: loop_inv_def)
  then obtain s' rs where L: "denoise_loop p a (encode_prompt p (prompt a) (negative_prompt a))
      (zero_mask p ?l (height a) (width a)) (int (length ?ts)) 0 ?ts ?s = Inr s'"
    "length rs = length ?ts" "reasons_ok a (int (length ?ts)) 0 rs"
    "rel_option (counted_run rs) (Some stats_init) (run_stats s')"
    "effective_mode a = ''adaptive'' \<and> cache_force_full_every a > 0 \<longrightarrow>
       skip_runs_within (cache_force_full_every a) 0 rs"
    by (rule denoise_loop_ok) auto
  from L(4) obtain st where st: "run_stats s' = Some st" "counted_run rs stats_init st"
    by (cases "run_stats s'") auto
  then have rs: "skip_reasons st = rs" by (simp add: counted_run_def stats_init_def)
  from L(1) st(1) assms have "denoise_cosmos_video p a (Some stats_init) c0
      = Inr (decode_video p a (latents s'), Some st, scheduler s')"
    by (simp add: denoise_cosmos_video_def denoise_impl_def denoise_steps_def Let_def split_beta)
  with L st rs show thesis by (intro that) auto
qed

section \<open>Properties of the call\<close>

text \<open>A pipeline small enough to compute with: a tensor is a list of integers.\<close>

definition small_pipe :: "(int list, int, int) cosmos_pipe" where
  "small_pipe =
     \<lparr>encode_prompt = (\<lambda>p n. ([1], [2])),
      set_timesteps = (\<lambda>n c. (c, map (\<lambda>i. [i]) [1..n])),
      prepare_latents = (\<lambda>h w n s. [5]),
      zero_mask = (\<lambda>l h w. [0]),
      scale_model_input = (\<lambda>x t c. (c, x)),
      to_dtype = (\<lambda>x. x), expand_to = (\<lambda>t x. t),
      transformer = (\<lambda>x t e f m. map (\<lambda>b. b + sum_list (take 1 x)) e),
      scheduler_step = (\<lambda>n t x o'. \<lambda>c. (c + 1, (n, n))),
      rewind_index = (\<lambda>c. c - 1),
      t_cat = (@), t_repeat2 = (\<lambda>x. x @ x), t_chunk2 = (\<lambda>x. (take 1 x, drop 1 x)),
      t_add = map2 (+), t_sub = map2 (-), t_mul = map2 (*), t_div = (\<lambda>x y. x),
      t_scale = (\<lambda>f. map ((*) f)), t_unscale = (\<lambda>x f. x), t_abs = map abs,
      t_mean = (\<lambda>x. x), clamp_min_eps = (\<lambda>x. x), t_float = sum_list,
      f_zero = 0, f_add = (+), f_less = (<),
      latents_mean = None, latents_std = [1], view_as = (\<lambda>x l. x), sigma_data = 1,
      vae_decode = (\<lambda>x. x), postprocess_video = (\<lambda>x o'. x)\<rparr>"

definition small_args :: "string \<Rightarrow> int denoise_args" where
  "small_args m =
     \<lparr>prompt = ''p'', negative_prompt = None, height = 1, width = 1, num_frames = 1,
      num_inference_steps = 6, guidance_scale = 1, fps = 30, seed = None, output_type = ''pt'',
      cfg_batched = True, cache_skip_every = 2, cache_warmup_steps = 1, cache_mode = m,
      cache_adaptive_threshold = 1000, cache_force_full_every = 2\<rparr>"

text \<open>with a known cache mode the denoising call always returns (its assertion that an
  input is remembered never fails), and the statistics it fills in account for every step: one
  reason and one distance per step, and full forwards plus skipped steps add up to the number of
  scheduler steps, the skipped ones being those whose reason is a skip.\<close>

theorem denoising_accounts_for_every_step:
  assumes "cache_mode a \<in> set cache_modes"
  shows "\<exists>v st c. denoise_cosmos_video p a (Some stats_init) c0 = Inr (v, Some st, c)
    \<and> length (skip_reasons st) = length (denoise_steps p a c0)
    \<and> length (rel_l1_history st) = length (denoise_steps p a c0)
    \<and> full_forwards st + skipped st = int (length (denoise_steps p a c0))
    \<and> skipped st = int (length (filter is_skip (skip_reasons st)))"
proof -
  obtain v st c where *: "denoise_cosmos_video p a (Some stats_init) c0 = Inr (v, Some st, c)"
    "length (skip_reasons st) = length (denoise_steps p a c0)"
    "counted_run (skip_reasons st) stats_init st"
    using denoise_video_ok [OF assms] by metis
  have "length (filter is_skip rs) + length (filter (\<lambda>r. \<not> is_skip r) rs) = length rs" for rs
    by (rule sum_length_filter_compl)
  from this [of "skip_reasons st"] * show ?thesis
    by (auto simp: counted_run_def stats_init_def)
qed

theorem denoising_accounts_for_every_step_witness:
  "\<exists>v st c. denoise_cosmos_video small_pipe (small_args ''adaptive'') (Some stats_init) 0
      = Inr (v, Some st, c) \<and> full_forwards st + skipped st = 6"
proof -
  have "cache_mode (small_args ''adaptive'') \<in> set cache_modes"
    by (simp add: small_args_def cache_modes_def)
  from denoising_accounts_for_every_step [OF this, of small_pipe 0]
  obtain v st c where "denoise_cosmos_video small_pipe (small_args ''adaptive'') (Some stats_init) 0
      = Inr (v, Some st, c)" "full_forwards st + skipped st
      = int (length (denoise_steps small_pipe (small_args ''adaptive'') 0))" by blast
  moreover have "length (denoise_steps small_pipe (small_args ''adaptive'') 0) = 6" by code_simp
  ultimately show ?thesis by auto
qed

text \<open>C13: the quality floor of the adaptive cache. Every warmup step, the first step and the
  last step run the transformer, and when a floor n is set no more than n steps in a row reuse
  a cached prediction.\<close>

theorem adaptive_cache_keeps_its_quality_floor:
  assumes "cache_mode a = ''adaptive''"
    and "denoise_cosmos_video p a (Some stats_init) c0 = Inr (v, Some st, c)"
  shows "(\<forall>i < length (skip_reasons st).
      int i < cache_warmup_steps a \<or> i = 0 \<or> i = length (denoise_steps p a c0) - 1 \<longrightarrow>
      \<not> is_skip (skip_reasons st ! i))
    \<and> (\<forall>k. cache_force_full_every a > 0 \<and> sublist (replicate k ''adaptive_skip'') (skip_reasons st) \<longrightarrow>
      int k \<le> cache_force_full_every a)"
proof -
  have mode: "effective_mode a = ''adaptive''" "cache_mode a \<in> set cache_modes"
    using assms(1) by (simp_all add: effective_mode_def cache_modes_def)
  from denoise_video_ok [OF mode(2), of p c0] assms(2)
  have len: "length (skip_reasons st) = length (denoise_steps p a c0)"
    and ok: "reasons_ok a (int (length (denoise_steps p a c0))) 0 (skip_reasons st)"
    and runs: "cache_force_full_every a > 0 \<Longrightarrow>
       skip_runs_within (cache_force_full_every a) 0 (skip_reasons st)"
    using mode(1) by fastforce+
  have "\<not> is_skip (skip_reasons st ! i)" if "i < length (skip_reasons st)"
    "int i < cache_warmup_steps a \<or> i = 0 \<or> i = length (denoise_steps p a c0) - 1" for i
  proof -
    from ok that(1) have "step_reason a (int (length (denoise_steps p a c0))) (int i) (skip_reasons st ! i)"
      by (simp add: reasons_ok_def)
    with that len mode(1) show ?thesis
      by (auto simp: step_reason_def is_skip_def split: if_splits)
  qed
  moreover have "int k \<le> cache_force_full_every a"
    if "cache_force_full_every a > 0" "sublist (replicate k ''adaptive_skip'') (skip_reasons st)" for k
    using skip_runs_sublist [OF runs [OF that(1)] _ _ that(2)] that(1) by simp
  ultimately show ?thesis by blast
qed

theorem adaptive_cache_keeps_its_quality_floor_witness:
  "skip_reasons (case denoise_cosmos_video small_pipe (small_args ''adaptive'') (Some stats_init) 0 of
      Inr (v, Some st, c) \<Rightarrow> st | _ \<Rightarrow> stats_init)
    = [''warmup'', ''adaptive_skip'', ''adaptive_skip'', ''force_floor'', ''adaptive_skip'', ''last_step'']
   \<and> \<not> is_skip ''last_step''"
proof -
  let ?r = "denoise_cosmos_video small_pipe (small_args ''adaptive'') (Some stats_init) 0"
  let ?rs = "[''warmup'', ''adaptive_skip'', ''adaptive_skip'', ''force_floor'', ''adaptive_skip'', ''last_step'']"
  have m: "cache_mode (small_args ''adaptive'') = ''adaptive''" by (simp add: small_args_def)
  have r: "skip_reasons (case ?r of Inr (v, Some st, c) \<Rightarrow> st | _ \<Rightarrow> stats_init) = ?rs" by code_simp
  have "cache_mode (small_args ''adaptive'') \<in> set cache_modes" using m by (simp add: cache_modes_def)
  then obtain v st c where e: "?r = Inr (v, Some st, c)" by (rule denoise_video_ok)
  with r have "skip_reasons st = ?rs" by simp
  with adaptive_cache_keeps_its_quality_floor [OF m e]
  have "\<not> is_skip (?rs ! 0)" by (metis length_greater_0_conv list.discI)
  with r show ?thesis by (simp add: is_skip_def)
qed

text \<open>the fixed cadence is exact. In the \<open>fixed\<close> mode (or in the default mode with a
  cadence of at least two) step i reuses the cached prediction just when it is not the first
  step, the warmup is over, and its distance from the end of the warmup is not a multiple of
  the cadence.\<close>

theorem fixed_cadence_is_exact:
  assumes "cache_mode a = ''fixed'' \<or> cache_mode a = ''none''" "cache_skip_every a \<ge> 2"
    and "denoise_cosmos_video p a (Some stats_init) c0 = Inr (v, Some st, c)"
    and "i < length (denoise_steps p a c0)"
  shows "is_skip (skip_reasons st ! i) \<longleftrightarrow>
    i > 0 \<and> int i \<ge> cache_warmup_steps a \<and>
    (int i - cache_warmup_steps a) mod cache_skip_every a \<noteq> 0"
proof -
  have mode: "effective_mode a = ''fixed''" "cache_mode a \<in> set cache_modes"
    using assms(1,2) by (auto simp: effective_mode_def cache_modes_def)
  from denoise_video_ok [OF mode(2), of p c0] assms(3)
  have "length (skip_reasons st) = length (denoise_steps p a c0)"
    and "reasons_ok a (int (length (denoise_steps p a c0))) 0 (skip_reasons st)"
    by fastforce+
  with assms(4) have "step_reason a (int (length (denoise_steps p a c0))) (int i) (skip_reasons st ! i)"
    by (simp add: reasons_ok_def)
  with mode(1) assms(2) show ?thesis
    by (auto simp: step_reason_def is_skip_def)
qed

theorem fixed_cadence_is_exact_witness:
  "is_skip (skip_reasons (case denoise_cosmos_video small_pipe (small_args ''none'') (Some stats_init) 0 of
      Inr (v, Some st, c) \<Rightarrow> st | _ \<Rightarrow> stats_init) ! 2)"
proof -
  let ?r = "denoise_cosmos_video small_pipe (small_args ''none'') (Some stats_init) 0"
  have m: "cache_mode (small_args ''none'') = ''none''" "cache_skip_every (small_args ''none'') = 2"
    "cache_warmup_steps (small_args ''none'') = 1"
    by (simp_all add: small_args_def)
  have "cache_mode (small_args ''none'') \<in> set cache_modes" using m by (simp add: cache_modes_def)
  then obtain v st c where e: "?r = Inr (v, Some st, c)" by (rule denoise_video_ok)
  have "length (denoise_steps small_pipe (small_args ''none'') 0) = 6" by code_simp
  with fixed_cadence_is_exact [OF _ _ e, of 2] m have "is_skip (skip_reasons st ! 2)" by simp
  with e show ?thesis by simp
qed

section \<open>Batched guidance\<close>

definition batch_law :: "('x, 'f, 'c) cosmos_pipe \<Rightarrow> bool" where
  "batch_law p \<longleftrightarrow> (\<forall>x t u c f m.
     transformer p (t_repeat2 p x) (t_repeat2 p t) (t_cat p u c) f m
       = t_cat p (transformer p x t u f m) (transformer p x t c f m))"

lemma forward_pass_batched:
  "batch_law p \<Longrightarrow> forward_pass p (a\<lparr>cfg_batched := True\<rparr>) = forward_pass p (a\<lparr>cfg_batched := False\<rparr>)"
  by (auto simp: forward_pass_def batch_law_def Let_def fun_eq_iff)

lemma cfg_batched_frame:
  "effective_mode (a\<lparr>cfg_batched := b\<rparr>) = effective_mode a"
  "gate p (a\<lparr>cfg_batched := b\<rparr>) = gate p a"
  "advance p (a\<lparr>cfg_batched := b\<rparr>) = advance p a"
  "decode_video p (a\<lparr>cfg_batched := b\<rparr>) = decode_video p a"
  by (simp_all add: effective_mode_def gate_def adaptive_gate_def fixed_gate_def advance_def
      decode_video_def Let_def fun_eq_iff split: option.split)

lemma predict_batched:
  "batch_law p \<Longrightarrow> predict p (a\<lparr>cfg_batched := True\<rparr>) = predict p (a\<lparr>cfg_batched := False\<rparr>)"
  unfolding predict_def full_forward_def cfg_batched_frame
  by (simp only: forward_pass_batched)

lemma denoise_step_batched:
  "batch_law p \<Longrightarrow> denoise_step p (a\<lparr>cfg_batched := True\<rparr>) = denoise_step p (a\<lparr>cfg_batched := False\<rparr>)"
  unfolding denoise_step_def cfg_batched_frame by (simp only: predict_batched)

lemma denoise_loop_batched:
  "batch_law p \<Longrightarrow> denoise_loop p (a\<lparr>cfg_batched := True\<rparr>) embeds padding n i ts s
     = denoise_loop p (a\<lparr>cfg_batched := False\<rparr>) embeds padding n i ts s"
  by (induction ts arbitrary: i s) (auto simp: denoise_step_batched split: sum.split)

lemma denoise_impl_batched:
  "batch_law p \<Longrightarrow> denoise_impl p (a\<lparr>cfg_batched := True\<rparr>) = denoise_impl p (a\<lparr>cfg_batched := False\<rparr>)"
  unfolding denoise_impl_def cfg_batched_frame by (simp only: denoise_loop_batched) simp

text \<open>folding the two guidance forwards into one batch of two changes nothing. If the
  transformer treats the rows of a batch independently, the batched call and the reference call
  with two sequential forwards return the same video, the same statistics and the same scheduler
  state, in every cache mode.\<close>

theorem batched_guidance_matches_sequential:
  assumes "batch_law p"
  shows "denoise_cosmos_video p (a\<lparr>cfg_batched := True\<rparr>) st c0
    = denoise_cosmos_video p (a\<lparr>cfg_batched := False\<rparr>) st c0"
  by (simp add: denoise_cosmos_video_def denoise_impl_batched [OF assms])

theorem batched_guidance_matches_sequential_witness:
  "denoise_cosmos_video small_pipe (small_args ''fixed'') None 0
    = denoise_cosmos_video small_pipe (small_args ''fixed''\<lparr>cfg_batched := False\<rparr>) None 0"
proof -
  have "sum_list (take 1 (x @ x)) = sum_list (take 1 x)" for x :: "int list"
    by (cases x) simp_all
  then have "batch_law small_pipe"
    by (simp add: batch_law_def small_pipe_def del: take_append)
  from batched_guidance_matches_sequential [OF this, of "small_args ''fixed''" None 0]
  show ?thesis by (simp only: small_args_def denoise_args.update_convs)
qed

end
