(* ===== verification/RuntimeTypes.thy ===== *)
theory RuntimeTypes
  imports Json
begin

text \<open>
  The request, response and frame types of the runtime (\<open>runtime/types.py\<close>), the engine
  contract (\<open>runtime/engine.py\<close>) and the engine without a model (\<open>runtime/stub_engine.py\<close>). A
  Pydantic model is a record with a validation function from JSON, \<open>None\<close> where
  \<open>model_validate\<close> raises, and a dump back to JSON. Pydantic's coercions of single values and
  its bound check on floats are fields of \<open>pydantic\<close>; which fields a model has, their defaults,
  their bounds and that unknown keys are refused are the code's.
\<close>

section \<open>Validation\<close>

record pydantic =
  lax_int :: "json \<Rightarrow> int option"
  lax_float :: "json \<Rightarrow> pyfloat option"
  lax_bool :: "json \<Rightarrow> bool option"
  lax_str :: "json \<Rightarrow> string option"
  float_within :: "rat \<Rightarrow> rat \<Rightarrow> pyfloat \<Rightarrow> bool"

text \<open>What Pydantic documents of them: a value of the declared type is taken as it is, and the
  bounds of a finite float are its numeric bounds.\<close>

definition pydantic_law :: "pydantic \<Rightarrow> bool" where
  "pydantic_law py \<longleftrightarrow>
     (\<forall>i. lax_int py (JInt i) = Some i) \<and> (\<forall>x. lax_float py (JFloat x) = Some x) \<and>
     (\<forall>b. lax_bool py (JBool b) = Some b) \<and> (\<forall>s. lax_str py (JStr s) = Some s) \<and>
     (\<forall>lo hi x. float_within py lo hi (Fin x) \<longleftrightarrow> lo \<le> x \<and> x \<le> hi)"

definition only_keys :: "string list \<Rightarrow> (string \<times> json) list \<Rightarrow> bool" where
  "only_keys names kvs \<longleftrightarrow> list_all (\<lambda>(k, _). k \<in> set names) kvs"

text \<open>A field with a default, and a required one.\<close>

definition field_or :: "'a \<Rightarrow> (json \<Rightarrow> 'a option) \<Rightarrow> (string \<times> json) list \<Rightarrow> string \<Rightarrow> 'a option" where
  "field_or d conv kvs k = (case map_of kvs k of None \<Rightarrow> Some d | Some v \<Rightarrow> conv v)"

definition field_req :: "(json \<Rightarrow> 'a option) \<Rightarrow> (string \<times> json) list \<Rightarrow> string \<Rightarrow> 'a option" where
  "field_req conv kvs k = (case map_of kvs k of None \<Rightarrow> None | Some v \<Rightarrow> conv v)"

definition check :: "('a \<Rightarrow> bool) \<Rightarrow> 'a option \<Rightarrow> 'a option" where
  "check p v = (case v of None \<Rightarrow> None | Some x \<Rightarrow> if p x then Some x else None)"

text \<open>\<open>T | None\<close>.\<close>

definition nullable :: "(json \<Rightarrow> 'a option) \<Rightarrow> json \<Rightarrow> 'a option option" where
  "nullable conv j = (if j = JNull then Some None else map_option Some (conv j))"

definition int_in :: "pydantic \<Rightarrow> int \<Rightarrow> int \<Rightarrow> json \<Rightarrow> int option" where
  "int_in py lo hi j = check (\<lambda>i. lo \<le> i \<and> i \<le> hi) (lax_int py j)"

section \<open>The types\<close>

datatype conditioning_kind = KindNone | KindImage | KindVideo

fun kind_value :: "conditioning_kind \<Rightarrow> string" where
  "kind_value KindNone = ''none''"
| "kind_value KindImage = ''image''"
| "kind_value KindVideo = ''video''"

definition validate_kind :: "json \<Rightarrow> conditioning_kind option" where
  "validate_kind j =
     (case j of
        JStr s \<Rightarrow> (if s = ''none'' then Some KindNone else if s = ''image'' then Some KindImage
                  else if s = ''video'' then Some KindVideo else None)
      | _ \<Rightarrow> None)"

record conditioning_input =
  ci_kind :: conditioning_kind
  ci_uri :: "string option"

definition validate_conditioning :: "pydantic \<Rightarrow> json \<Rightarrow> conditioning_input option" where
  "validate_conditioning py j =
     (case as_obj j of
        None \<Rightarrow> None
      | Some kvs \<Rightarrow>
          (if \<not> only_keys [''kind'', ''uri''] kvs then None
           else Option.bind (field_or KindNone validate_kind kvs ''kind'') (\<lambda>k.
             Option.bind (field_or None (nullable (lax_str py)) kvs ''uri'') (\<lambda>u.
               Some \<lparr>ci_kind = k, ci_uri = u\<rparr>))))"

record generation_params =
  gp_num_frames :: int
  gp_height :: int
  gp_width :: int
  gp_num_inference_steps :: int
  gp_guidance_scale :: pyfloat
  gp_fps :: int
  gp_seed :: "int option"

definition default_params :: generation_params where
  "default_params =
     \<lparr>gp_num_frames = 121, gp_height = 704, gp_width = 1280, gp_num_inference_steps = 35,
      gp_guidance_scale = Fin 7, gp_fps = 24, gp_seed = None\<rparr>"

definition validate_params :: "pydantic \<Rightarrow> json \<Rightarrow> generation_params option" where
  "validate_params py j =
     (case as_obj j of
        None \<Rightarrow> None
      | Some kvs \<Rightarrow>
          (if \<not> only_keys [''num_frames'', ''height'', ''width'', ''num_inference_steps'',
                 ''guidance_scale'', ''fps'', ''seed''] kvs then None
           else Option.bind (field_or 121 (int_in py 1 256) kvs ''num_frames'') (\<lambda>n.
             Option.bind (field_or 704 (int_in py 64 2048) kvs ''height'') (\<lambda>h.
             Option.bind (field_or 1280 (int_in py 64 2048) kvs ''width'') (\<lambda>w.
             Option.bind (field_or 35 (int_in py 1 200) kvs ''num_inference_steps'') (\<lambda>st.
             Option.bind (field_or (Fin 7) (\<lambda>v. check (float_within py 0 30) (lax_float py v)) kvs
                 ''guidance_scale'') (\<lambda>g.
             Option.bind (field_or 24 (int_in py 1 120) kvs ''fps'') (\<lambda>f.
             Option.bind (field_or None (nullable (lax_int py)) kvs ''seed'') (\<lambda>sd.
               Some \<lparr>gp_num_frames = n, gp_height = h, gp_width = w, gp_num_inference_steps = st,
                     gp_guidance_scale = g, gp_fps = f, gp_seed = sd\<rparr>)))))))))"

record generation_request =
  gr_prompt :: string
  gr_negative_prompt :: "string option"
  gr_params :: generation_params
  gr_conditioning :: conditioning_input

definition validate_request :: "pydantic \<Rightarrow> json \<Rightarrow> generation_request option" where
  "validate_request py j =
     (case as_obj j of
        None \<Rightarrow> None
      | Some kvs \<Rightarrow>
          (if \<not> only_keys [''prompt'', ''negative_prompt'', ''params'', ''conditioning''] kvs then None
           else Option.bind (field_req (\<lambda>v. check (\<lambda>s. length s \<ge> 1) (lax_str py v)) kvs ''prompt'') (\<lambda>p.
             Option.bind (field_or None (nullable (lax_str py)) kvs ''negative_prompt'') (\<lambda>np.
             Option.bind (field_or default_params (validate_params py) kvs ''params'') (\<lambda>ps.
             Option.bind (field_or \<lparr>ci_kind = KindNone, ci_uri = None\<rparr> (validate_conditioning py) kvs
                 ''conditioning'') (\<lambda>c.
               Some \<lparr>gr_prompt = p, gr_negative_prompt = np, gr_params = ps, gr_conditioning = c\<rparr>))))))"

record 'x frame =
  fr_index :: int
  fr_total :: int
  fr_pixels :: 'x

record frame_chunk =
  fc_frame_index :: int
  fc_total_frames :: int
  fc_height :: int
  fc_width :: int
  fc_latency_ms :: pyfloat
  fc_uri :: "string option"

record generation_result =
  res_num_frames :: int
  res_total_latency_ms :: pyfloat
  res_frames_per_second :: pyfloat
  res_backend :: string
  res_device :: string
  res_attention_op :: string

record 'f action =
  act_values :: "'f list"
  act_space :: string

fun validate_floats :: "pydantic \<Rightarrow> json list \<Rightarrow> pyfloat list option" where
  "validate_floats py [] = Some []"
| "validate_floats py (j # js) =
     Option.bind (lax_float py j) (\<lambda>x. Option.bind (validate_floats py js) (\<lambda>xs. Some (x # xs)))"

definition validate_action :: "pydantic \<Rightarrow> json \<Rightarrow> pyfloat action option" where
  "validate_action py j =
     (case as_obj j of
        None \<Rightarrow> None
      | Some kvs \<Rightarrow>
          (if \<not> only_keys [''values'', ''space''] kvs then None
           else Option.bind (field_req (\<lambda>v. case v of JList js \<Rightarrow>
                 check (\<lambda>xs. length xs \<ge> 1) (validate_floats py js) | _ \<Rightarrow> None) kvs ''values'') (\<lambda>xs.
             Option.bind (field_or ''raw'' (lax_str py) kvs ''space'') (\<lambda>s.
               Some \<lparr>act_values = xs, act_space = s\<rparr>))))"

record rollout_params =
  rp_horizon :: int
  rp_decode_pixels :: bool
  rp_return_energy :: bool

definition default_rollout :: rollout_params where
  "default_rollout = \<lparr>rp_horizon = 16, rp_decode_pixels = False, rp_return_energy = True\<rparr>"

definition validate_rollout :: "pydantic \<Rightarrow> json \<Rightarrow> rollout_params option" where
  "validate_rollout py j =
     (case as_obj j of
        None \<Rightarrow> None
      | Some kvs \<Rightarrow>
          (if \<not> only_keys [''horizon'', ''decode_pixels'', ''return_energy''] kvs then None
           else Option.bind (field_or 16 (int_in py 1 512) kvs ''horizon'') (\<lambda>h.
             Option.bind (field_or False (lax_bool py) kvs ''decode_pixels'') (\<lambda>d.
             Option.bind (field_or True (lax_bool py) kvs ''return_energy'') (\<lambda>e.
               Some \<lparr>rp_horizon = h, rp_decode_pixels = d, rp_return_energy = e\<rparr>)))))"

record reset_request =
  rr_conditioning :: conditioning_input
  rr_params :: rollout_params

definition validate_reset :: "pydantic \<Rightarrow> json \<Rightarrow> reset_request option" where
  "validate_reset py j =
     (case as_obj j of
        None \<Rightarrow> None
      | Some kvs \<Rightarrow>
          (if \<not> only_keys [''conditioning'', ''params''] kvs then None
           else Option.bind (field_or \<lparr>ci_kind = KindNone, ci_uri = None\<rparr> (validate_conditioning py) kvs
                 ''conditioning'') (\<lambda>c.
             Option.bind (field_or default_rollout (validate_rollout py) kvs ''params'') (\<lambda>p.
               Some \<lparr>rr_conditioning = c, rr_params = p\<rparr>))))"

text \<open>The window of a world model session and the envelope of one step.\<close>

record 'x world_state =
  ws_context :: 'x
  ws_step_index :: int
  ws_session_id :: string

record latent_step =
  ls_step_index :: int
  ls_energy :: "pyfloat option"
  ls_frame :: "frame_chunk option"

section \<open>Dumps\<close>

definition dump_str :: "string option \<Rightarrow> json" where
  "dump_str s = (case s of None \<Rightarrow> JNull | Some x \<Rightarrow> JStr x)"

definition dump_int :: "int option \<Rightarrow> json" where
  "dump_int s = (case s of None \<Rightarrow> JNull | Some x \<Rightarrow> JInt x)"

definition dump_request :: "generation_request \<Rightarrow> json" where
  "dump_request r =
     (let p = gr_params r; c = gr_conditioning r
      in JObj [(''prompt'', JStr (gr_prompt r)),
           (''negative_prompt'', dump_str (gr_negative_prompt r)),
           (''params'', JObj [(''num_frames'', JInt (gp_num_frames p)), (''height'', JInt (gp_height p)),
              (''width'', JInt (gp_width p)), (''num_inference_steps'', JInt (gp_num_inference_steps p)),
              (''guidance_scale'', JFloat (gp_guidance_scale p)), (''fps'', JInt (gp_fps p)),
              (''seed'', dump_int (gp_seed p))]),
           (''conditioning'', JObj [(''kind'', JStr (kind_value (ci_kind c))),
              (''uri'', dump_str (ci_uri c))])])"

definition dump_action :: "pyfloat action \<Rightarrow> json" where
  "dump_action a = JObj [(''values'', JList (map JFloat (act_values a))), (''space'', JStr (act_space a))]"

section \<open>Engines\<close>

record engine_info =
  ei_model_name :: string
  ei_backend :: string
  ei_device :: string
  ei_dtype :: string
  ei_ready :: bool

text \<open>What \<open>WorldModelEngine\<close> promises of \<open>generate\<close>: the frames come in order, numbered from 0,
  and each carries the number of frames of the clip.\<close>

definition frames_in_order :: "'x frame list \<Rightarrow> bool" where
  "frames_in_order fs \<longleftrightarrow>
     map fr_index fs = map int [0..<length fs] \<and> list_all (\<lambda>f. fr_total f = int (length fs)) fs"

locale frame_engine =
  fixes generate :: "'s \<Rightarrow> generation_request \<Rightarrow> 'x frame list"
  assumes in_order: "frames_in_order (generate s r)"
begin

lemma nth_frame:
  "i < length (generate s r) \<Longrightarrow> fr_index (generate s r ! i) = int i
    \<and> fr_total (generate s r ! i) = int (length (generate s r))"
  using in_order [of s r] nth_map [of i "generate s r" fr_index]
  by (auto simp: frames_in_order_def list_all_length)

end

text \<open>The stub engine: random pixels from torch's generator, whose draws are a parameter.\<close>

record ('g, 'x) torch_random =
  new_generator :: 'g
  manual_seed :: "'g \<Rightarrow> int \<Rightarrow> 'g"
  randint_pixels :: "'g \<Rightarrow> int \<Rightarrow> int \<Rightarrow> 'g \<times> 'x"

definition stub_info :: "string \<Rightarrow> string \<Rightarrow> engine_info" where
  "stub_info backend_name device =
     \<lparr>ei_model_name = ''stub-noise'', ei_backend = backend_name, ei_device = device,
      ei_dtype = ''uint8'', ei_ready = True\<rparr>"

fun stub_frames ::
    "('g, 'x) torch_random \<Rightarrow> generation_params \<Rightarrow> 'g \<Rightarrow> int list \<Rightarrow> 'x frame list" where
  "stub_frames t p g [] = []"
| "stub_frames t p g (index # rest) =
     (let (g', px) = randint_pixels t g (gp_height p) (gp_width p)
      in \<lparr>fr_index = index, fr_total = gp_num_frames p, fr_pixels = px\<rparr> # stub_frames t p g' rest)"

definition stub_generate ::
    "('g, 'x) torch_random \<Rightarrow> generation_request \<Rightarrow> 'x frame list" where
  "stub_generate t r =
     (let p = gr_params r;
          g = new_generator t;
          g = (case gp_seed p of None \<Rightarrow> g | Some s \<Rightarrow> manual_seed t g s)
      in stub_frames t p g [0..gp_num_frames p - 1])"

lemma stub_frames_shape:
  "map fr_index (stub_frames t p g is) = is \<and> list_all (\<lambda>f. fr_total f = gp_num_frames p) (stub_frames t p g is)"
  by (induction "is" arbitrary: g) (simp_all split: prod.split)

lemma upto_map_int: "n \<ge> 0 \<Longrightarrow> [0..n - 1] = map int [0..<nat n]"
  by (rule nth_equalityI) auto

lemma stub_in_order: "frames_in_order (stub_generate t r)"
proof -
  let ?n = "gp_num_frames (gr_params r)"
  define fs where "fs = stub_generate t r"
  have "map fr_index fs = [0..?n - 1]" "list_all (\<lambda>f. fr_total f = ?n) fs"
    by (simp_all add: fs_def stub_generate_def Let_def stub_frames_shape)
  moreover from arg_cong [OF this(1), of length] have len: "length fs = nat ?n" by simp
  ultimately show ?thesis unfolding fs_def [symmetric] frames_in_order_def
    by (cases "?n \<ge> 0") (auto simp: upto_map_int)
qed

interpretation stub: frame_engine stub_generate
  by unfold_locales (rule stub_in_order)

section \<open>Properties\<close>

definition params_ok :: "generation_params \<Rightarrow> bool" where
  "params_ok p \<longleftrightarrow>
     1 \<le> gp_num_frames p \<and> gp_num_frames p \<le> 256 \<and>
     64 \<le> gp_height p \<and> gp_height p \<le> 2048 \<and> 64 \<le> gp_width p \<and> gp_width p \<le> 2048 \<and>
     1 \<le> gp_num_inference_steps p \<and> gp_num_inference_steps p \<le> 200 \<and>
     (case gp_guidance_scale p of Fin x \<Rightarrow> 0 \<le> x \<and> x \<le> 30 | _ \<Rightarrow> True) \<and>
     1 \<le> gp_fps p \<and> gp_fps p \<le> 120"

definition request_ok :: "generation_request \<Rightarrow> bool" where
  "request_ok r \<longleftrightarrow> gr_prompt r \<noteq> [] \<and> params_ok (gr_params r)"

lemma field_or_Some:
  "field_or d conv kvs k = Some x \<longleftrightarrow>
    (map_of kvs k = None \<and> x = d \<or> (\<exists>v. map_of kvs k = Some v \<and> conv v = Some x))"
  by (auto simp: field_or_def split: option.splits)

lemma check_Some: "check p v = Some x \<longleftrightarrow> v = Some x \<and> p x"
  by (auto simp: check_def split: option.splits)

lemma int_in_Some: "int_in py lo hi j = Some i \<Longrightarrow> lo \<le> i \<and> i \<le> hi"
  by (simp add: int_in_def check_Some)

lemma field_or_int_in: "field_or d (int_in py lo hi) kvs k = Some i \<Longrightarrow> lo \<le> d \<Longrightarrow> d \<le> hi \<Longrightarrow> lo \<le> i \<and> i \<le> hi"
  by (auto simp: field_or_Some int_in_Some)

lemma validate_params_ok:
  assumes "pydantic_law py" "validate_params py j = Some p"
  shows "params_ok p"
proof -
  have fl: "float_within py 0 30 g \<Longrightarrow> (case g of Fin x \<Rightarrow> 0 \<le> x \<and> x \<le> 30 | _ \<Rightarrow> True)" for g
    using assms(1) by (cases g) (auto simp: pydantic_law_def)
  obtain kvs where "j = JObj kvs" using assms(2)
    by (auto simp: validate_params_def as_obj_Some split: option.splits)
  with assms(2) obtain n h w st g f sd where v:
    "field_or 121 (int_in py 1 256) kvs ''num_frames'' = Some n"
    "field_or 704 (int_in py 64 2048) kvs ''height'' = Some h"
    "field_or 1280 (int_in py 64 2048) kvs ''width'' = Some w"
    "field_or 35 (int_in py 1 200) kvs ''num_inference_steps'' = Some st"
    "field_or (Fin 7) (\<lambda>v. check (float_within py 0 30) (lax_float py v)) kvs ''guidance_scale'' = Some g"
    "field_or 24 (int_in py 1 120) kvs ''fps'' = Some f"
    and p: "p = \<lparr>gp_num_frames = n, gp_height = h, gp_width = w, gp_num_inference_steps = st,
      gp_guidance_scale = g, gp_fps = f, gp_seed = sd\<rparr>"
    unfolding validate_params_def by (simp add: bind_eq_Some_conv split: if_splits) blast
  have "case g of Fin x \<Rightarrow> 0 \<le> x \<and> x \<le> 30 | _ \<Rightarrow> True"
    using v(5) fl by (auto simp: field_or_Some check_Some)
  moreover note field_or_int_in [OF v(1)] field_or_int_in [OF v(2)] field_or_int_in [OF v(3)]
    field_or_int_in [OF v(4)] field_or_int_in [OF v(6)]
  ultimately show ?thesis by (simp add: p params_ok_def)
qed

lemma default_params_ok: "params_ok default_params"
  by (simp add: params_ok_def default_params_def)

lemma validate_request_ok:
  assumes law: "pydantic_law py" and v: "validate_request py j = Some r"
  shows "request_ok r \<and> (\<exists>kvs. j = JObj kvs \<and>
    only_keys [''prompt'', ''negative_prompt'', ''params'', ''conditioning''] kvs)"
proof -
  obtain kvs where j: "j = JObj kvs" using v
    by (auto simp: validate_request_def as_obj_Some split: option.splits)
  have "params_ok (gr_params r)" using v validate_params_ok [OF law] default_params_ok
    by (auto simp: validate_request_def j bind_eq_Some_conv field_or_Some split: if_splits)
  with v j show ?thesis
    by (auto simp: validate_request_def bind_eq_Some_conv request_ok_def field_req_def check_Some
        split: if_splits option.splits)
qed

lemma validate_dump_params:
  assumes law: "pydantic_law py" and ok: "params_ok p" and fin: "gp_guidance_scale p = Fin g"
  shows "validate_params py (JObj [(''num_frames'', JInt (gp_num_frames p)), (''height'', JInt (gp_height p)),
      (''width'', JInt (gp_width p)), (''num_inference_steps'', JInt (gp_num_inference_steps p)),
      (''guidance_scale'', JFloat (gp_guidance_scale p)), (''fps'', JInt (gp_fps p)),
      (''seed'', dump_int (gp_seed p))]) = Some p"
proof -
  have "int_in py lo hi (JInt i) = Some i" if "lo \<le> i" "i \<le> hi" for lo hi i
    using law that by (simp add: int_in_def check_def pydantic_law_def)
  moreover have "check (float_within py 0 30) (lax_float py (JFloat (Fin g))) = Some (Fin g)"
    using law ok fin by (simp add: check_def pydantic_law_def params_ok_def)
  moreover have "nullable (lax_int py) (dump_int s) = Some s" for s
    using law by (cases s) (simp_all add: nullable_def dump_int_def pydantic_law_def)
  ultimately show ?thesis using ok fin
    by (simp add: validate_params_def only_keys_def field_or_def params_ok_def)
qed


definition strict_pydantic :: pydantic where
  "strict_pydantic =
     \<lparr>lax_int = as_int, lax_float = (\<lambda>j. case j of JFloat x \<Rightarrow> Some x | JInt i \<Rightarrow> Some (Fin (of_int i)) | _ \<Rightarrow> None),
      lax_bool = (\<lambda>j. case j of JBool b \<Rightarrow> Some b | _ \<Rightarrow> None),
      lax_str = (\<lambda>j. case j of JStr s \<Rightarrow> Some s | _ \<Rightarrow> None),
      float_within = (\<lambda>lo hi x. case x of Fin y \<Rightarrow> lo \<le> y \<and> y \<le> hi | _ \<Rightarrow> False)\<rparr>"

lemma strict_pydantic_law: "pydantic_law strict_pydantic"
  by (simp add: pydantic_law_def strict_pydantic_def)


text \<open>C19: a request survives the scheduler. The HTTP handler stages the dump of a validated
  request and the driver validates it again: for every well-formed request with a finite
  guidance scale the second validation returns the same request.\<close>

theorem request_dump_round_trip:
  assumes "pydantic_law py" "request_ok r" "gp_guidance_scale (gr_params r) = Fin g"
  shows "validate_request py (dump_request r) = Some r"
proof -
  have str: "lax_str py (JStr s) = Some s" for s using assms(1) by (simp add: pydantic_law_def)
  have "nullable (lax_str py) (dump_str s) = Some s" for s
    by (cases s) (simp_all add: nullable_def dump_str_def str)
  moreover have "validate_kind (JStr (kind_value k)) = Some k" for k
    by (cases k) (simp_all add: validate_kind_def)
  moreover have "gr_prompt r \<noteq> []" using assms(2) by (simp add: request_ok_def)
  moreover note validate_dump_params [OF assms(1) _ assms(3)]
  ultimately show ?thesis using assms(2)
    by (simp add: validate_request_def dump_request_def Let_def only_keys_def field_or_def field_req_def
        check_def str request_ok_def validate_conditioning_def Suc_le_eq)
qed

theorem request_dump_round_trip_witness:
  "validate_request strict_pydantic (dump_request
      \<lparr>gr_prompt = ''a cat'', gr_negative_prompt = None, gr_params = default_params,
       gr_conditioning = \<lparr>ci_kind = KindImage, ci_uri = Some ''u''\<rparr>\<rparr>)
   = Some \<lparr>gr_prompt = ''a cat'', gr_negative_prompt = None, gr_params = default_params,
       gr_conditioning = \<lparr>ci_kind = KindImage, ci_uri = Some ''u''\<rparr>\<rparr>"
  by (rule request_dump_round_trip [OF strict_pydantic_law])
    (simp add: request_ok_def default_params_ok, simp add: default_params_def)

end
