(* ===== verification/PredictorSpec.thy ===== *)
theory PredictorSpec
  imports Prelude
begin

text \<open>
  The contract between the V-JEPA 2-AC engine and its next-state predictor (the protocols
  \<open>_Predictor\<close> and \<open>_CachedPredictor\<close> of \<open>models/vjepa2_ac.py\<close>). The locales state what the
  engine relies on: a prediction is a function of the window and the action, a batch is
  predicted sample by sample, and the incremental mode computes the same function. The engine's
  lemmas are proved in them (theory VJepa2AC); the real adapter interprets them (theory
  AcPredictor).
\<close>

section \<open>Tensors by their number of axes\<close>

datatype 'r nd = Row 'r | Rows "'r list" | Stack "'r list list"

datatype 'f act = Vec "'f list" | Mat "'f list list"

text \<open>\<open>nxt if nxt.ndim == 2 else nxt.unsqueeze(0)\<close>, ready to be appended to a window of rows.\<close>

definition as_block :: "'r nd \<Rightarrow> exn + 'r list" where
  "as_block nxt =
     (case nxt of
        Row r \<Rightarrow> Inr [r]
      | Rows b \<Rightarrow> Inr b
      | Stack _ \<Rightarrow> Inl (RuntimeError ''Tensors must have same number of dimensions''))"

section \<open>The protocols\<close>

record ('r, 'f, 'c) predictor =
  p_call :: "'r nd \<Rightarrow> 'f act \<Rightarrow> exn + 'r nd"
  supports_batch :: bool
  supports_kv_cache :: bool
  p_init_cache :: "'r nd \<Rightarrow> exn + 'c"
  p_step_cached :: "'c \<Rightarrow> 'f act \<Rightarrow> exn + ('r nd \<times> 'c)"
  p_append_frame :: "'c \<Rightarrow> 'r nd \<Rightarrow> exn + 'c"
  p_evict :: "'c \<Rightarrow> int \<Rightarrow> exn + 'c"

definition expand_batch :: "nat \<Rightarrow> 'a list \<Rightarrow> 'a list" where
  "expand_batch s xs = (if length xs = 1 \<and> s > 1 then replicate s (hd xs) else xs)"

definition window :: "nat \<Rightarrow> 'r list \<Rightarrow> bool" where
  "window rows ctx \<longleftrightarrow> (\<exists>n. n > 0 \<and> length ctx = n * rows)"

lemma window_append: "window rows ctx \<Longrightarrow> length b = rows \<Longrightarrow> window rows (ctx @ b)"
  unfolding window_def by (metis Suc_eq_plus1 add_mult_distrib length_append mult_1 zero_less_Suc)

lemma window_div: "rows > 0 \<Longrightarrow> window rows ctx \<Longrightarrow> length ctx = length ctx div rows * rows \<and> length ctx div rows > 0"
  by (auto simp: window_def)

section \<open>What the engine relies on\<close>

locale predictor_law =
  fixes P :: "('r, 'f, 'c) predictor"
    and predict :: "'r list \<Rightarrow> 'f list \<Rightarrow> 'r list"
    and rows :: nat
    and size_a :: nat
  assumes rows_pos: "rows > 0"
    and call_one: "window rows ctx \<Longrightarrow> length a = size_a \<Longrightarrow>
      \<exists>nxt. p_call P (Rows ctx) (Vec a) = Inr nxt \<and> as_block nxt = Inr (predict ctx a)"
    and predict_rows: "window rows ctx \<Longrightarrow> length a = size_a \<Longrightarrow> length (predict ctx a) = rows"

locale batch_predictor = predictor_law P predict rows size_a
  for P :: "('r, 'f, 'c) predictor" and predict rows size_a +
  assumes call_batch: "ctxs \<noteq> [] \<Longrightarrow> length acts = length ctxs \<Longrightarrow>
      \<forall>ctx \<in> set ctxs. window rows ctx \<and> length ctx = length (hd ctxs) \<Longrightarrow>
      \<forall>a \<in> set acts. length a = size_a \<Longrightarrow>
      p_call P (Stack ctxs) (Mat acts) = Inr (Stack (map2 predict ctxs acts))"

locale cached_predictor = predictor_law P predict rows size_a
  for P :: "('r, 'f, 'c) predictor" and predict rows size_a +
  fixes in_sync :: "'c \<Rightarrow> 'r list list \<Rightarrow> bool"
    and done_step :: "'c \<Rightarrow> 'r list list \<Rightarrow> bool"
  assumes init_sync: "window rows ctx \<Longrightarrow>
      \<exists>c. p_init_cache P (Rows ctx) = Inr c \<and> in_sync c [ctx]"
    and step_one: "in_sync c [ctx] \<Longrightarrow> length a = size_a \<Longrightarrow>
      \<exists>nxt c'. p_step_cached P c (Vec a) = Inr (nxt, c') \<and> as_block nxt = Inr (predict ctx a)
        \<and> done_step c' [ctx]"
    and step_many: "in_sync c ctxs \<Longrightarrow> length ctxs = 1 \<or> length ctxs = length acts \<Longrightarrow> acts \<noteq> [] \<Longrightarrow>
      \<forall>a \<in> set acts. length a = size_a \<Longrightarrow>
      \<exists>c'. p_step_cached P c (Mat acts)
          = Inr (Stack (map2 predict (expand_batch (length acts) ctxs) acts), c')
        \<and> done_step c' (expand_batch (length acts) ctxs)"
    and append_one: "done_step c [ctx] \<Longrightarrow> length b = rows \<Longrightarrow>
      \<exists>c'. p_append_frame P c (Rows b) = Inr c' \<and> in_sync c' [ctx @ b]"
    and append_many: "done_step c ctxs \<Longrightarrow> length bs = length ctxs \<Longrightarrow> \<forall>b \<in> set bs. length b = rows \<Longrightarrow>
      \<exists>c'. p_append_frame P c (Stack bs) = Inr c' \<and> in_sync c' (map2 (@) ctxs bs)"

end
