(* ===== verification/AcPredictor.thy ===== *)
theory AcPredictor
  imports PredictorSpec
begin

text \<open>
  The adapter around the V-JEPA 2-AC predictor head (\<open>_AcPredictorAdapter\<close> and the rotary
  helpers in \<open>models/vjepa2_ac.py\<close>): the full forward, the incremental key/value cache and its
  eviction. A tensor of rows is a list; a batch is a list of those. The research predictor is
  not under \<open>src/\<close>: its layers and its forward are fields of \<open>ac_net\<close>, and \<open>ac_net_law\<close> states
  what the adapter's docstring records of them (one action and one state token per frame, a
  frame-causal stack of layers). Under that law the cached prediction is the full one, for any
  number of steps: that is what the engine relies on (theory VJepa2AC).

  Row widths are even where the rotation splits them into pairs, as the checkpoint's are; the
  number of frames handed to the rotation is the number of tokens over the tokens per frame, so
  it is not a separate argument. A key/value cache is indexed by sample first and by layer
  second; in the code it is a tuple over layers of tensors with a batch axis.
\<close>

section \<open>Rotary positions\<close>

text \<open>A token is a vector per head. Float arithmetic is a parameter.\<close>

type_synonym 'f tok = "'f list list"

record 'f float_ops =
  f_of_int :: "int \<Rightarrow> 'f"
  f_plus :: "'f \<Rightarrow> 'f \<Rightarrow> 'f"
  f_times :: "'f \<Rightarrow> 'f \<Rightarrow> 'f"
  f_divide :: "'f \<Rightarrow> 'f \<Rightarrow> 'f"
  f_neg :: "'f \<Rightarrow> 'f"
  f_pow :: "'f \<Rightarrow> 'f \<Rightarrow> 'f"
  f_sin :: "'f \<Rightarrow> 'f"
  f_cos :: "'f \<Rightarrow> 'f"

fun rotate_pairs :: "('f \<Rightarrow> 'f) \<Rightarrow> 'f list \<Rightarrow> 'f list" where
  "rotate_pairs neg (y1 # y2 # ys) = neg y2 # y1 # rotate_pairs neg ys"
| "rotate_pairs neg ys = []"

definition omega :: "'f float_ops \<Rightarrow> nat \<Rightarrow> nat \<Rightarrow> 'f" where
  "omega fo n i =
     (let e = f_divide fo (f_of_int fo (int i)) (f_divide fo (f_of_int fo (int n)) (f_of_int fo 2))
      in f_divide fo (f_of_int fo 1) (f_pow fo (f_of_int fo 10000) e))"

definition bug_compatible_rope :: "'f float_ops \<Rightarrow> 'f list \<Rightarrow> 'f \<Rightarrow> 'f list" where
  "bug_compatible_rope fo x pos =
     (let n = length x;
          freq = map (\<lambda>i. f_times fo pos (omega fo n i)) [0..<n div 2];
          sn = map (f_sin fo) freq @ map (f_sin fo) freq;
          cs = map (f_cos fo) freq @ map (f_cos fo) freq
      in map2 (f_plus fo) (map2 (f_times fo) x cs)
           (map2 (f_times fo) (rotate_pairs (f_neg fo) x) sn))"

section \<open>The research predictor\<close>

record ('h, 'f) ac_block =
  norm1 :: "'h \<Rightarrow> 'h"
  attn_qkv :: "'h \<Rightarrow> 'f list"
  num_heads :: nat
  d_dim :: nat
  h_dim :: nat
  w_dim :: nat
  separate_positions :: "int \<Rightarrow> int \<Rightarrow> int \<Rightarrow> 'f \<times> 'f \<times> 'f"
  grid_size :: 'f
  attend :: "'f tok list \<Rightarrow> 'f tok list \<Rightarrow> 'f tok list \<Rightarrow> 'f tok list"
  attn_proj :: "'f tok \<Rightarrow> 'h"
  proj_drop :: "'h \<Rightarrow> 'h"
  drop_path :: "'h \<Rightarrow> 'h"
  norm2 :: "'h \<Rightarrow> 'h"
  mlp :: "'h \<Rightarrow> 'h"
  block_forward :: "'h list \<Rightarrow> int \<Rightarrow> 'h list"

record ('r, 'h, 'f) ac_net =
  floats :: "'f float_ops"
  predictor_embed :: "'r \<Rightarrow> 'h"
  action_encoder :: "'f list \<Rightarrow> 'h"
  state_encoder :: "'f list \<Rightarrow> 'h"
  extrinsics_encoder :: "'f list \<Rightarrow> 'h"
  use_extrinsics :: bool
  predictor_blocks :: "('h, 'f) ac_block list"
  h_add :: "'h \<Rightarrow> 'h \<Rightarrow> 'h"
  predictor_norm :: "'h \<Rightarrow> 'h"
  predictor_proj :: "'h \<Rightarrow> 'r"
  grid_height :: nat
  grid_width :: nat
  net_forward :: "'r list list \<Rightarrow> 'f list list list \<Rightarrow> 'f list list list \<Rightarrow> 'r list list"

record ('r, 'h, 'f) ac_adapter =
  net :: "('r, 'h, 'f) ac_net"
  patches :: nat
  adim :: nat
  to_compute :: "'r \<Rightarrow> 'r"
  to_input :: "'r \<Rightarrow> 'r"

definition f_zero :: "('r, 'h, 'f) ac_net \<Rightarrow> 'f" where
  "f_zero n = f_of_int (floats n) 0"

definition action_tokens :: "('r, 'h, 'f) ac_net \<Rightarrow> nat" where
  "action_tokens n = (if use_extrinsics n then 3 else 2)"

text \<open>\<open>qkv(x).unflatten(-1, (3, heads, -1))\<close> for every token.\<close>

definition raw_qkv :: "('h, 'f) ac_block \<Rightarrow> 'h list \<Rightarrow> 'f tok list \<times> 'f tok list \<times> 'f tok list" where
  "raw_qkv b xs =
     (let part = (\<lambda>j x. (let flat = attn_qkv b x; n = length flat div 3
                         in chunks_of (n div num_heads b) (take n (drop (j * n) flat))))
      in (map (part 0) xs, map (part 1) xs, map (part 2) xs))"

definition rotate_cond :: "'f float_ops \<Rightarrow> ('h, 'f) ac_block \<Rightarrow> int \<Rightarrow> 'f tok \<Rightarrow> 'f tok" where
  "rotate_cond fo b frame =
     map (\<lambda>t. bug_compatible_rope fo (take (d_dim b) t) (f_of_int fo frame) @ drop (d_dim b) t)"

definition rotate_visual ::
    "'f float_ops \<Rightarrow> ('h, 'f) ac_block \<Rightarrow> int \<Rightarrow> int \<Rightarrow> int \<Rightarrow> 'f tok \<Rightarrow> 'f tok" where
  "rotate_visual fo b height width tid =
     (let (d_pos, h_pos, w_pos) = separate_positions b tid height width;
          h_pos = f_times fo h_pos (f_divide fo (grid_size b) (f_of_int fo height));
          w_pos = f_times fo w_pos (f_divide fo (grid_size b) (f_of_int fo width))
      in map (\<lambda>t.
           bug_compatible_rope fo (take (d_dim b) t) d_pos
             @ bug_compatible_rope fo (take (h_dim b) (drop (d_dim b) t)) h_pos
             @ bug_compatible_rope fo (take (w_dim b) (drop (d_dim b + h_dim b) t)) w_pos
             @ drop (d_dim b + h_dim b + w_dim b) t))"

definition rotate_augmented ::
    "('r, 'h, 'f) ac_net \<Rightarrow> ('h, 'f) ac_block \<Rightarrow> int \<Rightarrow> 'f tok list \<Rightarrow> 'f tok list" where
  "rotate_augmented n b frame_offset raw =
     (let atoks = action_tokens n; hw = grid_height n * grid_width n; per_frame = atoks + hw
      in map (\<lambda>(i, t).
           (let frame = frame_offset + int (i div per_frame); j = i mod per_frame
            in if j < atoks then rotate_cond (floats n) b frame t
               else rotate_visual (floats n) b (int (grid_height n)) (int (grid_width n))
                      (frame * int hw + int (j - atoks)) t))
         (enumerate 0 raw))"

section \<open>The cache\<close>

type_synonym 'f layer_kv = "'f tok list \<times> 'f tok list"

record ('r, 'f) ac_cache =
  kv :: "'f layer_kv list list"
  processed_frames :: int
  pending :: "'r list list option"

text \<open>One layer for one pending frame, against the cached keys and values.\<close>

definition layer_advance ::
    "('r, 'h, 'f) ac_net \<Rightarrow> ('h, 'f) ac_block \<Rightarrow> int \<Rightarrow> 'h list \<Rightarrow> 'f layer_kv
      \<Rightarrow> 'h list \<times> 'f layer_kv" where
  "layer_advance n b processed x old =
     (let (q_raw, k_new, v_new) = raw_qkv b (map (norm1 b) x);
          (k_old, v_old) = (if processed = 0 then ([], []) else old);
          q = rotate_augmented n b processed q_raw;
          k_all_raw = k_old @ k_new;
          v_all = v_old @ v_new;
          k_all = rotate_augmented n b 0 k_all_raw;
          y = map (\<lambda>t. proj_drop b (attn_proj b t)) (attend b q k_all v_all);
          x1 = map2 (h_add n) x (map (drop_path b) y);
          x2 = map2 (h_add n) x1 (map (\<lambda>h. drop_path b (mlp b (norm2 b h))) x1)
      in (x2, (k_all_raw, v_all)))"

fun advance_layers ::
    "('r, 'h, 'f) ac_net \<Rightarrow> ('h, 'f) ac_block list \<Rightarrow> int \<Rightarrow> 'h list \<Rightarrow> 'f layer_kv list
      \<Rightarrow> 'h list \<times> 'f layer_kv list" where
  "advance_layers n (b # bs) processed x (old # olds) =
     (let (x', ext) = layer_advance n b processed x old;
          (out, exts) = advance_layers n bs processed x' olds
      in (out, ext # exts))"
| "advance_layers n _ processed x _ = (x, [])"

definition cond_tokens :: "('r, 'h, 'f) ac_net \<Rightarrow> 'f list \<Rightarrow> 'h list" where
  "cond_tokens n a =
     (let state_row = map (\<lambda>_. f_zero n) a
      in [action_encoder n a, state_encoder n state_row]
         @ (if action_tokens n = 3 then [extrinsics_encoder n (butlast state_row)] else []))"

definition advance_sample ::
    "('r, 'h, 'f) ac_adapter \<Rightarrow> int \<Rightarrow> 'f layer_kv list \<Rightarrow> 'r list \<Rightarrow> 'f list
      \<Rightarrow> 'r list \<times> 'f layer_kv list" where
  "advance_sample ad processed layers visual action =
     (let n = net ad;
          x = cond_tokens n action @ map (\<lambda>r. predictor_embed n (to_compute ad r)) visual;
          (x', exts) = advance_layers n (predictor_blocks n) processed x layers
      in (map (\<lambda>h. predictor_proj n (predictor_norm n h)) (drop (action_tokens n) x'), exts))"

definition advance_pending ::
    "('r, 'h, 'f) ac_adapter \<Rightarrow> ('r, 'f) ac_cache \<Rightarrow> 'f list list
      \<Rightarrow> exn + ('r list list \<times> ('r, 'f) ac_cache)" where
  "advance_pending ad c actions =
     (case pending c of
        None \<Rightarrow> Inl AssertionError
      | Some pend \<Rightarrow>
          (let s = length actions;
               outs = map2 (\<lambda>(layers, visual) a. advance_sample ad (processed_frames c) layers visual a)
                        (zip (expand_batch s (kv c)) (expand_batch s pend)) actions
           in Inr (map fst outs,
                \<lparr>kv = map snd outs, processed_frames = processed_frames c + 1, pending = None\<rparr>)))"

fun capture_layers ::
    "('r, 'h, 'f) ac_net \<Rightarrow> ('h, 'f) ac_block list \<Rightarrow> int \<Rightarrow> 'h list \<Rightarrow> 'f layer_kv list" where
  "capture_layers n [] frames x = []"
| "capture_layers n (b # bs) frames x =
     (let (_, k, v) = raw_qkv b (map (norm1 b) x)
      in (k, v) # capture_layers n bs frames (block_forward b x frames))"

definition frame_tokens ::
    "('r, 'h, 'f) ac_adapter \<Rightarrow> 'f list \<Rightarrow> 'r list \<Rightarrow> 'h list" where
  "frame_tokens ad a rows = cond_tokens (net ad) a @ map (predictor_embed (net ad)) rows"

definition zero_action :: "('r, 'h, 'f) ac_adapter \<Rightarrow> 'f list" where
  "zero_action ad = replicate (adim ad) (f_zero (net ad))"

definition encode_zero_action_prefix ::
    "('r, 'h, 'f) ac_adapter \<Rightarrow> 'r list \<Rightarrow> 'f layer_kv list" where
  "encode_zero_action_prefix ad visual =
     (let frames = length visual div patches ad;
          x = concat (map (frame_tokens ad (zero_action ad)) (chunks_of (patches ad) visual))
      in capture_layers (net ad) (predictor_blocks (net ad)) (int frames) x)"

section \<open>The adapter\<close>

definition zeros_like :: "'f \<Rightarrow> 'f list \<Rightarrow> 'f list" where
  "zeros_like z a = map (\<lambda>_. z) a"

definition call_batch ::
    "('r, 'h, 'f) ac_adapter \<Rightarrow> 'r list list \<Rightarrow> 'f list list \<Rightarrow> exn + 'r list list" where
  "call_batch ad xs acts =
     (let xs = map (map (to_compute ad)) xs;
          n_frames = length (hd xs) div patches ad;
          actions = map (\<lambda>a. replicate (n_frames - 1) (zero_action ad) @ [a]) acts;
          states = map (map (zeros_like (f_zero (net ad)))) actions;
          tokens = net_forward (net ad) xs actions states
      in if n_frames = 0 then Inl (OtherException ''IndexError'')
         else Inr (map (\<lambda>t. map (to_input ad) (py_tail (int (patches ad)) t)) tokens))"

definition ac_call ::
    "('r, 'h, 'f) ac_adapter \<Rightarrow> 'r nd \<Rightarrow> 'f act \<Rightarrow> exn + 'r nd" where
  "ac_call ad context action =
     (case (context, action) of
        (Rows x, Vec a) \<Rightarrow> map_sum id (\<lambda>ys. Rows (hd ys)) (call_batch ad [x] [a])
      | (Rows x, Mat [a]) \<Rightarrow> map_sum id (\<lambda>ys. Rows (hd ys)) (call_batch ad [x] [a])
      | (Stack xs, Vec a) \<Rightarrow> map_sum id Stack (call_batch ad xs (map (\<lambda>_. a) xs))
      | (Stack xs, Mat as) \<Rightarrow>
          (if length as = length xs then map_sum id Stack (call_batch ad xs as)
           else Inl (RuntimeError ''shape mismatch''))
      | _ \<Rightarrow> Inl (RuntimeError ''shape mismatch''))"

definition ac_init_cache :: "('r, 'h, 'f) ac_adapter \<Rightarrow> 'r nd \<Rightarrow> exn + ('r, 'f) ac_cache" where
  "ac_init_cache ad context =
     (case context of
        Rows rows \<Rightarrow>
          (if length rows mod patches ad \<noteq> 0
           then Inl (ValueError ''AC KV cache expects context shaped (frames * patches, dim)'')
           else let x = map (to_compute ad) rows; frames = length x div patches ad
             in if frames < 1
                then Inl (ValueError ''AC KV cache requires at least one context frame'')
                else let pend = map (to_input ad) (py_tail (int (patches ad)) x);
                         prefix = take (length x - patches ad) x
                  in if frames = 1
                     then Inr \<lparr>kv = [map (\<lambda>_. ([], [])) (predictor_blocks (net ad))],
                               processed_frames = 0, pending = Some [pend]\<rparr>
                     else Inr \<lparr>kv = [encode_zero_action_prefix ad prefix],
                               processed_frames = int frames - 1, pending = Some [pend]\<rparr>)
      | _ \<Rightarrow> Inl (ValueError ''AC KV cache expects context shaped (frames * patches, dim)''))"

definition ac_step_cached ::
    "('r, 'h, 'f) ac_adapter \<Rightarrow> ('r, 'f) ac_cache \<Rightarrow> 'f act \<Rightarrow> exn + ('r nd \<times> ('r, 'f) ac_cache)" where
  "ac_step_cached ad c action =
     (if pending c = None
      then Inl (ValueError ''AC KV cache has no pending frame to predict from'')
      else let actions = (case action of Vec a \<Rightarrow> [a] | Mat as \<Rightarrow> as);
               zeros = map (zeros_like (f_zero (net ad))) actions
        in case advance_pending ad c actions of
             Inl e \<Rightarrow> Inl e
           | Inr (predicted, _) \<Rightarrow>
               (case advance_pending ad c zeros of
                  Inl e \<Rightarrow> Inl e
                | Inr (_, committed) \<Rightarrow>
                    (let out = map (map (to_input ad)) predicted
                     in Inr (case action of Vec a \<Rightarrow> Rows (hd out) | Mat as \<Rightarrow> Stack out, committed))))"

definition ac_append_frame ::
    "('r, 'h, 'f) ac_adapter \<Rightarrow> ('r, 'f) ac_cache \<Rightarrow> 'r nd \<Rightarrow> exn + ('r, 'f) ac_cache" where
  "ac_append_frame ad c normed_block =
     (if pending c \<noteq> None
      then Inl (ValueError ''AC KV cache append requires a completed prediction step'')
      else (case normed_block of
        Rows b \<Rightarrow>
          (if length b = patches ad then Inr (c\<lparr>pending := Some [b]\<rparr>)
           else Inl (ValueError ''AC KV cache frame has the wrong patch-token shape''))
      | Stack bs \<Rightarrow>
          (if list_all (\<lambda>b. length b = patches ad) bs then Inr (c\<lparr>pending := Some bs\<rparr>)
           else Inl (ValueError ''AC KV cache frame has the wrong patch-token shape''))
      | Row _ \<Rightarrow> Inl (ValueError ''AC KV cache frame has the wrong patch-token shape'')))"

definition ac_evict ::
    "('r, 'h, 'f) ac_adapter \<Rightarrow> ('r, 'f) ac_cache \<Rightarrow> int \<Rightarrow> exn + ('r, 'f) ac_cache" where
  "ac_evict ad c sink_frames =
     (if sink_frames < 0 \<or> sink_frames \<ge> processed_frames c
      then Inl (ValueError ''kv_sink_frames must leave a non-sink frame available to evict'')
      else let block = action_tokens (net ad) + patches ad;
               start = nat sink_frames * block;
               stop = start + block;
               cut = (\<lambda>ts. take start ts @ drop stop ts)
        in Inr (c\<lparr>kv := map (map (\<lambda>(k, v). (cut k, cut v))) (kv c),
                  processed_frames := processed_frames c - 1\<rparr>))"

section \<open>What the research predictor promises\<close>

text \<open>
  The documented shape of the predictor's layers: applied to a sequence of frames, a layer's
  output for frame i is computed from frame i and the raw keys and values of frames up to i,
  the queries and keys rotated to their positions in the window.
\<close>

definition kraw :: "('h, 'f) ac_block \<Rightarrow> 'h list \<Rightarrow> 'f layer_kv" where
  "kraw b x = (let (_, k, v) = raw_qkv b (map (norm1 b) x) in (k, v))"

definition frames_kv :: "('h, 'f) ac_block \<Rightarrow> 'h list list \<Rightarrow> 'f layer_kv" where
  "frames_kv b fs = (concat (map (fst \<circ> kraw b) fs), concat (map (snd \<circ> kraw b) fs))"

definition causal_layer ::
    "('r, 'h, 'f) ac_net \<Rightarrow> ('h, 'f) ac_block \<Rightarrow> 'h list list \<Rightarrow> 'h list list" where
  "causal_layer n b fs =
     map (\<lambda>i. fst (layer_advance n b (int i) (fs ! i) (frames_kv b (take i fs)))) [0..<length fs]"

definition per_frame_tokens :: "('r, 'h, 'f) ac_adapter \<Rightarrow> nat" where
  "per_frame_tokens ad = action_tokens (net ad) + patches ad"

definition block_law :: "('r, 'h, 'f) ac_adapter \<Rightarrow> ('h, 'f) ac_block \<Rightarrow> bool" where
  "block_law ad b \<longleftrightarrow>
     (\<forall>q k v. length (attend b q k v) = length q) \<and>
     (\<forall>fs. (\<forall>f \<in> set fs. length f = per_frame_tokens ad) \<longrightarrow>
        block_forward b (concat fs) (int (length fs)) = concat (causal_layer (net ad) b fs))"

definition forward_sample ::
    "('r, 'h, 'f) ac_adapter \<Rightarrow> 'r list \<Rightarrow> 'f list list \<Rightarrow> 'r list" where
  "forward_sample ad x actions =
     (let n = net ad;
          frames = chunks_of (patches ad) x;
          tokens = concat (map2 (frame_tokens ad) actions frames);
          out = fold (\<lambda>b t. block_forward b t (int (length frames))) (predictor_blocks n) tokens
      in map (\<lambda>h. predictor_proj n (predictor_norm n h))
           (concat (map (drop (action_tokens n)) (chunks_of (per_frame_tokens ad) out))))"

definition ac_net_law :: "('r, 'h, 'f) ac_adapter \<Rightarrow> bool" where
  "ac_net_law ad \<longleftrightarrow> patches ad > 0 \<and>
     (\<forall>b \<in> set (predictor_blocks (net ad)). block_law ad b) \<and>
     (\<forall>xs acts sts. length acts = length xs \<and> sts = map (map (zeros_like (f_zero (net ad)))) acts \<longrightarrow>
        net_forward (net ad) xs acts sts = map2 (forward_sample ad) xs acts) \<and>
     (\<forall>r. to_compute ad (to_input ad (to_compute ad r)) = to_compute ad r)"

section \<open>Frames\<close>

lemma chunks_one: "n > 0 \<Longrightarrow> length xs = n \<Longrightarrow> chunks_of n xs = [xs]"
  using chunks_append [of n xs "[]"] by simp

lemmas chunks_snoc = chunks_append' [THEN conjunct1]
lemmas chunks_length = chunks_append' [THEN conjunct2, THEN conjunct1]
lemmas chunks_sizes = chunks_append' [THEN conjunct2, THEN conjunct2]

section \<open>Layers on frames\<close>

lemma length_layer_advance:
  "\<forall>q k v. length (attend b q k v) = length q \<Longrightarrow>
    length (fst (layer_advance n b i x old)) = length x"
  by (simp add: layer_advance_def raw_qkv_def rotate_augmented_def Let_def split: prod.split)

lemma causal_layer_snoc:
  "causal_layer n b (fs @ [g]) = causal_layer n b fs
     @ [fst (layer_advance n b (int (length fs)) g (frames_kv b fs))]"
  by (auto simp: causal_layer_def nth_append)

lemma length_causal_layer [simp]: "length (causal_layer n b fs) = length fs"
  by (simp add: causal_layer_def)

lemma causal_layer_sizes:
  assumes "\<forall>q k v. length (attend b q k v) = length q" "\<forall>f \<in> set fs. length f = m"
  shows "\<forall>f \<in> set (causal_layer n b fs). length f = m"
  using assms(2) by (auto simp: causal_layer_def length_layer_advance [OF assms(1)])

fun captured :: "('r, 'h, 'f) ac_net \<Rightarrow> ('h, 'f) ac_block list \<Rightarrow> 'h list list \<Rightarrow> 'f layer_kv list" where
  "captured n [] fs = []"
| "captured n (b # bs) fs = frames_kv b fs # captured n bs (causal_layer n b fs)"

lemma captured_Nil: "captured n bs [] = map (\<lambda>_. ([], [])) bs"
  by (induction bs) (simp_all add: frames_kv_def causal_layer_def)

definition run_layers :: "('r, 'h, 'f) ac_net \<Rightarrow> ('h, 'f) ac_block list \<Rightarrow> 'h list list \<Rightarrow> 'h list list" where
  "run_layers n bs fs = fold (\<lambda>b fs. causal_layer n b fs) bs fs"

lemma length_run_layers [simp]: "length (run_layers n bs fs) = length fs"
  unfolding run_layers_def by (induction bs arbitrary: fs) simp_all

lemma kraw_concat:
  "(let (_, k, v) = raw_qkv b (map (norm1 b) (concat fs)) in (k, v)) = frames_kv b fs"
  by (simp add: frames_kv_def kraw_def raw_qkv_def Let_def map_concat o_def)

lemma capture_layers_frames:
  assumes "\<forall>b \<in> set bs. block_law ad b" "\<forall>f \<in> set fs. length f = per_frame_tokens ad"
  shows "capture_layers (net ad) bs (int (length fs)) (concat fs) = captured (net ad) bs fs"
    and "fold (\<lambda>b t. block_forward b t (int (length fs))) bs (concat fs) = concat (run_layers (net ad) bs fs)"
    and "\<forall>f \<in> set (run_layers (net ad) bs fs). length f = per_frame_tokens ad"
  using assms
proof (induction bs arbitrary: fs)
  case (Cons b bs)
  {
    case 1
    let ?fs = "causal_layer (net ad) b fs"
    have "\<forall>f \<in> set ?fs. length f = per_frame_tokens ad"
      using 1 by (intro causal_layer_sizes) (auto simp: block_law_def)
    with Cons.IH(1) [of ?fs] 1 show ?case
      using kraw_concat [of b fs] by (auto simp: block_law_def Let_def split: prod.splits)
  next
    case 2
    let ?fs = "causal_layer (net ad) b fs"
    have "\<forall>f \<in> set ?fs. length f = per_frame_tokens ad"
      using 2 by (intro causal_layer_sizes) (auto simp: block_law_def)
    with Cons.IH(2) [of ?fs] 2 show ?case by (simp add: block_law_def run_layers_def)
  next
    case 3
    let ?fs = "causal_layer (net ad) b fs"
    have "\<forall>f \<in> set ?fs. length f = per_frame_tokens ad"
      using 3 by (intro causal_layer_sizes) (auto simp: block_law_def)
    with Cons.IH(3) [of ?fs] 3 show ?case by (simp add: run_layers_def)
  }
qed (simp_all add: run_layers_def)

lemma advance_layers_frames:
  "run_layers n bs (fs @ [g]) = run_layers n bs fs
      @ [fst (advance_layers n bs (int (length fs)) g (captured n bs fs))]
   \<and> captured n bs (fs @ [g]) = snd (advance_layers n bs (int (length fs)) g (captured n bs fs))"
proof (induction bs arbitrary: fs g)
  case (Cons b bs)
  let ?g = "fst (layer_advance n b (int (length fs)) g (frames_kv b fs))"
  have "snd (layer_advance n b (int (length fs)) g (frames_kv b fs)) = frames_kv b (fs @ [g])"
    by (cases fs) (simp_all add: layer_advance_def frames_kv_def kraw_def Let_def split: prod.split)
  with Cons.IH [of "causal_layer n b fs" ?g] show ?case
    by (simp add: run_layers_def causal_layer_snoc split_beta)
qed (simp add: run_layers_def)

section \<open>One sample\<close>

text \<open>The frames of a window as the full forward sees them when every action is zero.\<close>

definition zero_frames :: "('r, 'h, 'f) ac_adapter \<Rightarrow> 'r list \<Rightarrow> 'h list list" where
  "zero_frames ad ctx =
     map (frame_tokens ad (zero_action ad)) (chunks_of (patches ad) (map (to_compute ad) ctx))"

definition prefix_kv :: "('r, 'h, 'f) ac_adapter \<Rightarrow> 'r list \<Rightarrow> 'f layer_kv list" where
  "prefix_kv ad ctx = captured (net ad) (predictor_blocks (net ad)) (zero_frames ad ctx)"

text \<open>The next frame the full forward predicts from a window and an action.\<close>

definition full_prediction :: "('r, 'h, 'f) ac_adapter \<Rightarrow> 'r list \<Rightarrow> 'f list \<Rightarrow> 'r list" where
  "full_prediction ad ctx a =
     (let x = map (to_compute ad) ctx
      in map (to_input ad) (py_tail (int (patches ad)) (forward_sample ad x
           (replicate (length x div patches ad - 1) (zero_action ad) @ [a]))))"

lemma zeros_like_zero [simp]: "length a = adim ad \<Longrightarrow> zeros_like (f_zero (net ad)) a = zero_action ad"
  by (simp add: zeros_like_def zero_action_def map_replicate_const)

lemma length_frame_tokens:
  "length (frame_tokens ad a rows) = action_tokens (net ad) + length rows"
  by (simp add: frame_tokens_def cond_tokens_def action_tokens_def Let_def)

lemma zero_frames_append:
  assumes "patches ad > 0" "length pre = m * patches ad" "length fr = patches ad"
  shows "zero_frames ad (pre @ fr)
      = zero_frames ad pre @ [frame_tokens ad (zero_action ad) (map (to_compute ad) fr)]"
    and "length (zero_frames ad pre) = m"
    and "\<forall>f \<in> set (zero_frames ad pre). length f = per_frame_tokens ad"
  using assms chunks_snoc [of "patches ad" "map (to_compute ad) pre" m]
    chunks_length [of "patches ad" "map (to_compute ad) pre" m]
    chunks_sizes [of "patches ad" "map (to_compute ad) pre" m]
  by (auto simp: zero_frames_def chunks_one length_frame_tokens per_frame_tokens_def)

lemma map_to_compute:
  "ac_net_law ad \<Longrightarrow> map (to_compute ad) (map (to_input ad) (map (to_compute ad) xs)) = map (to_compute ad) xs"
  by (simp add: ac_net_law_def)

lemma advance_sample_frame:
  assumes "map (to_compute ad) pend = map (to_compute ad) fr" "length pre = m * patches ad"
    "patches ad > 0"
  shows "advance_sample ad (int m) (prefix_kv ad pre) pend a =
    (let r = advance_layers (net ad) (predictor_blocks (net ad)) (int (length (zero_frames ad pre)))
               (frame_tokens ad a (map (to_compute ad) fr)) (prefix_kv ad pre)
     in (map (\<lambda>h. predictor_proj (net ad) (predictor_norm (net ad) h))
           (drop (action_tokens (net ad)) (fst r)), snd r))"
proof -
  have "map (\<lambda>r. predictor_embed (net ad) (to_compute ad r)) pend
      = map (predictor_embed (net ad)) (map (to_compute ad) fr)"
    by (simp flip: assms(1))
  moreover have "length (zero_frames ad pre) = m"
    using chunks_length [of "patches ad" "map (to_compute ad) pre" m] assms(2,3)
    by (simp add: zero_frames_def)
  ultimately show ?thesis
    by (simp add: advance_sample_def frame_tokens_def Let_def split_beta)
qed

lemma advance_sample_commits:
  assumes "map (to_compute ad) pend = map (to_compute ad) fr" "length pre = m * patches ad"
    "patches ad > 0" "length fr = patches ad"
  shows "snd (advance_sample ad (int m) (prefix_kv ad pre) pend (zero_action ad))
    = prefix_kv ad (pre @ fr)"
  using advance_layers_frames [THEN conjunct2, of "net ad" "predictor_blocks (net ad)" "zero_frames ad pre"
      "frame_tokens ad (zero_action ad) (map (to_compute ad) fr)"]
  unfolding advance_sample_frame [OF assms(1-3)]
  by (simp add: prefix_kv_def zero_frames_append(1) [OF assms(3,2,4)] Let_def)

text \<open>The heart of the matter: one pending frame against the cached prefix gives the trailing
  frame of the full forward.\<close>

lemma concat_drop_tail:
  assumes "p > 0" "length (last_frame :: 'h list) = k + p"
  shows "py_tail (int p) (map f (concat (map (drop k) (fs @ [last_frame])))) = map f (drop k last_frame)"
  using assms by (simp add: py_tail_append)

lemma advance_sample_predicts:
  assumes law: "ac_net_law ad" and pend: "map (to_compute ad) pend = map (to_compute ad) fr"
    and pre: "length pre = m * patches ad" and fr: "length fr = patches ad"
  shows "map (to_input ad) (fst (advance_sample ad (int m) (prefix_kv ad pre) pend a))
    = full_prediction ad (pre @ fr) a"
proof -
  let ?n = "net ad" let ?bs = "predictor_blocks (net ad)"
  let ?p = "patches ad" and ?k = "action_tokens (net ad)"
  let ?Z = "zero_frames ad pre" and ?g = "frame_tokens ad a (map (to_compute ad) fr)"
  have p: "?p > 0" and blocks: "\<forall>b \<in> set ?bs. block_law ad b" using law by (auto simp: ac_net_law_def)
  let ?x = "map (to_compute ad) (pre @ fr)"
  have chunks_of: "chunks_of ?p ?x = chunks_of ?p (map (to_compute ad) pre) @ [map (to_compute ad) fr]"
    using chunks_snoc [OF p, of "map (to_compute ad) pre" m] pre fr p by (simp add: chunks_one)
  have m: "length (chunks_of ?p (map (to_compute ad) pre)) = m"
    using chunks_length [OF p, of "map (to_compute ad) pre" m] pre by simp
  have "length ?x div ?p = m + 1" using pre fr p by simp
  then have acts: "map2 (frame_tokens ad) (replicate (length ?x div ?p - 1) (zero_action ad) @ [a])
      (chunks_of ?p ?x) = ?Z @ [?g]"
    unfolding chunks_of using m by (simp add: zero_frames_def zip_append zip_replicate1 o_def)
  have sizes: "\<forall>f \<in> set (?Z @ [?g]). length f = per_frame_tokens ad"
    using zero_frames_append(3) [OF p pre fr] fr by (auto simp: length_frame_tokens per_frame_tokens_def)
  have nframes: "length (chunks_of ?p ?x) = length (?Z @ [?g])"
    unfolding chunks_of using m zero_frames_append(2) [OF p pre fr] by simp
  let ?out = "run_layers ?n ?bs (?Z @ [?g])"
  have out: "chunks_of (per_frame_tokens ad) (concat ?out) = ?out"
    by (rule chunks_concat)
      (use p capture_layers_frames(3) [OF blocks sizes] in \<open>auto simp: per_frame_tokens_def\<close>)
  have fwd: "forward_sample ad ?x (replicate (length ?x div ?p - 1) (zero_action ad) @ [a])
      = map (\<lambda>h. predictor_proj ?n (predictor_norm ?n h)) (concat (map (drop ?k) ?out))"
    using capture_layers_frames(2) [OF blocks sizes] acts nframes out
    by (simp add: forward_sample_def Let_def)
  let ?l = "fst (advance_layers ?n ?bs (int (length ?Z)) ?g (captured ?n ?bs ?Z))"
  have last: "?out = run_layers ?n ?bs ?Z @ [?l]"
    using advance_layers_frames [of ?n ?bs ?Z ?g] by simp
  then have "length ?l = ?k + ?p"
    using capture_layers_frames(3) [OF blocks sizes] by (simp add: per_frame_tokens_def)
  note tail = concat_drop_tail [OF p this, of "\<lambda>h. predictor_proj ?n (predictor_norm ?n h)"
      "run_layers ?n ?bs ?Z"]
  have "full_prediction ad (pre @ fr) a = map (to_input ad) (py_tail (int ?p)
      (forward_sample ad ?x (replicate (length ?x div ?p - 1) (zero_action ad) @ [a])))"
    by (simp only: full_prediction_def Let_def)
  also have "\<dots> = map (to_input ad) (map (\<lambda>h. predictor_proj ?n (predictor_norm ?n h)) (drop ?k ?l))"
    unfolding fwd last tail ..
  finally show ?thesis
    unfolding advance_sample_frame [OF pend pre p] by (simp add: prefix_kv_def Let_def)
qed

section \<open>The cache and the windows it stands for\<close>

text \<open>
  A cache is synchronized to a batch of windows when it holds the keys and values of all but
  their last frames, which are pending; after a prediction it holds all of them.
\<close>

definition sample_synced :: "('r, 'h, 'f) ac_adapter \<Rightarrow> int \<Rightarrow> 'f layer_kv list \<times> 'r list \<Rightarrow> 'r list \<Rightarrow> bool" where
  "sample_synced ad m s ctx \<longleftrightarrow> (\<exists>pre fr. ctx = pre @ fr \<and> int (length pre) = m * int (patches ad)
     \<and> length fr = patches ad \<and> fst s = prefix_kv ad pre
     \<and> map (to_compute ad) (snd s) = map (to_compute ad) fr)"

definition synced :: "('r, 'h, 'f) ac_adapter \<Rightarrow> ('r, 'f) ac_cache \<Rightarrow> 'r list list \<Rightarrow> bool" where
  "synced ad c ctxs \<longleftrightarrow> 0 \<le> processed_frames c \<and> (\<exists>pend. pending c = Some pend \<and>
     length (kv c) = length pend \<and>
     list_all2 (sample_synced ad (processed_frames c)) (zip (kv c) pend) ctxs)"

definition stepped :: "('r, 'h, 'f) ac_adapter \<Rightarrow> ('r, 'f) ac_cache \<Rightarrow> 'r list list \<Rightarrow> bool" where
  "stepped ad c ctxs \<longleftrightarrow> 0 < processed_frames c \<and> pending c = None \<and>
     list_all2 (\<lambda>layers ctx. int (length ctx) = processed_frames c * int (patches ad)
        \<and> layers = prefix_kv ad ctx) (kv c) ctxs"

lemma init_cache_synced:
  assumes law: "ac_net_law ad" and ctx: "window (patches ad) ctx"
  shows "\<exists>c. ac_init_cache ad (Rows ctx) = Inr c \<and> synced ad c [ctx]"
proof -
  let ?p = "patches ad"
  have p: "?p > 0" using law by (simp add: ac_net_law_def)
  obtain m where len: "length ctx = (m + 1) * ?p"
    using ctx unfolding window_def by (metis Suc_eq_plus1 gr0_conv_Suc)
  let ?pre = "take (m * ?p) ctx" and ?fr = "drop (m * ?p) ctx"
  have pre: "length ?pre = m * ?p" and fr: "length ?fr = ?p" using len by auto
  have facts: "length ctx mod ?p = 0" "length ctx div ?p = m + 1" "length ctx - ?p = m * ?p"
    using len p by (simp_all only: mod_mult_self2_is_0 nonzero_mult_div_cancel_right) simp_all
  have tail: "py_tail (int ?p) (map (to_compute ad) ctx) = map (to_compute ad) ?fr"
    using py_tail_append [of "int ?p" "map (to_compute ad) ?fr" "map (to_compute ad) ?pre"] p fr
    by (simp flip: map_append)
  have pend: "map (to_compute ad) (map (to_input ad) (map (to_compute ad) ?fr)) = map (to_compute ad) ?fr"
    using law by (rule map_to_compute)
  have pfx: "(if m = 0 then map (\<lambda>_. ([], [])) (predictor_blocks (net ad))
      else encode_zero_action_prefix ad (take (m * ?p) (map (to_compute ad) ctx))) = prefix_kv ad ?pre"
  proof (cases "m = 0")
    case True
    then show ?thesis by (simp add: prefix_kv_def zero_frames_def captured_Nil)
  next
    case False
    have sizes: "\<forall>f \<in> set (zero_frames ad ?pre). length f = per_frame_tokens ad"
      "length (zero_frames ad ?pre) = m"
      using zero_frames_append(2,3) [OF p pre fr] by simp_all
    have blocks: "\<forall>b \<in> set (predictor_blocks (net ad)). block_law ad b"
      using law by (simp add: ac_net_law_def)
    from capture_layers_frames(1) [OF blocks sizes(1)] sizes(2) pre p False show ?thesis
      by (simp add: encode_zero_action_prefix_def prefix_kv_def Let_def zero_frames_def take_map)
  qed
  let ?c = "\<lparr>kv = [prefix_kv ad ?pre], processed_frames = int m,
      pending = Some [map (to_input ad) (map (to_compute ad) ?fr)]\<rparr>"
  have "ac_init_cache ad (Rows ctx) = Inr ?c"
    using facts tail pfx by (cases "m = 0") (simp_all add: ac_init_cache_def Let_def del: map_map)
  moreover have "sample_synced ad (int m) (prefix_kv ad ?pre, map (to_input ad) (map (to_compute ad) ?fr)) ctx"
    unfolding sample_synced_def using pre fr pend
    by (intro exI [of _ ?pre] exI [of _ ?fr]) (simp del: map_map)
  then have "synced ad ?c [ctx]" by (simp add: synced_def del: map_map)
  ultimately show ?thesis by blast
qed

section \<open>Predictions from the cache\<close>

lemma length_expand: "length xs = 1 \<or> length xs = s \<Longrightarrow> s > 0 \<Longrightarrow> length (expand_batch s xs) = s"
  by (auto simp: expand_batch_def)

lemma expand_zip:
  "length xs = length ys \<Longrightarrow> zip (expand_batch s xs) (expand_batch s ys) = expand_batch s (zip xs ys)"
  by (cases xs; cases ys) (auto simp: expand_batch_def zip_replicate)

lemma expand_all2:
  "list_all2 P xs ys \<Longrightarrow> list_all2 P (expand_batch s xs) (expand_batch s ys)"
  by (cases xs; cases ys) (auto simp: expand_batch_def list_all2_conv_all_nth dest: list_all2_lengthD)

lemma sample_syncedE:
  assumes "sample_synced ad m s ctx" "0 \<le> m"
  obtains pre fr where "ctx = pre @ fr" "length pre = nat m * patches ad" "length fr = patches ad"
    "fst s = prefix_kv ad pre" "map (to_compute ad) (snd s) = map (to_compute ad) fr"
    "m = int (nat m)"
proof -
  from assms(1) obtain pre fr where *: "ctx = pre @ fr" "int (length pre) = m * int (patches ad)"
    "length fr = patches ad" "fst s = prefix_kv ad pre" "map (to_compute ad) (snd s) = map (to_compute ad) fr"
    by (auto simp: sample_synced_def)
  have "int (length pre) = int (nat m * patches ad)" using *(2) assms(2) by simp
  then have "length pre = nat m * patches ad" by (simp only: of_nat_eq_iff)
  with * assms(2) that show thesis by simp
qed

lemma sample_predicts:
  assumes law: "ac_net_law ad" and s: "sample_synced ad m s ctx" "0 \<le> m"
  shows "map (to_input ad) (fst (advance_sample ad m (fst s) (snd s) a)) = full_prediction ad ctx a"
    and "snd (advance_sample ad m (fst s) (snd s) (zero_action ad)) = prefix_kv ad ctx"
    and "int (length ctx) = (m + 1) * int (patches ad)"
proof -
  have p: "patches ad > 0" using law by (simp add: ac_net_law_def)
  obtain pre fr where *: "ctx = pre @ fr" "length pre = nat m * patches ad" "length fr = patches ad"
    "fst s = prefix_kv ad pre" "map (to_compute ad) (snd s) = map (to_compute ad) fr" "m = int (nat m)"
    using sample_syncedE [OF s] by metis
  show "map (to_input ad) (fst (advance_sample ad m (fst s) (snd s) a)) = full_prediction ad ctx a"
    using advance_sample_predicts [OF law *(5,2,3), of a] *(1,4,6) by simp
  show "int (length ctx) = (m + 1) * int (patches ad)"
    using *(1,2,3,6) s(2) by (simp add: algebra_simps)
  show "snd (advance_sample ad m (fst s) (snd s) (zero_action ad)) = prefix_kv ad ctx"
    using advance_sample_commits [OF *(5,2) p *(3)] *(1,4,6) by simp
qed

lemma advance_pending_outs:
  assumes "synced ad c ctxs" "length ctxs = 1 \<or> length ctxs = length acts" "acts \<noteq> []"
  obtains ss where "list_all2 (sample_synced ad (processed_frames c)) ss (expand_batch (length acts) ctxs)"
    "length ss = length acts"
    "\<forall>as. length as = length acts \<longrightarrow> advance_pending ad c as =
       (let outs = map2 (\<lambda>s a. advance_sample ad (processed_frames c) (fst s) (snd s) a) ss as
        in Inr (map fst outs, \<lparr>kv = map snd outs, processed_frames = processed_frames c + 1, pending = None\<rparr>))"
proof -
  from assms(1) obtain pend where pend: "pending c = Some pend" "length (kv c) = length pend"
    "list_all2 (sample_synced ad (processed_frames c)) (zip (kv c) pend) ctxs"
    by (auto simp: synced_def)
  let ?ss = "expand_batch (length acts) (zip (kv c) pend)"
  have all: "list_all2 (sample_synced ad (processed_frames c)) ?ss (expand_batch (length acts) ctxs)"
    using pend(3) by (rule expand_all2)
  have len: "length ?ss = length acts"
    using list_all2_lengthD [OF all] length_expand [of ctxs "length acts"] assms(2,3) by auto
  have "advance_pending ad c as =
       (let outs = map2 (\<lambda>s a. advance_sample ad (processed_frames c) (fst s) (snd s) a) ?ss as
        in Inr (map fst outs, \<lparr>kv = map snd outs, processed_frames = processed_frames c + 1, pending = None\<rparr>))"
    if "length as = length acts" for as
    using that by (simp add: advance_pending_def pend(1) Let_def expand_zip [OF pend(2)] case_prod_unfold)
  then show thesis using that [OF all len] by blast
qed

lemma step_cached_batch:
  assumes law: "ac_net_law ad" and sync: "synced ad c ctxs"
    and dims: "length ctxs = 1 \<or> length ctxs = length acts" "acts \<noteq> []" "\<forall>a \<in> set acts. length a = adim ad"
  shows "\<exists>c' p0 c0. advance_pending ad c acts = Inr (p0, c0) \<and>
    map (map (to_input ad)) p0 = map2 (full_prediction ad) (expand_batch (length acts) ctxs) acts \<and>
    (\<exists>p1. advance_pending ad c (map (zeros_like (f_zero (net ad))) acts) = Inr (p1, c')) \<and>
    stepped ad c' (expand_batch (length acts) ctxs)"
proof -
  let ?m = "processed_frames c" and ?X = "expand_batch (length acts) ctxs"
  have m: "0 \<le> ?m" using sync by (simp add: synced_def)
  obtain ss where ss: "list_all2 (sample_synced ad ?m) ss ?X" "length ss = length acts"
    and adv: "\<forall>as. length as = length acts \<longrightarrow> advance_pending ad c as =
       (let outs = map2 (\<lambda>s a. advance_sample ad ?m (fst s) (snd s) a) ss as
        in Inr (map fst outs, \<lparr>kv = map snd outs, processed_frames = ?m + 1, pending = None\<rparr>))"
    by (rule advance_pending_outs [OF sync dims(1,2)])
  have X: "length ?X = length acts" using ss list_all2_lengthD by metis
  have samples: "sample_synced ad ?m (ss ! i) (?X ! i)" if "i < length acts" for i
    using ss that by (simp add: list_all2_conv_all_nth)
  let ?zs = "map (zeros_like (f_zero (net ad))) acts"
  let ?o = "map2 (\<lambda>s a. advance_sample ad ?m (fst s) (snd s) a) ss acts"
  let ?z = "map2 (\<lambda>s a. advance_sample ad ?m (fst s) (snd s) a) ss ?zs"
  have "map (map (to_input ad)) (map fst ?o) = map2 (full_prediction ad) ?X acts"
    by (rule nth_equalityI) (simp_all add: ss(2) X sample_predicts(1) [OF law samples m])
  moreover have "stepped ad \<lparr>kv = map snd ?z, processed_frames = ?m + 1, pending = None\<rparr> ?X"
    unfolding stepped_def list_all2_conv_all_nth
    using m dims(3) sample_predicts(2,3) [OF law samples m] by (simp add: ss(2) X)
  ultimately show ?thesis using adv by (auto simp: Let_def)
qed

lemma step_cached_one:
  assumes "ac_net_law ad" "synced ad c [ctx]" "length a = adim ad"
  shows "\<exists>c'. ac_step_cached ad c (Vec a) = Inr (Rows (full_prediction ad ctx a), c') \<and> stepped ad c' [ctx]"
proof -
  have "pending c \<noteq> None" using assms(2) by (auto simp: synced_def)
  with step_cached_batch [OF assms(1,2), of "[a]"] assms(3) show ?thesis
    by (auto simp: ac_step_cached_def Let_def expand_batch_def map_eq_Cons_conv)
qed

lemma step_cached_many:
  assumes "ac_net_law ad" "synced ad c ctxs" "length ctxs = 1 \<or> length ctxs = length acts"
    "acts \<noteq> []" "\<forall>a \<in> set acts. length a = adim ad"
  shows "\<exists>c'. ac_step_cached ad c (Mat acts)
      = Inr (Stack (map2 (full_prediction ad) (expand_batch (length acts) ctxs) acts), c')
    \<and> stepped ad c' (expand_batch (length acts) ctxs)"
proof -
  have "pending c \<noteq> None" using assms(2) by (auto simp: synced_def)
  with step_cached_batch [OF assms] show ?thesis
    by (auto simp: ac_step_cached_def Let_def)
qed

lemma append_synced:
  assumes "ac_net_law ad" "stepped ad c ctxs" "length bs = length ctxs" "\<forall>b \<in> set bs. length b = patches ad"
  shows "synced ad (c\<lparr>pending := Some bs\<rparr>) (map2 (@) ctxs bs)"
proof -
  have "sample_synced ad (processed_frames c) (kv c ! i, bs ! i) (ctxs ! i @ bs ! i)"
    if "i < length ctxs" for i
    unfolding sample_synced_def
    by (rule exI [of _ "ctxs ! i"], rule exI [of _ "bs ! i"])
      (use assms that in \<open>auto simp: stepped_def list_all2_conv_all_nth\<close>)
  with assms(2,3) show ?thesis
    by (auto simp: synced_def stepped_def list_all2_conv_all_nth)
qed

lemma append_frame_one:
  "ac_net_law ad \<Longrightarrow> stepped ad c [ctx] \<Longrightarrow> length b = patches ad \<Longrightarrow>
    \<exists>c'. ac_append_frame ad c (Rows b) = Inr c' \<and> synced ad c' [ctx @ b]"
  using append_synced [of ad c "[ctx]" "[b]"] by (auto simp: ac_append_frame_def stepped_def)

lemma append_frame_many:
  "ac_net_law ad \<Longrightarrow> stepped ad c ctxs \<Longrightarrow> length bs = length ctxs \<Longrightarrow>
    \<forall>b \<in> set bs. length b = patches ad \<Longrightarrow>
    \<exists>c'. ac_append_frame ad c (Stack bs) = Inr c' \<and> synced ad c' (map2 (@) ctxs bs)"
  using append_synced [of ad c ctxs bs] by (auto simp: ac_append_frame_def stepped_def list_all_iff)

section \<open>The contract\<close>

definition ac_predictor ::
    "('r, 'h, 'f) ac_adapter \<Rightarrow> ('r, 'f, ('r, 'f) ac_cache) predictor" where
  "ac_predictor ad =
     \<lparr>p_call = ac_call ad, supports_batch = True, supports_kv_cache = True,
      p_init_cache = ac_init_cache ad, p_step_cached = ac_step_cached ad,
      p_append_frame = ac_append_frame ad, p_evict = ac_evict ad\<rparr>"

lemma full_prediction_rows:
  assumes law: "ac_net_law ad" and ctx: "window (patches ad) ctx" "length a = adim ad"
  shows "length (full_prediction ad ctx a) = patches ad"
proof -
  obtain c where c: "synced ad c [ctx]" using init_cache_synced [OF law ctx(1)] by blast
  then obtain s where s: "sample_synced ad (processed_frames c) s ctx" "0 \<le> processed_frames c"
    by (auto simp: synced_def list_all2_Cons2)
  obtain pre fr where *: "ctx = pre @ fr" "length pre = nat (processed_frames c) * patches ad"
    "length fr = patches ad" "map (to_compute ad) (snd s) = map (to_compute ad) fr"
    using sample_syncedE [OF s] by metis
  have p: "patches ad > 0" and blocks: "\<forall>b \<in> set (predictor_blocks (net ad)). block_law ad b"
    using law by (auto simp: ac_net_law_def)
  let ?Z = "zero_frames ad pre" and ?g = "frame_tokens ad a (map (to_compute ad) fr)"
  have "\<forall>f \<in> set (?Z @ [?g]). length f = per_frame_tokens ad"
    using zero_frames_append(3) [OF p *(2,3)] *(3)
    by (auto simp: length_frame_tokens per_frame_tokens_def)
  from capture_layers_frames(3) [OF blocks this]
  have "length (fst (advance_layers (net ad) (predictor_blocks (net ad)) (int (length ?Z)) ?g
      (prefix_kv ad pre))) = per_frame_tokens ad"
    using advance_layers_frames [of "net ad" "predictor_blocks (net ad)" ?Z ?g]
    by (simp add: prefix_kv_def)
  with advance_sample_predicts [OF law *(4,2,3), of a] *(1)
  show ?thesis
    unfolding advance_sample_frame [OF *(4,2) p]
    by (auto simp: Let_def per_frame_tokens_def dest!: arg_cong [of _ _ length])
qed

lemma net_forward_law:
  "ac_net_law ad \<Longrightarrow> length acts = length xs \<Longrightarrow>
    net_forward (net ad) xs acts (map (map (zeros_like (f_zero (net ad)))) acts)
      = map2 (forward_sample ad) xs acts"
  unfolding ac_net_law_def by blast

lemma call_batch_windows:
  assumes law: "ac_net_law ad" and "ctxs \<noteq> []" and len: "length acts = length ctxs"
    and ctxs: "\<forall>ctx \<in> set ctxs. window (patches ad) ctx \<and> length ctx = length (hd ctxs)"
  shows "call_batch ad ctxs acts = Inr (map2 (full_prediction ad) ctxs acts)"
proof -
  let ?n = "length (hd ctxs) div patches ad"
  have "window (patches ad) (hd ctxs)" using assms(2) ctxs hd_in_set by blast
  then have n: "?n \<noteq> 0"
    using window_div [of "patches ad" "hd ctxs"] law by (simp add: ac_net_law_def)
  have hd: "length (hd (map (map (to_compute ad)) ctxs)) = length (hd ctxs)"
    using assms(2) by (simp add: hd_map)
  let ?acts = "map (\<lambda>a. replicate (?n - 1) (zero_action ad) @ [a]) acts"
  have "net_forward (net ad) (map (map (to_compute ad)) ctxs) ?acts
        (map (map (zeros_like (f_zero (net ad)))) ?acts)
      = map2 (forward_sample ad) (map (map (to_compute ad)) ctxs) ?acts"
    by (rule net_forward_law [OF law]) (simp add: len)
  then have "call_batch ad ctxs acts = Inr (map (\<lambda>t. map (to_input ad) (py_tail (int (patches ad)) t))
      (map2 (forward_sample ad) (map (map (to_compute ad)) ctxs) ?acts))"
    using n by (simp only: call_batch_def Let_def hd if_False)
  moreover have "map (\<lambda>t. map (to_input ad) (py_tail (int (patches ad)) t))
      (map2 (forward_sample ad) (map (map (to_compute ad)) ctxs) ?acts)
      = map2 (full_prediction ad) ctxs acts"
  proof (rule nth_equalityI)
    fix i assume "i < length (map (\<lambda>t. map (to_input ad) (py_tail (int (patches ad)) t))
      (map2 (forward_sample ad) (map (map (to_compute ad)) ctxs) ?acts))"
    then have i: "i < length ctxs" "i < length acts" using len by simp_all
    then have "length (ctxs ! i) = length (hd ctxs)" using ctxs nth_mem by blast
    with i show "map (\<lambda>t. map (to_input ad) (py_tail (int (patches ad)) t))
        (map2 (forward_sample ad) (map (map (to_compute ad)) ctxs) ?acts) ! i
      = map2 (full_prediction ad) ctxs acts ! i"
      by (simp add: full_prediction_def Let_def)
  qed (use len in simp)
  ultimately show ?thesis by simp
qed

lemma ac_call_one:
  "ac_net_law ad \<Longrightarrow> window (patches ad) ctx \<Longrightarrow>
    ac_call ad (Rows ctx) (Vec a) = Inr (Rows (full_prediction ad ctx a))"
  by (simp add: ac_call_def call_batch_windows)

lemma ac_call_many:
  assumes "ac_net_law ad" "ctxs \<noteq> []" "length acts = length ctxs"
    "\<forall>ctx \<in> set ctxs. window (patches ad) ctx \<and> length ctx = length (hd ctxs)"
  shows "ac_call ad (Stack ctxs) (Mat acts) = Inr (Stack (map2 (full_prediction ad) ctxs acts))"
  using call_batch_windows [OF assms] assms(3) by (simp only: ac_call_def) simp

section \<open>Lawful adapters\<close>

text \<open>The adapters whose research predictor keeps its documented contract are a type; on it the
  engine's interfaces hold outright.\<close>

definition with_forward :: "('r, 'h, 'f) ac_adapter \<Rightarrow> ('r, 'h, 'f) ac_adapter" where
  "with_forward ad =
     ad\<lparr>net := (net ad)\<lparr>net_forward := (\<lambda>xs acts sts. map2 (forward_sample ad) xs acts)\<rparr>\<rparr>"

lemma forward_sample_net_forward [simp]:
  "forward_sample (ad\<lparr>net := (net ad)\<lparr>net_forward := f\<rparr>\<rparr>) = forward_sample ad"
  by (simp add: forward_sample_def frame_tokens_def cond_tokens_def action_tokens_def f_zero_def
      per_frame_tokens_def Let_def fun_eq_iff)

lemma causal_layer_net_forward [simp]:
  "causal_layer (n\<lparr>net_forward := f\<rparr>) = causal_layer n"
proof -
  have "rotate_augmented (n\<lparr>net_forward := f\<rparr>) = rotate_augmented n"
    by (simp add: rotate_augmented_def action_tokens_def Let_def fun_eq_iff cong: if_cong)
  then have "layer_advance (n\<lparr>net_forward := f\<rparr>) = layer_advance n"
    by (simp add: layer_advance_def fun_eq_iff)
  then show ?thesis by (intro ext) (simp only: causal_layer_def)
qed

lemma with_forward_law:
  assumes "patches ad > 0" "\<forall>b \<in> set (predictor_blocks (net ad)). block_law ad b"
    "\<forall>r. to_compute ad (to_input ad (to_compute ad r)) = to_compute ad r"
  shows "ac_net_law (with_forward ad)"
  using assms by (simp add: ac_net_law_def with_forward_def block_law_def per_frame_tokens_def
      action_tokens_def)

text \<open>An adapter over a predictor without layers.\<close>

definition no_layers :: "'f \<Rightarrow> 'h \<Rightarrow> 'r \<Rightarrow> ('r, 'h, 'f) ac_adapter" where
  "no_layers z h r =
     \<lparr>net = \<lparr>floats = \<lparr>f_of_int = (\<lambda>_. z), f_plus = (\<lambda>_ _. z), f_times = (\<lambda>_ _. z),
                f_divide = (\<lambda>_ _. z), f_neg = (\<lambda>_. z), f_pow = (\<lambda>_ _. z), f_sin = (\<lambda>_. z),
                f_cos = (\<lambda>_. z)\<rparr>,
              predictor_embed = (\<lambda>_. h), action_encoder = (\<lambda>_. h), state_encoder = (\<lambda>_. h),
              extrinsics_encoder = (\<lambda>_. h), use_extrinsics = False, predictor_blocks = [],
              h_add = (\<lambda>_ _. h), predictor_norm = (\<lambda>h. h), predictor_proj = (\<lambda>_. r),
              grid_height = 1, grid_width = 1, net_forward = (\<lambda>_ _ _. [])\<rparr>,
      patches = 1, adim = 1, to_compute = (\<lambda>r. r), to_input = (\<lambda>r. r)\<rparr>"

lemma no_layers_law: "ac_net_law (with_forward (no_layers z h r))"
  by (rule with_forward_law) (simp_all add: no_layers_def)

typedef ('r, 'h, 'f) lawful_adapter = "{ad :: ('r, 'h, 'f) ac_adapter. ac_net_law ad}"
  by (intro exI CollectI) (rule no_layers_law)

lemma lawful [simp]: "ac_net_law (Rep_lawful_adapter ad)"
  using Rep_lawful_adapter [of ad] by simp

interpretation adapter_batch: batch_predictor "ac_predictor (Rep_lawful_adapter ad)"
    "full_prediction (Rep_lawful_adapter ad)" "patches (Rep_lawful_adapter ad)"
    "adim (Rep_lawful_adapter ad)" for ad
proof unfold_locales
  let ?ad = "Rep_lawful_adapter ad"
  show "0 < patches ?ad" using lawful [of ad] by (simp only: ac_net_law_def)
  show "\<exists>nxt. p_call (ac_predictor ?ad) (Rows ctx) (Vec a) = Inr nxt \<and>
      as_block nxt = Inr (full_prediction ?ad ctx a)" if "window (patches ?ad) ctx" for ctx a
    using ac_call_one [OF lawful that] by (simp add: ac_predictor_def as_block_def)
  show "length (full_prediction ?ad ctx a) = patches ?ad"
    if "window (patches ?ad) ctx" "length a = adim ?ad" for ctx a
    using lawful that by (rule full_prediction_rows)
  show "p_call (ac_predictor ?ad) (Stack ctxs) (Mat acts)
      = Inr (Stack (map2 (full_prediction ?ad) ctxs acts))"
    if "ctxs \<noteq> []" "length acts = length ctxs"
      "\<forall>ctx \<in> set ctxs. window (patches ?ad) ctx \<and> length ctx = length (hd ctxs)" for ctxs acts
    unfolding ac_predictor_def predictor.simps using lawful that by (rule ac_call_many)
qed

interpretation adapter_cached: cached_predictor "ac_predictor (Rep_lawful_adapter ad)"
    "full_prediction (Rep_lawful_adapter ad)" "patches (Rep_lawful_adapter ad)"
    "adim (Rep_lawful_adapter ad)" "synced (Rep_lawful_adapter ad)" "stepped (Rep_lawful_adapter ad)" for ad
proof unfold_locales
  let ?ad = "Rep_lawful_adapter ad"
  show "\<exists>c. p_init_cache (ac_predictor ?ad) (Rows ctx) = Inr c \<and> synced ?ad c [ctx]"
    if "window (patches ?ad) ctx" for ctx
    unfolding ac_predictor_def predictor.simps using lawful that by (rule init_cache_synced)
  show "\<exists>nxt c'. p_step_cached (ac_predictor ?ad) c (Vec a) = Inr (nxt, c') \<and>
      as_block nxt = Inr (full_prediction ?ad ctx a) \<and> stepped ?ad c' [ctx]"
    if "synced ?ad c [ctx]" "length a = adim ?ad" for c ctx a
    using step_cached_one [OF lawful that] by (auto simp: ac_predictor_def as_block_def)
  show "\<exists>c'. p_step_cached (ac_predictor ?ad) c (Mat acts)
        = Inr (Stack (map2 (full_prediction ?ad) (expand_batch (length acts) ctxs) acts), c')
      \<and> stepped ?ad c' (expand_batch (length acts) ctxs)"
    if "synced ?ad c ctxs" "length ctxs = 1 \<or> length ctxs = length acts" "acts \<noteq> []"
      "\<forall>a \<in> set acts. length a = adim ?ad" for c ctxs acts
    unfolding ac_predictor_def predictor.simps using lawful that by (rule step_cached_many)
  show "\<exists>c'. p_append_frame (ac_predictor ?ad) c (Rows b) = Inr c' \<and> synced ?ad c' [ctx @ b]"
    if "stepped ?ad c [ctx]" "length b = patches ?ad" for c ctx b
    unfolding ac_predictor_def predictor.simps using lawful that by (rule append_frame_one)
  show "\<exists>c'. p_append_frame (ac_predictor ?ad) c (Stack bs) = Inr c' \<and> synced ?ad c' (map2 (@) ctxs bs)"
    if "stepped ?ad c ctxs" "length bs = length ctxs" "\<forall>b \<in> set bs. length b = patches ?ad" for c ctxs bs
    unfolding ac_predictor_def predictor.simps using lawful that by (rule append_frame_many)
qed

section \<open>Rollouts\<close>

text \<open>A rollout by full forwards, and one by the cache: each predicted frame joins the window.\<close>

fun full_rollout ::
    "('r, 'h, 'f) ac_adapter \<Rightarrow> 'r list \<Rightarrow> 'f list list \<Rightarrow> exn + 'r list" where
  "full_rollout ad ctx [] = Inr ctx"
| "full_rollout ad ctx (a # as) =
     (case ac_call ad (Rows ctx) (Vec a) of
        Inl e \<Rightarrow> Inl e
      | Inr (Rows b) \<Rightarrow> full_rollout ad (ctx @ b) as
      | Inr _ \<Rightarrow> Inl AssertionError)"

fun cached_rollout ::
    "('r, 'h, 'f) ac_adapter \<Rightarrow> ('r, 'f) ac_cache \<Rightarrow> 'r list \<Rightarrow> 'f list list \<Rightarrow> exn + 'r list" where
  "cached_rollout ad c ctx [] = Inr ctx"
| "cached_rollout ad c ctx (a # as) =
     (case ac_step_cached ad c (Vec a) of
        Inl e \<Rightarrow> Inl e
      | Inr (Rows b, c1) \<Rightarrow>
          (case ac_append_frame ad c1 (Rows b) of
             Inl e \<Rightarrow> Inl e
           | Inr c2 \<Rightarrow> cached_rollout ad c2 (ctx @ b) as)
      | Inr _ \<Rightarrow> Inl AssertionError)"

definition cached_rollout_from ::
    "('r, 'h, 'f) ac_adapter \<Rightarrow> 'r list \<Rightarrow> 'f list list \<Rightarrow> exn + 'r list" where
  "cached_rollout_from ad ctx as =
     (case ac_init_cache ad (Rows ctx) of Inl e \<Rightarrow> Inl e | Inr c \<Rightarrow> cached_rollout ad c ctx as)"

lemma cached_rollout_synced:
  assumes law: "ac_net_law ad"
  shows "synced ad c [ctx] \<Longrightarrow> window (patches ad) ctx \<Longrightarrow> \<forall>a \<in> set as. length a = adim ad \<Longrightarrow>
    cached_rollout ad c ctx as = full_rollout ad ctx as \<and> (\<exists>w. full_rollout ad ctx as = Inr w)"
proof (induction as arbitrary: c ctx)
  case (Cons a as)
  let ?b = "full_prediction ad ctx a"
  have a: "length a = adim ad" using Cons.prems by simp
  obtain c1 where c1: "ac_step_cached ad c (Vec a) = Inr (Rows ?b, c1)" "stepped ad c1 [ctx]"
    using step_cached_one [OF law Cons.prems(1) a] by blast
  have b: "length ?b = patches ad" using law Cons.prems(2) a by (rule full_prediction_rows)
  obtain c2 where c2: "ac_append_frame ad c1 (Rows ?b) = Inr c2" "synced ad c2 [ctx @ ?b]"
    using append_frame_one [OF law c1(2) b] by blast
  have "window (patches ad) (ctx @ ?b)" using Cons.prems(2) b by (rule window_append)
  with Cons.IH [OF c2(2)] Cons.prems(3) c1(1) c2(1) ac_call_one [OF law Cons.prems(2), of a]
  show ?case by simp
qed simp

lemma cached_rollout_from_full:
  assumes "ac_net_law ad" "window (patches ad) ctx" "\<forall>a \<in> set as. length a = adim ad"
  shows "cached_rollout_from ad ctx as = full_rollout ad ctx as \<and> (\<exists>w. full_rollout ad ctx as = Inr w)"
  using init_cache_synced [OF assms(1,2)] cached_rollout_synced [OF assms(1) _ assms(2,3)]
  by (auto simp: cached_rollout_from_def)

text \<open>A small predictor with one attention layer, to compute with.\<close>

definition small_block :: "(int, int) ac_block" where
  "small_block =
     \<lparr>norm1 = (\<lambda>h. h), attn_qkv = (\<lambda>h. [h, h + 1, h + 2]), num_heads = 1, d_dim = 0, h_dim = 0,
      w_dim = 0, separate_positions = (\<lambda>i h w. (i, i, i)), grid_size = 1,
      attend = (\<lambda>q k v. map (map (map ((+) (sum_list (concat (concat k)) + sum_list (concat (concat v)))))) q),
      attn_proj = (\<lambda>t. sum_list (concat t)), proj_drop = (\<lambda>h. h), drop_path = (\<lambda>h. h),
      norm2 = (\<lambda>h. h), mlp = (\<lambda>h. 2 * h), block_forward = (\<lambda>x t. x)\<rparr>"

definition small_net :: "(int, int, int) ac_net" where
  "small_net =
     \<lparr>floats = \<lparr>f_of_int = (\<lambda>i. i), f_plus = (+), f_times = (*), f_divide = (\<lambda>x y. x),
        f_neg = uminus, f_pow = (\<lambda>x y. x), f_sin = (\<lambda>x. x), f_cos = (\<lambda>x. x)\<rparr>,
      predictor_embed = (\<lambda>r. r), action_encoder = sum_list, state_encoder = sum_list,
      extrinsics_encoder = sum_list, use_extrinsics = False, predictor_blocks = [], h_add = (+),
      predictor_norm = (\<lambda>h. h), predictor_proj = (\<lambda>h. h), grid_height = 1, grid_width = 1,
      net_forward = (\<lambda>_ _ _. [])\<rparr>"

definition causal_block :: "(int, int) ac_block" where
  "causal_block =
     small_block\<lparr>block_forward := (\<lambda>x t. concat (causal_layer small_net small_block (chunks_of 3 x)))\<rparr>"

definition small_adapter :: "(int, int, int) ac_adapter" where
  "small_adapter = with_forward \<lparr>net = small_net\<lparr>predictor_blocks := [causal_block]\<rparr>, patches = 1,
     adim = 1, to_compute = (\<lambda>r. r), to_input = (\<lambda>r. r)\<rparr>"

lemma causal_layer_block_forward:
  "causal_layer (n\<lparr>predictor_blocks := bs\<rparr>) (b\<lparr>block_forward := f\<rparr>) = causal_layer n b"
proof -
  have "rotate_augmented (n\<lparr>predictor_blocks := bs\<rparr>) (b\<lparr>block_forward := f\<rparr>) = rotate_augmented n b"
    by (simp add: rotate_augmented_def action_tokens_def rotate_cond_def rotate_visual_def Let_def
        fun_eq_iff cong: if_cong)
  moreover have "raw_qkv (b\<lparr>block_forward := f\<rparr>) = raw_qkv b"
    by (simp add: raw_qkv_def Let_def fun_eq_iff)
  ultimately have "layer_advance (n\<lparr>predictor_blocks := bs\<rparr>) (b\<lparr>block_forward := f\<rparr>) = layer_advance n b"
    and "frames_kv (b\<lparr>block_forward := f\<rparr>) = frames_kv b"
    by (simp_all add: layer_advance_def frames_kv_def kraw_def o_def fun_eq_iff)
  then show ?thesis by (intro ext) (simp only: causal_layer_def)
qed

lemma small_adapter_law: "ac_net_law small_adapter"
proof -
  let ?n = "small_net\<lparr>predictor_blocks := [causal_block]\<rparr>"
  have "causal_layer ?n causal_block = causal_layer small_net small_block"
    unfolding causal_block_def by (rule causal_layer_block_forward)
  then have "block_forward causal_block (concat fs) t = concat (causal_layer ?n causal_block fs)"
    if "\<forall>f \<in> set fs. length f = 3" for fs t
    using that by (simp add: causal_block_def chunks_concat)
  moreover have "length (attend causal_block q k v) = length q" for q k v
    by (simp add: causal_block_def small_block_def)
  moreover have "action_tokens ?n = 2" by (simp add: action_tokens_def small_net_def)
  ultimately show ?thesis
    unfolding small_adapter_def
    by (intro with_forward_law) (simp_all add: block_law_def per_frame_tokens_def)
qed

lemma small_adapter_sizes:
  "patches small_adapter = 1" "adim small_adapter = 1" "action_tokens (net small_adapter) = 2"
  by (simp_all add: small_adapter_def with_forward_def action_tokens_def small_net_def)



section \<open>Eviction\<close>

lemma cut_frame:
  assumes "\<forall>f \<in> set fs. length f = n" "s < length fs"
  shows "take (s * n) (concat fs) @ drop (s * n + n) (concat fs) = concat (take s fs @ drop (Suc s) fs)"
proof -
  have "length (concat (take j fs)) = j * n" if "j \<le> length fs" for j
    using assms(1) that by (induction j) (auto simp: take_Suc_conv_app_nth)
  from this [of s] this [of "Suc s"] assms(2)
  have "length (concat (take s fs)) = s * n" "length (concat (take (Suc s) fs)) = s * n + n" by simp_all
  moreover have "concat fs = concat (take s fs) @ concat (drop s fs)"
    "concat fs = concat (take (Suc s) fs) @ concat (drop (Suc s) fs)"
    by (simp_all flip: concat_append)
  ultimately show ?thesis by (metis append_eq_conv_conj concat_append)
qed

text \<open>eviction removes one whole frame and nothing else. On a cache whose layers hold
  whole frames of tokens, evicting behind a sink prefix of s frames returns the cache with
  frame s dropped from the keys and values of every layer of every sample, the sink and all
  newer frames kept in order, and refuses with an error when no frame outside the sink is
  left.\<close>

theorem evict_drops_exactly_one_frame:
  assumes "kv c = map (map (\<lambda>(ks, vs). (concat ks, concat vs))) fs"
    and "\<forall>sample \<in> set fs. \<forall>(ks, vs) \<in> set sample.
      int (length ks) = processed_frames c \<and> int (length vs) = processed_frames c \<and>
      (\<forall>f \<in> set ks \<union> set vs. length f = action_tokens (net ad) + patches ad)"
  shows "ac_evict ad c s =
    (if 0 \<le> s \<and> s < processed_frames c
     then Inr (c\<lparr>kv := map (map (\<lambda>(ks, vs). (concat (take (nat s) ks @ drop (Suc (nat s)) ks),
                                          concat (take (nat s) vs @ drop (Suc (nat s)) vs)))) fs,
                processed_frames := processed_frames c - 1\<rparr>)
     else Inl (ValueError ''kv_sink_frames must leave a non-sink frame available to evict''))"
proof (cases "0 \<le> s \<and> s < processed_frames c")
  case True
  let ?b = "action_tokens (net ad) + patches ad"
  have cut: "take (nat s * ?b) (concat ks) @ drop (nat s * ?b + ?b) (concat ks)
      = concat (take (nat s) ks @ drop (Suc (nat s)) ks)"
    if "int (length ks) = processed_frames c" "\<forall>f \<in> set ks. length f = ?b" for ks :: "_ tok list list"
    using cut_frame [OF that(2), of "nat s"] True that(1) by linarith
  have "map (map (\<lambda>(k, v). (take (nat s * ?b) k @ drop (nat s * ?b + ?b) k,
          take (nat s * ?b) v @ drop (nat s * ?b + ?b) v))) (kv c)
      = map (map (\<lambda>(ks, vs). (concat (take (nat s) ks @ drop (Suc (nat s)) ks),
          concat (take (nat s) vs @ drop (Suc (nat s)) vs)))) fs"
    unfolding assms(1) map_map o_def
  proof (intro map_cong refl)
    fix sample x assume mem: "sample \<in> set fs" "x \<in> set sample"
    obtain ks vs where x: "x = (ks, vs)" by (cases x)
    with mem assms(2) have "int (length ks) = processed_frames c \<and> (\<forall>f \<in> set ks. length f = ?b)"
      "int (length vs) = processed_frames c \<and> (\<forall>f \<in> set vs. length f = ?b)" by fastforce+
    with cut [of ks] cut [of vs] x show "(case case x of (ks, vs) \<Rightarrow> (concat ks, concat vs) of
        (k, v) \<Rightarrow> (take (nat s * ?b) k @ drop (nat s * ?b + ?b) k,
          take (nat s * ?b) v @ drop (nat s * ?b + ?b) v))
      = (case x of (ks, vs) \<Rightarrow> (concat (take (nat s) ks @ drop (Suc (nat s)) ks),
          concat (take (nat s) vs @ drop (Suc (nat s)) vs)))" by simp
  qed
  with True show ?thesis by (simp add: ac_evict_def Let_def)
qed (auto simp: ac_evict_def)

theorem evict_drops_exactly_one_frame_witness:
  "ac_evict small_adapter \<lparr>kv = [[(map (\<lambda>i. [[i]]) [1..6], map (\<lambda>i. [[i]]) [11..16])]],
      processed_frames = 2, pending = Some [[7]]\<rparr> 1
   = Inr \<lparr>kv = [[(map (\<lambda>i. [[i]]) [1..3], map (\<lambda>i. [[i]]) [11..13])]],
      processed_frames = 1, pending = Some [[7]]\<rparr>"
proof -
  let ?f = "\<lambda>xs. map (\<lambda>i :: int. [[i]]) xs"
  let ?c = "\<lparr>kv = [[(?f [1..6], ?f [11..16])]], processed_frames = 2, pending = Some [[7 :: int]]\<rparr>"
  have u: "[1..6] = [1, 2, 3, 4, 5, 6 :: int]" "[11..16] = [11, 12, 13, 14, 15, 16 :: int]"
    "[1..3] = [1, 2, 3 :: int]" "[11..13] = [11, 12, 13 :: int]" by code_simp+
  let ?fs = "[[([?f [1, 2, 3], ?f [4, 5, 6]], [?f [11, 12, 13], ?f [14, 15, 16]])]]"
  have kv: "kv ?c = map (map (\<lambda>(ks, vs). (concat ks, concat vs))) ?fs" by (simp add: u)
  have "\<forall>sample \<in> set ?fs. \<forall>(ks, vs) \<in> set sample.
      int (length ks) = processed_frames ?c \<and> int (length vs) = processed_frames ?c \<and>
      (\<forall>f \<in> set ks \<union> set vs. length f = action_tokens (net small_adapter) + patches small_adapter)"
    by (auto simp: small_adapter_sizes)
  from evict_drops_exactly_one_frame [OF kv this, of 1] show ?thesis by (simp add: u)
qed

section \<open>The rotation does not compose\<close>

definition real_floats :: "real float_ops" where
  "real_floats = \<lparr>f_of_int = real_of_int, f_plus = (+), f_times = (*), f_divide = (/), f_neg = uminus,
     f_pow = (powr), f_sin = sin, f_cos = cos\<rparr>"

lemma omega_real: "omega real_floats 4 0 = 1" "omega real_floats 4 1 = 1 / 100"
proof -
  have "10000 powr (1 / 2) = (100 :: real)"
    using powr_half_sqrt [of 10000] real_sqrt_unique [of 100 10000] by simp
  then show "omega real_floats 4 0 = 1" "omega real_floats 4 1 = 1 / 100"
    by (simp_all add: omega_def real_floats_def)
qed

text \<open>the checkpoint-compatible rotation is not a rotation by the position: over the reals,
  rotating twice by one position differs from rotating once by two. A cached key that had been
  rotated could not be moved to another position in the window, so keys are cached as they are
  before the rotation.\<close>

theorem rotations_do_not_compose:
  "\<exists>x. bug_compatible_rope real_floats (bug_compatible_rope real_floats x 1) 1
     \<noteq> bug_compatible_rope real_floats x (1 + 1)"
proof -
  have rope: "bug_compatible_rope real_floats [a, b, c, d] p =
      [a * cos p - b * sin p, b * cos (p / 100) + a * sin (p / 100),
       c * cos p - d * sin p, d * cos (p / 100) + c * sin (p / 100)]" for a b c d p
  proof -
    have "[0..<4 div 2] = [0, 1 :: nat]" by code_simp
    moreover have "f_times real_floats = (*)" by (simp add: real_floats_def)
    ultimately have freq: "map (\<lambda>i. f_times real_floats p (omega real_floats 4 i)) [0..<4 div 2] = [p, p / 100]"
      by (simp only: list.map omega_real) simp
    have len: "length [a, b, c, d] = 4" by simp
    show ?thesis
      unfolding bug_compatible_rope_def Let_def len freq by (simp add: real_floats_def)
  qed
  have "sin (1 / 100) < sin (1 :: real)"
    by (rule sin_monotone_2pi) (use pi_ge_two in linarith)+
  moreover have "sin (1 :: real) > 0" by (rule sin_gt_zero) (use pi_ge_two in linarith)+
  ultimately have "sin (1 / 100 :: real) * sin 1 \<noteq> sin 1 * sin 1" by simp
  moreover have "cos (1 + 1 :: real) = cos 1 * cos 1 - sin 1 * sin 1" by (rule cos_add)
  ultimately have "bug_compatible_rope real_floats (bug_compatible_rope real_floats [1, 0, 0, 0] 1) 1
      \<noteq> bug_compatible_rope real_floats [1, 0, 0, 0] (1 + 1)"
    unfolding rope by simp
  then show ?thesis by blast
qed

end
