(* ===== verification/VJepa2AC.thy ===== *)
theory VJepa2AC
  imports AcPredictor RuntimeTypes
begin

text \<open>
  The V-JEPA 2-AC engine (\<open>models/vjepa2_ac.py\<close>): reset, step with its per-session cache, the
  energy planner and release. A context window is a list of rows, compared by value. What the
  engine imports (transformers, torch hub, torch's arithmetic, the decoders of images and
  videos) are fields of \<open>vj_lib\<close>; random noise is an argument of the planner. Every method takes
  the engine and returns it updated beside its result or exception.

  The predictor is used through the interfaces of PredictorSpec: under them the cached step is
  the uncached step, batched energies are the looped ones, and planning never changes what a
  later step returns.
\<close>

section \<open>Configuration and state\<close>

record vj_config =
  encoder_repo :: string
  predictor_repo :: string
  device_index :: int
  dtype :: string
  context_frames :: int
  seed_frames :: int
  seed_resolution :: int
  plan_samples :: int
  plan_elites :: int
  plan_iters :: int
  action_dim :: int
  plan_warm_start :: bool
  plan_batched :: bool
  predictor_compute_dtype :: string
  use_kv_cache :: bool
  reset_context_frames :: "int option"
  kv_evict_policy :: string
  kv_sink_frames :: int
  plan_batched_kv :: bool

definition default_config :: vj_config where
  "default_config =
     \<lparr>encoder_repo = ''facebook/vjepa2-vitg-fpc64-256'', predictor_repo = ''facebookresearch/vjepa2'',
      device_index = 0, dtype = ''bfloat16'', context_frames = 8, seed_frames = 64,
      seed_resolution = 256, plan_samples = 64, plan_elites = 8, plan_iters = 3, action_dim = 7,
      plan_warm_start = True, plan_batched = True, predictor_compute_dtype = ''float32'',
      use_kv_cache = True, reset_context_frames = None, kv_evict_policy = ''reinit'',
      kv_sink_frames = 0, plan_batched_kv = False\<rparr>"

record ('p, 'r) encoder =
  vision_features :: "'p \<Rightarrow> 'r nd"
  crop_size :: "int option"
  patch_size :: "int option"

text \<open>An action sequence and a mean are lists of action vectors.\<close>

record ('r, 'f, 'c, 'p, 'g, 'e) vj_lib =
  auto_model :: "string \<Rightarrow> string \<Rightarrow> exn + ('p, 'r) encoder"
  load_head :: "vj_config \<Rightarrow> nat \<Rightarrow> exn + ('r, 'f, 'c) predictor"
  layer_norm :: "'r \<Rightarrow> 'r"
  cast_action :: "'f list \<Rightarrow> 'f list"
  vector_norm :: "'r list \<Rightarrow> 'g \<Rightarrow> 'e"
  perturb :: "'f list list \<Rightarrow> 'f list list \<Rightarrow> 'f list list \<Rightarrow> 'f list list"
  topk_smallest :: "'e list \<Rightarrow> int \<Rightarrow> exn + nat list"
  elite_mean :: "'f list list list \<Rightarrow> 'f list list"
  elite_std :: "'f list list list \<Rightarrow> 'f list list"
  f_nil :: 'f
  f_unit :: 'f
  zero_clip :: "int \<Rightarrow> int \<Rightarrow> 'p list"
  read_image :: "string \<Rightarrow> exn + 'p"
  read_video :: "string \<Rightarrow> exn + 'p list"
  linspace_long :: "int \<Rightarrow> int \<Rightarrow> int list"
  resize_normalize :: "int \<Rightarrow> 'p list \<Rightarrow> 'p list"
  pack_clip :: "'p list \<Rightarrow> 'p"
  to_backend :: "'p \<Rightarrow> 'p"

record ('r, 'c) cache_entry =
  ce_cache :: 'c
  last_context :: "'r list"

record ('r, 'f, 'c, 'p) vj_engine =
  config :: vj_config
  backend_name :: string
  eng_encoder :: "('p, 'r) encoder option"
  eng_predictor :: "('r, 'f, 'c) predictor option"
  tokens_per_frame :: nat
  normalize_reps :: bool
  plan_mean :: "(string, 'f list list) dict"
  kv_cache :: "(string, ('r, 'c) cache_entry) dict"

definition vj_init ::
    "string \<Rightarrow> vj_config option \<Rightarrow> ('p, 'r) encoder option \<Rightarrow> ('r, 'f, 'c) predictor option
      \<Rightarrow> ('r, 'f, 'c, 'p) vj_engine" where
  "vj_init backend cfg enc pred =
     \<lparr>config = (case cfg of None \<Rightarrow> default_config | Some c \<Rightarrow> c), backend_name = backend,
      eng_encoder = enc, eng_predictor = pred, tokens_per_frame = 1, normalize_reps = False,
      plan_mean = [], kv_cache = []\<rparr>"

definition is_loaded :: "('r, 'f, 'c, 'p) vj_engine \<Rightarrow> bool" where
  "is_loaded e \<longleftrightarrow> eng_encoder e \<noteq> None \<and> eng_predictor e \<noteq> None"

definition vj_info :: "('r, 'f, 'c, 'p) vj_engine \<Rightarrow> engine_info" where
  "vj_info e =
     \<lparr>ei_model_name = ''vjepa2-ac-300m'', ei_backend = backend_name e,
      ei_device = backend_name e @ '':'' @ int_str (device_index (config e)),
      ei_dtype = dtype (config e), ei_ready = is_loaded e\<rparr>"

section \<open>Loading\<close>

definition infer_tokens_per_frame :: "('p, 'r) encoder \<Rightarrow> nat" where
  "infer_tokens_per_frame enc =
     (case (crop_size enc, patch_size enc) of
        (Some crop, Some patch) \<Rightarrow>
          (if crop = 0 \<or> patch = 0 then 1 else nat ((crop div patch) ^ 2))
      | _ \<Rightarrow> 1)"

definition ensure_encoder ::
    "('r, 'f, 'c, 'p, 'g, 'e) vj_lib \<Rightarrow> ('r, 'f, 'c, 'p) vj_engine
      \<Rightarrow> ('r, 'f, 'c, 'p) vj_engine \<times> (exn + ('p, 'r) encoder)" where
  "ensure_encoder lib e =
     (case eng_encoder e of
        Some enc \<Rightarrow> (e, Inr enc)
      | None \<Rightarrow>
          (case auto_model lib (encoder_repo (config e)) (dtype (config e)) of
             Inl x \<Rightarrow> (e, Inl x)
           | Inr enc \<Rightarrow>
               (e\<lparr>eng_encoder := Some enc, tokens_per_frame := infer_tokens_per_frame enc,
                  normalize_reps := True\<rparr>, Inr enc)))"

definition ensure_predictor ::
    "('r, 'f, 'c, 'p, 'g, 'e) vj_lib \<Rightarrow> ('r, 'f, 'c, 'p) vj_engine
      \<Rightarrow> ('r, 'f, 'c, 'p) vj_engine \<times> (exn + ('r, 'f, 'c) predictor)" where
  "ensure_predictor lib e =
     (case eng_predictor e of
        Some p \<Rightarrow> (e, Inr p)
      | None \<Rightarrow>
          (case ensure_encoder lib e of
             (e1, Inl x) \<Rightarrow> (e1, Inl x)
           | (e1, Inr _) \<Rightarrow>
               (case load_head lib (config e1) (tokens_per_frame e1) of
                  Inl x \<Rightarrow> (e1, Inl x)
                | Inr p \<Rightarrow> (e1\<lparr>eng_predictor := Some p\<rparr>, Inr p))))"

text \<open>
  The published predictor head: the architecture from torch hub, the checkpoint's weights under
  their cleaned names. Hub, checkpoint and placement on the device are parameters.
\<close>

record ('r, 'h, 'f, 'w) hub =
  hub_load :: "string \<Rightarrow> string \<Rightarrow> exn + ('r, 'h, 'f) ac_net"
  load_checkpoint :: "string \<Rightarrow> exn + (string \<times> 'w) list"
  load_state_dict :: "('r, 'h, 'f) ac_net \<Rightarrow> (string, 'w) dict \<Rightarrow> exn + ('r, 'h, 'f) ac_net"
  place :: "string \<Rightarrow> string \<Rightarrow> ('r, 'h, 'f) ac_net \<Rightarrow> ('r, 'h, 'f) ac_net"
  cast_in :: "string \<Rightarrow> 'r \<Rightarrow> 'r"
  cast_out :: "string \<Rightarrow> 'r \<Rightarrow> 'r"

definition clean_key :: "string \<Rightarrow> string" where
  "clean_key k = str_remove ''backbone.'' (str_remove ''module.'' k)"

definition load_ac_adapter ::
    "('r, 'h, 'f, 'w) hub \<Rightarrow> vj_config \<Rightarrow> nat \<Rightarrow> exn + ('r, 'h, 'f) ac_adapter" where
  "load_ac_adapter hub cfg tpf =
     (case hub_load hub (predictor_repo cfg) ''vjepa2_ac_vit_giant'' of
        Inl x \<Rightarrow> Inl x
      | Inr n \<Rightarrow>
          (case load_checkpoint hub ''https://dl.fbaipublicfiles.com/vjepa2/vjepa2-ac-vitg.pt'' of
             Inl x \<Rightarrow> Inl x
           | Inr ckpt \<Rightarrow>
               (case load_state_dict hub n (fold (\<lambda>(k, v). AList.update (clean_key k) v) ckpt []) of
                  Inl x \<Rightarrow> Inl x
                | Inr n' \<Rightarrow>
                    (let cdtype = predictor_compute_dtype cfg
                     in Inr \<lparr>net = place hub (''cuda:'' @ int_str (device_index cfg)) cdtype n',
                             patches = tpf, adim = nat (action_dim cfg),
                             to_compute = cast_in hub cdtype, to_input = cast_out hub cdtype\<rparr>))))"

section \<open>Observations\<close>

definition decode_observation ::
    "('r, 'f, 'c, 'p, 'g, 'e) vj_lib \<Rightarrow> conditioning_input \<Rightarrow> int \<Rightarrow> int \<Rightarrow> exn + 'p list" where
  "decode_observation lib c frames resolution =
     (case ci_uri c of
        None \<Rightarrow> Inl (ValueError (kind_value (ci_kind c) @ '' conditioning requires a uri''))
      | Some uri \<Rightarrow>
          (if uri = [] then Inl (ValueError (kind_value (ci_kind c) @ '' conditioning requires a uri''))
           else if ci_kind c = KindImage then
             (case read_image lib uri of
                Inl x \<Rightarrow> Inl x
              | Inr img \<Rightarrow> Inr (resize_normalize lib resolution (replicate (nat frames) img)))
           else
             (case read_video lib uri of
                Inl x \<Rightarrow> Inl x
              | Inr video \<Rightarrow>
                  (let idx = linspace_long lib (max (int (length video) - 1) 0) frames
                   in if \<exists>i \<in> set idx. \<not> (0 \<le> i \<and> i < int (length video))
                      then Inl (OtherException ''IndexError'')
                      else Inr (resize_normalize lib resolution (map (\<lambda>i. video ! nat i) idx))))))"

definition resolve_frames ::
    "('r, 'f, 'c, 'p, 'g, 'e) vj_lib \<Rightarrow> ('r, 'f, 'c, 'p) vj_engine \<Rightarrow> conditioning_input \<Rightarrow> exn + 'p" where
  "resolve_frames lib e c =
     (let n = seed_frames (config e); r = seed_resolution (config e)
      in case (if ci_kind c = KindNone then Inr (zero_clip lib n r) else decode_observation lib c n r) of
           Inl x \<Rightarrow> Inl x
         | Inr clip \<Rightarrow> Inr (to_backend lib (pack_clip lib clip)))"

definition as_context :: "'r nd \<Rightarrow> exn + 'r list" where
  "as_context features =
     (case features of
        Stack (x # _) \<Rightarrow> Inr x
      | Stack [] \<Rightarrow> Inl (OtherException ''IndexError'')
      | Rows x \<Rightarrow> Inr x
      | Row r \<Rightarrow> Inr [r])"

definition maybe_norm ::
    "('r, 'f, 'c, 'p, 'g, 'e) vj_lib \<Rightarrow> ('r, 'f, 'c, 'p) vj_engine \<Rightarrow> 'r list \<Rightarrow> 'r list" where
  "maybe_norm lib e reps = (if normalize_reps e then map (layer_norm lib) reps else reps)"

definition window_rows :: "('r, 'f, 'c, 'p) vj_engine \<Rightarrow> int" where
  "window_rows e = context_frames (config e) * int (tokens_per_frame e)"

text \<open>\<open>reset_context_frames or context_frames\<close>: None and 0 both fall back.\<close>

definition vj_reset ::
    "('r, 'f, 'c, 'p, 'g, 'e) vj_lib \<Rightarrow> ('r, 'f, 'c, 'p) vj_engine \<Rightarrow> conditioning_input \<Rightarrow> string
      \<Rightarrow> ('r, 'f, 'c, 'p) vj_engine \<times> (exn + 'r list world_state)" where
  "vj_reset lib e0 c new_session =
     (case ensure_encoder lib e0 of
        (e, Inl x) \<Rightarrow> (e, Inl x)
      | (e, Inr enc) \<Rightarrow>
          (e, case resolve_frames lib e c of
                Inl x \<Rightarrow> Inl x
              | Inr frames \<Rightarrow>
                  (let cf = context_frames (config e);
                       seed = (case reset_context_frames (config e) of
                                 None \<Rightarrow> cf | Some n \<Rightarrow> if n = 0 then cf else n);
                       keep = min seed cf * int (tokens_per_frame e)
                   in case as_context (vision_features enc frames) of
                        Inl x \<Rightarrow> Inl x
                      | Inr ctx \<Rightarrow>
                          Inr \<lparr>ws_context = maybe_norm lib e (py_tail keep ctx), ws_step_index = 0,
                               ws_session_id = new_session\<rparr>)))"

section \<open>Stepping\<close>

definition frames_now :: "('r, 'f, 'c, 'p) vj_engine \<Rightarrow> 'r list \<Rightarrow> int" where
  "frames_now e ctx = int (length ctx) div int (tokens_per_frame e)"

definition reusable_entry ::
    "('r, 'f, 'c, 'p) vj_engine \<Rightarrow> 'r list world_state \<Rightarrow> ('r, 'c) cache_entry option" where
  "reusable_entry e st =
     (case map_of (kv_cache e) (ws_session_id st) of
        None \<Rightarrow> None
      | Some en \<Rightarrow> if last_context en = ws_context st then Some en else None)"

definition step_cached_path ::
    "('r, 'f, 'c) predictor \<Rightarrow> ('r, 'f, 'c, 'p) vj_engine \<Rightarrow> 'r list world_state \<Rightarrow> 'f list
      \<Rightarrow> exn + ('r nd \<times> 'c)" where
  "step_cached_path p e st vec =
     (case (case reusable_entry e st of
              Some en \<Rightarrow> Inr (ce_cache en)
            | None \<Rightarrow> p_init_cache p (Rows (ws_context st))) of
        Inl x \<Rightarrow> Inl x
      | Inr cache \<Rightarrow> p_step_cached p cache (Vec vec))"

definition sync_kv_cache ::
    "('r, 'f, 'c) predictor \<Rightarrow> ('r, 'f, 'c, 'p) vj_engine \<Rightarrow> 'r list world_state \<Rightarrow> string
      \<Rightarrow> 'r list \<Rightarrow> 'c \<Rightarrow> 'r list \<Rightarrow> ('r, 'f, 'c, 'p) vj_engine \<times> (exn + unit)" where
  "sync_kv_cache p e st sid new_context cache normed_block =
     (let window_full = frames_now e (ws_context st) \<ge> context_frames (config e)
      in if window_full \<and> kv_evict_policy (config e) = ''reinit''
         then (e\<lparr>kv_cache := AList.delete sid (kv_cache e)\<rparr>, Inr ())
         else (case p_append_frame p cache (Rows normed_block) of
             Inl x \<Rightarrow> (e, Inl x)
           | Inr c1 \<Rightarrow>
               (case (if window_full \<and> kv_evict_policy (config e) = ''slide''
                      then p_evict p c1 (kv_sink_frames (config e)) else Inr c1) of
                  Inl x \<Rightarrow> (e, Inl x)
                | Inr c2 \<Rightarrow>
                    (e\<lparr>kv_cache := AList.update sid \<lparr>ce_cache = c2, last_context = new_context\<rparr>
                         (kv_cache e)\<rparr>, Inr ()))))"

definition vj_step ::
    "('r, 'f, 'c, 'p, 'g, 'e) vj_lib \<Rightarrow> ('r, 'f, 'c, 'p) vj_engine \<Rightarrow> 'r list world_state
      \<Rightarrow> 'f list \<Rightarrow> ('r, 'f, 'c, 'p) vj_engine \<times> (exn + ('r list world_state \<times> int))" where
  "vj_step lib e0 st values =
     (case ensure_predictor lib e0 of
        (e, Inl x) \<Rightarrow> (e, Inl x)
      | (e, Inr p) \<Rightarrow>
          (let cfg = config e;
               sid = ws_session_id st;
               cache_capable = use_kv_cache cfg \<and> supports_kv_cache p;
               cached_path = cache_capable \<and> (kv_evict_policy cfg = ''slide''
                 \<or> frames_now e (ws_context st) < context_frames cfg \<or> reusable_entry e st \<noteq> None);
               e1 = (if cache_capable \<and> \<not> cached_path
                     then e\<lparr>kv_cache := AList.delete sid (kv_cache e)\<rparr> else e);
               vec = cast_action lib values;
               nxt = (if cached_path then map_sum id (\<lambda>(n, c). (n, Some c)) (step_cached_path p e1 st vec)
                      else map_sum id (\<lambda>n. (n, None)) (p_call p (Rows (ws_context st)) (Vec vec)))
           in case nxt of
                Inl x \<Rightarrow> (e1, Inl x)
              | Inr (n, cache) \<Rightarrow>
                  (case as_block n of
                     Inl x \<Rightarrow> (e1, Inl x)
                   | Inr b \<Rightarrow>
                       (let block = maybe_norm lib e1 b;
                            ctx = py_tail (window_rows e1) (ws_context st @ block);
                            result = (\<lparr>ws_context = ctx, ws_step_index = ws_step_index st + 1,
                                       ws_session_id = sid\<rparr>, ws_step_index st + 1)
                        in case cache of
                             None \<Rightarrow> (e1, Inr result)
                           | Some c \<Rightarrow>
                               (case sync_kv_cache p e1 st sid ctx c block of
                                  (e2, Inl x) \<Rightarrow> (e2, Inl x)
                                | (e2, Inr _) \<Rightarrow> (e2, Inr result))))))"

definition vj_release :: "('r, 'f, 'c, 'p) vj_engine \<Rightarrow> 'r list world_state \<Rightarrow> ('r, 'f, 'c, 'p) vj_engine" where
  "vj_release e st =
     e\<lparr>kv_cache := AList.delete (ws_session_id st) (kv_cache e),
       plan_mean := AList.delete (ws_session_id st) (plan_mean e)\<rparr>"

section \<open>Planning\<close>

fun rollout ::
    "('r, 'f, 'c, 'p, 'g, 'e) vj_lib \<Rightarrow> ('r, 'f, 'c, 'p) vj_engine \<Rightarrow> 'r list world_state
      \<Rightarrow> 'f list list \<Rightarrow> ('r, 'f, 'c, 'p) vj_engine \<times> (exn + 'r list world_state)" where
  "rollout lib e st [] = (e, Inr st)"
| "rollout lib e st (a # as) =
     (case vj_step lib e st a of
        (e', Inl x) \<Rightarrow> (e', Inl x)
      | (e', Inr (st', _)) \<Rightarrow> rollout lib e' st' as)"

definition rollout_energy ::
    "('r, 'f, 'c, 'p, 'g, 'e) vj_lib \<Rightarrow> ('r, 'f, 'c, 'p) vj_engine \<Rightarrow> 'r list world_state
      \<Rightarrow> 'g \<Rightarrow> 'f list list \<Rightarrow> ('r, 'f, 'c, 'p) vj_engine \<times> (exn + 'e)" where
  "rollout_energy lib e st goal action_seq =
     (case rollout lib e st action_seq of
        (e', Inl x) \<Rightarrow> (e', Inl x)
      | (e', Inr rolled) \<Rightarrow>
          (e', Inr (vector_norm lib (py_tail (int (tokens_per_frame e')) (ws_context rolled)) goal)))"

fun looped_energies ::
    "('r, 'f, 'c, 'p, 'g, 'e) vj_lib \<Rightarrow> ('r, 'f, 'c, 'p) vj_engine \<Rightarrow> 'r list world_state
      \<Rightarrow> 'g \<Rightarrow> 'f list list list \<Rightarrow> ('r, 'f, 'c, 'p) vj_engine \<times> (exn + 'e list)" where
  "looped_energies lib e st goal [] = (e, Inr [])"
| "looped_energies lib e st goal (s # ss) =
     (case rollout_energy lib e st goal s of
        (e', Inl x) \<Rightarrow> (e', Inl x)
      | (e', Inr en) \<Rightarrow>
          (case looped_energies lib e' st goal ss of
             (e2, Inl x) \<Rightarrow> (e2, Inl x)
           | (e2, Inr ens) \<Rightarrow> (e2, Inr (en # ens))))"

text \<open>One batched forward per time step; \<open>seqs[:, t]\<close> is the t-th action of every candidate.\<close>

fun batched_rollout ::
    "('r, 'f, 'c, 'p, 'g, 'e) vj_lib \<Rightarrow> ('r, 'f, 'c, 'p) vj_engine \<Rightarrow> ('r, 'f, 'c) predictor
      \<Rightarrow> 'f list list list \<Rightarrow> 'r list list \<Rightarrow> nat list \<Rightarrow> exn + 'r list list" where
  "batched_rollout lib e p seqs ctxs [] = Inr ctxs"
| "batched_rollout lib e p seqs ctxs (t # ts) =
     (case p_call p (Stack ctxs) (Mat (map (\<lambda>s. s ! t) seqs)) of
        Inl x \<Rightarrow> Inl x
      | Inr (Stack blocks) \<Rightarrow>
          batched_rollout lib e p seqs
            (map2 (\<lambda>c b. py_tail (window_rows e) (c @ maybe_norm lib e b)) ctxs blocks) ts
      | Inr _ \<Rightarrow> Inl (RuntimeError ''Tensors must have same number of dimensions''))"

definition rollout_energy_batched ::
    "('r, 'f, 'c, 'p, 'g, 'e) vj_lib \<Rightarrow> ('r, 'f, 'c, 'p) vj_engine \<Rightarrow> 'r list world_state
      \<Rightarrow> 'g \<Rightarrow> nat \<Rightarrow> 'f list list list \<Rightarrow> ('r, 'f, 'c, 'p) vj_engine \<times> (exn + 'e list)" where
  "rollout_energy_batched lib e0 st goal horizon seqs =
     (case ensure_predictor lib e0 of
        (e, Inl x) \<Rightarrow> (e, Inl x)
      | (e, Inr p) \<Rightarrow>
          (e, map_sum id (map (\<lambda>c. vector_norm lib (py_tail (int (tokens_per_frame e)) c) goal))
                (batched_rollout lib e p seqs (map (\<lambda>_. ws_context st) seqs) [0..<horizon])))"

fun cached_batched_rollout ::
    "('r, 'f, 'c, 'p, 'g, 'e) vj_lib \<Rightarrow> ('r, 'f, 'c, 'p) vj_engine \<Rightarrow> ('r, 'f, 'c) predictor
      \<Rightarrow> 'f list list list \<Rightarrow> 'c \<Rightarrow> 'r list list option \<Rightarrow> nat list \<Rightarrow> exn + 'r list list option" where
  "cached_batched_rollout lib e p seqs cache terminal [] = Inr terminal"
| "cached_batched_rollout lib e p seqs cache terminal (t # ts) =
     (case p_step_cached p cache (Mat (map (\<lambda>s. s ! t) seqs)) of
        Inl x \<Rightarrow> Inl x
      | Inr (Stack predicted, c1) \<Rightarrow>
          (let term = map (maybe_norm lib e) predicted
           in case p_append_frame p c1 (Stack term) of
                Inl x \<Rightarrow> Inl x
              | Inr c2 \<Rightarrow> cached_batched_rollout lib e p seqs c2 (Some term) ts)
      | Inr _ \<Rightarrow> Inl (RuntimeError ''Tensors must have same number of dimensions''))"

text \<open>The inner \<open>None\<close> is the code's: the caller falls back to the plain batched path.\<close>

definition rollout_energy_batched_cached ::
    "('r, 'f, 'c, 'p, 'g, 'e) vj_lib \<Rightarrow> ('r, 'f, 'c, 'p) vj_engine \<Rightarrow> 'r list world_state
      \<Rightarrow> 'g \<Rightarrow> nat \<Rightarrow> 'f list list list \<Rightarrow> ('r, 'f, 'c, 'p) vj_engine \<times> (exn + 'e list option)" where
  "rollout_energy_batched_cached lib e0 st goal horizon seqs =
     (case ensure_predictor lib e0 of
        (e, Inl x) \<Rightarrow> (e, Inl x)
      | (e, Inr p) \<Rightarrow>
          (e, if \<not> supports_kv_cache p then Inr None
              else if frames_now e (ws_context st) + int horizon > context_frames (config e) then Inr None
              else (case p_init_cache p (Rows (ws_context st)) of
                  Inl x \<Rightarrow> Inl x
                | Inr cache \<Rightarrow>
                    (case cached_batched_rollout lib e p seqs cache None [0..<horizon] of
                       Inl x \<Rightarrow> Inl x
                     | Inr None \<Rightarrow> Inl AssertionError
                     | Inr (Some term) \<Rightarrow> Inr (Some (map (\<lambda>c. vector_norm lib c goal) term))))))"

definition candidate_energies ::
    "('r, 'f, 'c, 'p, 'g, 'e) vj_lib \<Rightarrow> ('r, 'f, 'c, 'p) vj_engine \<Rightarrow> 'r list world_state
      \<Rightarrow> 'g \<Rightarrow> nat \<Rightarrow> 'f list list list \<Rightarrow> ('r, 'f, 'c, 'p) vj_engine \<times> (exn + 'e list)" where
  "candidate_energies lib e st goal horizon seqs =
     (if plan_batched (config e)
         \<and> (case eng_predictor e of None \<Rightarrow> False | Some p \<Rightarrow> supports_batch p)
      then (if plan_batched_kv (config e) \<and> use_kv_cache (config e)
            then (case rollout_energy_batched_cached lib e st goal horizon seqs of
                    (e', Inl x) \<Rightarrow> (e', Inl x)
                  | (e', Inr (Some ens)) \<Rightarrow> (e', Inr ens)
                  | (e', Inr None) \<Rightarrow> rollout_energy_batched lib e' st goal horizon seqs)
            else rollout_energy_batched lib e st goal horizon seqs)
      else if seqs = [] then (e, Inl (RuntimeError ''stack expects a non-empty TensorList''))
      else looped_energies lib e st goal seqs)"

definition warm_start_mean ::
    "('r, 'f, 'c, 'p, 'g, 'e) vj_lib \<Rightarrow> ('r, 'f, 'c, 'p) vj_engine \<Rightarrow> 'r list world_state
      \<Rightarrow> nat \<Rightarrow> 'f list list" where
  "warm_start_mean lib e st horizon =
     (let size_a = action_dim (config e);
          zeros = replicate horizon (replicate (nat size_a) (f_nil lib))
      in case (if plan_warm_start (config e) then map_of (plan_mean e) (ws_session_id st) else None) of
           None \<Rightarrow> zeros
         | Some prev \<Rightarrow>
             (if length prev = horizon \<and> list_all (\<lambda>r. int (length r) = size_a) prev
              then drop 1 prev @ py_tail 1 prev else zeros))"

text \<open>The refit iterations: sample around the mean, score, keep the elite, refit. The noise drawn in
  iteration k is \<open>noise k\<close>, one sequence per candidate.\<close>

fun cem_iterations ::
    "('r, 'f, 'c, 'p, 'g, 'e) vj_lib \<Rightarrow> 'r list world_state \<Rightarrow> 'g \<Rightarrow> nat
      \<Rightarrow> (nat \<Rightarrow> 'f list list list) \<Rightarrow> nat list \<Rightarrow> ('r, 'f, 'c, 'p) vj_engine
      \<Rightarrow> 'f list list \<Rightarrow> 'f list list \<Rightarrow> ('r, 'f, 'c, 'p) vj_engine \<times> (exn + 'f list list)" where
  "cem_iterations lib st goal horizon noise [] e mean std = (e, Inr mean)"
| "cem_iterations lib st goal horizon noise (k # ks) e mean std =
     (let seqs = map (perturb lib mean std) (noise k)
      in case candidate_energies lib e st goal horizon seqs of
           (e', Inl x) \<Rightarrow> (e', Inl x)
         | (e', Inr energies) \<Rightarrow>
             (case topk_smallest lib energies (plan_elites (config e')) of
                Inl x \<Rightarrow> (e', Inl x)
              | Inr idx \<Rightarrow>
                  (let elite = map (\<lambda>i. seqs ! i) idx
                   in cem_iterations lib st goal horizon noise ks e'
                        (elite_mean lib elite) (elite_std lib elite))))"

definition plan_sequence ::
    "('r, 'f, 'c, 'p, 'g, 'e) vj_lib \<Rightarrow> ('r, 'f, 'c, 'p) vj_engine \<Rightarrow> 'r list world_state
      \<Rightarrow> 'g \<Rightarrow> nat \<Rightarrow> (nat \<Rightarrow> 'f list list list)
      \<Rightarrow> ('r, 'f, 'c, 'p) vj_engine \<times> (exn + 'f list list)" where
  "plan_sequence lib e st goal horizon noise =
     (let mean = warm_start_mean lib e st horizon;
          std = map (map (\<lambda>_. f_unit lib)) mean
      in case cem_iterations lib st goal horizon noise [0..<nat (plan_iters (config e))] e mean std of
           (e', Inl x) \<Rightarrow> (e', Inl x)
         | (e', Inr m) \<Rightarrow>
             ((if plan_warm_start (config e')
               then e'\<lparr>plan_mean := AList.update (ws_session_id st) m (plan_mean e')\<rparr> else e'), Inr m))"

definition vj_plan ::
    "('r, 'f, 'c, 'p, 'g, 'e) vj_lib \<Rightarrow> ('r, 'f, 'c, 'p) vj_engine \<Rightarrow> 'r list world_state
      \<Rightarrow> 'g \<Rightarrow> nat \<Rightarrow> (nat \<Rightarrow> 'f list list list)
      \<Rightarrow> ('r, 'f, 'c, 'p) vj_engine \<times> (exn + 'f action)" where
  "vj_plan lib e st goal horizon noise =
     (case plan_sequence lib e st goal horizon noise of
        (e', Inl x) \<Rightarrow> (e', Inl x)
      | (e', Inr []) \<Rightarrow> (e', Inl (OtherException ''IndexError''))
      | (e', Inr (a # _)) \<Rightarrow> (e', Inr \<lparr>act_values = a, act_space = ''ee_delta''\<rparr>))"

section \<open>The cached step is the uncached step\<close>

definition ctx_ok :: "('r, 'f, 'c, 'p) vj_engine \<Rightarrow> 'r list \<Rightarrow> bool" where
  "ctx_ok e ctx \<longleftrightarrow> window (tokens_per_frame e) ctx \<and> int (length ctx) \<le> window_rows e"

lemma maybe_norm_length [simp]: "length (maybe_norm lib e b) = length b"
  by (simp add: maybe_norm_def)

lemma maybe_norm_frame [simp]:
  "maybe_norm lib (e\<lparr>kv_cache := k\<rparr>) = maybe_norm lib e"
  "maybe_norm lib (e\<lparr>plan_mean := m\<rparr>) = maybe_norm lib e"
  by (simp_all add: maybe_norm_def fun_eq_iff)

lemma window_rows_frame [simp]:
  "window_rows (e\<lparr>kv_cache := k\<rparr>) = window_rows e" "window_rows (e\<lparr>plan_mean := m\<rparr>) = window_rows e"
  by (simp_all add: window_rows_def)

lemma frames_now_frame [simp]: "frames_now (e\<lparr>kv_cache := k\<rparr>) = frames_now e"
  by (simp add: frames_now_def fun_eq_iff)

lemma frames_now_room:
  assumes "ctx_ok e ctx" "tokens_per_frame e > 0"
  shows "frames_now e ctx < context_frames (config e) \<longleftrightarrow>
    int (length ctx) + int (tokens_per_frame e) \<le> window_rows e"
proof -
  obtain n where n: "length ctx = n * tokens_per_frame e" using assms(1) by (auto simp: ctx_ok_def window_def)
  then have f: "frames_now e ctx = int n" using assms(2) by (simp add: frames_now_def)
  have "int n < context_frames (config e) \<longleftrightarrow>
      (int n + 1) * int (tokens_per_frame e) \<le> context_frames (config e) * int (tokens_per_frame e)"
    using assms(2) by (simp add: mult_le_cancel_right add1_zle_eq)
  with f n show ?thesis by (simp add: window_rows_def algebra_simps)
qed

lemma window_rows_pos: "ctx_ok e ctx \<Longrightarrow> tokens_per_frame e > 0 \<Longrightarrow> window_rows e > 0"
  by (auto simp: ctx_ok_def window_def) (meson less_le_trans mult_pos_pos of_nat_0_less_iff)

lemma ctx_ok_tail:
  assumes "ctx_ok e ctx" "tokens_per_frame e > 0" "length b = tokens_per_frame e"
  shows "ctx_ok e (py_tail (window_rows e) (ctx @ b))"
proof (cases "int (length ctx) + int (tokens_per_frame e) \<le> window_rows e")
  case True
  have "window_rows e > 0" using assms(1,2) by (rule window_rows_pos)
  with True assms show ?thesis
    by (simp add: py_tail_short ctx_ok_def window_append)
next
  case False
  let ?t = "tokens_per_frame e"
  have W: "window_rows e > 0" using assms(1,2) by (rule window_rows_pos)
  then have cf: "context_frames (config e) > 0"
    by (simp add: window_rows_def zero_less_mult_iff)
  have len: "int (length (py_tail (window_rows e) (ctx @ b))) = window_rows e"
    using False W assms(3) by (simp add: length_py_tail)
  then have "int (length (py_tail (window_rows e) (ctx @ b))) = int (nat (context_frames (config e)) * ?t)"
    using cf by (simp add: window_rows_def)
  then have "length (py_tail (window_rows e) (ctx @ b)) = nat (context_frames (config e)) * ?t"
    by (simp only: of_nat_eq_iff)
  moreover have "nat (context_frames (config e)) > 0" using cf by simp
  ultimately have "window ?t (py_tail (window_rows e) (ctx @ b))" unfolding window_def by blast
  with len show ?thesis by (simp add: ctx_ok_def)
qed

context predictor_law
begin

definition next_ctx :: "('r, 'f, 'c, 'p, 'g, 'e) vj_lib \<Rightarrow> ('r, 'f, 'c, 'p) vj_engine \<Rightarrow> 'r list \<Rightarrow> 'f list \<Rightarrow> 'r list" where
  "next_ctx lib e ctx v = py_tail (window_rows e) (ctx @ maybe_norm lib e (predict ctx v))"

definition next_state :: "('r, 'f, 'c, 'p, 'g, 'e) vj_lib \<Rightarrow> ('r, 'f, 'c, 'p) vj_engine \<Rightarrow> 'r list world_state
    \<Rightarrow> 'f list \<Rightarrow> 'r list world_state" where
  "next_state lib e st a =
     \<lparr>ws_context = next_ctx lib e (ws_context st) (cast_action lib a),
      ws_step_index = ws_step_index st + 1, ws_session_id = ws_session_id st\<rparr>"

definition loaded :: "('r, 'f, 'c, 'p) vj_engine \<Rightarrow> bool" where
  "loaded e \<longleftrightarrow> eng_predictor e = Some P \<and> tokens_per_frame e = rows"

definition act_ok :: "('r, 'f, 'c, 'p, 'g, 'e) vj_lib \<Rightarrow> 'f list \<Rightarrow> bool" where
  "act_ok lib a \<longleftrightarrow> length (cast_action lib a) = size_a"

lemma next_ctx_frame [simp]:
  "next_ctx lib (e\<lparr>kv_cache := k\<rparr>) = next_ctx lib e" "next_ctx lib (e\<lparr>plan_mean := m\<rparr>) = next_ctx lib e"
  by (simp_all add: next_ctx_def fun_eq_iff)

lemma next_state_frame [simp]: "next_state lib (e\<lparr>kv_cache := k\<rparr>) = next_state lib e"
  by (simp add: next_state_def fun_eq_iff)

lemma next_ctx_ok:
  "loaded e \<Longrightarrow> ctx_ok e ctx \<Longrightarrow> length v = size_a \<Longrightarrow> ctx_ok e (next_ctx lib e ctx v)"
  unfolding next_ctx_def using rows_pos predict_rows
  by (intro ctx_ok_tail) (auto simp: loaded_def ctx_ok_def)

lemma ensure_loaded: "loaded e \<Longrightarrow> ensure_predictor lib e = (e, Inr P)"
  by (simp add: ensure_predictor_def loaded_def)

lemma uncached_step:
  assumes "loaded e" "ctx_ok e (ws_context st)" "act_ok lib a" "\<not> use_kv_cache (config e)"
  shows "vj_step lib e st a = (e, Inr (next_state lib e st a, ws_step_index st + 1))"
proof -
  have "window rows (ws_context st)" using assms(1,2) by (simp add: ctx_ok_def loaded_def)
  then obtain nxt where "p_call P (Rows (ws_context st)) (Vec (cast_action lib a)) = Inr nxt"
    "as_block nxt = Inr (predict (ws_context st) (cast_action lib a))"
    using call_one assms(3) by (auto simp: act_ok_def)
  with assms(4) show ?thesis
    by (simp add: vj_step_def ensure_loaded [OF assms(1)] Let_def next_state_def next_ctx_def)
qed

end

context cached_predictor
begin

definition caches_ok :: "('r, 'f, 'c, 'p) vj_engine \<Rightarrow> bool" where
  "caches_ok e \<longleftrightarrow> (\<forall>sid en. map_of (kv_cache e) sid = Some en \<longrightarrow>
     in_sync (ce_cache en) [last_context en])"

lemma caches_ok_delete: "caches_ok e \<Longrightarrow> caches_ok (e\<lparr>kv_cache := AList.delete sid (kv_cache e)\<rparr>)"
  by (simp add: caches_ok_def map_of_AList_delete)

lemma caches_ok_update:
  "caches_ok e \<Longrightarrow> in_sync c [ctx] \<Longrightarrow>
    caches_ok (e\<lparr>kv_cache := AList.update sid \<lparr>ce_cache = c, last_context = ctx\<rparr> (kv_cache e)\<rparr>)"
  by (simp add: caches_ok_def map_of_AList_update)

lemma cached_path_predicts:
  assumes "caches_ok e" "window rows (ws_context st)" "length v = size_a"
  shows "\<exists>nxt c. step_cached_path P e st v = Inr (nxt, c) \<and>
    as_block nxt = Inr (predict (ws_context st) v) \<and> done_step c [ws_context st]"
proof (cases "reusable_entry e st")
  case None
  obtain c where "p_init_cache P (Rows (ws_context st)) = Inr c" "in_sync c [ws_context st]"
    using init_sync [OF assms(2)] by blast
  with step_one [OF this(2) assms(3)] None show ?thesis by (auto simp: step_cached_path_def)
next
  case (Some en)
  then have "map_of (kv_cache e) (ws_session_id st) = Some en" "last_context en = ws_context st"
    by (auto simp: reusable_entry_def split: option.splits if_splits)
  then have "in_sync (ce_cache en) [ws_context st]" using assms(1) by (metis caches_ok_def)
  with step_one [OF this assms(3)] Some show ?thesis by (auto simp: step_cached_path_def)
qed

lemma sync_keeps:
  assumes e: "loaded e" "caches_ok e" "kv_evict_policy (config e) = ''reinit''"
    and st: "ctx_ok e (ws_context st)" and c: "done_step c [ws_context st]" and b: "length b = rows"
  shows "\<exists>k. sync_kv_cache P e st sid (py_tail (window_rows e) (ws_context st @ b)) c b
      = (e\<lparr>kv_cache := k\<rparr>, Inr ()) \<and> caches_ok (e\<lparr>kv_cache := k\<rparr>)"
proof (cases "frames_now e (ws_context st) < context_frames (config e)")
  case False
  with e caches_ok_delete [OF e(2)] show ?thesis by (auto simp: sync_kv_cache_def)
next
  case True
  obtain c2 where c2: "p_append_frame P c (Rows b) = Inr c2" "in_sync c2 [ws_context st @ b]"
    using append_one [OF c b] by blast
  have t: "tokens_per_frame e > 0" using e(1) rows_pos by (simp add: loaded_def)
  have "int (length (ws_context st @ b)) \<le> window_rows e"
    using True frames_now_room [OF st t] b e(1) by (simp add: loaded_def)
  then have "py_tail (window_rows e) (ws_context st @ b) = ws_context st @ b"
    using window_rows_pos [OF st t] by (intro py_tail_short)
  with True c2 caches_ok_update [OF e(2) c2(2)] show ?thesis
    by (auto simp: sync_kv_cache_def)
qed

lemma step_result:
  assumes e: "loaded e" "caches_ok e" "kv_evict_policy (config e) = ''reinit''"
    and st: "ctx_ok e (ws_context st)" and a: "act_ok lib a"
  shows "\<exists>k. vj_step lib e st a
      = (e\<lparr>kv_cache := k\<rparr>, Inr (next_state lib e st a, ws_step_index st + 1))
    \<and> caches_ok (e\<lparr>kv_cache := k\<rparr>)"
proof -
  let ?v = "cast_action lib a" and ?sid = "ws_session_id st"
  let ?b = "maybe_norm lib e (predict (ws_context st) ?v)"
  have w: "window rows (ws_context st)" using e(1) st by (simp add: ctx_ok_def loaded_def)
  have v: "length ?v = size_a" using a by (simp add: act_ok_def)
  have b: "length ?b = rows" using predict_rows [OF w v] by simp
  define path where "path \<longleftrightarrow> use_kv_cache (config e) \<and> supports_kv_cache P \<and>
    (frames_now e (ws_context st) < context_frames (config e) \<or> reusable_entry e st \<noteq> None)"
  show ?thesis
  proof (cases path)
    case True
    obtain nxt c where n: "step_cached_path P e st ?v = Inr (nxt, c)"
      "as_block nxt = Inr (predict (ws_context st) ?v)" "done_step c [ws_context st]"
      using cached_path_predicts [OF e(2) w v] by blast
    obtain k where k: "sync_kv_cache P e st ?sid (py_tail (window_rows e) (ws_context st @ ?b)) c ?b
        = (e\<lparr>kv_cache := k\<rparr>, Inr ())" "caches_ok (e\<lparr>kv_cache := k\<rparr>)"
      using sync_keeps [OF e st n(3) b] by blast
    have "vj_step lib e st a = (e\<lparr>kv_cache := k\<rparr>, Inr (next_state lib e st a, ws_step_index st + 1))"
      using True n(1,2) k(1) e(3)
      by (simp add: vj_step_def ensure_loaded [OF e(1)] Let_def path_def next_state_def next_ctx_def)
    with k(2) show ?thesis by blast
  next
    case False
    obtain nxt where n: "p_call P (Rows (ws_context st)) (Vec ?v) = Inr nxt"
      "as_block nxt = Inr (predict (ws_context st) ?v)"
      using call_one [OF w v] by blast
    define k where "k = (if use_kv_cache (config e) \<and> supports_kv_cache P
      then AList.delete ?sid (kv_cache e) else kv_cache e)"
    have "vj_step lib e st a = (e\<lparr>kv_cache := k\<rparr>, Inr (next_state lib e st a, ws_step_index st + 1))"
      using False n e(3)
      by (auto simp: vj_step_def ensure_loaded [OF e(1)] Let_def path_def next_state_def next_ctx_def k_def)
    moreover have "caches_ok (e\<lparr>kv_cache := k\<rparr>)"
      using e(2) caches_ok_delete [OF e(2)] by (simp add: k_def)
    ultimately show ?thesis by blast
  qed
qed

end

section \<open>Energies\<close>

locale planning_predictor =
  batch_predictor P predict rows size_a + cached_predictor P predict rows size_a in_sync done_step
  for P :: "('r, 'f, 'c) predictor" and predict rows size_a in_sync done_step

context predictor_law
begin

definition ctx_after :: "('r, 'f, 'c, 'p, 'g, 'e) vj_lib \<Rightarrow> ('r, 'f, 'c, 'p) vj_engine \<Rightarrow> 'f list list
    \<Rightarrow> 'r list \<Rightarrow> 'r list" where
  "ctx_after lib e seq ctx = fold (\<lambda>a c. next_ctx lib e c (cast_action lib a)) seq ctx"

definition energy_of :: "('r, 'f, 'c, 'p, 'g, 'e) vj_lib \<Rightarrow> ('r, 'f, 'c, 'p) vj_engine \<Rightarrow> 'r list world_state
    \<Rightarrow> 'g \<Rightarrow> 'f list list \<Rightarrow> 'e" where
  "energy_of lib e st goal seq = vector_norm lib (py_tail (int rows) (ctx_after lib e seq (ws_context st))) goal"

definition seq_ok :: "('r, 'f, 'c, 'p, 'g, 'e) vj_lib \<Rightarrow> nat \<Rightarrow> 'f list list \<Rightarrow> bool" where
  "seq_ok lib horizon seq \<longleftrightarrow> length seq = horizon \<and>
     (\<forall>a \<in> set seq. cast_action lib a = a \<and> length a = size_a)"

lemma seq_act_ok: "seq_ok lib h seq \<Longrightarrow> \<forall>a \<in> set seq. act_ok lib a"
  by (simp add: seq_ok_def act_ok_def)

lemma ctx_after_frame [simp]:
  "ctx_after lib (e\<lparr>kv_cache := k\<rparr>) = ctx_after lib e" "ctx_after lib (e\<lparr>plan_mean := m\<rparr>) = ctx_after lib e"
  by (simp_all add: ctx_after_def fun_eq_iff)

lemma energy_of_frame [simp]:
  "energy_of lib (e\<lparr>kv_cache := k\<rparr>) = energy_of lib e"
  by (simp add: energy_of_def fun_eq_iff)

lemma loaded_frame [simp]:
  "loaded (e\<lparr>kv_cache := k\<rparr>) = loaded e" "loaded (e\<lparr>plan_mean := m\<rparr>) = loaded e"
  by (simp_all add: loaded_def)

lemma ctx_ok_frame [simp]:
  "ctx_ok (e\<lparr>kv_cache := k\<rparr>) = ctx_ok e" "ctx_ok (e\<lparr>plan_mean := m\<rparr>) = ctx_ok e"
  by (simp_all add: ctx_ok_def fun_eq_iff)

lemma ctx_after_ok:
  "loaded e \<Longrightarrow> ctx_ok e ctx \<Longrightarrow> \<forall>a \<in> set seq. act_ok lib a \<Longrightarrow> ctx_ok e (ctx_after lib e seq ctx)"
  unfolding ctx_after_def
  by (induction seq arbitrary: ctx) (simp_all add: next_ctx_ok act_ok_def)

lemma length_next_ctx:
  "loaded e \<Longrightarrow> ctx_ok e ctx \<Longrightarrow> length v = size_a \<Longrightarrow>
    int (length (next_ctx lib e ctx v)) = min (window_rows e) (int (length ctx) + int rows)"
  using window_rows_pos [of e ctx] rows_pos predict_rows [of ctx v]
  by (simp add: next_ctx_def length_py_tail loaded_def ctx_ok_def)

lemma ctx_after_same_length:
  assumes "loaded e" "ctx_ok e ctx" "ctx_ok e ctx'" "length ctx = length ctx'" "length seq = length seq'"
    "\<forall>a \<in> set seq. act_ok lib a" "\<forall>a \<in> set seq'. act_ok lib a"
  shows "length (ctx_after lib e seq ctx) = length (ctx_after lib e seq' ctx')"
  using assms(5,2-4,6,7)
proof (induction seq seq' arbitrary: ctx ctx' rule: list_induct2)
  case (Cons a as b bs)
  let ?c = "next_ctx lib e ctx (cast_action lib a)" and ?d = "next_ctx lib e ctx' (cast_action lib b)"
  have ok: "ctx_ok e ?c" "ctx_ok e ?d"
    using Cons.prems assms(1) by (auto intro!: next_ctx_ok simp: act_ok_def)
  have "int (length ?c) = int (length ?d)"
    using Cons.prems assms(1) by (simp add: length_next_ctx act_ok_def)
  then have "length ?c = length ?d" by simp
  with Cons.IH [OF ok] Cons.prems(4,5) show ?case by (simp add: ctx_after_def)
qed (simp add: ctx_after_def)

lemma ctx_after_take_Suc:
  "seq_ok lib h seq \<Longrightarrow> i < h \<Longrightarrow>
    ctx_after lib e (take (Suc i) seq) ctx = next_ctx lib e (ctx_after lib e (take i seq) ctx) (seq ! i)"
  by (simp add: ctx_after_def take_Suc_conv_app_nth seq_ok_def)

lemma take_act_ok: "seq_ok lib h seq \<Longrightarrow> \<forall>a \<in> set (take i seq). act_ok lib a"
  using seq_act_ok [of lib h seq] in_set_takeD by fastforce

end

context cached_predictor
begin

definition engine_ok :: "('r, 'f, 'c, 'p) vj_engine \<Rightarrow> bool" where
  "engine_ok e \<longleftrightarrow> loaded e \<and> caches_ok e \<and> kv_evict_policy (config e) = ''reinit''"

lemma rollout_result:
  assumes "engine_ok e" "ctx_ok e (ws_context st)" "\<forall>a \<in> set seq. act_ok lib a"
  shows "\<exists>k st'. rollout lib e st seq = (e\<lparr>kv_cache := k\<rparr>, Inr st')
    \<and> ws_context st' = ctx_after lib e seq (ws_context st) \<and> engine_ok (e\<lparr>kv_cache := k\<rparr>)"
  using assms
proof (induction seq arbitrary: e st)
  case Nil
  have "e\<lparr>kv_cache := kv_cache e\<rparr> = e" by simp
  with Nil show ?case by (intro exI [of _ "kv_cache e"] exI [of _ st]) (simp add: ctx_after_def)
next
  case (Cons a as)
  obtain k where k: "vj_step lib e st a
      = (e\<lparr>kv_cache := k\<rparr>, Inr (next_state lib e st a, ws_step_index st + 1))"
    "caches_ok (e\<lparr>kv_cache := k\<rparr>)"
    using step_result [of e st lib a] Cons.prems by (auto simp: engine_ok_def)
  let ?e = "e\<lparr>kv_cache := k\<rparr>" and ?st = "next_state lib e st a"
  have "engine_ok ?e" using k(2) Cons.prems(1) by (simp add: engine_ok_def)
  moreover have "ctx_ok ?e (ws_context ?st)"
    using next_ctx_ok [of e "ws_context st" "cast_action lib a"] Cons.prems
    by (simp add: next_state_def engine_ok_def act_ok_def)
  ultimately obtain k' st' where k': "rollout lib ?e ?st as = (?e\<lparr>kv_cache := k'\<rparr>, Inr st')"
    "ws_context st' = ctx_after lib ?e as (ws_context ?st)" "engine_ok (?e\<lparr>kv_cache := k'\<rparr>)"
    using Cons.IH [of ?e ?st] Cons.prems(3) by auto
  then show ?case using k(1)
    by (intro exI [of _ k'] exI [of _ st']) (simp add: ctx_after_def next_state_def)
qed

lemma looped_result:
  assumes "engine_ok e" "ctx_ok e (ws_context st)" "\<forall>s \<in> set seqs. \<forall>a \<in> set s. act_ok lib a"
  shows "\<exists>k. looped_energies lib e st goal seqs
      = (e\<lparr>kv_cache := k\<rparr>, Inr (map (energy_of lib e st goal) seqs)) \<and> engine_ok (e\<lparr>kv_cache := k\<rparr>)"
  using assms
proof (induction seqs arbitrary: e)
  case Nil
  have "e\<lparr>kv_cache := kv_cache e\<rparr> = e" by simp
  with Nil show ?case by (intro exI [of _ "kv_cache e"]) simp
next
  case (Cons s ss)
  obtain k st' where k: "rollout lib e st s = (e\<lparr>kv_cache := k\<rparr>, Inr st')"
    "ws_context st' = ctx_after lib e s (ws_context st)" "engine_ok (e\<lparr>kv_cache := k\<rparr>)"
    using rollout_result [OF Cons.prems(1,2), of s lib] Cons.prems(3) by auto
  let ?e = "e\<lparr>kv_cache := k\<rparr>"
  have t: "tokens_per_frame e = rows" using Cons.prems(1) by (simp add: engine_ok_def loaded_def)
  then have en: "rollout_energy lib e st goal s = (?e, Inr (energy_of lib e st goal s))"
    using k by (simp add: rollout_energy_def energy_of_def)
  obtain k' where "looped_energies lib ?e st goal ss
      = (?e\<lparr>kv_cache := k'\<rparr>, Inr (map (energy_of lib ?e st goal) ss))" "engine_ok (?e\<lparr>kv_cache := k'\<rparr>)"
    using Cons.IH [OF k(3)] Cons.prems by auto
  with en show ?case by (intro exI [of _ k']) simp
qed

end

context planning_predictor
begin

lemma batched_rollout_result:
  assumes e: "loaded e" "ctx_ok e ctx" and seqs: "seqs \<noteq> []" "\<forall>s \<in> set seqs. seq_ok lib h s"
  shows "i \<le> h \<Longrightarrow> batched_rollout lib e P seqs (map (\<lambda>s. ctx_after lib e (take i s) ctx) seqs) [i..<h]
    = Inr (map (\<lambda>s. ctx_after lib e s ctx) seqs)"
proof (induction "h - i" arbitrary: i)
  case 0
  then have "i = h" by simp
  with seqs(2) show ?case by (simp add: seq_ok_def)
next
  case (Suc d)
  then have i: "i < h" by simp
  let ?X = "map (\<lambda>s. ctx_after lib e (take i s) ctx) seqs"
  have ok: "ctx_ok e (ctx_after lib e (take i s) ctx)" if "s \<in> set seqs" for s
    using ctx_after_ok [OF e] take_act_ok seqs(2) that by blast
  have len: "length (ctx_after lib e (take i s) ctx) = length (ctx_after lib e (take i (hd seqs)) ctx)"
    if "s \<in> set seqs" for s
  proof (rule ctx_after_same_length [OF e e(2) refl])
    have hd: "hd seqs \<in> set seqs" using seqs(1) by simp
    then show "length (take i s) = length (take i (hd seqs))" using seqs(2) that by (simp add: seq_ok_def)
    show "\<forall>a \<in> set (take i s). act_ok lib a" by (rule take_act_ok [of lib h]) (use seqs(2) that in blast)
    show "\<forall>a \<in> set (take i (hd seqs)). act_ok lib a"
      by (rule take_act_ok [of lib h]) (use seqs(2) hd in blast)
  qed
  have call: "p_call P (Stack ?X) (Mat (map (\<lambda>s. s ! i) seqs))
      = Inr (Stack (map2 predict ?X (map (\<lambda>s. s ! i) seqs)))"
  proof (rule call_batch)
    show "\<forall>c \<in> set ?X. window rows c \<and> length c = length (hd ?X)"
    proof
      fix c assume "c \<in> set ?X"
      then obtain s where s: "s \<in> set seqs" "c = ctx_after lib e (take i s) ctx" by auto
      have "hd ?X = ctx_after lib e (take i (hd seqs)) ctx" using seqs(1) by (simp add: hd_map)
      with ok [OF s(1)] len [OF s(1)] e(1) s(2)
      show "window rows c \<and> length c = length (hd ?X)" by (simp add: ctx_ok_def loaded_def)
    qed
    show "\<forall>a \<in> set (map (\<lambda>s. s ! i) seqs). length a = size_a"
      using seqs(2) i by (auto simp: seq_ok_def)
  qed (use seqs(1) in simp_all)
  have "map2 (\<lambda>c b. py_tail (window_rows e) (c @ maybe_norm lib e b)) ?X
      (map2 predict ?X (map (\<lambda>s. s ! i) seqs)) = map (\<lambda>s. ctx_after lib e (take (Suc i) s) ctx) seqs"
    by (rule nth_equalityI)
      (use seqs(2) i in \<open>auto simp: ctx_after_take_Suc [of lib h] next_ctx_def nth_mem\<close>)
  with call Suc i show ?case by (simp add: upt_conv_Cons)
qed

lemma next_ctx_room:
  assumes "loaded e" "ctx_ok e ctx" "length v = size_a" "int (length ctx) + int rows \<le> window_rows e"
  shows "next_ctx lib e ctx v = ctx @ maybe_norm lib e (predict ctx v)"
  using assms window_rows_pos [of e ctx] rows_pos predict_rows [of ctx v]
  by (simp add: next_ctx_def py_tail_short loaded_def ctx_ok_def)

lemma ctx_after_room:
  assumes "loaded e" "ctx_ok e ctx" "seq_ok lib h s" "i \<le> h"
    "int (length ctx) + int h * int rows \<le> window_rows e"
  shows "int (length (ctx_after lib e (take i s) ctx)) = int (length ctx) + int i * int rows"
  using assms(4)
proof (induction i)
  case 0
  show ?case by (simp add: ctx_after_def)
next
  case (Suc i)
  let ?c = "ctx_after lib e (take i s) ctx"
  have ok: "ctx_ok e ?c" using assms(1,2) take_act_ok [OF assms(3)] by (rule ctx_after_ok)
  have v: "length (s ! i) = size_a" using assms(3) Suc.prems by (auto simp: seq_ok_def)
  have "(int i + 1) * int rows \<le> int h * int rows" using Suc.prems by (intro mult_right_mono) auto
  then show ?case using Suc ctx_after_take_Suc [OF assms(3), of i e ctx]
      length_next_ctx [OF assms(1) ok v, of lib] assms(5)
    by (simp add: algebra_simps)
qed

lemma cached_batched_result:
  assumes e: "loaded e" "ctx_ok e ctx" and seqs: "seqs \<noteq> []" "\<forall>s \<in> set seqs. seq_ok lib h s"
    and room: "int (length ctx) + int h * int rows \<le> window_rows e"
  shows "i < h \<Longrightarrow> in_sync c X \<Longrightarrow> length X = 1 \<or> length X = length seqs \<Longrightarrow>
    expand_batch (length seqs) X = map (\<lambda>s. ctx_after lib e (take i s) ctx) seqs \<Longrightarrow>
    cached_batched_rollout lib e P seqs c term [i..<h]
      = Inr (Some (map (\<lambda>s. py_tail (int rows) (ctx_after lib e s ctx)) seqs))"
proof (induction "h - i" arbitrary: i c X "term")
  case (Suc d)
  then have i: "i < h" by simp
  let ?Y = "map (\<lambda>s. ctx_after lib e (take i s) ctx) seqs" and ?as = "map (\<lambda>s. s ! i) seqs"
  have as: "\<forall>a \<in> set ?as. length a = size_a" using seqs(2) i by (auto simp: seq_ok_def)
  obtain c1 where c1: "p_step_cached P c (Mat ?as) = Inr (Stack (map2 predict ?Y ?as), c1)"
    "done_step c1 ?Y"
    using step_many [OF Suc.prems(2), of ?as] Suc.prems(3,4) seqs(1) as by auto
  let ?bs = "map (maybe_norm lib e) (map2 predict ?Y ?as)"
  have ok: "ctx_ok e (ctx_after lib e (take i s) ctx)" if "s \<in> set seqs" for s
    using ctx_after_ok [OF e] take_act_ok seqs(2) that by blast
  have b: "length (predict (ctx_after lib e (take i s) ctx) (s ! i)) = rows" if "s \<in> set seqs" for s
    using predict_rows ok [OF that] that seqs(2) i e(1) by (auto simp: ctx_ok_def loaded_def seq_ok_def)
  have "\<forall>x \<in> set ?bs. length x = rows" using b by (auto simp: set_zip)
  then obtain c2 where c2: "p_append_frame P c1 (Stack ?bs) = Inr c2" "in_sync c2 (map2 (@) ?Y ?bs)"
    using append_many [OF c1(2), of ?bs] by auto
  have grow: "ctx_after lib e (take (Suc i) s) ctx = ctx_after lib e (take i s) ctx
      @ maybe_norm lib e (predict (ctx_after lib e (take i s) ctx) (s ! i))" if s: "s \<in> set seqs" for s
  proof -
    have "int (length (ctx_after lib e (take i s) ctx)) = int (length ctx) + int i * int rows"
      using ctx_after_room [OF e _ _ room, of lib s i] s seqs(2) i by simp
    moreover have "(int i + 1) * int rows \<le> int h * int rows" using i by (intro mult_right_mono) auto
    ultimately have "int (length (ctx_after lib e (take i s) ctx)) + int rows \<le> window_rows e"
      using room by (simp add: algebra_simps)
    moreover have "length (s ! i) = size_a" using s seqs(2) i by (auto simp: seq_ok_def)
    ultimately have "next_ctx lib e (ctx_after lib e (take i s) ctx) (s ! i)
        = ctx_after lib e (take i s) ctx @ maybe_norm lib e (predict (ctx_after lib e (take i s) ctx) (s ! i))"
      using next_ctx_room [OF e(1) ok [OF s]] by blast
    then show ?thesis using ctx_after_take_Suc [of lib h s i e ctx] s seqs(2) i by simp
  qed
  have next_Y: "map2 (@) ?Y ?bs = map (\<lambda>s. ctx_after lib e (take (Suc i) s) ctx) seqs"
    by (rule nth_equalityI) (simp_all add: grow)
  have step: "cached_batched_rollout lib e P seqs c term [i..<h]
      = cached_batched_rollout lib e P seqs c2 (Some ?bs) [Suc i..<h]"
    using c1(1) c2(1) i by (simp add: upt_conv_Cons)
  show ?case
  proof (cases "Suc i < h")
    case True
    have "cached_batched_rollout lib e P seqs c2 (Some ?bs) [Suc i..<h]
        = Inr (Some (map (\<lambda>s. py_tail (int rows) (ctx_after lib e s ctx)) seqs))"
      by (rule Suc.hyps(1) [of "Suc i" c2 "map2 (@) ?Y ?bs"])
        (use Suc.hyps(2) True c2(2) next_Y in \<open>auto simp: expand_batch_def\<close>)
    with step show ?thesis by simp
  next
    case False
    then have h: "h = Suc i" using i by simp
    have "?bs = map (\<lambda>s. py_tail (int rows) (ctx_after lib e s ctx)) seqs"
    proof (rule nth_equalityI)
      fix j assume "j < length ?bs"
      then have j: "j < length seqs" by simp
      then have s: "seqs ! j \<in> set seqs" by simp
      then have "take (Suc i) (seqs ! j) = seqs ! j" using seqs(2) h by (simp add: seq_ok_def)
      with grow [OF s] b [OF s] rows_pos j
      show "?bs ! j = map (\<lambda>s. py_tail (int rows) (ctx_after lib e s ctx)) seqs ! j"
        by (simp add: py_tail_append)
    qed simp
    with step h show ?thesis by simp
  qed
qed simp

lemma candidate_energies_result:
  assumes e: "engine_ok e" and st: "ctx_ok e (ws_context st)"
    and seqs: "seqs \<noteq> []" "\<forall>s \<in> set seqs. seq_ok lib h s" and h: "h > 0"
  shows "\<exists>k. candidate_energies lib e st goal h seqs
      = (e\<lparr>kv_cache := k\<rparr>, Inr (map (energy_of lib e st goal) seqs)) \<and> engine_ok (e\<lparr>kv_cache := k\<rparr>)"
proof -
  have l: "loaded e" using e by (simp add: engine_ok_def)
  then have t: "tokens_per_frame e = rows" "eng_predictor e = Some P" by (simp_all add: loaded_def)
  have same: "e\<lparr>kv_cache := kv_cache e\<rparr> = e" by simp
  have batched: "rollout_energy_batched lib e st goal h seqs = (e, Inr (map (energy_of lib e st goal) seqs))"
    using batched_rollout_result [OF l st seqs, of 0] t(1)
    by (simp add: rollout_energy_batched_def ensure_loaded [OF l] ctx_after_def energy_of_def)
  have cached: "rollout_energy_batched_cached lib e st goal h seqs = (e, Inr None) \<or>
      rollout_energy_batched_cached lib e st goal h seqs = (e, Inr (Some (map (energy_of lib e st goal) seqs)))"
  proof (cases "supports_kv_cache P \<and> frames_now e (ws_context st) + int h \<le> context_frames (config e)")
    case True
    have w: "window rows (ws_context st)" using st t(1) by (simp add: ctx_ok_def)
    obtain n where n: "length (ws_context st) = n * rows" using w by (auto simp: window_def)
    then have "int n + int h \<le> context_frames (config e)" using True t(1) rows_pos by (simp add: frames_now_def)
    then have "(int n + int h) * int rows \<le> context_frames (config e) * int rows"
      by (intro mult_right_mono) auto
    then have room: "int (length (ws_context st)) + int h * int rows \<le> window_rows e"
      by (simp add: n window_rows_def t(1) algebra_simps)
    obtain c where c: "p_init_cache P (Rows (ws_context st)) = Inr c" "in_sync c [ws_context st]"
      using init_sync [OF w] by blast
    have "expand_batch (length seqs) [ws_context st]
        = map (\<lambda>s. ctx_after lib e (take 0 s) (ws_context st)) seqs"
      using seqs(1) by (cases seqs) (auto simp: expand_batch_def ctx_after_def map_replicate_const)
    from cached_batched_result [OF l st seqs room h c(2) _ this] True c(1) show ?thesis
      by (simp add: rollout_energy_batched_cached_def ensure_loaded [OF l] energy_of_def)
  qed (auto simp: rollout_energy_batched_cached_def ensure_loaded [OF l])
  show ?thesis
  proof (cases "plan_batched (config e) \<and> supports_batch P")
    case True
    with batched cached t(2) have "candidate_energies lib e st goal h seqs
        = (e, Inr (map (energy_of lib e st goal) seqs))" by (auto simp: candidate_energies_def)
    with e show ?thesis by (intro exI [of _ "kv_cache e"]) simp
  next
    case False
    have "\<forall>s \<in> set seqs. \<forall>a \<in> set s. act_ok lib a" using seqs(2) seq_act_ok by blast
    from looped_result [OF e st this] False t(2) seqs(1) show ?thesis
      by (auto simp: candidate_energies_def)
  qed
qed

end

section \<open>Planning leaves the sessions alone\<close>

context planning_predictor
begin

primrec cem_spec ::
    "('r, 'f, 'c, 'p, 'g, 'e) vj_lib \<Rightarrow> ('r, 'f, 'c, 'p) vj_engine \<Rightarrow> 'r list world_state \<Rightarrow> 'g
      \<Rightarrow> (nat \<Rightarrow> 'f list list list) \<Rightarrow> nat list \<Rightarrow> 'f list list \<Rightarrow> 'f list list \<Rightarrow> exn + 'f list list" where
  "cem_spec lib e st goal noise [] mean std = Inr mean"
| "cem_spec lib e st goal noise (k # ks) mean std =
     (let seqs = map (perturb lib mean std) (noise k)
      in case topk_smallest lib (map (energy_of lib e st goal) seqs) (plan_elites (config e)) of
           Inl x \<Rightarrow> Inl x
         | Inr idx \<Rightarrow> (let elite = map (\<lambda>i. seqs ! i) idx
             in cem_spec lib e st goal noise ks (elite_mean lib elite) (elite_std lib elite)))"

lemma cem_spec_frame [simp]: "cem_spec lib (e\<lparr>kv_cache := k\<rparr>) st goal noise ks mean std
    = cem_spec lib e st goal noise ks mean std"
  by (induction ks arbitrary: mean std) (simp_all add: Let_def split: sum.split)

definition noise_ok :: "('r, 'f, 'c, 'p, 'g, 'e) vj_lib \<Rightarrow> nat \<Rightarrow> (nat \<Rightarrow> 'f list list list) \<Rightarrow> bool" where
  "noise_ok lib h noise \<longleftrightarrow> h > 0 \<and> (\<forall>k. noise k \<noteq> [] \<and>
     (\<forall>mean std. \<forall>n \<in> set (noise k). seq_ok lib h (perturb lib mean std n)))"

lemma cem_result:
  assumes "engine_ok e" "ctx_ok e (ws_context st)" "noise_ok lib h noise"
  shows "\<exists>k. cem_iterations lib st goal h noise ks e mean std
      = (e\<lparr>kv_cache := k\<rparr>, cem_spec lib e st goal noise ks mean std) \<and> engine_ok (e\<lparr>kv_cache := k\<rparr>)"
  using assms(1,2)
proof (induction ks arbitrary: e mean std)
  case Nil
  then show ?case by (intro exI [of _ "kv_cache e"]) simp
next
  case (Cons i ks)
  let ?seqs = "map (perturb lib mean std) (noise i)"
  have seqs: "?seqs \<noteq> []" "\<forall>s \<in> set ?seqs. seq_ok lib h s" "h > 0"
    using assms(3) by (auto simp: noise_ok_def)
  obtain k where k: "candidate_energies lib e st goal h ?seqs
      = (e\<lparr>kv_cache := k\<rparr>, Inr (map (energy_of lib e st goal) ?seqs))" "engine_ok (e\<lparr>kv_cache := k\<rparr>)"
    using candidate_energies_result [OF Cons.prems seqs, where goal = goal] by blast
  let ?e = "e\<lparr>kv_cache := k\<rparr>"
  show ?case
  proof (cases "topk_smallest lib (map (energy_of lib e st goal) ?seqs) (plan_elites (config e))")
    case (Inl x)
    with k show ?thesis by (intro exI [of _ k]) (simp add: Let_def o_def)
  next
    case (Inr idx)
    let ?elite = "map (\<lambda>i. ?seqs ! i) idx"
    obtain k' where "cem_iterations lib st goal h noise ks ?e (elite_mean lib ?elite) (elite_std lib ?elite)
      = (?e\<lparr>kv_cache := k'\<rparr>, cem_spec lib ?e st goal noise ks (elite_mean lib ?elite) (elite_std lib ?elite))"
      "engine_ok (?e\<lparr>kv_cache := k'\<rparr>)"
      using Cons.IH [OF k(2), of "elite_mean lib ?elite" "elite_std lib ?elite"] Cons.prems(2)
      unfolding ctx_ok_frame by blast
    with Inr k(1) show ?thesis by (intro exI [of _ k']) (simp add: Let_def o_def)
  qed
qed

lemma plan_keeps:
  assumes "engine_ok e" "ctx_ok e (ws_context st)" "noise_ok lib h noise"
  shows "\<exists>k m. fst (vj_plan lib e st goal h noise) = e\<lparr>kv_cache := k, plan_mean := m\<rparr>
    \<and> engine_ok (e\<lparr>kv_cache := k, plan_mean := m\<rparr>)"
proof -
  let ?mean = "warm_start_mean lib e st h"
  obtain k where k: "cem_iterations lib st goal h noise [0..<nat (plan_iters (config e))] e ?mean
      (map (map (\<lambda>_. f_unit lib)) ?mean) = (e\<lparr>kv_cache := k\<rparr>, cem_spec lib e st goal noise
        [0..<nat (plan_iters (config e))] ?mean (map (map (\<lambda>_. f_unit lib)) ?mean))"
    "engine_ok (e\<lparr>kv_cache := k\<rparr>)"
    using cem_result [OF assms] by blast
  have frame: "engine_ok (e\<lparr>kv_cache := k, plan_mean := m\<rparr>)" for m
    using k(2) by (simp add: engine_ok_def caches_ok_def loaded_def)
  have "\<exists>m. fst (plan_sequence lib e st goal h noise) = e\<lparr>kv_cache := k, plan_mean := m\<rparr>"
  proof (cases "cem_spec lib e st goal noise [0..<nat (plan_iters (config e))] ?mean
      (map (map (\<lambda>_. f_unit lib)) ?mean)")
    case (Inl x)
    with k(1) show ?thesis
      by (intro exI [of _ "plan_mean e"]) (simp add: plan_sequence_def Let_def)
  next
    case (Inr m)
    with k(1) show ?thesis
      by (intro exI [of _ "if plan_warm_start (config e)
            then AList.update (ws_session_id st) m (plan_mean e) else plan_mean e"])
        (simp add: plan_sequence_def Let_def)
  qed
  moreover have "fst (vj_plan lib e st goal h noise) = fst (plan_sequence lib e st goal h noise)"
    by (simp add: vj_plan_def split: prod.split sum.split list.split)
  ultimately show ?thesis using frame by metis
qed

lemma step_after_plan:
  assumes e: "engine_ok e" and st: "ctx_ok e (ws_context st)" "noise_ok lib h noise"
    and st': "ctx_ok e (ws_context st')" "act_ok lib a"
  shows "snd (vj_step lib (fst (vj_plan lib e st goal h noise)) st' a) = snd (vj_step lib e st' a)"
proof -
  obtain k m where km: "fst (vj_plan lib e st goal h noise) = e\<lparr>kv_cache := k, plan_mean := m\<rparr>"
    "engine_ok (e\<lparr>kv_cache := k, plan_mean := m\<rparr>)"
    using plan_keeps [OF e st] by blast
  let ?e = "e\<lparr>kv_cache := k, plan_mean := m\<rparr>"
  have "ctx_ok ?e (ws_context st')" using st'(1) by (simp add: ctx_ok_def)
  then have "snd (vj_step lib ?e st' a) = Inr (next_state lib ?e st' a, ws_step_index st' + 1)"
    using step_result [of ?e st' lib a] km(2) st'(2) by (auto simp: engine_ok_def)
  moreover have "snd (vj_step lib e st' a) = Inr (next_state lib e st' a, ws_step_index st' + 1)"
    using step_result [of e st' lib a] e st' by (auto simp: engine_ok_def)
  moreover have "next_state lib ?e st' a = next_state lib e st' a"
    by (simp add: next_state_def next_ctx_def)
  ultimately show ?thesis using km(1) by simp
qed

lemma step_uncached_agrees:
  assumes "engine_ok e" "ctx_ok e (ws_context st)" "act_ok lib a"
  defines "u \<equiv> e\<lparr>config := (config e)\<lparr>use_kv_cache := False\<rparr>\<rparr>"
  shows "\<exists>k r. vj_step lib e st a = (e\<lparr>kv_cache := k\<rparr>, Inr r) \<and> vj_step lib u st a = (u, Inr r)
    \<and> engine_ok (e\<lparr>kv_cache := k\<rparr>)"
proof -
  have "loaded u" "ctx_ok u (ws_context st)" "\<not> use_kv_cache (config u)"
    using assms(1,2) by (simp_all add: u_def engine_ok_def loaded_def ctx_ok_def window_rows_def)
  then have "vj_step lib u st a = (u, Inr (next_state lib u st a, ws_step_index st + 1))"
    using assms(3) by (intro uncached_step)
  moreover have "next_state lib u st a = next_state lib e st a"
    by (simp add: u_def next_state_def next_ctx_def maybe_norm_def window_rows_def)
  ultimately show ?thesis
    using step_result [of e st lib a] assms(1-3) by (fastforce simp: engine_ok_def)
qed

lemma energies_uncached_agree:
  assumes "engine_ok e" "ctx_ok e (ws_context st)" "seqs \<noteq> []" "\<forall>s \<in> set seqs. seq_ok lib h s" "h > 0"
  defines "u \<equiv> e\<lparr>config := (config e)\<lparr>use_kv_cache := False\<rparr>\<rparr>"
  shows "\<exists>ens. snd (candidate_energies lib e st goal h seqs) = Inr ens
    \<and> snd (looped_energies lib u st goal seqs) = Inr ens"
proof -
  have "engine_ok u" "ctx_ok u (ws_context st)"
    using assms(1,2) by (simp_all add: u_def engine_ok_def loaded_def caches_ok_def ctx_ok_def window_rows_def)
  moreover have "\<forall>s \<in> set seqs. \<forall>a \<in> set s. act_ok lib a" using assms(4) seq_act_ok by blast
  moreover have "energy_of lib u st goal = energy_of lib e st goal"
    by (simp add: u_def energy_of_def ctx_after_def next_ctx_def maybe_norm_def window_rows_def fun_eq_iff)
  ultimately show ?thesis
    using looped_result [of u st seqs lib goal] candidate_energies_result [OF assms(1-5), where goal = goal] by auto
qed

end

section \<open>The window slides\<close>

context cached_predictor
begin

lemma ctx_after_tail:
  assumes "loaded e" "ctx_ok e ctx" "\<forall>a \<in> set seq. act_ok lib a"
  shows "\<exists>blocks. length blocks = length seq \<and> (\<forall>b \<in> set blocks. length b = rows) \<and>
    ctx_after lib e seq ctx = py_tail (window_rows e) (ctx @ concat blocks)"
  using assms(2,3)
proof (induction seq arbitrary: ctx)
  case Nil
  then have "py_tail (window_rows e) ctx = ctx"
    using window_rows_pos [of e ctx] assms(1) rows_pos
    by (intro py_tail_short) (simp_all add: loaded_def ctx_ok_def)
  then show ?case by (intro exI [of _ "[]"]) (simp add: ctx_after_def)
next
  case (Cons a as)
  let ?v = "cast_action lib a"
  let ?b = "maybe_norm lib e (predict ctx ?v)" and ?c = "next_ctx lib e ctx ?v"
  have v: "length ?v = size_a" using Cons.prems by (simp add: act_ok_def)
  have W: "window_rows e > 0"
    using window_rows_pos [OF Cons.prems(1)] assms(1) rows_pos by (simp add: loaded_def)
  have b: "length ?b = rows" using predict_rows v Cons.prems(1) assms(1) by (simp add: ctx_ok_def loaded_def)
  obtain blocks where bl: "length blocks = length as" "\<forall>b \<in> set blocks. length b = rows"
    "ctx_after lib e as ?c = py_tail (window_rows e) (?c @ concat blocks)"
    using Cons.IH [OF next_ctx_ok [OF assms(1) Cons.prems(1) v, of lib]] Cons.prems(2) by auto
  then have "ctx_after lib e (a # as) ctx = py_tail (window_rows e) (ctx @ concat (?b # blocks))"
    using py_tail_tail [OF W, of "ctx @ ?b" "concat blocks"] by (simp add: ctx_after_def next_ctx_def)
  with bl b show ?case by (intro exI [of _ "?b # blocks"]) auto
qed

lemma rollout_steps:
  assumes "engine_ok e" "ctx_ok e (ws_context st)" "\<forall>a \<in> set seq. act_ok lib a"
  shows "snd (rollout lib e st seq) = Inr st' \<Longrightarrow>
    ws_step_index st' = ws_step_index st + int (length seq) \<and> ws_session_id st' = ws_session_id st"
  using assms
proof (induction seq arbitrary: e st)
  case (Cons a as)
  obtain k where k: "vj_step lib e st a
      = (e\<lparr>kv_cache := k\<rparr>, Inr (next_state lib e st a, ws_step_index st + 1))"
    "caches_ok (e\<lparr>kv_cache := k\<rparr>)"
    using step_result [of e st lib a] Cons.prems by (auto simp: engine_ok_def)
  let ?e = "e\<lparr>kv_cache := k\<rparr>" and ?st = "next_state lib e st a"
  have "engine_ok ?e" using k(2) Cons.prems(2) by (simp add: engine_ok_def)
  moreover have "ctx_ok ?e (ws_context ?st)"
    using next_ctx_ok [of e "ws_context st" "cast_action lib a"] Cons.prems
    by (simp add: next_state_def engine_ok_def act_ok_def)
  moreover have "snd (rollout lib ?e ?st as) = Inr st'" using Cons.prems(1) k(1) by simp
  ultimately show ?case using Cons.IH [of ?e ?st] Cons.prems(4) by (simp add: next_state_def)
qed simp

end

section \<open>The engine over the real adapter\<close>

interpretation adapter_planning: planning_predictor "ac_predictor (Rep_lawful_adapter ad)"
    "full_prediction (Rep_lawful_adapter ad)" "patches (Rep_lawful_adapter ad)"
    "adim (Rep_lawful_adapter ad)" "synced (Rep_lawful_adapter ad)" "stepped (Rep_lawful_adapter ad)" for ad ..

text \<open>An engine over a lawful adapter whose cache entries are in step with their contexts, in the
  exact policy.\<close>

definition ac_engine_ok ::
    "('r, 'h, 'f) ac_adapter \<Rightarrow> ('r, 'f, ('r, 'f) ac_cache, 'p) vj_engine \<Rightarrow> bool" where
  "ac_engine_ok ad e \<longleftrightarrow> ac_net_law ad \<and> eng_predictor e = Some (ac_predictor ad)
     \<and> tokens_per_frame e = patches ad \<and> kv_evict_policy (config e) = ''reinit''
     \<and> (\<forall>sid en. map_of (kv_cache e) sid = Some en \<longrightarrow> synced ad (ce_cache en) [last_context en])"

lemmas adapter_defs =
  predictor_law.act_ok_def [OF adapter_batch.predictor_law_axioms]
  predictor_law.seq_ok_def [OF adapter_batch.predictor_law_axioms]
  predictor_law.loaded_def [OF adapter_batch.predictor_law_axioms]
  cached_predictor.caches_ok_def [OF adapter_cached.cached_predictor_axioms]
  cached_predictor.engine_ok_def [OF adapter_cached.cached_predictor_axioms]
  planning_predictor.noise_ok_def [OF adapter_planning.planning_predictor_axioms]

lemma lawful_cases:
  assumes "ac_net_law ad" obtains x where "ad = Rep_lawful_adapter x"
  using assms Abs_lawful_adapter_inverse [of ad] by (metis mem_Collect_eq)

lemma ac_engine_okE:
  assumes "ac_engine_ok ad e"
  obtains x where "ad = Rep_lawful_adapter x"
    "cached_predictor.engine_ok (ac_predictor (Rep_lawful_adapter x)) (patches (Rep_lawful_adapter x))
      (synced (Rep_lawful_adapter x)) e"
proof -
  obtain x where x: "ad = Rep_lawful_adapter x"
    using lawful_cases [of ad] assms by (auto simp: ac_engine_ok_def)
  with assms that show thesis by (auto simp: ac_engine_ok_def adapter_defs)
qed

definition act_ok ::
    "('r, 'h, 'f) ac_adapter \<Rightarrow> ('r, 'f, 'c, 'p, 'g, 'e) vj_lib \<Rightarrow> 'f list \<Rightarrow> bool" where
  "act_ok ad lib a \<longleftrightarrow> length (cast_action lib a) = adim ad"

definition seq_ok ::
    "('r, 'h, 'f) ac_adapter \<Rightarrow> ('r, 'f, 'c, 'p, 'g, 'e) vj_lib \<Rightarrow> nat \<Rightarrow> 'f list list \<Rightarrow> bool" where
  "seq_ok ad lib h seq \<longleftrightarrow> length seq = h \<and> (\<forall>a \<in> set seq. cast_action lib a = a \<and> length a = adim ad)"

definition uncached :: "('r, 'f, 'c, 'p) vj_engine \<Rightarrow> ('r, 'f, 'c, 'p) vj_engine" where
  "uncached e = e\<lparr>config := (config e)\<lparr>use_kv_cache := False\<rparr>\<rparr>"

section \<open>Properties\<close>

text \<open>C6: the per-session cache is invisible. On an engine over the real adapter in the exact
  policy, with every cache entry in step with the context it was left with, a step from any
  window of whole frames returns the very state that the engine with the cache turned off
  returns, whether the entry could be reused, had to be rebuilt or was dropped because the
  window is full; it never raises, touches nothing but the cache, and leaves every entry in
  step.\<close>

theorem cached_step_equals_uncached:
  assumes "ac_engine_ok ad e" "ctx_ok e (ws_context st)" "act_ok ad lib a"
  shows "\<exists>k r. vj_step lib e st a = (e\<lparr>kv_cache := k\<rparr>, Inr r)
    \<and> vj_step lib (uncached e) st a = (uncached e, Inr r)
    \<and> ac_engine_ok ad (e\<lparr>kv_cache := k\<rparr>)"
proof -
  obtain x where x: "ad = Rep_lawful_adapter x"
    "cached_predictor.engine_ok (ac_predictor (Rep_lawful_adapter x)) (patches (Rep_lawful_adapter x))
      (synced (Rep_lawful_adapter x)) e"
    using assms(1) by (rule ac_engine_okE)
  from adapter_planning.step_uncached_agrees [OF x(2) assms(2), of lib a] assms(3) show ?thesis
    unfolding adapter_defs uncached_def ac_engine_ok_def act_ok_def x(1) by fastforce
qed

text \<open>C9: the three ways of scoring candidates agree. Over the real adapter, whichever of the
  batched, the cached batched and the per-candidate path the configuration selects, the
  energies of a set of candidate sequences are those of rolling every candidate out on its own
  without any cache.\<close>

theorem candidate_energy_paths_agree:
  assumes "ac_engine_ok ad e" "ctx_ok e (ws_context st)" "seqs \<noteq> []"
    "\<forall>s \<in> set seqs. seq_ok ad lib h s" "h > 0"
  shows "\<exists>ens. snd (candidate_energies lib e st goal h seqs) = Inr ens
    \<and> snd (looped_energies lib (uncached e) st goal seqs) = Inr ens"
proof -
  obtain x where x: "ad = Rep_lawful_adapter x"
    "cached_predictor.engine_ok (ac_predictor (Rep_lawful_adapter x)) (patches (Rep_lawful_adapter x))
      (synced (Rep_lawful_adapter x)) e"
    using assms(1) by (rule ac_engine_okE)
  from adapter_planning.energies_uncached_agree [OF x(2) assms(2,3) _ assms(5), of lib goal] assms(4)
  show ?thesis unfolding adapter_defs uncached_def seq_ok_def x(1) by blast
qed

text \<open>planning does not disturb the session. A plan rolls its candidates out under the
  session's own id and so overwrites its cache entry; still, whatever was planned and whether or
  not it raised, the next step on any state of any session returns what it would have returned
  without the plan.\<close>

theorem planning_does_not_disturb_stepping:
  assumes "ac_engine_ok ad e" "ctx_ok e (ws_context st)" "h > 0"
    "\<forall>k. noise k \<noteq> [] \<and> (\<forall>mean std. \<forall>n \<in> set (noise k). seq_ok ad lib h (perturb lib mean std n))"
    "ctx_ok e (ws_context st')" "act_ok ad lib a"
  shows "snd (vj_step lib (fst (vj_plan lib e st goal h noise)) st' a) = snd (vj_step lib e st' a)"
proof -
  obtain x where x: "ad = Rep_lawful_adapter x"
    "cached_predictor.engine_ok (ac_predictor (Rep_lawful_adapter x)) (patches (Rep_lawful_adapter x))
      (synced (Rep_lawful_adapter x)) e"
    using assms(1) by (rule ac_engine_okE)
  show ?thesis
    by (rule adapter_planning.step_after_plan [OF x(2) assms(2) _ assms(5)])
      (use assms(3,4,6) x(1) in \<open>auto simp: adapter_defs seq_ok_def act_ok_def\<close>)
qed


text \<open>the context is a sliding window. Over the real adapter, any sequence of steps from a window
  of whole frames succeeds, appends exactly one frame per action and keeps the last
  \<open>context_frames\<close> of them: the final context is the tail of the initial one followed by the
  predicted frames, never longer than the window; the step index counts the actions and the
  session stays the same.\<close>

theorem context_is_a_sliding_window:
  assumes "ac_engine_ok ad e" "ctx_ok e (ws_context st)" "\<forall>a \<in> set seq. act_ok ad lib a"
  shows "\<exists>st' blocks. snd (rollout lib e st seq) = Inr st'
    \<and> ws_context st' = py_tail (window_rows e) (ws_context st @ concat blocks)
    \<and> length blocks = length seq \<and> list_all (\<lambda>b. length b = patches ad) blocks
    \<and> int (length (ws_context st')) \<le> window_rows e
    \<and> ws_step_index st' = ws_step_index st + int (length seq)
    \<and> ws_session_id st' = ws_session_id st"
proof -
  obtain x where x: "ad = Rep_lawful_adapter x"
    "cached_predictor.engine_ok (ac_predictor (Rep_lawful_adapter x)) (patches (Rep_lawful_adapter x))
      (synced (Rep_lawful_adapter x)) e"
    using assms(1) by (rule ac_engine_okE)
  have l: "predictor_law.loaded (ac_predictor (Rep_lawful_adapter x)) (patches (Rep_lawful_adapter x)) e"
    using x(2) by (simp add: adapter_defs)
  have acts: "\<forall>a \<in> set seq. predictor_law.act_ok (adim (Rep_lawful_adapter x)) lib a"
    using assms(3) x(1) by (simp add: adapter_defs act_ok_def)
  obtain k st' where st': "rollout lib e st seq = (e\<lparr>kv_cache := k\<rparr>, Inr st')"
    "ws_context st' = predictor_law.ctx_after (full_prediction (Rep_lawful_adapter x)) lib e seq (ws_context st)"
    using adapter_cached.rollout_result [OF x(2) assms(2) acts] by blast
  have "ctx_ok e (ws_context st')" using adapter_batch.ctx_after_ok [OF l assms(2) acts] st'(2) by simp
  moreover have "ws_step_index st' = ws_step_index st + int (length seq) \<and> ws_session_id st' = ws_session_id st"
    using adapter_cached.rollout_steps [OF x(2) assms(2) acts, of st'] st'(1) by simp
  moreover obtain blocks where "length blocks = length seq"
    "\<forall>b \<in> set blocks. length b = patches (Rep_lawful_adapter x)"
    "ws_context st' = py_tail (window_rows e) (ws_context st @ concat blocks)"
    using adapter_cached.ctx_after_tail [OF l assms(2) acts] st'(2) by auto
  ultimately show ?thesis using st'(1) x(1)
    by (intro exI [of _ st'] exI [of _ blocks]) (simp add: ctx_ok_def list_all_iff)
qed

section \<open>An engine to compute with\<close>

definition small_lib :: "(int, int, (int, int) ac_cache, int, int, int) vj_lib" where
  "small_lib =
     \<lparr>auto_model = (\<lambda>r d. Inl (OtherException ''offline'')), load_head = (\<lambda>c t. Inl (OtherException ''offline'')),
      layer_norm = (\<lambda>r. r), cast_action = (\<lambda>a. a), vector_norm = (\<lambda>x g. abs (sum_list x - g)),
      perturb = (\<lambda>m s n. n), topk_smallest = (\<lambda>en k. Inr [0]), elite_mean = hd,
      elite_std = hd, f_nil = 0, f_unit = 1, zero_clip = (\<lambda>n r. []),
      read_image = (\<lambda>u. Inl (OtherException ''offline'')), read_video = (\<lambda>u. Inl (OtherException ''offline'')),
      linspace_long = (\<lambda>a b. []), resize_normalize = (\<lambda>r c. c), pack_clip = (\<lambda>c. 0), to_backend = (\<lambda>c. c)\<rparr>"

definition small_engine :: "(int, int, (int, int) ac_cache, int) vj_engine" where
  "small_engine = vj_init ''cpu'' (Some (default_config\<lparr>context_frames := 3, action_dim := 1\<rparr>)) None
     (Some (ac_predictor small_adapter))"

definition small_state :: "int list world_state" where
  "small_state = \<lparr>ws_context = [4, 5], ws_step_index = 0, ws_session_id = ''s''\<rparr>"

lemma small_engine_ok: "ac_engine_ok small_adapter small_engine"
  by (simp add: ac_engine_ok_def small_engine_def vj_init_def small_adapter_law small_adapter_sizes
      default_config_def)

lemma small_state_ok: "ctx_ok small_engine (ws_context small_state)"
  by (auto simp: ctx_ok_def small_state_def small_engine_def vj_init_def window_rows_def window_def
      default_config_def)

lemma small_act_ok: "act_ok small_adapter small_lib [a]"
  by (simp add: act_ok_def small_lib_def small_adapter_sizes)

theorem cached_step_equals_uncached_witness:
  "snd (vj_step small_lib small_engine small_state [3]) = snd (vj_step small_lib (uncached small_engine) small_state [3])
   \<and> ac_engine_ok small_adapter (fst (vj_step small_lib small_engine small_state [3]))"
  using cached_step_equals_uncached [OF small_engine_ok small_state_ok small_act_ok [of 3]] by force

theorem candidate_energy_paths_agree_witness:
  "\<exists>ens. snd (candidate_energies small_lib small_engine small_state 9 2 [[[3], [1]], [[0], [2]]]) = Inr ens
    \<and> snd (looped_energies small_lib (uncached small_engine) small_state 9 [[[3], [1]], [[0], [2]]]) = Inr ens"
  by (rule candidate_energy_paths_agree [OF small_engine_ok small_state_ok])
    (auto simp: seq_ok_def small_lib_def small_adapter_sizes)

theorem planning_does_not_disturb_stepping_witness:
  "snd (vj_step small_lib (fst (vj_plan small_lib small_engine small_state 9 1 (\<lambda>k. [[[1]], [[2]]]))) small_state [3])
   = snd (vj_step small_lib small_engine small_state [3])"
  by (rule planning_does_not_disturb_stepping [OF small_engine_ok small_state_ok _ _ small_state_ok small_act_ok])
    (auto simp: seq_ok_def small_lib_def small_adapter_sizes)

theorem context_is_a_sliding_window_witness:
  "\<exists>st'. snd (rollout small_lib small_engine small_state [[1], [2], [3]]) = Inr st'
    \<and> length (ws_context st') \<le> 3 \<and> ws_step_index st' = 3"
proof -
  have "\<forall>a \<in> set [[1], [2], [3]]. act_ok small_adapter small_lib a" by (simp add: small_act_ok)
  from context_is_a_sliding_window [OF small_engine_ok small_state_ok this]
  obtain st' where "snd (rollout small_lib small_engine small_state [[1], [2], [3]]) = Inr st'"
    "int (length (ws_context st')) \<le> window_rows small_engine" "ws_step_index st' = 3"
    by (auto simp: small_state_def)
  moreover have "window_rows small_engine = 3"
    by (simp add: window_rows_def small_engine_def vj_init_def)
  ultimately show ?thesis by auto
qed

end
