(* ===== verification/ChunkEngine.thy ===== *)
theory ChunkEngine
  imports RuntimeTypes
begin

text \<open>
  The chunk loop of the two generative world models: the engine half of \<open>models/lingbot_va.py\<close>
  and \<open>models/dreamzero.py\<close>, whose text is the same up to the model's name, its configuration
  and the action space it reports. An engine opens a session (a fresh \<open>uuid4\<close>, an argument
  here), keeps its frame clock and the actions the model proposed last, and drives an injected
  pipeline through the protocol \<open>_VAPipeline\<close> (\<open>_DreamZeroPipeline\<close>). Random draws of an
  operation are an argument of it.

  The locale \<open>session_pipeline\<close> states what the engine relies on: a pipeline call reads and
  writes the state of its own session only. Under it sessions do not interfere, and what the
  pipeline holds is what the engine's sessions need. Theories LingBotPipeline and
  DreamZeroPipeline interpret it on the real pipelines.
\<close>

section \<open>Configuration and state\<close>

text \<open>The fields both engines read; each engine's configuration extends them.\<close>

record chunk_config =
  cc_repo :: string
  cc_device_index :: int
  cc_dtype :: string
  cc_prompt :: "string option"
  cc_action_dim :: int
  cc_used_action_dim :: "int option"

text \<open>Guidance scales and shifts are exact rationals.\<close>

record lingbot_config = chunk_config +
  lb_frame_chunk_size :: int
  lb_action_per_frame :: int
  lb_attn_window :: int
  lb_num_inference_steps :: int
  lb_action_num_inference_steps :: int
  lb_guidance_scale :: rat
  lb_action_guidance_scale :: rat
  lb_attn_mode :: string
  lb_compile_transformer :: bool

definition default_lingbot :: lingbot_config where
  "default_lingbot =
     \<lparr>cc_repo = ''robbyant/lingbot-va-base'', cc_device_index = 0, cc_dtype = ''bfloat16'',
      cc_prompt = None, cc_action_dim = 30, cc_used_action_dim = None,
      lb_frame_chunk_size = 4, lb_action_per_frame = 8, lb_attn_window = 30,
      lb_num_inference_steps = 5, lb_action_num_inference_steps = 10,
      lb_guidance_scale = 5, lb_action_guidance_scale = 1, lb_attn_mode = ''torch'',
      lb_compile_transformer = False\<rparr>"

record dreamzero_config = chunk_config +
  dz_num_frame_per_block :: int
  dz_frame_seqlen :: int
  dz_num_action_per_block :: int
  dz_num_state_per_block :: int
  dz_max_state_dim :: int
  dz_attn_window_frames :: int
  dz_num_inference_steps :: int
  dz_cfg_scale :: rat
  dz_sigma_shift :: rat
  dz_enable_dit_cache :: bool
  dz_attn_mode :: string
  dz_ip_size :: int
  dz_num_dit_steps :: int
  dz_cfg_batched :: bool
  dz_compile :: bool
  dz_local_attn_size :: "int option"

definition default_dreamzero :: dreamzero_config where
  "default_dreamzero =
     \<lparr>cc_repo = ''GEAR-Dreams/DreamZero-DROID'', cc_device_index = 0, cc_dtype = ''bfloat16'',
      cc_prompt = None, cc_action_dim = 32, cc_used_action_dim = Some 8,
      dz_num_frame_per_block = 2, dz_frame_seqlen = 880, dz_num_action_per_block = 24,
      dz_num_state_per_block = 1, dz_max_state_dim = 64, dz_attn_window_frames = 21,
      dz_num_inference_steps = 16, dz_cfg_scale = 5, dz_sigma_shift = 5,
      dz_enable_dit_cache = False, dz_attn_mode = ''sdpa'', dz_ip_size = 1,
      dz_num_dit_steps = 16, dz_cfg_batched = False, dz_compile = False,
      dz_local_attn_size = None\<rparr>"

text \<open>The pipeline protocol over a pipeline state \<open>'s\<close>, latents \<open>'x\<close>, action components \<open>'f\<close>
  and the random draws \<open>'n\<close> of a call.\<close>

record ('s, 'x, 'f, 'n) va_pipeline =
  vp_reset :: "'s \<Rightarrow> string \<Rightarrow> string option \<Rightarrow> 's \<times> (exn + unit)"
  vp_encode :: "'s \<Rightarrow> string \<Rightarrow> conditioning_input \<Rightarrow> 'n \<Rightarrow> 's \<times> (exn + 'x)"
  vp_infer :: "'s \<Rightarrow> string \<Rightarrow> int \<Rightarrow> 'x option \<Rightarrow> 'n \<Rightarrow> 's \<times> (exn + ('x \<times> 'f list list))"
  vp_recondition :: "'s \<Rightarrow> string \<Rightarrow> 'f list list \<Rightarrow> 'x option \<Rightarrow> int \<Rightarrow> 's \<times> (exn + int)"
  vp_close :: "'s \<Rightarrow> string \<Rightarrow> 's"

record 'f chunk_session =
  frame_clock :: int
  pending_actions :: "'f list list option"

record ('s, 'f, 'z) chunk_engine =
  ce_config :: "'z chunk_config_scheme"
  ce_backend :: string
  ce_pipeline :: "'s option"
  ce_sessions :: "(string, 'f chunk_session) dict"

text \<open>What tells the two engines apart: name, pipeline constructor and methods, and the action
  space reported by \<open>plan\<close>. Building the pipeline may rewrite the configuration it shares.\<close>

record ('s, 'x, 'f, 'n, 'z) chunk_kind =
  ck_model_name :: string
  ck_build :: "'z chunk_config_scheme \<Rightarrow> exn + ('z chunk_config_scheme \<times> 's)"
  ck_ops :: "('s, 'x, 'f, 'n) va_pipeline"
  ck_space :: "int \<Rightarrow> string"

section \<open>Operations\<close>

definition chunk_init :: "string \<Rightarrow> 'z chunk_config_scheme \<Rightarrow> 's option \<Rightarrow> ('s, 'f, 'z) chunk_engine" where
  "chunk_init backend c pipeline =
     \<lparr>ce_config = c, ce_backend = backend, ce_pipeline = pipeline, ce_sessions = []\<rparr>"

definition chunk_info :: "('s, 'x, 'f, 'n, 'z) chunk_kind \<Rightarrow> ('s, 'f, 'z) chunk_engine \<Rightarrow> engine_info" where
  "chunk_info K e =
     \<lparr>ei_model_name = ck_model_name K, ei_backend = ce_backend e,
      ei_device = ce_backend e @ '':'' @ int_str (cc_device_index (ce_config e)),
      ei_dtype = cc_dtype (ce_config e), ei_ready = ce_pipeline e \<noteq> None\<rparr>"

definition chunk_load ::
    "('s, 'x, 'f, 'n, 'z) chunk_kind \<Rightarrow> ('s, 'f, 'z) chunk_engine
      \<Rightarrow> ('s, 'f, 'z) chunk_engine \<times> (exn + 's)" where
  "chunk_load K e =
     (case ce_pipeline e of
        Some s \<Rightarrow> (e, Inr s)
      | None \<Rightarrow>
          (case ck_build K (ce_config e) of
             Inl x \<Rightarrow> (e, Inl x)
           | Inr (c, s) \<Rightarrow> (e\<lparr>ce_config := c, ce_pipeline := Some s\<rparr>, Inr s)))"

definition chunk_reset ::
    "('s, 'x, 'f, 'n, 'z) chunk_kind \<Rightarrow> string \<Rightarrow> conditioning_input \<Rightarrow> 'n \<Rightarrow> ('s, 'f, 'z) chunk_engine
      \<Rightarrow> ('s, 'f, 'z) chunk_engine \<times> (exn + 'x world_state)" where
  "chunk_reset K sid cond noise e =
     (case chunk_load K e of
        (e, Inl x) \<Rightarrow> (e, Inl x)
      | (e, Inr s) \<Rightarrow>
          (case vp_reset (ck_ops K) s sid (cc_prompt (ce_config e)) of
             (s, Inl x) \<Rightarrow> (e\<lparr>ce_pipeline := Some s\<rparr>, Inl x)
           | (s, Inr _) \<Rightarrow>
               (case vp_encode (ck_ops K) s sid cond noise of
                  (s, Inl x) \<Rightarrow> (e\<lparr>ce_pipeline := Some s\<rparr>, Inl x)
                | (s, Inr init_latent) \<Rightarrow>
                    (e\<lparr>ce_pipeline := Some s,
                       ce_sessions := AList.update sid \<lparr>frame_clock = 0, pending_actions = None\<rparr>
                         (ce_sessions e)\<rparr>,
                     Inr \<lparr>ws_context = init_latent, ws_step_index = 0, ws_session_id = sid\<rparr>))))"

text \<open>\<open>_session_for\<close>.\<close>

definition session_for :: "('s, 'f, 'z) chunk_engine \<Rightarrow> 'x world_state \<Rightarrow> exn + 'f chunk_session" where
  "session_for e st =
     (case map_of (ce_sessions e) (ws_session_id st) of
        None \<Rightarrow> Inl (KeyError (''unknown session '' @ py_repr (ws_session_id st)
                  @ '' - WorldState must come from this engine's reset()''))
      | Some x \<Rightarrow> Inr x)"

text \<open>\<open>used_action_dim or action_dim\<close>: an explicit 0 counts as unset.\<close>

definition wire_action_dim :: "'z chunk_config_scheme \<Rightarrow> int" where
  "wire_action_dim c =
     (case cc_used_action_dim c of
        None \<Rightarrow> cc_action_dim c
      | Some d \<Rightarrow> if d = 0 then cc_action_dim c else d)"

definition parse_action_chunk :: "'z chunk_config_scheme \<Rightarrow> 'f action \<Rightarrow> exn + 'f list list" where
  "parse_action_chunk c a =
     (let a_dim = wire_action_dim c; n = int (length (act_values a))
      in if a_dim = 0 then Inl (OtherException ''integer modulo by zero'')
         else if n mod a_dim \<noteq> 0 then
           Inl (ValueError (''action chunk length '' @ int_str n @ '' is not a multiple of action_dim=''
             @ int_str a_dim @ '' (space='' @ py_repr (act_space a) @ '')''))
         else if a_dim < 0 then Inl (RuntimeError ''invalid shape dimension'')
         else Inr (chunks_of (nat a_dim) (act_values a)))"

definition chunk_step ::
    "('s, 'x, 'f, 'n, 'z) chunk_kind \<Rightarrow> 'x world_state \<Rightarrow> 'f action \<Rightarrow> 'n \<Rightarrow> ('s, 'f, 'z) chunk_engine
      \<Rightarrow> ('s, 'f, 'z) chunk_engine \<times> (exn + ('x world_state \<times> latent_step))" where
  "chunk_step K st a noise e =
     (let sid = ws_session_id st in
      case chunk_load K e of
        (e, Inl x) \<Rightarrow> (e, Inl x)
      | (e, Inr s) \<Rightarrow>
          (case session_for e st of
             Inl x \<Rightarrow> (e, Inl x)
           | Inr session \<Rightarrow>
               (case parse_action_chunk (ce_config e) a of
                  Inl x \<Rightarrow> (e, Inl x)
                | Inr actions \<Rightarrow>
                    (case vp_recondition (ck_ops K) s sid actions None (frame_clock session) of
                       (s, Inl x) \<Rightarrow> (e\<lparr>ce_pipeline := Some s\<rparr>, Inl x)
                     | (s, Inr consumed) \<Rightarrow>
                         (let session = session\<lparr>frame_clock := frame_clock session + consumed\<rparr> in
                          case vp_infer (ck_ops K) s sid (frame_clock session) None noise of
                            (s, Inl x) \<Rightarrow>
                              (e\<lparr>ce_pipeline := Some s,
                                 ce_sessions := AList.update sid session (ce_sessions e)\<rparr>, Inl x)
                          | (s, Inr (latents, proposed)) \<Rightarrow>
                              (e\<lparr>ce_pipeline := Some s,
                                 ce_sessions := AList.update sid (session\<lparr>pending_actions := Some proposed\<rparr>)
                                   (ce_sessions e)\<rparr>,
                               Inr (\<lparr>ws_context = latents, ws_step_index = ws_step_index st + 1,
                                     ws_session_id = sid\<rparr>,
                                    \<lparr>ls_step_index = ws_step_index st + 1, ls_energy = None,
                                     ls_frame = None\<rparr>)))))))"

definition first_action :: "('s, 'x, 'f, 'n, 'z) chunk_kind \<Rightarrow> 'z chunk_config_scheme \<Rightarrow> 'f list list \<Rightarrow> exn + 'f action" where
  "first_action K c proposed =
     (case proposed of
        [] \<Rightarrow> Inl (OtherException ''index 0 is out of bounds for dimension 0 with size 0'')
      | a # _ \<Rightarrow> Inr \<lparr>act_values = a, act_space = ck_space K (wire_action_dim c)\<rparr>)"

text \<open>The goal and the horizon are not read.\<close>

definition chunk_plan ::
    "('s, 'x, 'f, 'n, 'z) chunk_kind \<Rightarrow> 'x world_state \<Rightarrow> 'n \<Rightarrow> ('s, 'f, 'z) chunk_engine
      \<Rightarrow> ('s, 'f, 'z) chunk_engine \<times> (exn + 'f action)" where
  "chunk_plan K st noise e =
     (let sid = ws_session_id st in
      case chunk_load K e of
        (e, Inl x) \<Rightarrow> (e, Inl x)
      | (e, Inr s) \<Rightarrow>
          (case session_for e st of
             Inl x \<Rightarrow> (e, Inl x)
           | Inr session \<Rightarrow>
               (case pending_actions session of
                  Some proposed \<Rightarrow> (e, first_action K (ce_config e) proposed)
                | None \<Rightarrow>
                    (case vp_infer (ck_ops K) s sid (frame_clock session) (Some (ws_context st)) noise of
                       (s, Inl x) \<Rightarrow> (e\<lparr>ce_pipeline := Some s\<rparr>, Inl x)
                     | (s, Inr (_, proposed)) \<Rightarrow>
                         (e\<lparr>ce_pipeline := Some s,
                            ce_sessions := AList.update sid (session\<lparr>pending_actions := Some proposed\<rparr>)
                              (ce_sessions e)\<rparr>,
                          first_action K (ce_config e) proposed)))))"

definition chunk_release ::
    "('s, 'x, 'f, 'n, 'z) chunk_kind \<Rightarrow> 'x world_state \<Rightarrow> ('s, 'f, 'z) chunk_engine \<Rightarrow> ('s, 'f, 'z) chunk_engine" where
  "chunk_release K st e =
     e\<lparr>ce_sessions := AList.delete (ws_session_id st) (ce_sessions e),
       ce_pipeline := map_option (\<lambda>s. vp_close (ck_ops K) s (ws_session_id st)) (ce_pipeline e)\<rparr>"

section \<open>The two engines\<close>

definition lingbot_kind ::
    "(lingbot_config \<Rightarrow> exn + (lingbot_config \<times> 's)) \<Rightarrow> ('s, 'x, 'f, 'n) va_pipeline
      \<Rightarrow> ('s, 'x, 'f, 'n, unit lingbot_config_ext) chunk_kind" where
  "lingbot_kind build ops =
     \<lparr>ck_model_name = ''lingbot-va-2'', ck_build = build, ck_ops = ops,
      ck_space = (\<lambda>d. ''lingbot_va_'' @ int_str d @ ''d'')\<rparr>"

definition dreamzero_kind ::
    "(dreamzero_config \<Rightarrow> exn + (dreamzero_config \<times> 's)) \<Rightarrow> ('s, 'x, 'f, 'n) va_pipeline
      \<Rightarrow> ('s, 'x, 'f, 'n, unit dreamzero_config_ext) chunk_kind" where
  "dreamzero_kind build ops =
     \<lparr>ck_model_name = ''dreamzero-droid'', ck_build = build, ck_ops = ops,
      ck_space = (\<lambda>d. ''dreamzero_chunk_droid'')\<rparr>"

section \<open>Sequences of operations\<close>

datatype ('x, 'f, 'n) chunk_op =
    OpenSession string conditioning_input 'n
  | StepSession "'x world_state" "'f action" 'n
  | PlanSession "'x world_state" 'n
  | ReleaseSession "'x world_state"

datatype ('x, 'f) chunk_outcome =
    Opened "'x world_state"
  | Stepped "'x world_state" latent_step
  | Planned "'f action"
  | Released
  | Failed exn

fun op_sid :: "('x, 'f, 'n) chunk_op \<Rightarrow> string" where
  "op_sid (OpenSession sid c n) = sid"
| "op_sid (StepSession st a n) = ws_session_id st"
| "op_sid (PlanSession st n) = ws_session_id st"
| "op_sid (ReleaseSession st) = ws_session_id st"

fun outcome_of :: "('a \<Rightarrow> ('x, 'f) chunk_outcome) \<Rightarrow> exn + 'a \<Rightarrow> ('x, 'f) chunk_outcome" where
  "outcome_of g (Inl x) = Failed x"
| "outcome_of g (Inr y) = g y"

fun chunk_apply ::
    "('s, 'x, 'f, 'n, 'z) chunk_kind \<Rightarrow> ('x, 'f, 'n) chunk_op \<Rightarrow> ('s, 'f, 'z) chunk_engine
      \<Rightarrow> ('s, 'f, 'z) chunk_engine \<times> ('x, 'f) chunk_outcome" where
  "chunk_apply K (OpenSession sid c n) e = apsnd (outcome_of Opened) (chunk_reset K sid c n e)"
| "chunk_apply K (StepSession st a n) e =
     apsnd (outcome_of (\<lambda>(st', l). Stepped st' l)) (chunk_step K st a n e)"
| "chunk_apply K (PlanSession st n) e = apsnd (outcome_of Planned) (chunk_plan K st n e)"
| "chunk_apply K (ReleaseSession st) e = (chunk_release K st e, Released)"

text \<open>The engine after a sequence of calls, and the outcome of each beside its session.\<close>

fun chunk_run ::
    "('s, 'x, 'f, 'n, 'z) chunk_kind \<Rightarrow> ('x, 'f, 'n) chunk_op list \<Rightarrow> ('s, 'f, 'z) chunk_engine
      \<Rightarrow> ('s, 'f, 'z) chunk_engine \<times> (string \<times> ('x, 'f) chunk_outcome) list" where
  "chunk_run K [] e = (e, [])"
| "chunk_run K (op # ops) e =
     (let (e1, r) = chunk_apply K op e; (e2, rs) = chunk_run K ops e1
      in (e2, (op_sid op, r) # rs))"

section \<open>What the engine relies on\<close>

text \<open>\<open>view s sid\<close> is all that a call of a session reads; \<open>live\<close> tells whether the pipeline holds
  the session.\<close>

locale session_pipeline =
  fixes P :: "('s, 'x, 'f, 'n) va_pipeline"
    and view :: "'s \<Rightarrow> string \<Rightarrow> 'v"
    and live :: "'v \<Rightarrow> bool"
  assumes reset_other: "b \<noteq> a \<Longrightarrow> view (fst (vp_reset P s a p)) b = view s b"
    and encode_other: "b \<noteq> a \<Longrightarrow> view (fst (vp_encode P s a c n)) b = view s b"
    and infer_other: "b \<noteq> a \<Longrightarrow> view (fst (vp_infer P s a i x n)) b = view s b"
    and recondition_other: "b \<noteq> a \<Longrightarrow> view (fst (vp_recondition P s a f None i)) b = view s b"
    and close_other: "b \<noteq> a \<Longrightarrow> view (vp_close P s a) b = view s b"
    and reset_own: "view s a = view t a \<Longrightarrow> snd (vp_reset P s a p) = snd (vp_reset P t a p)
      \<and> view (fst (vp_reset P s a p)) a = view (fst (vp_reset P t a p)) a"
    and encode_own: "view s a = view t a \<Longrightarrow> snd (vp_encode P s a c n) = snd (vp_encode P t a c n)
      \<and> view (fst (vp_encode P s a c n)) a = view (fst (vp_encode P t a c n)) a"
    and infer_own: "view s a = view t a \<Longrightarrow> snd (vp_infer P s a i x n) = snd (vp_infer P t a i x n)
      \<and> view (fst (vp_infer P s a i x n)) a = view (fst (vp_infer P t a i x n)) a"
    and recondition_own: "view s a = view t a \<Longrightarrow>
      snd (vp_recondition P s a f None i) = snd (vp_recondition P t a f None i)
      \<and> view (fst (vp_recondition P s a f None i)) a = view (fst (vp_recondition P t a f None i)) a"
    and close_own: "view s a = view t a \<Longrightarrow> view (vp_close P s a) a = view (vp_close P t a) a"
    and close_dead: "\<not> live (view (vp_close P s a) a)"
    and reset_live: "vp_reset P s a p = (t, Inr u) \<Longrightarrow> live (view t a)"
    and encode_live: "live (view (fst (vp_encode P s a c n)) a) \<longleftrightarrow> live (view s a)"
    and infer_live: "live (view (fst (vp_infer P s a i x n)) a) \<longleftrightarrow> live (view s a)"
    and recondition_live: "live (view (fst (vp_recondition P s a f None i)) a) \<longleftrightarrow> live (view s a)"

definition same_session ::
    "('s \<Rightarrow> string \<Rightarrow> 'v) \<Rightarrow> string \<Rightarrow> ('s, 'f, 'z) chunk_engine \<Rightarrow> ('s, 'f, 'z) chunk_engine \<Rightarrow> bool" where
  "same_session view a e e' \<longleftrightarrow>
     ce_config e = ce_config e' \<and> map_of (ce_sessions e) a = map_of (ce_sessions e') a \<and>
     (\<exists>s t. ce_pipeline e = Some s \<and> ce_pipeline e' = Some t \<and> view s a = view t a)"

text \<open>Every session the engine knows is one the pipeline knows.\<close>

definition backed :: "('s \<Rightarrow> string \<Rightarrow> bool) \<Rightarrow> ('s, 'f, 'z) chunk_engine \<Rightarrow> bool" where
  "backed holds e \<longleftrightarrow> (\<forall>a. map_of (ce_sessions e) a \<noteq> None \<longrightarrow>
     (case ce_pipeline e of None \<Rightarrow> False | Some s \<Rightarrow> holds s a))"

lemma backedD:
  "backed holds e \<Longrightarrow> map_of (ce_sessions e) a \<noteq> None \<Longrightarrow> \<exists>t. ce_pipeline e = Some t \<and> holds t a"
  by (cases "ce_pipeline e") (simp_all add: backed_def)

lemma same_session_refl: "ce_pipeline e = Some s \<Longrightarrow> same_session view a e e"
  by (simp add: same_session_def)

lemma same_session_trans:
  "same_session view a e1 e2 \<Longrightarrow> same_session view a e2 e3 \<Longrightarrow> same_session view a e1 e3"
  by (auto simp: same_session_def)

lemmas chunk_op_defs = chunk_reset_def chunk_step_def chunk_plan_def chunk_release_def chunk_load_def

context session_pipeline
begin

lemma reset_pair:
  "vp_reset P s b p = (t, r) \<Longrightarrow> a \<noteq> b \<Longrightarrow> view t a = view s a"
  using reset_other [of a b s p] by simp

lemma encode_pair:
  "vp_encode P s b c n = (t, r) \<Longrightarrow> a \<noteq> b \<Longrightarrow> view t a = view s a"
  using encode_other [of a b s c n] by simp

lemma infer_pair:
  "vp_infer P s b i x n = (t, r) \<Longrightarrow> a \<noteq> b \<Longrightarrow> view t a = view s a"
  using infer_other [of a b s i x n] by simp

lemma recondition_pair:
  "vp_recondition P s b f None i = (t, r) \<Longrightarrow> a \<noteq> b \<Longrightarrow> view t a = view s a"
  using recondition_other [of a b s f i] by simp

lemmas other_pairs = reset_pair encode_pair infer_pair recondition_pair

lemma apply_other:
  assumes K: "ck_ops K = P" and e: "ce_pipeline e = Some s" and a: "op_sid x \<noteq> a"
  shows "same_session view a e (fst (chunk_apply K x e))"
proof (cases x)
  case (OpenSession b c n)
  with assms show ?thesis
    by (auto simp: chunk_op_defs same_session_def map_of_AList_update other_pairs
        split: prod.split sum.split)
next
  case (StepSession st f n)
  with assms show ?thesis
    by (auto simp: chunk_op_defs same_session_def map_of_AList_update Let_def other_pairs
        split: prod.split sum.split)
next
  case (PlanSession st n)
  with assms show ?thesis
    by (auto simp: chunk_op_defs same_session_def map_of_AList_update Let_def other_pairs
        split: prod.split sum.split option.split)
next
  case (ReleaseSession st)
  with assms show ?thesis
    by (auto simp: chunk_op_defs same_session_def map_of_AList_delete close_other)
qed

lemma reset_agree:
  assumes "view s a = view t a"
  obtains s1 t1 r where "vp_reset P s a p = (s1, r)" "vp_reset P t a p = (t1, r)" "view s1 a = view t1 a"
  using reset_own [OF assms, of p] by (metis prod.collapse)

lemma encode_agree:
  assumes "view s a = view t a"
  obtains s1 t1 r where "vp_encode P s a c n = (s1, r)" "vp_encode P t a c n = (t1, r)" "view s1 a = view t1 a"
  using encode_own [OF assms, of c n] by (metis prod.collapse)

lemma infer_agree:
  assumes "view s a = view t a"
  obtains s1 t1 r where "vp_infer P s a i x n = (s1, r)" "vp_infer P t a i x n = (t1, r)" "view s1 a = view t1 a"
  using infer_own [OF assms, of i x n] by (metis prod.collapse)

lemma recondition_agree:
  assumes "view s a = view t a"
  obtains s1 t1 r where "vp_recondition P s a f None i = (s1, r)"
    "vp_recondition P t a f None i = (t1, r)" "view s1 a = view t1 a"
  using recondition_own [OF assms, of f i] by (metis prod.collapse)

lemma open_own:
  assumes K: "ck_ops K = P" and e: "same_session view a e e'"
  shows "same_session view a (fst (chunk_reset K a c n e)) (fst (chunk_reset K a c n e'))
    \<and> snd (chunk_reset K a c n e) = snd (chunk_reset K a c n e')"
proof -
  from e obtain s t where st: "ce_pipeline e = Some s" "ce_pipeline e' = Some t" "view s a = view t a"
      "ce_config e' = ce_config e" "map_of (ce_sessions e') a = map_of (ce_sessions e) a"
    by (auto simp: same_session_def)
  obtain s1 t1 r where r: "vp_reset P s a (cc_prompt (ce_config e)) = (s1, r)"
      "vp_reset P t a (cc_prompt (ce_config e)) = (t1, r)" "view s1 a = view t1 a"
    using reset_agree [OF st(3)] by blast
  obtain s2 t2 z where z: "vp_encode P s1 a c n = (s2, z)" "vp_encode P t1 a c n = (t2, z)"
      "view s2 a = view t2 a"
    using encode_agree [OF r(3)] by blast
  show ?thesis using st r z K
    by (cases r; cases z) (simp_all add: chunk_op_defs same_session_def map_of_AList_update)
qed

lemma step_own:
  assumes K: "ck_ops K = P" and e: "same_session view a e e'" and a: "ws_session_id st = a"
  shows "same_session view a (fst (chunk_step K st f n e)) (fst (chunk_step K st f n e'))
    \<and> snd (chunk_step K st f n e) = snd (chunk_step K st f n e')"
proof -
  from e obtain s t where st: "ce_pipeline e = Some s" "ce_pipeline e' = Some t" "view s a = view t a"
      "ce_config e' = ce_config e" "map_of (ce_sessions e') a = map_of (ce_sessions e) a"
    by (auto simp: same_session_def)
  show ?thesis
  proof (cases "map_of (ce_sessions e) a")
    case None
    with st a show ?thesis by (simp add: chunk_op_defs session_for_def same_session_def)
  next
    case (Some x)
    show ?thesis
    proof (cases "parse_action_chunk (ce_config e) f")
      case (Inl y)
      with st a Some show ?thesis by (simp add: chunk_op_defs session_for_def same_session_def)
    next
      case (Inr acts)
      obtain s1 t1 r where r: "vp_recondition P s a acts None (frame_clock x) = (s1, r)"
          "vp_recondition P t a acts None (frame_clock x) = (t1, r)" "view s1 a = view t1 a"
        using recondition_agree [OF st(3)] by blast
      obtain s2 t2 z where z: "vp_infer P s1 a (frame_clock x + projr r) None n = (s2, z)"
          "vp_infer P t1 a (frame_clock x + projr r) None n = (t2, z)" "view s2 a = view t2 a"
        using infer_agree [OF r(3)] by blast
      show ?thesis using st r z K Some Inr a
        by (cases r; cases z) (auto simp: chunk_op_defs session_for_def same_session_def
            map_of_AList_update Let_def split: prod.split)
    qed
  qed
qed

lemma plan_own:
  assumes K: "ck_ops K = P" and e: "same_session view a e e'" and a: "ws_session_id st = a"
  shows "same_session view a (fst (chunk_plan K st n e)) (fst (chunk_plan K st n e'))
    \<and> snd (chunk_plan K st n e) = snd (chunk_plan K st n e')"
proof -
  from e obtain s t where st: "ce_pipeline e = Some s" "ce_pipeline e' = Some t" "view s a = view t a"
      "ce_config e' = ce_config e" "map_of (ce_sessions e') a = map_of (ce_sessions e) a"
    by (auto simp: same_session_def)
  show ?thesis
  proof (cases "map_of (ce_sessions e) a")
    case None
    with st a show ?thesis by (simp add: chunk_op_defs session_for_def same_session_def)
  next
    case (Some x)
    obtain s2 t2 z where z: "vp_infer P s a (frame_clock x) (Some (ws_context st)) n = (s2, z)"
        "vp_infer P t a (frame_clock x) (Some (ws_context st)) n = (t2, z)" "view s2 a = view t2 a"
      using infer_agree [OF st(3)] by blast
    show ?thesis using st z K Some a
      by (cases z) (auto simp: chunk_op_defs session_for_def same_session_def map_of_AList_update
          Let_def split: prod.split option.split)
  qed
qed

lemma apply_own:
  assumes K: "ck_ops K = P" and e: "same_session view a e e'" and a: "op_sid x = a"
  shows "same_session view a (fst (chunk_apply K x e)) (fst (chunk_apply K x e'))
    \<and> snd (chunk_apply K x e) = snd (chunk_apply K x e')"
proof (cases x)
  case (ReleaseSession st)
  with e a K show ?thesis
    by (auto simp: chunk_release_def same_session_def map_of_AList_delete intro: close_own [unfolded K [symmetric]])
qed (use a open_own [OF K e] step_own [OF K e] plan_own [OF K e] in auto)

text \<open>Unwinding: the calls of one session, alone, give that session the same answers.\<close>

lemma run_alone:
  assumes K: "ck_ops K = P"
  shows "same_session view a e e' \<Longrightarrow>
    filter (\<lambda>(b, _). b = a) (snd (chunk_run K xs e))
      = snd (chunk_run K (filter (\<lambda>x. op_sid x = a) xs) e')"
proof (induction xs arbitrary: e e')
  case (Cons x xs)
  obtain s where s: "ce_pipeline e = Some s" using Cons.prems by (auto simp: same_session_def)
  show ?case
  proof (cases "op_sid x = a")
    case True
    note own = apply_own [OF K Cons.prems True]
    show ?thesis using Cons.IH [of "fst (chunk_apply K x e)" "fst (chunk_apply K x e')"] own True
      by (simp add: split_beta)
  next
    case False
    have "same_session view a (fst (chunk_apply K x e)) e"
      using apply_other [OF K s False] by (auto simp: same_session_def)
    from Cons.IH [OF same_session_trans [OF this Cons.prems]] False show ?thesis
      by (simp add: split_beta)
  qed
qed simp

lemma run_isolated:
  assumes "ck_ops K = P" "ce_pipeline e = Some s"
  shows "filter (\<lambda>(b, _). b = a) (snd (chunk_run K xs e))
      = snd (chunk_run K (filter (\<lambda>x. op_sid x = a) xs) e)"
  by (rule run_alone [OF assms(1) same_session_refl [OF assms(2)]])

lemma encode_pair_live: "vp_encode P s a c n = (t, r) \<Longrightarrow> live (view s a) \<Longrightarrow> live (view t a)"
  using encode_live [of s a c n] by simp

lemma infer_pair_live: "vp_infer P s a i x n = (t, r) \<Longrightarrow> live (view s a) \<Longrightarrow> live (view t a)"
  using infer_live [of s a i x n] by simp

lemma recondition_pair_live:
  "vp_recondition P s a f None i = (t, r) \<Longrightarrow> live (view s a) \<Longrightarrow> live (view t a)"
  using recondition_live [of s a f i] by simp

lemmas own_live = reset_live encode_pair_live infer_pair_live recondition_pair_live

text \<open>A session the engine knows after a call was known, or opened by it; both ways the pipeline
  knows it.\<close>

lemma apply_backed_own:
  assumes K: "ck_ops K = P" and e: "ce_pipeline e = Some s"
    and known: "map_of (ce_sessions e) (op_sid x) \<noteq> None \<longrightarrow> live (view s (op_sid x))"
    and fresh: "\<forall>sid c n. x = OpenSession sid c n \<longrightarrow> map_of (ce_sessions e) sid = None"
    and after: "map_of (ce_sessions (fst (chunk_apply K x e))) (op_sid x) \<noteq> None"
  shows "\<exists>t. ce_pipeline (fst (chunk_apply K x e)) = Some t \<and> live (view t (op_sid x))"
proof (cases x)
  case (OpenSession a c n)
  from e fresh after show ?thesis unfolding OpenSession
    by (auto simp: chunk_op_defs K map_of_AList_update split: prod.splits sum.splits dest: own_live)
next
  case (StepSession st f n)
  from e known after show ?thesis unfolding StepSession
    by (auto simp: chunk_op_defs K map_of_AList_update session_for_def Let_def
        split: prod.splits sum.splits option.splits dest: own_live)
next
  case (PlanSession st n)
  from e known after show ?thesis unfolding PlanSession
    by (auto simp: chunk_op_defs K map_of_AList_update session_for_def Let_def
        split: prod.splits sum.splits option.splits dest: own_live)
next
  case (ReleaseSession st)
  with e after show ?thesis by (simp add: chunk_release_def map_of_AList_delete)
qed

lemma apply_loaded: "ce_pipeline e = Some s \<Longrightarrow> ck_ops K = P \<Longrightarrow> \<exists>t. ce_pipeline (fst (chunk_apply K x e)) = Some t"
  using apply_other [of K e s x "CHR ''x'' # op_sid x"] unfolding same_session_def
  by (metis not_Cons_self2)

lemma apply_backed:
  assumes K: "ck_ops K = P" and e: "ce_pipeline e = Some s" and b: "backed (\<lambda>s a. live (view s a)) e"
    and fresh: "\<forall>sid c n. x = OpenSession sid c n \<longrightarrow> map_of (ce_sessions e) sid = None"
  shows "backed (\<lambda>s a. live (view s a)) (fst (chunk_apply K x e))"
  unfolding backed_def
proof (intro allI impI)
  fix a assume after: "map_of (ce_sessions (fst (chunk_apply K x e))) a \<noteq> None"
  have known: "map_of (ce_sessions e) a' \<noteq> None \<longrightarrow> live (view s a')" for a'
    using b e unfolding backed_def by simp
  show "case ce_pipeline (fst (chunk_apply K x e)) of None \<Rightarrow> False | Some t \<Rightarrow> live (view t a)"
  proof (cases "op_sid x = a")
    case True
    then show ?thesis using apply_backed_own [OF K e known fresh] after by auto
  next
    case False
    show ?thesis using apply_other [OF K e False] after known [of a] e by (auto simp: same_session_def)
  qed
qed

text \<open>A session whose seed observation fails stays in the pipeline and is unknown to the engine.\<close>

lemma failed_seed_stays:
  assumes K: "ck_ops K = P" and e: "ce_pipeline e = Some s" "map_of (ce_sessions e) a = None"
    and r: "vp_reset P s a (cc_prompt (ce_config e)) = (t, Inr u)" and z: "snd (vp_encode P t a c n) = Inl x"
  shows "snd (chunk_reset K a c n e) = Inl x \<and> map_of (ce_sessions (fst (chunk_reset K a c n e))) a = None
    \<and> (\<exists>t'. ce_pipeline (fst (chunk_reset K a c n e)) = Some t' \<and> live (view t' a))"
proof -
  obtain t' where t': "vp_encode P t a c n = (t', Inl x)" using z by (metis prod.collapse)
  from encode_pair_live [OF t' reset_live [OF r]] t' show ?thesis using e r
    by (simp add: chunk_op_defs K)
qed

lemma released_gone:
  assumes "ck_ops K = P"
  shows "map_of (ce_sessions (chunk_release K st e)) (ws_session_id st) = None
    \<and> (\<forall>t. ce_pipeline (chunk_release K st e) = Some t \<longrightarrow> \<not> live (view t (ws_session_id st)))"
  unfolding chunk_release_def assms by (auto simp: map_of_AList_delete close_dead)

end

text \<open>The identifiers of the sessions a sequence opens, in order.\<close>

fun opened :: "('x, 'f, 'n) chunk_op list \<Rightarrow> string list" where
  "opened [] = []"
| "opened (OpenSession sid c n # xs) = sid # opened xs"
| "opened (_ # xs) = opened xs"

text \<open>Only opening a session adds it to the engine's table.\<close>

lemma apply_sessions:
  assumes "map_of (ce_sessions (fst (chunk_apply K x e))) a \<noteq> None"
  shows "map_of (ce_sessions e) a \<noteq> None \<or> a \<in> set (opened [x])"
proof (cases x)
  case (OpenSession b c n)
  with assms show ?thesis
    by (auto simp: chunk_op_defs map_of_AList_update split: prod.splits sum.splits option.splits if_splits)
next
  case (StepSession st f n)
  with assms show ?thesis
    by (auto simp: chunk_op_defs map_of_AList_update session_for_def Let_def
        split: prod.splits sum.splits option.splits if_splits)
next
  case (PlanSession st n)
  with assms show ?thesis
    by (auto simp: chunk_op_defs map_of_AList_update session_for_def Let_def
        split: prod.splits sum.splits option.splits if_splits)
next
  case (ReleaseSession st)
  with assms show ?thesis by (auto simp: chunk_op_defs map_of_AList_delete split: if_splits)
qed

context session_pipeline
begin

lemma run_backed:
  assumes K: "ck_ops K = P"
  shows "ce_pipeline e = Some s \<Longrightarrow> backed (\<lambda>s a. live (view s a)) e \<Longrightarrow> distinct (opened xs) \<Longrightarrow>
    \<forall>a \<in> set (opened xs). map_of (ce_sessions e) a = None \<Longrightarrow> backed (\<lambda>s a. live (view s a)) (fst (chunk_run K xs e))"
proof (induction xs arbitrary: e s)
  case (Cons x xs)
  let ?e = "fst (chunk_apply K x e)"
  have op: "opened (x # xs) = opened [x] @ opened xs" by (cases x) auto
  have "\<forall>sid c n. x = OpenSession sid c n \<longrightarrow> map_of (ce_sessions e) sid = None"
    using Cons.prems(4) by auto
  then have b: "backed (\<lambda>s a. live (view s a)) ?e" by (rule apply_backed [OF K Cons.prems(1,2)])
  obtain t where t: "ce_pipeline ?e = Some t" using apply_loaded [OF Cons.prems(1) K] by blast
  have "\<forall>a \<in> set (opened xs). map_of (ce_sessions ?e) a = None"
    using apply_sessions [of K x e] Cons.prems(3,4) unfolding op by fastforce
  with Cons.IH [OF t b] Cons.prems(3) op show ?case by (simp add: split_beta)
qed simp

end

section \<open>Properties\<close>

text \<open>planning is stable: a plan that answered parks what it proposed, so a second plan of the
  same session answers the same action and changes nothing, the pipeline included.\<close>

theorem plan_is_stable:
  assumes "chunk_plan K st n e = (e', Inr a)"
  shows "chunk_plan K st n' e' = (e', Inr a)"
  using assms
  by (auto simp: chunk_plan_def chunk_load_def session_for_def Let_def map_of_AList_update
      split: option.splits sum.splits prod.splits)

text \<open>an executed chunk is read row by row: the rows have the wire width and are the action's
  values in order, and a chunk of any other length is refused.\<close>

theorem action_chunks_are_validated:
  assumes "wire_action_dim c > 0"
  shows "case parse_action_chunk c a of
      Inr rows \<Rightarrow> concat rows = act_values a \<and> list_all (\<lambda>r. int (length r) = wire_action_dim c) rows
    | Inl x \<Rightarrow> \<not> wire_action_dim c dvd int (length (act_values a)) \<and> (\<exists>m. x = ValueError m)"
proof -
  let ?n = "nat (wire_action_dim c)" and ?xs = "act_values a"
  have rows: "list_all (\<lambda>r. length r = ?n) (chunks_of ?n ?xs)" if "?n dvd length ?xs"
  proof -
    obtain m where "length ?xs = m * ?n" using \<open>?n dvd length ?xs\<close> by (metis dvdE mult.commute)
    from chunks_append' [OF _ this, of "[]"] assms show ?thesis by (simp add: list_all_iff)
  qed
  have dvd: "?n dvd length ?xs \<longleftrightarrow> int (length ?xs) mod wire_action_dim c = 0"
    using assms by (metis dvd_eq_mod_eq_0 int_dvd_int_iff int_nat_eq less_imp_le)
  have "concat (chunks_of ?n ?xs) = ?xs" by (rule concat_chunks) (use assms in simp)
  moreover have "list_all (\<lambda>r. int (length r) = wire_action_dim c) (chunks_of ?n ?xs)"
    if "int (length ?xs) mod wire_action_dim c = 0"
    using rows dvd that assms by (auto simp: list_all_iff)
  ultimately show ?thesis using assms
    by (simp add: parse_action_chunk_def Let_def dvd_eq_mod_eq_0)
qed

section \<open>Witnesses\<close>

definition small_kind :: "(unit, unit, int, unit, unit lingbot_config_ext) chunk_kind" where
  "small_kind = lingbot_kind (\<lambda>c. Inr (c, ()))
     \<lparr>vp_reset = (\<lambda>_ _ _. ((), Inr ())), vp_encode = (\<lambda>_ _ _ _. ((), Inr ())),
      vp_infer = (\<lambda>_ _ _ _ _. ((), Inr ((), [[1], [2]]))), vp_recondition = (\<lambda>_ _ _ _ _. ((), Inr 1)),
      vp_close = (\<lambda>_ _. ())\<rparr>"

definition small_chunk_engine :: "(unit, int, unit lingbot_config_ext) chunk_engine" where
  "small_chunk_engine =
     \<lparr>ce_config = default_lingbot, ce_backend = ''cpu'', ce_pipeline = None,
      ce_sessions = [(''s'', \<lparr>frame_clock = 0, pending_actions = None\<rparr>)]\<rparr>"

theorem plan_is_stable_witness:
  "\<exists>e'. chunk_plan small_kind \<lparr>ws_context = (), ws_step_index = 0, ws_session_id = ''s''\<rparr> () small_chunk_engine
      = (e', Inr \<lparr>act_values = [1], act_space = ''lingbot_va_30d''\<rparr>)
    \<and> chunk_plan small_kind \<lparr>ws_context = (), ws_step_index = 0, ws_session_id = ''s''\<rparr> () e'
      = (e', Inr \<lparr>act_values = [1], act_space = ''lingbot_va_30d''\<rparr>)"
proof -
  let ?st = "\<lparr>ws_context = (), ws_step_index = 0, ws_session_id = ''s''\<rparr>"
  have "\<exists>e'. chunk_plan small_kind ?st () small_chunk_engine
      = (e', Inr \<lparr>act_values = [1], act_space = ''lingbot_va_30d''\<rparr>)"
    by (simp add: chunk_plan_def chunk_load_def session_for_def small_kind_def small_chunk_engine_def
        lingbot_kind_def default_lingbot_def first_action_def wire_action_dim_def)
      code_simp
  with plan_is_stable [of small_kind ?st "()" small_chunk_engine] show ?thesis by blast
qed

theorem action_chunks_are_validated_witness:
  "parse_action_chunk (default_lingbot\<lparr>cc_used_action_dim := Some 2\<rparr>) \<lparr>act_values = [1 :: int, 2, 3, 4], act_space = ''raw''\<rparr>
     = Inr [[1, 2], [3, 4]]
   \<and> list_all (\<lambda>r. int (length r) = 2) [[1 :: int, 2], [3, 4]]"
  using action_chunks_are_validated [of "default_lingbot\<lparr>cc_used_action_dim := Some 2\<rparr>"
      "\<lparr>act_values = [1 :: int, 2, 3, 4], act_space = ''raw''\<rparr>"]
  by (simp add: parse_action_chunk_def wire_action_dim_def Let_def)

end
