(* ===== verification/LingBotPipeline.thy ===== *)
theory LingBotPipeline
  imports ChunkEngine
begin

text \<open>
  The LingBot-VA pipeline (\<open>models/lingbot_va_pipeline.py\<close>): one resident transformer with a
  cache per session, the video and action denoise loops, the action normalisation and the
  latent layouts. What it imports (the research package \<open>wan_va\<close>, diffusers' scheduler, the text
  encoder, image decoding) are fields of \<open>va_lib\<close>. The transformer's caches are a map from names:
  \<open>cache_name\<close> selects the one a call reads and writes, and \<open>clear_cache\<close> drops it.

  A tensor is a nested list over its axes without the leading batch axis of one; its components
  are exact rationals, so casts between float types are the identity. The Gaussian draws of
  \<open>infer_chunk\<close> are an argument.
\<close>

section \<open>Tensors\<close>

text \<open>Video latents \<open>[channel][frame][row][column]\<close> and actions \<open>[channel][frame][substep]\<close>.\<close>

type_synonym latent = "rat list list list list"
type_synonym act3 = "rat list list list"

definition axis2 :: "'a list list \<Rightarrow> nat" where
  "axis2 x = (case x of [] \<Rightarrow> 0 | ch # _ \<Rightarrow> length ch)"

definition flatten_latent5d :: "latent \<Rightarrow> rat list list" where
  "flatten_latent5d x = map (\<lambda>i. concat (map (\<lambda>ch. concat (ch ! i)) x)) [0..<axis2 x]"

definition unflatten_latent :: "rat list list \<Rightarrow> nat \<Rightarrow> nat \<Rightarrow> nat \<Rightarrow> exn + latent" where
  "unflatten_latent flat c h w =
     (let s = concat flat; n = c * h * w
      in if n = 0 \<or> length s mod n \<noteq> 0 then Inl (RuntimeError ''shape is invalid for input'')
         else (let frames = map (\<lambda>fr. map (chunks_of w) (chunks_of (h * w) fr)) (chunks_of n s)
               in Inr (map (\<lambda>k. map (\<lambda>fr. fr ! k) frames) [0..<c])))"

section \<open>What the pipeline is built from\<close>

text \<open>The task entry of the research package's configuration module.\<close>

record va_task =
  tk_action_dim :: int
  tk_frame_chunk_size :: int
  tk_height :: int
  tk_width :: int
  tk_cams :: "string list"
  tk_patch :: "int \<times> int \<times> int"
  tk_q01 :: "rat list"
  tk_q99 :: "rat list"
  tk_used :: "nat list"

text \<open>The input dictionary of one transformer call; every entry has the batch axis.\<close>

record ('x, 't, 'g) net_input =
  in_noisy :: "'x list"
  in_timesteps :: "rat list list"
  in_grid :: "'g list"
  in_text :: "'t list"

type_synonym 't embed = "'t list"

text \<open>Fields of a call: the cache it names, its input, \<open>update_cache\<close>. A call in action mode has
  an action tensor as input, so the two modes are two fields.\<close>

record ('c, 't, 'g, 'q, 'w, 'i) va_lib =
  va_importable :: bool
  va_load :: "lingbot_config \<Rightarrow> exn + unit"
  va_task :: va_task
  empty_cache :: "int \<Rightarrow> int \<Rightarrow> int \<Rightarrow> int \<Rightarrow> 'c"
  clear_pred_cache :: "'c option \<Rightarrow> 'c option"
  forward_video :: "'c option \<Rightarrow> (latent, 't embed, 'g) net_input \<Rightarrow> nat \<Rightarrow> 'c option \<times> 'q"
  forward_action :: "'c option \<Rightarrow> (act3, 't embed, 'g) net_input \<Rightarrow> nat \<Rightarrow> 'c option \<times> 'q"
  data_seq_to_patch :: "'q \<Rightarrow> int \<Rightarrow> int \<Rightarrow> int \<Rightarrow> nat \<Rightarrow> latent list"
  seq_to_actions :: "'q \<Rightarrow> int \<Rightarrow> act3 list"
  get_mesh_id :: "int \<Rightarrow> int \<Rightarrow> int \<Rightarrow> int \<Rightarrow> int \<Rightarrow> int \<Rightarrow> bool \<Rightarrow> 'g"
  fm_timesteps :: "rat \<Rightarrow> int \<Rightarrow> rat list"
  fm_step_video :: "int \<Rightarrow> latent \<Rightarrow> rat \<Rightarrow> latent \<Rightarrow> latent"
  fm_step_action :: "int \<Rightarrow> act3 \<Rightarrow> rat \<Rightarrow> act3 \<Rightarrow> act3"
  text_tokens :: "string \<Rightarrow> int list \<times> int list"
  text_hidden :: "int list \<Rightarrow> int list \<Rightarrow> 't list"
  zero_hidden :: 't
  new_vae_wrap :: 'w
  encode_chunk :: "'w \<Rightarrow> latent list \<Rightarrow> 'w \<times> latent list"
  latents_mean :: "rat list"
  latents_std :: "rat list"
  open_image :: "string \<Rightarrow> exn + 'i"
  resize_rgb :: "int \<Rightarrow> int \<Rightarrow> 'i \<Rightarrow> rat list list list"

record ('t, 'w) va_session =
  vae_wrap :: 'w
  prompt_embeds :: "'t embed option"
  negative_embeds :: "'t embed option"
  use_cfg :: bool
  latent_hw :: "int \<times> int"
  init_latent :: "latent option"

record ('c, 't, 'w) va_state =
  va_caches :: "string \<Rightarrow> 'c option"
  latent_geom :: "(nat \<times> nat \<times> nat) option"
  va_sessions :: "(string, ('t, 'w) va_session) dict"

section \<open>Opening a session\<close>

definition task_config :: "va_task \<Rightarrow> lingbot_config \<Rightarrow> exn + lingbot_config" where
  "task_config task cfg =
     (if tk_action_dim task \<noteq> cc_action_dim cfg \<or> tk_frame_chunk_size task \<noteq> lb_frame_chunk_size cfg then
        Inl (ValueError (''LingBotVAConfig chunk geometry diverged from the reference task config: ''
          @ int_str (lb_frame_chunk_size cfg) @ ''x'' @ int_str (cc_action_dim cfg) @ '' vs ''
          @ int_str (tk_frame_chunk_size task) @ ''x'' @ int_str (tk_action_dim task)))
      else Inr (cfg\<lparr>cc_used_action_dim := Some (int (length (tk_used task)))\<rparr>))"

definition lingbot_build ::
    "('c, 't, 'g, 'q, 'w, 'i) va_lib \<Rightarrow> lingbot_config
      \<Rightarrow> exn + (lingbot_config \<times> ('c, 't, 'w) va_state)" where
  "lingbot_build L cfg =
     (if \<not> va_importable L then
        Inl (RuntimeError ''LingBot-VA pipeline needs the research repo importable as 'wan_va' '')
      else case va_load L cfg of
        Inl x \<Rightarrow> Inl x
      | Inr _ \<Rightarrow>
          (case task_config (va_task L) cfg of
             Inl x \<Rightarrow> Inl x
           | Inr cfg' \<Rightarrow> Inr (cfg', \<lparr>va_caches = (\<lambda>_. None), latent_geom = None, va_sessions = []\<rparr>)))"

text \<open>\<open>_embed\<close>: the hidden rows of the real tokens, padded with zero rows to 512.\<close>

definition embed_text :: "('c, 't, 'g, 'q, 'w, 'i) va_lib \<Rightarrow> string \<Rightarrow> 't embed" where
  "embed_text L s =
     (let (ids, mask) = text_tokens L s;
          seq_len = length (filter (\<lambda>m. m > 0) mask);
          hidden = take seq_len (text_hidden L ids mask)
      in hidden @ replicate (512 - length hidden) (zero_hidden L))"

definition encode_prompt :: "('c, 't, 'g, 'q, 'w, 'i) va_lib \<Rightarrow> string \<Rightarrow> bool \<Rightarrow> 't embed \<times> 't embed option" where
  "encode_prompt L prompt cfg = (embed_text L prompt, if cfg then Some (embed_text L []) else None)"

definition lb_reset ::
    "('c, 't, 'g, 'q, 'w, 'i) va_lib \<Rightarrow> lingbot_config \<Rightarrow> ('c, 't, 'w) va_state \<Rightarrow> string \<Rightarrow> string option
      \<Rightarrow> ('c, 't, 'w) va_state \<times> (exn + unit)" where
  "lb_reset L cfg s sid prompt =
     (let task = va_task L;
          cfg_on = (lb_guidance_scale cfg > 1 \<or> lb_action_guidance_scale cfg > 1);
          latent_h = tk_height task div 16;
          latent_w = tk_width task div 16 * int (length (tk_cams task));
          (p0, p1, p2) = tk_patch task;
          latent_tokens = (lb_frame_chunk_size cfg * latent_h * latent_w) div (p0 * p1 * p2);
          action_tokens = lb_frame_chunk_size cfg * lb_action_per_frame cfg;
          cache = empty_cache L (lb_attn_window cfg) latent_tokens action_tokens (if cfg_on then 2 else 1);
          (embeds, negative) =
            (case prompt of
               None \<Rightarrow> (None, None)
             | Some p \<Rightarrow> (let (e, n) = encode_prompt L p cfg_on in (Some e, n)))
      in (s\<lparr>va_caches := (va_caches s)(sid := Some cache),
            va_sessions := AList.update sid
              \<lparr>vae_wrap = new_vae_wrap L, prompt_embeds = embeds, negative_embeds = negative,
               use_cfg = cfg_on, latent_hw = (latent_h, latent_w), init_latent = None\<rparr> (va_sessions s)\<rparr>,
          Inr ()))"

definition path_join :: "string \<Rightarrow> string \<Rightarrow> string" where
  "path_join a b = (if a \<noteq> [] \<and> last a = CHR ''/'' then a @ b else a @ ''/'' @ b)"

text \<open>One frame per camera, scaled to \<open>[-1, 1]\<close>; the first camera that cannot be read raises.\<close>

fun load_cameras ::
    "('c, 't, 'g, 'q, 'w, 'i) va_lib \<Rightarrow> string \<Rightarrow> string list \<Rightarrow> exn + latent list" where
  "load_cameras L uri [] = Inr []"
| "load_cameras L uri (key # keys) =
     (case open_image L (path_join uri (key @ ''.png'')) of
        Inl x \<Rightarrow> Inl x
      | Inr img \<Rightarrow>
          (case load_cameras L uri keys of
             Inl x \<Rightarrow> Inl x
           | Inr vids \<Rightarrow>
               Inr (map (\<lambda>plane. [map (map (\<lambda>v. v / 255 * 2 - 1)) plane])
                      (resize_rgb L (tk_height (va_task L)) (tk_width (va_task L)) img) # vids)))"

text \<open>The mean half of the encoding, normalised per channel; then the cameras side by side.\<close>

definition normalize_mu :: "('c, 't, 'g, 'q, 'w, 'i) va_lib \<Rightarrow> latent \<Rightarrow> latent" where
  "normalize_mu L enc =
     (let mu = take ((length enc + 1) div 2) enc
      in map2 (\<lambda>(m, sd). map (map (map (\<lambda>v. (v - m) / sd)))) (zip (latents_mean L) (latents_std L)) mu)"

definition cat_width :: "latent list \<Rightarrow> latent" where
  "cat_width cams =
     (case cams of
        [] \<Rightarrow> []
      | first # _ \<Rightarrow>
          map (\<lambda>c. map (\<lambda>t. map (\<lambda>h. concat (map (\<lambda>cam. cam ! c ! t ! h) cams))
                 [0..<length (first ! c ! t)]) [0..<length (first ! c)]) [0..<length first])"

definition lb_encode_obs ::
    "('c, 't, 'g, 'q, 'w, 'i) va_lib \<Rightarrow> ('c, 't, 'w) va_state \<Rightarrow> string \<Rightarrow> conditioning_input
      \<Rightarrow> exn + ('w \<times> latent)" where
  "lb_encode_obs L s sid cond =
     (if ci_uri cond = None \<or> ci_uri cond = Some [] then
        Inl (ValueError ''LingBot-VA reset needs conditioning.uri = obs image directory'')
      else case map_of (va_sessions s) sid of
        None \<Rightarrow> Inl (KeyError sid)
      | Some session \<Rightarrow>
          (case load_cameras L (the (ci_uri cond)) (tk_cams (va_task L)) of
             Inl x \<Rightarrow> Inl x
           | Inr clip \<Rightarrow>
               (let (w, enc) = encode_chunk L (vae_wrap session) clip
                in Inr (w, cat_width (map (normalize_mu L) enc)))))"

definition lb_encode ::
    "('c, 't, 'g, 'q, 'w, 'i) va_lib \<Rightarrow> ('c, 't, 'w) va_state \<Rightarrow> string \<Rightarrow> conditioning_input
      \<Rightarrow> ('c, 't, 'w) va_state \<times> (exn + rat list list)" where
  "lb_encode L s sid cond =
     (case lb_encode_obs L s sid cond of
        Inl x \<Rightarrow> (s, Inl x)
      | Inr (w, latent5d) \<Rightarrow>
          (let session = the (map_of (va_sessions s) sid);
               row = (case latent5d of (fr # _) # _ \<Rightarrow> fr | _ \<Rightarrow> [])
           in (s\<lparr>latent_geom := Some (length latent5d, length row, axis2 row),
                 va_sessions := AList.update sid (session\<lparr>vae_wrap := w, init_latent := Some latent5d\<rparr>)
                   (va_sessions s)\<rparr>,
               Inr (flatten_latent5d latent5d))))"

section \<open>Predicting a chunk\<close>

text \<open>At frame 0 the first latent frame is the observed one.\<close>

definition clamp_first :: "int \<Rightarrow> latent option \<Rightarrow> latent \<Rightarrow> latent" where
  "clamp_first frame init x =
     (case init of
        Some z \<Rightarrow> if frame = 0 then map2 (\<lambda>zc ch. take 1 zc @ drop 1 ch) z x else x
      | None \<Rightarrow> x)"

definition zero_first :: "int \<Rightarrow> act3 \<Rightarrow> act3" where
  "zero_first frame a =
     (if frame = 0 then map (\<lambda>ch. map (map (\<lambda>_. 0)) (take 1 ch) @ drop 1 ch) a else a)"

text \<open>\<open>actions[:, ~action_mask] *= 0\<close>\<close>

definition mask_unused :: "nat list \<Rightarrow> act3 \<Rightarrow> act3" where
  "mask_unused used a =
     map (\<lambda>(c, ch). if c \<in> set used then ch else map (map (\<lambda>v. v * 0)) ch) (zip [0..<length a] a)"

definition timestep_row :: "rat \<Rightarrow> nat \<Rightarrow> bool \<Rightarrow> rat list" where
  "timestep_row t n first_zero =
     (if first_zero then replicate (min 1 n) (t * 0) @ replicate (n - 1) t else replicate n t)"

definition repeat_for_cfg ::
    "'x \<Rightarrow> rat list \<Rightarrow> 'g \<Rightarrow> 't embed \<Rightarrow> 't embed option \<Rightarrow> bool \<Rightarrow> ('x, 't embed, 'g) net_input" where
  "repeat_for_cfg x ts grid emb neg two =
     (if two then \<lparr>in_noisy = [x, x], in_timesteps = [ts, ts], in_grid = [grid, grid],
                   in_text = emb # (case neg of None \<Rightarrow> [] | Some n \<Rightarrow> [n])\<rparr>
      else \<lparr>in_noisy = [x], in_timesteps = [ts], in_grid = [grid], in_text = [emb]\<rparr>)"

definition grid_of :: "('c, 't, 'g, 'q, 'w, 'i) va_lib \<Rightarrow> latent \<Rightarrow> int \<Rightarrow> 'g" where
  "grid_of L x frame =
     (let (p0, p1, p2) = tk_patch (va_task L);
          plane = (case x of (fr # _) # _ \<Rightarrow> fr | _ \<Rightarrow> [])
      in get_mesh_id L (int (axis2 x) div p0) (int (length plane) div p1) (int (axis2 plane) div p2)
           0 1 frame False)"

definition action_grid_of :: "('c, 't, 'g, 'q, 'w, 'i) va_lib \<Rightarrow> act3 \<Rightarrow> int \<Rightarrow> 'g" where
  "action_grid_of L a frame =
     get_mesh_id L (int (axis2 a)) (int (case a of [] \<Rightarrow> 0 | ch # _ \<Rightarrow> axis2 ch)) 1 1 1 frame True"

definition video_input ::
    "('c, 't, 'g, 'q, 'w, 'i) va_lib \<Rightarrow> ('t, 'w) va_session \<Rightarrow> 't embed \<Rightarrow> int \<Rightarrow> latent \<Rightarrow> rat
      \<Rightarrow> (latent, 't embed, 'g) net_input" where
  "video_input L ses emb frame x t =
     repeat_for_cfg x (timestep_row t (axis2 x) (frame = 0 \<and> init_latent ses \<noteq> None))
       (grid_of L x frame) emb (negative_embeds ses) (use_cfg ses)"

definition action_input ::
    "('c, 't, 'g, 'q, 'w, 'i) va_lib \<Rightarrow> ('t, 'w) va_session \<Rightarrow> 't embed \<Rightarrow> int \<Rightarrow> act3 \<Rightarrow> rat
      \<Rightarrow> (act3, 't embed, 'g) net_input" where
  "action_input L ses emb frame a t =
     repeat_for_cfg a (timestep_row t (axis2 a) (frame = 0))
       (action_grid_of L a frame) emb (negative_embeds ses) (use_cfg ses)"

text \<open>Classifier-free guidance over a batch \<open>[conditional, unconditional]\<close>.\<close>

definition guide_video :: "rat \<Rightarrow> latent list \<Rightarrow> latent" where
  "guide_video g pred =
     (if g > 1 then map2 (map2 (map2 (map2 (\<lambda>c u. u + g * (c - u))))) (pred ! 0) (pred ! 1) else pred ! 0)"

definition guide_action :: "rat \<Rightarrow> act3 list \<Rightarrow> act3" where
  "guide_action g pred =
     (if g > 1 then map2 (map2 (map2 (\<lambda>c u. u + g * (c - u)))) (pred ! 0) (pred ! 1) else pred ! 0)"

text \<open>The video loop over the padded timesteps. Writing the observed frame into the input writes
  it into \<open>latents\<close>, the same tensor. The last pass fills the cache and does not step.\<close>

fun video_loop ::
    "('c, 't, 'g, 'q, 'w, 'i) va_lib \<Rightarrow> lingbot_config \<Rightarrow> ('t, 'w) va_session \<Rightarrow> 't embed \<Rightarrow> int
      \<Rightarrow> rat list \<Rightarrow> 'c option \<times> latent \<Rightarrow> 'c option \<times> latent" where
  "video_loop L cfg ses emb frame [] cx = cx"
| "video_loop L cfg ses emb frame (t # ts) (c, x) =
     (let x = clamp_first frame (init_latent ses) x;
          (c, pred) = forward_video L c (video_input L ses emb frame x t) (if ts = [] then 1 else 0);
          x = (if ts = [] then x
               else fm_step_video L (lb_num_inference_steps cfg)
                 (guide_video (lb_guidance_scale cfg)
                   (data_seq_to_patch L pred (lb_frame_chunk_size cfg) (fst (latent_hw ses))
                      (snd (latent_hw ses)) (if use_cfg ses then 2 else 1))) t x)
      in video_loop L cfg ses emb frame ts (c, clamp_first frame (init_latent ses) x))"

fun action_loop ::
    "('c, 't, 'g, 'q, 'w, 'i) va_lib \<Rightarrow> lingbot_config \<Rightarrow> ('t, 'w) va_session \<Rightarrow> 't embed \<Rightarrow> int
      \<Rightarrow> rat list \<Rightarrow> 'c option \<times> act3 \<Rightarrow> 'c option \<times> act3" where
  "action_loop L cfg ses emb frame [] ca = ca"
| "action_loop L cfg ses emb frame (t # ts) (c, a) =
     (let a = mask_unused (tk_used (va_task L)) (zero_first frame a);
          (c, pred) = forward_action L c (action_input L ses emb frame a t) (if ts = [] then 1 else 0);
          a = (if ts = [] then a
               else fm_step_action L (lb_action_num_inference_steps cfg)
                 (guide_action (lb_action_guidance_scale cfg)
                   (seq_to_actions L pred (lb_frame_chunk_size cfg))) t a)
      in action_loop L cfg ses emb frame ts (c, zero_first frame a))"

text \<open>\<open>(a + 1) / 2 * (q99 - q01 + 1e-6) + q01\<close> on the used channels, in executed order.\<close>

definition quantile_eps :: rat where
  "quantile_eps = 1 / 1000000"

definition denormalize_actions :: "va_task \<Rightarrow> act3 \<Rightarrow> rat list list" where
  "denormalize_actions task a =
     (let d = map2 (\<lambda>(lo, hi) ch. map (map (\<lambda>v. (v + 1) / 2 * (hi - lo + quantile_eps) + lo)) ch)
                (zip (tk_q01 task) (tk_q99 task)) a;
          u = map (\<lambda>c. d ! c) (tk_used task)
      in concat (map (\<lambda>f. map (\<lambda>n. map (\<lambda>ch. ch ! f ! n) u)
           [0..<(case u of [] \<Rightarrow> 0 | ch # _ \<Rightarrow> axis2 ch)]) [0..<axis2 u]))"

definition lb_infer ::
    "('c, 't, 'g, 'q, 'w, 'i) va_lib \<Rightarrow> lingbot_config \<Rightarrow> ('c, 't, 'w) va_state \<Rightarrow> string \<Rightarrow> int
      \<Rightarrow> latent \<times> act3 \<Rightarrow> ('c, 't, 'w) va_state \<times> (exn + (rat list list \<times> rat list list))" where
  "lb_infer L cfg s sid frame noise =
     (case map_of (va_sessions s) sid of
        None \<Rightarrow> (s, Inl (KeyError sid))
      | Some ses \<Rightarrow>
          (case prompt_embeds ses of
             None \<Rightarrow> (s, Inl (OtherException ''AttributeError: NoneType has no attribute to''))
           | Some emb \<Rightarrow>
               (let ts = fm_timesteps L 5 (lb_num_inference_steps cfg) @ [0];
                    ats = fm_timesteps L 1 (lb_action_num_inference_steps cfg) @ [0];
                    (c, latents) = video_loop L cfg ses emb frame ts (va_caches s sid, fst noise);
                    (c, actions) = action_loop L cfg ses emb frame ats (c, snd noise);
                    actions = mask_unused (tk_used (va_task L)) actions
                in (s\<lparr>va_caches := (va_caches s)(sid := c)\<rparr>,
                    Inr (flatten_latent5d latents, denormalize_actions (va_task L) actions)))))"

section \<open>Pushing what was executed\<close>

text \<open>\<open>full[..., used] = row\<close> on a row of zeros.\<close>

definition scatter :: "nat \<Rightarrow> nat list \<Rightarrow> rat list \<Rightarrow> rat list" where
  "scatter n used vals = fold (\<lambda>(c, v) xs. xs[c := v]) (zip used vals) (replicate n 0)"

definition normalize_row :: "va_task \<Rightarrow> rat list \<Rightarrow> rat list" where
  "normalize_row task row =
     map2 (\<lambda>c v. (v - tk_q01 task ! c) / (tk_q99 task ! c - tk_q01 task ! c + quantile_eps) * 2 - 1)
       (tk_used task) row"

text \<open>The executed rows, grouped into frames of \<open>action_per_frame\<close> substeps and scattered into the
  model's channels. A row of one component is broadcast over the used channels.\<close>

definition normalize_actions :: "va_task \<Rightarrow> lingbot_config \<Rightarrow> rat list list \<Rightarrow> exn + act3" where
  "normalize_actions task cfg rows =
     (let apf = lb_action_per_frame cfg in
      if apf = 0 then Inl (OtherException ''integer division or modulo by zero'')
      else let k = int (length rows) div apf; flat = concat rows; u = length (tk_used task)
      in if k \<le> 0 \<or> int (length flat) mod (k * apf) \<noteq> 0 then
           Inl (RuntimeError ''shape is invalid for input'')
         else let d = length flat div nat (k * apf)
         in if d \<noteq> u \<and> d \<noteq> 1 then
              Inl (RuntimeError ''The size of tensor a must match the size of tensor b'')
            else let grid = map (\<lambda>row. scatter (nat (cc_action_dim cfg)) (tk_used task)
                       (normalize_row task (if d = u then row else replicate u (hd row)))) (chunks_of d flat);
                     frames = chunks_of (nat apf) grid
                 in Inr (map (\<lambda>c. map (map (\<lambda>row. row ! c)) frames) [0..<nat (cc_action_dim cfg)]))"

definition observed_latent ::
    "('c, 't, 'w) va_state \<Rightarrow> ('t, 'w) va_session \<Rightarrow> rat list list option \<Rightarrow> int \<Rightarrow> exn + latent option" where
  "observed_latent s ses obs frame =
     (case (obs, latent_geom s) of
        (Some flat, Some (c, h, w)) \<Rightarrow>
          (case unflatten_latent flat c h w of Inl x \<Rightarrow> Inl x | Inr z \<Rightarrow> Inr (Some z))
      | _ \<Rightarrow> Inr (if frame = 0 then init_latent ses else None))"

definition lb_recondition ::
    "('c, 't, 'g, 'q, 'w, 'i) va_lib \<Rightarrow> lingbot_config \<Rightarrow> ('c, 't, 'w) va_state \<Rightarrow> string
      \<Rightarrow> rat list list \<Rightarrow> rat list list option \<Rightarrow> int \<Rightarrow> ('c, 't, 'w) va_state \<times> (exn + int)" where
  "lb_recondition L cfg s sid actions obs frame =
     (case map_of (va_sessions s) sid of
        None \<Rightarrow> (s, Inl (KeyError sid))
      | Some ses \<Rightarrow>
          (case observed_latent s ses obs frame of
             Inl x \<Rightarrow> (s, Inl x)
           | Inr None \<Rightarrow> (s, Inr (lb_frame_chunk_size cfg))
           | Inr (Some latent5d) \<Rightarrow>
               (let c = clear_pred_cache L (va_caches s sid);
                    s1 = s\<lparr>va_caches := (va_caches s)(sid := c)\<rparr>
                in case normalize_actions (va_task L) cfg actions of
                     Inl x \<Rightarrow> (s1, Inl x)
                   | Inr action5d \<Rightarrow>
                       (case prompt_embeds ses of
                          None \<Rightarrow> (s1, Inl (OtherException ''AttributeError: NoneType has no attribute to''))
                        | Some emb \<Rightarrow>
                            (let (c, _) = forward_video L c
                                   (repeat_for_cfg latent5d (replicate (axis2 latent5d) 0)
                                      (grid_of L latent5d frame) emb (negative_embeds ses) (use_cfg ses)) 2;
                                 (c, _) = forward_action L c
                                   (repeat_for_cfg action5d (replicate (axis2 action5d) 0)
                                      (action_grid_of L action5d frame) emb (negative_embeds ses) (use_cfg ses)) 2
                             in (s\<lparr>va_caches := (va_caches s)(sid := c)\<rparr>,
                                 Inr (int (axis2 latent5d))))))))"

definition lb_close :: "('c, 't, 'w) va_state \<Rightarrow> string \<Rightarrow> ('c, 't, 'w) va_state" where
  "lb_close s sid =
     s\<lparr>va_caches := (va_caches s)(sid := None), va_sessions := AList.delete sid (va_sessions s)\<rparr>"

text \<open>The pipeline as the engine sees it, and the engine on it. \<open>infer_chunk\<close> ignores the latent
  the engine passes; the seed encoding draws nothing.\<close>

definition lingbot_ops ::
    "('c, 't, 'g, 'q, 'w, 'i) va_lib \<Rightarrow> lingbot_config
      \<Rightarrow> (('c, 't, 'w) va_state, rat list list, rat, latent \<times> act3) va_pipeline" where
  "lingbot_ops L cfg =
     \<lparr>vp_reset = lb_reset L cfg, vp_encode = (\<lambda>s sid cond _. lb_encode L s sid cond),
      vp_infer = (\<lambda>s sid frame _ noise. lb_infer L cfg s sid frame noise),
      vp_recondition = lb_recondition L cfg, vp_close = lb_close\<rparr>"

definition lingbot_engine ::
    "('c, 't, 'g, 'q, 'w, 'i) va_lib \<Rightarrow> lingbot_config
      \<Rightarrow> (('c, 't, 'w) va_state, rat list list, rat, latent \<times> act3, unit lingbot_config_ext) chunk_kind" where
  "lingbot_engine L cfg = lingbot_kind (lingbot_build L) (lingbot_ops L cfg)"

section \<open>Sessions\<close>

definition va_view ::
    "('c, 't, 'w) va_state \<Rightarrow> string \<Rightarrow> (('t, 'w) va_session \<times> 'c option) option" where
  "va_view s sid = map_option (\<lambda>ses. (ses, va_caches s sid)) (map_of (va_sessions s) sid)"

lemma va_view_Some:
  "va_view s a = Some (ses, c) \<longleftrightarrow> map_of (va_sessions s) a = Some ses \<and> va_caches s a = c"
  by (auto simp: va_view_def)

lemma va_view_cases:
  assumes "va_view s a = va_view t a"
  obtains "map_of (va_sessions s) a = None" "map_of (va_sessions t) a = None"
    | ses where "map_of (va_sessions s) a = Some ses" "map_of (va_sessions t) a = Some ses"
      "va_caches s a = va_caches t a"
  using assms by (cases "map_of (va_sessions s) a"; cases "map_of (va_sessions t) a") (auto simp: va_view_def)

lemma observed_None [simp]:
  "observed_latent s ses None frame = Inr (if frame = 0 then init_latent ses else None)"
  by (simp add: observed_latent_def)

interpretation lb: session_pipeline "lingbot_ops L cfg" va_view "\<lambda>v. v \<noteq> None" for L cfg
proof (unfold_locales, goal_cases)
  case (1 b a s p)
  then show ?case by (simp add: lingbot_ops_def lb_reset_def va_view_def map_of_AList_update Let_def split: prod.split)
next
  case (2 b a s c n)
  then show ?case
    by (simp add: lingbot_ops_def lb_encode_def va_view_def map_of_AList_update Let_def split: sum.split prod.split)
next
  case (3 b a s i x n)
  then show ?case
    by (simp add: lingbot_ops_def lb_infer_def va_view_def Let_def split: option.split prod.split)
next
  case (4 b a s f i)
  then show ?case
    by (simp add: lingbot_ops_def lb_recondition_def va_view_def Let_def split: option.split prod.split sum.split)
next
  case (5 b a s)
  then show ?case by (simp add: lingbot_ops_def lb_close_def va_view_def map_of_AList_delete)
next
  case (6 s a t p)
  then show ?case
    by (simp add: lingbot_ops_def lb_reset_def va_view_def map_of_AList_update Let_def split: prod.split)
next
  case (7 s a t c n)
  then show ?case
    by (cases rule: va_view_cases)
      (simp_all add: lingbot_ops_def lb_encode_def lb_encode_obs_def va_view_def map_of_AList_update Let_def
        split: sum.split prod.split)
next
  case (8 s a t i x n)
  then show ?case
    by (cases rule: va_view_cases)
      (simp_all add: lingbot_ops_def lb_infer_def va_view_def Let_def split: option.split prod.split)
next
  case (9 s a t f i)
  then show ?case
    by (cases rule: va_view_cases)
      (simp_all add: lingbot_ops_def lb_recondition_def va_view_def Let_def split: option.split prod.split sum.split)
next
  case (10 s a t)
  then show ?case by (simp add: lingbot_ops_def lb_close_def va_view_def map_of_AList_delete)
next
  case (11 s a)
  then show ?case by (simp add: lingbot_ops_def lb_close_def va_view_def map_of_AList_delete)
next
  case (12 s a p t u)
  then show ?case
    by (auto simp: lingbot_ops_def lb_reset_def va_view_def map_of_AList_update Let_def split: prod.splits)
next
  case (13 s a c n)
  then show ?case
    by (auto simp: lingbot_ops_def lb_encode_def lb_encode_obs_def va_view_def map_of_AList_update Let_def
        split: sum.splits prod.splits option.splits if_splits)
next
  case (14 s a i x n)
  then show ?case
    by (simp add: lingbot_ops_def lb_infer_def va_view_def Let_def split: option.split prod.split)
next
  case (15 s a f i)
  then show ?case
    by (simp add: lingbot_ops_def lb_recondition_def va_view_def Let_def split: option.split prod.split sum.split)
qed

section \<open>Latent layouts\<close>

definition latent_shape :: "nat \<Rightarrow> nat \<Rightarrow> nat \<Rightarrow> nat \<Rightarrow> latent \<Rightarrow> bool" where
  "latent_shape c t h w x \<longleftrightarrow> length x = c \<and>
     list_all (\<lambda>ch. length ch = t \<and> list_all (\<lambda>fr. length fr = h \<and> list_all (\<lambda>row. length row = w) fr) ch) x"

lemma length_concat_const: "\<forall>x \<in> set xs. length x = n \<Longrightarrow> length (concat xs) = length xs * n"
  by (induction xs) auto

lemma chunks_map_concat:
  assumes "n > 0" "\<And>i. i \<in> set is \<Longrightarrow> length (f i) = n"
  shows "chunks_of n (concat (map f is)) = map f is"
  by (rule chunks_concat) (use assms in auto)

lemma map_nth_upt: "length xs = n \<Longrightarrow> map (\<lambda>i. xs ! i) [0..<n] = xs"
  using map_nth [of xs] by simp

lemma axis2_shape: "latent_shape c t h w x \<Longrightarrow> c > 0 \<Longrightarrow> axis2 x = t"
  by (cases x) (auto simp: latent_shape_def axis2_def)

lemma latent_frame:
  assumes "latent_shape c t h w x" "i < t" "ch \<in> set x"
  shows "length (ch ! i) = h" "\<forall>row \<in> set (ch ! i). length row = w" "length (concat (ch ! i)) = h * w"
proof -
  have "list_all (\<lambda>fr. length fr = h \<and> list_all (\<lambda>row. length row = w) fr) ch" "length ch = t"
    using assms by (auto simp: latent_shape_def list_all_iff)
  then show 1: "length (ch ! i) = h" and 2: "\<forall>row \<in> set (ch ! i). length row = w"
    using assms(2) by (auto simp: list_all_length in_set_conv_nth)
  show "length (concat (ch ! i)) = h * w" using length_concat_const [OF 2] 1 by simp
qed

lemma unflatten_flatten:
  assumes x: "latent_shape c t h w x" and pos: "c > 0" "h > 0" "w > 0"
  shows "unflatten_latent (flatten_latent5d x) c h w = Inr x"
proof -
  define row where "row = (\<lambda>i. concat (map (\<lambda>ch. concat (ch ! i)) x))"
  have lx: "length x = c" and t: "axis2 x = t" using x axis2_shape [OF x pos(1)] by (simp_all add: latent_shape_def)
  have len: "length (row i) = c * h * w" if "i < t" for i
    unfolding row_def
    using length_concat_const [of "map (\<lambda>ch. concat (ch ! i)) x" "h * w"] latent_frame(3) [OF x that] lx
    by simp
  have hw: "chunks_of (h * w) (row i) = map (\<lambda>ch. concat (ch ! i)) x" if "i < t" for i
    unfolding row_def by (rule chunks_map_concat) (use pos latent_frame(3) [OF x that] in auto)
  have w: "map (chunks_of w) (chunks_of (h * w) (row i)) = map (\<lambda>ch. ch ! i) x" if "i < t" for i
    unfolding hw [OF that] using chunks_concat [OF pos(3) latent_frame(2) [OF x that]] by simp
  have fl: "flatten_latent5d x = map row [0..<t]" by (simp add: flatten_latent5d_def row_def t)
  have n: "c * h * w > 0" using pos by simp
  have ch: "chunks_of (c * h * w) (concat (map row [0..<t])) = map row [0..<t]"
    by (rule chunks_map_concat [OF n]) (use len in auto)
  have md: "length (concat (map row [0..<t])) mod (c * h * w) = 0"
    using length_concat_const [of "map row [0..<t]" "c * h * w"] len by simp
  have frames: "map (\<lambda>fr. map (chunks_of w) (chunks_of (h * w) fr)) (map row [0..<t])
      = map (\<lambda>i. map (\<lambda>ch. ch ! i) x) [0..<t]"
    unfolding map_map o_def by (rule map_cong [OF refl]) (simp add: w)
  have ch_len: "length (x ! k) = t" if "k < c" for k
    using x that lx by (auto simp: latent_shape_def list_all_length)
  have "map (\<lambda>k. map (\<lambda>fr. fr ! k) (map (\<lambda>i. map (\<lambda>ch. ch ! i) x) [0..<t])) [0..<c] = map (\<lambda>k. x ! k) [0..<c]"
    by (rule map_cong [OF refl]) (simp add: o_def lx map_nth_upt [OF ch_len])
  also have "\<dots> = x" using lx by (simp add: map_nth_upt)
  finally show ?thesis using n md unfolding unflatten_latent_def Let_def fl ch frames by simp
qed

section \<open>Action layouts\<close>

definition act_shape :: "nat \<Rightarrow> nat \<Rightarrow> nat \<Rightarrow> act3 \<Rightarrow> bool" where
  "act_shape c k n a \<longleftrightarrow> length a = c \<and> list_all (\<lambda>ch. length ch = k \<and> list_all (\<lambda>fr. length fr = n) ch) a"

text \<open>The statistics cover every channel, and the used channels are distinct channels.\<close>

definition task_ok :: "va_task \<Rightarrow> bool" where
  "task_ok task \<longleftrightarrow>
     int (length (tk_q01 task)) = tk_action_dim task \<and> int (length (tk_q99 task)) = tk_action_dim task \<and>
     tk_used task \<noteq> [] \<and> distinct (tk_used task) \<and>
     list_all (\<lambda>c. int c < tk_action_dim task \<and> tk_q01 task ! c \<le> tk_q99 task ! c) (tk_used task)"

lemma act_nth: "act_shape c k n a \<Longrightarrow> i < c \<Longrightarrow> length (a ! i) = k"
  "act_shape c k n a \<Longrightarrow> i < c \<Longrightarrow> f < k \<Longrightarrow> length (a ! i ! f) = n"
  by (auto simp: act_shape_def list_all_length)

lemma act_ext:
  assumes "act_shape c k n a"
  shows "map (\<lambda>i. map (\<lambda>f. map (\<lambda>m. a ! i ! f ! m) [0..<n]) [0..<k]) [0..<c] = a"
proof -
  have "map (\<lambda>f. map (\<lambda>m. a ! i ! f ! m) [0..<n]) [0..<k] = a ! i" if i: "i < c" for i
  proof -
    have "map (\<lambda>f. map (\<lambda>m. a ! i ! f ! m) [0..<n]) [0..<k] = map (\<lambda>f. a ! i ! f) [0..<k]"
      by (rule map_cong [OF refl]) (simp add: map_nth_upt act_nth(2) [OF assms i])
    then show ?thesis by (simp add: map_nth_upt act_nth(1) [OF assms i])
  qed
  then have "map (\<lambda>i. map (\<lambda>f. map (\<lambda>m. a ! i ! f ! m) [0..<n]) [0..<k]) [0..<c] = map (\<lambda>i. a ! i) [0..<c]"
    by (intro map_cong [OF refl]) simp
  also have "\<dots> = a" by (rule map_nth_upt) (use assms in \<open>simp add: act_shape_def\<close>)
  finally show ?thesis .
qed

lemma scatter_fold:
  "distinct used \<Longrightarrow> \<forall>c \<in> set used. c < length xs \<Longrightarrow>
    fold (\<lambda>(c, v) ys. ys[c := v]) (zip used (map g used)) xs
      = map (\<lambda>c. if c \<in> set used then g c else xs ! c) [0..<length xs]"
proof (induction used arbitrary: xs)
  case (Cons c used)
  have "fold (\<lambda>(c, v) ys. ys[c := v]) (zip used (map g used)) (xs[c := g c])
      = map (\<lambda>i. if i \<in> set used then g i else xs[c := g c] ! i) [0..<length (xs[c := g c])]"
    by (rule Cons.IH) (use Cons.prems in auto)
  also have "\<dots> = map (\<lambda>i. if i \<in> set (c # used) then g i else xs ! i) [0..<length xs]"
    using Cons.prems by (auto simp: nth_list_update)
  finally show ?case by simp
qed (simp add: map_nth)

lemma scatter_used:
  "distinct used \<Longrightarrow> \<forall>c \<in> set used. c < n \<Longrightarrow>
    scatter n used (map g used) = map (\<lambda>c. if c \<in> set used then g c else 0) [0..<n]"
  using scatter_fold [of used "replicate n 0" g] by (simp add: scatter_def cong: if_cong)

text \<open>One executed row, and what normalising it gives back.\<close>

definition executed_row :: "va_task \<Rightarrow> act3 \<Rightarrow> nat \<Rightarrow> nat \<Rightarrow> rat list" where
  "executed_row task a f m =
     map (\<lambda>c. (a ! c ! f ! m + 1) / 2 * (tk_q99 task ! c - tk_q01 task ! c + quantile_eps) + tk_q01 task ! c)
       (tk_used task)"

lemma denormalize_rows:
  assumes t: "task_ok task" and a: "act_shape (nat (tk_action_dim task)) k n a"
  shows "denormalize_actions task a
    = concat (map (\<lambda>f. map (executed_row task a f) [0..<n]) [0..<k])"
proof -
  let ?C = "nat (tk_action_dim task)"
  define d where "d = map2 (\<lambda>(lo, hi) ch. map (map (\<lambda>v. (v + 1) / 2 * (hi - lo + quantile_eps) + lo)) ch)
      (zip (tk_q01 task) (tk_q99 task)) a"
  define u where "u = map (\<lambda>c. d ! c) (tk_used task)"
  have C: "length (tk_q01 task) = ?C" "length (tk_q99 task) = ?C" "length a = ?C"
    using t a by (auto simp: task_ok_def act_shape_def)
  have used: "c < ?C" if "c \<in> set (tk_used task)" for c
    using t that by (auto simp: task_ok_def list_all_iff)
  have d: "d ! c = map (map (\<lambda>v. (v + 1) / 2 * (tk_q99 task ! c - tk_q01 task ! c + quantile_eps) + tk_q01 task ! c)) (a ! c)"
    if "c < ?C" for c using that C by (simp add: d_def)
  obtain c0 cs where c0: "tk_used task = c0 # cs" using t by (cases "tk_used task") (auto simp: task_ok_def)
  have k: "axis2 u = k" using c0 used [of c0] d act_nth(1) [OF a] by (simp add: u_def axis2_def)
  have row: "map (\<lambda>ch. ch ! f ! m) u = executed_row task a f m" if "f < k" "m < n" for f m
    unfolding u_def executed_row_def map_map o_def
    by (rule map_cong [OF refl]) (use that used d act_nth [OF a] in simp)
  have n: "f < k \<Longrightarrow> (case u of [] \<Rightarrow> 0 | ch # _ \<Rightarrow> axis2 ch) = n" for f
    using c0 used [of c0] d act_nth [OF a] by (cases "a ! c0") (force simp: u_def axis2_def)+
  have "map (\<lambda>f. map (\<lambda>m. map (\<lambda>ch. ch ! f ! m) u) [0..<(case u of [] \<Rightarrow> 0 | ch # _ \<Rightarrow> axis2 ch)]) [0..<axis2 u]
      = map (\<lambda>f. map (executed_row task a f) [0..<n]) [0..<k]"
    unfolding k by (rule map_cong [OF refl]) (use n row in simp)
  then show ?thesis unfolding denormalize_actions_def Let_def d_def [symmetric] u_def [symmetric] by simp
qed

lemma normalize_executed_row:
  assumes t: "task_ok task" and unused: "mask_unused (tk_used task) a = a"
    and a: "act_shape (nat (tk_action_dim task)) k n a" and f: "f < k" "m < n"
  shows "scatter (nat (tk_action_dim task)) (tk_used task) (normalize_row task (executed_row task a f m))
    = map (\<lambda>c. a ! c ! f ! m) [0..<nat (tk_action_dim task)]"
proof -
  let ?C = "nat (tk_action_dim task)"
  have used: "c < ?C" "tk_q99 task ! c - tk_q01 task ! c + quantile_eps > 0" if "c \<in> set (tk_used task)" for c
    using t that by (auto simp: task_ok_def list_all_iff quantile_eps_def intro: add_nonneg_pos)
  have "normalize_row task (executed_row task a f m) = map (\<lambda>c. a ! c ! f ! m) (tk_used task)"
    unfolding normalize_row_def executed_row_def zip_map2 zip_same_conv_map map_map o_def case_prod_conv id_def
    by (rule map_cong [OF refl]) (use used(2) in \<open>force simp: field_simps\<close>)
  moreover have "distinct (tk_used task)" using t by (simp add: task_ok_def)
  ultimately have "scatter ?C (tk_used task) (normalize_row task (executed_row task a f m))
      = map (\<lambda>c. if c \<in> set (tk_used task) then a ! c ! f ! m else 0) [0..<?C]"
    using scatter_used [of "tk_used task" ?C] used(1) by simp
  also have "\<dots> = map (\<lambda>c. a ! c ! f ! m) [0..<?C]"
  proof (rule map_cong [OF refl])
    fix c assume "c \<in> set [0..<?C]"
    then have c: "c < ?C" by simp
    have "a ! c = map (map (\<lambda>v. v * 0)) (a ! c)" if "c \<notin> set (tk_used task)"
      using arg_cong [OF unused, of "\<lambda>b. b ! c"] c that a by (simp add: mask_unused_def act_shape_def)
    then have "a ! c ! f ! m = a ! c ! f ! m * 0" if "c \<notin> set (tk_used task)"
      using that f act_nth [OF a c] by (metis (no_types, lifting) nth_map)
    then show "(if c \<in> set (tk_used task) then a ! c ! f ! m else 0) = a ! c ! f ! m" by auto
  qed
  finally show ?thesis .
qed

lemma normalize_denormalize:
  assumes t: "task_ok task" and unused: "mask_unused (tk_used task) a = a"
    and a: "act_shape (nat (tk_action_dim task)) k n a"
    and cfg: "cc_action_dim cfg = tk_action_dim task" "lb_action_per_frame cfg = int n" "k > 0" "n > 0"
  shows "normalize_actions task cfg (denormalize_actions task a) = Inr a"
proof -
  let ?C = "nat (tk_action_dim task)" and ?u = "length (tk_used task)"
  define rows where "rows = concat (map (\<lambda>f. map (executed_row task a f) [0..<n]) [0..<k])"
  define full where "full = (\<lambda>f m. map (\<lambda>c. a ! c ! f ! m) [0..<?C])"
  have u: "?u > 0" using t by (auto simp: task_ok_def)
  have len: "length rows = k * n"
    unfolding rows_def using length_concat_const [of "map (\<lambda>f. map (executed_row task a f) [0..<n]) [0..<k]" n] by simp
  have "\<forall>row \<in> set rows. length row = ?u" by (auto simp: rows_def executed_row_def)
  then have flat: "length (concat rows) = k * n * ?u" "chunks_of ?u (concat rows) = rows"
    using length_concat_const [of rows ?u] len chunks_concat [OF u, of rows] by simp_all
  have rows_full: "map (\<lambda>row. scatter ?C (tk_used task) (normalize_row task row)) rows
      = concat (map (\<lambda>f. map (full f) [0..<n]) [0..<k])"
    unfolding rows_def map_concat map_map o_def full_def
    by (intro arg_cong [of _ _ concat] map_cong refl) (use normalize_executed_row [OF t unused a] in simp)
  have frames: "chunks_of n (concat (map (\<lambda>f. map (full f) [0..<n]) [0..<k])) = map (\<lambda>f. map (full f) [0..<n]) [0..<k]"
    by (rule chunks_map_concat) (use cfg in auto)
  have "map (\<lambda>c. map (map (\<lambda>row. row ! c)) (map (\<lambda>f. map (full f) [0..<n]) [0..<k])) [0..<?C]
      = map (\<lambda>c. map (\<lambda>f. map (\<lambda>m. a ! c ! f ! m) [0..<n]) [0..<k]) [0..<?C]"
    by (rule map_cong [OF refl]) (simp add: full_def o_def)
  then have restored: "map (\<lambda>c. map (map (\<lambda>row. row ! c)) (map (\<lambda>f. map (full f) [0..<n]) [0..<k])) [0..<?C] = a"
    using act_ext [OF a] by simp
  have arith: "int (length rows) div int n = int k" "nat (int k * int n) = k * n" "k * n * ?u div (k * n) = ?u"
    "int (k * n * ?u) mod (int k * int n) = 0"
    using cfg len by (simp_all add: nat_mult_distrib)
  have "normalize_actions task cfg rows
      = Inr (map (\<lambda>c. map (map (\<lambda>row. row ! c)) (chunks_of n (map (\<lambda>row. scatter ?C (tk_used task) (normalize_row task row)) rows))) [0..<?C])"
    unfolding normalize_actions_def Let_def cfg(1,2) arith(1) flat arith(2,3,4) using cfg(3,4) u by simp
  also have "\<dots> = Inr a" unfolding rows_full frames restored ..
  finally show ?thesis unfolding rows_def denormalize_rows [OF t a] .
qed

section \<open>What a chunk leaves in the cache\<close>

text \<open>A call with \<open>update_cache=0\<close> reads the cache.\<close>

definition reads_only :: "('c, 't, 'g, 'q, 'w, 'i) va_lib \<Rightarrow> bool" where
  "reads_only L \<longleftrightarrow> (\<forall>c i. fst (forward_video L c i 0) = c) \<and> (\<forall>c i. fst (forward_action L c i 0) = c)"

definition has_frame :: "latent option \<Rightarrow> bool" where
  "has_frame init \<longleftrightarrow> (case init of None \<Rightarrow> True | Some z \<Rightarrow> list_all (\<lambda>zc. zc \<noteq> []) z)"

lemma put_first_idem:
  "list_all (\<lambda>zc. zc \<noteq> []) z \<Longrightarrow>
    map2 (\<lambda>zc ch. take 1 zc @ drop 1 ch) z (map2 (\<lambda>zc ch. take 1 zc @ drop 1 ch) z x)
      = map2 (\<lambda>zc ch. take 1 zc @ drop 1 ch) z x"
proof (induction z arbitrary: x)
  case (Cons zc z)
  then show ?case by (cases x; cases zc) auto
qed simp

lemma clamp_idem: "has_frame init \<Longrightarrow> clamp_first frame init (clamp_first frame init x) = clamp_first frame init x"
  unfolding has_frame_def clamp_first_def using put_first_idem [of "the init" x]
  by (cases init) simp_all

definition prepared :: "nat list \<Rightarrow> int \<Rightarrow> act3 \<Rightarrow> act3" where
  "prepared used frame a = mask_unused used (zero_first frame a)"

lemma prepared_zero: "zero_first frame (prepared used frame a) = prepared used frame a"
proof (rule nth_equalityI)
  fix i assume "i < length (zero_first frame (prepared used frame a))"
  then have "i < length a" by (simp add: prepared_def mask_unused_def zero_first_def split: if_splits)
  then show "zero_first frame (prepared used frame a) ! i = prepared used frame a ! i"
    by (cases "a ! i") (simp_all add: prepared_def mask_unused_def zero_first_def)
qed (simp add: prepared_def mask_unused_def zero_first_def)

lemma mask_idem: "mask_unused used (mask_unused used a) = mask_unused used a"
  by (rule nth_equalityI) (simp_all add: mask_unused_def)

lemma prepared_mask: "mask_unused used (prepared used frame a) = prepared used frame a"
  by (simp add: prepared_def mask_idem)

lemma video_loop_caches:
  assumes "reads_only L" "has_frame (init_latent ses)"
  shows "\<exists>y. video_loop L cfg ses emb frame (ts @ [t]) (c, x)
      = (fst (forward_video L c (video_input L ses emb frame y t) 1), y)
    \<and> clamp_first frame (init_latent ses) y = y"
proof (induction ts arbitrary: x)
  case Nil
  let ?y = "clamp_first frame (init_latent ses) x"
  show ?case
    by (rule exI [of _ ?y]) (use clamp_idem [OF assms(2)] in \<open>simp add: split_beta Let_def\<close>)
next
  case (Cons u ts)
  have "fst (forward_video L c i 0) = c" for i using assms(1) by (simp add: reads_only_def)
  then show ?case using Cons.IH by (simp add: Let_def split_beta)
qed

lemma action_loop_caches:
  assumes "reads_only L"
  shows "\<exists>y. action_loop L cfg ses emb frame (ts @ [t]) (c, a)
      = (fst (forward_action L c (action_input L ses emb frame y t) 1), y)
    \<and> prepared (tk_used (va_task L)) frame y = y"
proof (induction ts arbitrary: a)
  case Nil
  let ?y = "prepared (tk_used (va_task L)) frame a"
  have "prepared (tk_used (va_task L)) frame ?y = ?y"
    using prepared_zero [of frame] prepared_mask by (metis prepared_def)
  then show ?case
    by (intro exI [of _ ?y]) (simp add: split_beta Let_def prepared_def [symmetric] prepared_zero)
next
  case (Cons u ts)
  have "fst (forward_action L c i 0) = c" for i using assms by (simp add: reads_only_def)
  then show ?case using Cons.IH by (simp add: Let_def split_beta)
qed

section \<open>The engine on the pipeline\<close>

lemma engine_ops [simp]: "ck_ops (lingbot_engine L cfg) = lingbot_ops L cfg"
  by (simp add: lingbot_engine_def lingbot_kind_def)

definition consumed_frames :: "lingbot_config \<Rightarrow> ('t, 'w) va_session \<Rightarrow> int \<Rightarrow> int" where
  "consumed_frames cfg ses frame =
     (case init_latent ses of
        Some z \<Rightarrow> if frame = 0 then int (axis2 z) else lb_frame_chunk_size cfg
      | None \<Rightarrow> lb_frame_chunk_size cfg)"

lemma recondition_consumes:
  assumes "map_of (va_sessions s) sid = Some ses" "lb_recondition L cfg s sid acts None frame = (t, Inr k)"
  shows "k = consumed_frames cfg ses frame \<and> va_sessions t = va_sessions s"
  using assms
  by (auto simp: lb_recondition_def consumed_frames_def Let_def
      split: option.splits if_splits prod.splits sum.splits)

lemma infer_keeps_sessions: "lb_infer L cfg s sid frame noise = (t, r) \<Longrightarrow> va_sessions t = va_sessions s"
  by (auto simp: lb_infer_def Let_def split: option.splits prod.splits)

lemma lingbot_step_clock:
  assumes step: "chunk_step (lingbot_engine L cfg) st a n e = (e', Inr r)"
    and e: "ce_pipeline e = Some s" "map_of (ce_sessions e) (ws_session_id st) = Some x"
    and ses: "map_of (va_sessions s) (ws_session_id st) = Some ses"
  shows "\<exists>t y. ce_pipeline e' = Some t \<and> map_of (va_sessions t) (ws_session_id st) = Some ses
    \<and> map_of (ce_sessions e') (ws_session_id st) = Some y
    \<and> frame_clock y = frame_clock x + consumed_frames cfg ses (frame_clock x)"
proof -
  from step e obtain acts s1 k s2 z where
    r: "lb_recondition L cfg s (ws_session_id st) acts None (frame_clock x) = (s1, Inr k)"
    and i: "lb_infer L cfg s1 (ws_session_id st) (frame_clock x + k) n = (s2, Inr z)"
    and e': "e' = e\<lparr>ce_pipeline := Some s2, ce_sessions := AList.update (ws_session_id st)
        (x\<lparr>frame_clock := frame_clock x + k, pending_actions := Some (snd z)\<rparr>) (ce_sessions e)\<rparr>"
    by (auto simp: chunk_step_def chunk_load_def session_for_def Let_def lingbot_ops_def
        split: sum.splits prod.splits)
  have "k = consumed_frames cfg ses (frame_clock x)" "va_sessions s2 = va_sessions s"
    using recondition_consumes [OF ses r] infer_keeps_sessions [OF i] by simp_all
  then show ?thesis using ses e' by (simp add: map_of_AList_update)
qed

fun steps_of :: "('x world_state \<times> 'f action \<times> 'n) list \<Rightarrow> ('x, 'f, 'n) chunk_op list" where
  "steps_of [] = []"
| "steps_of ((st, a, n) # xs) = StepSession st a n # steps_of xs"

definition succeeded :: "string \<times> ('x, 'f) chunk_outcome \<Rightarrow> bool" where
  "succeeded r \<longleftrightarrow> (case snd r of Failed _ \<Rightarrow> False | _ \<Rightarrow> True)"

lemma lingbot_steps_clock:
  assumes "ce_pipeline e = Some s" "map_of (ce_sessions e) sid = Some x"
    "map_of (va_sessions s) sid = Some ses" "init_latent ses \<noteq> None \<Longrightarrow> frame_clock x > 0"
    "lb_frame_chunk_size cfg \<ge> 0"
    "list_all (\<lambda>(st, _, _). ws_session_id st = sid) xs"
    "list_all succeeded (snd (chunk_run (lingbot_engine L cfg) (steps_of xs) e))"
  shows "\<exists>y. map_of (ce_sessions (fst (chunk_run (lingbot_engine L cfg) (steps_of xs) e))) sid
      = Some y \<and> frame_clock y = frame_clock x + int (length xs) * lb_frame_chunk_size cfg"
  using assms
proof (induction xs arbitrary: e s x)
  case (Cons w xs)
  obtain st a n where w: "w = (st, a, n)" by (cases w) auto
  obtain e1 r where r: "chunk_step (lingbot_engine L cfg) st a n e = (e1, Inr r)"
    using Cons.prems(7) unfolding w
    by (cases "chunk_step (lingbot_engine L cfg) st a n e"; cases "snd (chunk_step (lingbot_engine L cfg) st a n e)")
      (auto simp: succeeded_def split_beta)
  have sid: "ws_session_id st = sid" using Cons.prems(6) w by simp
  obtain t y where y: "ce_pipeline e1 = Some t" "map_of (va_sessions t) sid = Some ses"
      "map_of (ce_sessions e1) sid = Some y" "frame_clock y = frame_clock x + consumed_frames cfg ses (frame_clock x)"
    using lingbot_step_clock [OF r Cons.prems(1)] Cons.prems(2,3) sid by blast
  have y': "frame_clock y = frame_clock x + lb_frame_chunk_size cfg"
    using y(4) Cons.prems(4) by (auto simp: consumed_frames_def split: option.splits)
  have "\<exists>v. map_of (ce_sessions (fst (chunk_run (lingbot_engine L cfg) (steps_of xs) e1))) sid
      = Some v \<and> frame_clock v = frame_clock y + int (length xs) * lb_frame_chunk_size cfg"
    by (rule Cons.IH [OF y(1,3,2)])
      (use Cons.prems(4-7) y' w r in \<open>auto simp: split_beta\<close>)
  then show ?case using y' w r by (auto simp: split_beta algebra_simps)
qed simp

section \<open>Properties\<close>

text \<open>the layout a world model state carries loses nothing: unflattening the flattened latent
  with the session's geometry gives the latent back.\<close>

theorem lingbot_latent_round_trip:
  assumes "latent_shape c t h w x" "c > 0" "h > 0" "w > 0"
  shows "unflatten_latent (flatten_latent5d x) c h w = Inr x"
  using assms by (rule unflatten_flatten)

text \<open>C14: what the policy returns and what the cache is told agree: normalising the actions that
  \<open>_denormalize_actions\<close> produced, in the layout \<open>recondition\<close> uses, gives back the model-space
  actions of the chunk, for every chunk whose unused channels are zero.\<close>

theorem lingbot_action_round_trip:
  assumes "task_ok task" "mask_unused (tk_used task) a = a"
    "act_shape (nat (tk_action_dim task)) k n a"
    "cc_action_dim cfg = tk_action_dim task" "lb_action_per_frame cfg = int n" "k > 0" "n > 0"
  shows "normalize_actions task cfg (denormalize_actions task a) = Inr a"
  using assms by (rule normalize_denormalize)

text \<open>the cache entries a chunk leaves are those of the chunk it returns: when a pass with
  \<open>update_cache=0\<close> only reads, the cache after \<open>infer_chunk\<close> is the old one after one video pass over
  the final latents and one action pass over the final actions, the latents carry the observed
  first frame, and the actions are masked.\<close>

theorem lingbot_cache_holds_what_was_returned:
  assumes "reads_only L" "map_of (va_sessions s) sid = Some ses" "has_frame (init_latent ses)"
    "lb_infer L cfg s sid frame noise = (s', Inr (lat, acts))"
  shows "\<exists>emb x a. prompt_embeds ses = Some emb
    \<and> lat = flatten_latent5d x \<and> clamp_first frame (init_latent ses) x = x
    \<and> acts = denormalize_actions (va_task L) a \<and> prepared (tk_used (va_task L)) frame a = a
    \<and> va_caches s' sid = fst (forward_action L (fst (forward_video L (va_caches s sid)
        (video_input L ses emb frame x 0) 1)) (action_input L ses emb frame a 0) 1)"
proof -
  obtain emb where emb: "prompt_embeds ses = Some emb"
    using assms(2,4) by (auto simp: lb_infer_def split: option.splits)
  let ?c = "va_caches s sid"
  obtain x where x: "video_loop L cfg ses emb frame (fm_timesteps L 5 (lb_num_inference_steps cfg) @ [0]) (?c, fst noise)
      = (fst (forward_video L ?c (video_input L ses emb frame x 0) 1), x)" "clamp_first frame (init_latent ses) x = x"
    using video_loop_caches [OF assms(1,3)] by blast
  let ?c1 = "fst (forward_video L ?c (video_input L ses emb frame x 0) 1)"
  obtain a where a: "action_loop L cfg ses emb frame (fm_timesteps L 1 (lb_action_num_inference_steps cfg) @ [0]) (?c1, snd noise)
      = (fst (forward_action L ?c1 (action_input L ses emb frame a 0) 1), a)"
      "prepared (tk_used (va_task L)) frame a = a"
    using action_loop_caches [OF assms(1)] by blast
  have "mask_unused (tk_used (va_task L)) a = a" using a(2) prepared_mask by metis
  then show ?thesis using assms(2,4) emb x a
    by (intro exI [of _ emb] exI [of _ x] exI [of _ a]) (auto simp: lb_infer_def)
qed

text \<open>the frame clock: the first step of a session consumes the observed frames, every later
  one a whole chunk, whatever the actions were.\<close>

theorem lingbot_frame_clock:
  assumes "ce_pipeline e = Some s" "map_of (ce_sessions e) sid = Some x" "frame_clock x = 0"
    "map_of (va_sessions s) sid = Some ses" "init_latent ses = Some z" "axis2 z > 0"
    "lb_frame_chunk_size cfg \<ge> 0" "list_all (\<lambda>(st, _, _). ws_session_id st = sid) (w # ws)"
    "list_all succeeded (snd (chunk_run (lingbot_engine L cfg) (steps_of (w # ws)) e))"
  shows "\<exists>y. map_of (ce_sessions (fst (chunk_run (lingbot_engine L cfg)
        (steps_of (w # ws)) e))) sid = Some y
    \<and> frame_clock y = int (axis2 z) + int (length ws) * lb_frame_chunk_size cfg"
proof -
  obtain st a n where w: "w = (st, a, n)" by (cases w) auto
  have sid: "ws_session_id st = sid" using assms(8) w by simp
  obtain e1 r where r: "chunk_step (lingbot_engine L cfg) st a n e = (e1, Inr r)"
    using assms(9) unfolding w
    by (cases "chunk_step (lingbot_engine L cfg) st a n e"; cases "snd (chunk_step (lingbot_engine L cfg) st a n e)")
      (auto simp: succeeded_def split_beta)
  obtain t y where y: "ce_pipeline e1 = Some t" "map_of (va_sessions t) sid = Some ses"
      "map_of (ce_sessions e1) sid = Some y" "frame_clock y = int (axis2 z)"
    using lingbot_step_clock [OF r assms(1), unfolded sid, OF assms(2,4)] assms(3,5)
    by (auto simp: consumed_frames_def)
  have "\<exists>v. map_of (ce_sessions (fst (chunk_run (lingbot_engine L cfg) (steps_of ws) e1))) sid
      = Some v \<and> frame_clock v = frame_clock y + int (length ws) * lb_frame_chunk_size cfg"
    by (rule lingbot_steps_clock [OF y(1,3,2)]) (use assms(6-9) y(4) w r in \<open>auto simp: split_beta\<close>)
  then show ?thesis using y(4) w r by (auto simp: split_beta)
qed

text \<open>with the default configuration (no prompt) a session opens but can never predict: after a
  successful \<open>reset\<close>, \<open>plan\<close> and \<open>step\<close> both raise, whatever action is executed.\<close>

theorem lingbot_without_prompt_never_predicts:
  assumes "ce_pipeline e = Some s" "cc_prompt (ce_config e) = None"
    "chunk_reset (lingbot_engine L cfg) sid cond n e = (e1, Inr st)"
  shows "(\<exists>x. snd (chunk_plan (lingbot_engine L cfg) st n1 e1) = Inl x)
    \<and> (\<exists>x. snd (chunk_step (lingbot_engine L cfg) st a n2 e1) = Inl x)"
proof -
  have r: "lb_reset L cfg s sid None = (fst (lb_reset L cfg s sid None), Inr ())"
    "prompt_embeds (the (map_of (va_sessions (fst (lb_reset L cfg s sid None))) sid)) = None"
    by (simp_all add: lb_reset_def Let_def split_beta map_of_AList_update)
  obtain t z where t: "lb_encode L (fst (lb_reset L cfg s sid None)) sid cond = (t, Inr z)"
    and st: "ws_session_id st = sid" and e1: "ce_pipeline e1 = Some t"
      "map_of (ce_sessions e1) sid = Some \<lparr>frame_clock = 0, pending_actions = None\<rparr>"
    using assms r by (auto simp: chunk_reset_def chunk_load_def lingbot_ops_def map_of_AList_update
        split: sum.splits prod.splits)
  from t r(2) obtain ses where ses: "map_of (va_sessions t) sid = Some ses" "prompt_embeds ses = None"
    by (auto simp: lb_encode_def lb_encode_obs_def Let_def map_of_AList_update
        split: sum.splits prod.splits if_splits option.splits)
  have inf: "lb_infer L cfg u sid i m = (u, Inl (OtherException ''AttributeError: NoneType has no attribute to''))"
    if "va_sessions u = va_sessions t" for u i m using ses that by (simp add: lb_infer_def)
  have "\<exists>x. snd (chunk_step (lingbot_engine L cfg) st a n2 e1) = Inl x"
  proof (cases "snd (chunk_step (lingbot_engine L cfg) st a n2 e1)")
    case (Inr y)
    then have step: "chunk_step (lingbot_engine L cfg) st a n2 e1 = (fst (chunk_step (lingbot_engine L cfg) st a n2 e1), Inr y)"
      by (metis prod.collapse)
    obtain acts s1 k s2 v where
      1: "lb_recondition L cfg t sid acts None 0 = (s1, Inr k)" and 2: "lb_infer L cfg s1 sid k n2 = (s2, Inr v)"
      using step e1 st by (auto simp: chunk_step_def chunk_load_def session_for_def Let_def lingbot_ops_def
          split: sum.splits prod.splits)
    with recondition_consumes [OF ses(1) 1] inf show ?thesis by simp
  qed simp
  moreover have "\<exists>x. snd (chunk_plan (lingbot_engine L cfg) st n1 e1) = Inl x"
    using e1 st inf [of t 0 n1]
    by (simp add: chunk_plan_def chunk_load_def session_for_def lingbot_ops_def)
  ultimately show ?thesis by simp
qed

text \<open>only the first step of a session looks at what was executed: from then on two executed
  chunks of legal length lead the engine to the same state and the same prediction.\<close>

theorem lingbot_later_steps_ignore_actions:
  assumes "parse_action_chunk (ce_config e) a = Inr rows" "parse_action_chunk (ce_config e) b = Inr rows'"
    "ce_pipeline e = Some s" "map_of (ce_sessions e) (ws_session_id st) = Some x" "frame_clock x \<noteq> 0"
  shows "chunk_step (lingbot_engine L cfg) st a n e = chunk_step (lingbot_engine L cfg) st b n e"
  using assms by (simp add: chunk_step_def chunk_load_def session_for_def Let_def lingbot_ops_def
      lb_recondition_def split: sum.split option.split)

text \<open>a seed observation without an image directory leaks its session: the request fails, the
  engine does not know the session, so no release can name it, and the pipeline keeps its
  cache.\<close>

theorem lingbot_failed_seed_leaks:
  assumes "ce_pipeline e = Some s" "map_of (ce_sessions e) sid = None" "ci_uri cond = None"
  shows "snd (chunk_reset (lingbot_engine L cfg) sid cond n e)
      = Inl (ValueError ''LingBot-VA reset needs conditioning.uri = obs image directory'')
    \<and> map_of (ce_sessions (fst (chunk_reset (lingbot_engine L cfg) sid cond n e))) sid = None
    \<and> (\<exists>t. ce_pipeline (fst (chunk_reset (lingbot_engine L cfg) sid cond n e)) = Some t
        \<and> map_of (va_sessions t) sid \<noteq> None \<and> va_caches t sid \<noteq> None)"
  using assms by (simp add: chunk_reset_def chunk_load_def lingbot_ops_def lb_reset_def lb_encode_def
      lb_encode_obs_def Let_def split_beta map_of_AList_update)

text \<open>sessions do not interfere: on a loaded engine, the answers one session gets in any
  interleaving of calls are those it gets when its calls run alone.\<close>

theorem lingbot_sessions_do_not_interfere:
  assumes "ce_pipeline e = Some s"
  shows "filter (\<lambda>(b, _). b = sid) (snd (chunk_run (lingbot_engine L cfg) xs e))
    = snd (chunk_run (lingbot_engine L cfg) (filter (\<lambda>x. op_sid x = sid) xs) e)"
  by (rule lb.run_isolated [OF engine_ops assms])

text \<open>whatever clients do, a session the engine serves has its pipeline session and its
  caches behind it.\<close>

theorem lingbot_sessions_are_backed:
  assumes "distinct (opened xs)"
    "map_of (ce_sessions (fst (chunk_run (lingbot_engine L cfg) xs (chunk_init b cfg (Some s))))) sid \<noteq> None"
  shows "\<exists>t. ce_pipeline (fst (chunk_run (lingbot_engine L cfg) xs (chunk_init b cfg (Some s)))) = Some t
    \<and> map_of (va_sessions t) sid \<noteq> None"
proof -
  have "backed (\<lambda>s a. va_view s a \<noteq> None) (fst (chunk_run (lingbot_engine L cfg) xs (chunk_init b cfg (Some s))))"
    by (rule lb.run_backed [OF engine_ops, where s = s]) (use assms(1) in \<open>auto simp: chunk_init_def backed_def\<close>)
  from backedD [OF this assms(2)] show ?thesis by (auto simp: va_view_def)
qed

theorem lingbot_latent_round_trip_witness:
  "unflatten_latent (flatten_latent5d [[[[1, 2]], [[3, 4]]], [[[5, 6]], [[7, 8]]]]) 2 1 2
     = Inr [[[[1, 2]], [[3, 4]]], [[[5, 6]], [[7, 8]]]]
   \<and> flatten_latent5d [[[[1, 2]], [[3, 4]]], [[[5, 6]], [[7, 8]]]] = [[1, 2, 5, 6], [3, 4, 7, 8]]"
  using lingbot_latent_round_trip [of 2 2 1 2 "[[[[1, 2]], [[3, 4]]], [[[5, 6]], [[7, 8]]]]"]
  by (simp add: latent_shape_def flatten_latent5d_def axis2_def upt_rec)

definition small_task :: va_task where
  "small_task =
     \<lparr>tk_action_dim = 2, tk_frame_chunk_size = 2, tk_height = 16, tk_width = 16, tk_cams = [''cam''],
      tk_patch = (1, 1, 1), tk_q01 = [0, 1], tk_q99 = [2, 5], tk_used = [1]\<rparr>"

text \<open>A transformer that counts its writes, and schedulers of one step.\<close>

definition small_va :: "(nat, unit, unit, unit, unit, unit) va_lib" where
  "small_va =
     \<lparr>va_importable = True, va_load = (\<lambda>_. Inr ()), va_task = small_task,
      empty_cache = (\<lambda>_ _ _ _. 0), clear_pred_cache = id,
      forward_video = (\<lambda>c _ u. (if u = 0 then c else map_option Suc c, ())),
      forward_action = (\<lambda>c _ u. (if u = 0 then c else map_option Suc c, ())),
      data_seq_to_patch = (\<lambda>_ _ _ _ _. [[[[[1]], [[2]]]], [[[[0]], [[0]]]]]),
      seq_to_actions = (\<lambda>_ _. [[[[0], [0]], [[1 / 2], [1]]]]),
      get_mesh_id = (\<lambda>_ _ _ _ _ _ _. ()), fm_timesteps = (\<lambda>_ _. [1]),
      fm_step_video = (\<lambda>_ p _ _. p), fm_step_action = (\<lambda>_ p _ _. p),
      text_tokens = (\<lambda>_. ([], [])), text_hidden = (\<lambda>_ _. []), zero_hidden = (),
      new_vae_wrap = (), encode_chunk = (\<lambda>_ clip. ((), [[[[[1]]], [[[0]]]]])),
      latents_mean = [0], latents_std = [1], open_image = (\<lambda>_. Inr ()),
      resize_rgb = (\<lambda>_ _ _. [[[255]]])\<rparr>"

definition small_cfg :: lingbot_config where
  "small_cfg = default_lingbot\<lparr>cc_prompt := Some ''go'', cc_action_dim := 2, cc_used_action_dim := Some 1,
     lb_frame_chunk_size := 2, lb_action_per_frame := 1\<rparr>"

definition small_ses :: "(unit, unit) va_session" where
  "small_ses = \<lparr>vae_wrap = (), prompt_embeds = Some [], negative_embeds = Some [], use_cfg = True,
     latent_hw = (1, 1), init_latent = Some [[[[7]]]]\<rparr>"

definition small_va_state :: "(nat, unit, unit) va_state" where
  "small_va_state = \<lparr>va_caches = [''s'' \<mapsto> 0], latent_geom = Some (1, 1, 1), va_sessions = [(''s'', small_ses)]\<rparr>"

definition small_va_engine :: "((nat, unit, unit) va_state, rat, unit lingbot_config_ext) chunk_engine" where
  "small_va_engine = \<lparr>ce_config = small_cfg, ce_backend = ''cpu'', ce_pipeline = Some small_va_state,
     ce_sessions = [(''s'', \<lparr>frame_clock = 0, pending_actions = None\<rparr>)]\<rparr>"

lemmas small_va_defs = small_va_def small_task_def small_cfg_def small_ses_def small_va_state_def
  small_va_engine_def default_lingbot_def

theorem lingbot_action_round_trip_witness:
  "normalize_actions small_task small_cfg (denormalize_actions small_task [[[0], [0]], [[1 / 2], [1]]])
    = Inr [[[0], [0]], [[1 / 2], [1]]]"
  by (rule lingbot_action_round_trip [where k = 2 and n = 1])
    (simp_all add: task_ok_def small_task_def small_cfg_def default_lingbot_def mask_unused_def act_shape_def upt_rec)

theorem lingbot_cache_holds_what_was_returned_witness:
  "\<exists>s' r. lb_infer small_va small_cfg small_va_state ''s'' 0 ([[[[0]], [[0]]]], [[[3], [3]], [[3], [3]]]) = (s', Inr r)
    \<and> (\<exists>x. fst r = flatten_latent5d x \<and> clamp_first 0 (Some [[[[7]]]]) x = x) \<and> va_caches s' ''s'' = Some 2"
proof -
  let ?n = "([[[[0]], [[0]]]], [[[3], [3]], [[3], [3]]])"
  obtain s' r where r: "lb_infer small_va small_cfg small_va_state ''s'' 0 ?n = (s', Inr r)"
    by (simp add: lb_infer_def small_va_state_def small_ses_def Let_def split_beta)
  have "reads_only small_va" by (simp add: reads_only_def small_va_def)
  moreover have "map_of (va_sessions small_va_state) ''s'' = Some small_ses" by (simp add: small_va_state_def)
  moreover have "has_frame (init_latent small_ses)" by (simp add: has_frame_def small_ses_def)
  ultimately obtain emb x a where "fst r = flatten_latent5d x" "clamp_first 0 (init_latent small_ses) x = x"
      "va_caches s' ''s'' = fst (forward_action small_va (fst (forward_video small_va (va_caches small_va_state ''s'')
        (video_input small_va small_ses emb 0 x 0) 1)) (action_input small_va small_ses emb 0 a 0) 1)"
    using lingbot_cache_holds_what_was_returned [of small_va small_va_state "''s''" small_ses small_cfg 0 ?n s' "fst r" "snd r"] r
    by auto
  then have "fst r = flatten_latent5d x \<and> clamp_first 0 (Some [[[[7]]]]) x = x" "va_caches s' ''s'' = Some 2"
    by (simp_all add: small_ses_def small_va_def small_va_state_def)
  with r show ?thesis by blast
qed

definition small_step :: "rat list list world_state \<times> rat action \<times> latent \<times> act3" where
  "small_step = (\<lparr>ws_context = [], ws_step_index = 0, ws_session_id = ''s''\<rparr>,
     \<lparr>act_values = [1, 2], act_space = ''raw''\<rparr>, [[[[0]], [[0]]]], [[[3], [3]], [[3], [3]]])"

theorem lingbot_frame_clock_witness:
  "\<exists>y. map_of (ce_sessions (fst (chunk_run (lingbot_engine small_va small_cfg) (steps_of [small_step, small_step]) small_va_engine))) ''s''
      = Some y \<and> frame_clock y = 1 + 2"
proof -
  have "list_all succeeded (snd (chunk_run (lingbot_engine small_va small_cfg) (steps_of [small_step, small_step]) small_va_engine))"
    by code_simp
  then show ?thesis
    using lingbot_frame_clock [of small_va_engine small_va_state "''s''" _ small_ses "[[[[7]]]]" small_cfg small_step "[small_step]" small_va]
    by (simp add: small_va_defs small_step_def axis2_def)
qed

definition fresh_va_engine :: "string option \<Rightarrow> ((nat, unit, unit) va_state, rat, unit lingbot_config_ext) chunk_engine" where
  "fresh_va_engine prompt = chunk_init ''cpu'' (small_cfg\<lparr>cc_prompt := prompt\<rparr>)
     (Some \<lparr>va_caches = (\<lambda>_. None), latent_geom = None, va_sessions = []\<rparr>)"

definition seed_dir :: conditioning_input where
  "seed_dir = \<lparr>ci_kind = KindImage, ci_uri = Some ''obs''\<rparr>"

theorem lingbot_without_prompt_never_predicts_witness:
  "\<exists>e1 st x. chunk_reset (lingbot_engine small_va small_cfg) ''a'' seed_dir ([], []) (fresh_va_engine None) = (e1, Inr st)
    \<and> snd (chunk_plan (lingbot_engine small_va small_cfg) st ([], []) e1) = Inl x"
proof -
  obtain e1 st where r: "chunk_reset (lingbot_engine small_va small_cfg) ''a'' seed_dir ([], []) (fresh_va_engine None) = (e1, Inr st)"
    by (simp add: chunk_reset_def chunk_load_def fresh_va_engine_def chunk_init_def lingbot_ops_def lb_reset_def
        lb_encode_def lb_encode_obs_def seed_dir_def small_va_defs map_of_AList_update Let_def)
  from lingbot_without_prompt_never_predicts [OF _ _ r] show ?thesis
    using r by (auto simp: fresh_va_engine_def chunk_init_def)
qed

theorem lingbot_failed_seed_leaks_witness:
  "\<exists>t. ce_pipeline (fst (chunk_reset (lingbot_engine small_va small_cfg) ''a'' \<lparr>ci_kind = KindNone, ci_uri = None\<rparr> ([], [])
        (fresh_va_engine (Some ''go'')))) = Some t \<and> map_of (va_sessions t) ''a'' \<noteq> None"
  using lingbot_failed_seed_leaks [of "fresh_va_engine (Some ''go'')" _ "''a''" "\<lparr>ci_kind = KindNone, ci_uri = None\<rparr>"
      small_va small_cfg "([], [])"]
  by (auto simp: fresh_va_engine_def chunk_init_def)

theorem lingbot_sessions_do_not_interfere_witness:
  "filter (\<lambda>(b, _). b = ''a'') (snd (chunk_run (lingbot_engine small_va small_cfg)
      [OpenSession ''a'' seed_dir ([], []), OpenSession ''s'' seed_dir ([], []),
       PlanSession \<lparr>ws_context = [], ws_step_index = 0, ws_session_id = ''a''\<rparr> ([], [])] small_va_engine))
    = snd (chunk_run (lingbot_engine small_va small_cfg)
      [OpenSession ''a'' seed_dir ([], []),
       PlanSession \<lparr>ws_context = [], ws_step_index = 0, ws_session_id = ''a''\<rparr> ([], [])] small_va_engine)"
  using lingbot_sessions_do_not_interfere [of small_va_engine small_va_state "''a''" small_va small_cfg
      "[OpenSession ''a'' seed_dir ([], []), OpenSession ''s'' seed_dir ([], []),
       PlanSession \<lparr>ws_context = [], ws_step_index = 0, ws_session_id = ''a''\<rparr> ([], [])]"]
  by (simp add: small_va_engine_def del: chunk_run.simps)

theorem lingbot_sessions_are_backed_witness:
  "\<exists>t. ce_pipeline (fst (chunk_run (lingbot_engine small_va small_cfg) [OpenSession ''a'' seed_dir ([], [])]
      (chunk_init ''cpu'' small_cfg (Some small_va_state)))) = Some t \<and> map_of (va_sessions t) ''a'' \<noteq> None"
proof (rule lingbot_sessions_are_backed)
  show "map_of (ce_sessions (fst (chunk_run (lingbot_engine small_va small_cfg) [OpenSession ''a'' seed_dir ([], [])]
      (chunk_init ''cpu'' small_cfg (Some small_va_state))))) ''a'' \<noteq> None"
    by (simp add: split_beta chunk_reset_def chunk_load_def chunk_init_def lingbot_ops_def lb_reset_def
        lb_encode_def lb_encode_obs_def seed_dir_def small_va_defs map_of_AList_update Let_def)
qed simp

theorem lingbot_later_steps_ignore_actions_witness:
  "chunk_step (lingbot_engine small_va small_cfg) \<lparr>ws_context = [], ws_step_index = 1, ws_session_id = ''s''\<rparr>
      \<lparr>act_values = [1, 2], act_space = ''raw''\<rparr> ([], [])
      (small_va_engine\<lparr>ce_sessions := [(''s'', \<lparr>frame_clock = 1, pending_actions = None\<rparr>)]\<rparr>)
    = chunk_step (lingbot_engine small_va small_cfg) \<lparr>ws_context = [], ws_step_index = 1, ws_session_id = ''s''\<rparr>
      \<lparr>act_values = [8], act_space = ''raw''\<rparr> ([], [])
      (small_va_engine\<lparr>ce_sessions := [(''s'', \<lparr>frame_clock = 1, pending_actions = None\<rparr>)]\<rparr>)"
  by (rule lingbot_later_steps_ignore_actions [where s = small_va_state and rows = "[[1], [2]]" and rows' = "[[8]]"
        and x = "\<lparr>frame_clock = 1, pending_actions = None\<rparr>"])
    (simp_all add: parse_action_chunk_def wire_action_dim_def small_va_engine_def small_cfg_def default_lingbot_def Let_def)

end
