(* ===== verification/DreamZeroPipeline.thy ===== *)
theory DreamZeroPipeline
  imports LingBotPipeline "HOL-Library.List_Lexorder" "HOL-Library.Char_ord"
begin

text \<open>
  The DreamZero pipeline (\<open>models/dreamzero_pipeline.py\<close>). Its one resident action head keeps the
  state of a single rollout in eight attributes, so the pipeline saves them per session and
  swaps them around every call. The head itself (\<open>lazy_joint_video_action\<close> of the research
  package), the checkpoint's files and the tokenizer are fields of \<open>dz_lib\<close>; what the pipeline
  relies on, that the eight attributes are all the state the head carries between calls, is
  \<open>head_law\<close>. Attributes are compared by value.
\<close>

section \<open>The head and its attributes\<close>

datatype 'a attr = NoAttr | Frame int | Obj 'a

text \<open>The eight attributes of \<open>_SWAP_ATTRS\<close>; the other attributes of the head are \<open>hd_rest\<close>.\<close>

record 'a slots =
  kv_cache1 :: "'a attr"
  kv_cache_neg :: "'a attr"
  crossattn_cache :: "'a attr"
  crossattn_cache_neg :: "'a attr"
  clip_feas :: "'a attr"
  ys_attr :: "'a attr"
  current_start_frame :: "'a attr"
  language :: "'a attr"

record 'a head =
  hd_slots :: "'a slots"
  hd_rest :: "string \<Rightarrow> 'a attr"
  hd_cfg_scale :: rat
  hd_local_attn :: "int option"

type_synonym pixel = "nat \<times> nat \<times> nat"
type_synonym image = "pixel list list"

record 'k dz_input =
  di_images :: "image list"
  di_text :: 'k
  di_text_negative :: 'k
  di_state :: "rat list list"
  di_embodiment :: int
  di_latent_video :: "latent option"

text \<open>\<open>env\<close> is the environment at construction, when the head reads its levers.\<close>

record ('a, 'k, 'n) dz_lib =
  dz_importable :: bool
  checkpoint_root :: "string \<Rightarrow> exn + string"
  read_json :: "string \<Rightarrow> exn + json"
  read_yaml :: "string \<Rightarrow> exn + json"
  load_file :: "string \<Rightarrow> exn + string list"
  model_keys :: "json \<Rightarrow> exn + string list"
  json_int :: "json \<Rightarrow> exn + int"
  tokenize :: "string \<Rightarrow> 'k"
  initial_head :: "'a head"
  lazy_joint :: "(string \<times> string) list \<Rightarrow> 'a head \<Rightarrow> 'k dz_input \<Rightarrow> 'n
    \<Rightarrow> 'a head \<times> (exn + (latent \<times> rat list list))"
  open_camera :: "string \<Rightarrow> exn + image"

text \<open>\<open>setattr\<close> of every saved attribute, and \<open>getattr\<close> of every attribute into the saved ones.\<close>

definition swap_in :: "'a slots \<Rightarrow> 'a head \<Rightarrow> 'a head" where
  "swap_in saved h =
     h\<lparr>hd_slots := (hd_slots h)
         \<lparr>kv_cache1 := kv_cache1 saved, kv_cache_neg := kv_cache_neg saved,
          crossattn_cache := crossattn_cache saved, crossattn_cache_neg := crossattn_cache_neg saved,
          clip_feas := clip_feas saved, ys_attr := ys_attr saved,
          current_start_frame := current_start_frame saved, language := language saved\<rparr>\<rparr>"

definition swap_out :: "'a head \<Rightarrow> 'a slots \<Rightarrow> 'a slots" where
  "swap_out h saved =
     saved\<lparr>kv_cache1 := kv_cache1 (hd_slots h), kv_cache_neg := kv_cache_neg (hd_slots h),
       crossattn_cache := crossattn_cache (hd_slots h), crossattn_cache_neg := crossattn_cache_neg (hd_slots h),
       clip_feas := clip_feas (hd_slots h), ys_attr := ys_attr (hd_slots h),
       current_start_frame := current_start_frame (hd_slots h), language := language (hd_slots h)\<rparr>"

text \<open>The state of a rollout is in the eight attributes: the other attributes influence neither the
  answer nor them, and a call leaves the window setting alone.\<close>

definition head_law :: "('a, 'k, 'n) dz_lib \<Rightarrow> bool" where
  "head_law L \<longleftrightarrow>
     (\<forall>env h r inp n. snd (lazy_joint L env (h\<lparr>hd_rest := r\<rparr>) inp n) = snd (lazy_joint L env h inp n)
        \<and> hd_slots (fst (lazy_joint L env (h\<lparr>hd_rest := r\<rparr>) inp n)) = hd_slots (fst (lazy_joint L env h inp n))) \<and>
     (\<forall>env h inp n. hd_local_attn (fst (lazy_joint L env h inp n)) = hd_local_attn h)"

section \<open>Reading a checkpoint\<close>

text \<open>\<open>_find_embodiment_tag_mapping\<close>: depth first, an object before its values.\<close>

fun find_mapping :: "json \<Rightarrow> (string \<times> json) list option"
  and find_in :: "json list \<Rightarrow> (string \<times> json) list option" where
  "find_mapping (JObj kvs) =
     (case map_of kvs ''embodiment_tag_mapping'' of
        Some (JObj m) \<Rightarrow> Some m
      | _ \<Rightarrow> find_in (map snd kvs))"
| "find_mapping (JList xs) = find_in xs"
| "find_mapping _ = None"
| "find_in [] = None"
| "find_in (v # vs) = (case find_mapping v of Some m \<Rightarrow> Some m | None \<Rightarrow> find_in vs)"

definition jfield :: "json \<Rightarrow> string \<Rightarrow> exn + json" where
  "jfield j k =
     (case j of
        JObj kvs \<Rightarrow> (case map_of kvs k of Some v \<Rightarrow> Inr v | None \<Rightarrow> Inl (KeyError k))
      | _ \<Rightarrow> Inl (OtherException ''TypeError: indices must be integers''))"

text \<open>\<open>(embodiment_tag,) = metadata.keys()\<close>\<close>

definition only_key :: "json \<Rightarrow> exn + string" where
  "only_key j =
     (case j of
        JObj [(k, _)] \<Rightarrow> Inr k
      | JObj [] \<Rightarrow> Inl (ValueError ''not enough values to unpack (expected 1, got 0)'')
      | JObj _ \<Rightarrow> Inl (ValueError ''too many values to unpack (expected 1)'')
      | _ \<Rightarrow> Inl (OtherException ''AttributeError: object has no attribute keys''))"

definition resolve_embodiment_id :: "('a, 'k, 'n) dz_lib \<Rightarrow> string \<Rightarrow> exn + int" where
  "resolve_embodiment_id L ckpt =
     (case read_json L (path_join (path_join ckpt ''experiment_cfg'') ''metadata.json'') of
        Inl x \<Rightarrow> Inl x
      | Inr metadata \<Rightarrow>
          (case only_key metadata of
             Inl x \<Rightarrow> Inl x
           | Inr tag \<Rightarrow>
               (case read_yaml L (path_join (path_join ckpt ''experiment_cfg'') ''conf.yaml'') of
                  Inl x \<Rightarrow> Inl x
                | Inr conf \<Rightarrow>
                    (case find_mapping conf of
                       None \<Rightarrow> Inl (OtherException ''TypeError: NoneType object is not subscriptable'')
                     | Some m \<Rightarrow>
                         (case map_of m tag of
                            None \<Rightarrow> Inl (KeyError tag)
                          | Some v \<Rightarrow> json_int L v)))))"

fun json_floats :: "json list \<Rightarrow> exn + rat list" where
  "json_floats [] = Inr []"
| "json_floats (v # vs) =
     (case (case v of JFloat (Fin x) \<Rightarrow> Some x | JInt i \<Rightarrow> Some (of_int i) | _ \<Rightarrow> None) of
        None \<Rightarrow> Inl (OtherException ''TypeError: not a number'')
      | Some x \<Rightarrow> (case json_floats vs of Inl e \<Rightarrow> Inl e | Inr xs \<Rightarrow> Inr (x # xs)))"

text \<open>One bound of every channel, the keys' channels one after the other.\<close>

fun cat_stats :: "json \<Rightarrow> string \<Rightarrow> string list \<Rightarrow> exn + rat list" where
  "cat_stats stats q [] = Inr []"
| "cat_stats stats q (k # ks) =
     (case jfield stats k of
        Inl x \<Rightarrow> Inl x
      | Inr entry \<Rightarrow>
          (case jfield entry q of
             Inl x \<Rightarrow> Inl x
           | Inr (JList vs) \<Rightarrow>
               (case json_floats vs of
                  Inl x \<Rightarrow> Inl x
                | Inr xs \<Rightarrow> (case cat_stats stats q ks of Inl x \<Rightarrow> Inl x | Inr ys \<Rightarrow> Inr (xs @ ys)))
           | Inr _ \<Rightarrow> Inl (RuntimeError ''zero-dimensional tensor cannot be concatenated'')))"

definition load_action_stats :: "('a, 'k, 'n) dz_lib \<Rightarrow> string \<Rightarrow> string list \<Rightarrow> exn + (rat list \<times> rat list)" where
  "load_action_stats L ckpt keys =
     (case read_json L (path_join (path_join ckpt ''experiment_cfg'') ''metadata.json'') of
        Inl x \<Rightarrow> Inl x
      | Inr metadata \<Rightarrow>
          (case only_key metadata of
             Inl x \<Rightarrow> Inl x
           | Inr tag \<Rightarrow>
               (case jfield metadata tag of
                  Inl x \<Rightarrow> Inl x
                | Inr entry \<Rightarrow>
                    (case jfield entry ''statistics'' of
                       Inl x \<Rightarrow> Inl x
                     | Inr st \<Rightarrow>
                         (case jfield st ''action'' of
                            Inl x \<Rightarrow> Inl x
                          | Inr stats \<Rightarrow>
                              (case cat_stats stats ''q01'' keys of
                                 Inl x \<Rightarrow> Inl x
                               | Inr q01 \<Rightarrow>
                                   (case cat_stats stats ''q99'' keys of
                                      Inl x \<Rightarrow> Inl x
                                    | Inr q99 \<Rightarrow> Inr (q01, q99))))))))"

fun load_files :: "('a, 'k, 'n) dz_lib \<Rightarrow> string \<Rightarrow> string list \<Rightarrow> exn + string list" where
  "load_files L ckpt [] = Inr []"
| "load_files L ckpt (f # fs) =
     (case load_file L (path_join ckpt f) of
        Inl x \<Rightarrow> Inl x
      | Inr ks \<Rightarrow> (case load_files L ckpt fs of Inl x \<Rightarrow> Inl x | Inr ks' \<Rightarrow> Inr (ks @ ks')))"

fun json_strings :: "json list \<Rightarrow> exn + string list" where
  "json_strings [] = Inr []"
| "json_strings (JStr f # vs) = (case json_strings vs of Inl x \<Rightarrow> Inl x | Inr fs \<Rightarrow> Inr (f # fs))"
| "json_strings (_ # vs) = Inl (OtherException ''TypeError: expected str'')"

text \<open>Every shard once, in sorted order; the names of the tensors loaded are compared with those of
  the model.\<close>

definition load_shards :: "('a, 'k, 'n) dz_lib \<Rightarrow> string list \<Rightarrow> string \<Rightarrow> exn + unit" where
  "load_shards L wanted ckpt =
     (case read_json L (path_join ckpt ''model.safetensors.index.json'') of
        Inl x \<Rightarrow> Inl x
      | Inr index \<Rightarrow>
          (case jfield index ''weight_map'' of
             Inl x \<Rightarrow> Inl x
           | Inr (JObj kvs) \<Rightarrow>
               (case json_strings (map snd kvs) of
                  Inl x \<Rightarrow> Inl x
                | Inr shards \<Rightarrow>
                    (case load_files L ckpt (sort (remdups shards)) of
                       Inl x \<Rightarrow> Inl x
                     | Inr keys \<Rightarrow>
                         (let missing = filter (\<lambda>k. k \<notin> set keys) wanted;
                              unexpected = remdups (filter (\<lambda>k. k \<notin> set wanted) keys)
                          in if missing \<noteq> [] \<or> unexpected \<noteq> [] then
                               Inl (RuntimeError (''DreamZero checkpoint at '' @ py_repr ckpt
                                 @ '' doesn't match the model: '' @ int_str (int (length missing))
                                 @ '' missing, '' @ int_str (int (length unexpected)) @ '' unexpected keys''))
                             else Inr ())))
           | Inr _ \<Rightarrow> Inl (OtherException ''AttributeError: object has no attribute values'')))"

section \<open>The pipeline\<close>

record ('a) dz_session =
  dz_prompt :: string
  dz_swap :: "'a slots"
  pending_latent_video :: "latent option"
  last_video_pred :: "latent option"
  dz_pending_actions :: "rat list list option"

record 'a dz_state =
  dz_env :: "(string \<times> string) list"
  dz_head :: "'a head"
  dz_embodiment :: int
  dz_stats :: "rat list \<times> rat list"
  dz_sessions :: "(string, 'a dz_session) dict"
  cfg_batched_warned :: bool

definition build_env :: "dreamzero_config \<Rightarrow> (string \<times> string) list" where
  "build_env cfg =
     [(''TORCHDYNAMO_DISABLE'', if dz_compile cfg then ''0'' else ''1''),
      (''NUM_DIT_STEPS'', int_str (dz_num_dit_steps cfg)),
      (''DYNAMIC_CACHE_SCHEDULE'', if dz_enable_dit_cache cfg then ''True'' else ''False'')]"

text \<open>The checkpoint's configuration with the loading path taken over.\<close>

definition patch_config :: "json \<Rightarrow> exn + json" where
  "patch_config config_dict =
     (case jfield config_dict ''action_head_cfg'' of
        Inl x \<Rightarrow> Inl x
      | Inr head \<Rightarrow>
          (case (config_dict, head, jfield head ''config'') of
             (_, _, Inl x) \<Rightarrow> Inl x
           | (JObj kvs, JObj hkvs, Inr (JObj ah)) \<Rightarrow>
               (let ah = AList.update ''skip_component_loading'' (JBool True) ah;
                    ah = (if map_of ah ''defer_lora_injection'' = None then ah
                          else AList.update ''defer_lora_injection'' (JBool False) ah)
                in Inr (JObj (AList.update ''action_head_cfg''
                     (JObj (AList.update ''config'' (JObj ah) hkvs)) kvs)))
           | _ \<Rightarrow> Inl (OtherException ''TypeError: object does not support item assignment'')))"

definition dreamzero_build ::
    "('a, 'k, 'n) dz_lib \<Rightarrow> dreamzero_config \<Rightarrow> exn + (dreamzero_config \<times> 'a dz_state)" where
  "dreamzero_build L cfg =
     (if \<not> dz_importable L then
        Inl (RuntimeError ''DreamZero pipeline needs the research repo importable as 'groot' '')
      else case checkpoint_root L (cc_repo cfg) of
        Inl x \<Rightarrow> Inl x
      | Inr ckpt \<Rightarrow>
      (case read_json L (path_join ckpt ''config.json'') of
        Inl x \<Rightarrow> Inl x
      | Inr config_dict \<Rightarrow>
      (case patch_config config_dict of
        Inl x \<Rightarrow> Inl x
      | Inr patched \<Rightarrow>
      (case model_keys L patched of
        Inl x \<Rightarrow> Inl x
      | Inr wanted \<Rightarrow>
      (case load_shards L wanted ckpt of
        Inl x \<Rightarrow> Inl x
      | Inr _ \<Rightarrow>
      (case resolve_embodiment_id L ckpt of
        Inl x \<Rightarrow> Inl x
      | Inr eid \<Rightarrow>
      (case load_action_stats L ckpt [''joint_position'', ''gripper_position''] of
        Inl x \<Rightarrow> Inl x
      | Inr stats \<Rightarrow>
          Inr (cfg, \<lparr>dz_env = build_env cfg, dz_head = initial_head L, dz_embodiment = eid,
                     dz_stats = stats, dz_sessions = [], cfg_batched_warned = False\<rparr>))))))))"

definition dz_reset :: "'a dz_state \<Rightarrow> string \<Rightarrow> string option \<Rightarrow> 'a dz_state \<times> (exn + unit)" where
  "dz_reset s sid prompt =
     (let swap = \<lparr>kv_cache1 = NoAttr, kv_cache_neg = NoAttr, crossattn_cache = NoAttr,
            crossattn_cache_neg = NoAttr, clip_feas = NoAttr, ys_attr = NoAttr,
            current_start_frame = NoAttr, language = NoAttr\<rparr>;
          session = \<lparr>dz_prompt = (case prompt of None \<Rightarrow> [] | Some p \<Rightarrow> p),
            dz_swap = swap\<lparr>current_start_frame := Frame 0\<rparr>,
            pending_latent_video = None, last_video_pred = None, dz_pending_actions = None\<rparr>
      in (s\<lparr>dz_sessions := AList.update sid session (dz_sessions s)\<rparr>, Inr ()))"

definition apply_levers :: "dreamzero_config \<Rightarrow> 'a dz_state \<Rightarrow> 'a dz_state" where
  "apply_levers cfg s =
     (let h = (dz_head s)\<lparr>hd_cfg_scale := dz_cfg_scale cfg\<rparr>;
          h = (case dz_local_attn_size cfg of None \<Rightarrow> h | Some v \<Rightarrow> h\<lparr>hd_local_attn := Some v\<rparr>)
      in s\<lparr>dz_head := h, cfg_batched_warned := (cfg_batched_warned s \<or> dz_cfg_batched cfg)\<rparr>)"

definition dz_denormalize :: "rat list list \<Rightarrow> rat list \<times> rat list \<Rightarrow> int \<Rightarrow> exn + rat list list" where
  "dz_denormalize actions_norm stats used_dim =
     (let bounds = zip (fst stats) (snd stats);
          n = (\<lambda>row. if used_dim \<ge> 0 then nat used_dim else length row - nat (- used_dim));
          rows = map (\<lambda>row. broadcast (\<lambda>x (lo, hi). (x + 1) / 2 * (hi - lo) + lo) (take (n row) row) bounds)
                   actions_norm
      in if None \<in> set rows then Inl (RuntimeError ''The size of tensor a must match the size of tensor b'')
         else Inr (map the rows))"

definition dz_infer ::
    "('a, 'k, 'n) dz_lib \<Rightarrow> dreamzero_config \<Rightarrow> 'a dz_state \<Rightarrow> string \<Rightarrow> 'a dz_session \<Rightarrow> image list
      \<Rightarrow> latent option \<Rightarrow> 'n \<Rightarrow> 'a dz_state \<times> (exn + (latent \<times> rat list list))" where
  "dz_infer L cfg s sid session images latent_video noise =
     (let s = apply_levers cfg s;
          inp = \<lparr>di_images = images, di_text = tokenize L (dz_prompt session), di_text_negative = tokenize L [],
                 di_state = replicate (nat (dz_num_state_per_block cfg)) (replicate (nat (dz_max_state_dim cfg)) 0),
                 di_embodiment = dz_embodiment s, di_latent_video = latent_video\<rparr>;
          (h, out) = lazy_joint L (dz_env s) (swap_in (dz_swap session) (dz_head s)) inp noise
      in case out of
           Inl x \<Rightarrow> (s\<lparr>dz_head := h, dz_sessions := AList.update sid session (dz_sessions s)\<rparr>, Inl x)
         | Inr (video_pred, actions_norm) \<Rightarrow>
             (let session = session\<lparr>dz_swap := swap_out h (dz_swap session)\<rparr>
              in (s\<lparr>dz_head := h, dz_sessions := AList.update sid session (dz_sessions s)\<rparr>,
                  (case dz_denormalize actions_norm (dz_stats s) (wire_action_dim cfg) of
                     Inl x \<Rightarrow> Inl x
                   | Inr actions \<Rightarrow> Inr (video_pred, actions)))))"

text \<open>The grid of a seed frame: the wrist view doubled in width above the two exterior views. An
  image of the library is already resized to 176 rows of 320 pixels.\<close>

definition grid_canvas :: "image \<Rightarrow> image \<Rightarrow> image \<Rightarrow> image" where
  "grid_canvas left right wrist =
     map (\<lambda>row. concat (map (\<lambda>px. [px, px]) row)) wrist @ map2 (@) left right"

definition load_grid_frame :: "('a, 'k, 'n) dz_lib \<Rightarrow> string \<Rightarrow> exn + image" where
  "load_grid_frame L obs_dir =
     (case open_camera L (path_join obs_dir ''exterior_image_1_left.png'') of
        Inl x \<Rightarrow> Inl x
      | Inr left \<Rightarrow>
          (case open_camera L (path_join obs_dir ''exterior_image_2_left.png'') of
             Inl x \<Rightarrow> Inl x
           | Inr right \<Rightarrow>
               (case open_camera L (path_join obs_dir ''wrist_image_left.png'') of
                  Inl x \<Rightarrow> Inl x
                | Inr wrist \<Rightarrow> Inr (grid_canvas left right wrist))))"

definition dz_flatten_latent :: "latent \<Rightarrow> rat list list" where
  "dz_flatten_latent x = flatten_latent5d x"

definition dz_unflatten_latent :: "rat list list \<Rightarrow> exn + latent" where
  "dz_unflatten_latent flat = unflatten_latent flat 16 44 80"

definition dz_encode ::
    "('a, 'k, 'n) dz_lib \<Rightarrow> dreamzero_config \<Rightarrow> 'a dz_state \<Rightarrow> string \<Rightarrow> conditioning_input \<Rightarrow> 'n
      \<Rightarrow> 'a dz_state \<times> (exn + rat list list)" where
  "dz_encode L cfg s sid cond noise =
     (if ci_uri cond = None \<or> ci_uri cond = Some [] then
        (s, Inl (ValueError ''DreamZero reset needs conditioning.uri = camera image directory''))
      else case load_grid_frame L (the (ci_uri cond)) of
        Inl x \<Rightarrow> (s, Inl x)
      | Inr canvas \<Rightarrow>
          (case map_of (dz_sessions s) sid of
             None \<Rightarrow> (s, Inl (KeyError sid))
           | Some session \<Rightarrow>
               (case dz_infer L cfg s sid session [canvas] None noise of
                  (s, Inl x) \<Rightarrow> (s, Inl x)
                | (s, Inr (latents, actions)) \<Rightarrow>
                    (let session = the (map_of (dz_sessions s) sid)
                     in (s\<lparr>dz_sessions := AList.update sid
                           (session\<lparr>last_video_pred := Some latents, dz_pending_actions := Some actions\<rparr>)
                           (dz_sessions s)\<rparr>,
                         Inr (dz_flatten_latent latents))))))"

text \<open>An image of the right shape whose content the head bypasses.\<close>

definition dummy_images :: "dreamzero_config \<Rightarrow> image list" where
  "dummy_images cfg = replicate (nat (dz_num_frame_per_block cfg)) (replicate (2 * 176) (replicate (2 * 320) (0, 0, 0)))"

definition dz_infer_chunk ::
    "('a, 'k, 'n) dz_lib \<Rightarrow> dreamzero_config \<Rightarrow> 'a dz_state \<Rightarrow> string \<Rightarrow> 'n
      \<Rightarrow> 'a dz_state \<times> (exn + (rat list list \<times> rat list list))" where
  "dz_infer_chunk L cfg s sid noise =
     (case map_of (dz_sessions s) sid of
        None \<Rightarrow> (s, Inl (KeyError sid))
      | Some session \<Rightarrow>
          (let latent_video = (case pending_latent_video session of
                 Some v \<Rightarrow> Some v | None \<Rightarrow> last_video_pred session);
               session = session\<lparr>pending_latent_video := None\<rparr>
           in case dz_infer L cfg s sid session (dummy_images cfg) latent_video noise of
                (s, Inl x) \<Rightarrow> (s, Inl x)
              | (s, Inr (latents, actions)) \<Rightarrow>
                  (let session = the (map_of (dz_sessions s) sid)
                   in (s\<lparr>dz_sessions := AList.update sid (session\<lparr>last_video_pred := Some latents\<rparr>) (dz_sessions s)\<rparr>,
                       Inr (dz_flatten_latent latents, actions)))))"

definition dz_recondition ::
    "dreamzero_config \<Rightarrow> 'a dz_state \<Rightarrow> string \<Rightarrow> rat list list option \<Rightarrow> 'a dz_state \<times> (exn + int)" where
  "dz_recondition cfg s sid obs =
     (case map_of (dz_sessions s) sid of
        None \<Rightarrow> (s, Inl (KeyError sid))
      | Some session \<Rightarrow>
          (case (case obs of
                   None \<Rightarrow> Inr None
                 | Some flat \<Rightarrow> (case dz_unflatten_latent flat of Inl x \<Rightarrow> Inl x | Inr z \<Rightarrow> Inr (Some z))) of
             Inl x \<Rightarrow> (s, Inl x)
           | Inr pending \<Rightarrow>
               (s\<lparr>dz_sessions := AList.update sid (session\<lparr>pending_latent_video := pending\<rparr>) (dz_sessions s)\<rparr>,
                Inr (dz_num_frame_per_block cfg))))"

definition dz_close :: "'a dz_state \<Rightarrow> string \<Rightarrow> 'a dz_state" where
  "dz_close s sid = s\<lparr>dz_sessions := AList.delete sid (dz_sessions s)\<rparr>"

text \<open>The pipeline as the engine sees it: the frame clock, the latent and the executed actions the
  engine passes are not read.\<close>

definition dreamzero_ops ::
    "('a, 'k, 'n) dz_lib \<Rightarrow> dreamzero_config \<Rightarrow> ('a dz_state, rat list list, rat, 'n) va_pipeline" where
  "dreamzero_ops L cfg =
     \<lparr>vp_reset = dz_reset, vp_encode = dz_encode L cfg,
      vp_infer = (\<lambda>s sid _ _ noise. dz_infer_chunk L cfg s sid noise),
      vp_recondition = (\<lambda>s sid _ obs _. dz_recondition cfg s sid obs), vp_close = dz_close\<rparr>"

definition dreamzero_engine ::
    "('a, 'k, 'n) dz_lib \<Rightarrow> dreamzero_config
      \<Rightarrow> ('a dz_state, rat list list, rat, 'n, unit dreamzero_config_ext) chunk_kind" where
  "dreamzero_engine L cfg = dreamzero_kind (dreamzero_build L) (dreamzero_ops L cfg)"

text \<open>The methods of \<open>DreamZeroEngine\<close>: its text repeats the chunk loop of LingBot-VA with its own
  configuration and pipeline.\<close>

definition dreamzero_reset ::
    "('a, 'k, 'n) dz_lib \<Rightarrow> dreamzero_config \<Rightarrow> string \<Rightarrow> conditioning_input \<Rightarrow> 'n
      \<Rightarrow> ('a dz_state, rat, unit dreamzero_config_ext) chunk_engine
      \<Rightarrow> ('a dz_state, rat, unit dreamzero_config_ext) chunk_engine \<times> (exn + rat list list world_state)" where
  "dreamzero_reset L cfg = chunk_reset (dreamzero_engine L cfg)"

definition dreamzero_step ::
    "('a, 'k, 'n) dz_lib \<Rightarrow> dreamzero_config \<Rightarrow> rat list list world_state \<Rightarrow> rat action \<Rightarrow> 'n
      \<Rightarrow> ('a dz_state, rat, unit dreamzero_config_ext) chunk_engine
      \<Rightarrow> ('a dz_state, rat, unit dreamzero_config_ext) chunk_engine
        \<times> (exn + (rat list list world_state \<times> latent_step))" where
  "dreamzero_step L cfg = chunk_step (dreamzero_engine L cfg)"

definition dreamzero_plan ::
    "('a, 'k, 'n) dz_lib \<Rightarrow> dreamzero_config \<Rightarrow> rat list list world_state \<Rightarrow> 'n
      \<Rightarrow> ('a dz_state, rat, unit dreamzero_config_ext) chunk_engine
      \<Rightarrow> ('a dz_state, rat, unit dreamzero_config_ext) chunk_engine \<times> (exn + rat action)" where
  "dreamzero_plan L cfg = chunk_plan (dreamzero_engine L cfg)"

definition dreamzero_release ::
    "('a, 'k, 'n) dz_lib \<Rightarrow> dreamzero_config \<Rightarrow> rat list list world_state
      \<Rightarrow> ('a dz_state, rat, unit dreamzero_config_ext) chunk_engine
      \<Rightarrow> ('a dz_state, rat, unit dreamzero_config_ext) chunk_engine" where
  "dreamzero_release L cfg = chunk_release (dreamzero_engine L cfg)"

definition dreamzero_info ::
    "('a, 'k, 'n) dz_lib \<Rightarrow> dreamzero_config
      \<Rightarrow> ('a dz_state, rat, unit dreamzero_config_ext) chunk_engine \<Rightarrow> engine_info" where
  "dreamzero_info L cfg = chunk_info (dreamzero_engine L cfg)"

section \<open>Sessions\<close>

definition effective_window :: "dreamzero_config \<Rightarrow> 'a dz_state \<Rightarrow> int option" where
  "effective_window cfg s = (case dz_local_attn_size cfg of None \<Rightarrow> hd_local_attn (dz_head s) | Some v \<Rightarrow> Some v)"

definition dz_view ::
    "dreamzero_config \<Rightarrow> 'a dz_state \<Rightarrow> string
      \<Rightarrow> 'a dz_session option \<times> (string \<times> string) list \<times> int option \<times> int \<times> rat list \<times> rat list" where
  "dz_view cfg s sid =
     (map_of (dz_sessions s) sid, dz_env s, effective_window cfg s, dz_embodiment s, dz_stats s)"

definition dz_live :: "'a dz_session option \<times> 'b \<Rightarrow> bool" where
  "dz_live v \<longleftrightarrow> fst v \<noteq> None"

typedef ('a, 'k, 'n) lawful_head = "{L :: ('a, 'k, 'n) dz_lib. head_law L}"
proof -
  have "head_law (undefined\<lparr>lazy_joint := (\<lambda>env h inp n. (h, Inl AssertionError))\<rparr>)"
    by (simp add: head_law_def)
  then show ?thesis by blast
qed

lemma rep_law: "head_law (Rep_lawful_head L)"
  using Rep_lawful_head [of L] by simp

lemma swap_in_slots: "hd_slots (swap_in saved h) = saved"
  by (simp add: swap_in_def)

lemma swap_out_slots: "swap_out h saved = hd_slots h"
  by (simp add: swap_out_def)

text \<open>Two heads in which a session has been swapped answer alike.\<close>

lemma swapped_heads_agree:
  assumes "head_law L" "hd_local_attn h = hd_local_attn h'" "hd_cfg_scale h = hd_cfg_scale h'"
  shows "snd (lazy_joint L env (swap_in saved h) inp n) = snd (lazy_joint L env (swap_in saved h') inp n)
    \<and> hd_slots (fst (lazy_joint L env (swap_in saved h) inp n))
      = hd_slots (fst (lazy_joint L env (swap_in saved h') inp n))"
proof -
  have "(swap_in saved h)\<lparr>hd_rest := hd_rest h'\<rparr> = swap_in saved h'"
    using assms(2,3) swap_in_slots [of saved] by (simp add: swap_in_def)
  then show ?thesis using assms(1) unfolding head_law_def by metis
qed

lemma head_window: "head_law L \<Longrightarrow> hd_local_attn (fst (lazy_joint L env h inp n)) = hd_local_attn h"
  by (simp add: head_law_def)

lemma levers_head:
  "hd_cfg_scale (dz_head (apply_levers cfg s)) = dz_cfg_scale cfg"
  "hd_local_attn (dz_head (apply_levers cfg s)) = effective_window cfg s"
  by (auto simp: apply_levers_def effective_window_def Let_def split: option.split)

lemma levers_frame [simp]:
  "dz_env (apply_levers cfg s) = dz_env s" "dz_embodiment (apply_levers cfg s) = dz_embodiment s"
  "dz_stats (apply_levers cfg s) = dz_stats s" "dz_sessions (apply_levers cfg s) = dz_sessions s"
  by (simp_all add: apply_levers_def Let_def)

text \<open>One model call: it writes its own session, leaves what the others read, and its answer is a
  function of the session and the shared constants.\<close>

lemma dz_infer_frame:
  assumes "head_law L" "dz_infer L cfg s sid ses images lv n = (t, r)"
  shows "\<exists>ses'. dz_sessions t = AList.update sid ses' (dz_sessions s) \<and> dz_env t = dz_env s
    \<and> effective_window cfg t = effective_window cfg s \<and> dz_embodiment t = dz_embodiment s
    \<and> dz_stats t = dz_stats s"
proof -
  have "hd_local_attn (swap_in v h) = hd_local_attn h" for v :: "'a slots" and h by (simp add: swap_in_def)
  then show ?thesis using assms(2) head_window [OF assms(1)] levers_head(2) [of cfg s]
    by (auto simp: dz_infer_def Let_def effective_window_def split: prod.splits sum.splits option.splits)
      (metis fst_conv)+
qed

lemma dz_infer_own:
  assumes law: "head_law L" and i: "dz_infer L cfg s sid ses images lv n = (t, r)"
    "dz_infer L cfg s' sid ses images lv n = (t', r')"
    and eq: "dz_env s = dz_env s'" "effective_window cfg s = effective_window cfg s'"
      "dz_embodiment s = dz_embodiment s'" "dz_stats s = dz_stats s'"
  shows "r = r' \<and> map_of (dz_sessions t) sid = map_of (dz_sessions t') sid"
proof -
  let ?h = "dz_head (apply_levers cfg s)" and ?h' = "dz_head (apply_levers cfg s')"
  have heads: "hd_local_attn ?h = hd_local_attn ?h'" "hd_cfg_scale ?h = hd_cfg_scale ?h'"
    using levers_head [of cfg s] levers_head [of cfg s'] eq by simp_all
  note agree = swapped_heads_agree [OF law heads, of "dz_env s'" "dz_swap ses"
      "\<lparr>di_images = images, di_text = tokenize L (dz_prompt ses), di_text_negative = tokenize L [],
        di_state = replicate (nat (dz_num_state_per_block cfg)) (replicate (nat (dz_max_state_dim cfg)) 0),
        di_embodiment = dz_embodiment s', di_latent_video = lv\<rparr>" n]
  show ?thesis using i agree eq
    by (auto simp: dz_infer_def Let_def swap_out_slots map_of_AList_update split_beta split: sum.splits)
qed

text \<open>A call either leaves the pipeline as it is or rewrites its own session.\<close>

definition own_change :: "dreamzero_config \<Rightarrow> 'a dz_state \<Rightarrow> string \<Rightarrow> 'a dz_state \<Rightarrow> bool" where
  "own_change cfg s sid t \<longleftrightarrow> t = s \<or>
     (map_of (dz_sessions s) sid \<noteq> None \<and> (\<exists>ses. map_of (dz_sessions t) sid = Some ses) \<and>
      (\<forall>b. b \<noteq> sid \<longrightarrow> map_of (dz_sessions t) b = map_of (dz_sessions s) b) \<and>
      dz_env t = dz_env s \<and> effective_window cfg t = effective_window cfg s \<and>
      dz_embodiment t = dz_embodiment s \<and> dz_stats t = dz_stats s)"

lemma own_change_view:
  assumes "own_change cfg s sid t"
  shows "b \<noteq> sid \<Longrightarrow> dz_view cfg t b = dz_view cfg s b" "dz_live (dz_view cfg t sid) \<longleftrightarrow> dz_live (dz_view cfg s sid)"
  using assms by (auto simp: own_change_def dz_view_def dz_live_def)

lemma window_sessions [simp]: "effective_window cfg (s\<lparr>dz_sessions := d\<rparr>) = effective_window cfg s"
  by (simp add: effective_window_def split: option.split)

lemma dz_infer_change:
  assumes "head_law L" "dz_infer L cfg s sid ses images lv n = (t, r)" "map_of (dz_sessions s) sid \<noteq> None"
  shows "own_change cfg s sid t"
  using dz_infer_frame [OF assms(1,2)] assms(3) by (auto simp: own_change_def map_of_AList_update)

lemma own_change_update:
  "own_change cfg s sid t \<Longrightarrow> map_of (dz_sessions s) sid \<noteq> None \<Longrightarrow>
    own_change cfg s sid (t\<lparr>dz_sessions := AList.update sid ses (dz_sessions t)\<rparr>)"
  by (auto simp: own_change_def map_of_AList_update)

lemma encode_change: "head_law L \<Longrightarrow> own_change cfg s sid (fst (dz_encode L cfg s sid c n))"
  by (auto simp: dz_encode_def Let_def own_change_update split: sum.split option.split prod.split dest: dz_infer_change)
     (auto simp: own_change_def)

lemma infer_chunk_change: "head_law L \<Longrightarrow> own_change cfg s sid (fst (dz_infer_chunk L cfg s sid n))"
  by (auto simp: dz_infer_chunk_def Let_def own_change_update split: sum.split option.split prod.split dest: dz_infer_change)
     (auto simp: own_change_def)

lemma recondition_change: "own_change cfg s sid (fst (dz_recondition cfg s sid obs))"
  by (auto simp: dz_recondition_def own_change_def map_of_AList_update split: sum.split option.split)

lemma dz_view_eqD:
  assumes "dz_view cfg s a = dz_view cfg t a"
  shows "map_of (dz_sessions s) a = map_of (dz_sessions t) a" "dz_env s = dz_env t"
    "effective_window cfg s = effective_window cfg t" "dz_embodiment s = dz_embodiment t" "dz_stats s = dz_stats t"
  using assms by (auto simp: dz_view_def)

lemma dz_view_eqI:
  assumes "map_of (dz_sessions s) a = map_of (dz_sessions t) a" "dz_env s = dz_env t"
    "effective_window cfg s = effective_window cfg t" "dz_embodiment s = dz_embodiment t" "dz_stats s = dz_stats t"
  shows "dz_view cfg s a = dz_view cfg t a"
  using assms by (simp add: dz_view_def)

text \<open>Two states that agree on a session and the constants give a call the same answer and agree on
  the session afterwards.\<close>

lemma dz_infer_both:
  assumes law: "head_law L"
    and eq: "dz_env s = dz_env s'" "effective_window cfg s = effective_window cfg s'"
      "dz_embodiment s = dz_embodiment s'" "dz_stats s = dz_stats s'"
  obtains t t' r where "dz_infer L cfg s sid ses images lv n = (t, r)" "dz_infer L cfg s' sid ses images lv n = (t', r)"
    "map_of (dz_sessions t) sid = map_of (dz_sessions t') sid" "map_of (dz_sessions t) sid \<noteq> None"
    "dz_env t = dz_env t'" "effective_window cfg t = effective_window cfg t'"
    "dz_embodiment t = dz_embodiment t'" "dz_stats t = dz_stats t'"
proof -
  obtain t r where 1: "dz_infer L cfg s sid ses images lv n = (t, r)" by (metis prod.collapse)
  obtain t' r' where 2: "dz_infer L cfg s' sid ses images lv n = (t', r')" by (metis prod.collapse)
  from dz_infer_own [OF law 1 2 eq] dz_infer_frame [OF law 1] dz_infer_frame [OF law 2] 1 2 eq that
  show thesis by (auto simp: map_of_AList_update)
qed

lemma encode_both:
  assumes law: "head_law L" and v: "dz_view cfg s a = dz_view cfg t a"
  shows "snd (dz_encode L cfg s a c n) = snd (dz_encode L cfg t a c n)
    \<and> dz_view cfg (fst (dz_encode L cfg s a c n)) a = dz_view cfg (fst (dz_encode L cfg t a c n)) a"
proof (cases "map_of (dz_sessions s) a")
  case None
  then show ?thesis using v dz_view_eqD [OF v] by (simp add: dz_encode_def split: sum.split)
next
  case (Some ses)
  note 2 = Some dz_view_eqD [OF v]
  show ?thesis
  proof (cases "ci_uri c = None \<or> ci_uri c = Some [] \<or> (\<exists>x. load_grid_frame L (the (ci_uri c)) = Inl x)")
    case True
    then show ?thesis using v by (auto simp: dz_encode_def)
  next
    case False
    then obtain canvas where canvas: "load_grid_frame L (the (ci_uri c)) = Inr canvas" by (meson sum.exhaust)
    obtain s1 t1 r where r: "dz_infer L cfg s a ses [canvas] None n = (s1, r)"
        "dz_infer L cfg t a ses [canvas] None n = (t1, r)"
        "map_of (dz_sessions s1) a = map_of (dz_sessions t1) a" "map_of (dz_sessions s1) a \<noteq> None"
        "dz_env s1 = dz_env t1" "effective_window cfg s1 = effective_window cfg t1"
        "dz_embodiment s1 = dz_embodiment t1" "dz_stats s1 = dz_stats t1"
      by (rule dz_infer_both [OF law 2(3-6), where images = "[canvas]"])
    show ?thesis using False canvas r 2
      by (cases r) (auto simp: dz_encode_def Let_def map_of_AList_update intro: dz_view_eqI)
  qed
qed

lemma infer_chunk_both:
  assumes law: "head_law L" and v: "dz_view cfg s a = dz_view cfg t a"
  shows "snd (dz_infer_chunk L cfg s a n) = snd (dz_infer_chunk L cfg t a n)
    \<and> dz_view cfg (fst (dz_infer_chunk L cfg s a n)) a = dz_view cfg (fst (dz_infer_chunk L cfg t a n)) a"
proof (cases "map_of (dz_sessions s) a")
  case None
  then show ?thesis using v dz_view_eqD [OF v] by (simp add: dz_infer_chunk_def)
next
  case (Some ses)
  note 2 = Some dz_view_eqD [OF v]
  let ?lv = "case pending_latent_video ses of Some v \<Rightarrow> Some v | None \<Rightarrow> last_video_pred ses"
    and ?ses = "ses\<lparr>pending_latent_video := None\<rparr>"
  obtain s1 t1 r where r: "dz_infer L cfg s a ?ses (dummy_images cfg) ?lv n = (s1, r)"
      "dz_infer L cfg t a ?ses (dummy_images cfg) ?lv n = (t1, r)"
      "map_of (dz_sessions s1) a = map_of (dz_sessions t1) a" "map_of (dz_sessions s1) a \<noteq> None"
      "dz_env s1 = dz_env t1" "effective_window cfg s1 = effective_window cfg t1"
      "dz_embodiment s1 = dz_embodiment t1" "dz_stats s1 = dz_stats t1"
    by (rule dz_infer_both [OF law 2(3-6), where images = "dummy_images cfg"])
  show ?thesis using r 2
    by (cases r) (auto simp: dz_infer_chunk_def Let_def map_of_AList_update intro: dz_view_eqI)
qed

lemma ops_fields:
  "vp_reset (dreamzero_ops L cfg) = dz_reset" "vp_encode (dreamzero_ops L cfg) = dz_encode L cfg"
  "vp_infer (dreamzero_ops L cfg) s a i x n = dz_infer_chunk L cfg s a n"
  "vp_recondition (dreamzero_ops L cfg) s a f obs i = dz_recondition cfg s a obs"
  "vp_close (dreamzero_ops L cfg) = dz_close"
  by (simp_all add: dreamzero_ops_def)

interpretation dz: session_pipeline "dreamzero_ops (Rep_lawful_head L) cfg" "dz_view cfg" dz_live for L cfg
proof (unfold_locales, unfold ops_fields, goal_cases)
  case (1 b a s p)
  then show ?case by (simp add: dz_reset_def dz_view_def map_of_AList_update Let_def)
next
  case (2 b a s c n)
  then show ?case by (rule own_change_view(1) [OF encode_change [OF rep_law]])
next
  case (3 b a s i x n)
  then show ?case by (rule own_change_view(1) [OF infer_chunk_change [OF rep_law]])
next
  case (4 b a s f i)
  then show ?case by (rule own_change_view(1) [OF recondition_change])
next
  case (5 b a s)
  then show ?case
    by (simp add: dz_close_def dz_view_def map_of_AList_delete effective_window_def split: option.split)
next
  case (6 s a t p)
  then show ?case by (simp add: dz_reset_def dz_view_def map_of_AList_update Let_def)
next
  case (7 s a t c n)
  then show ?case by (rule encode_both [OF rep_law])
next
  case (8 s a t i x n)
  then show ?case by (rule infer_chunk_both [OF rep_law])
next
  case (9 s a t f i)
  from dz_view_eqD [OF this] show ?case
    by (simp add: dz_recondition_def dz_view_def map_of_AList_update split: option.split)
next
  case (10 s a t)
  from dz_view_eqD [OF this] show ?case by (simp add: dz_close_def dz_view_def map_of_AList_delete)
next
  case (11 s a)
  then show ?case by (simp add: dz_close_def dz_view_def dz_live_def map_of_AList_delete)
next
  case (12 s a p t u)
  then show ?case by (auto simp: dz_reset_def dz_view_def dz_live_def map_of_AList_update Let_def)
next
  case (13 s a c n)
  then show ?case by (rule own_change_view(2) [OF encode_change [OF rep_law]])
next
  case (14 s a i x n)
  then show ?case by (rule own_change_view(2) [OF infer_chunk_change [OF rep_law]])
next
  case (15 s a f i)
  then show ?case by (rule own_change_view(2) [OF recondition_change])
qed

section \<open>Properties\<close>

lemma dz_engine_ops [simp]: "ck_ops (dreamzero_engine L cfg) = dreamzero_ops L cfg"
  by (simp add: dreamzero_engine_def dreamzero_kind_def)

text \<open>C7: sessions on the one resident head do not interfere: when the eight swapped attributes are
  all the state the head carries, the answers one session gets in any interleaving of calls, failing
  calls included, are those it gets when its calls run alone.\<close>

theorem dreamzero_sessions_do_not_interfere:
  assumes "head_law L" "ce_pipeline e = Some s"
  shows "filter (\<lambda>(b, _). b = sid) (snd (chunk_run (dreamzero_engine L cfg) xs e))
    = snd (chunk_run (dreamzero_engine L cfg) (filter (\<lambda>x. op_sid x = sid) xs) e)"
proof -
  obtain y where L: "L = Rep_lawful_head y"
    using assms(1) Abs_lawful_head_inverse [of L] by (metis mem_Collect_eq)
  show ?thesis unfolding L by (rule dz.run_isolated [OF dz_engine_ops assms(2)])
qed

text \<open>the executed actions do not matter: two executed chunks of legal length lead the engine to
  the same state and the same prediction.\<close>

theorem dreamzero_ignores_executed_actions:
  assumes "parse_action_chunk (ce_config e) a = Inr rows" "parse_action_chunk (ce_config e) b = Inr rows'"
    "ce_pipeline e = Some s"
  shows "dreamzero_step L cfg st a n e = dreamzero_step L cfg st b n e"
  using assms by (simp add: dreamzero_step_def chunk_step_def chunk_load_def ops_fields Let_def split: sum.split)

text \<open>The nodes of a document, an object or list before what it contains.\<close>

fun nodes :: "json \<Rightarrow> json list" where
  "nodes (JObj kvs) = JObj kvs # concat (map (\<lambda>kv. nodes (snd kv)) kvs)"
| "nodes (JList xs) = JList xs # concat (map nodes xs)"
| "nodes j = [j]"

definition mapping_of :: "json \<Rightarrow> (string \<times> json) list option" where
  "mapping_of j =
     (case j of JObj kvs \<Rightarrow> (case map_of kvs ''embodiment_tag_mapping'' of Some (JObj m) \<Rightarrow> Some m | _ \<Rightarrow> None)
      | _ \<Rightarrow> None)"

fun first_some :: "('a \<Rightarrow> 'b option) \<Rightarrow> 'a list \<Rightarrow> 'b option" where
  "first_some f [] = None"
| "first_some f (x # xs) = (case f x of Some y \<Rightarrow> Some y | None \<Rightarrow> first_some f xs)"

lemma first_some_append: "first_some f (xs @ ys) = (case first_some f xs of Some y \<Rightarrow> Some y | None \<Rightarrow> first_some f ys)"
  by (induction xs) (auto split: option.split)

lemma find_first:
  "find_mapping j = first_some mapping_of (nodes j)"
  "find_in js = first_some mapping_of (concat (map nodes js))"
proof (induction j and js rule: find_mapping_find_in.induct)
  case (1 kvs)
  have "concat (map nodes (map snd kvs)) = concat (map (\<lambda>kv. nodes (snd kv)) kvs)" by (simp add: o_def)
  with 1 show ?case by (auto simp: mapping_of_def split: option.split json.split)
qed (auto simp: mapping_of_def first_some_append split: option.split)

text \<open>the search for the embodiment registry finds the registry of the first object, in document
  order, that has one, and fails only if no object of the document has one.\<close>

theorem embodiment_search_finds_the_first:
  "find_mapping j = first_some mapping_of (nodes j)"
  by (rule find_first)

text \<open>a checkpoint is accepted only if it is the model: every tensor the model wants is in a shard
  of the index, and no shard has another one.\<close>

theorem accepted_checkpoint_is_complete:
  assumes "load_shards L wanted ckpt = Inr ()"
  shows "\<exists>index kvs shards keys. read_json L (path_join ckpt ''model.safetensors.index.json'') = Inr index
    \<and> jfield index ''weight_map'' = Inr (JObj kvs) \<and> json_strings (map snd kvs) = Inr shards
    \<and> load_files L ckpt (sort (remdups shards)) = Inr keys \<and> set keys = set wanted"
proof -
  from assms obtain index kvs shards keys where
    p: "read_json L (path_join ckpt ''model.safetensors.index.json'') = Inr index"
      "jfield index ''weight_map'' = Inr (JObj kvs)" "json_strings (map snd kvs) = Inr shards"
      "load_files L ckpt (sort (remdups shards)) = Inr keys"
    and none: "filter (\<lambda>k. k \<notin> set keys) wanted = []" "remdups (filter (\<lambda>k. k \<notin> set wanted) keys) = []"
    by (auto simp: load_shards_def Let_def split: sum.splits json.splits if_splits)
  have "set keys = set wanted" using none by (auto simp: filter_empty_conv)
  with p show ?thesis by blast
qed

section \<open>Witnesses\<close>

text \<open>A head that counts the calls of a session in its cache and answers with the count; it also
  scribbles on an attribute that is not swapped.\<close>

definition small_joint ::
    "(string \<times> string) list \<Rightarrow> nat head \<Rightarrow> unit dz_input \<Rightarrow> unit \<Rightarrow> nat head \<times> (exn + (latent \<times> rat list list))" where
  "small_joint env h inp n =
     (let k = (case kv_cache1 (hd_slots h) of Obj m \<Rightarrow> Suc m | _ \<Rightarrow> 1)
      in (h\<lparr>hd_slots := (hd_slots h)\<lparr>kv_cache1 := Obj k\<rparr>, hd_rest := (\<lambda>_. Obj k)\<rparr>,
          Inr ([[[[of_nat k]]]], [[of_nat k]])))"

definition small_dz :: "(nat, unit, unit) dz_lib" where
  "small_dz =
     \<lparr>dz_importable = True, checkpoint_root = Inr,
      read_json = (\<lambda>_. Inr (JObj [(''weight_map'', JObj [(''a.w'', JStr ''1.st''), (''a.b'', JStr ''1.st'')])])),
      read_yaml = (\<lambda>_. Inr JNull), load_file = (\<lambda>_. Inr [''a.w'', ''a.b'']), model_keys = (\<lambda>_. Inr []),
      json_int = (\<lambda>_. Inr 0), tokenize = (\<lambda>_. ()),
      initial_head = \<lparr>hd_slots = \<lparr>kv_cache1 = NoAttr, kv_cache_neg = NoAttr, crossattn_cache = NoAttr,
         crossattn_cache_neg = NoAttr, clip_feas = NoAttr, ys_attr = NoAttr, current_start_frame = Frame 0,
         language = NoAttr\<rparr>, hd_rest = (\<lambda>_. NoAttr), hd_cfg_scale = 5, hd_local_attn = None\<rparr>,
      lazy_joint = small_joint, open_camera = (\<lambda>_. Inr [[(0, 0, 0)]])\<rparr>"

lemma small_dz_law: "head_law small_dz"
  by (simp add: head_law_def small_dz_def small_joint_def Let_def)

definition small_dz_cfg :: dreamzero_config where
  "small_dz_cfg = default_dreamzero\<lparr>cc_action_dim := 1, cc_used_action_dim := Some 1, dz_num_frame_per_block := 0\<rparr>"

definition small_dz_engine :: "(nat dz_state, rat, unit dreamzero_config_ext) chunk_engine" where
  "small_dz_engine = chunk_init ''cuda'' small_dz_cfg
     (Some \<lparr>dz_env = [], dz_head = initial_head small_dz, dz_embodiment = 0, dz_stats = ([0], [2]),
            dz_sessions = [], cfg_batched_warned = False\<rparr>)"

definition dz_calls :: "(rat list list, rat, unit) chunk_op list" where
  "dz_calls =
     [OpenSession ''a'' \<lparr>ci_kind = KindImage, ci_uri = Some ''o''\<rparr> (),
      OpenSession ''b'' \<lparr>ci_kind = KindImage, ci_uri = Some ''o''\<rparr> (),
      StepSession \<lparr>ws_context = [], ws_step_index = 0, ws_session_id = ''b''\<rparr> \<lparr>act_values = [1], act_space = ''raw''\<rparr> (),
      PlanSession \<lparr>ws_context = [], ws_step_index = 0, ws_session_id = ''a''\<rparr> ()]"

theorem dreamzero_sessions_do_not_interfere_witness:
  "filter (\<lambda>(b, _). b = ''a'') (snd (chunk_run (dreamzero_engine small_dz small_dz_cfg) dz_calls small_dz_engine))
     = snd (chunk_run (dreamzero_engine small_dz small_dz_cfg)
         [OpenSession ''a'' \<lparr>ci_kind = KindImage, ci_uri = Some ''o''\<rparr> (),
          PlanSession \<lparr>ws_context = [], ws_step_index = 0, ws_session_id = ''a''\<rparr> ()] small_dz_engine)"
  using dreamzero_sessions_do_not_interfere [OF small_dz_law, of small_dz_engine _ "''a''" small_dz_cfg dz_calls]
  by (simp add: dz_calls_def small_dz_engine_def chunk_init_def del: chunk_run.simps)

theorem dreamzero_ignores_executed_actions_witness:
  "dreamzero_step small_dz small_dz_cfg \<lparr>ws_context = [], ws_step_index = 0, ws_session_id = ''b''\<rparr>
      \<lparr>act_values = [1], act_space = ''raw''\<rparr> () small_dz_engine
    = dreamzero_step small_dz small_dz_cfg \<lparr>ws_context = [], ws_step_index = 0, ws_session_id = ''b''\<rparr>
      \<lparr>act_values = [2, 3], act_space = ''raw''\<rparr> () small_dz_engine"
  by (rule dreamzero_ignores_executed_actions [where s = "the (ce_pipeline small_dz_engine)" and rows = "[[1]]" and rows' = "[[2], [3]]"])
    (simp_all add: parse_action_chunk_def wire_action_dim_def small_dz_engine_def chunk_init_def small_dz_cfg_def
      default_dreamzero_def Let_def)

theorem accepted_checkpoint_is_complete_witness:
  "\<exists>keys. load_files small_dz ''m'' [''1.st''] = Inr keys \<and> set keys = {''a.b'', ''a.w''}"
proof -
  have "load_shards small_dz [''a.b'', ''a.w''] ''m'' = Inr ()"
    by (simp add: load_shards_def small_dz_def jfield_def Let_def)
  from accepted_checkpoint_is_complete [OF this] show ?thesis
    by (auto simp: small_dz_def jfield_def)
qed

end
