(* ===== verification/ActionCodec.thy ===== *)
theory ActionCodec
  imports PyStr PredictorSpec "HOL-Library.Word"
begin

text \<open>
  Number codecs: the action tokens of \<open>models/vla_tokenize.py\<close>, the quantile scaling of
  \<open>models/action_norm.py\<close> and the INT8 weights of \<open>runtime/quantize.py\<close>. A tensor is a list of
  rows, its last axis a row; components are exact rationals, so an error bound proved here is
  that of the code before the rounding of its floats. An INT8 entry is an \<open>8 word\<close>.
\<close>

section \<open>Rounding and clamping\<close>

text \<open>\<open>torch.round\<close>: to the nearest integer, a tie to the even one.\<close>

definition round_even :: "rat \<Rightarrow> int" where
  "round_even x =
     (let f = \<lfloor>x\<rfloor>; r = x - of_int f
      in if r < 1 / 2 then f else if r > 1 / 2 then f + 1 else if even f then f else f + 1)"

definition clamp_int :: "int \<Rightarrow> int \<Rightarrow> int \<Rightarrow> int" where
  "clamp_int lo hi i = min (max i lo) hi"

lemma round_even_error: "\<bar>of_int (round_even x) - x\<bar> \<le> 1 / 2"
proof -
  have "of_int \<lfloor>x\<rfloor> \<le> x" "x < of_int \<lfloor>x\<rfloor> + 1" by linarith+
  then show ?thesis by (auto simp: round_even_def Let_def abs_le_iff field_simps)
qed

lemma round_even_of_int [simp]: "round_even (of_int i) = i"
  by (simp add: round_even_def)

lemma round_even_mono:
  assumes "x \<le> y"
  shows "round_even x \<le> round_even y"
proof (cases "\<lfloor>x\<rfloor> = \<lfloor>y\<rfloor>")
  case True
  with assms show ?thesis by (auto simp: round_even_def Let_def)
next
  case False
  with floor_mono [OF assms] have "\<lfloor>x\<rfloor> + 1 \<le> \<lfloor>y\<rfloor>" by linarith
  then show ?thesis by (auto simp: round_even_def Let_def)
qed

lemma round_even_between: "of_int a \<le> x \<Longrightarrow> x \<le> of_int b \<Longrightarrow> a \<le> round_even x \<and> round_even x \<le> b"
  using round_even_mono [of "of_int a" x] round_even_mono [of x "of_int b"] by simp

lemma clamp_int_id: "lo \<le> i \<Longrightarrow> i \<le> hi \<Longrightarrow> clamp_int lo hi i = i"
  by (simp add: clamp_int_def)

section \<open>Action tokens\<close>

definition safe_span :: "rat list \<Rightarrow> rat list \<Rightarrow> rat list option" where
  "safe_span low high =
     map_option (map (\<lambda>s. if s = 0 then 1 else s)) (broadcast (\<lambda>l h. h - l) low high)"

definition discretize_row :: "rat list \<Rightarrow> rat list \<Rightarrow> int \<Rightarrow> rat list \<Rightarrow> int list option" where
  "discretize_row low high n_bins row =
     Option.bind (broadcast max row low) (\<lambda>m.
     Option.bind (broadcast min m high) (\<lambda>clipped.
     Option.bind (broadcast (-) clipped low) (\<lambda>d.
     Option.bind (safe_span low high) (\<lambda>span.
     Option.bind (broadcast (/) d span) (\<lambda>frac.
       Some (map (\<lambda>f. clamp_int 0 (n_bins - 1) (round_even (f * of_int (n_bins - 1)))) frac))))))"

definition bins_error :: "int \<Rightarrow> exn" where
  "bins_error n_bins = ValueError (''bins must be >= 2, got '' @ int_str n_bins)"

definition size_mismatch :: exn where
  "size_mismatch = RuntimeError ''The size of tensor a must match the size of tensor b''"

definition all_rows :: "('a \<Rightarrow> 'b option) \<Rightarrow> 'a list \<Rightarrow> exn + 'b list" where
  "all_rows f rows = (case those (map f rows) of None \<Rightarrow> Inl size_mismatch | Some r \<Rightarrow> Inr r)"

definition discretize_actions :: "rat list list \<Rightarrow> rat list \<Rightarrow> rat list \<Rightarrow> int \<Rightarrow> exn + int list list" where
  "discretize_actions actions low high n_bins =
     (if n_bins < 2 then Inl (bins_error n_bins)
      else all_rows (discretize_row low high n_bins) actions)"

definition undiscretize_row :: "rat list \<Rightarrow> rat list \<Rightarrow> int \<Rightarrow> int list \<Rightarrow> rat list option" where
  "undiscretize_row low high n_bins row =
     Option.bind (broadcast (\<lambda>l h. h - l) low high) (\<lambda>span.
     Option.bind (broadcast (\<lambda>t s. of_int t / of_int (n_bins - 1) * s) row span) (\<lambda>offset.
       broadcast (+) low offset))"

definition undiscretize_actions :: "int list list \<Rightarrow> rat list \<Rightarrow> rat list \<Rightarrow> int \<Rightarrow> exn + rat list list" where
  "undiscretize_actions tokens low high n_bins =
     (if n_bins < 2 then Inl (bins_error n_bins)
      else all_rows (undiscretize_row low high n_bins) tokens)"

section \<open>Quantile scaling\<close>

definition denormalize_quantile ::
    "rat list list \<Rightarrow> rat list \<Rightarrow> rat list \<Rightarrow> rat \<Rightarrow> exn + rat list list" where
  "denormalize_quantile actions q01 q99 eps =
     (if length q01 \<noteq> length q99 then
        Inl (ValueError (''q01 shape ('' @ nat_str (length q01) @ '',) != q99 shape ('' @ nat_str (length q99) @ '',)''))
      else case find (\<lambda>row. length row \<noteq> length q01) actions of
        Some row \<Rightarrow> Inl (ValueError (''actions have '' @ nat_str (length row) @ '' channels but stats have ''
                      @ nat_str (length q01)))
      | None \<Rightarrow> Inr (map (\<lambda>row. map2 (\<lambda>x (lo, hi). (x + 1) / 2 * (hi - lo + eps) + lo) row (zip q01 q99)) actions))"

section \<open>INT8 weights\<close>

type_synonym weight = "rat list list"

record quantized_linear =
  qweight :: "8 word list list"
  ql_scale :: "rat list"
  ql_bias :: "rat list option"

fun nd_shape :: "rat list nd \<Rightarrow> nat list" where
  "nd_shape (Row r) = [length r]"
| "nd_shape (Rows rs) = [length rs, (case rs of [] \<Rightarrow> 0 | r # _ \<Rightarrow> length r)]"
| "nd_shape (Stack bs) =
     [length bs, (case bs of [] \<Rightarrow> 0 | b # _ \<Rightarrow> length b), (case concat bs of [] \<Rightarrow> 0 | r # _ \<Rightarrow> length r)]"

fun comma_join :: "string list \<Rightarrow> string" where
  "comma_join [] = []"
| "comma_join [x] = x"
| "comma_join (x # xs) = x @ '', '' @ comma_join xs"

definition shape_str :: "nat list \<Rightarrow> string" where
  "shape_str ns =
     (case ns of
        [n] \<Rightarrow> ''('' @ nat_str n @ '',)''
      | _ \<Rightarrow> ''('' @ comma_join (map nat_str ns) @ '')'')"

definition row_max :: "rat list \<Rightarrow> rat" where
  "row_max w = max (foldr (\<lambda>x m. max \<bar>x\<bar> m) w 0) (1 / 100000000)"

definition quantize_entry :: "rat \<Rightarrow> rat \<Rightarrow> 8 word" where
  "quantize_entry s x = word_of_int (clamp_int (- 128) 127 (round_even (x / s)))"

definition quantize_linear_symmetric :: "rat list nd \<Rightarrow> rat list option \<Rightarrow> exn + quantized_linear" where
  "quantize_linear_symmetric w bias =
     (case w of
        Rows rows \<Rightarrow>
          (if [] \<in> set rows then Inl (OtherException ''amax(): Expected reduction dim 1 to have non-zero size.'')
           else let scale = map (\<lambda>r. row_max r / 127) rows
                in Inr \<lparr>qweight = map2 (\<lambda>s r. map (quantize_entry s) r) scale rows,
                        ql_scale = scale, ql_bias = bias\<rparr>)
      | _ \<Rightarrow> Inl (ValueError (''expected 2-D weight; got shape '' @ shape_str (nd_shape w))))"

text \<open>The cast to a dtype is torch's; \<open>None\<close> keeps float32.\<close>

definition dequantize_linear :: "(rat \<Rightarrow> rat) option \<Rightarrow> ('z) quantized_linear_scheme \<Rightarrow> weight" where
  "dequantize_linear dtype q =
     (let out = map2 (\<lambda>row s. map (\<lambda>e. of_int (sint e) * s) row) (qweight q) (ql_scale q)
      in case dtype of None \<Rightarrow> out | Some cast \<Rightarrow> map (map cast) out)"

text \<open>The modules of a network, as the quantizer sees them: a linear layer, a quantized one, or
  any other module with its named children. A child reachable twice is two children here.\<close>

record qlinear_module = quantized_linear +
  out_features :: nat
  in_features :: nat

definition qlinear_init :: "quantized_linear \<Rightarrow> qlinear_module" where
  "qlinear_init q =
     \<lparr>qweight = qweight q, ql_scale = ql_scale q, ql_bias = ql_bias q,
      out_features = length (qweight q),
      in_features = (case qweight q of [] \<Rightarrow> 0 | r # _ \<Rightarrow> length r)\<rparr>"

definition qlinear_from_linear :: "weight \<Rightarrow> rat list option \<Rightarrow> exn + qlinear_module" where
  "qlinear_from_linear w b =
     (case quantize_linear_symmetric (Rows w) b of Inl x \<Rightarrow> Inl x | Inr q \<Rightarrow> Inr (qlinear_init q))"

text \<open>\<open>torch.nn.functional.linear\<close>.\<close>

definition nn_linear :: "weight \<Rightarrow> rat list option \<Rightarrow> rat list list \<Rightarrow> exn + rat list list" where
  "nn_linear w b xs =
     (if list_all (\<lambda>x. list_all (\<lambda>r. length r = length x) w) xs then
        Inr (map (\<lambda>x. let y = map (\<lambda>r. sum_list (map2 (*) x r)) w
                     in case b of None \<Rightarrow> y | Some c \<Rightarrow> map2 (+) y c) xs)
      else Inl (RuntimeError ''mat1 and mat2 shapes cannot be multiplied''))"

definition qlinear_forward :: "(rat \<Rightarrow> rat) \<Rightarrow> qlinear_module \<Rightarrow> rat list list \<Rightarrow> exn + rat list list" where
  "qlinear_forward cast q xs = nn_linear (dequantize_linear (Some cast) q) (ql_bias q) xs"

datatype nn_module =
    Linear weight "rat list option"
  | QLinear qlinear_module
  | Other "(string \<times> nn_module) list"

definition dotted :: "string \<Rightarrow> string \<Rightarrow> string" where
  "dotted prefix_name child = (if prefix_name \<noteq> [] then prefix_name @ ''.'' @ child else child)"

text \<open>\<open>Module.named_modules\<close>: the module itself, then its children's.\<close>

fun named_modules :: "string \<Rightarrow> nn_module \<Rightarrow> (string \<times> nn_module) list"
  and named_descendants :: "string \<Rightarrow> (string \<times> nn_module) list \<Rightarrow> (string \<times> nn_module) list" where
  "named_modules p (Linear w b) = [(p, Linear w b)]"
| "named_modules p (QLinear q) = [(p, QLinear q)]"
| "named_modules p (Other cs) = (p, Other cs) # named_descendants p cs"
| "named_descendants p [] = []"
| "named_descendants p ((c, m) # cs) = named_modules (dotted p c) m @ named_descendants p cs"

definition name_matches :: "string option \<Rightarrow> string \<Rightarrow> bool" where
  "name_matches name_filter name = (case name_filter of None \<Rightarrow> True | Some f \<Rightarrow> str_in f name)"

fun quantize_named ::
    "string option \<Rightarrow> (string \<times> nn_module) list \<Rightarrow> (string, quantized_linear) dict
      \<Rightarrow> exn + (string, quantized_linear) dict" where
  "quantize_named flt [] out = Inr out"
| "quantize_named flt ((name, Linear w b) # ms) out =
     (if name_matches flt name then
        (case quantize_linear_symmetric (Rows w) b of
           Inl x \<Rightarrow> Inl x
         | Inr q \<Rightarrow> quantize_named flt ms (AList.update name q out))
      else quantize_named flt ms out)"
| "quantize_named flt (_ # ms) out = quantize_named flt ms out"

definition quantize_module_linears ::
    "string option \<Rightarrow> nn_module \<Rightarrow> exn + (string, quantized_linear) dict" where
  "quantize_module_linears flt m = quantize_named flt (named_modules [] m) []"

text \<open>\<open>_recurse\<close>: the children rewritten, and the number of swaps or the exception that stopped
  the walk; the swaps made before it stay.\<close>

fun replace_in :: "string option \<Rightarrow> string \<Rightarrow> nn_module \<Rightarrow> nn_module \<times> (exn + nat)"
  and replace_children ::
    "string option \<Rightarrow> string \<Rightarrow> (string \<times> nn_module) list \<Rightarrow> (string \<times> nn_module) list \<times> (exn + nat)" where
  "replace_in flt p (Linear w b) = (Linear w b, Inr 0)"
| "replace_in flt p (QLinear q) = (QLinear q, Inr 0)"
| "replace_in flt p (Other cs) = (let (cs', r) = replace_children flt p cs in (Other cs', r))"
| "replace_children flt p [] = ([], Inr 0)"
| "replace_children flt p ((c, m) # cs) =
     (let name = dotted p c;
          (m', r) = (case m of
             Linear w b \<Rightarrow>
               (if name_matches flt name then
                  (case qlinear_from_linear w b of Inl x \<Rightarrow> (m, Inl x) | Inr q \<Rightarrow> (QLinear q, Inr 1))
                else replace_in flt name m)
           | _ \<Rightarrow> replace_in flt name m)
      in case r of
           Inl x \<Rightarrow> ((c, m') # cs, Inl x)
         | Inr n \<Rightarrow> (case replace_children flt p cs of
                       (cs', Inl x) \<Rightarrow> ((c, m') # cs', Inl x)
                     | (cs', Inr k) \<Rightarrow> ((c, m') # cs', Inr (n + k))))"

definition replace_linears_with_quantized :: "string option \<Rightarrow> nn_module \<Rightarrow> nn_module \<times> (exn + nat)" where
  "replace_linears_with_quantized flt m = replace_in flt [] m"

section \<open>Lemmas on action tokens\<close>

text \<open>One dimension of the two codecs.\<close>

definition bin_of :: "int \<Rightarrow> rat \<Rightarrow> rat \<Rightarrow> rat \<Rightarrow> int" where
  "bin_of n_bins lo hi x =
     clamp_int 0 (n_bins - 1) (round_even ((min (max x lo) hi - lo) / (if hi - lo = 0 then 1 else hi - lo)
       * of_int (n_bins - 1)))"

definition bin_value :: "int \<Rightarrow> rat \<Rightarrow> rat \<Rightarrow> int \<Rightarrow> rat" where
  "bin_value n_bins lo hi t = lo + of_int t / of_int (n_bins - 1) * (hi - lo)"

lemma discretize_row_eq:
  assumes "length low = length row" "length high = length row"
  shows "discretize_row low high n_bins row
    = Some (map (\<lambda>i. bin_of n_bins (low ! i) (high ! i) (row ! i)) [0 ..< length row])"
  using assms by (auto simp: discretize_row_def safe_span_def bin_of_def intro!: nth_equalityI)

lemma undiscretize_row_eq:
  assumes "length low = length row" "length high = length row"
  shows "undiscretize_row low high n_bins row
    = Some (map (\<lambda>i. bin_value n_bins (low ! i) (high ! i) (row ! i)) [0 ..< length row])"
  using assms by (auto simp: undiscretize_row_def bin_value_def intro!: nth_equalityI)

lemma all_rows_map: "(\<And>r. r \<in> set rows \<Longrightarrow> f r = Some (g r)) \<Longrightarrow> all_rows f rows = Inr (map g rows)"
proof -
  assume a: "\<And>r. r \<in> set rows \<Longrightarrow> f r = Some (g r)"
  have "those (map f rows) = Some (map g rows)"
    using a by (induction rows) auto
  then show ?thesis by (simp add: all_rows_def)
qed

lemma bin_of_range: "n_bins \<ge> 2 \<Longrightarrow> 0 \<le> bin_of n_bins lo hi x \<and> bin_of n_bins lo hi x < n_bins"
  by (auto simp: bin_of_def clamp_int_def)

lemma scale_unit: "0 \<le> f \<Longrightarrow> f \<le> 1 \<Longrightarrow> 0 \<le> n \<Longrightarrow> 0 \<le> f * n \<and> f * n \<le> (n :: rat)"
  by (simp add: mult_left_le_one_le)

lemma bin_value_offset:
  fixes n r c :: rat
  assumes "n > 0" "lo < hi"
  shows "lo + r / n * (hi - lo) - c = (r - (c - lo) / (hi - lo) * n) * ((hi - lo) / n)"
proof -
  have "hi - lo \<noteq> 0" "n \<noteq> 0" using assms by auto
  then have "(c - lo) / (hi - lo) * n * ((hi - lo) / n) = c - lo" by simp
  moreover have "r / n * (hi - lo) = r * ((hi - lo) / n)" by simp
  ultimately show ?thesis by (simp only: left_diff_distrib)
qed

lemma bin_of_unclamped:
  assumes "n_bins \<ge> 2" "lo < hi"
  shows "bin_of n_bins lo hi x = round_even ((min (max x lo) hi - lo) / (hi - lo) * of_int (n_bins - 1))"
proof -
  let ?f = "(min (max x lo) hi - lo) / (hi - lo)"
  have "0 \<le> ?f" "?f \<le> 1" using assms(2) by (auto simp: field_simps)
  moreover have "(0 :: rat) \<le> of_int (n_bins - 1)" using assms(1) by simp
  ultimately have "of_int 0 \<le> ?f * of_int (n_bins - 1)" "?f * of_int (n_bins - 1) \<le> of_int (n_bins - 1)"
    using scale_unit [of ?f "of_int (n_bins - 1)"] by (simp_all only: of_int_0)
  from round_even_between [OF this] show ?thesis
    using assms(2) by (simp add: bin_of_def clamp_int_id)
qed

lemma bin_value_bin_of:
  assumes "n_bins \<ge> 2" "lo \<le> hi"
  shows "\<bar>bin_value n_bins lo hi (bin_of n_bins lo hi x) - min (max x lo) hi\<bar>
    \<le> (hi - lo) / (2 * of_int (n_bins - 1))"
proof (cases "lo = hi")
  case True
  then show ?thesis by (auto simp: bin_value_def)
next
  case False
  with assms have lt: "lo < hi" by simp
  let ?n = "of_int (n_bins - 1) :: rat" and ?c = "min (max x lo) hi"
  let ?y = "(?c - lo) / (hi - lo) * ?n"
  have n: "?n > 0" using assms(1) by simp
  have "bin_value n_bins lo hi (bin_of n_bins lo hi x) - ?c = (of_int (round_even ?y) - ?y) * ((hi - lo) / ?n)"
    unfolding bin_value_def bin_of_unclamped [OF assms(1) lt] by (rule bin_value_offset [OF n lt])
  moreover have "\<bar>(of_int (round_even ?y) - ?y) * ((hi - lo) / ?n)\<bar> \<le> 1 / 2 * ((hi - lo) / ?n)"
    using round_even_error [of ?y] n lt by (simp only: abs_mult) (intro mult_mono; simp)
  moreover have "1 / 2 * ((hi - lo) / ?n) = (hi - lo) / (2 * ?n)" by simp
  ultimately show ?thesis by (simp only:)
qed

lemma bin_of_bin_value:
  assumes "n_bins \<ge> 2" "lo < hi" "0 \<le> t" "t < n_bins"
  shows "bin_of n_bins lo hi (bin_value n_bins lo hi t) = t"
proof -
  let ?n = "of_int (n_bins - 1) :: rat" and ?v = "bin_value n_bins lo hi t"
  have n: "?n > 0" using assms(1) by simp
  have "t \<le> n_bins - 1" using assms(4) by simp
  then have "(of_int t :: rat) \<le> ?n" using of_int_le_iff by blast
  with n assms(3) have "0 \<le> of_int t / ?n" "of_int t / ?n \<le> 1" by (auto simp: field_simps)
  then have "0 \<le> of_int t / ?n * (hi - lo)" "of_int t / ?n * (hi - lo) \<le> hi - lo"
    using scale_unit [of "of_int t / ?n" "hi - lo"] assms(2) by (simp_all only: diff_ge_0_iff_ge less_imp_le)
  then have "lo \<le> ?v" "?v \<le> hi" unfolding bin_value_def by linarith+
  then have "(min (max ?v lo) hi - lo) / (hi - lo) * ?n = of_int t"
    using n assms(2) by (simp add: bin_value_def)
  then show ?thesis by (simp add: bin_of_unclamped [OF assms(1,2)])
qed

lemma bin_of_mono:
  assumes "n_bins \<ge> 2" "lo \<le> hi" "x \<le> y"
  shows "bin_of n_bins lo hi x \<le> bin_of n_bins lo hi y"
proof (cases "lo = hi")
  case True
  then show ?thesis by (simp add: bin_of_def)
next
  case False
  with assms have lt: "lo < hi" by simp
  have "min (max x lo) hi \<le> min (max y lo) hi" using assms(3) by (auto simp: min_def max_def)
  then have "(min (max x lo) hi - lo) / (hi - lo) * of_int (n_bins - 1)
      \<le> (min (max y lo) hi - lo) / (hi - lo) * of_int (n_bins - 1)"
    using lt assms(1) by (intro mult_right_mono divide_right_mono) auto
  then show ?thesis by (simp add: bin_of_unclamped [OF assms(1) lt] round_even_mono)
qed

section \<open>Lemmas on quantized layers\<close>

definition quantized :: "weight \<Rightarrow> rat list option \<Rightarrow> quantized_linear" where
  "quantized w b =
     \<lparr>qweight = map (\<lambda>r. map (quantize_entry (row_max r / 127)) r) w,
      ql_scale = map (\<lambda>r. row_max r / 127) w, ql_bias = b\<rparr>"

lemma quantize_linear_eq:
  assumes "[] \<notin> set w"
  shows "quantize_linear_symmetric (Rows w) b = Inr (quantized w b)"
proof -
  have "map2 (\<lambda>s. map (quantize_entry s)) (map (\<lambda>r. row_max r / 127) w) w
      = map (\<lambda>r. map (quantize_entry (row_max r / 127)) r) w"
    by (induction w) auto
  with assms show ?thesis by (simp add: quantize_linear_symmetric_def quantized_def)
qed

lemma row_max_bound: "x \<in> set w \<Longrightarrow> \<bar>x\<bar> \<le> row_max w"
proof -
  assume "x \<in> set w"
  then have "\<bar>x\<bar> \<le> foldr (\<lambda>x m. max \<bar>x\<bar> m) w 0" by (induction w) (auto simp: le_max_iff_disj)
  then show ?thesis by (simp add: row_max_def le_max_iff_disj)
qed

lemma row_max_pos: "row_max w > 0"
  by (simp add: row_max_def less_max_iff_disj)

text \<open>With the scale of its own row an entry is rounded to -127..127, so neither clamp nor cast
  changes it.\<close>

lemma quantize_entry_exact:
  assumes "x \<in> set r"
  shows "sint (quantize_entry (row_max r / 127) x) = round_even (x / (row_max r / 127))
    \<and> \<bar>round_even (x / (row_max r / 127))\<bar> \<le> 127"
proof -
  let ?y = "x / (row_max r / 127)" and ?i = "round_even (x / (row_max r / 127))"
  have "\<bar>x\<bar> \<le> row_max r" "row_max r > 0" using row_max_bound [OF assms] row_max_pos by auto
  then have "of_int (- 127) \<le> ?y" "?y \<le> of_int 127" by (auto simp: field_simps abs_le_iff)
  from round_even_between [OF this] have i: "- 127 \<le> ?i" "?i \<le> 127" by auto
  then have "clamp_int (- 128) 127 ?i = ?i" by (simp add: clamp_int_id)
  moreover have "sint (word_of_int ?i :: 8 word) = ?i"
    using i by (simp add: int_word_sint)
  ultimately show ?thesis using i by (simp add: quantize_entry_def)
qed

lemma quantize_entry_error:
  assumes "x \<in> set r"
  defines "s \<equiv> row_max r / 127"
  shows "\<bar>of_int (sint (quantize_entry s x)) * s - x\<bar> \<le> s / 2"
proof -
  have s: "s > 0" using row_max_pos by (simp add: s_def)
  have "of_int (sint (quantize_entry s x)) * s - x = (of_int (round_even (x / s)) - x / s) * s"
    using quantize_entry_exact [OF assms(1)] s unfolding s_def [symmetric] by (simp add: left_diff_distrib)
  moreover have "\<bar>(of_int (round_even (x / s)) - x / s) * s\<bar> \<le> 1 / 2 * s"
    using round_even_error [of "x / s"] s by (simp only: abs_mult) (intro mult_mono; simp)
  ultimately show ?thesis by simp
qed

lemma dequantize_quantized:
  "dequantize_linear None (quantized w b)
    = map (\<lambda>r. map (\<lambda>x. of_int (sint (quantize_entry (row_max r / 127) x)) * (row_max r / 127)) r) w"
  by (simp add: dequantize_linear_def quantized_def) (induction w; simp)

lemma dequantize_init [simp]: "dequantize_linear d (qlinear_init q) = dequantize_linear d q"
  by (simp add: dequantize_linear_def qlinear_init_def)

lemma dequantize_id: "dequantize_linear (Some (\<lambda>x. x)) q = dequantize_linear None q"
  by (simp add: dequantize_linear_def)

lemma linear_error:
  fixes x r r' :: "rat list"
  assumes "length r = length x" "length r' = length x" "\<And>j. j < length x \<Longrightarrow> \<bar>r' ! j - r ! j\<bar> \<le> e"
  shows "\<bar>sum_list (map2 (*) x r') - sum_list (map2 (*) x r)\<bar> \<le> e * sum_list (map abs x)"
  using assms
proof (induction x arbitrary: r r')
  case (Cons a x)
  obtain c r1 c' r1' where r: "r = c # r1" "r' = c' # r1'"
    using Cons.prems(1,2) by (cases r; cases r'; simp)
  have ih: "\<bar>sum_list (map2 (*) x r1') - sum_list (map2 (*) x r1)\<bar> \<le> e * sum_list (map abs x)"
    using Cons.prems r by (intro Cons.IH) (auto dest: Cons.prems(3) [of "Suc _", simplified r, simplified])
  have "\<bar>c' - c\<bar> \<le> e" using Cons.prems(3) [of 0] r by simp
  then have "\<bar>a * c' - a * c\<bar> \<le> e * \<bar>a\<bar>"
    by (simp only: right_diff_distrib [symmetric] abs_mult mult.commute [of e] mult_left_mono abs_ge_zero)
  with ih show ?case unfolding r by (simp add: distrib_left)
qed simp

section \<open>Lemmas on module trees\<close>

text \<open>What \<open>torch\<close> enforces of a module's children, with no layer quantized yet and no linear layer
  without inputs.\<close>

fun plain_net :: "nn_module \<Rightarrow> bool" and plain_children :: "(string \<times> nn_module) list \<Rightarrow> bool" where
  "plain_net (Linear w b) = ([] \<notin> set w)"
| "plain_net (QLinear q) = False"
| "plain_net (Other cs) = (distinct (map fst cs) \<and> plain_children cs)"
| "plain_children [] = True"
| "plain_children ((c, m) # cs) = (c \<noteq> [] \<and> CHR ''.'' \<notin> set c \<and> plain_net m \<and> plain_children cs)"

fun matched :: "string option \<Rightarrow> (string \<times> nn_module) list \<Rightarrow> (string \<times> quantized_linear) list" where
  "matched flt [] = []"
| "matched flt ((name, Linear w b) # ms) =
     (if name_matches flt name then (name, quantized w b) # matched flt ms else matched flt ms)"
| "matched flt (_ # ms) = matched flt ms"

fun quantized_layers :: "(string \<times> nn_module) list \<Rightarrow> (string \<times> quantized_linear) list" where
  "quantized_layers [] = []"
| "quantized_layers ((name, QLinear q) # ms) = (name, quantized_linear.truncate q) # quantized_layers ms"
| "quantized_layers (_ # ms) = quantized_layers ms"

lemma matched_append [simp]: "matched flt (xs @ zs) = matched flt xs @ matched flt zs"
  by (induction flt xs rule: matched.induct) auto

lemma quantized_layers_append [simp]: "quantized_layers (xs @ zs) = quantized_layers xs @ quantized_layers zs"
  by (induction xs rule: quantized_layers.induct) auto

lemma matched_names: "set (map fst (matched flt ms)) \<subseteq> set (map fst ms)"
  by (induction flt ms rule: matched.induct) auto

lemma matched_distinct: "distinct (map fst ms) \<Longrightarrow> distinct (map fst (matched flt ms))"
proof (induction flt ms rule: matched.induct)
  case (2 flt name w b ms)
  then show ?case using matched_names [of flt ms] by auto
qed auto

lemma truncate_init [simp]: "quantized_linear.truncate (qlinear_init (quantized w b)) = quantized w b"
  by (simp add: qlinear_init_def quantized_linear.truncate_def quantized_def)

lemma plain_named:
  "plain_net m \<Longrightarrow> \<forall>(n, k) \<in> set (named_modules p m). case k of Linear w b \<Rightarrow> [] \<notin> set w | _ \<Rightarrow> True"
  "plain_children cs \<Longrightarrow> \<forall>(n, k) \<in> set (named_descendants p cs). case k of Linear w b \<Rightarrow> [] \<notin> set w | _ \<Rightarrow> True"
  by (induction p m and p cs rule: named_modules_named_descendants.induct) auto

lemma quantize_named_eq:
  assumes "\<forall>(n, k) \<in> set ms. case k of Linear w b \<Rightarrow> [] \<notin> set w | _ \<Rightarrow> True"
    and "distinct (map fst ms)" "fst ` set out \<inter> fst ` set ms = {}"
  shows "quantize_named flt ms out = Inr (out @ matched flt ms)"
  using assms
proof (induction flt ms out rule: quantize_named.induct)
  case (2 flt name w b ms out)
  have q: "quantize_linear_symmetric (Rows w) b = Inr (quantized w b)"
    using "2.prems"(1) by (simp add: quantize_linear_eq)
  have u: "AList.update name (quantized w b) out = out @ [(name, quantized w b)]"
    using "2.prems"(3) by (auto intro: update_fresh)
  show ?case
  proof (cases "name_matches flt name")
    case True
    have "quantize_named flt ms (out @ [(name, quantized w b)])
        = Inr ((out @ [(name, quantized w b)]) @ matched flt ms)"
      using "2.IH"(1) [OF True q] "2.prems" unfolding u by auto
    with True q u show ?thesis by simp
  next
    case False
    with "2.IH"(2) "2.prems" show ?thesis by auto
  qed
qed auto

lemma replace_matches:
  "plain_net m \<Longrightarrow> (\<And>w b. m = Linear w b \<Longrightarrow> \<not> name_matches flt p) \<Longrightarrow>
     snd (replace_in flt p m) = Inr (length (matched flt (named_modules p m)))
     \<and> quantized_layers (named_modules p (fst (replace_in flt p m))) = matched flt (named_modules p m)"
  "plain_children cs \<Longrightarrow>
     snd (replace_children flt p cs) = Inr (length (matched flt (named_descendants p cs)))
     \<and> quantized_layers (named_descendants p (fst (replace_children flt p cs))) = matched flt (named_descendants p cs)"
proof (induction p m and p cs rule: named_modules_named_descendants.induct)
  case (3 p cs)
  then show ?case by (cases "replace_children flt p cs") simp
next
  case (5 p c m cs)
  have rest: "snd (replace_children flt p cs) = Inr (length (matched flt (named_descendants p cs)))"
    "quantized_layers (named_descendants p (fst (replace_children flt p cs))) = matched flt (named_descendants p cs)"
    using "5.IH"(2) "5.prems" by auto
  obtain cs' where cs': "replace_children flt p cs = (cs', Inr (length (matched flt (named_descendants p cs))))"
    using rest(1) by (cases "replace_children flt p cs") auto
  show ?case
  proof (cases "\<exists>w b. m = Linear w b \<and> name_matches flt (dotted p c)")
    case True
    then obtain w b where m: "m = Linear w b" "name_matches flt (dotted p c)" by blast
    moreover have "qlinear_from_linear w b = Inr (qlinear_init (quantized w b))"
      using "5.prems" m by (simp add: qlinear_from_linear_def quantize_linear_eq)
    ultimately show ?thesis using cs' rest by simp
  next
    case False
    with "5.IH"(1) "5.prems" have one: "snd (replace_in flt (dotted p c) m) = Inr (length (matched flt (named_modules (dotted p c) m)))"
      "quantized_layers (named_modules (dotted p c) (fst (replace_in flt (dotted p c) m))) = matched flt (named_modules (dotted p c) m)"
      by auto
    obtain m' where m': "replace_in flt (dotted p c) m = (m', Inr (length (matched flt (named_modules (dotted p c) m))))"
      using one(1) by (cases "replace_in flt (dotted p c) m") auto
    have "replace_children flt p ((c, m) # cs) = ((c, m') # cs', Inr (length (matched flt (named_modules (dotted p c) m))
        + length (matched flt (named_descendants p cs))))"
      using False m' cs' by (cases m) auto
    then show ?thesis using one(2) rest(2) m' cs' by simp
  qed
qed auto

text \<open>Dotted names are unique.\<close>

definition below :: "string \<Rightarrow> string" where
  "below p = (if p \<noteq> [] then p @ ''.'' else [])"

lemma dotted_below: "dotted p c = below p @ c"
  by (simp add: dotted_def below_def)

lemma dot_free_prefix:
  assumes "c @ r = c' @ r'" "CHR ''.'' \<notin> set c" "CHR ''.'' \<notin> set c'"
    and "r = [] \<or> hd r = CHR ''.''" "r' = [] \<or> hd r' = CHR ''.''"
  shows "c = c'"
proof -
  have "takeWhile (\<lambda>x. x \<noteq> CHR ''.'') (c @ r) = c"
    if "CHR ''.'' \<notin> set c" "r = [] \<or> hd r = CHR ''.''" for c r :: string
    using that by (induction c) (cases r; auto)+
  with assms show ?thesis by metis
qed

lemma named_shape:
  "plain_net m \<Longrightarrow> p \<noteq> [] \<Longrightarrow> n \<in> fst ` set (named_modules p m) \<Longrightarrow>
     \<exists>r. n = p @ r \<and> (r = [] \<or> hd r = CHR ''.'')"
  "plain_children cs \<Longrightarrow> n \<in> fst ` set (named_descendants p cs) \<Longrightarrow>
     \<exists>c r. c \<in> fst ` set cs \<and> CHR ''.'' \<notin> set c \<and> c \<noteq> [] \<and> n = below p @ c @ r \<and> (r = [] \<or> hd r = CHR ''.'')"
proof (induction p m and p cs arbitrary: n and n rule: named_modules_named_descendants.induct)
  case (3 p cs)
  show ?case
  proof (cases "n = p")
    case False
    with "3.prems" have "n \<in> fst ` set (named_descendants p cs)" "plain_children cs" by auto
    from "3.IH" [OF this(2,1)] "3.prems"(2) show ?thesis by (auto simp: below_def)
  qed simp
next
  case (5 p c m cs)
  from "5.prems" consider "n \<in> fst ` set (named_modules (dotted p c) m)" | "n \<in> fst ` set (named_descendants p cs)"
    by auto
  then show ?case
  proof cases
    case 1
    have "\<exists>r. n = dotted p c @ r \<and> (r = [] \<or> hd r = CHR ''.'')"
      using 1 "5.prems"(1) by (intro "5.IH"(1)) (auto simp: dotted_def)
    with "5.prems"(1) show ?thesis by (auto simp: dotted_below)
  next
    case 2
    from "5.IH"(2) [OF _ this] "5.prems"(1) show ?thesis by auto
  qed
qed auto

lemma named_distinct:
  "plain_net m \<Longrightarrow> distinct (map fst (named_modules p m))"
  "plain_children cs \<Longrightarrow> distinct (map fst cs) \<Longrightarrow> distinct (map fst (named_descendants p cs))"
proof (induction p m and p cs rule: named_modules_named_descendants.induct)
  case (3 p cs)
  have "p \<notin> fst ` set (named_descendants p cs)"
  proof
    assume "p \<in> fst ` set (named_descendants p cs)"
    from named_shape(2) [OF _ this] "3.prems" obtain c r where "c \<noteq> []" "p = below p @ c @ r" by auto
    then have "length p > length (below p)" by (metis length_append length_greater_0_conv less_add_same_cancel1 trans_less_add1)
    then show False by (simp add: below_def split: if_splits)
  qed
  with 3 show ?case by simp
next
  case (5 p c m cs)
  have "fst ` set (named_modules (dotted p c) m) \<inter> fst ` set (named_descendants p cs) = {}"
  proof (rule equals0I)
    fix n assume "n \<in> fst ` set (named_modules (dotted p c) m) \<inter> fst ` set (named_descendants p cs)"
    then have n: "n \<in> fst ` set (named_modules (dotted p c) m)" "n \<in> fst ` set (named_descendants p cs)" by auto
    from named_shape(1) [OF _ _ n(1)] "5.prems"(1)
    obtain r where r: "n = below p @ c @ r" "r = [] \<or> hd r = CHR ''.''" by (auto simp: dotted_below)
    from named_shape(2) [OF _ n(2)] "5.prems"(1)
    obtain c' r' where r': "c' \<in> fst ` set cs" "CHR ''.'' \<notin> set c'" "n = below p @ c' @ r'" "r' = [] \<or> hd r' = CHR ''.''"
      by auto
    have "c = c'" using dot_free_prefix [OF _ _ r'(2) r(2) r'(4)] r(1) r'(3) "5.prems"(1) by auto
    with r'(1) "5.prems"(2) show False by auto
  qed
  with 5 show ?case by auto
qed auto

section \<open>Properties\<close>

text \<open>an action token decodes to the value that encodes to it: with at least two bins and
  non-empty ranges, \<open>discretize_actions\<close> undoes \<open>undiscretize_actions\<close> exactly.\<close>

theorem action_tokens_round_trip:
  assumes "n_bins \<ge> 2" "list_all2 (<) low high"
    and "list_all (\<lambda>row. length row = length low \<and> list_all (\<lambda>t. 0 \<le> t \<and> t < n_bins) row) tokens"
  shows "\<exists>actions. undiscretize_actions tokens low high n_bins = Inr actions
    \<and> discretize_actions actions low high n_bins = Inr tokens"
proof -
  define dec where "dec = (\<lambda>row. map (\<lambda>i. bin_value n_bins (low ! i) (high ! i) (row ! i)) [0 ..< length row])"
  have lens: "length high = length low" using assms(2) by (simp add: list_all2_lengthD)
  have rows: "\<And>row. row \<in> set tokens \<Longrightarrow> length row = length low \<and> (\<forall>i < length low. 0 \<le> row ! i \<and> row ! i < n_bins)"
    using assms(3) by (simp add: list_all_iff)
  have "all_rows (undiscretize_row low high n_bins) tokens = Inr (map dec tokens)"
    using rows lens by (intro all_rows_map) (simp add: undiscretize_row_eq dec_def)
  moreover have "all_rows (discretize_row low high n_bins) (map dec tokens) = Inr tokens"
  proof -
    have "discretize_row low high n_bins (dec row) = Some row" if "row \<in> set tokens" for row
      using rows [OF that] lens assms(1) list_all2_nthD [OF assms(2)]
      by (simp add: discretize_row_eq dec_def) (intro nth_equalityI; simp add: bin_of_bin_value)
    then have "those (map (discretize_row low high n_bins) (map dec tokens)) = Some tokens"
      by (induction tokens) auto
    then show ?thesis by (simp add: all_rows_def)
  qed
  ultimately show ?thesis using assms(1) by (simp add: discretize_actions_def undiscretize_actions_def)
qed

text \<open>an action is encoded to tokens below the number of bins and decoded to within half a
  bin of its value clamped to the range of its dimension, also where that range has width 0.\<close>

theorem action_coding_error_is_half_a_bin:
  assumes "n_bins \<ge> 2" "list_all2 (\<le>) low high" "list_all (\<lambda>row. length row = length low) actions"
  shows "\<exists>tokens decoded. discretize_actions actions low high n_bins = Inr tokens
    \<and> undiscretize_actions tokens low high n_bins = Inr decoded
    \<and> list_all (list_all (\<lambda>t. 0 \<le> t \<and> t < n_bins)) tokens
    \<and> list_all2 (\<lambda>row row'. length row' = length low \<and>
        list_all (\<lambda>i. \<bar>row' ! i - min (max (row ! i) (low ! i)) (high ! i)\<bar>
          \<le> (high ! i - low ! i) / (2 * of_int (n_bins - 1))) [0 ..< length low]) actions decoded"
proof -
  define enc where "enc = (\<lambda>row. map (\<lambda>i. bin_of n_bins (low ! i) (high ! i) (row ! i)) [0 ..< length row])"
  define dec where "dec = (\<lambda>row. map (\<lambda>i. bin_value n_bins (low ! i) (high ! i) (row ! i)) [0 ..< length row])"
  have lens: "length high = length low" using assms(2) by (simp add: list_all2_lengthD)
  have rows: "\<And>row. row \<in> set actions \<Longrightarrow> length row = length low"
    using assms(3) by (simp add: list_all_iff)
  have "all_rows (discretize_row low high n_bins) actions = Inr (map enc actions)"
    using rows lens by (intro all_rows_map) (simp add: discretize_row_eq enc_def)
  moreover have "all_rows (undiscretize_row low high n_bins) (map enc actions) = Inr (map dec (map enc actions))"
    using rows lens by (intro all_rows_map) (auto simp: undiscretize_row_eq dec_def enc_def)
  moreover have "list_all (list_all (\<lambda>t. 0 \<le> t \<and> t < n_bins)) (map enc actions)"
    using bin_of_range [OF assms(1)] by (auto simp: list_all_iff enc_def)
  moreover have "list_all2 (\<lambda>row row'. length row' = length low \<and>
      list_all (\<lambda>i. \<bar>row' ! i - min (max (row ! i) (low ! i)) (high ! i)\<bar>
        \<le> (high ! i - low ! i) / (2 * of_int (n_bins - 1))) [0 ..< length low]) actions (map dec (map enc actions))"
    using rows bin_value_bin_of [OF assms(1)] list_all2_nthD [OF assms(2)]
    by (auto simp: list_all2_map2 list_all2_same list_all_iff enc_def dec_def)
  ultimately show ?thesis using assms(1) by (auto simp: discretize_actions_def undiscretize_actions_def)
qed

text \<open>symmetric INT8 quantization of a weight matrix keeps every entry within half a step of its
  row: the stored bytes are at most 127 in size, so neither the clamp nor the cast to \<open>int8\<close>
  changes a value, and dequantizing gives back each weight up to half of its row's scale.\<close>

theorem quantized_weights_are_within_half_a_step:
  assumes "[] \<notin> set w"
  shows "\<exists>q. quantize_linear_symmetric (Rows w) b = Inr q \<and> length (ql_scale q) = length w
    \<and> list_all (list_all (\<lambda>e. \<bar>sint e\<bar> \<le> 127)) (qweight q)
    \<and> list_all2 (\<lambda>(row, s) row'. list_all2 (\<lambda>x x'. \<bar>x' - x\<bar> \<le> s / 2) row row')
        (zip w (ql_scale q)) (dequantize_linear None q)"
proof (intro exI conjI)
  show "quantize_linear_symmetric (Rows w) b = Inr (quantized w b)" using assms by (rule quantize_linear_eq)
  show "length (ql_scale (quantized w b)) = length w" by (simp add: quantized_def)
  show "list_all (list_all (\<lambda>e. \<bar>sint e\<bar> \<le> 127)) (qweight (quantized w b))"
    using quantize_entry_exact by (auto simp: quantized_def list_all_iff)
  have z: "zip w (ql_scale (quantized w b)) = map (\<lambda>r. (r, row_max r / 127)) w"
    unfolding quantized_def by (induction w) auto
  show "list_all2 (\<lambda>(row, s) row'. list_all2 (\<lambda>x x'. \<bar>x' - x\<bar> \<le> s / 2) row row')
      (zip w (ql_scale (quantized w b))) (dequantize_linear None (quantized w b))"
    unfolding dequantize_quantized z list_all2_map1 list_all2_map2 list_all2_same case_prod_conv
    using quantize_entry_error by blast
qed

text \<open>C28: a quantized layer answers, without the cast of the input's dtype, each output within half
  its row's scale times the absolute sum of the input of what the original layer answers.\<close>

theorem quantized_layer_error:
  assumes "[] \<notin> set w" "list_all (\<lambda>r. length r = n) w" "list_all (\<lambda>x. length x = n) xs"
    and "\<And>c. b = Some c \<Longrightarrow> length c = length w"
  shows "\<exists>q out ref. qlinear_from_linear w b = Inr q \<and> qlinear_forward (\<lambda>x. x) q xs = Inr out
    \<and> nn_linear w b xs = Inr ref
    \<and> list_all2 (\<lambda>x (o', r'). length o' = length w \<and> length r' = length w
        \<and> list_all (\<lambda>i. \<bar>o' ! i - r' ! i\<bar> \<le> row_max (w ! i) / 127 / 2 * sum_list (map abs x)) [0 ..< length w])
        xs (zip out ref)"
proof -
  define q where "q = qlinear_init (quantized w b)"
  define W where "W = dequantize_linear None (quantized w b)"
  define f where "f = (\<lambda>V x. let y = map (\<lambda>r. sum_list (map2 (*) x r)) V
      in case b of None \<Rightarrow> y | Some c \<Rightarrow> map2 (+) y c)"
  have W: "length W = length w" "\<And>i. i < length w \<Longrightarrow> length (W ! i) = length (w ! i)"
    by (simp_all add: W_def dequantize_quantized)
  have lw: "\<And>i. i < length w \<Longrightarrow> length (w ! i) = n" using assms(2) by (simp add: list_all_length)
  have "list_all (\<lambda>r. length r = n) W" using W lw by (simp add: list_all_length)
  then have ok: "list_all (\<lambda>x. list_all (\<lambda>r. length r = length x) W) xs"
      "list_all (\<lambda>x. list_all (\<lambda>r. length r = length x) w) xs"
    using assms(2,3) by (auto simp: list_all_iff)
  have one: "\<bar>f W x ! i - f w x ! i\<bar> \<le> row_max (w ! i) / 127 / 2 * sum_list (map abs x)"
    if "x \<in> set xs" "i < length w" for x i
  proof -
    have lx: "length x = n" using assms(3) that(1) by (simp add: list_all_iff)
    have "\<bar>W ! i ! j - w ! i ! j\<bar> \<le> row_max (w ! i) / 127 / 2" if "j < n" for j
      using quantize_entry_error [of "w ! i ! j" "w ! i"] that lw \<open>i < length w\<close>
      by (simp add: W_def dequantize_quantized)
    then have "\<bar>sum_list (map2 (*) x (W ! i)) - sum_list (map2 (*) x (w ! i))\<bar>
        \<le> row_max (w ! i) / 127 / 2 * sum_list (map abs x)"
      using W lw lx that(2) by (intro linear_error) auto
    moreover have "f V x ! i = sum_list (map2 (*) x (V ! i)) + (case b of None \<Rightarrow> 0 | Some c \<Rightarrow> c ! i)"
      if "length V = length w" for V
      using \<open>i < length w\<close> that assms(4) by (cases b) (simp_all add: f_def)
    ultimately show ?thesis using W(1) by (simp only: refl add_diff_cancel_right)
  qed
  have len: "length (f V x) = length w" if "length V = length w" for V x
    using that assms(4) by (cases b) (auto simp: f_def)
  have "qlinear_forward (\<lambda>x. x) q xs = Inr (map (f W) xs)" "nn_linear w b xs = Inr (map (f w) xs)"
    using ok unfolding qlinear_forward_def dequantize_id q_def dequantize_init W_def [symmetric]
    by (simp_all add: nn_linear_def f_def qlinear_init_def quantized_def)
  moreover have "qlinear_from_linear w b = Inr q"
    by (simp add: qlinear_from_linear_def quantize_linear_eq [OF assms(1)] q_def)
  moreover have "zip (map (f W) xs) (map (f w) xs) = map (\<lambda>x. (f W x, f w x)) xs"
    by (induction xs) auto
  moreover have "list_all2 (\<lambda>x (o', r'). length o' = length w \<and> length r' = length w
      \<and> list_all (\<lambda>i. \<bar>o' ! i - r' ! i\<bar> \<le> row_max (w ! i) / 127 / 2 * sum_list (map abs x)) [0 ..< length w])
      xs (map (\<lambda>x. (f W x, f w x)) xs)"
    unfolding list_all2_map2 list_all2_same case_prod_conv
  proof (intro ballI conjI)
    fix x assume x: "x \<in> set xs"
    show "length (f W x) = length w" "length (f w x) = length w" using len W(1) by simp_all
    show "list_all (\<lambda>i. \<bar>f W x ! i - f w x ! i\<bar> \<le> row_max (w ! i) / 127 / 2 * sum_list (map abs x)) [0 ..< length w]"
      unfolding list_all_iff
    proof (intro ballI)
      fix i assume "i \<in> set [0 ..< length w]"
      then have "i < length w" by simp
      from one [OF x this] show "\<bar>f W x ! i - f w x ! i\<bar> \<le> row_max (w ! i) / 127 / 2 * sum_list (map abs x)" .
    qed
  qed
  ultimately show ?thesis by (intro exI [of _ q] exI [of _ "map (f W) xs"] exI [of _ "map (f w) xs"]) simp
qed

text \<open>C27: the in-place swap and the pure quantizer agree: on a network whose children are named as
  torch demands, \<open>replace_linears_with_quantized\<close> swaps exactly the layers that
  \<open>quantize_module_linears\<close> lists, each for the same bytes, scale and bias under the same dotted
  name, and returns their number. The root has to be a container.\<close>

theorem swapped_layers_are_the_quantized_ones:
  assumes "plain_net (Other cs)"
  shows "\<exists>d. quantize_module_linears flt (Other cs) = Inr d
    \<and> snd (replace_linears_with_quantized flt (Other cs)) = Inr (length d)
    \<and> quantized_layers (named_modules [] (fst (replace_linears_with_quantized flt (Other cs)))) = d"
proof (intro exI conjI)
  show "quantize_module_linears flt (Other cs) = Inr (matched flt (named_modules [] (Other cs)))"
    unfolding quantize_module_linears_def
    using quantize_named_eq [OF plain_named(1) [OF assms] named_distinct(1) [OF assms], of "[]"] by simp
  have "snd (replace_in flt [] (Other cs)) = Inr (length (matched flt (named_modules [] (Other cs))))
      \<and> quantized_layers (named_modules [] (fst (replace_in flt [] (Other cs)))) = matched flt (named_modules [] (Other cs))"
    by (rule replace_matches(1) [OF assms]) simp
  then show "snd (replace_linears_with_quantized flt (Other cs)) = Inr (length (matched flt (named_modules [] (Other cs))))"
    "quantized_layers (named_modules [] (fst (replace_linears_with_quantized flt (Other cs))))
      = matched flt (named_modules [] (Other cs))"
    by (simp_all only: replace_linears_with_quantized_def)
qed

text \<open>A network that is one linear layer is quantized by the one and left alone by the other.\<close>

lemma linear_root_is_not_swapped:
  "replace_linears_with_quantized flt (Linear w b) = (Linear w b, Inr 0)"
  "[] \<notin> set w \<Longrightarrow> quantize_module_linears None (Linear w b) = Inr [([], quantized w b)]"
  by (simp_all add: replace_linears_with_quantized_def quantize_module_linears_def name_matches_def
      quantize_linear_eq)

text \<open>the quantile scaling takes the ends of the model's interval to the quantiles: with no
  padding, -1 decodes to \<open>q01\<close> and 1 to \<open>q99\<close>, and scaling back recovers every action whose
  padded span is not zero.\<close>

theorem quantile_scaling_is_inverted:
  assumes "length q01 = length q99" "list_all (\<lambda>row. length row = length q01) actions"
    and "list_all2 (\<lambda>lo hi. hi - lo + eps \<noteq> 0) q01 q99"
  shows "\<exists>out. denormalize_quantile actions q01 q99 eps = Inr out
    \<and> map (\<lambda>row. map2 (\<lambda>y (lo, hi). (y - lo) / (hi - lo + eps) * 2 - 1) row (zip q01 q99)) out = actions
    \<and> denormalize_quantile [replicate (length q01) (- 1), replicate (length q01) 1] q01 q99 0 = Inr [q01, q99]"
proof (intro exI conjI)
  define g where "g = (\<lambda>eps :: rat. map (\<lambda>row. map2 (\<lambda>x (lo, hi). (x + 1) / 2 * (hi - lo + eps) + lo) row (zip q01 q99)))"
  have ok: "find (\<lambda>row. length row \<noteq> length q01) actions = None"
    using assms(2) by (auto simp: find_None_iff list_all_iff)
  show "denormalize_quantile actions q01 q99 eps = Inr (g eps actions)"
    using ok assms(1) by (simp add: denormalize_quantile_def g_def)
  have "map2 (\<lambda>y (lo, hi). (y - lo) / (hi - lo + eps) * 2 - 1)
      (map2 (\<lambda>x (lo, hi). (x + 1) / 2 * (hi - lo + eps) + lo) row (zip q01 q99)) (zip q01 q99) = row"
    if "length row = length q01" for row
    using that assms(1) list_all2_nthD [OF assms(3)] by (intro nth_equalityI) auto
  then show "map (\<lambda>row. map2 (\<lambda>y (lo, hi). (y - lo) / (hi - lo + eps) * 2 - 1) row (zip q01 q99)) (g eps actions) = actions"
    using assms(2) by (auto simp: g_def list_all_iff intro: map_idI)
  show "denormalize_quantile [replicate (length q01) (- 1), replicate (length q01) 1] q01 q99 0 = Inr [q01, q99]"
    using assms(1) by (auto simp: denormalize_quantile_def field_simps intro!: nth_equalityI)
qed

section \<open>Witnesses\<close>

theorem action_tokens_round_trip_witness:
  "\<exists>actions. undiscretize_actions [[0, 3], [2, 1]] [0, - 1] [1, 1] 4 = Inr actions
    \<and> discretize_actions actions [0, - 1] [1, 1] 4 = Inr [[0, 3], [2, 1]]"
  by (rule action_tokens_round_trip) simp_all

theorem action_coding_error_is_half_a_bin_witness:
  "\<exists>tokens decoded. discretize_actions [[1 / 3, 5], [- 1, 0]] [0, 2] [1, 2] 256 = Inr tokens
    \<and> undiscretize_actions tokens [0, 2] [1, 2] 256 = Inr decoded
    \<and> list_all (list_all (\<lambda>t. 0 \<le> t \<and> t < 256)) tokens
    \<and> list_all2 (\<lambda>row row'. length row' = length [0, 2 :: rat] \<and>
        list_all (\<lambda>i. \<bar>row' ! i - min (max (row ! i) ([0, 2] ! i)) ([1, 2] ! i)\<bar>
          \<le> ([1, 2] ! i - [0, 2] ! i) / (2 * of_int (256 - 1))) [0 ..< length [0, 2 :: rat]])
        [[1 / 3, 5], [- 1, 0]] decoded"
  by (rule action_coding_error_is_half_a_bin) simp_all

theorem quantized_weights_are_within_half_a_step_witness:
  "\<exists>q. quantize_linear_symmetric (Rows [[1, - 2], [0, 0]]) None = Inr q \<and> length (ql_scale q) = length [[1, - 2], [0, 0 :: rat]]
    \<and> list_all (list_all (\<lambda>e. \<bar>sint e\<bar> \<le> 127)) (qweight q)
    \<and> list_all2 (\<lambda>(row, s) row'. list_all2 (\<lambda>x x'. \<bar>x' - x\<bar> \<le> s / 2) row row')
        (zip [[1, - 2], [0, 0]] (ql_scale q)) (dequantize_linear None q)"
  by (rule quantized_weights_are_within_half_a_step) simp

theorem quantized_layer_error_witness:
  "\<exists>q out ref. qlinear_from_linear [[1, - 2], [1 / 2, 0]] (Some [1, 1]) = Inr q
    \<and> qlinear_forward (\<lambda>x. x) q [[3, 1]] = Inr out \<and> nn_linear [[1, - 2], [1 / 2, 0]] (Some [1, 1]) [[3, 1]] = Inr ref
    \<and> list_all2 (\<lambda>x (o', r'). length o' = length [[1, - 2], [1 / 2, 0 :: rat]] \<and> length r' = length [[1, - 2], [1 / 2, 0 :: rat]]
        \<and> list_all (\<lambda>i. \<bar>o' ! i - r' ! i\<bar> \<le> row_max ([[1, - 2], [1 / 2, 0]] ! i) / 127 / 2 * sum_list (map abs x))
            [0 ..< length [[1, - 2], [1 / 2, 0 :: rat]]])
        [[3, 1]] (zip out ref)"
  by (rule quantized_layer_error [where n = 2]) auto

theorem swapped_layers_are_the_quantized_ones_witness:
  "\<exists>d. quantize_module_linears (Some ''dit'') (Other [(''dit'', Other [(''q'', Linear [[1]] None)]), (''vae'', Linear [[2]] None)]) = Inr d
    \<and> snd (replace_linears_with_quantized (Some ''dit'') (Other [(''dit'', Other [(''q'', Linear [[1]] None)]), (''vae'', Linear [[2]] None)]))
        = Inr (length d)
    \<and> quantized_layers (named_modules [] (fst (replace_linears_with_quantized (Some ''dit'')
        (Other [(''dit'', Other [(''q'', Linear [[1]] None)]), (''vae'', Linear [[2]] None)])))) = d"
  by (rule swapped_layers_are_the_quantized_ones) simp

theorem quantile_scaling_is_inverted_witness:
  "\<exists>out. denormalize_quantile [[0, 1 / 2]] [0, - 3] [2, 5] 0 = Inr out
    \<and> map (\<lambda>row. map2 (\<lambda>y (lo, hi). (y - lo) / (hi - lo + 0) * 2 - 1) row (zip [0, - 3] [2, 5])) out = [[0, 1 / 2]]
    \<and> denormalize_quantile [replicate (length [0, - 3 :: rat]) (- 1), replicate (length [0, - 3 :: rat]) 1] [0, - 3] [2, 5] 0
        = Inr [[0, - 3], [2, 5]]"
  by (rule quantile_scaling_is_inverted) simp_all

end
