(* ===== verification/VlaEngine.thy ===== *)
theory VlaEngine
  imports ChunkEngine
begin

text \<open>
  The engine of \<open>models/vla.py\<close>: a vision-language-action model that decodes chunks of action
  tokens. The pipeline is a parameter (\<open>_VLAPipeline\<close>); the package has none to load, its
  \<open>build_pipeline\<close> (\<open>models/vla_pipeline.py\<close>) always raises. Whatever a pipeline draws at random is
  part of its state. Costs are exact rationals; tensors are nested lists.
\<close>

record vla_config =
  vc_repo :: string
  vc_device_index :: int
  vc_dtype :: string
  vc_prompt :: "string option"
  vc_action_dim :: int
  vc_action_chunk :: int
  vc_action_bins :: int
  vc_plan_candidates :: int
  vc_plan_batched :: bool
  vc_space :: "string option"

definition default_vla :: vla_config where
  "default_vla =
     \<lparr>vc_repo = ''openvla/openvla-7b'', vc_device_index = 0, vc_dtype = ''bfloat16'', vc_prompt = None,
      vc_action_dim = 7, vc_action_chunk = 1, vc_action_bins = 256, vc_plan_candidates = 8,
      vc_plan_batched = True, vc_space = None\<rparr>"

type_synonym 'f chunk = "'f list list"

record ('s, 'x, 'f, 'g) vla_pipeline =
  vl_supports_batch :: bool
  vl_reset :: "'s \<Rightarrow> string \<Rightarrow> string option \<Rightarrow> 's \<times> (exn + unit)"
  vl_encode :: "'s \<Rightarrow> string \<Rightarrow> conditioning_input \<Rightarrow> 's \<times> (exn + 'x)"
  vl_decode :: "'s \<Rightarrow> string \<Rightarrow> 'x \<Rightarrow> int \<Rightarrow> 's \<times> (exn + 'f chunk list)"
  vl_append :: "'s \<Rightarrow> string \<Rightarrow> 'f chunk \<Rightarrow> 'x \<Rightarrow> 's \<times> (exn + 'x)"
  vl_score :: "'s \<Rightarrow> string \<Rightarrow> 'f chunk list \<Rightarrow> 'g \<Rightarrow> 's \<times> (exn + rat list)"
  vl_close :: "'s \<Rightarrow> string \<Rightarrow> 's"

text \<open>A session holds the proposed chunk.\<close>

record ('s, 'f) vla_engine =
  ve_config :: vla_config
  ve_backend :: string
  ve_pipeline :: "'s option"
  ve_sessions :: "(string, 'f chunk option) dict"

section \<open>Operations\<close>

definition vla_init :: "string \<Rightarrow> vla_config option \<Rightarrow> 's option \<Rightarrow> ('s, 'f) vla_engine" where
  "vla_init backend c pipeline =
     \<lparr>ve_config = (case c of None \<Rightarrow> default_vla | Some c \<Rightarrow> c), ve_backend = backend,
      ve_pipeline = pipeline, ve_sessions = []\<rparr>"

definition vla_info :: "('s, 'f) vla_engine \<Rightarrow> engine_info" where
  "vla_info e =
     \<lparr>ei_model_name = ''vla'', ei_backend = ve_backend e,
      ei_device = ve_backend e @ '':'' @ int_str (vc_device_index (ve_config e)),
      ei_dtype = vc_dtype (ve_config e), ei_ready = ve_pipeline e \<noteq> None\<rparr>"

definition vla_build_pipeline :: "vla_config \<Rightarrow> exn + 's" where
  "vla_build_pipeline c =
     Inl (NotImplementedError (''VLA action-token decode is a Phase-1 GPU port (see docs/VLA_PORT_PLAN.md). ''
       @ ''It needs the model bundle ('' @ vc_repo c @ '') + transformers, a GPU, and the ''
       @ ''action detokenizer. Inject a _VLAPipeline (the fake-pipeline pattern) for ''
       @ ''CPU development and testing instead.''))"

text \<open>\<open>load\<close>, and \<open>_require_pipeline\<close> that calls it.\<close>

definition vla_load :: "('s, 'f) vla_engine \<Rightarrow> ('s, 'f) vla_engine \<times> (exn + 's)" where
  "vla_load e =
     (case ve_pipeline e of
        Some s \<Rightarrow> (e, Inr s)
      | None \<Rightarrow> (case vla_build_pipeline (ve_config e) of
                  Inl x \<Rightarrow> (e, Inl x)
                | Inr s \<Rightarrow> (e\<lparr>ve_pipeline := Some s\<rparr>, Inr s)))"

definition vla_reset ::
    "('s, 'x, 'f, 'g) vla_pipeline \<Rightarrow> string \<Rightarrow> conditioning_input \<Rightarrow> ('s, 'f) vla_engine
      \<Rightarrow> ('s, 'f) vla_engine \<times> (exn + 'x world_state)" where
  "vla_reset P sid cond e =
     (case vla_load e of
        (e, Inl x) \<Rightarrow> (e, Inl x)
      | (e, Inr s) \<Rightarrow>
          (case vl_reset P s sid (vc_prompt (ve_config e)) of
             (s, Inl x) \<Rightarrow> (e\<lparr>ve_pipeline := Some s\<rparr>, Inl x)
           | (s, Inr _) \<Rightarrow>
               (case vl_encode P s sid cond of
                  (s, Inl x) \<Rightarrow> (e\<lparr>ve_pipeline := Some s\<rparr>, Inl x)
                | (s, Inr ctx) \<Rightarrow>
                    (e\<lparr>ve_pipeline := Some s, ve_sessions := AList.update sid None (ve_sessions e)\<rparr>,
                     Inr \<lparr>ws_context = ctx, ws_step_index = 0, ws_session_id = sid\<rparr>))))"

definition vla_session_for :: "('s, 'f) vla_engine \<Rightarrow> 'x world_state \<Rightarrow> exn + 'f chunk option" where
  "vla_session_for e st =
     (case map_of (ve_sessions e) (ws_session_id st) of
        None \<Rightarrow> Inl (KeyError (''unknown session '' @ py_repr (ws_session_id st)
                  @ '' - WorldState must come from this engine's reset()''))
      | Some x \<Rightarrow> Inr x)"

definition vla_wire_space :: "vla_config \<Rightarrow> string" where
  "vla_wire_space c =
     (let derived = ''vla_'' @ int_str (vc_action_dim c) @ ''d''
      in case vc_space c of None \<Rightarrow> derived | Some s \<Rightarrow> if s = [] then derived else s)"

definition vla_parse_chunk :: "vla_config \<Rightarrow> 'f action \<Rightarrow> exn + 'f chunk" where
  "vla_parse_chunk c a =
     (let a_dim = vc_action_dim c; n = int (length (act_values a))
      in if a_dim = 0 then Inl (OtherException ''integer modulo by zero'')
         else if n mod a_dim \<noteq> 0 then
           Inl (ValueError (''action chunk length '' @ int_str n @ '' is not a multiple of action_dim=''
             @ int_str a_dim @ '' (space='' @ py_repr (act_space a) @ '')''))
         else if a_dim < 0 then Inl (RuntimeError ''invalid shape dimension'')
         else Inr (chunks_of (nat a_dim) (act_values a)))"

definition no_rows :: exn where
  "no_rows = OtherException ''index 0 is out of bounds for dimension 0 with size 0''"

definition vla_step ::
    "('s, 'x, 'f, 'g) vla_pipeline \<Rightarrow> 'x world_state \<Rightarrow> 'f action \<Rightarrow> ('s, 'f) vla_engine
      \<Rightarrow> ('s, 'f) vla_engine \<times> (exn + ('x world_state \<times> latent_step))" where
  "vla_step P st a e =
     (let sid = ws_session_id st in
      case vla_load e of
        (e, Inl x) \<Rightarrow> (e, Inl x)
      | (e, Inr s) \<Rightarrow>
          (case vla_session_for e st of
             Inl x \<Rightarrow> (e, Inl x)
           | Inr _ \<Rightarrow>
               (case vla_parse_chunk (ve_config e) a of
                  Inl x \<Rightarrow> (e, Inl x)
                | Inr executed \<Rightarrow>
                    (case vl_append P s sid executed (ws_context st) of
                       (s, Inl x) \<Rightarrow> (e\<lparr>ve_pipeline := Some s\<rparr>, Inl x)
                     | (s, Inr ctx) \<Rightarrow>
                         (case vl_decode P s sid ctx 1 of
                            (s, Inl x) \<Rightarrow> (e\<lparr>ve_pipeline := Some s\<rparr>, Inl x)
                          | (s, Inr []) \<Rightarrow> (e\<lparr>ve_pipeline := Some s\<rparr>, Inl no_rows)
                          | (s, Inr (c # _)) \<Rightarrow>
                              (e\<lparr>ve_pipeline := Some s, ve_sessions := AList.update sid (Some c) (ve_sessions e)\<rparr>,
                               Inr (\<lparr>ws_context = ctx, ws_step_index = ws_step_index st + 1, ws_session_id = sid\<rparr>,
                                    \<lparr>ls_step_index = ws_step_index st + 1, ls_energy = None, ls_frame = None\<rparr>)))))))"

text \<open>The candidates: \<open>n\<close> decodes of one, stacked, or one decode of \<open>n\<close>.\<close>

fun decode_each ::
    "('s, 'x, 'f, 'g) vla_pipeline \<Rightarrow> string \<Rightarrow> 'x \<Rightarrow> nat \<Rightarrow> 's \<Rightarrow> 's \<times> (exn + 'f chunk list)" where
  "decode_each P sid ctx 0 s = (s, Inr [])"
| "decode_each P sid ctx (Suc k) s =
     (case vl_decode P s sid ctx 1 of
        (s, Inl x) \<Rightarrow> (s, Inl x)
      | (s, Inr []) \<Rightarrow> (s, Inl no_rows)
      | (s, Inr (c # _)) \<Rightarrow>
          (case decode_each P sid ctx k s of
             (s, Inl x) \<Rightarrow> (s, Inl x)
           | (s, Inr cs) \<Rightarrow> (s, Inr (c # cs))))"

definition stack_rows :: "'f chunk list \<Rightarrow> exn + 'f chunk list" where
  "stack_rows rows =
     (case rows of
        [] \<Rightarrow> Inl (RuntimeError ''stack expects a non-empty TensorList'')
      | r # _ \<Rightarrow> if list_all (\<lambda>r'. map length r' = map length r) rows then Inr rows
                else Inl (RuntimeError ''stack expects each tensor to be equal size''))"

definition vla_candidates ::
    "('s, 'x, 'f, 'g) vla_pipeline \<Rightarrow> vla_config \<Rightarrow> string \<Rightarrow> 'x \<Rightarrow> 's \<Rightarrow> 's \<times> (exn + 'f chunk list)" where
  "vla_candidates P c sid ctx s =
     (let n = vc_plan_candidates c
      in if vc_plan_batched c \<and> vl_supports_batch P then vl_decode P s sid ctx n
         else (case decode_each P sid ctx (nat n) s of
                 (s, Inl x) \<Rightarrow> (s, Inl x)
               | (s, Inr rows) \<Rightarrow> (s, stack_rows rows)))"

text \<open>\<open>torch.argmin\<close>: the first position of the least element.\<close>

fun argmin :: "rat list \<Rightarrow> nat option" where
  "argmin [] = None"
| "argmin (c # cs) = (case argmin cs of None \<Rightarrow> Some 0 | Some i \<Rightarrow> if cs ! i < c then Some (Suc i) else Some 0)"

definition vla_plan ::
    "('s, 'x, 'f, 'g) vla_pipeline \<Rightarrow> 'x world_state \<Rightarrow> 'g \<Rightarrow> ('s, 'f) vla_engine
      \<Rightarrow> ('s, 'f) vla_engine \<times> (exn + 'f action)" where
  "vla_plan P st goal e =
     (let sid = ws_session_id st in
      case vla_load e of
        (e, Inl x) \<Rightarrow> (e, Inl x)
      | (e, Inr s) \<Rightarrow>
          (case vla_session_for e st of
             Inl x \<Rightarrow> (e, Inl x)
           | Inr _ \<Rightarrow>
               (case vla_candidates P (ve_config e) sid (ws_context st) s of
                  (s, Inl x) \<Rightarrow> (e\<lparr>ve_pipeline := Some s\<rparr>, Inl x)
                | (s, Inr cands) \<Rightarrow>
                    (case vl_score P s sid cands goal of
                       (s, Inl x) \<Rightarrow> (e\<lparr>ve_pipeline := Some s\<rparr>, Inl x)
                     | (s, Inr costs) \<Rightarrow>
                         (let e = e\<lparr>ve_pipeline := Some s\<rparr> in
                          case argmin costs of
                            None \<Rightarrow> (e, Inl (OtherException ''argmin(): Expected reduction dim to be specified for input.numel() == 0''))
                          | Some i \<Rightarrow>
                              (if i \<ge> length cands then
                                 (e, Inl (OtherException (''index '' @ nat_str i @ '' is out of bounds for dimension 0 with size ''
                                    @ nat_str (length cands))))
                               else let chosen = cands ! i;
                                        e = e\<lparr>ve_sessions := AList.update sid (Some chosen) (ve_sessions e)\<rparr>
                                    in case chosen of
                                         [] \<Rightarrow> (e, Inl no_rows)
                                       | a # _ \<Rightarrow> (e, Inr \<lparr>act_values = a, act_space = vla_wire_space (ve_config e)\<rparr>)))))))"

definition vla_release ::
    "('s, 'x, 'f, 'g) vla_pipeline \<Rightarrow> 'x world_state \<Rightarrow> ('s, 'f) vla_engine \<Rightarrow> ('s, 'f) vla_engine" where
  "vla_release P st e =
     e\<lparr>ve_sessions := AList.delete (ws_session_id st) (ve_sessions e),
       ve_pipeline := map_option (\<lambda>s. vl_close P s (ws_session_id st)) (ve_pipeline e)\<rparr>"

section \<open>Lemmas\<close>

lemma argmin_least:
  "argmin cs = Some i \<Longrightarrow> i < length cs \<and> (\<forall>j < length cs. cs ! i \<le> cs ! j) \<and> (\<forall>j < i. cs ! i < cs ! j)"
proof (induction cs arbitrary: i)
  case (Cons c cs)
  show ?case
  proof (cases "argmin cs")
    case None
    then have "cs = []" by (cases cs) (auto split: option.splits if_splits)
    with Cons.prems None show ?thesis by simp
  next
    case (Some k)
    note k = Cons.IH [OF Some]
    show ?thesis
    proof (cases "cs ! k < c")
      case True
      with Cons.prems Some have i: "i = Suc k" by simp
      have "(c # cs) ! i \<le> (c # cs) ! j" if "j < length (c # cs)" for j
        using that k True unfolding i by (cases j) auto
      moreover have "(c # cs) ! i < (c # cs) ! j" if "j < i" for j
        using that k True unfolding i by (cases j) auto
      ultimately show ?thesis using k i by auto
    next
      case False
      with Cons.prems Some have i: "i = 0" by simp
      have "(c # cs) ! i \<le> (c # cs) ! j" if "j < length (c # cs)" for j
      proof (cases j)
        case (Suc m)
        with that k have "cs ! k \<le> cs ! m" by auto
        with False Suc i show ?thesis by auto
      qed (simp add: i)
      with i show ?thesis by auto
    qed
  qed
qed simp

lemma argmin_some: "cs \<noteq> [] \<Longrightarrow> \<exists>i. argmin cs = Some i"
  by (cases cs) (auto split: option.splits)

lemma decode_each_greedy:
  assumes "vl_decode P s sid ctx 1 = (s, Inr [c])"
  shows "decode_each P sid ctx n s = (s, Inr (replicate n c))"
  by (induction n) (simp_all add: assms)

lemma stack_rows_replicate: "n > 0 \<Longrightarrow> stack_rows (replicate n c) = Inr (replicate n c)"
  by (cases n) (simp_all add: stack_rows_def list_all_iff)

definition with_batched :: "bool \<Rightarrow> ('s, 'f) vla_engine \<Rightarrow> ('s, 'f) vla_engine" where
  "with_batched b e = e\<lparr>ve_config := (ve_config e)\<lparr>vc_plan_batched := b\<rparr>\<rparr>"

lemma with_batched_simps [simp]:
  "ve_pipeline (with_batched b e) = ve_pipeline e" "ve_sessions (with_batched b e) = ve_sessions e"
  "vla_wire_space (ve_config (with_batched b e)) = vla_wire_space (ve_config e)"
  "with_batched b (e\<lparr>ve_pipeline := p\<rparr>) = (with_batched b e)\<lparr>ve_pipeline := p\<rparr>"
  "with_batched b (e\<lparr>ve_sessions := x\<rparr>) = (with_batched b e)\<lparr>ve_sessions := x\<rparr>"
  "with_batched b (with_batched b' e) = with_batched b e"
  by (simp_all add: with_batched_def vla_wire_space_def)

lemma vla_loaded: "ve_pipeline e = Some s \<Longrightarrow> vla_load e = (e, Inr s)"
  by (simp add: vla_load_def)

lemma vla_unloaded:
  assumes "ve_pipeline e = None"
  shows "fst (vla_reset P sid cond e) = e" "fst (vla_step P st a e) = e" "fst (vla_plan P st goal e) = e"
    "snd (vla_reset P sid cond e) = Inl (projl (vla_build_pipeline (ve_config e) :: exn + unit))"
    "snd (vla_step P st a e) = Inl (projl (vla_build_pipeline (ve_config e) :: exn + unit))"
    "snd (vla_plan P st goal e) = Inl (projl (vla_build_pipeline (ve_config e) :: exn + unit))"
  using assms by (simp_all add: vla_reset_def vla_step_def vla_plan_def vla_load_def vla_build_pipeline_def Let_def)

lemma vla_unknown_session:
  assumes "ve_pipeline e = Some s" "map_of (ve_sessions e) (ws_session_id st) = None"
  shows "fst (vla_step P st a e) = e" "fst (vla_plan P st goal e) = e"
    "\<exists>m. snd (vla_step P st a e) = Inl (KeyError m)" "\<exists>m. snd (vla_plan P st goal e) = Inl (KeyError m)"
  using assms by (simp_all add: vla_step_def vla_plan_def vla_load_def vla_session_for_def Let_def)

lemma vla_parse_chunk_rows:
  assumes "vla_parse_chunk c a = Inr rows"
  shows "vc_action_dim c > 0" "concat rows = act_values a" "\<forall>r \<in> set rows. length r = nat (vc_action_dim c)"
proof -
  have d: "vc_action_dim c > 0" "int (length (act_values a)) mod vc_action_dim c = 0"
    and rows: "rows = chunks_of (nat (vc_action_dim c)) (act_values a)"
    using assms by (auto simp: vla_parse_chunk_def Let_def split: if_splits)
  then show "vc_action_dim c > 0" "concat rows = act_values a" by (simp_all add: concat_chunks)
  obtain m where "int (length (act_values a)) = vc_action_dim c * m" using d(2) by auto
  moreover from this d(1) have "m \<ge> 0" by (metis of_nat_0_le_iff zero_le_mult_iff not_less_iff_gr_or_eq order_less_le_trans)
  ultimately have "length (act_values a) = nat m * nat (vc_action_dim c)"
    using d(1) by (metis mult.commute nat_int nat_mult_distrib)
  from chunks_append' [OF _ this, of "[]"] d(1) show "\<forall>r \<in> set rows. length r = nat (vc_action_dim c)"
    unfolding rows by simp
qed

section \<open>Properties\<close>

text \<open>a plan returns the first action of a candidate of least cost, the first one on a tie, and
  leaves that candidate as the session's proposed chunk.\<close>

theorem vla_plan_takes_the_cheapest_candidate:
  assumes "vla_plan P st goal e = (e', Inr a)" "ve_pipeline e = Some s"
    and "vla_candidates P (ve_config e) (ws_session_id st) (ws_context st) s = (t, Inr cands)"
    and "vl_score P t (ws_session_id st) cands goal = (u, Inr costs)" "length costs = length cands"
  shows "\<exists>i < length cands. (\<forall>j < length costs. costs ! i \<le> costs ! j) \<and> (\<forall>j < i. costs ! i < costs ! j)
    \<and> map_of (ve_sessions e') (ws_session_id st) = Some (Some (cands ! i))
    \<and> (\<exists>rest. cands ! i = act_values a # rest) \<and> act_space a = vla_wire_space (ve_config e)
    \<and> ve_pipeline e' = Some u"
proof -
  obtain i rest where i: "argmin costs = Some i" "i < length cands"
    and rest: "cands ! i = act_values a # rest" "act_space a = vla_wire_space (ve_config e)"
      "e' = e\<lparr>ve_pipeline := Some u, ve_sessions := AList.update (ws_session_id st) (Some (cands ! i)) (ve_sessions e)\<rparr>"
    using assms(1) unfolding vla_plan_def Let_def vla_loaded [OF assms(2)]
    by (auto simp: assms(3,4) split: sum.splits option.splits if_splits list.splits)
  show ?thesis
  proof (intro exI [of _ i] conjI)
    show "\<exists>rest. cands ! i = act_values a # rest" using rest(1) by blast
    show "map_of (ve_sessions e') (ws_session_id st) = Some (Some (cands ! i))"
      using rest(3) by (simp add: map_of_AList_update)
  qed (use argmin_least [OF i(1)] i(2) rest in auto)
qed

text \<open>planning by one batched decode and by a loop of single decodes are the same function,
  engine state and answer, for a pipeline whose batched decode is what its single decodes yield
  in turn.\<close>

theorem vla_batched_plan_equals_looped_plan:
  assumes "\<And>s. vl_decode P s (ws_session_id st) (ws_context st) (vc_plan_candidates (ve_config e))
      = decode_each P (ws_session_id st) (ws_context st) (nat (vc_plan_candidates (ve_config e))) s"
    and "\<And>s t rows. vl_decode P s (ws_session_id st) (ws_context st) (vc_plan_candidates (ve_config e)) = (t, Inr rows)
      \<Longrightarrow> stack_rows rows = Inr rows"
  shows "vla_plan P st goal (with_batched True e) = apfst (with_batched True) (vla_plan P st goal (with_batched False e))"
proof (cases "ve_pipeline e")
  case None
  then show ?thesis by (simp add: vla_plan_def vla_load_def vla_build_pipeline_def with_batched_def Let_def)
next
  case (Some s)
  let ?cfg = "\<lambda>b. ve_config (with_batched b e)" and ?sid = "ws_session_id st" and ?ctx = "ws_context st"
  have "vla_candidates P (?cfg True) ?sid ?ctx s = vla_candidates P (?cfg False) ?sid ?ctx s"
    using assms(1) [of s] assms(2) [of s]
    by (auto simp: vla_candidates_def with_batched_def Let_def split: prod.splits sum.splits)
  then show ?thesis
    using Some unfolding vla_plan_def Let_def
    by (auto simp: vla_loaded vla_session_for_def with_batched_simps split: prod.splits sum.splits option.splits list.splits)
qed

text \<open>the loop does not search when the single decode is the greedy one: then all candidates are
  the same chunk and the plan is its first action, whatever goal and scoring are.\<close>

theorem vla_looped_plan_is_greedy:
  assumes "ve_pipeline e = Some s" "map_of (ve_sessions e) (ws_session_id st) \<noteq> None"
    and "\<not> (vc_plan_batched (ve_config e) \<and> vl_supports_batch P)" "vc_plan_candidates (ve_config e) > 0"
    and "vl_decode P s (ws_session_id st) (ws_context st) 1 = (s, Inr [a # rest])"
    and "vl_score P s (ws_session_id st) (replicate (nat (vc_plan_candidates (ve_config e))) (a # rest)) goal = (u, Inr costs)"
    and "length costs = nat (vc_plan_candidates (ve_config e))"
  shows "snd (vla_plan P st goal e) = Inr \<lparr>act_values = a, act_space = vla_wire_space (ve_config e)\<rparr>"
proof -
  let ?n = "nat (vc_plan_candidates (ve_config e))"
  have "vla_candidates P (ve_config e) (ws_session_id st) (ws_context st) s = (s, Inr (replicate ?n (a # rest)))"
    using assms(3,4) by (auto simp: vla_candidates_def Let_def decode_each_greedy [OF assms(5)] stack_rows_replicate)
  moreover obtain i where i: "argmin costs = Some i" using argmin_some [of costs] assms(4,7) by fastforce
  moreover have "i < ?n" using argmin_least [OF i] assms(7) by simp
  ultimately show ?thesis
    using assms(2,6) by (auto simp: vla_plan_def vla_loaded [OF assms(1)] vla_session_for_def Let_def)
qed

text \<open>the chunk that a step parks is never read: plans on two engines that differ only in the
  chunks their sessions hold give the same answer and leave the same pipeline.\<close>

theorem vla_plan_ignores_the_parked_chunk:
  assumes "ve_config d = ve_config e" "ve_pipeline d = ve_pipeline e"
    and "map fst (ve_sessions d) = map fst (ve_sessions e)"
  shows "snd (vla_plan P st goal d) = snd (vla_plan P st goal e)
    \<and> ve_pipeline (fst (vla_plan P st goal d)) = ve_pipeline (fst (vla_plan P st goal e))"
proof (cases "ve_pipeline e")
  case None
  with assms show ?thesis by (simp add: vla_plan_def vla_load_def vla_build_pipeline_def Let_def)
next
  case (Some s)
  then have d: "ve_pipeline d = Some s" using assms(2) by simp
  have "fst ` set (ve_sessions d) = fst ` set (ve_sessions e)" using assms(3) by (metis list.set_map)
  then have known: "map_of (ve_sessions d) sid = None \<longleftrightarrow> map_of (ve_sessions e) sid = None" for sid
    by (simp add: map_of_None_iff)
  show ?thesis
  proof (cases "map_of (ve_sessions e) (ws_session_id st)")
    case None
    then show ?thesis
      using known [of "ws_session_id st"] by (simp add: vla_plan_def vla_loaded [OF Some] vla_loaded [OF d] vla_session_for_def d Some Let_def)
  next
    case (Some c)
    with known obtain c' where "map_of (ve_sessions d) (ws_session_id st) = Some c'" by fastforce
    with Some show ?thesis unfolding vla_plan_def Let_def vla_loaded [OF \<open>ve_pipeline e = Some s\<close>] vla_loaded [OF d] vla_session_for_def
      by (auto simp: assms(1) split: prod.splits sum.splits option.splits list.splits)
  qed
qed

section \<open>Witnesses\<close>

text \<open>A pipeline whose state counts its decodes: candidate number k is the action k, its cost its
  distance from the goal.\<close>

definition counting_pipeline :: "(nat, unit, rat, rat) vla_pipeline" where
  "counting_pipeline =
     \<lparr>vl_supports_batch = True, vl_reset = (\<lambda>s sid p. (s, Inr ())), vl_encode = (\<lambda>s sid c. (s, Inr ())),
      vl_decode = (\<lambda>s sid ctx n. (s + nat n, Inr (map (\<lambda>k. [[of_nat k]]) [s ..< s + nat n]))),
      vl_append = (\<lambda>s sid executed ctx. (s, Inr ())),
      vl_score = (\<lambda>s sid cands goal. (s, Inr (map (\<lambda>c. \<bar>hd (hd c) - goal\<bar>) cands))),
      vl_close = (\<lambda>s sid. s)\<rparr>"

definition greedy_pipeline :: "(nat, unit, rat, rat) vla_pipeline" where
  "greedy_pipeline = counting_pipeline\<lparr>vl_supports_batch := False,
     vl_decode := (\<lambda>s sid ctx n. (s, Inr (replicate (nat n) [[of_nat s]])))\<rparr>"

definition seed :: conditioning_input where
  "seed = \<lparr>ci_kind = KindNone, ci_uri = None\<rparr>"

definition opened_engine :: "(nat, rat) vla_engine" where
  "opened_engine = fst (vla_reset counting_pipeline ''s'' seed (vla_init ''cpu'' None (Some 0)))"

definition opened_state :: "unit world_state" where
  "opened_state = \<lparr>ws_context = (), ws_step_index = 0, ws_session_id = ''s''\<rparr>"

lemma counting_decode_each: "decode_each counting_pipeline sid ctx n s = (s + n, Inr (map (\<lambda>k. [[of_nat k]]) [s ..< s + n]))"
proof (induction n arbitrary: s)
  case (Suc n)
  have "[s ..< s + Suc n] = s # [Suc s ..< Suc s + n]" by (simp add: upt_conv_Cons)
  with Suc.IH [of "Suc s"] show ?case by (simp add: counting_pipeline_def)
qed simp

lemma stack_counting: "n > 0 \<Longrightarrow> stack_rows (map (\<lambda>k. [[of_nat k :: rat]]) [s ..< s + n]) = Inr (map (\<lambda>k. [[of_nat k]]) [s ..< s + n])"
  by (auto simp: stack_rows_def upt_rec [of s "s + n"] list_all_iff)

theorem vla_plan_takes_the_cheapest_candidate_witness:
  "\<exists>i < length (map (\<lambda>k. [[of_nat k :: rat]]) [0 ..< 8]).
    map (\<lambda>c. \<bar>hd (hd c) - 3\<bar>) (map (\<lambda>k. [[of_nat k :: rat]]) [0 ..< 8]) ! i = 0"
proof -
  have "fst (vla_plan counting_pipeline opened_state 3 opened_engine) = fst (vla_plan counting_pipeline opened_state 3 opened_engine)
      \<and> snd (vla_plan counting_pipeline opened_state 3 opened_engine) = Inr \<lparr>act_values = [3], act_space = ''vla_7d''\<rparr>"
    by code_simp
  then have p: "vla_plan counting_pipeline opened_state 3 opened_engine
      = (fst (vla_plan counting_pipeline opened_state 3 opened_engine), Inr \<lparr>act_values = [3], act_space = ''vla_7d''\<rparr>)"
    by (metis prod.collapse)
  have "\<exists>i < length (map (\<lambda>k. [[of_nat k :: rat]]) [0 ..< 8]).
      (\<forall>j < length (map (\<lambda>c. \<bar>hd (hd c) - 3\<bar>) (map (\<lambda>k. [[of_nat k :: rat]]) [0 ..< 8])).
         map (\<lambda>c. \<bar>hd (hd c) - 3\<bar>) (map (\<lambda>k. [[of_nat k :: rat]]) [0 ..< 8]) ! i
           \<le> map (\<lambda>c. \<bar>hd (hd c) - 3\<bar>) (map (\<lambda>k. [[of_nat k :: rat]]) [0 ..< 8]) ! j)"
    using vla_plan_takes_the_cheapest_candidate [OF p, of 0 8 "map (\<lambda>k. [[of_nat k]]) [0 ..< 8]" 8
        "map (\<lambda>c. \<bar>hd (hd c) - 3\<bar>) (map (\<lambda>k. [[of_nat k :: rat]]) [0 ..< 8])"]
    by (auto simp: opened_engine_def opened_state_def vla_reset_def vla_load_def vla_init_def default_vla_def
        counting_pipeline_def vla_candidates_def)
  then obtain i where i: "i < 8" "\<forall>j < 8. \<bar>of_nat i - 3 :: rat\<bar> \<le> \<bar>of_nat j - 3\<bar>" by auto
  from i(2) have "\<bar>of_nat i - 3 :: rat\<bar> \<le> \<bar>of_nat 3 - 3\<bar>" by (rule allE [of _ 3]) simp
  with i(1) show ?thesis by (intro exI [of _ i]) auto
qed

theorem vla_batched_plan_equals_looped_plan_witness:
  "vla_plan counting_pipeline opened_state 3 (with_batched True opened_engine)
     = apfst (with_batched True) (vla_plan counting_pipeline opened_state 3 (with_batched False opened_engine))"
proof (rule vla_batched_plan_equals_looped_plan)
  have c: "vc_plan_candidates (ve_config opened_engine) = 8" by code_simp
  show "vl_decode counting_pipeline s (ws_session_id opened_state) (ws_context opened_state)
        (vc_plan_candidates (ve_config opened_engine))
      = decode_each counting_pipeline (ws_session_id opened_state) (ws_context opened_state)
          (nat (vc_plan_candidates (ve_config opened_engine))) s" for s
    by (simp add: c counting_decode_each) (simp add: counting_pipeline_def)
  show "stack_rows rows = Inr rows"
    if "vl_decode counting_pipeline s (ws_session_id opened_state) (ws_context opened_state)
        (vc_plan_candidates (ve_config opened_engine)) = (t, Inr rows)" for s t rows
  proof -
    have "rows = map (\<lambda>k. [[of_nat k]]) [s ..< s + 8]" using that by (auto simp: c counting_pipeline_def)
    then show ?thesis by (simp only: stack_counting zero_less_numeral)
  qed
qed

theorem vla_looped_plan_is_greedy_witness:
  "snd (vla_plan greedy_pipeline opened_state 3 opened_engine) = Inr \<lparr>act_values = [0], act_space = ''vla_7d''\<rparr>"
proof -
  have "snd (vla_plan greedy_pipeline opened_state 3 opened_engine)
      = Inr \<lparr>act_values = [0], act_space = vla_wire_space (ve_config opened_engine)\<rparr>"
  proof (rule vla_looped_plan_is_greedy)
    show "ve_pipeline opened_engine = Some 0" "map_of (ve_sessions opened_engine) (ws_session_id opened_state) \<noteq> None"
      "\<not> (vc_plan_batched (ve_config opened_engine) \<and> vl_supports_batch greedy_pipeline)"
      "vc_plan_candidates (ve_config opened_engine) > 0"
      by code_simp+
    show "vl_decode greedy_pipeline 0 (ws_session_id opened_state) (ws_context opened_state) 1 = (0, Inr [[[0]]])"
      by (simp add: greedy_pipeline_def)
    show "vl_score greedy_pipeline 0 (ws_session_id opened_state)
        (replicate (nat (vc_plan_candidates (ve_config opened_engine))) [[0]]) 3
      = (0, Inr (replicate (nat (vc_plan_candidates (ve_config opened_engine))) 3))"
      by (simp add: greedy_pipeline_def counting_pipeline_def)
  qed simp
  moreover have "vla_wire_space (ve_config opened_engine) = ''vla_7d''" by code_simp
  ultimately show ?thesis by simp
qed

theorem vla_plan_ignores_the_parked_chunk_witness:
  "snd (vla_plan counting_pipeline opened_state 3 (opened_engine\<lparr>ve_sessions := [(''s'', Some [[9]])]\<rparr>))
      = snd (vla_plan counting_pipeline opened_state 3 opened_engine)
    \<and> ve_pipeline (fst (vla_plan counting_pipeline opened_state 3 (opened_engine\<lparr>ve_sessions := [(''s'', Some [[9]])]\<rparr>)))
      = ve_pipeline (fst (vla_plan counting_pipeline opened_state 3 opened_engine))"
  by (rule vla_plan_ignores_the_parked_chunk)
    (simp_all add: opened_engine_def vla_reset_def vla_load_def vla_init_def default_vla_def counting_pipeline_def)

end
