(* ===== verification/Hardware.thy ===== *)
theory Hardware
  imports PyStr
begin

text \<open>
  The hardware vocabulary of \<open>hardware.py\<close> and \<open>attention/types.py\<close>, and the host as the
  program probes it: the environment, \<open>/proc\<close>, what an \<open>import\<close> statement does, and what torch
  reports of the accelerators. The host does not change while the program looks at it.
\<close>

section \<open>Architectures\<close>

datatype vendor = AMD | NVIDIA | INTEL

fun vendor_value :: "vendor \<Rightarrow> string" where
  "vendor_value AMD = ''amd''"
| "vendor_value NVIDIA = ''nvidia''"
| "vendor_value INTEL = ''intel''"

datatype dtype = FP32 | FP16 | BF16 | FP8_E4M3 | FP8_E5M2 | INT8

fun dtype_value :: "dtype \<Rightarrow> string" where
  "dtype_value FP32 = ''fp32''"
| "dtype_value FP16 = ''fp16''"
| "dtype_value BF16 = ''bf16''"
| "dtype_value FP8_E4M3 = ''fp8_e4m3''"
| "dtype_value FP8_E5M2 = ''fp8_e5m2''"
| "dtype_value INT8 = ''int8''"

record device_arch =
  da_vendor :: vendor
  da_gfx_id :: string
  da_family :: string

definition arch_str :: "device_arch \<Rightarrow> string" where
  "arch_str a = vendor_value (da_vendor a) @ '':'' @ da_gfx_id a"

definition mk_arch :: "vendor \<Rightarrow> string \<Rightarrow> string \<Rightarrow> device_arch" where
  "mk_arch v gfx fam = \<lparr>da_vendor = v, da_gfx_id = gfx, da_family = fam\<rparr>"

definition MI300X :: device_arch where "MI300X = mk_arch AMD ''gfx942'' ''CDNA3''"
definition MI250X :: device_arch where "MI250X = mk_arch AMD ''gfx90a'' ''CDNA2''"
definition H100 :: device_arch where "H100 = mk_arch NVIDIA ''sm90a'' ''Hopper''"
definition H200 :: device_arch where "H200 = mk_arch NVIDIA ''sm90a'' ''Hopper''"
definition SAPPHIRE_RAPIDS :: device_arch where "SAPPHIRE_RAPIDS = mk_arch INTEL ''spr'' ''Sapphire Rapids''"
definition EMERALD_RAPIDS :: device_arch where "EMERALD_RAPIDS = mk_arch INTEL ''emr'' ''Emerald Rapids''"
definition GRANITE_RAPIDS :: device_arch where "GRANITE_RAPIDS = mk_arch INTEL ''gnr'' ''Granite Rapids''"

record device_spec =
  ds_index :: nat
  ds_arch :: device_arch
  ds_name :: string
  ds_total_memory :: int
  ds_processors :: int

definition total_memory_gib :: "device_spec \<Rightarrow> rat" where
  "total_memory_gib d = of_int (ds_total_memory d) / 1024 ^ 3"

record backend_capabilities =
  bc_dtypes :: "dtype set"
  bc_flash :: bool
  bc_fp8 :: bool
  bc_compile :: bool
  bc_attention_ops :: "string list"

section \<open>Attention problems\<close>

datatype attention_kind = FULL | CAUSAL | NEIGHBORHOOD

record attention_shape =
  as_batch :: int
  as_heads :: int
  as_seq_q :: int
  as_seq_kv :: int
  as_head_dim :: int
  as_kind :: attention_kind

definition is_self_attention :: "attention_shape \<Rightarrow> bool" where
  "is_self_attention s = (as_seq_q s = as_seq_kv s)"

section \<open>The host\<close>

text \<open>An import loads, raises \<open>ImportError\<close>, or raises another exception of some type.\<close>

datatype import_result = Loaded | ImportFails string | OtherFails string string

record gpu =
  gpu_major :: int
  gpu_minor :: int
  gpu_gcn_arch :: string
  gpu_name :: string
  gpu_memory :: int
  gpu_processors :: int

record host =
  fp8_variable :: string
  amx_variable :: string
  cpuinfo_text :: "string option"
  meminfo_text :: "string option"
  importing :: "string \<Rightarrow> import_result"
  ipex_sdpa :: bool
  ipex_flash_attention :: bool
  torch_fnuz :: bool
  torch_grouped_mm :: bool
  torch_scaled_mm :: bool
  cuda_version :: "string option"
  hip_version :: "string option"
  cuda_available :: bool
  cuda_devices :: "gpu list"
  sched_affinity :: "nat option"
  cpu_count :: "nat option"

text \<open>\<open>_detect_amx_*\<close>: the first line that starts with \<open>flags\<close> decides.\<close>

definition detect_flag :: "string \<Rightarrow> host \<Rightarrow> bool" where
  "detect_flag flag h =
     (case cpuinfo_text h of
        None \<Rightarrow> False
      | Some t \<Rightarrow> (case find (\<lambda>l. startswith l ''flags'') (splitlines t) of
                    None \<Rightarrow> False
                  | Some l \<Rightarrow> flag \<in> set (py_split l)))"

end
