(* ===== verification/Attention.thy ===== *)
theory Attention
  imports Hardware
begin

text \<open>
  The attention operations of \<open>attention/\<close> and their selection (\<open>attention/registry.py\<close>). An
  operation is a record of what its constructor found: the kernel, the text of the import error
  it keeps, and for the scaled-matmul operation what torch has. A constructor may raise; most
  catch \<open>ImportError\<close> only. Theory AttentionCalls models what the operations compute.
\<close>

section \<open>Operations\<close>

datatype op_class =
    Naive | RocmFlash | HopperFlash | Fp8Triton | Fp8Hopper | Fp8Ada | TransformerEngine
  | Fp8ScaledMM | AmxFlash | AmxFp16Flash | AmxInt8Flash | IpexFlash | AmxSdpa

datatype kernel =
    TorchSdpa | CkFlash | FlashAttn3 | FlashAttn2 | TritonFp8 | TritonFp8Hopper | TritonFp8Ada
  | TeDotProduct | AmxBf16Kernel | AmxFp16Kernel | AmxInt8Kernel | IpexSdpaKernel | IpexFlashKernel

record attention_op =
  ao_class :: op_class
  ao_kernel :: "kernel option"
  ao_error :: "string option"
  ao_is_fa3 :: bool
  ao_fp8_dtype :: bool
  ao_grouped_mm :: bool
  ao_scaled_mm :: bool

definition blank_op :: "op_class \<Rightarrow> attention_op" where
  "blank_op c = \<lparr>ao_class = c, ao_kernel = None, ao_error = None, ao_is_fa3 = False,
     ao_fp8_dtype = False, ao_grouped_mm = False, ao_scaled_mm = False\<rparr>"

fun op_name :: "op_class \<Rightarrow> string" where
  "op_name Naive = ''naive-sdpa''"
| "op_name RocmFlash = ''rocm-ck-flash''"
| "op_name HopperFlash = ''nvidia-flash''"
| "op_name Fp8Triton = ''fp8-triton-flash''"
| "op_name Fp8Hopper = ''fp8-hopper-triton-flash''"
| "op_name Fp8Ada = ''fp8-ada-triton-flash''"
| "op_name TransformerEngine = ''transformer-engine-fp8''"
| "op_name Fp8ScaledMM = ''fp8-scaled-mm''"
| "op_name AmxFlash = ''amx-bf16-flash''"
| "op_name AmxFp16Flash = ''amx-fp16-flash''"
| "op_name AmxInt8Flash = ''amx-int8-flash''"
| "op_name IpexFlash = ''ipex-flash''"
| "op_name AmxSdpa = ''amx-sdpa''"

section \<open>Constructors\<close>

definition naive_init :: attention_op where
  "naive_init = (blank_op Naive)\<lparr>ao_kernel := Some TorchSdpa\<rparr>"

text \<open>Try an import, keep the text of an \<open>ImportError\<close>, let anything else through.\<close>

definition import_or_note ::
    "host \<Rightarrow> string \<Rightarrow> kernel \<Rightarrow> string \<Rightarrow> attention_op \<Rightarrow> exn + attention_op" where
  "import_or_note h name k label op =
     (case importing h name of
        Loaded \<Rightarrow> Inr (op\<lparr>ao_kernel := Some k\<rparr>)
      | ImportFails m \<Rightarrow> Inr (op\<lparr>ao_error := Some (label @ m)\<rparr>)
      | OtherFails ty m \<Rightarrow> Inl (OtherException m))"

text \<open>The same where every exception is noted.\<close>

definition import_or_disable :: "host \<Rightarrow> string \<Rightarrow> kernel \<Rightarrow> attention_op \<Rightarrow> attention_op" where
  "import_or_disable h name k op =
     (case importing h name of
        Loaded \<Rightarrow> op\<lparr>ao_kernel := Some k\<rparr>
      | ImportFails m \<Rightarrow> op\<lparr>ao_error := Some m\<rparr>
      | OtherFails ty m \<Rightarrow> op\<lparr>ao_error := Some (ty @ '': '' @ m)\<rparr>)"

definition rocm_flash_init :: "host \<Rightarrow> exn + attention_op" where
  "rocm_flash_init h =
     (case importing h ''flash_attn'' of
        Loaded \<Rightarrow> Inr ((blank_op RocmFlash)\<lparr>ao_kernel := Some CkFlash\<rparr>)
      | ImportFails m \<Rightarrow> Inr (blank_op RocmFlash)
      | OtherFails ty m \<Rightarrow> Inl (OtherException m))"

definition hopper_flash_init :: "host \<Rightarrow> exn + attention_op" where
  "hopper_flash_init h =
     (case importing h ''flash_attn_interface'' of
        Loaded \<Rightarrow> Inr ((blank_op HopperFlash)\<lparr>ao_kernel := Some FlashAttn3, ao_is_fa3 := True\<rparr>)
      | OtherFails ty m \<Rightarrow> Inl (OtherException m)
      | ImportFails m \<Rightarrow>
          (let err = ''flash_attn_interface (FA-3): '' @ m in
           case importing h ''flash_attn'' of
             Loaded \<Rightarrow> Inr ((blank_op HopperFlash)\<lparr>ao_kernel := Some FlashAttn2, ao_error := Some err\<rparr>)
           | OtherFails ty m \<Rightarrow> Inl (OtherException m)
           | ImportFails m \<Rightarrow> Inr ((blank_op HopperFlash)\<lparr>ao_error := Some (err @ ''; flash_attn (FA-2): '' @ m)\<rparr>)))"

definition fp8_triton_init :: "host \<Rightarrow> attention_op" where
  "fp8_triton_init h = import_or_disable h ''triton_kernels.fp8_flash_attn'' TritonFp8 (blank_op Fp8Triton)"

definition fp8_hopper_init :: "host \<Rightarrow> attention_op" where
  "fp8_hopper_init h =
     import_or_disable h ''triton_kernels.fp8_flash_attn_hopper'' TritonFp8Hopper (blank_op Fp8Hopper)"

text \<open>\<open>_device_is_ada\<close>: any exception counts as no.\<close>

definition device_is_ada :: "host \<Rightarrow> bool" where
  "device_is_ada h =
     (importing h ''torch'' = Loaded \<and> cuda_available h \<and>
      (case cuda_devices h of [] \<Rightarrow> False | g # _ \<Rightarrow> gpu_major g = 8 \<and> gpu_minor g = 9))"

definition fp8_ada_init :: "host \<Rightarrow> attention_op" where
  "fp8_ada_init h =
     (if \<not> device_is_ada h then
        (blank_op Fp8Ada)\<lparr>ao_error := Some (''FP8 Ada Triton attention disqualified: device capability is not (8, 9). ''
          @ ''Use fp8-hopper-triton-flash (sm_90), fp8-triton-flash (gfx942), or naive-sdpa.'')\<rparr>
      else import_or_disable h ''triton_kernels.fp8_flash_attn_ada'' TritonFp8Ada (blank_op Fp8Ada))"

definition transformer_engine_init :: "host \<Rightarrow> attention_op" where
  "transformer_engine_init h =
     (let op = blank_op TransformerEngine in
      case importing h ''torch'' of
        ImportFails m \<Rightarrow> op\<lparr>ao_error := Some m\<rparr>
      | OtherFails ty m \<Rightarrow> op\<lparr>ao_error := Some (ty @ '': '' @ m)\<rparr>
      | Loaded \<Rightarrow>
          (case importing h ''transformer_engine.pytorch'' of
             ImportFails m \<Rightarrow> op\<lparr>ao_error := Some m\<rparr>
           | OtherFails ty m \<Rightarrow> op\<lparr>ao_error := Some (ty @ '': '' @ m)\<rparr>
           | Loaded \<Rightarrow>
               (if \<not> cuda_available h then op\<lparr>ao_error := Some ''CUDA not available''\<rparr>
                else op\<lparr>ao_kernel := Some TeDotProduct\<rparr>)))"

text \<open>A torch without \<open>float8_e4m3fnuz\<close> raises \<open>AttributeError\<close>, which the constructor lets through.\<close>

definition fp8_scaled_mm_init :: "host \<Rightarrow> exn + attention_op" where
  "fp8_scaled_mm_init h =
     (case importing h ''torch'' of
        ImportFails m \<Rightarrow> Inr (blank_op Fp8ScaledMM)
      | OtherFails ty m \<Rightarrow> Inl (OtherException m)
      | Loaded \<Rightarrow>
          (if torch_fnuz h then
             Inr ((blank_op Fp8ScaledMM)\<lparr>ao_fp8_dtype := True, ao_grouped_mm := torch_grouped_mm h,
               ao_scaled_mm := torch_scaled_mm h\<rparr>)
           else Inl (OtherException (''module '' @ py_repr ''torch'' @ '' has no attribute '' @ py_repr ''float8_e4m3fnuz''))))"

definition detect_amx_bf16 :: "host \<Rightarrow> bool" where "detect_amx_bf16 h = detect_flag ''amx_bf16'' h"
definition detect_amx_fp16 :: "host \<Rightarrow> bool" where "detect_amx_fp16 h = detect_flag ''amx_fp16'' h"
definition detect_amx_int8 :: "host \<Rightarrow> bool" where "detect_amx_int8 h = detect_flag ''amx_int8'' h"

definition amx_kernel_init :: "host \<Rightarrow> op_class \<Rightarrow> bool \<Rightarrow> string \<Rightarrow> string \<Rightarrow> kernel \<Rightarrow> exn + attention_op" where
  "amx_kernel_init h c detected flag modname k =
     (if \<not> detected then
        Inr ((blank_op c)\<lparr>ao_error := Some (''/proc/cpuinfo missing '' @ flag @ '' flag'')\<rparr>)
      else import_or_note h modname k (modname @ '': '') (blank_op c))"

definition amx_flash_init :: "host \<Rightarrow> exn + attention_op" where
  "amx_flash_init h = amx_kernel_init h AmxFlash (detect_amx_bf16 h) ''amx_bf16'' ''kernels.cpu.amx_attn._native'' AmxBf16Kernel"

definition amx_fp16_flash_init :: "host \<Rightarrow> exn + attention_op" where
  "amx_fp16_flash_init h =
     amx_kernel_init h AmxFp16Flash (detect_amx_fp16 h) ''amx_fp16'' ''kernels.cpu.amx_fp16_attn._native'' AmxFp16Kernel"

definition amx_int8_flash_init :: "host \<Rightarrow> exn + attention_op" where
  "amx_int8_flash_init h =
     amx_kernel_init h AmxInt8Flash (detect_amx_int8 h) ''amx_int8'' ''kernels.cpu.amx_int8_attn._native'' AmxInt8Kernel"

definition ipex_flash_init :: "host \<Rightarrow> exn + attention_op" where
  "ipex_flash_init h =
     (case importing h ''intel_extension_for_pytorch'' of
        ImportFails m \<Rightarrow> Inr ((blank_op IpexFlash)\<lparr>ao_error := Some (''intel_extension_for_pytorch: '' @ m)\<rparr>)
      | OtherFails ty m \<Rightarrow> Inl (OtherException m)
      | Loaded \<Rightarrow>
          (if ipex_sdpa h then Inr ((blank_op IpexFlash)\<lparr>ao_kernel := Some IpexSdpaKernel\<rparr>)
           else if ipex_flash_attention h then Inr ((blank_op IpexFlash)\<lparr>ao_kernel := Some IpexFlashKernel\<rparr>)
           else Inr ((blank_op IpexFlash)\<lparr>ao_error := Some ''ipex installed but no fused attention entry point found''\<rparr>)))"

definition amx_sdpa_init :: "host \<Rightarrow> exn + attention_op" where
  "amx_sdpa_init h =
     (case importing h ''torch'' of
        Loaded \<Rightarrow> Inr ((blank_op AmxSdpa)\<lparr>ao_kernel := Some TorchSdpa\<rparr>)
      | ImportFails m \<Rightarrow> Inr ((blank_op AmxSdpa)\<lparr>ao_error := Some (''torch: '' @ m)\<rparr>)
      | OtherFails ty m \<Rightarrow> Inl (OtherException m))"

section \<open>What an operation supports\<close>

definition available :: "attention_op \<Rightarrow> bool" where
  "available op =
     (case ao_class op of
        Fp8ScaledMM \<Rightarrow> (ao_grouped_mm op \<or> ao_scaled_mm op) \<and> ao_fp8_dtype op
      | AmxSdpa \<Rightarrow> ao_error op = None
      | Naive \<Rightarrow> True
      | _ \<Rightarrow> ao_kernel op \<noteq> None)"

definition dense_kind :: "attention_shape \<Rightarrow> bool" where
  "dense_kind s = (as_kind s = FULL \<or> as_kind s = CAUSAL)"

definition flash_supports :: "attention_op \<Rightarrow> dtype list \<Rightarrow> int list \<Rightarrow> attention_shape \<Rightarrow> dtype \<Rightarrow> bool" where
  "flash_supports op ds dims s d =
     (available op \<and> d \<in> set ds \<and> as_head_dim s \<in> set dims \<and> dense_kind s)"

definition rocm_flash_supports :: "attention_op \<Rightarrow> attention_shape \<Rightarrow> dtype \<Rightarrow> bool" where
  "rocm_flash_supports op s d = flash_supports op [FP16, BF16] [64, 128, 256] s d"

definition hopper_flash_supports :: "attention_op \<Rightarrow> attention_shape \<Rightarrow> dtype \<Rightarrow> bool" where
  "hopper_flash_supports op s d = flash_supports op [FP16, BF16] [64, 96, 128, 192, 256] s d"

definition fp8_triton_supports :: "attention_op \<Rightarrow> attention_shape \<Rightarrow> dtype \<Rightarrow> bool" where
  "fp8_triton_supports op s d =
     (flash_supports op [BF16, FP16] [32, 64, 128, 256] s d \<and> as_seq_q s \<ge> 128 \<and> as_seq_kv s \<ge> 128
      \<and> is_self_attention s)"

definition fp8_hopper_supports :: "attention_op \<Rightarrow> attention_shape \<Rightarrow> dtype \<Rightarrow> bool" where
  "fp8_hopper_supports op s d =
     (flash_supports op [BF16, FP16] [32, 64, 128, 256] s d \<and> as_seq_q s \<ge> 128 \<and> as_seq_kv s \<ge> 128
      \<and> is_self_attention s)"

definition fp8_ada_supports :: "attention_op \<Rightarrow> attention_shape \<Rightarrow> dtype \<Rightarrow> bool" where
  "fp8_ada_supports op s d =
     (flash_supports op [BF16, FP16] [32, 64, 128, 256] s d \<and> as_seq_q s \<ge> 128 \<and> as_seq_kv s \<ge> 128
      \<and> is_self_attention s)"

definition te_supports :: "attention_op \<Rightarrow> attention_shape \<Rightarrow> dtype \<Rightarrow> bool" where
  "te_supports op s d =
     (flash_supports op [FP16, BF16, FP8_E4M3, FP8_E5M2] [64, 128] s d \<and> is_self_attention s)"

definition scores_bytes :: "attention_shape \<Rightarrow> int" where
  "scores_bytes s = as_batch s * as_heads s * as_seq_q s * as_seq_kv s * 2"

definition scaled_mm_supports :: "attention_op \<Rightarrow> attention_shape \<Rightarrow> dtype \<Rightarrow> bool" where
  "scaled_mm_supports op s d =
     (flash_supports op [BF16, FP16, FP8_E4M3, FP8_E5M2] [64, 96, 128, 192, 256] s d
      \<and> as_seq_q s \<ge> 16 \<and> as_seq_kv s \<ge> 16 \<and> as_seq_q s mod 16 = 0 \<and> as_seq_kv s mod 16 = 0
      \<and> scores_bytes s \<le> 4 * 1024 ^ 3)"

definition amx_flash_supports :: "attention_op \<Rightarrow> attention_shape \<Rightarrow> dtype \<Rightarrow> bool" where
  "amx_flash_supports op s d = flash_supports op [BF16] [64, 128] s d"

definition amx_fp16_supports :: "attention_op \<Rightarrow> attention_shape \<Rightarrow> dtype \<Rightarrow> bool" where
  "amx_fp16_supports op s d = flash_supports op [FP16] [64, 128] s d"

definition amx_int8_supports :: "attention_op \<Rightarrow> attention_shape \<Rightarrow> dtype \<Rightarrow> bool" where
  "amx_int8_supports op s d = flash_supports op [BF16] [64, 128] s d"

definition ipex_supports :: "attention_op \<Rightarrow> attention_shape \<Rightarrow> dtype \<Rightarrow> bool" where
  "ipex_supports op s d = flash_supports op [FP16, BF16, FP32] [64, 80, 96, 128, 192, 256] s d"

definition amx_sdpa_supports :: "attention_op \<Rightarrow> attention_shape \<Rightarrow> dtype \<Rightarrow> bool" where
  "amx_sdpa_supports op s d = (available op \<and> d \<in> {FP32, FP16, BF16, INT8} \<and> dense_kind s)"

definition naive_supports :: "attention_shape \<Rightarrow> dtype \<Rightarrow> bool" where
  "naive_supports s d = True"

definition supports :: "attention_op \<Rightarrow> attention_shape \<Rightarrow> dtype \<Rightarrow> bool" where
  "supports op s d =
     (case ao_class op of
        Naive \<Rightarrow> naive_supports s d
      | RocmFlash \<Rightarrow> rocm_flash_supports op s d
      | HopperFlash \<Rightarrow> hopper_flash_supports op s d
      | Fp8Triton \<Rightarrow> fp8_triton_supports op s d
      | Fp8Hopper \<Rightarrow> fp8_hopper_supports op s d
      | Fp8Ada \<Rightarrow> fp8_ada_supports op s d
      | TransformerEngine \<Rightarrow> te_supports op s d
      | Fp8ScaledMM \<Rightarrow> scaled_mm_supports op s d
      | AmxFlash \<Rightarrow> amx_flash_supports op s d
      | AmxFp16Flash \<Rightarrow> amx_fp16_supports op s d
      | AmxInt8Flash \<Rightarrow> amx_int8_supports op s d
      | IpexFlash \<Rightarrow> ipex_supports op s d
      | AmxSdpa \<Rightarrow> amx_sdpa_supports op s d)"

section \<open>Selection\<close>

text \<open>The module constants, read from the environment at import.\<close>

definition fp8_env :: "host \<Rightarrow> string" where "fp8_env h = lower (fp8_variable h)"

definition fp8_enabled :: "host \<Rightarrow> bool" where
  "fp8_enabled h = (fp8_env h \<in> {''1'', ''true'', ''on'', ''triton'', ''scaled_mm'', ''te'', ''transformer_engine''})"

definition amx_env :: "host \<Rightarrow> string" where "amx_env h = lower (amx_variable h)"

definition amx_enabled :: "host \<Rightarrow> bool" where
  "amx_enabled h = (amx_env h \<in> {''1'', ''true'', ''on'', ''amx'', ''int8'', ''fp16'', ''ipex''})"

fun build_ops :: "(exn + attention_op) list \<Rightarrow> exn + attention_op list" where
  "build_ops [] = Inr []"
| "build_ops (Inl x # rs) = Inl x"
| "build_ops (Inr op # rs) = (case build_ops rs of Inl x \<Rightarrow> Inl x | Inr ops \<Rightarrow> Inr (op # ops))"

definition candidate_ops :: "host \<Rightarrow> vendor \<Rightarrow> (exn + attention_op) list" where
  "candidate_ops h v =
     (let fe = fp8_env h; on = fp8_enabled h; ae = amx_env h; aon = amx_enabled h in
      (case v of
         AMD \<Rightarrow>
           (if on \<and> fe \<notin> {''scaled_mm'', ''te'', ''transformer_engine''} then [Inr (fp8_triton_init h)] else [])
           @ (if on \<and> fe \<notin> {''triton'', ''te'', ''transformer_engine''} then [fp8_scaled_mm_init h] else [])
           @ [rocm_flash_init h]
       | NVIDIA \<Rightarrow>
           (if on \<and> fe \<notin> {''te'', ''transformer_engine'', ''scaled_mm''} then [Inr (fp8_hopper_init h)] else [])
           @ (if on \<and> fe \<in> {''1'', ''true'', ''on'', ''te'', ''transformer_engine''}
              then [Inr (transformer_engine_init h)] else [])
           @ [hopper_flash_init h]
       | INTEL \<Rightarrow>
           (if aon \<and> ae = ''int8'' then [amx_int8_flash_init h] else [])
           @ (if aon \<and> ae \<in> {''1'', ''true'', ''on'', ''fp16''} then [amx_fp16_flash_init h] else [])
           @ (if aon \<and> ae \<notin> {''ipex'', ''int8'', ''fp16''} then [amx_flash_init h] else [])
           @ (if aon \<and> ae \<notin> {''amx'', ''int8'', ''fp16''} then [ipex_flash_init h] else [])
           @ [amx_sdpa_init h])
      @ [Inr naive_init])"

definition select_attention_op ::
    "host \<Rightarrow> device_arch \<Rightarrow> attention_shape \<Rightarrow> dtype \<Rightarrow> exn + attention_op" where
  "select_attention_op h a s d =
     (case build_ops (candidate_ops h (da_vendor a)) of
        Inl x \<Rightarrow> Inl x
      | Inr ops \<Rightarrow> (case find (\<lambda>op. supports op s d) ops of None \<Rightarrow> Inr naive_init | Some op \<Rightarrow> Inr op))"

section \<open>Lemmas\<close>

named_theorems op_inits \<open>constructors of attention operations\<close>

named_theorems op_supports \<open>what an operation supports\<close>

declare supports_def [op_supports] naive_supports_def [op_supports] rocm_flash_supports_def [op_supports]
  hopper_flash_supports_def [op_supports] fp8_triton_supports_def [op_supports] fp8_hopper_supports_def [op_supports]
  fp8_ada_supports_def [op_supports] te_supports_def [op_supports] scaled_mm_supports_def [op_supports]
  amx_flash_supports_def [op_supports] amx_fp16_supports_def [op_supports] amx_int8_supports_def [op_supports]
  ipex_supports_def [op_supports] amx_sdpa_supports_def [op_supports] flash_supports_def [op_supports]

declare fp8_triton_init_def [op_inits] fp8_hopper_init_def [op_inits] fp8_ada_init_def [op_inits]
  transformer_engine_init_def [op_inits] fp8_scaled_mm_init_def [op_inits] rocm_flash_init_def [op_inits]
  hopper_flash_init_def [op_inits] amx_flash_init_def [op_inits] amx_fp16_flash_init_def [op_inits]
  amx_int8_flash_init_def [op_inits] amx_kernel_init_def [op_inits] ipex_flash_init_def [op_inits]
  amx_sdpa_init_def [op_inits] naive_init_def [op_inits] import_or_note_def [op_inits]
  import_or_disable_def [op_inits] blank_op_def [op_inits]

lemma build_ops_Inr: "build_ops rs = Inr ops \<longleftrightarrow> rs = map Inr ops"
proof (induction rs arbitrary: ops rule: build_ops.induct)
  case (3 op rs)
  show ?case
  proof (cases "build_ops rs")
    case (Inl x)
    then have "rs \<noteq> map Inr l" for l using 3 [of l] by simp
    with Inl show ?thesis by auto
  next
    case (Inr l)
    with 3 [of l] have "rs = map Inr l" by simp
    with Inr show ?thesis by (auto simp: inj_map_eq_map)
  qed
qed auto

lemma build_ops_Inl: "(\<exists>x. build_ops rs = Inl x) \<longleftrightarrow> (\<exists>x. Inl x \<in> set rs)"
  by (induction rs rule: build_ops.induct) (auto split: sum.splits)

lemma naive_always: "supports naive_init s d"
  by (simp add: op_supports naive_init_def blank_op_def)

lemma supports_available: "supports op s d \<Longrightarrow> available op"
  by (cases "ao_class op")
    (simp_all add: op_supports available_def)

lemma supports_dense: "supports op s d \<Longrightarrow> ao_class op \<noteq> Naive \<Longrightarrow> dense_kind s"
  by (cases "ao_class op")
    (simp_all add: op_supports)

text \<open>The classes of the candidates, and which kernel an available operation has.\<close>

lemma init_class:
  "ao_class naive_init = Naive" "ao_class (fp8_triton_init h) = Fp8Triton" "ao_class (fp8_hopper_init h) = Fp8Hopper"
  "ao_class (fp8_ada_init h) = Fp8Ada" "ao_class (transformer_engine_init h) = TransformerEngine"
  "rocm_flash_init h = Inr op \<Longrightarrow> ao_class op = RocmFlash"
  "hopper_flash_init h = Inr op \<Longrightarrow> ao_class op = HopperFlash"
  "fp8_scaled_mm_init h = Inr op \<Longrightarrow> ao_class op = Fp8ScaledMM"
  "amx_flash_init h = Inr op \<Longrightarrow> ao_class op = AmxFlash"
  "amx_fp16_flash_init h = Inr op \<Longrightarrow> ao_class op = AmxFp16Flash"
  "amx_int8_flash_init h = Inr op \<Longrightarrow> ao_class op = AmxInt8Flash"
  "ipex_flash_init h = Inr op \<Longrightarrow> ao_class op = IpexFlash"
  "amx_sdpa_init h = Inr op \<Longrightarrow> ao_class op = AmxSdpa"
  by (auto simp: op_inits Let_def split: import_result.splits if_splits)

definition allowed_classes :: "host \<Rightarrow> vendor \<Rightarrow> op_class set" where
  "allowed_classes h v =
     insert Naive
     (let fe = fp8_env h; ae = amx_env h; auto_fp8 = (fe \<in> {''1'', ''true'', ''on''}); auto_amx = (ae \<in> {''1'', ''true'', ''on''}) in
      case v of
        AMD \<Rightarrow> {RocmFlash} \<union> (if auto_fp8 \<or> fe = ''triton'' then {Fp8Triton} else {})
               \<union> (if auto_fp8 \<or> fe = ''scaled_mm'' then {Fp8ScaledMM} else {})
      | NVIDIA \<Rightarrow> {HopperFlash} \<union> (if auto_fp8 \<or> fe = ''triton'' then {Fp8Hopper} else {})
               \<union> (if auto_fp8 \<or> fe \<in> {''te'', ''transformer_engine''} then {TransformerEngine} else {})
      | INTEL \<Rightarrow> {AmxSdpa} \<union> (if ae = ''int8'' then {AmxInt8Flash} else {})
               \<union> (if auto_amx \<or> ae = ''fp16'' then {AmxFp16Flash} else {})
               \<union> (if auto_amx \<or> ae = ''amx'' then {AmxFlash} else {})
               \<union> (if auto_amx \<or> ae = ''ipex'' then {IpexFlash} else {}))"

lemma candidate_classes: "Inr op \<in> set (candidate_ops h v) \<Longrightarrow> ao_class op \<in> allowed_classes h v"
  by (cases v)
    (auto simp: candidate_ops_def allowed_classes_def fp8_enabled_def amx_enabled_def Let_def
      init_class(1-5) dest: init_class(6-13) [OF sym] split: if_splits)

lemma select_cases:
  assumes "select_attention_op h a s d = Inr op"
  obtains ops pre post where "candidate_ops h (da_vendor a) = map Inr ops" "ops = pre @ op # post"
    "list_all (\<lambda>x. \<not> supports x s d) pre" "supports op s d"
proof -
  obtain ops where ops: "build_ops (candidate_ops h (da_vendor a)) = Inr ops"
    using assms by (auto simp: select_attention_op_def split: sum.splits)
  then have c: "candidate_ops h (da_vendor a) = map Inr ops" by (simp add: build_ops_Inr)
  have "Inr naive_init \<in> set (candidate_ops h (da_vendor a))" by (simp add: candidate_ops_def Let_def)
  with c have "naive_init \<in> set ops" by auto
  then have "find (\<lambda>op. supports op s d) ops \<noteq> None" using naive_always by (auto simp: find_None_iff)
  then have f: "find (\<lambda>op. supports op s d) ops = Some op"
    using assms ops by (auto simp: select_attention_op_def)
  then obtain i where "i < length ops" "supports (ops ! i) s d" "op = ops ! i" "\<forall>j < i. \<not> supports (ops ! j) s d"
    by (auto simp: find_Some_iff)
  then show thesis
    by (intro that [OF c, of "take i ops" "drop (Suc i) ops"]) (auto simp: id_take_nth_drop list_all_length)
qed

text \<open>Only \<open>ImportError\<close>s.\<close>

definition plain_imports :: "host \<Rightarrow> bool" where
  "plain_imports h =
     list_all (\<lambda>m. case importing h m of OtherFails _ _ \<Rightarrow> False | _ \<Rightarrow> True)
       [''torch'', ''flash_attn'', ''flash_attn_interface'', ''intel_extension_for_pytorch'',
        ''kernels.cpu.amx_attn._native'', ''kernels.cpu.amx_fp16_attn._native'', ''kernels.cpu.amx_int8_attn._native'']"

lemma plain_inits:
  assumes "plain_imports h"
  shows "rocm_flash_init h \<noteq> Inl x" "hopper_flash_init h \<noteq> Inl x" "amx_flash_init h \<noteq> Inl x"
    "amx_fp16_flash_init h \<noteq> Inl x" "amx_int8_flash_init h \<noteq> Inl x" "ipex_flash_init h \<noteq> Inl x"
    "amx_sdpa_init h \<noteq> Inl x"
    "(\<exists>x. fp8_scaled_mm_init h = Inl x) \<longleftrightarrow> importing h ''torch'' = Loaded \<and> \<not> torch_fnuz h"
  using assms by (auto simp: plain_imports_def op_inits Let_def split: import_result.splits)

lemma select_error_iff:
  assumes "plain_imports h"
  shows "(\<exists>x. select_attention_op h a s d = Inl x) \<longleftrightarrow>
    da_vendor a = AMD \<and> fp8_env h \<in> {''1'', ''true'', ''on'', ''scaled_mm''} \<and> importing h ''torch'' = Loaded \<and> \<not> torch_fnuz h"
proof -
  have "(\<exists>x. select_attention_op h a s d = Inl x) \<longleftrightarrow> (\<exists>x. Inl x \<in> set (candidate_ops h (da_vendor a)))"
    by (auto simp: select_attention_op_def simp flip: build_ops_Inl split: sum.splits option.splits)
  also have "\<dots> \<longleftrightarrow> da_vendor a = AMD \<and> fp8_env h \<in> {''1'', ''true'', ''on'', ''scaled_mm''} \<and> (\<exists>x. fp8_scaled_mm_init h = Inl x)"
    using plain_inits(1-7) [OF assms, THEN not_sym]
    by (cases "da_vendor a") (auto simp: candidate_ops_def Let_def fp8_enabled_def eq_commute [of "Inl _"])
  finally show ?thesis by (simp only: plain_inits(8) [OF assms])
qed

section \<open>Properties\<close>

text \<open>selection returns the first candidate, in the order of preference, that supports the problem
  at hand, and what it returns is available on the host.\<close>

theorem selection_returns_the_first_supporting_op:
  assumes "select_attention_op h a s d = Inr op"
  shows "supports op s d \<and> available op
    \<and> (\<exists>pre post. candidate_ops h (da_vendor a) = map Inr (pre @ op # post) \<and> list_all (\<lambda>x. \<not> supports x s d) pre)"
proof -
  obtain ops pre post where "candidate_ops h (da_vendor a) = map Inr ops" "ops = pre @ op # post"
    "list_all (\<lambda>x. \<not> supports x s d) pre" "supports op s d"
    by (rule select_cases [OF assms])
  then show ?thesis using supports_available by blast
qed

text \<open>the environment switches and the vendor bound the choice: an FP8 operation is chosen only
  on its vendor and under a value that names it or \<open>1\<close>, \<open>true\<close>, \<open>on\<close>, an AMX or IPEX operation only
  on Intel under its own values, and the FP8 operation for Ada is never chosen.\<close>

theorem selection_respects_vendor_and_switches:
  assumes "select_attention_op h a s d = Inr op"
  shows "ao_class op \<in> allowed_classes h (da_vendor a) \<and> ao_class op \<noteq> Fp8Ada"
proof -
  obtain ops pre post where "candidate_ops h (da_vendor a) = map Inr ops" "ops = pre @ op # post"
    by (rule select_cases [OF assms])
  then have "ao_class op \<in> allowed_classes h (da_vendor a)" by (intro candidate_classes) auto
  then show ?thesis by (cases "da_vendor a") (auto simp: allowed_classes_def Let_def split: if_splits)
qed

text \<open>neighborhood attention is always given to the reference operation, whose kernel has no
  window.\<close>

theorem neighborhood_attention_runs_naive:
  assumes "select_attention_op h a s d = Inr op" "as_kind s = NEIGHBORHOOD"
  shows "ao_class op = Naive"
proof (rule ccontr)
  assume "ao_class op \<noteq> Naive"
  moreover obtain ops pre post where "ops = pre @ op # post" "supports op s d"
    by (rule select_cases [OF assms(1)])
  ultimately have "dense_kind s" using supports_dense by blast
  with assms(2) show False by (simp add: dense_kind_def)
qed

text \<open>C26: where imports fail with \<open>ImportError\<close> only, selection raises exactly when the scaled-matmul
  operation is a candidate on a torch without the FNUZ type, which its constructor does not
  guard against; in every other case it returns an operation.\<close>

theorem selection_fails_only_without_fnuz:
  assumes "plain_imports h"
  shows "(\<exists>x. select_attention_op h a s d = Inl x) \<longleftrightarrow>
    da_vendor a = AMD \<and> fp8_env h \<in> {''1'', ''true'', ''on'', ''scaled_mm''} \<and> importing h ''torch'' = Loaded \<and> \<not> torch_fnuz h"
  using assms by (rule select_error_iff)

text \<open>What selection picks with both switches unset.\<close>

definition default_choice :: "host \<Rightarrow> vendor \<Rightarrow> attention_shape \<Rightarrow> dtype \<Rightarrow> op_class" where
  "default_choice h v s d =
     (if \<not> dense_kind s then Naive
      else case v of
        AMD \<Rightarrow> if importing h ''flash_attn'' = Loaded \<and> d \<in> {FP16, BF16} \<and> as_head_dim s \<in> {64, 128, 256}
               then RocmFlash else Naive
      | NVIDIA \<Rightarrow> if (importing h ''flash_attn_interface'' = Loaded \<or> importing h ''flash_attn'' = Loaded)
                    \<and> d \<in> {FP16, BF16} \<and> as_head_dim s \<in> {64, 96, 128, 192, 256}
               then HopperFlash else Naive
      | INTEL \<Rightarrow> if importing h ''torch'' = Loaded \<and> d \<in> {FP32, FP16, BF16, INT8} then AmxSdpa else Naive)"

text \<open>with both switches unset the choice has a closed form: the vendor's flash kernel where it
  is installed and qualifies, torch's own attention otherwise.\<close>

theorem default_selection:
  assumes "plain_imports h" "fp8_variable h = []" "amx_variable h = []"
  shows "\<exists>op. select_attention_op h a s d = Inr op \<and> ao_class op = default_choice h (da_vendor a) s d"
proof -
  have off: "\<not> fp8_enabled h" "\<not> amx_enabled h"
    by (simp_all add: fp8_enabled_def amx_enabled_def fp8_env_def amx_env_def lower_def assms(2,3))
  show ?thesis
  proof (cases "da_vendor a")
    case AMD
    with off assms(1) show ?thesis
      by (auto simp: select_attention_op_def candidate_ops_def Let_def op_inits op_supports
          available_def default_choice_def plain_imports_def split: import_result.splits)
  next
    case NVIDIA
    with off assms(1) show ?thesis
      by (auto simp: select_attention_op_def candidate_ops_def Let_def op_inits op_supports
          available_def default_choice_def plain_imports_def split: import_result.splits)
  next
    case INTEL
    with off assms(1) show ?thesis
      by (auto simp: select_attention_op_def candidate_ops_def Let_def op_inits op_supports
          available_def default_choice_def plain_imports_def split: import_result.splits)
  qed
qed

text \<open>The FP8 kernel of Hopper is chosen on every NVIDIA architecture under \<open>1\<close>.\<close>

lemma hopper_kernel_on_any_nvidia_arch:
  assumes "plain_imports h" "fp8_variable h = ''1''" "importing h ''triton_kernels.fp8_flash_attn_hopper'' = Loaded"
    and "da_vendor a = NVIDIA" "d = BF16" "as_head_dim s = 128" "as_kind s = FULL" "as_seq_q s = as_seq_kv s" "as_seq_q s \<ge> 128"
  shows "\<exists>op. select_attention_op h a s d = Inr op \<and> ao_class op = Fp8Hopper"
proof -
  have e: "fp8_env h = ''1''" by (simp add: fp8_env_def lower_def lower_char_def assms(2))
  obtain op where op: "select_attention_op h a s d = Inr op"
    using select_error_iff [OF assms(1), of a s d] assms(4)
    by (cases "select_attention_op h a s d") auto
  have "candidate_ops h NVIDIA = Inr (fp8_hopper_init h) # Inr (transformer_engine_init h) # [hopper_flash_init h, Inr naive_init]"
    by (simp add: candidate_ops_def e fp8_enabled_def)
  moreover have "supports (fp8_hopper_init h) s d"
    using assms(3-9) by (simp add: op_inits op_supports available_def
        dense_kind_def is_self_attention_def)
  ultimately have "op = fp8_hopper_init h"
    using op assms(4) by (auto simp: select_attention_op_def split: sum.splits)
  with op show ?thesis by (simp add: init_class)
qed

section \<open>Witnesses\<close>

definition sample_host :: "string \<Rightarrow> bool \<Rightarrow> host" where
  "sample_host fp8 fnuz =
     \<lparr>fp8_variable = fp8, amx_variable = [], cpuinfo_text = None, meminfo_text = None,
      importing = (\<lambda>m. if m \<in> {''torch'', ''flash_attn''} then Loaded else ImportFails ''No module''),
      ipex_sdpa = False, ipex_flash_attention = False, torch_fnuz = fnuz, torch_grouped_mm = True,
      torch_scaled_mm = True, cuda_version = Some ''12.4'', hip_version = None, cuda_available = True,
      cuda_devices = [], sched_affinity = None, cpu_count = None\<rparr>"

definition sample_shape :: "attention_kind \<Rightarrow> attention_shape" where
  "sample_shape k = \<lparr>as_batch = 1, as_heads = 2, as_seq_q = 128, as_seq_kv = 128, as_head_dim = 64, as_kind = k\<rparr>"

definition fa2_op :: attention_op where
  "fa2_op = (blank_op HopperFlash)\<lparr>ao_kernel := Some FlashAttn2, ao_error := Some ''flash_attn_interface (FA-3): No module''\<rparr>"

lemma sample_plain: "plain_imports (sample_host f b)"
  by (simp add: plain_imports_def sample_host_def)

lemma sample_selects_fa2: "select_attention_op (sample_host [] True) H100 (sample_shape CAUSAL) BF16 = Inr fa2_op"
  by code_simp

lemma sample_selects_naive: "select_attention_op (sample_host [] True) H100 (sample_shape NEIGHBORHOOD) BF16 = Inr naive_init"
  by code_simp

theorem selection_returns_the_first_supporting_op_witness:
  "supports fa2_op (sample_shape CAUSAL) BF16 \<and> available fa2_op
    \<and> (\<exists>pre post. candidate_ops (sample_host [] True) (da_vendor H100) = map Inr (pre @ fa2_op # post)
        \<and> list_all (\<lambda>x. \<not> supports x (sample_shape CAUSAL) BF16) pre)"
  by (rule selection_returns_the_first_supporting_op [OF sample_selects_fa2])

theorem selection_respects_vendor_and_switches_witness:
  "ao_class fa2_op \<in> allowed_classes (sample_host [] True) (da_vendor H100) \<and> ao_class fa2_op \<noteq> Fp8Ada"
  by (rule selection_respects_vendor_and_switches [OF sample_selects_fa2])

theorem neighborhood_attention_runs_naive_witness: "ao_class naive_init = Naive"
  by (rule neighborhood_attention_runs_naive [OF sample_selects_naive]) (simp add: sample_shape_def)

theorem selection_fails_only_without_fnuz_witness:
  "\<exists>x. select_attention_op (sample_host ''1'' False) MI300X (sample_shape FULL) BF16 = Inl x"
  unfolding selection_fails_only_without_fnuz [OF sample_plain] by code_simp

theorem default_selection_witness:
  "\<exists>op. select_attention_op (sample_host [] True) H100 (sample_shape CAUSAL) BF16 = Inr op \<and> ao_class op = HopperFlash"
proof -
  have "default_choice (sample_host [] True) (da_vendor H100) (sample_shape CAUSAL) BF16 = HopperFlash" by code_simp
  then show ?thesis
    using default_selection [OF sample_plain, of "[]" True H100 "sample_shape CAUSAL" BF16] by (simp add: sample_host_def)
qed

end
