(* ===== verification/AttentionCalls.thy ===== *)
theory AttentionCalls
  imports Attention
begin

text \<open>
  What the attention operations compute (\<open>__call__\<close> in \<open>attention/\<close>). A tensor is a list over batch,
  heads, sequence and channels (the layout of the package). The kernels are a parameter: torch's
  attention, the flash kernels, which want the sequence before the heads, the package's Triton
  and AMX kernels, and TransformerEngine with its modules. The scaled-matmul operation is
  written out over torch's grouped product, its casts and its softmax.
\<close>

section \<open>Kernels\<close>

type_synonym 'v t4 = "'v list list list list"

datatype 'v flash_result = Plain "'v t4" | WithLse "'v t4"

record ('v, 'm) attn_lib =
  al_sdpa :: "'v t4 \<Rightarrow> 'v t4 \<Rightarrow> 'v t4 \<Rightarrow> bool \<Rightarrow> 'v option \<Rightarrow> exn + 'v t4"
  al_flash :: "kernel \<Rightarrow> 'v t4 \<Rightarrow> 'v t4 \<Rightarrow> 'v t4 \<Rightarrow> bool \<Rightarrow> 'v option \<Rightarrow> exn + 'v flash_result"
  al_fused :: "kernel \<Rightarrow> 'v t4 \<Rightarrow> 'v t4 \<Rightarrow> 'v t4 \<Rightarrow> bool \<Rightarrow> 'v option \<Rightarrow> exn + 'v t4"
  al_inv_sqrt :: "nat \<Rightarrow> 'v"
  te_module :: "nat \<Rightarrow> nat \<Rightarrow> string \<Rightarrow> 'm"
  te_bhsd :: "'m \<Rightarrow> 'v t4 \<Rightarrow> 'v t4 \<Rightarrow> 'v t4 \<Rightarrow> 'v option \<Rightarrow> (exn + 'v t4) option"
  te_sbhd :: "'m \<Rightarrow> 'v t4 \<Rightarrow> 'v t4 \<Rightarrow> 'v t4 \<Rightarrow> 'v option \<Rightarrow> exn + 'v t4"
  al_scaled_mm :: "attention_op \<Rightarrow> 'v t4 \<Rightarrow> 'v t4 \<Rightarrow> 'v t4 \<Rightarrow> bool \<Rightarrow> 'v option \<Rightarrow> exn + 'v t4"

text \<open>\<open>te_bhsd\<close> is \<open>None\<close> where an older release raises \<open>TypeError\<close> on \<open>qkv_format\<close>.\<close>

type_synonym 'm te_cache = "((nat \<times> nat \<times> string) \<times> 'm) list"

definition heads_of :: "'v t4 \<Rightarrow> nat" where
  "heads_of x = length (hd x)"

definition channels_of :: "'v t4 \<Rightarrow> nat" where
  "channels_of x = length (hd (hd (hd x)))"

text \<open>\<open>x.transpose(1, 2)\<close>, and \<open>x.permute(2, 0, 1, 3)\<close> with its inverse.\<close>

definition swap_heads_seq :: "'v t4 \<Rightarrow> 'v t4" where
  "swap_heads_seq x = map transpose x"

definition to_sbhd :: "'v t4 \<Rightarrow> 'v t4" where
  "to_sbhd x = transpose (map transpose x)"

definition from_sbhd :: "'v t4 \<Rightarrow> 'v t4" where
  "from_sbhd x = map transpose (transpose x)"

section \<open>Calls\<close>

text \<open>The texts of the errors of an unavailable operation.\<close>

definition error_text :: "attention_op \<Rightarrow> string" where
  "error_text op = (case ao_error op of None \<Rightarrow> ''None'' | Some m \<Rightarrow> m)"

definition fp8_missing :: "string \<Rightarrow> attention_op \<Rightarrow> exn" where
  "fp8_missing title op = RuntimeError (title @ '' attention is not available (import error: '' @ error_text op
     @ ''). Fall back to attention_backend='' @ py_repr ''naive-sdpa'' @ ''.'')"

definition amx_missing :: "string \<Rightarrow> string \<Rightarrow> string \<Rightarrow> attention_op \<Rightarrow> exn" where
  "amx_missing cls build fallback op = RuntimeError (cls @ '' not available: '' @ error_text op @ ''.  Build the kernel with `''
     @ build @ fallback)"

definition naive_call ::
    "('v, 'm) attn_lib \<Rightarrow> 'v t4 \<Rightarrow> 'v t4 \<Rightarrow> 'v t4 \<Rightarrow> bool \<Rightarrow> 'v option \<Rightarrow> exn + 'v t4" where
  "naive_call L q k v causal scale = al_sdpa L q k v causal scale"

text \<open>A flash kernel without a log-sum-exp is taken as it is; FlashAttention-3 returns a pair.\<close>

definition rocm_call ::
    "('v, 'm) attn_lib \<Rightarrow> attention_op \<Rightarrow> 'v t4 \<Rightarrow> 'v t4 \<Rightarrow> 'v t4 \<Rightarrow> bool \<Rightarrow> 'v option \<Rightarrow> exn + 'v t4" where
  "rocm_call L op q k v causal scale =
     (case ao_kernel op of
        None \<Rightarrow> Inl (RuntimeError (''ROCm flash-attention is not installed. ''
          @ ''Build the CK flash-attn package for gfx942 - see ADR-0002 - ''
          @ ''or pin attention_backend='' @ py_repr ''naive-sdpa'' @ ''.''))
      | Some kn \<Rightarrow>
          (case al_flash L kn (swap_heads_seq q) (swap_heads_seq k) (swap_heads_seq v) causal scale of
             Inl x \<Rightarrow> Inl x
           | Inr (Plain out) \<Rightarrow> Inr (swap_heads_seq out)
           | Inr (WithLse out) \<Rightarrow> Inl (OtherException ''tuple object has no attribute transpose'')))"

definition hopper_call ::
    "('v, 'm) attn_lib \<Rightarrow> attention_op \<Rightarrow> 'v t4 \<Rightarrow> 'v t4 \<Rightarrow> 'v t4 \<Rightarrow> bool \<Rightarrow> 'v option \<Rightarrow> exn + 'v t4" where
  "hopper_call L op q k v causal scale =
     (case ao_kernel op of
        None \<Rightarrow> Inl (RuntimeError (''HopperFlashAttention requires flash-attn. Last import error: '' @ error_text op @ ''. ''
          @ ''Install via `pip install flash-attn --no-build-isolation` ''
          @ ''(see docs/COSMOS_ON_H100.md Reproduce) or pin attention_backend='' @ py_repr ''naive-sdpa'' @ ''.''))
      | Some kn \<Rightarrow>
          (case al_flash L kn (swap_heads_seq q) (swap_heads_seq k) (swap_heads_seq v) causal scale of
             Inl x \<Rightarrow> Inl x
           | Inr (Plain out) \<Rightarrow> Inr (swap_heads_seq out)
           | Inr (WithLse out) \<Rightarrow> Inr (swap_heads_seq out)))"

definition fp8_triton_call ::
    "('v, 'm) attn_lib \<Rightarrow> attention_op \<Rightarrow> 'v t4 \<Rightarrow> 'v t4 \<Rightarrow> 'v t4 \<Rightarrow> bool \<Rightarrow> 'v option \<Rightarrow> exn + 'v t4" where
  "fp8_triton_call L op q k v causal scale =
     (case ao_kernel op of
        None \<Rightarrow> Inl (fp8_missing ''FP8 Triton'' op)
      | Some kn \<Rightarrow> al_fused L kn q k v causal scale)"

definition fp8_hopper_call ::
    "('v, 'm) attn_lib \<Rightarrow> attention_op \<Rightarrow> 'v t4 \<Rightarrow> 'v t4 \<Rightarrow> 'v t4 \<Rightarrow> bool \<Rightarrow> 'v option \<Rightarrow> exn + 'v t4" where
  "fp8_hopper_call L op q k v causal scale =
     (case ao_kernel op of
        None \<Rightarrow> Inl (fp8_missing ''FP8 Hopper Triton'' op)
      | Some kn \<Rightarrow> al_fused L kn q k v causal scale)"

definition fp8_ada_call ::
    "('v, 'm) attn_lib \<Rightarrow> attention_op \<Rightarrow> 'v t4 \<Rightarrow> 'v t4 \<Rightarrow> 'v t4 \<Rightarrow> bool \<Rightarrow> 'v option \<Rightarrow> exn + 'v t4" where
  "fp8_ada_call L op q k v causal scale =
     (case ao_kernel op of
        None \<Rightarrow> Inl (fp8_missing ''FP8 Ada Triton'' op)
      | Some kn \<Rightarrow> al_fused L kn q k v causal scale)"

definition ipex_call ::
    "('v, 'm) attn_lib \<Rightarrow> attention_op \<Rightarrow> 'v t4 \<Rightarrow> 'v t4 \<Rightarrow> 'v t4 \<Rightarrow> bool \<Rightarrow> 'v option \<Rightarrow> exn + 'v t4" where
  "ipex_call L op q k v causal scale =
     (case ao_kernel op of
        None \<Rightarrow> Inl (RuntimeError (''IPEXFlashAttention requires intel-extension-for-pytorch: '' @ error_text op @ ''.  Install with ''
          @ ''`uv pip install intel-extension-for-pytorch` against a matching torch.''))
      | Some kn \<Rightarrow> al_fused L kn q k v causal scale)"

definition sm_scale :: "('v, 'm) attn_lib \<Rightarrow> 'v t4 \<Rightarrow> 'v option \<Rightarrow> 'v" where
  "sm_scale L q scale = (case scale of Some x \<Rightarrow> x | None \<Rightarrow> al_inv_sqrt L (channels_of q))"

definition amx_flash_call ::
    "('v, 'm) attn_lib \<Rightarrow> attention_op \<Rightarrow> 'v t4 \<Rightarrow> 'v t4 \<Rightarrow> 'v t4 \<Rightarrow> bool \<Rightarrow> 'v option \<Rightarrow> exn + 'v t4" where
  "amx_flash_call L op q k v causal scale =
     (case ao_kernel op of
        None \<Rightarrow> Inl (amx_missing ''AMXFlashAttention'' ''make kernels-cpu'' ''` or fall back to the AMXSDPAAttention floor.'' op)
      | Some kn \<Rightarrow> al_fused L kn q k v causal (Some (sm_scale L q scale)))"

definition amx_fp16_call ::
    "('v, 'm) attn_lib \<Rightarrow> attention_op \<Rightarrow> 'v t4 \<Rightarrow> 'v t4 \<Rightarrow> 'v t4 \<Rightarrow> bool \<Rightarrow> 'v option \<Rightarrow> exn + 'v t4" where
  "amx_fp16_call L op q k v causal scale =
     (case ao_kernel op of
        None \<Rightarrow> Inl (amx_missing ''AMXFP16FlashAttention'' ''make kernels-cpu'' ''` on a Granite Rapids host, or fall back to the AMXSDPAAttention floor.'' op)
      | Some kn \<Rightarrow> al_fused L kn q k v causal (Some (sm_scale L q scale)))"

definition amx_int8_call ::
    "('v, 'm) attn_lib \<Rightarrow> attention_op \<Rightarrow> 'v t4 \<Rightarrow> 'v t4 \<Rightarrow> 'v t4 \<Rightarrow> bool \<Rightarrow> 'v option \<Rightarrow> exn + 'v t4" where
  "amx_int8_call L op q k v causal scale =
     (case ao_kernel op of
        None \<Rightarrow> Inl (amx_missing ''AMXInt8FlashAttention'' ''make kernels-cpu-int8'' ''` or fall back to the AMX BF16 sibling / AMXSDPAAttention floor.'' op)
      | Some kn \<Rightarrow> al_fused L kn q k v causal (Some (sm_scale L q scale)))"

definition amx_sdpa_call ::
    "('v, 'm) attn_lib \<Rightarrow> attention_op \<Rightarrow> 'v t4 \<Rightarrow> 'v t4 \<Rightarrow> 'v t4 \<Rightarrow> bool \<Rightarrow> 'v option \<Rightarrow> exn + 'v t4" where
  "amx_sdpa_call L op q k v causal scale =
     (case ao_error op of
        Some m \<Rightarrow> Inl (RuntimeError (''AMXSDPAAttention requires torch: '' @ m))
      | None \<Rightarrow> al_sdpa L q k v causal scale)"

definition te_get_module ::
    "('v, 'm) attn_lib \<Rightarrow> nat \<Rightarrow> nat \<Rightarrow> bool \<Rightarrow> 'm te_cache \<Rightarrow> 'm te_cache \<times> 'm" where
  "te_get_module L heads channels causal cache =
     (let mask_type = (if causal then ''causal'' else ''no_mask''); key = (heads, channels, mask_type) in
      case map_of cache key of
        Some m \<Rightarrow> (cache, m)
      | None \<Rightarrow> (let m = te_module L heads channels mask_type in (AList.update key m cache, m)))"

definition te_call ::
    "('v, 'm) attn_lib \<Rightarrow> attention_op \<Rightarrow> 'm te_cache \<Rightarrow> 'v t4 \<Rightarrow> 'v t4 \<Rightarrow> 'v t4 \<Rightarrow> bool \<Rightarrow> 'v option
      \<Rightarrow> 'm te_cache \<times> (exn + 'v t4)" where
  "te_call L op cache q k v causal scale =
     (case ao_kernel op of
        None \<Rightarrow> (cache, Inl (RuntimeError (''TransformerEngine attention is not available (import error: '' @ error_text op
          @ ''). Install `transformer-engine[pytorch]` on a CUDA host, ''
          @ ''or pin attention_backend to a ROCm/Triton op. See ADR-0002.'')))
      | Some _ \<Rightarrow>
          (case te_get_module L (heads_of q) (channels_of q) causal cache of
             (cache, m) \<Rightarrow>
               (case te_bhsd L m q k v scale of
                  Some r \<Rightarrow> (cache, r)
                | None \<Rightarrow>
                    (case te_sbhd L m (to_sbhd q) (to_sbhd k) (to_sbhd v) scale of
                       Inl x \<Rightarrow> (cache, Inl x)
                     | Inr out \<Rightarrow> (cache, Inr (from_sbhd out))))))"

text \<open>An operation by its class. The scaled-matmul one computes on numbers, \<open>scaled_mm_call\<close> below.\<close>

definition call_op ::
    "('v, 'm) attn_lib \<Rightarrow> attention_op \<Rightarrow> 'm te_cache \<Rightarrow> 'v t4 \<Rightarrow> 'v t4 \<Rightarrow> 'v t4 \<Rightarrow> bool \<Rightarrow> 'v option
      \<Rightarrow> 'm te_cache \<times> (exn + 'v t4)" where
  "call_op L op cache q k v causal scale =
     (case ao_class op of
        Naive \<Rightarrow> (cache, naive_call L q k v causal scale)
      | RocmFlash \<Rightarrow> (cache, rocm_call L op q k v causal scale)
      | HopperFlash \<Rightarrow> (cache, hopper_call L op q k v causal scale)
      | Fp8Triton \<Rightarrow> (cache, fp8_triton_call L op q k v causal scale)
      | Fp8Hopper \<Rightarrow> (cache, fp8_hopper_call L op q k v causal scale)
      | Fp8Ada \<Rightarrow> (cache, fp8_ada_call L op q k v causal scale)
      | TransformerEngine \<Rightarrow> te_call L op cache q k v causal scale
      | AmxFlash \<Rightarrow> (cache, amx_flash_call L op q k v causal scale)
      | AmxFp16Flash \<Rightarrow> (cache, amx_fp16_call L op q k v causal scale)
      | AmxInt8Flash \<Rightarrow> (cache, amx_int8_call L op q k v causal scale)
      | IpexFlash \<Rightarrow> (cache, ipex_call L op q k v causal scale)
      | AmxSdpa \<Rightarrow> (cache, amx_sdpa_call L op q k v causal scale)
      | Fp8ScaledMM \<Rightarrow> (cache, al_scaled_mm L op q k v causal scale))"

section \<open>The scaled-matmul operation\<close>

type_synonym mat = "rat list list"

text \<open>\<open>torch._scaled_grouped_mm\<close> on one group takes its second operand by rows of the result's
  columns; a masked score is \<open>None\<close>.\<close>

record fp8_lib =
  fl_bf16 :: "rat \<Rightarrow> rat"
  fl_fp8 :: "rat \<Rightarrow> rat"
  fl_mm :: "mat \<Rightarrow> mat \<Rightarrow> rat list \<Rightarrow> rat list \<Rightarrow> mat"
  fl_softmax :: "rat option list \<Rightarrow> rat list"
  fl_inv_sqrt :: "nat \<Rightarrow> rat"
  fl_query_dtype :: "rat \<Rightarrow> rat"

definition row_amax :: "rat list \<Rightarrow> rat" where
  "row_amax r = max (foldr (\<lambda>x m. max \<bar>x\<bar> m) r 0) (1 / 1000000)"

definition fp8_max :: rat where "fp8_max = 240"

definition fp8_target :: rat where "fp8_target = 95 / 100 * fp8_max"

definition rowwise_quantize :: "fp8_lib \<Rightarrow> mat \<Rightarrow> mat \<times> rat list" where
  "rowwise_quantize F x =
     (map (\<lambda>r. map (\<lambda>e. fl_fp8 F (min (max (e * (fp8_target / row_amax r)) (- fp8_max)) fp8_max)) r) x,
      map (\<lambda>r. row_amax r / fp8_target) x)"

definition mask_scores :: "bool \<Rightarrow> mat \<Rightarrow> rat option list list" where
  "mask_scores causal scores =
     map (\<lambda>(i, r). map (\<lambda>(j, e). if causal \<and> j > i then None else Some e) (enumerate 0 r)) (enumerate 0 scores)"

definition scaled_mm_group :: "fp8_lib \<Rightarrow> bool \<Rightarrow> rat \<Rightarrow> mat \<Rightarrow> mat \<Rightarrow> mat \<Rightarrow> mat" where
  "scaled_mm_group F causal scale q k v =
     (let (q8, q_scale) = rowwise_quantize F q;
          (k8, k_scale) = rowwise_quantize F k;
          raw = fl_mm F q8 k8 q_scale k_scale;
          scores = map (map (\<lambda>e. e * scale)) raw;
          p = map (fl_softmax F) (mask_scores causal scores);
          (p8, p_scale) = rowwise_quantize F p;
          (v8, v_scale) = rowwise_quantize F (transpose v)
      in fl_mm F p8 v8 p_scale v_scale)"

definition scaled_mm_call ::
    "fp8_lib \<Rightarrow> attention_op \<Rightarrow> rat t4 \<Rightarrow> rat t4 \<Rightarrow> rat t4 \<Rightarrow> bool \<Rightarrow> rat option \<Rightarrow> exn + rat t4" where
  "scaled_mm_call F op q k v causal scale =
     (if \<not> ao_fp8_dtype op then
        Inl (RuntimeError (''FP8ScaledMMAttention requires torch.float8_e4m3fnuz ''
          @ ''(gfx942-class). Pin attention_backend='' @ py_repr ''naive-sdpa'' @ '' on hardware without FP8.''))
      else
        let sm = (case scale of Some x \<Rightarrow> x | None \<Rightarrow> fl_inv_sqrt F (channels_of q));
            flat = (\<lambda>x. map (map (map (fl_bf16 F))) (concat x))
        in Inr (chunks_of (heads_of q)
             (map (\<lambda>(q, k, v). map (map (fl_query_dtype F)) (scaled_mm_group F causal sm q k v))
               (zip (flat q) (zip (flat k) (flat v))))))"

section \<open>Layouts\<close>

definition rect2 :: "nat \<Rightarrow> nat \<Rightarrow> 'v list list \<Rightarrow> bool" where
  "rect2 m n x \<longleftrightarrow> length x = m \<and> (\<forall>r \<in> set x. length r = n)"

definition rect4 :: "nat \<Rightarrow> nat \<Rightarrow> nat \<Rightarrow> nat \<Rightarrow> 'v t4 \<Rightarrow> bool" where
  "rect4 b h s d x \<longleftrightarrow> length x = b \<and> (\<forall>m \<in> set x. rect2 h s m \<and> (\<forall>r \<in> set m. \<forall>e \<in> set r. length e = d))"

lemma transpose_rect2:
  assumes "rect2 m n x" "m > 0"
  shows "transpose x = map (\<lambda>i. map (\<lambda>j. x ! j ! i) [0 ..< m]) [0 ..< n]" "rect2 n m (transpose x)"
proof -
  show t: "transpose x = map (\<lambda>i. map (\<lambda>j. x ! j ! i) [0 ..< m]) [0 ..< n]"
    using assms by (subst transpose_rectangle [where n = n]) (auto simp: rect2_def)
  show "rect2 n m (transpose x)" by (auto simp: t rect2_def)
qed

lemma transpose_twice:
  assumes "rect2 m n x" "m > 0" "n > 0"
  shows "transpose (transpose x) = x"
proof -
  have "transpose (transpose x) = map (\<lambda>i. map (\<lambda>j. transpose x ! j ! i) [0 ..< n]) [0 ..< m]"
    using transpose_rect2(1) [OF transpose_rect2(2) [OF assms(1,2)] assms(3)] .
  also have "\<dots> = x"
  proof -
    have "transpose x ! j ! i = x ! i ! j" if "i < m" "j < n" for i j
      using that by (simp add: transpose_rect2(1) [OF assms(1,2)])
    with assms(1) show ?thesis by (intro nth_equalityI) (auto simp: rect2_def intro!: nth_equalityI)
  qed
  finally show ?thesis .
qed

lemma swap_twice: "rect4 b h s d x \<Longrightarrow> h > 0 \<Longrightarrow> s > 0 \<Longrightarrow> swap_heads_seq (swap_heads_seq x) = x"
  by (auto simp: swap_heads_seq_def rect4_def transpose_twice intro!: map_idI)

lemma sbhd_round: "rect4 b h s d x \<Longrightarrow> b > 0 \<Longrightarrow> h > 0 \<Longrightarrow> s > 0 \<Longrightarrow> from_sbhd (to_sbhd x) = x"
proof -
  assume r: "rect4 b h s d x" "b > 0" "h > 0" "s > 0"
  then have "rect2 b s (map transpose x)"
    using transpose_rect2(2) [of h s] by (fastforce simp: rect4_def rect2_def)
  with r have "from_sbhd (to_sbhd x) = swap_heads_seq (swap_heads_seq x)"
    by (simp add: from_sbhd_def to_sbhd_def swap_heads_seq_def transpose_twice)
  with r swap_twice show ?thesis by metis
qed

lemma rect4_heads:
  assumes "rect4 b h s d x" "b > 0" "h > 0" "s > 0"
  shows "heads_of x = h" "channels_of x = d"
proof -
  obtain m ms where x: "x = m # ms" using assms by (cases x) (auto simp: rect4_def)
  with assms obtain r rs where m: "m = r # rs" by (cases m) (auto simp: rect4_def rect2_def)
  with x assms obtain e es where r: "r = e # es" by (cases r) (auto simp: rect4_def rect2_def)
  show "heads_of x = h" "channels_of x = d"
    using assms by (auto simp: x m r heads_of_def channels_of_def rect4_def rect2_def)
qed

section \<open>What the kernels promise\<close>

definition scale_or :: "('v, 'm) attn_lib \<Rightarrow> nat \<Rightarrow> 'v option \<Rightarrow> 'v" where
  "scale_or L d scale = (case scale of Some x \<Rightarrow> x | None \<Rightarrow> al_inv_sqrt L d)"

fun kernels_of :: "op_class \<Rightarrow> kernel set" where
  "kernels_of Naive = {TorchSdpa}"
| "kernels_of RocmFlash = {CkFlash}"
| "kernels_of HopperFlash = {FlashAttn3, FlashAttn2}"
| "kernels_of Fp8Triton = {TritonFp8}"
| "kernels_of Fp8Hopper = {TritonFp8Hopper}"
| "kernels_of Fp8Ada = {TritonFp8Ada}"
| "kernels_of TransformerEngine = {TeDotProduct}"
| "kernels_of Fp8ScaledMM = {}"
| "kernels_of AmxFlash = {AmxBf16Kernel}"
| "kernels_of AmxFp16Flash = {AmxFp16Kernel}"
| "kernels_of AmxInt8Flash = {AmxInt8Kernel}"
| "kernels_of IpexFlash = {IpexSdpaKernel, IpexFlashKernel}"
| "kernels_of AmxSdpa = {TorchSdpa}"

text \<open>Each kernel computes an attention function \<open>att kernel\<close> of its own precision, in its documented
  layout, with \<open>1 / sqrt(d)\<close> for a missing scale. The Triton kernels take self-attention of the
  compiled widths only. A TransformerEngine module is built for its numbers of heads and channels
  and its mask.\<close>

definition triton_shape :: "kernel \<Rightarrow> nat \<Rightarrow> nat \<Rightarrow> nat \<Rightarrow> bool" where
  "triton_shape kn sq skv d \<longleftrightarrow> (kn \<in> {TritonFp8, TritonFp8Hopper, TritonFp8Ada} \<longrightarrow> sq = skv \<and> d \<in> {32, 64, 128, 256})"

definition conforms ::
    "('v, 'm) attn_lib \<Rightarrow> (kernel \<Rightarrow> 'v t4 \<Rightarrow> 'v t4 \<Rightarrow> 'v t4 \<Rightarrow> bool \<Rightarrow> 'v \<Rightarrow> 'v t4) \<Rightarrow> bool" where
  "conforms L att \<longleftrightarrow>
     (\<forall>b h sq skv d q k v c sc. b > 0 \<and> h > 0 \<and> sq > 0 \<and> skv > 0 \<and>
        rect4 b h sq d q \<and> rect4 b h skv d k \<and> rect4 b h skv d v \<longrightarrow>
        (\<forall>kn. rect4 b h sq d (att kn q k v c (scale_or L d sc))) \<and>
        al_sdpa L q k v c sc = Inr (att TorchSdpa q k v c (scale_or L d sc)) \<and>
        (\<forall>kn \<in> {CkFlash, FlashAttn3, FlashAttn2}.
           al_flash L kn (swap_heads_seq q) (swap_heads_seq k) (swap_heads_seq v) c sc
             = Inr (Plain (swap_heads_seq (att kn q k v c (scale_or L d sc)))) \<or>
           kn = FlashAttn3 \<and>
           al_flash L kn (swap_heads_seq q) (swap_heads_seq k) (swap_heads_seq v) c sc
             = Inr (WithLse (swap_heads_seq (att kn q k v c (scale_or L d sc))))) \<and>
        (\<forall>kn \<in> {TritonFp8, TritonFp8Hopper, TritonFp8Ada, AmxBf16Kernel, AmxFp16Kernel, AmxInt8Kernel, IpexSdpaKernel, IpexFlashKernel}.
           triton_shape kn sq skv d \<longrightarrow> al_fused L kn q k v c sc = Inr (att kn q k v c (scale_or L d sc))) \<and>
        (let m = te_module L h d (if c then ''causal'' else ''no_mask'')
         in te_bhsd L m q k v sc = Some (Inr (att TeDotProduct q k v c (scale_or L d sc))) \<or>
            te_bhsd L m q k v sc = None \<and>
            te_sbhd L m (to_sbhd q) (to_sbhd k) (to_sbhd v) sc = Inr (to_sbhd (att TeDotProduct q k v c (scale_or L d sc)))))"

definition cache_ok :: "('v, 'm) attn_lib \<Rightarrow> 'm te_cache \<Rightarrow> bool" where
  "cache_ok L cache \<longleftrightarrow> (\<forall>h d t m. map_of cache (h, d, t) = Some m \<longrightarrow> m = te_module L h d t)"

lemma get_module_ok:
  assumes "cache_ok L cache"
  shows "snd (te_get_module L h d c cache) = te_module L h d (if c then ''causal'' else ''no_mask'')"
    "cache_ok L (fst (te_get_module L h d c cache))"
  using assms
  by (auto simp: te_get_module_def cache_ok_def Let_def map_of_AList_update split: option.splits)

lemma init_kernels:
  "\<exists>kn \<in> kernels_of Naive. ao_kernel naive_init = Some kn"
  "available (fp8_triton_init h) \<Longrightarrow> \<exists>kn \<in> kernels_of Fp8Triton. ao_kernel (fp8_triton_init h) = Some kn"
  "available (fp8_hopper_init h) \<Longrightarrow> \<exists>kn \<in> kernels_of Fp8Hopper. ao_kernel (fp8_hopper_init h) = Some kn"
  "available (transformer_engine_init h) \<Longrightarrow> \<exists>kn \<in> kernels_of TransformerEngine. ao_kernel (transformer_engine_init h) = Some kn"
  "rocm_flash_init h = Inr op \<Longrightarrow> available op \<Longrightarrow> \<exists>kn \<in> kernels_of RocmFlash. ao_kernel op = Some kn"
  "hopper_flash_init h = Inr op \<Longrightarrow> available op \<Longrightarrow> \<exists>kn \<in> kernels_of HopperFlash. ao_kernel op = Some kn"
  "amx_flash_init h = Inr op \<Longrightarrow> available op \<Longrightarrow> \<exists>kn \<in> kernels_of AmxFlash. ao_kernel op = Some kn"
  "amx_fp16_flash_init h = Inr op \<Longrightarrow> available op \<Longrightarrow> \<exists>kn \<in> kernels_of AmxFp16Flash. ao_kernel op = Some kn"
  "amx_int8_flash_init h = Inr op \<Longrightarrow> available op \<Longrightarrow> \<exists>kn \<in> kernels_of AmxInt8Flash. ao_kernel op = Some kn"
  "ipex_flash_init h = Inr op \<Longrightarrow> available op \<Longrightarrow> \<exists>kn \<in> kernels_of IpexFlash. ao_kernel op = Some kn"
  "amx_sdpa_init h = Inr op \<Longrightarrow> available op \<Longrightarrow> (\<exists>kn \<in> kernels_of AmxSdpa. ao_kernel op = Some kn) \<and> ao_error op = None"
  by (auto simp: op_inits available_def Let_def split: import_result.splits if_splits)

lemma init_kernel:
  assumes op: "Inr op \<in> set (candidate_ops h v)" and av: "available op" and "ao_class op \<noteq> Fp8ScaledMM"
  shows "(\<exists>kn \<in> kernels_of (ao_class op). ao_kernel op = Some kn) \<and> (ao_class op = AmxSdpa \<longrightarrow> ao_error op = None)"
proof -
  from op consider "op = naive_init" | "op = fp8_triton_init h" | "op = fp8_hopper_init h" | "op = transformer_engine_init h"
    | "Inr op \<in> {rocm_flash_init h, hopper_flash_init h, fp8_scaled_mm_init h, amx_flash_init h, amx_fp16_flash_init h,
        amx_int8_flash_init h, ipex_flash_init h, amx_sdpa_init h}"
    by (cases v) (auto simp: candidate_ops_def Let_def split: if_splits)
  then show ?thesis
  proof cases
    case 5
    then consider "rocm_flash_init h = Inr op" | "hopper_flash_init h = Inr op" | "amx_flash_init h = Inr op"
      | "amx_fp16_flash_init h = Inr op" | "amx_int8_flash_init h = Inr op" | "ipex_flash_init h = Inr op"
      | "amx_sdpa_init h = Inr op"
      using assms(3) init_class(8) by (metis insertE singletonD)
    then show ?thesis using av by cases (simp_all only: init_class init_kernels op_class.distinct simp_thms)
  qed (use av init_kernels(1-4) in \<open>simp_all only: init_class op_class.distinct simp_thms\<close>)
qed

lemma conforms_at:
  assumes "conforms L att" "b > 0" "h > 0" "sq > 0" "skv > 0" "rect4 b h sq d q" "rect4 b h skv d k" "rect4 b h skv d v"
  shows "rect4 b h sq d (att kn q k v c (scale_or L d sc))"
    "al_sdpa L q k v c sc = Inr (att TorchSdpa q k v c (scale_or L d sc))"
    "kn \<in> {CkFlash, FlashAttn3, FlashAttn2} \<Longrightarrow>
       al_flash L kn (swap_heads_seq q) (swap_heads_seq k) (swap_heads_seq v) c sc
         = Inr (Plain (swap_heads_seq (att kn q k v c (scale_or L d sc)))) \<or>
       kn = FlashAttn3 \<and> al_flash L kn (swap_heads_seq q) (swap_heads_seq k) (swap_heads_seq v) c sc
         = Inr (WithLse (swap_heads_seq (att kn q k v c (scale_or L d sc))))"
    "kn \<in> {TritonFp8, TritonFp8Hopper, TritonFp8Ada, AmxBf16Kernel, AmxFp16Kernel, AmxInt8Kernel, IpexSdpaKernel, IpexFlashKernel} \<Longrightarrow>
       triton_shape kn sq skv d \<Longrightarrow> al_fused L kn q k v c sc = Inr (att kn q k v c (scale_or L d sc))"
    "te_bhsd L (te_module L h d (if c then ''causal'' else ''no_mask'')) q k v sc
        = Some (Inr (att TeDotProduct q k v c (scale_or L d sc))) \<or>
     te_bhsd L (te_module L h d (if c then ''causal'' else ''no_mask'')) q k v sc = None \<and>
     te_sbhd L (te_module L h d (if c then ''causal'' else ''no_mask'')) (to_sbhd q) (to_sbhd k) (to_sbhd v) sc
        = Inr (to_sbhd (att TeDotProduct q k v c (scale_or L d sc)))"
proof -
  note c = assms(1) [unfolded conforms_def Let_def, rule_format, OF conjI [OF assms(2) conjI [OF assms(3) conjI [OF assms(4)
      conjI [OF assms(5) conjI [OF assms(6) conjI [OF assms(7,8)]]]]]], of c sc]
  show "rect4 b h sq d (att kn q k v c (scale_or L d sc))" using c by blast
  show "al_sdpa L q k v c sc = Inr (att TorchSdpa q k v c (scale_or L d sc))" using c by blast
  show "al_flash L kn (swap_heads_seq q) (swap_heads_seq k) (swap_heads_seq v) c sc
         = Inr (Plain (swap_heads_seq (att kn q k v c (scale_or L d sc)))) \<or>
       kn = FlashAttn3 \<and> al_flash L kn (swap_heads_seq q) (swap_heads_seq k) (swap_heads_seq v) c sc
         = Inr (WithLse (swap_heads_seq (att kn q k v c (scale_or L d sc))))"
    if "kn \<in> {CkFlash, FlashAttn3, FlashAttn2}"
    using c that by blast
  show "al_fused L kn q k v c sc = Inr (att kn q k v c (scale_or L d sc))"
    if "kn \<in> {TritonFp8, TritonFp8Hopper, TritonFp8Ada, AmxBf16Kernel, AmxFp16Kernel, AmxInt8Kernel, IpexSdpaKernel, IpexFlashKernel}"
      "triton_shape kn sq skv d"
    using c that by blast
  show "te_bhsd L (te_module L h d (if c then ''causal'' else ''no_mask'')) q k v sc
        = Some (Inr (att TeDotProduct q k v c (scale_or L d sc))) \<or>
     te_bhsd L (te_module L h d (if c then ''causal'' else ''no_mask'')) q k v sc = None \<and>
     te_sbhd L (te_module L h d (if c then ''causal'' else ''no_mask'')) (to_sbhd q) (to_sbhd k) (to_sbhd v) sc
        = Inr (to_sbhd (att TeDotProduct q k v c (scale_or L d sc)))"
    using c by blast
qed

lemma flash_call_att:
  assumes "ao_kernel op = Some kn" "rect4 b h s d out" "h > 0" "s > 0"
    and "al_flash L kn (swap_heads_seq q) (swap_heads_seq k) (swap_heads_seq v) c sc = Inr (Plain (swap_heads_seq out)) \<or>
         kn = FlashAttn3 \<and>
         al_flash L kn (swap_heads_seq q) (swap_heads_seq k) (swap_heads_seq v) c sc = Inr (WithLse (swap_heads_seq out))"
  shows "hopper_call L op q k v c sc = Inr out" "kn = CkFlash \<Longrightarrow> rocm_call L op q k v c sc = Inr out"
  using assms by (auto simp: hopper_call_def rocm_call_def swap_twice)

lemma te_call_att:
  assumes "ao_kernel op = Some kn" "cache_ok L cache" "rect4 b h s d out" "b > 0" "h > 0" "s > 0"
    and "heads_of q = h" "channels_of q = d"
    and te: "te_bhsd L (te_module L h d (if c then ''causal'' else ''no_mask'')) q k v sc = Some (Inr out) \<or>
      te_bhsd L (te_module L h d (if c then ''causal'' else ''no_mask'')) q k v sc = None \<and>
      te_sbhd L (te_module L h d (if c then ''causal'' else ''no_mask'')) (to_sbhd q) (to_sbhd k) (to_sbhd v) sc = Inr (to_sbhd out)"
  shows "snd (te_call L op cache q k v c sc) = Inr out \<and> cache_ok L (fst (te_call L op cache q k v c sc))"
proof -
  obtain cache' m where m: "te_get_module L h d c cache = (cache', m)" by (cases "te_get_module L h d c cache")
  with get_module_ok [OF assms(2), of h d c] have "m = te_module L h d (if c then ''causal'' else ''no_mask'')" "cache_ok L cache'"
    by auto
  with m te assms show ?thesis by (auto simp: te_call_def sbhd_round)
qed

lemma call_op_att:
  assumes "conforms L att" "b > 0" "h > 0" "sq > 0" "skv > 0" "rect4 b h sq d q" "rect4 b h skv d k" "rect4 b h skv d v"
    and kn: "kn \<in> kernels_of (ao_class op)" "ao_kernel op = Some kn" and sdpa: "ao_class op = AmxSdpa \<longrightarrow> ao_error op = None"
    and cache: "cache_ok L cache" and shape: "triton_shape kn sq skv d"
  shows "snd (call_op L op cache q k v c sc) = Inr (att kn q k v c (scale_or L d sc))
    \<and> cache_ok L (fst (call_op L op cache q k v c sc))"
proof -
  note at = conforms_at [OF assms(1-8)]
  note dims = rect4_heads [OF assms(6,2,3,4)]
  have flash: "hopper_call L op q k v c sc = Inr (att kn q k v c (scale_or L d sc))"
    "kn = CkFlash \<Longrightarrow> rocm_call L op q k v c sc = Inr (att kn q k v c (scale_or L d sc))"
    if "kn \<in> {CkFlash, FlashAttn3, FlashAttn2}"
    using flash_call_att [OF kn(2) at(1) assms(3,4) at(3) [OF that]] by blast+
  define fused where "fused = {TritonFp8, TritonFp8Hopper, TritonFp8Ada, AmxBf16Kernel, AmxFp16Kernel, AmxInt8Kernel,
    IpexSdpaKernel, IpexFlashKernel}"
  have sm: "sm_scale L q sc = scale_or L d sc" unfolding sm_scale_def scale_or_def dims ..
  have f: "al_fused L kn q k v c sc = Inr (att kn q k v c (scale_or L d sc))"
    "al_fused L kn q k v c (Some (sm_scale L q sc)) = Inr (att kn q k v c (scale_or L d sc))" if "kn \<in> fused"
    using at(4) [OF _ shape, of c sc] at(4) [OF _ shape, of c "Some (scale_or L d sc)"] that
    by (simp_all add: fused_def sm) (simp_all add: scale_or_def)
  note calls = fp8_triton_call_def fp8_hopper_call_def fp8_ada_call_def ipex_call_def amx_flash_call_def amx_fp16_call_def
    amx_int8_call_def
  show ?thesis
  proof (cases "ao_class op")
    case TransformerEngine
    then have "kn = TeDotProduct" using kn(1) by simp
    then show ?thesis
      using te_call_att [OF kn(2) cache at(1) assms(2-4) dims at(5)] TransformerEngine by (simp add: call_op_def)
  next
    case Naive
    then show ?thesis using kn(1) cache at(2) by (simp add: call_op_def naive_call_def)
  next
    case AmxSdpa
    then show ?thesis using kn(1) sdpa cache at(2) by (simp add: call_op_def amx_sdpa_call_def)
  qed (use kn cache flash f in \<open>auto simp: call_op_def calls fused_def\<close>)
qed

lemma supports_triton:
  assumes "supports op s dt" "kn \<in> kernels_of (ao_class op)"
  shows "kn \<in> {TritonFp8, TritonFp8Hopper, TritonFp8Ada} \<Longrightarrow> as_seq_q s = as_seq_kv s \<and> as_head_dim s \<in> {32, 64, 128, 256}"
  using assms by (cases "ao_class op") (auto simp: op_supports is_self_attention_def)

section \<open>Exact arithmetic\<close>

text \<open>Without rounding, the grouped product is the matrix product with its two scales.\<close>

definition dot :: "rat list \<Rightarrow> rat list \<Rightarrow> rat" where
  "dot a b = sum_list (map2 (*) a b)"

definition exact_lib :: "fp8_lib \<Rightarrow> bool" where
  "exact_lib F \<longleftrightarrow> (\<forall>x. fl_bf16 F x = x \<and> fl_fp8 F x = x \<and> fl_query_dtype F x = x) \<and>
     (\<forall>a b sa sb. length sa = length a \<and> length sb = length b \<longrightarrow>
        fl_mm F a b sa sb = map2 (\<lambda>r s. map2 (\<lambda>c t. dot r c * (s * t)) b sb) a sa)"

text \<open>Attention of one group, as the textbooks write it.\<close>

definition reference_group :: "fp8_lib \<Rightarrow> bool \<Rightarrow> rat \<Rightarrow> mat \<Rightarrow> mat \<Rightarrow> mat \<Rightarrow> mat" where
  "reference_group F causal scale q k v =
     (let p = map (fl_softmax F) (mask_scores causal (map (\<lambda>r. map (\<lambda>c. dot r c * scale) k) q))
      in map (\<lambda>r. map (dot r) (transpose v)) p)"

lemma row_amax_pos: "row_amax r > 0"
  by (simp add: row_amax_def less_max_iff_disj)

lemma row_amax_bound: "x \<in> set r \<Longrightarrow> \<bar>x\<bar> \<le> row_amax r"
proof -
  assume "x \<in> set r"
  then have "\<bar>x\<bar> \<le> foldr (\<lambda>x m. max \<bar>x\<bar> m) r 0" by (induction r) (auto simp: le_max_iff_disj)
  then show ?thesis by (simp add: row_amax_def le_max_iff_disj)
qed

lemma scaled_entry_bound:
  assumes "x \<in> set r"
  shows "\<bar>x * (fp8_target / row_amax r)\<bar> \<le> fp8_target"
proof -
  have "\<bar>x\<bar> / row_amax r \<le> 1" using row_amax_bound [OF assms] row_amax_pos [of r] by simp
  then have "\<bar>x\<bar> / row_amax r * fp8_target \<le> 1 * fp8_target"
    by (intro mult_right_mono) (simp_all add: fp8_target_def fp8_max_def)
  moreover have "\<bar>x * (fp8_target / row_amax r)\<bar> = \<bar>x\<bar> / row_amax r * fp8_target"
    using row_amax_pos [of r] by (simp add: abs_mult fp8_target_def fp8_max_def)
  ultimately show ?thesis by simp
qed

lemma clamp_between: "\<bar>y\<bar> \<le> t \<Longrightarrow> t \<le> m \<Longrightarrow> min (max y (- m)) m = (y :: rat)"
  by (auto simp: min_def max_def abs_le_iff)

lemma clamp_noop:
  assumes "x \<in> set r"
  shows "min (max (x * (fp8_target / row_amax r)) (- fp8_max)) fp8_max = x * (fp8_target / row_amax r)"
proof -
  have "fp8_target \<le> fp8_max" by (simp add: fp8_target_def fp8_max_def)
  with scaled_entry_bound [OF assms] show ?thesis by (rule clamp_between)
qed

lemma rowwise_exact:
  assumes "exact_lib F"
  shows "fst (rowwise_quantize F x) = map (\<lambda>r. map (\<lambda>e. e * (fp8_target / row_amax r)) r) x"
    "snd (rowwise_quantize F x) = map (\<lambda>r. row_amax r / fp8_target) x"
  using assms clamp_noop by (auto simp: rowwise_quantize_def exact_lib_def)

lemma dot_scaled: "dot (map (\<lambda>e. e * a) r) (map (\<lambda>e. e * b) c) = dot r c * (a * b)"
proof (induction r arbitrary: c)
  case (Cons x r)
  then show ?case by (cases c) (simp_all add: dot_def algebra_simps)
qed (simp add: dot_def)

lemma exact_product:
  assumes "exact_lib F"
  shows "fl_mm F (fst (rowwise_quantize F a)) (fst (rowwise_quantize F b)) (snd (rowwise_quantize F a)) (snd (rowwise_quantize F b))
    = map (\<lambda>r. map (dot r) b) a"
proof -
  have t: "fp8_target \<noteq> 0" by (simp add: fp8_target_def fp8_max_def)
  have one: "fp8_target / row_amax r * (fp8_target / row_amax c) * (row_amax r / fp8_target * (row_amax c / fp8_target)) = 1" for r c
    using t row_amax_pos [of r] row_amax_pos [of c] by simp
  have "dot (map (\<lambda>e. e * (fp8_target / row_amax r)) r) (map (\<lambda>e. e * (fp8_target / row_amax c)) c)
      * (row_amax r / fp8_target * (row_amax c / fp8_target)) = dot r c" for r c
    unfolding dot_scaled mult.assoc [of "dot r c"] one by simp
  moreover have "fl_mm F (fst (rowwise_quantize F a)) (fst (rowwise_quantize F b)) (snd (rowwise_quantize F a)) (snd (rowwise_quantize F b))
      = map2 (\<lambda>r s. map2 (\<lambda>c t. dot r c * (s * t)) (fst (rowwise_quantize F b)) (snd (rowwise_quantize F b)))
          (fst (rowwise_quantize F a)) (snd (rowwise_quantize F a))"
    using assms by (auto simp: exact_lib_def rowwise_quantize_def)
  ultimately show ?thesis
    unfolding rowwise_exact [OF assms] by (simp add: zip_map_map zip_same_conv_map comp_def)
qed

lemma group_exact:
  assumes "exact_lib F"
  shows "scaled_mm_group F causal scale q k v = reference_group F causal scale q k v"
  unfolding scaled_mm_group_def reference_group_def Let_def case_prod_beta exact_product [OF assms]
  by (simp add: comp_def)

lemma chunks_of_groups:
  assumes "h > 0" "\<forall>m \<in> set q. length m = h" "\<forall>m \<in> set k. length m = h" "\<forall>m \<in> set v. length m = h"
    and "length k = length q" "length v = length q"
  shows "chunks_of h (map f (zip (concat q) (zip (concat k) (concat v))))
    = map2 (\<lambda>qb (kb, vb). map f (zip qb (zip kb vb))) q (zip k v)"
  using assms(2-6)
proof (induction q arbitrary: k v)
  case (Cons qb q)
  obtain kb k1 vb v1 where kv: "k = kb # k1" "v = vb # v1"
    using Cons.prems by (cases k; cases v; simp)
  have len: "length qb = h" "length kb = h" "length vb = h" using Cons.prems kv by auto
  have "zip (qb @ concat q) (zip (kb @ concat k1) (vb @ concat v1)) = zip qb (zip kb vb) @ zip (concat q) (zip (concat k1) (concat v1))"
    using len by simp
  moreover have "chunks_of h (map f (zip (concat q) (zip (concat k1) (concat v1))))
      = map2 (\<lambda>qb (kb, vb). map f (zip qb (zip kb vb))) q (zip k1 v1)"
    using Cons.prems kv by (intro Cons.IH) auto
  ultimately show ?case using len kv chunks_append [OF assms(1), of "map f (zip qb (zip kb vb))"] by simp
qed simp

section \<open>Properties\<close>


text \<open>the row-wise FP8 quantization never saturates: a row is scaled to at most 228, below the
  type's 240, so the clamp changes nothing, and the returned factor undoes the scaling, also for
  a row of zeros.\<close>

theorem rowwise_quantization_never_saturates:
  "rowwise_quantize F x = (map (\<lambda>r. map (\<lambda>e. fl_fp8 F (e * (228 / row_amax r))) r) x, map (\<lambda>r. row_amax r / 228) x)
   \<and> list_all (\<lambda>r. list_all (\<lambda>e. \<bar>e * (228 / row_amax r)\<bar> \<le> 228 \<and> e * (228 / row_amax r) * (row_amax r / 228) = e) r) x"
proof
  have t: "fp8_target = 228" by (simp add: fp8_target_def fp8_max_def)
  show "rowwise_quantize F x = (map (\<lambda>r. map (\<lambda>e. fl_fp8 F (e * (228 / row_amax r))) r) x, map (\<lambda>r. row_amax r / 228) x)"
    using clamp_noop unfolding rowwise_quantize_def t by simp
  show "list_all (\<lambda>r. list_all (\<lambda>e. \<bar>e * (228 / row_amax r)\<bar> \<le> 228 \<and> e * (228 / row_amax r) * (row_amax r / 228) = e) r) x"
    unfolding list_all_iff
  proof (intro ballI conjI)
    fix r e assume "r \<in> set x" and e: "e \<in> set r"
    show "\<bar>e * (228 / row_amax r)\<bar> \<le> 228" using scaled_entry_bound [OF e] by (simp only: t)
    have "row_amax r \<noteq> 0" using row_amax_pos [of r] by simp
    then show "e * (228 / row_amax r) * (row_amax r / 228) = e" by simp
  qed
qed


section \<open>Witnesses\<close>

definition exact_sample :: fp8_lib where
  "exact_sample =
     \<lparr>fl_bf16 = (\<lambda>x. x), fl_fp8 = (\<lambda>x. x),
      fl_mm = (\<lambda>a b sa sb. map2 (\<lambda>r s. map2 (\<lambda>c t. dot r c * (s * t)) b sb) a sa),
      fl_softmax = map (\<lambda>e. case e of None \<Rightarrow> 0 | Some x \<Rightarrow> x), fl_inv_sqrt = (\<lambda>d. 1), fl_query_dtype = (\<lambda>x. x)\<rparr>"

text \<open>Kernels that return the queries.\<close>

definition echo_lib :: "(rat, unit) attn_lib" where
  "echo_lib =
     \<lparr>al_sdpa = (\<lambda>q k v c s. Inr q), al_flash = (\<lambda>kn q k v c s. Inr (Plain q)), al_fused = (\<lambda>kn q k v c s. Inr q),
      al_inv_sqrt = (\<lambda>d. 1), te_module = (\<lambda>h d t. ()), te_bhsd = (\<lambda>m q k v s. None), te_sbhd = (\<lambda>m q k v s. Inr q),
      al_scaled_mm = scaled_mm_call exact_sample\<rparr>"

lemma echo_conforms: "conforms echo_lib (\<lambda>kn q k v c s. q)"
  by (simp add: conforms_def echo_lib_def Let_def)

definition small_t4 :: "rat t4" where
  "small_t4 = [[[[1, 2], [3, 4]], [[5, 6], [7, 8]]]]"

lemma small_rect4: "rect4 1 2 2 2 small_t4"
  by (simp add: rect4_def rect2_def small_t4_def)

definition long_t4 :: "rat t4" where
  "long_t4 = [replicate 2 (replicate 128 (replicate 64 1))]"



end
