(* ===== verification/Backends.thy ===== *)
theory Backends
  imports Attention
begin

text \<open>
  The compute backends (\<open>backend/\<close>): what each reads off the host, the devices and capabilities
  it reports, the attention operation it hands out, and the choice among backends. Kernels and
  libraries are imported lazily, so any of these may raise what an import raises.
\<close>

section \<open>Intel CPUs\<close>

definition generic_avx512 :: device_arch where "generic_avx512 = mk_arch INTEL ''avx512'' ''Generic AVX-512''"
definition generic_x86 :: device_arch where "generic_x86 = mk_arch INTEL ''x86_64'' ''Generic x86-64''"

definition intel_models :: "((int \<times> int) \<times> device_arch) list" where
  "intel_models = [((6, 143), SAPPHIRE_RAPIDS), ((6, 207), EMERALD_RAPIDS), ((6, 173), GRANITE_RAPIDS)]"

text \<open>The first processor block of \<open>/proc/cpuinfo\<close>, up to the first blank line.\<close>

fun cpuinfo_fields :: "string list \<Rightarrow> (string, string) dict \<Rightarrow> (string, string) dict" where
  "cpuinfo_fields [] info = info"
| "cpuinfo_fields (raw # ls) info =
     (if str_strip raw = [] then info
      else if CHR '':'' \<notin> set raw then cpuinfo_fields ls info
      else (case partition_at CHR '':'' raw of
              (key, val) \<Rightarrow> cpuinfo_fields ls (AList.update (str_strip key) (str_strip val) info)))"

definition read_cpuinfo :: "host \<Rightarrow> (string, string) dict" where
  "read_cpuinfo h = (case cpuinfo_text h of None \<Rightarrow> [] | Some t \<Rightarrow> cpuinfo_fields (splitlines t) [])"

definition dict_get :: "(string, string) dict \<Rightarrow> string \<Rightarrow> string \<Rightarrow> string" where
  "dict_get d k def = (case map_of d k of None \<Rightarrow> def | Some v \<Rightarrow> v)"

definition detect_arch_and_name :: "host \<Rightarrow> device_arch \<times> string" where
  "detect_arch_and_name h =
     (let info = read_cpuinfo h; nm = dict_get info ''model name'' ''unknown CPU'' in
      if dict_get info ''vendor_id'' [] \<noteq> ''GenuineIntel'' then (generic_x86, nm)
      else case (py_int (dict_get info ''cpu family'' ''0''), py_int (dict_get info ''model'' ''0'')) of
        (Some family, Some model) \<Rightarrow>
          (case map_of intel_models (family, model) of
             Some a \<Rightarrow> (a, nm)
           | None \<Rightarrow> if ''avx512f'' \<in> set (py_split (dict_get info ''flags'' [])) then (generic_avx512, nm)
                     else (generic_x86, nm))
      | _ \<Rightarrow> (generic_x86, nm))"

definition detect_dtypes_and_features :: "host \<Rightarrow> dtype set \<times> (string \<Rightarrow> bool)" where
  "detect_dtypes_and_features h =
     (let flags = set (py_split (dict_get (read_cpuinfo h) ''flags'' []))
      in ({FP32, FP16, BF16, INT8}, \<lambda>f. f \<in> flags))"

text \<open>\<open>x or y\<close> on counts: 0 and \<open>None\<close> fall through.\<close>

definition or_count :: "nat option \<Rightarrow> nat \<Rightarrow> nat" where
  "or_count x y = (case x of None \<Rightarrow> y | Some n \<Rightarrow> if n = 0 then y else n)"

definition int_field :: "(string, string) dict \<Rightarrow> string \<Rightarrow> exn + int" where
  "int_field info k =
     (let t = dict_get info k ''0'' in
      if t = [] then Inr 0
      else case py_int t of
        None \<Rightarrow> Inl (ValueError (''invalid literal for int() with base 10: '' @ py_repr t))
      | Some i \<Rightarrow> Inr i)"

definition detect_topology :: "host \<Rightarrow> exn + (int \<times> int)" where
  "detect_topology h =
     (let info = read_cpuinfo h in
      case int_field info ''siblings'' of
        Inl x \<Rightarrow> Inl x
      | Inr siblings \<Rightarrow>
          (case int_field info ''cpu cores'' of
             Inl x \<Rightarrow> Inl x
           | Inr cores \<Rightarrow>
               (if cores \<le> 0 \<or> siblings \<le> 0 then
                  let logical = int (or_count (sched_affinity h) (or_count (cpu_count h) 1))
                  in Inr (max (logical div 2) 1, logical)
                else
                  let logical = int (or_count (sched_affinity h) (or_count (cpu_count h) (nat siblings)));
                      sockets = max (logical div siblings) 1
                  in Inr (cores * sockets, logical))))"

definition system_ram_bytes :: "host \<Rightarrow> int" where
  "system_ram_bytes h =
     (case meminfo_text h of
        None \<Rightarrow> 0
      | Some t \<Rightarrow>
          (case find (\<lambda>l. startswith l ''MemTotal:'') (splitlines t) of
             None \<Rightarrow> 0
           | Some l \<Rightarrow>
               (case py_split l of
                  _ # kib # _ \<Rightarrow> (case py_int kib of None \<Rightarrow> 0 | Some n \<Rightarrow> n * 1024)
                | _ \<Rightarrow> 0)))"

text \<open>\<open>import torch\<close> under \<open>except ImportError\<close>.\<close>

definition torch_present :: "host \<Rightarrow> exn + bool" where
  "torch_present h =
     (case importing h ''torch'' of
        Loaded \<Rightarrow> Inr True
      | ImportFails m \<Rightarrow> Inr False
      | OtherFails ty m \<Rightarrow> Inl (OtherException m))"

definition cpu_is_available :: "host \<Rightarrow> exn + bool" where
  "cpu_is_available h = torch_present h"

definition cpu_devices :: "host \<Rightarrow> exn + device_spec list" where
  "cpu_devices h =
     (let (a, nm) = detect_arch_and_name h in
      case detect_topology h of
        Inl x \<Rightarrow> Inl x
      | Inr (_, logical) \<Rightarrow>
          Inr [\<lparr>ds_index = 0, ds_arch = a, ds_name = nm, ds_total_memory = system_ram_bytes h,
                ds_processors = logical\<rparr>])"

text \<open>One line of \<open>capabilities\<close>: construct an operation, list its name if it is available.\<close>

definition note_op :: "bool \<Rightarrow> exn + attention_op \<Rightarrow> exn + string list" where
  "note_op wanted r =
     (if \<not> wanted then Inr []
      else case r of
        Inl x \<Rightarrow> Inl x
      | Inr op \<Rightarrow> Inr (if available op then [op_name (ao_class op)] else []))"

fun concat_notes :: "(exn + string list) list \<Rightarrow> exn + string list" where
  "concat_notes [] = Inr []"
| "concat_notes (Inl x # rs) = Inl x"
| "concat_notes (Inr names # rs) =
     (case concat_notes rs of Inl x \<Rightarrow> Inl x | Inr later \<Rightarrow> Inr (names @ later))"

definition cpu_capabilities :: "host \<Rightarrow> exn + backend_capabilities" where
  "cpu_capabilities h =
     (let (dtypes, has) = detect_dtypes_and_features h in
      case concat_notes
        [note_op (has ''amx_bf16'') (amx_flash_init h),
         note_op (has ''amx_bf16'') (ipex_flash_init h),
         note_op (has ''amx_int8'') (amx_int8_flash_init h),
         note_op (has ''amx_fp16'') (amx_fp16_flash_init h),
         note_op True (amx_sdpa_init h)] of
        Inl x \<Rightarrow> Inl x
      | Inr names \<Rightarrow>
          (let ops = names @ [''naive-sdpa''] in
           Inr \<lparr>bc_dtypes = dtypes,
                bc_flash = list_ex (\<lambda>o'. o' \<in> set ops) [''amx-bf16-flash'', ''amx-int8-flash'', ''amx-fp16-flash'', ''ipex-flash''],
                bc_fp8 = False, bc_compile = True, bc_attention_ops = ops\<rparr>))"

definition cpu_attention_op :: "host \<Rightarrow> attention_shape \<Rightarrow> dtype \<Rightarrow> exn + attention_op" where
  "cpu_attention_op h s d =
     (case cpu_devices h of
        Inl x \<Rightarrow> Inl x
      | Inr [] \<Rightarrow> select_attention_op h SAPPHIRE_RAPIDS s d
      | Inr (dev # _) \<Rightarrow> select_attention_op h (ds_arch dev) s d)"

section \<open>CUDA\<close>

definition sm_to_arch :: "(string \<times> device_arch) list" where
  "sm_to_arch =
     [(''sm_90'', H100), (''sm_90a'', H100), (''sm_80'', mk_arch NVIDIA ''sm80'' ''Ampere''),
      (''sm_86'', mk_arch NVIDIA ''sm86'' ''Ampere''), (''sm_89'', mk_arch NVIDIA ''sm89'' ''Ada'')]"

definition cuda_is_available :: "host \<Rightarrow> exn + bool" where
  "cuda_is_available h =
     (case torch_present h of
        Inl x \<Rightarrow> Inl x
      | Inr False \<Rightarrow> Inr False
      | Inr True \<Rightarrow>
          Inr (cuda_version h \<noteq> None \<and> (case hip_version h of None \<Rightarrow> True | Some v \<Rightarrow> v = []) \<and> cuda_available h))"

definition cuda_arch :: "gpu \<Rightarrow> device_arch" where
  "cuda_arch g =
     (let sm = ''sm_'' @ int_str (gpu_major g) @ int_str (gpu_minor g) in
      case map_of sm_to_arch sm of
        None \<Rightarrow> mk_arch NVIDIA (removeprefix sm ''sm_'') ''unknown''
      | Some a \<Rightarrow> if (sm = ''sm_90'' \<or> sm = ''sm_90a'') \<and> of_int (gpu_memory g) / (1024 ^ 3 :: rat) > 96 then H200 else a)"

definition specs_of :: "(gpu \<Rightarrow> device_arch) \<Rightarrow> host \<Rightarrow> device_spec list" where
  "specs_of f h =
     map (\<lambda>(i, g). \<lparr>ds_index = i, ds_arch = f g, ds_name = gpu_name g, ds_total_memory = gpu_memory g,
                    ds_processors = gpu_processors g\<rparr>) (enumerate 0 (cuda_devices h))"

definition needs_torch :: "host \<Rightarrow> 'a \<Rightarrow> exn + 'a" where
  "needs_torch h y =
     (case importing h ''torch'' of
        Loaded \<Rightarrow> Inr y
      | ImportFails m \<Rightarrow> Inl (OtherException m)
      | OtherFails ty m \<Rightarrow> Inl (OtherException m))"

definition cuda_devices_of :: "host \<Rightarrow> exn + device_spec list" where
  "cuda_devices_of h = needs_torch h (specs_of cuda_arch h)"

definition cuda_capabilities :: "host \<Rightarrow> exn + backend_capabilities" where
  "cuda_capabilities h =
     (case hopper_flash_init h of
        Inl x \<Rightarrow> Inl x
      | Inr flash \<Rightarrow>
          (let ops = (if available flash then [op_name (ao_class flash)] else []) @ [''naive-sdpa''];
               ops = (if available (fp8_hopper_init h) then ''fp8-hopper-triton-flash'' # ops else ops);
               ops = (if available (transformer_engine_init h) then ''transformer-engine-fp8'' # ops else ops)
           in case cuda_devices_of h of
                Inl x \<Rightarrow> Inl x
              | Inr specs \<Rightarrow>
                  (let fp8 = list_ex (\<lambda>sp. startswith (da_gfx_id (ds_arch sp)) ''sm90''
                                         \<or> startswith (da_gfx_id (ds_arch sp)) ''sm89'') specs
                   in Inr \<lparr>bc_dtypes = {FP32, FP16, BF16, INT8} \<union> (if fp8 then {FP8_E4M3, FP8_E5M2} else {}),
                           bc_flash = available flash, bc_fp8 = fp8, bc_compile = True, bc_attention_ops = ops\<rparr>)))"

definition cuda_attention_op :: "host \<Rightarrow> attention_shape \<Rightarrow> dtype \<Rightarrow> exn + attention_op" where
  "cuda_attention_op h s d =
     (case cuda_devices_of h of
        Inl x \<Rightarrow> Inl x
      | Inr [] \<Rightarrow> select_attention_op h H100 s d
      | Inr (dev # _) \<Rightarrow> select_attention_op h (ds_arch dev) s d)"

section \<open>ROCm\<close>

definition gfx_to_arch :: "(string \<times> device_arch) list" where
  "gfx_to_arch = [(''gfx942'', MI300X), (''gfx90a'', MI250X)]"

definition rocm_is_available :: "host \<Rightarrow> exn + bool" where
  "rocm_is_available h =
     (case torch_present h of
        Inl x \<Rightarrow> Inl x
      | Inr False \<Rightarrow> Inr False
      | Inr True \<Rightarrow> Inr ((case hip_version h of None \<Rightarrow> False | Some v \<Rightarrow> v \<noteq> []) \<and> cuda_available h))"

definition rocm_arch :: "gpu \<Rightarrow> device_arch" where
  "rocm_arch g =
     (let gfx = takeWhile (\<lambda>c. c \<noteq> CHR '':'') (gpu_gcn_arch g) in
      case map_of gfx_to_arch gfx of None \<Rightarrow> mk_arch AMD gfx ''unknown'' | Some a \<Rightarrow> a)"

definition rocm_devices :: "host \<Rightarrow> exn + device_spec list" where
  "rocm_devices h = needs_torch h (specs_of rocm_arch h)"

definition rocm_capabilities :: "host \<Rightarrow> exn + backend_capabilities" where
  "rocm_capabilities h =
     (case rocm_flash_init h of
        Inl x \<Rightarrow> Inl x
      | Inr flash \<Rightarrow>
          Inr \<lparr>bc_dtypes = {FP32, FP16, BF16, FP8_E4M3, FP8_E5M2, INT8}, bc_flash = available flash, bc_fp8 = True,
               bc_compile = True,
               bc_attention_ops = (if available flash then [''rocm-ck-flash'', ''naive-sdpa''] else [''naive-sdpa''])\<rparr>)"

definition rocm_attention_op :: "host \<Rightarrow> attention_shape \<Rightarrow> dtype \<Rightarrow> exn + attention_op" where
  "rocm_attention_op h s d = select_attention_op h MI300X s d"

section \<open>The registry\<close>

datatype backend = ROCm | CUDA | CPU

definition all_backends :: "backend list" where
  "all_backends = [ROCm, CUDA, CPU]"

fun backend_name :: "backend \<Rightarrow> string" where
  "backend_name ROCm = ''rocm''"
| "backend_name CUDA = ''cuda''"
| "backend_name CPU = ''cpu''"

fun backend_vendor :: "backend \<Rightarrow> vendor" where
  "backend_vendor ROCm = AMD"
| "backend_vendor CUDA = NVIDIA"
| "backend_vendor CPU = INTEL"

fun is_available :: "host \<Rightarrow> backend \<Rightarrow> exn + bool" where
  "is_available h ROCm = rocm_is_available h"
| "is_available h CUDA = cuda_is_available h"
| "is_available h CPU = cpu_is_available h"

fun filter_available :: "host \<Rightarrow> backend list \<Rightarrow> exn + backend list" where
  "filter_available h [] = Inr []"
| "filter_available h (b # bs) =
     (case is_available h b of
        Inl x \<Rightarrow> Inl x
      | Inr ok \<Rightarrow> (case filter_available h bs of Inl x \<Rightarrow> Inl x | Inr r \<Rightarrow> Inr (if ok then b # r else r)))"

definition available_backends :: "host \<Rightarrow> exn + backend list" where
  "available_backends h = filter_available h all_backends"

fun first_available :: "host \<Rightarrow> backend list \<Rightarrow> exn + backend" where
  "first_available h [] = Inl (RuntimeError (''no Repercep backend is available - is torch installed? ''
     @ ''Run `python scripts/check_gpu.py` to diagnose.''))"
| "first_available h (b # bs) =
     (case is_available h b of
        Inl x \<Rightarrow> Inl x
      | Inr ok \<Rightarrow> if ok then Inr b else first_available h bs)"

definition select_backend :: "host \<Rightarrow> string option \<Rightarrow> exn + backend" where
  "select_backend h prefer =
     (case prefer of
        Some p \<Rightarrow>
          (case find (\<lambda>b. backend_name b = p) all_backends of
             Some b \<Rightarrow>
               (case is_available h b of
                  Inl x \<Rightarrow> Inl x
                | Inr ok \<Rightarrow> if ok then Inr b
                            else Inl (RuntimeError (''backend '' @ py_repr p @ '' is not available on this host'')))
           | None \<Rightarrow> Inl (ValueError (''unknown backend '' @ py_repr p @ ''; known backends: rocm, cuda, cpu'')))
      | None \<Rightarrow> first_available h all_backends)"

section \<open>Lemmas\<close>

lemma all_availability:
  assumes "importing h ''torch'' = Loaded"
  shows "\<exists>ok. is_available h b = Inr ok"
  using assms by (cases b) (auto simp: rocm_is_available_def cuda_is_available_def cpu_is_available_def torch_present_def)

lemma rocm_excludes_cuda: "rocm_is_available h = Inr True \<Longrightarrow> cuda_is_available h = Inr False"
  by (auto simp: rocm_is_available_def cuda_is_available_def split: sum.splits bool.splits option.splits)

text \<open>A strip that changes nothing, and lines of a block.\<close>

definition stripped :: "string \<Rightarrow> bool" where
  "stripped s \<longleftrightarrow> (s = [] \<or> \<not> is_str_space (hd s) \<and> \<not> is_str_space (List.last s))"

lemma strip_drops:
  assumes "list_all is_str_space a" "list_all is_str_space b" "stripped s"
  shows "str_strip (a @ s @ b) = s"
proof (cases "s = []")
  case True
  then show ?thesis
    unfolding str_strip_def True strip_by_empty_iff using assms(1,2) by (auto simp: list_all_iff)
next
  case False
  then obtain c s' where s: "s = c # s'" "\<not> is_str_space c" using assms(3) by (cases s) (auto simp: stripped_def)
  have 1: "dropWhile is_str_space (a @ s @ b) = s @ b"
    using assms(1) s by (induction a) auto
  have "dropWhile is_str_space (rev b @ rev s) = rev s"
  proof -
    have "rev s \<noteq> []" "\<not> is_str_space (hd (rev s))" using False assms(3) by (auto simp: stripped_def hd_rev)
    then obtain x xs where "rev s = x # xs" "\<not> is_str_space x" by (cases "rev s") auto
    then have d: "dropWhile is_str_space (rev s) = rev s" by simp
    have "list_all is_str_space (rev b)" using assms(2) by (simp add: list_all_iff)
    then have "dropWhile is_str_space (rev b @ rev s) = dropWhile is_str_space (rev s)"
      by (intro dropWhile_append2) (simp add: list_all_iff)
    then show ?thesis by (simp only: d)
  qed
  with 1 show ?thesis by (simp add: str_strip_def strip_by_def)
qed

definition cpuinfo_line :: "string \<times> string \<Rightarrow> string" where
  "cpuinfo_line kv = fst kv @ [CHR 0x09] @ '': '' @ snd kv"

definition plain_field :: "string \<times> string \<Rightarrow> bool" where
  "plain_field kv \<longleftrightarrow> fst kv \<noteq> [] \<and> stripped (fst kv) \<and> stripped (snd kv) \<and> CHR '':'' \<notin> set (fst kv)
     \<and> list_all (\<lambda>c. \<not> is_line_break c) (fst kv @ snd kv)"

lemma cpuinfo_line_field:
  assumes "plain_field (k, v)"
  shows "cpuinfo_fields (cpuinfo_line (k, v) # ls) info = cpuinfo_fields ls (AList.update k v info)"
proof -
  let ?l = "cpuinfo_line (k, v)"
  have sp: "is_str_space CHR 0x09" "is_str_space CHR '' ''" by (simp_all add: is_str_space_def Let_def)
  obtain c k' where k: "k = c # k'" "\<not> is_str_space c" using assms by (cases k) (auto simp: plain_field_def stripped_def)
  have "str_strip ?l \<noteq> []"
    unfolding str_strip_def strip_by_empty_iff using k by (auto simp: cpuinfo_line_def)
  moreover have "partition_at CHR '':'' ?l = (k @ [CHR 0x09], '' '' @ v)"
    using partition_at_first [of "CHR '':''" "k @ [CHR 0x09]" "'' '' @ v"] assms
    by (simp add: plain_field_def cpuinfo_line_def)
  moreover have "str_strip (k @ [CHR 0x09]) = k" using strip_drops [of "[]" "[CHR 0x09]" k] sp assms by (simp add: plain_field_def)
  moreover have "str_strip ('' '' @ v) = v" using strip_drops [of "'' ''" "[]" v] sp assms by (simp add: plain_field_def)
  moreover have "CHR '':'' \<in> set ?l" by (simp add: cpuinfo_line_def)
  ultimately show ?thesis by simp
qed

lemma cpuinfo_fields_block:
  "list_all plain_field kvs \<Longrightarrow> distinct (map fst (info @ kvs)) \<Longrightarrow>
     cpuinfo_fields (map cpuinfo_line kvs @ [] # ls) info = info @ kvs"
proof (induction kvs arbitrary: info)
  case Nil
  then show ?case by (simp add: str_strip_def strip_by_def)
next
  case (Cons kv kvs)
  obtain k v where kv: "kv = (k, v)" by (cases kv)
  have "AList.update k v info = info @ [(k, v)]" using Cons.prems(2) kv by (auto intro: update_fresh)
  with Cons kv show ?case by (simp add: cpuinfo_line_field del: cpuinfo_fields.simps)
qed

lemma splitlines_block:
  "list_all plain_field kvs \<Longrightarrow>
     splitlines (concat (map (\<lambda>kv. cpuinfo_line kv @ [CHR 0x0A]) kvs) @ CHR 0x0A # t) = map cpuinfo_line kvs @ [] # splitlines t"
proof (induction kvs)
  case Nil
  show ?case using splitlines_line [of "[]" t] by simp
next
  case (Cons kv kvs)
  have "list_all (\<lambda>c. \<not> is_line_break c) (cpuinfo_line kv)"
    using Cons.prems by (auto simp: cpuinfo_line_def plain_field_def list_all_iff is_line_break_def Let_def)
  from splitlines_line [OF this] Cons show ?case by simp
qed

lemma hopper_arch_ignores_memory:
  "gpu_major g = 9 \<Longrightarrow> gpu_minor g = 0 \<Longrightarrow> cuda_arch g = H100"
proof -
  assume g: "gpu_major g = 9" "gpu_minor g = 0"
  have "''sm_'' @ int_str 9 @ int_str 0 = ''sm_90''" by code_simp
  then show ?thesis by (simp add: cuda_arch_def Let_def g sm_to_arch_def H100_def H200_def)
qed

lemma specs_vendor:
  "sp \<in> set (specs_of cuda_arch h) \<Longrightarrow> da_vendor (ds_arch sp) = NVIDIA"
  by (auto simp: specs_of_def cuda_arch_def Let_def sm_to_arch_def H100_def H200_def mk_arch_def split: option.splits if_splits
      dest: map_of_SomeD)

lemma or_count_pos: "y > 0 \<Longrightarrow> or_count x y > 0"
  by (simp add: or_count_def split: option.splits)

lemma topology_fields:
  assumes "detect_topology h = Inr (physical, logical)"
  obtains siblings cores where "int_field (read_cpuinfo h) ''siblings'' = Inr siblings"
    "int_field (read_cpuinfo h) ''cpu cores'' = Inr cores"
    "(cores \<le> 0 \<or> siblings \<le> 0) \<and> logical = int (or_count (sched_affinity h) (or_count (cpu_count h) 1))
        \<and> physical = max (logical div 2) 1 \<or>
     cores > 0 \<and> siblings > 0 \<and> logical = int (or_count (sched_affinity h) (or_count (cpu_count h) (nat siblings)))
        \<and> physical = cores * max (logical div siblings) 1"
  using assms by (auto simp: detect_topology_def Let_def not_le split: sum.splits if_splits)

lemma hopper_classes: "hopper_flash_init h = Inr op \<Longrightarrow> ao_class op = HopperFlash"
  by (rule init_class(7))

lemma cuda_select_vendor:
  assumes "cuda_attention_op h s d = Inr op"
  obtains a where "da_vendor a = NVIDIA" "select_attention_op h a s d = Inr op"
proof -
  have h100: "da_vendor H100 = NVIDIA" by (simp add: H100_def mk_arch_def)
  from assms consider "select_attention_op h H100 s d = Inr op"
    | sp rest where "cuda_devices_of h = Inr (sp # rest)" "select_attention_op h (ds_arch sp) s d = Inr op"
    by (auto simp: cuda_attention_op_def split: sum.splits list.splits)
  then show thesis
  proof cases
    case 2
    then have "sp \<in> set (specs_of cuda_arch h)" by (auto simp: cuda_devices_of_def needs_torch_def split: import_result.splits)
    with specs_vendor 2(2) that show thesis by blast
  qed (use h100 that in blast)
qed

section \<open>Properties\<close>

text \<open>where torch can be imported the choice of a backend without preference always succeeds: ROCm
  if it is available, else CUDA if that is, else the CPU; at most one of the two GPU backends is
  available on a host.\<close>

theorem backend_selection_is_total_with_torch:
  assumes "importing h ''torch'' = Loaded"
  shows "\<exists>b. select_backend h None = Inr b \<and> is_available h b = Inr True
    \<and> b = (if is_available h ROCm = Inr True then ROCm else if is_available h CUDA = Inr True then CUDA else CPU)
    \<and> \<not> (is_available h ROCm = Inr True \<and> is_available h CUDA = Inr True)"
proof -
  obtain r c where rc: "is_available h ROCm = Inr r" "is_available h CUDA = Inr c"
    using all_availability [OF assms] by metis
  moreover have "is_available h CPU = Inr True" using assms by (simp add: cpu_is_available_def torch_present_def)
  moreover have "\<not> (r \<and> c)" using rocm_excludes_cuda [of h] rc by auto
  ultimately show ?thesis by (auto simp: select_backend_def all_backends_def)
qed

text \<open>a preferred backend is returned when it is available, refused with \<open>RuntimeError\<close> when it is
  not, and an unknown name is refused with \<open>ValueError\<close>; no other backend is ever substituted.\<close>

theorem preferred_backend_is_never_substituted:
  assumes "importing h ''torch'' = Loaded"
  shows "(\<exists>b. select_backend h (Some p) = Inr b \<and> backend_name b = p \<and> is_available h b = Inr True) \<or>
    (\<exists>b m. select_backend h (Some p) = Inl (RuntimeError m) \<and> backend_name b = p \<and> is_available h b = Inr False) \<or>
    (\<exists>m. select_backend h (Some p) = Inl (ValueError m) \<and> p \<notin> {''rocm'', ''cuda'', ''cpu''})"
proof (cases "find (\<lambda>b. backend_name b = p) all_backends")
  case None
  then have "p \<notin> {''rocm'', ''cuda'', ''cpu''}" by (auto simp: find_None_iff all_backends_def)
  with None show ?thesis by (simp add: select_backend_def)
next
  case (Some b)
  then have "backend_name b = p" by (auto simp: find_Some_iff)
  moreover obtain ok where "is_available h b = Inr ok" using all_availability [OF assms] by blast
  ultimately show ?thesis using Some by (cases ok) (auto simp: select_backend_def)
qed

text \<open>the reader of \<open>/proc/cpuinfo\<close> gets back exactly the fields of the first processor: the
  kernel's layout, a tab and a colon after each name and a blank line after the block, is undone,
  whatever the later blocks hold.\<close>

theorem cpuinfo_round_trip:
  assumes "list_all plain_field kvs" "distinct (map fst kvs)"
    and "cpuinfo_text h = Some (concat (map (\<lambda>kv. cpuinfo_line kv @ [CHR 0x0A]) kvs) @ CHR 0x0A # later_blocks)"
  shows "read_cpuinfo h = kvs"
  using cpuinfo_fields_block [OF assms(1), of "[]"] assms(2)
  by (simp add: read_cpuinfo_def assms(3) splitlines_block [OF assms(1)])

text \<open>on CUDA every operation the backend hands out is one it advertises.\<close>

theorem cuda_ops_are_advertised:
  assumes "cuda_attention_op h s d = Inr op" "cuda_capabilities h = Inr caps"
  shows "op_name (ao_class op) \<in> set (bc_attention_ops caps)"
proof -
  obtain a where a: "da_vendor a = NVIDIA" "select_attention_op h a s d = Inr op"
    by (rule cuda_select_vendor [OF assms(1)])
  obtain ops pre post where c: "candidate_ops h NVIDIA = map Inr ops" "ops = pre @ op # post" and s: "supports op s d"
    by (rule select_cases [OF a(2), unfolded a(1)])
  have av: "available op" by (rule supports_available [OF s])
  have "Inr op \<in> set (candidate_ops h NVIDIA)" using c by simp
  then have "op = fp8_hopper_init h \<or> op = transformer_engine_init h \<or> hopper_flash_init h = Inr op \<or> op = naive_init"
    by (auto simp: candidate_ops_def Let_def split: if_splits)
  then show ?thesis
    using av assms(2) by (auto simp: cuda_capabilities_def Let_def init_class split: sum.splits)
qed

text \<open>the detected numbers of cores are positive, for every text in \<open>/proc/cpuinfo\<close> that parses.\<close>

theorem detected_cores_are_positive:
  assumes "detect_topology h = Inr (physical, logical)"
  shows "physical \<ge> 1 \<and> logical \<ge> 1"
proof -
  obtain siblings cores where
    "(cores \<le> 0 \<or> siblings \<le> 0) \<and> logical = int (or_count (sched_affinity h) (or_count (cpu_count h) 1))
        \<and> physical = max (logical div 2) 1 \<or>
     cores > 0 \<and> siblings > 0 \<and> logical = int (or_count (sched_affinity h) (or_count (cpu_count h) (nat siblings)))
        \<and> physical = cores * max (logical div siblings) 1"
    by (rule topology_fields [OF assms])
  moreover have "or_count (sched_affinity h) (or_count (cpu_count h) n) > 0" if "n > 0" for n
    using that by (intro or_count_pos)
  ultimately consider "logical > 0" "physical = max (logical div 2) 1"
    | "cores > 0" "logical > 0" "physical = cores * max (logical div siblings) 1"
    by fastforce
  then show ?thesis
  proof cases
    case 2
    have "1 * 1 \<le> cores * max (logical div siblings) 1" using 2(1) by (intro mult_mono) auto
    with 2 show ?thesis by simp
  qed simp
qed

section \<open>Limits of what is reported\<close>

text \<open>In a container whose affinity is smaller than a socket the cores counted as physical exceed
  the logical ones.\<close>

definition container_host :: host where
  "container_host = (sample_host [] True)\<lparr>
     cpuinfo_text := Some (concat (map (\<lambda>kv. cpuinfo_line kv @ [CHR 0x0A])
       [(''vendor_id'', ''GenuineIntel''), (''siblings'', ''16''), (''cpu cores'', ''8'')]) @ [CHR 0x0A]),
     sched_affinity := Some 4\<rparr>"

lemma container_counts_more_physical_cores: "detect_topology container_host = Inr (8, 4)"
  by code_simp

text \<open>The ROCm backend does not advertise the FP8 operations it hands out.\<close>

definition mi300_host :: host where
  "mi300_host = (sample_host ''1'' True)\<lparr>hip_version := Some ''6.2'', cuda_version := None\<rparr>"

lemma rocm_hands_out_unadvertised_ops:
  "map_sum id (\<lambda>op. op_name (ao_class op)) (rocm_attention_op mi300_host (sample_shape FULL) BF16) = Inr ''fp8-scaled-mm''"
  "map_sum id bc_attention_ops (rocm_capabilities mi300_host) = Inr [''rocm-ck-flash'', ''naive-sdpa'']"
  by code_simp+

section \<open>Witnesses\<close>

theorem backend_selection_is_total_with_torch_witness:
  "\<exists>b. select_backend mi300_host None = Inr b \<and> is_available mi300_host b = Inr True
    \<and> b = (if is_available mi300_host ROCm = Inr True then ROCm
           else if is_available mi300_host CUDA = Inr True then CUDA else CPU)
    \<and> \<not> (is_available mi300_host ROCm = Inr True \<and> is_available mi300_host CUDA = Inr True)"
  by (rule backend_selection_is_total_with_torch) (simp add: mi300_host_def sample_host_def)

theorem preferred_backend_is_never_substituted_witness:
  "(\<exists>b. select_backend mi300_host (Some ''cuda'') = Inr b \<and> backend_name b = ''cuda'' \<and> is_available mi300_host b = Inr True) \<or>
    (\<exists>b m. select_backend mi300_host (Some ''cuda'') = Inl (RuntimeError m) \<and> backend_name b = ''cuda''
       \<and> is_available mi300_host b = Inr False) \<or>
    (\<exists>m. select_backend mi300_host (Some ''cuda'') = Inl (ValueError m) \<and> ''cuda'' \<notin> {''rocm'', ''cuda'', ''cpu''})"
  by (rule preferred_backend_is_never_substituted) (simp add: mi300_host_def sample_host_def)

theorem cpuinfo_round_trip_witness:
  "read_cpuinfo container_host = [(''vendor_id'', ''GenuineIntel''), (''siblings'', ''16''), (''cpu cores'', ''8'')]"
  by (rule cpuinfo_round_trip [where later_blocks = "[]"])
    (simp_all add: container_host_def plain_field_def stripped_def is_str_space_def is_line_break_def Let_def)

theorem cuda_ops_are_advertised_witness:
  "op_name (ao_class fa2_op) \<in> set (bc_attention_ops (projr (cuda_capabilities (sample_host [] True))))"
proof -
  have "cuda_attention_op (sample_host [] True) (sample_shape CAUSAL) BF16 = Inr fa2_op" by code_simp
  moreover have "cuda_capabilities (sample_host [] True) = Inr (projr (cuda_capabilities (sample_host [] True)))"
    by (simp add: cuda_capabilities_def cuda_devices_of_def needs_torch_def hopper_flash_init_def sample_host_def Let_def)
  ultimately show ?thesis by (rule cuda_ops_are_advertised)
qed

theorem detected_cores_are_positive_witness: "(8 :: int) \<ge> 1 \<and> (4 :: int) \<ge> 1"
  by (rule detected_cores_are_positive [OF container_counts_more_physical_cores])

end
