(* ===== verification/FlashKernel.thy ===== *)
theory FlashKernel
  imports Prelude "HOL-Library.Multiset"
begin

text \<open>
  The fused attention kernel of \<open>kernels/triton_kernels/\<close>. Its body is the same in the three files
  (CDNA3, Hopper, Ada) up to the 8-bit type, which is a parameter, and its largest value. One
  program handles one tile of query rows of one batch and head, streams the key and value tiles
  and keeps per row a running maximum, a running sum and a running accumulator. Numbers are
  exact; a running maximum of minus infinity is \<open>None\<close>, and so is a row that has become
  not-a-number. Device buffers are lists with strides; an access out of range is a fault.
\<close>

section \<open>The kernel\<close>

record strides =
  st_b :: nat
  st_h :: nat
  st_s :: nat
  st_d :: nat

record 'v flash_args =
  fa_q :: "'v list"
  fa_k :: "'v list"
  fa_v :: "'v list"
  fa_sm_scale :: 'v
  fa_qs :: "'v list"
  fa_ks :: "'v list"
  fa_vs :: "'v list"
  fa_q_strides :: strides
  fa_k_strides :: strides
  fa_v_strides :: strides
  fa_o_strides :: strides
  fa_B :: nat
  fa_H :: nat
  fa_Sq :: nat
  fa_Skv :: nat
  fa_block_m :: nat
  fa_block_n :: nat
  fa_block_d :: nat
  fa_causal :: bool
  fa_fp8_max :: 'v
  fa_cast :: "'v \<Rightarrow> 'v"
  fa_exp :: "'v \<Rightarrow> 'v"

text \<open>\<open>tl.load\<close> with a mask: a masked lane does not touch memory.\<close>

definition tl_load :: "'v list \<Rightarrow> nat \<Rightarrow> bool \<Rightarrow> 'v \<Rightarrow> 'v option" where
  "tl_load buf addr active other =
     (if \<not> active then Some other else if addr < length buf then Some (buf ! addr) else None)"

definition load_tile :: "'v::zero list \<Rightarrow> nat \<Rightarrow> nat list \<Rightarrow> nat \<Rightarrow> nat list \<Rightarrow> nat \<Rightarrow> nat \<Rightarrow> 'v list list option" where
  "load_tile buf off offs_r stride_r offs_d stride_d limit =
     those (map (\<lambda>r. those (map (\<lambda>d. tl_load buf (off + r * stride_r + d * stride_d) (r < limit) 0) offs_d)) offs_r)"

definition cdiv :: "nat \<Rightarrow> nat \<Rightarrow> nat" where
  "cdiv a b = (a + b - 1) div b"

definition arange :: "nat \<Rightarrow> nat \<Rightarrow> nat list" where
  "arange start n = map (\<lambda>i. start + i) [0 ..< n]"

definition inner :: "'v::linordered_field list \<Rightarrow> 'v list \<Rightarrow> 'v" where
  "inner a b = sum_list (map2 (*) a b)"

text \<open>\<open>tl.maximum\<close> and \<open>tl.max\<close> where \<open>None\<close> is minus infinity.\<close>

fun omax :: "'v::linordered_field option \<Rightarrow> 'v option \<Rightarrow> 'v option" where
  "omax None y = y"
| "omax (Some x) None = Some x"
| "omax (Some x) (Some y) = Some (max x y)"

definition omax_list :: "'v::linordered_field option list \<Rightarrow> 'v option" where
  "omax_list xs = foldr omax xs None"

text \<open>\<open>exp(x - m)\<close> for a score or an old maximum, minus infinity giving 0.\<close>

fun oexp :: "('v::linordered_field \<Rightarrow> 'v) \<Rightarrow> 'v \<Rightarrow> 'v option \<Rightarrow> 'v" where
  "oexp e m None = 0"
| "oexp e m (Some x) = e (x - m)"

record 'v flash_row =
  fr_m :: "'v option"
  fr_l :: 'v
  fr_acc :: "'v list"

definition row_init :: "nat \<Rightarrow> 'v::linordered_field flash_row" where
  "row_init d = \<lparr>fr_m = None, fr_l = 0, fr_acc = replicate d 0\<rparr>"

text \<open>The scores of one query row against one key tile, with the causal and the range mask.\<close>

definition row_scores ::
    "'v::linordered_field flash_args \<Rightarrow> 'v \<Rightarrow> nat list \<Rightarrow> 'v list list \<Rightarrow> nat \<Rightarrow> 'v list \<Rightarrow> 'v option list" where
  "row_scores A qk_scale offs_n k_tile m q_row =
     (let qk = map (\<lambda>k_row. inner q_row k_row * qk_scale) k_tile;
          qk = map2 (\<lambda>n x. if fa_causal A \<and> \<not> m \<ge> n then None else Some x) offs_n qk
      in map2 (\<lambda>n x. if n < fa_Skv A then x else None) offs_n qk)"

text \<open>One tile for one row. When the new maximum is minus infinity, \<open>exp(-inf - -inf)\<close> makes the
  row not-a-number.\<close>

definition row_step ::
    "'v::linordered_field flash_args \<Rightarrow> 'v \<Rightarrow> 'v list list \<Rightarrow> 'v option list \<Rightarrow> 'v flash_row \<Rightarrow> 'v flash_row option" where
  "row_step A v_scale v_tile qk r =
     (case omax (fr_m r) (omax_list qk) of
        None \<Rightarrow> None
      | Some m_new \<Rightarrow>
          (let alpha = oexp (fa_exp A) m_new (fr_m r);
               p = map (oexp (fa_exp A) m_new) qk;
               l = fr_l r * alpha + sum_list p;
               acc = map (\<lambda>a. a * alpha) (fr_acc r);
               p_fp8 = map (\<lambda>x. fa_cast A (x * fa_fp8_max A)) p;
               pv_scale = v_scale / fa_fp8_max A;
               pv = map (\<lambda>d. sum_list (map2 (\<lambda>x v_row. x * v_row ! d) p_fp8 v_tile)) [0 ..< fa_block_d A];
               acc = map2 (\<lambda>a x. a + x * pv_scale) acc pv
           in Some \<lparr>fr_m = Some m_new, fr_l = l, fr_acc = acc\<rparr>))"

text \<open>The loop over the key and value tiles, on the rows of the query tile with their positions.\<close>

definition kv_step ::
    "'v::linordered_field flash_args \<Rightarrow> nat \<Rightarrow> nat \<Rightarrow> 'v \<Rightarrow> 'v \<Rightarrow> (nat \<times> 'v list) list \<Rightarrow> nat
      \<Rightarrow> 'v flash_row option list \<Rightarrow> 'v flash_row option list option" where
  "kv_step A k_off v_off qk_scale v_scale q_rows n_idx rows =
     (let offs_n = arange (n_idx * fa_block_n A) (fa_block_n A); offs_d = [0 ..< fa_block_d A];
          ks = fa_k_strides A; vs = fa_v_strides A in
      case load_tile (fa_k A) k_off offs_n (st_s ks) offs_d (st_d ks) (fa_Skv A) of
        None \<Rightarrow> None
      | Some k_tile \<Rightarrow>
          (case load_tile (fa_v A) v_off offs_n (st_s vs) offs_d (st_d vs) (fa_Skv A) of
             None \<Rightarrow> None
           | Some v_tile \<Rightarrow>
               Some (map2 (\<lambda>(m, q_row) row.
                   Option.bind row (row_step A v_scale v_tile (row_scores A qk_scale offs_n k_tile m q_row)))
                 q_rows rows)))"

fun kv_loop ::
    "'v::linordered_field flash_args \<Rightarrow> nat \<Rightarrow> nat \<Rightarrow> 'v \<Rightarrow> 'v \<Rightarrow> (nat \<times> 'v list) list \<Rightarrow> nat list
      \<Rightarrow> 'v flash_row option list \<Rightarrow> 'v flash_row option list option" where
  "kv_loop A k_off v_off qk_scale v_scale q_rows [] rows = Some rows"
| "kv_loop A k_off v_off qk_scale v_scale q_rows (n # ns) rows =
     (case kv_step A k_off v_off qk_scale v_scale q_rows n rows of
        None \<Rightarrow> None
      | Some rows' \<Rightarrow> kv_loop A k_off v_off qk_scale v_scale q_rows ns rows')"

text \<open>\<open>acc / l\<close>: a row that is not-a-number stays so, and a division by zero gives none.\<close>

definition row_out :: "nat \<Rightarrow> 'v::linordered_field flash_row option \<Rightarrow> 'v option list" where
  "row_out d row =
     (case row of
        None \<Rightarrow> replicate d None
      | Some r \<Rightarrow> map (\<lambda>a. if fr_l r = 0 then None else Some (a / fr_l r)) (fr_acc r))"

text \<open>One program: the writes it makes, or a fault.\<close>

definition flash_program :: "'v::linordered_field flash_args \<Rightarrow> nat \<times> nat \<Rightarrow> (nat \<times> 'v option) list option" where
  "flash_program A pid =
     (let (pid_m, pid_bh) = pid;
          b = pid_bh div fa_H A; h = pid_bh mod fa_H A;
          off = (\<lambda>s. b * st_b s + h * st_h s);
          offs_m = arange (pid_m * fa_block_m A) (fa_block_m A); offs_d = [0 ..< fa_block_d A];
          qst = fa_q_strides A; os = fa_o_strides A in
      case (tl_load (fa_qs A) pid_bh True 0, tl_load (fa_ks A) pid_bh True 0, tl_load (fa_vs A) pid_bh True 0) of
        (Some q_scale, Some k_scale, Some v_scale) \<Rightarrow>
          (case load_tile (fa_q A) (off qst) offs_m (st_s qst) offs_d (st_d qst) (fa_Sq A) of
             None \<Rightarrow> None
           | Some q_tile \<Rightarrow>
               (case kv_loop A (off (fa_k_strides A)) (off (fa_v_strides A)) (fa_sm_scale A * q_scale * k_scale) v_scale
                   (zip offs_m q_tile) [0 ..< cdiv (fa_Skv A) (fa_block_n A)]
                   (replicate (fa_block_m A) (Some (row_init (fa_block_d A)))) of
                  None \<Rightarrow> None
                | Some rows \<Rightarrow>
                    Some (concat (map2 (\<lambda>m row.
                        if m < fa_Sq A
                        then map2 (\<lambda>d x. (off os + m * st_s os + d * st_d os, x)) offs_d (row_out (fa_block_d A) row)
                        else []) offs_m rows))))
      | _ \<Rightarrow> None)"

text \<open>The grid, and the memory after a sequence of writes.\<close>

definition flash_programs :: "'v flash_args \<Rightarrow> (nat \<times> nat) list" where
  "flash_programs A = List.product [0 ..< cdiv (fa_Sq A) (fa_block_m A)] [0 ..< fa_B A * fa_H A]"

fun apply_writes :: "(nat \<times> 'w) list \<Rightarrow> 'w list \<Rightarrow> 'w list option" where
  "apply_writes [] out = Some out"
| "apply_writes ((a, x) # ws) out = (if a < length out then apply_writes ws (out[a := x]) else None)"

definition flash_writes :: "'v::linordered_field flash_args \<Rightarrow> (nat \<times> 'v option) list option" where
  "flash_writes A = map_option concat (those (map (flash_program A) (flash_programs A)))"

definition flash_launch :: "'v::linordered_field flash_args \<Rightarrow> 'v option list \<Rightarrow> 'v option list option" where
  "flash_launch A out = Option.bind (flash_writes A) (\<lambda>ws. apply_writes ws out)"

section \<open>What a row computes\<close>

text \<open>The laws of the exponential function that the kernel relies on.\<close>

locale exponential =
  fixes e :: "'v::linordered_field \<Rightarrow> 'v"
  assumes exp_sum: "e (a + b) = e a * e b"
    and exp_pos: "e a > 0"
    and exp_mono: "a \<le> b \<Longrightarrow> e a \<le> e b"

text \<open>How far the cast to 8 bits may round: relatively by \<open>\<delta>\<close>, absolutely by \<open>\<epsilon>\<close>.\<close>

definition rounds_within :: "('v::linordered_field \<Rightarrow> 'v) \<Rightarrow> 'v \<Rightarrow> 'v \<Rightarrow> 'v \<Rightarrow> bool" where
  "rounds_within cast rel abs_err largest \<longleftrightarrow>
     rel \<ge> 0 \<and> abs_err \<ge> 0 \<and> largest > 0 \<and> (\<forall>x. 0 \<le> x \<longrightarrow> x \<le> largest \<longrightarrow> \<bar>cast x - x\<bar> \<le> rel * x + abs_err)"

text \<open>The weight of a score under a running maximum.\<close>

fun weight :: "('v::linordered_field \<Rightarrow> 'v) \<Rightarrow> 'v option \<Rightarrow> 'v option \<Rightarrow> 'v" where
  "weight e None s = 0"
| "weight e (Some m) s = oexp e m s"

lemma omax_assoc: "omax (omax x y) z = omax x (omax y z)"
  by (cases x; cases y; cases z) (auto simp: max.assoc)

lemma omax_None [simp]: "omax x None = x"
  by (cases x) auto

lemma omax_list_append: "omax_list (xs @ ys) = omax (omax_list xs) (omax_list ys)"
  unfolding omax_list_def by (induction xs) (simp_all add: omax_assoc)

lemma omax_list_simps [simp]: "omax_list [] = None" "omax_list (x # xs) = omax x (omax_list xs)"
  by (simp_all add: omax_list_def)

lemma omax_eq_None: "omax x y = None \<longleftrightarrow> x = None \<and> y = None"
  by (cases x; cases y) auto

lemma omax_list_None: "omax_list xs = None \<longleftrightarrow> (\<forall>x \<in> set xs. x = None)"
  by (induction xs) (auto simp: omax_eq_None)

lemma omax_upper: "omax x y = Some m \<Longrightarrow> x = Some a \<Longrightarrow> a \<le> m" "omax x y = Some m \<Longrightarrow> y = Some a \<Longrightarrow> a \<le> m"
  by (cases x; cases y; auto)+

lemma omax_list_upper: "omax_list xs = Some m \<Longrightarrow> Some a \<in> set xs \<Longrightarrow> a \<le> m"
proof (induction xs arbitrary: m)
  case (Cons x xs)
  show ?case
  proof (cases "x = Some a")
    case True
    with Cons.prems show ?thesis by (auto intro: omax_upper(1))
  next
    case False
    with Cons.prems have "Some a \<in> set xs" by auto
    moreover from this obtain k where k: "omax_list xs = Some k" using omax_list_None [of xs] by (cases "omax_list xs") auto
    ultimately have "a \<le> k" by (rule Cons.IH [rotated])
    also from Cons.prems k have "k \<le> m" by (auto intro: omax_upper(2))
    finally show ?thesis .
  qed
qed simp

lemma omax_list_attained: "omax_list xs = Some m \<Longrightarrow> Some m \<in> set xs"
proof (induction xs arbitrary: m)
  case (Cons x xs)
  then show ?case
    by (cases x; cases "omax_list xs") (auto simp: max_def split: if_splits)
qed simp

lemma sum_list_le: "(\<And>x. x \<in> set xs \<Longrightarrow> f x \<le> g x) \<Longrightarrow> sum_list (map f xs) \<le> (sum_list (map g xs) :: 'v::linordered_field)"
  by (induction xs) (auto intro: add_mono)

lemma sum_list_abs_le: "\<bar>sum_list (map f xs)\<bar> \<le> (sum_list (map (\<lambda>x. \<bar>f x\<bar>) xs) :: 'v::linordered_field)"
  by (induction xs) (auto intro: order_trans [OF abs_triangle_ineq])

lemma sum_list_diff: "sum_list (map f xs) - sum_list (map g xs) = (sum_list (map (\<lambda>x. f x - g x) xs) :: 'v::linordered_field)"
  by (induction xs) auto

lemma sum_list_const_affine:
  "sum_list (map (\<lambda>x. c * f x + b) xs) = c * sum_list (map f xs) + of_nat (length xs) * (b :: 'v::linordered_field)"
  by (induction xs) (auto simp: algebra_simps)

text \<open>
  What a row holds after the positions \<open>js\<close>: the maximum of their scores, the sum of their
  weights, and the weighted values up to the rounding of the weights below \<open>limit\<close>.
\<close>

definition row_holds ::
    "('v::linordered_field \<Rightarrow> 'v) \<Rightarrow> (nat \<Rightarrow> 'v option) \<Rightarrow> (nat \<Rightarrow> nat \<Rightarrow> 'v) \<Rightarrow> nat \<Rightarrow> nat \<Rightarrow> 'v \<Rightarrow> 'v \<Rightarrow> 'v \<Rightarrow> nat list
      \<Rightarrow> 'v flash_row \<Rightarrow> bool" where
  "row_holds e sc val limit width V rel err js r \<longleftrightarrow>
     fr_m r = omax_list (map sc js) \<and> fr_l r = sum_list (map (\<lambda>j. weight e (fr_m r) (sc j)) js) \<and>
     length (fr_acc r) = width \<and>
     (\<forall>d < width. \<bar>fr_acc r ! d - sum_list (map (\<lambda>j. weight e (fr_m r) (sc j) * val j d) js)\<bar>
        \<le> V * (rel * fr_l r + of_nat (length (filter (\<lambda>j. j < limit) js)) * err))"

lemma row_holds_init: "row_holds e sc val limit width V rel err [] (row_init width)"
  by (simp add: row_holds_def row_init_def)

text \<open>One step, with the weights of the tile written out.\<close>

lemma row_step_eq:
  assumes "fa_block_d A = width" "omax (fr_m r) (omax_list (map sc js)) = Some m'"
  shows "row_step A v_scale (map (\<lambda>j. map (vraw j) [0 ..< width]) js) (map sc js) r = Some
    \<lparr>fr_m = Some m',
     fr_l = fr_l r * oexp (fa_exp A) m' (fr_m r) + sum_list (map (\<lambda>j. oexp (fa_exp A) m' (sc j)) js),
     fr_acc = map2 (\<lambda>a x. a + x * (v_scale / fa_fp8_max A)) (map (\<lambda>a. a * oexp (fa_exp A) m' (fr_m r)) (fr_acc r))
       (map (\<lambda>d. sum_list (map (\<lambda>j. fa_cast A (oexp (fa_exp A) m' (sc j) * fa_fp8_max A) * vraw j d) js)) [0 ..< width])\<rparr>"
proof -
  let ?cw = "\<lambda>j. fa_cast A (oexp (fa_exp A) m' (sc j) * fa_fp8_max A)"
  have pv: "map (\<lambda>d. sum_list (map2 (\<lambda>x v_row. x * v_row ! d) (map ?cw js) (map (\<lambda>j. map (vraw j) [0 ..< width]) js))) [0 ..< width]
      = map (\<lambda>d. sum_list (map (\<lambda>j. ?cw j * vraw j d) js)) [0 ..< width]"
    by (rule map_cong [OF refl]) (simp add: map2_map_map)
  have cw: "map (\<lambda>x. fa_cast A (x * fa_fp8_max A)) (map (oexp (fa_exp A) m') (map sc js)) = map ?cw js" by simp
  show ?thesis
    unfolding row_step_def assms option.case Let_def cw pv by (simp add: o_def)
qed

text \<open>Scaling down an accumulated error and adding a new one.\<close>

lemma accumulated_error:
  fixes V :: "'v::linordered_field"
  assumes "\<bar>a\<bar> \<le> V * (rel * l + n * err)" "\<bar>b\<bar> \<le> V * (rel * w + k * err)"
    and "0 \<le> alpha" "alpha \<le> 1" "V \<ge> 0" "n * err \<ge> 0"
  shows "\<bar>a * alpha + b\<bar> \<le> V * (rel * (l * alpha + w) + (n + k) * err)"
proof -
  have "\<bar>a\<bar> * alpha \<le> V * (rel * l + n * err) * alpha" using assms by (intro mult_right_mono)
  also have "\<dots> = V * (rel * (l * alpha) + n * err * alpha)" by (simp add: algebra_simps)
  also have "\<dots> \<le> V * (rel * (l * alpha) + n * err)"
    using assms by (intro mult_left_mono add_left_mono mult_left_le) auto
  finally have old: "\<bar>a\<bar> * alpha \<le> V * (rel * (l * alpha) + n * err)" .
  have "\<bar>a * alpha + b\<bar> \<le> \<bar>a\<bar> * alpha + \<bar>b\<bar>"
    using assms(3) by (intro order_trans [OF abs_triangle_ineq]) (simp add: abs_mult)
  also note add_mono [OF old assms(2)]
  finally show ?thesis by (simp add: algebra_simps)
qed

subsection \<open>Tiles in memory\<close>

text \<open>A buffer holds a matrix from an offset on, with two strides.\<close>

definition holds :: "'v list \<Rightarrow> nat \<Rightarrow> nat \<Rightarrow> nat \<Rightarrow> nat \<Rightarrow> nat \<Rightarrow> (nat \<Rightarrow> nat \<Rightarrow> 'v) \<Rightarrow> bool" where
  "holds buf off stride_r stride_d rows width f \<longleftrightarrow>
     (\<forall>r < rows. \<forall>d < width. off + r * stride_r + d * stride_d < length buf \<and> buf ! (off + r * stride_r + d * stride_d) = f r d)"

definition padded :: "nat \<Rightarrow> (nat \<Rightarrow> nat \<Rightarrow> 'v::zero) \<Rightarrow> nat \<Rightarrow> nat \<Rightarrow> 'v" where
  "padded limit f r d = (if r < limit then f r d else 0)"

lemma those_map: "(\<And>x. x \<in> set xs \<Longrightarrow> g x = Some (h x)) \<Longrightarrow> those (map g xs) = Some (map h xs)"
  by (induction xs) auto

lemma load_tile_holds:
  "holds buf off stride_r stride_d limit width f \<Longrightarrow>
     load_tile buf off rs stride_r [0 ..< width] stride_d limit = Some (map (\<lambda>r. map (padded limit f r) [0 ..< width]) rs)"
  unfolding load_tile_def by (intro those_map) (auto simp: holds_def tl_load_def padded_def intro!: those_map)

lemma arange_upt: "arange start n = [start ..< start + n]"
  by (simp add: arange_def map_add_upt add.commute [of start])

lemma inner_map: "inner (map f [0 ..< n]) (map g [0 ..< n]) = sum_list (map (\<lambda>d. f d * g d) [0 ..< n])"
  by (simp add: inner_def map2_map_map)

text \<open>The masked score of a query row against a key row.\<close>

definition raw_score :: "'v::linordered_field flash_args \<Rightarrow> 'v \<Rightarrow> (nat \<Rightarrow> nat \<Rightarrow> 'v) \<Rightarrow> (nat \<Rightarrow> nat \<Rightarrow> 'v) \<Rightarrow> nat \<Rightarrow> nat \<Rightarrow> 'v" where
  "raw_score A c qf kf m n = sum_list (map (\<lambda>d. qf m d * kf n d) [0 ..< fa_block_d A]) * c"

definition attends :: "'v flash_args \<Rightarrow> nat \<Rightarrow> nat \<Rightarrow> bool" where
  "attends A m n \<longleftrightarrow> n < fa_Skv A \<and> (fa_causal A \<longrightarrow> n \<le> m)"

definition score :: "'v::linordered_field flash_args \<Rightarrow> 'v \<Rightarrow> (nat \<Rightarrow> nat \<Rightarrow> 'v) \<Rightarrow> (nat \<Rightarrow> nat \<Rightarrow> 'v) \<Rightarrow> nat \<Rightarrow> nat \<Rightarrow> 'v option" where
  "score A c qf kf m n = (if attends A m n then Some (raw_score A c qf kf m n) else None)"

lemma row_scores_eq:
  "row_scores A c js (map (\<lambda>n. map (padded (fa_Skv A) kf n) [0 ..< fa_block_d A]) js) m (map (qf m) [0 ..< fa_block_d A])
     = map (score A c qf kf m) js"
  by (induction js) (auto simp: row_scores_def inner_map score_def raw_score_def attends_def padded_def cong: map_cong)

lemma sum_list_member:
  "(\<And>x. x \<in> set xs \<Longrightarrow> 0 \<le> f x) \<Longrightarrow> y \<in> set xs \<Longrightarrow> f y \<le> (sum_list (map f xs) :: 'v::linordered_field)"
proof (induction xs)
  case (Cons x xs)
  have nonneg: "0 \<le> sum_list (map f xs)" using Cons.prems(1) by (intro sum_list_nonneg) auto
  show ?case
  proof (cases "y = x")
    case False
    with Cons have "f y \<le> sum_list (map f xs)" by simp
    with Cons.prems(1) [of x] show ?thesis by simp
  qed (use nonneg in simp)
qed simp

lemma sum_list_filter_if: "sum_list (map (\<lambda>x. if P x then f x else 0) xs) = (sum_list (map f (filter P xs)) :: 'v::monoid_add)"
  by (induction xs) auto

text \<open>The reference: softmax attention of one row, over the positions it may attend to.\<close>

definition attention_row ::
    "'v::linordered_field flash_args \<Rightarrow> 'v \<Rightarrow> (nat \<Rightarrow> nat \<Rightarrow> 'v) \<Rightarrow> (nat \<Rightarrow> nat \<Rightarrow> 'v) \<Rightarrow> (nat \<Rightarrow> nat \<Rightarrow> 'v) \<Rightarrow> 'v \<Rightarrow> nat \<Rightarrow> nat \<Rightarrow> 'v" where
  "attention_row A c qf kf vf v_scale m d =
     (let js = filter (attends A m) [0 ..< fa_Skv A]; w = (\<lambda>j. fa_exp A (raw_score A c qf kf m j))
      in sum_list (map (\<lambda>j. w j * (v_scale * vf j d)) js) / sum_list (map w js))"

text \<open>What the launch gets: matrices in memory for every batch and head, one scale for each.\<close>

definition inputs_ok :: "'v flash_args \<Rightarrow> (nat \<Rightarrow> nat \<Rightarrow> nat \<Rightarrow> nat \<Rightarrow> 'v) \<Rightarrow> (nat \<Rightarrow> nat \<Rightarrow> nat \<Rightarrow> nat \<Rightarrow> 'v) \<Rightarrow> (nat \<Rightarrow> nat \<Rightarrow> nat \<Rightarrow> nat \<Rightarrow> 'v) \<Rightarrow> bool" where
  "inputs_ok A qf kf vf \<longleftrightarrow>
     (\<forall>b < fa_B A. \<forall>h < fa_H A.
        (let off = (\<lambda>s. b * st_b s + h * st_h s) in
         holds (fa_q A) (off (fa_q_strides A)) (st_s (fa_q_strides A)) (st_d (fa_q_strides A)) (fa_Sq A) (fa_block_d A) (qf b h) \<and>
         holds (fa_k A) (off (fa_k_strides A)) (st_s (fa_k_strides A)) (st_d (fa_k_strides A)) (fa_Skv A) (fa_block_d A) (kf b h) \<and>
         holds (fa_v A) (off (fa_v_strides A)) (st_s (fa_v_strides A)) (st_d (fa_v_strides A)) (fa_Skv A) (fa_block_d A) (vf b h))) \<and>
     length (fa_qs A) = fa_B A * fa_H A \<and> length (fa_ks A) = fa_B A * fa_H A \<and> length (fa_vs A) = fa_B A * fa_H A \<and>
     fa_block_m A > 0 \<and> fa_block_n A > 0 \<and> fa_Skv A > 0"

definition out_address :: "'v flash_args \<Rightarrow> nat \<Rightarrow> nat \<Rightarrow> nat \<Rightarrow> nat \<Rightarrow> nat" where
  "out_address A b h m d =
     b * st_b (fa_o_strides A) + h * st_h (fa_o_strides A) + m * st_s (fa_o_strides A) + d * st_d (fa_o_strides A)"

text \<open>The attention of one output element, on the values the 8-bit tensors stand for.\<close>

definition attention_element ::
    "'v::linordered_field flash_args \<Rightarrow> (nat \<Rightarrow> nat \<Rightarrow> nat \<Rightarrow> nat \<Rightarrow> 'v) \<Rightarrow> (nat \<Rightarrow> nat \<Rightarrow> nat \<Rightarrow> nat \<Rightarrow> 'v) \<Rightarrow> (nat \<Rightarrow> nat \<Rightarrow> nat \<Rightarrow> nat \<Rightarrow> 'v)
      \<Rightarrow> nat \<Rightarrow> nat \<Rightarrow> nat \<Rightarrow> nat \<Rightarrow> 'v" where
  "attention_element A qf kf vf b h m d =
     (let bh = b * fa_H A + h
      in attention_row A (fa_sm_scale A * fa_qs A ! bh * fa_ks A ! bh) (qf b h) (kf b h) (vf b h) (fa_vs A ! bh) m d)"

lemma attention_row_padded:
  "m < limit \<Longrightarrow> attention_row A c (padded limit qf) kf vf v_scale m d = attention_row A c qf kf vf v_scale m d"
  by (simp add: attention_row_def raw_score_def padded_def)

lemma cdiv_covers:
  assumes "b > 0"
  shows "a \<le> cdiv a b * b"
proof -
  have "(a + b - 1) mod b < b" using assms by simp
  moreover have "(a + b - 1) div b * b + (a + b - 1) mod b = a + b - 1" by simp
  ultimately have "a \<le> (a + b - 1) div b * b" using assms by linarith
  then show ?thesis by (simp add: cdiv_def)
qed

lemma pair_bound: "b < B \<Longrightarrow> h < H \<Longrightarrow> b * H + h < B * (H :: nat)"
proof -
  assume "b < B" "h < H"
  then have "b * H + h < Suc b * H" by simp
  also have "\<dots> \<le> B * H" using \<open>b < B\<close> by (intro mult_le_mono1) simp
  finally show ?thesis .
qed

subsection \<open>Writes\<close>

lemma distinct_concat_map:
  "distinct xs \<Longrightarrow> (\<And>x. x \<in> set xs \<Longrightarrow> distinct (f x)) \<Longrightarrow>
     (\<And>x y. x \<in> set xs \<Longrightarrow> y \<in> set xs \<Longrightarrow> x \<noteq> y \<Longrightarrow> set (f x) \<inter> set (f y) = {}) \<Longrightarrow>
     distinct (concat (map f xs))"
proof (induction xs)
  case (Cons x xs)
  then have "set (f x) \<inter> set (f y) = {}" if "y \<in> set xs" for y using that by auto
  with Cons show ?case by auto
qed simp

text \<open>Writes to different addresses: every one of them is in the final memory.\<close>

lemma apply_writes_distinct:
  assumes "distinct (map fst ws)" "\<And>a x. (a, x) \<in> set ws \<Longrightarrow> a < length out"
  shows "\<exists>out'. apply_writes ws out = Some out' \<and> length out' = length out
    \<and> (\<forall>a x. (a, x) \<in> set ws \<longrightarrow> out' ! a = x) \<and> (\<forall>a. a \<notin> fst ` set ws \<longrightarrow> out' ! a = out ! a)"
  using assms
proof (induction ws arbitrary: out)
  case (Cons w ws)
  obtain a x where w: "w = (a, x)" by (cases w)
  from Cons.prems have a: "a < length out" "a \<notin> fst ` set ws" by (auto simp: w)
  from Cons.IH [of "out[a := x]"] Cons.prems obtain out' where "apply_writes ws (out[a := x]) = Some out'"
    and out': "length out' = length out" "\<forall>a' x'. (a', x') \<in> set ws \<longrightarrow> out' ! a' = x'"
      "\<forall>a'. a' \<notin> fst ` set ws \<longrightarrow> out' ! a' = out[a := x] ! a'"
    by auto
  with a show ?case by (auto simp: w)
qed simp

text \<open>Hence their order does not matter.\<close>

lemma apply_writes_order:
  assumes "distinct (map fst ws)" "\<And>a x. (a, x) \<in> set ws \<Longrightarrow> a < length out" "mset ws' = mset ws"
  shows "apply_writes ws' out = apply_writes ws out"
proof -
  from assms(3) have sets: "set ws' = set ws" by (rule mset_eq_setD)
  have "distinct (map fst ws')" using assms(1,3) by (metis mset_eq_imp_distinct_iff mset_map)
  with apply_writes_distinct [of ws' out] assms(2) sets obtain o1 where o1: "apply_writes ws' out = Some o1"
    "length o1 = length out" "\<forall>a x. (a, x) \<in> set ws \<longrightarrow> o1 ! a = x" "\<forall>a. a \<notin> fst ` set ws \<longrightarrow> o1 ! a = out ! a" by auto
  have "\<exists>out'. apply_writes ws out = Some out' \<and> length out' = length out
    \<and> (\<forall>a x. (a, x) \<in> set ws \<longrightarrow> out' ! a = x) \<and> (\<forall>a. a \<notin> fst ` set ws \<longrightarrow> out' ! a = out ! a)"
    by (rule apply_writes_distinct [OF assms(1)]) (rule assms(2))
  then obtain o2 where o2: "apply_writes ws out = Some o2"
    "length o2 = length out" "\<forall>a x. (a, x) \<in> set ws \<longrightarrow> o2 ! a = x" "\<forall>a. a \<notin> fst ` set ws \<longrightarrow> o2 ! a = out ! a" by auto
  have "o1 ! a = o2 ! a" for a
    using o1(3,4) o2(3,4) by (cases "a \<in> fst ` set ws") fastforce+
  with o1 o2 show ?thesis by (auto intro: nth_equalityI)
qed

context exponential
begin

lemma exp_zero: "e 0 = 1"
  using exp_sum [of 0 0] exp_pos [of 0] by (metis add_0 mult_cancel_right2 less_irrefl)

lemma oexp_nonneg: "oexp e m s \<ge> 0"
  by (cases s) (auto intro: less_imp_le exp_pos)

lemma oexp_le_one: "(\<And>x. s = Some x \<Longrightarrow> x \<le> m) \<Longrightarrow> oexp e m s \<le> 1"
  using exp_mono [of _ 0] by (cases s) (auto simp: exp_zero)

lemma rescale:
  assumes "omax m s = Some m'"
  shows "weight e m x * oexp e m' m = (if m = None then 0 else oexp e m' x)"
proof (cases m)
  case (Some a)
  show ?thesis
  proof (cases x)
    case (Some b)
    have "e (b - a) * e (a - m') = e (b - m')" by (simp add: exp_sum [symmetric])
    with \<open>m = Some a\<close> Some show ?thesis by simp
  qed (simp add: \<open>m = Some a\<close>)
qed simp

lemma old_weights:
  assumes "m = omax_list (map sc js)" "omax m s = Some m'" "j \<in> set js"
  shows "weight e m (sc j) * oexp e m' m = weight e (Some m') (sc j)"
proof (cases m)
  case None
  with assms(1,3) have "sc j = None" using omax_list_None [of "map sc js"] by auto
  with None show ?thesis by simp
next
  case (Some a)
  with rescale [OF assms(2), of "sc j"] show ?thesis by simp
qed

lemma alpha_bounds:
  assumes "omax m s = Some m'"
  shows "0 \<le> oexp e m' m" "oexp e m' m \<le> 1"
  using assms by (auto intro!: oexp_nonneg oexp_le_one omax_upper(1))

lemma rounded_weight:
  assumes "rounds_within cast rel err largest" "0 \<le> w" "w \<le> 1" "\<bar>v\<bar> \<le> V"
  shows "\<bar>cast (w * largest) * v / largest - w * v\<bar> \<le> V * (rel * w + err / largest)"
proof -
  from assms(1) have largest: "largest > 0" by (simp add: rounds_within_def)
  with assms have "w * largest \<le> largest" "0 \<le> w * largest" using mult_left_le_one_le [of largest w] by simp_all
  with assms(1) have "\<bar>cast (w * largest) - w * largest\<bar> \<le> rel * (w * largest) + err"
    by (simp add: rounds_within_def)
  then have "\<bar>cast (w * largest) - w * largest\<bar> / largest \<le> (rel * (w * largest) + err) / largest"
    using largest by (simp add: divide_right_mono)
  also have "\<dots> = rel * w + err / largest" using largest by (simp add: add_divide_distrib)
  finally have r: "\<bar>cast (w * largest) - w * largest\<bar> / largest \<le> rel * w + err / largest" .
  have "cast (w * largest) * v / largest - w * v = (cast (w * largest) - w * largest) / largest * v"
    using largest by (simp add: field_simps)
  then have "\<bar>cast (w * largest) * v / largest - w * v\<bar> = \<bar>cast (w * largest) - w * largest\<bar> / largest * \<bar>v\<bar>"
    using largest by (simp add: abs_mult abs_divide)
  also have "\<dots> \<le> (rel * w + err / largest) * V"
    using r assms(4) largest by (intro mult_mono) (auto intro: order_trans [OF _ r])
  finally show ?thesis by (simp add: mult.commute)
qed

lemma new_error:
  assumes "rounds_within cast rel abs_err largest"
    and "\<And>j. j \<in> set js \<Longrightarrow> 0 \<le> w j \<and> w j \<le> 1 \<and> \<bar>v j\<bar> \<le> V"
    and "\<And>j. \<not> j < limit \<Longrightarrow> v j = 0" and "V \<ge> 0"
  shows "\<bar>sum_list (map (\<lambda>j. cast (w j * largest) * v j / largest - w j * v j) js)\<bar>
    \<le> V * (rel * sum_list (map w js) + of_nat (length (filter (\<lambda>j. j < limit) js)) * (abs_err / largest))"
proof -
  have "\<bar>cast (w j * largest) * v j / largest - w j * v j\<bar>
      \<le> V * (rel * w j + (if j < limit then abs_err / largest else 0))" if "j \<in> set js" for j
    using rounded_weight [OF assms(1), of "w j" "v j" V] assms(2) [OF that] assms(1,3,4)
    by (auto simp: rounds_within_def)
  then have "\<bar>sum_list (map (\<lambda>j. cast (w j * largest) * v j / largest - w j * v j) js)\<bar>
      \<le> sum_list (map (\<lambda>j. V * (rel * w j + (if j < limit then abs_err / largest else 0))) js)"
    by (intro order_trans [OF sum_list_abs_le] sum_list_le) blast
  also have "\<dots> = V * (rel * sum_list (map w js) + of_nat (length (filter (\<lambda>j. j < limit) js)) * (abs_err / largest))"
    by (induction js) (auto simp: algebra_simps add_divide_distrib)
  finally show ?thesis .
qed

lemma tile_weights:
  assumes "omax m (omax_list (map sc js)) = Some m'" "j \<in> set js"
  shows "0 \<le> oexp e m' (sc j)" "oexp e m' (sc j) \<le> 1"
proof -
  show "oexp e m' (sc j) \<le> 1"
  proof (rule oexp_le_one)
    fix x assume "sc j = Some x"
    with assms(2) have "Some x \<in> set (map sc js)" by force
    moreover from this obtain k where "omax_list (map sc js) = Some k"
      using omax_list_None [of "map sc js"] by (cases "omax_list (map sc js)") auto
    ultimately show "x \<le> m'"
      using omax_list_upper [of "map sc js" k x] omax_upper(2) [OF assms(1), of k] by simp
  qed
qed (rule oexp_nonneg)

lemma row_step_holds:
  assumes old: "row_holds e sc (\<lambda>j d. v_scale * vraw j d) limit width V rel (abs_err / largest) js r"
    and A: "fa_exp A = e" "fa_block_d A = width" "fa_fp8_max A = largest" "rounds_within (fa_cast A) rel abs_err largest"
    and some: "omax_list (map sc (js @ js')) \<noteq> None"
    and V: "V \<ge> 0" "\<And>j d. j \<in> set js' \<Longrightarrow> d < width \<Longrightarrow> \<bar>v_scale * vraw j d\<bar> \<le> V"
    and pad: "\<And>j d. \<not> j < limit \<Longrightarrow> vraw j d = 0"
  shows "\<exists>r'. row_step A v_scale (map (\<lambda>j. map (vraw j) [0 ..< width]) js') (map sc js') r = Some r'
    \<and> row_holds e sc (\<lambda>j d. v_scale * vraw j d) limit width V rel (abs_err / largest) (js @ js') r'"
proof -
  let ?val = "\<lambda>j d. v_scale * vraw j d" and ?err = "abs_err / largest"
  have m_js: "fr_m r = omax_list (map sc js)" and l: "fr_l r = sum_list (map (\<lambda>j. weight e (fr_m r) (sc j)) js)"
    and len: "length (fr_acc r) = width"
    and acc: "\<And>d. d < width \<Longrightarrow> \<bar>fr_acc r ! d - sum_list (map (\<lambda>j. weight e (fr_m r) (sc j) * ?val j d) js)\<bar>
        \<le> V * (rel * fr_l r + of_nat (length (filter (\<lambda>j. j < limit) js)) * ?err)"
    using old unfolding row_holds_def by blast+
  from some obtain m' where m': "omax (fr_m r) (omax_list (map sc js')) = Some m'"
    using m_js by (auto simp: omax_list_append)
  define alpha w cw where "alpha = oexp e m' (fr_m r)" and "w = (\<lambda>j. oexp e m' (sc j))"
    and "cw = (\<lambda>j. fa_cast A (w j * largest))"
  obtain r' where step: "row_step A v_scale (map (\<lambda>j. map (vraw j) [0 ..< width]) js') (map sc js') r = Some r'"
    and r': "fr_m r' = Some m'" "fr_l r' = fr_l r * alpha + sum_list (map w js')"
      "fr_acc r' = map2 (\<lambda>a x. a + x * (v_scale / largest)) (map (\<lambda>a. a * alpha) (fr_acc r))
         (map (\<lambda>d. sum_list (map (\<lambda>j. cw j * vraw j d) js')) [0 ..< width])"
    by (rule that [OF row_step_eq [OF A(2) m', of v_scale vraw]]) (simp_all add: alpha_def w_def cw_def A)
  have alpha: "0 \<le> alpha" "alpha \<le> 1" using alpha_bounds [OF m'] by (simp_all add: alpha_def)
  have scaled: "weight e (fr_m r) (sc j) * alpha = w j" if "j \<in> set js" for j
    using old_weights [OF m_js m' that] by (simp add: alpha_def w_def)
  have l_old: "fr_l r * alpha = sum_list (map w js)"
    unfolding l sum_list_mult_const [symmetric] using scaled by (simp add: o_def cong: map_cong)
  have err: "of_nat (length (filter (\<lambda>j. j < limit) js)) * ?err \<ge> 0" using A(4) by (simp add: rounds_within_def)
  have acc': "\<bar>fr_acc r' ! d - sum_list (map (\<lambda>j. w j * ?val j d) (js @ js'))\<bar>
      \<le> V * (rel * fr_l r' + of_nat (length (filter (\<lambda>j. j < limit) (js @ js'))) * ?err)" if d: "d < width" for d
  proof -
    let ?old = "fr_acc r ! d - sum_list (map (\<lambda>j. weight e (fr_m r) (sc j) * ?val j d) js)"
    let ?new = "sum_list (map (\<lambda>j. cw j * ?val j d / largest - w j * ?val j d) js')"
    have "sum_list (map (\<lambda>j. w j * ?val j d) js) = sum_list (map (\<lambda>j. weight e (fr_m r) (sc j) * ?val j d) js) * alpha"
      unfolding sum_list_mult_const [symmetric] using scaled
      by (auto simp: mult_ac o_def intro!: arg_cong [where f = sum_list] map_cong)
    moreover have "sum_list (map (\<lambda>j. cw j * vraw j d) js') * (v_scale / largest) = sum_list (map (\<lambda>j. cw j * ?val j d / largest) js')"
      unfolding sum_list_mult_const [symmetric] by (simp add: mult_ac o_def)
    ultimately have split: "fr_acc r' ! d - sum_list (map (\<lambda>j. w j * ?val j d) (js @ js')) = ?old * alpha + ?new"
      using d len by (simp add: r' sum_list_diff [symmetric] algebra_simps)
    have "\<bar>?new\<bar> \<le> V * (rel * sum_list (map w js') + of_nat (length (filter (\<lambda>j. j < limit) js')) * ?err)"
      unfolding cw_def using tile_weights [OF m'] V d pad by (intro new_error [OF A(4)]) (auto simp: w_def)
    from accumulated_error [OF acc [OF d] this alpha V(1) err] show ?thesis
      unfolding split by (simp add: r')
  qed
  have "row_holds e sc ?val limit width V rel ?err (js @ js') r'"
    unfolding row_holds_def using acc' m' m_js l_old len
    by (simp add: r' omax_list_append w_def)
  with step show ?thesis by blast
qed

text \<open>The loop, tile by tile, for all rows of a query tile.\<close>

definition rows_hold ::
    "'v flash_args \<Rightarrow> 'v \<Rightarrow> (nat \<Rightarrow> nat \<Rightarrow> 'v) \<Rightarrow> (nat \<Rightarrow> nat \<Rightarrow> 'v) \<Rightarrow> (nat \<Rightarrow> nat \<Rightarrow> 'v) \<Rightarrow> 'v \<Rightarrow> 'v \<Rightarrow> 'v \<Rightarrow> 'v \<Rightarrow> nat
      \<Rightarrow> nat list \<Rightarrow> 'v flash_row list \<Rightarrow> bool" where
  "rows_hold A c qf kf vf v_scale V rel err n ms rs \<longleftrightarrow>
     list_all2 (\<lambda>m. row_holds e (score A c qf kf m) (\<lambda>j d. v_scale * padded (fa_Skv A) vf j d)
       (fa_Skv A) (fa_block_d A) V rel err [0 ..< n * fa_block_n A]) ms rs"

lemma kv_step_holds:
  assumes A: "fa_exp A = e" "rounds_within (fa_cast A) rel abs_err (fa_fp8_max A)" "fa_block_n A > 0" "fa_Skv A > 0"
    and K: "holds (fa_k A) k_off (st_s (fa_k_strides A)) (st_d (fa_k_strides A)) (fa_Skv A) (fa_block_d A) kf"
    and Vb: "holds (fa_v A) v_off (st_s (fa_v_strides A)) (st_d (fa_v_strides A)) (fa_Skv A) (fa_block_d A) vf"
    and V: "V \<ge> 0" "\<And>j d. j < fa_Skv A \<Longrightarrow> d < fa_block_d A \<Longrightarrow> \<bar>v_scale * vf j d\<bar> \<le> V"
    and rows: "rows_hold A c qf kf vf v_scale V rel (abs_err / fa_fp8_max A) n ms rs"
  shows "\<exists>rs'. kv_step A k_off v_off c v_scale (map (\<lambda>m. (m, map (qf m) [0 ..< fa_block_d A])) ms) n (map Some rs) = Some (map Some rs')
    \<and> rows_hold A c qf kf vf v_scale V rel (abs_err / fa_fp8_max A) (Suc n) ms rs'"
proof -
  let ?js = "[n * fa_block_n A ..< n * fa_block_n A + fa_block_n A]" and ?D = "[0 ..< fa_block_d A]"
  let ?tile = "\<lambda>f. map (\<lambda>j. map (padded (fa_Skv A) f j) ?D) ?js"
  let ?step = "\<lambda>(m, q_row) row. Option.bind row (row_step A v_scale (?tile vf) (row_scores A c ?js (?tile kf) m q_row))"
  have js: "[0 ..< Suc n * fa_block_n A] = [0 ..< n * fa_block_n A] @ ?js"
    using upt_add_eq_append [of 0 "n * fa_block_n A" "fa_block_n A"] by (simp add: add.commute)
  have one: "\<exists>r'. row_step A v_scale (?tile vf) (map (score A c qf kf m) ?js) r = Some r'
      \<and> row_holds e (score A c qf kf m) (\<lambda>j d. v_scale * padded (fa_Skv A) vf j d) (fa_Skv A) (fa_block_d A) V rel
          (abs_err / fa_fp8_max A) [0 ..< Suc n * fa_block_n A] r'"
    if "row_holds e (score A c qf kf m) (\<lambda>j d. v_scale * padded (fa_Skv A) vf j d) (fa_Skv A) (fa_block_d A) V rel
          (abs_err / fa_fp8_max A) [0 ..< n * fa_block_n A] r" for m r
    unfolding js
  proof (rule row_step_holds [OF that A(1) refl refl A(2) _ V(1)])
    have "0 \<in> set [0 ..< Suc n * fa_block_n A]" "score A c qf kf m 0 \<noteq> None"
      using A by (auto simp: score_def attends_def)
    then show "omax_list (map (score A c qf kf m) ([0 ..< n * fa_block_n A] @ ?js)) \<noteq> None"
      unfolding js [symmetric] omax_list_None by (metis image_eqI set_map)
  qed (use V in \<open>auto simp: padded_def\<close>)
  have "\<exists>rs'. map2 ?step (map (\<lambda>m. (m, map (qf m) ?D)) ms) (map Some rs) = map Some rs'
      \<and> rows_hold A c qf kf vf v_scale V rel (abs_err / fa_fp8_max A) (Suc n) ms rs'"
    using rows unfolding rows_hold_def
  proof (induction rule: list_all2_induct)
    case (Cons m ms r rs)
    from Cons.IH obtain rs' where rs': "map2 ?step (map (\<lambda>m. (m, map (qf m) ?D)) ms) (map Some rs) = map Some rs'
      \<and> list_all2 (\<lambda>m. row_holds e (score A c qf kf m) (\<lambda>j d. v_scale * padded (fa_Skv A) vf j d)
       (fa_Skv A) (fa_block_d A) V rel (abs_err / fa_fp8_max A) [0 ..< Suc n * fa_block_n A]) ms rs'" ..
    from one [OF Cons.hyps(1)] obtain r' where r': "row_step A v_scale (?tile vf) (map (score A c qf kf m) ?js) r = Some r'"
      and h: "row_holds e (score A c qf kf m) (\<lambda>j d. v_scale * padded (fa_Skv A) vf j d) (fa_Skv A) (fa_block_d A) V rel
          (abs_err / fa_fp8_max A) [0 ..< Suc n * fa_block_n A] r'" by (elim exE conjE)
    have "?step (m, map (qf m) ?D) (Some r) = Some r'"
      unfolding prod.case bind.bind_lunit row_scores_eq by (rule r')
    with rs' h show ?case by (intro exI [of _ "r' # rs'"]) (simp only: list.map zip_Cons_Cons prod.case list_all2_Cons simp_thms)
  qed simp
  then show ?thesis
    unfolding kv_step_def Let_def arange_upt load_tile_holds [OF K] load_tile_holds [OF Vb] by simp
qed

lemma kv_loop_holds:
  assumes A: "fa_exp A = e" "rounds_within (fa_cast A) rel abs_err (fa_fp8_max A)" "fa_block_n A > 0" "fa_Skv A > 0"
    and K: "holds (fa_k A) k_off (st_s (fa_k_strides A)) (st_d (fa_k_strides A)) (fa_Skv A) (fa_block_d A) kf"
    and Vb: "holds (fa_v A) v_off (st_s (fa_v_strides A)) (st_d (fa_v_strides A)) (fa_Skv A) (fa_block_d A) vf"
    and V: "V \<ge> 0" "\<And>j d. j < fa_Skv A \<Longrightarrow> d < fa_block_d A \<Longrightarrow> \<bar>v_scale * vf j d\<bar> \<le> V"
    and rows: "rows_hold A c qf kf vf v_scale V rel (abs_err / fa_fp8_max A) n ms rs"
  shows "\<exists>rs'. kv_loop A k_off v_off c v_scale (map (\<lambda>m. (m, map (qf m) [0 ..< fa_block_d A])) ms) [n ..< n + k] (map Some rs)
      = Some (map Some rs')
    \<and> rows_hold A c qf kf vf v_scale V rel (abs_err / fa_fp8_max A) (n + k) ms rs'"
  using rows
proof (induction k arbitrary: n rs)
  case (Suc k)
  obtain rs1 where step: "kv_step A k_off v_off c v_scale (map (\<lambda>m. (m, map (qf m) [0 ..< fa_block_d A])) ms) n (map Some rs)
      = Some (map Some rs1)" and holds1: "rows_hold A c qf kf vf v_scale V rel (abs_err / fa_fp8_max A) (Suc n) ms rs1"
    using kv_step_holds [OF A K Vb V Suc.prems] by blast
  have "[n ..< n + Suc k] = n # [Suc n ..< Suc n + k]" by (simp add: upt_conv_Cons)
  with Suc.IH [OF holds1] show ?case by (simp add: step)
qed simp

lemma weight_sum:
  "sum_list (map (\<lambda>j. weight e (Some mx) (score A c qf kf m j) * f j) js)
     = sum_list (map (\<lambda>j. e (raw_score A c qf kf m j) * f j) (filter (attends A m) js)) * e (- mx)"
proof -
  have "weight e (Some mx) (score A c qf kf m j) * f j
      = (if attends A m j then e (raw_score A c qf kf m j) * f j * e (- mx) else 0)" for j
    using exp_sum [of "raw_score A c qf kf m j" "- mx"] by (simp add: score_def mult_ac)
  then show ?thesis by (simp add: sum_list_filter_if sum_list_mult_const)
qed

lemma row_sum_at_least_one:
  assumes "fr_m r = Some mx" "fr_m r = omax_list (map sc js)" "fr_l r = sum_list (map (\<lambda>j. weight e (fr_m r) (sc j)) js)"
  shows "fr_l r \<ge> 1"
proof -
  have "Some mx \<in> set (map sc js)" by (rule omax_list_attained) (use assms in simp)
  then obtain j where j: "j \<in> set js" "sc j = Some mx" by auto
  have "weight e (Some mx) (sc j) \<le> sum_list (map (\<lambda>j. weight e (Some mx) (sc j)) js)"
    by (rule sum_list_member [OF _ j(1)]) (simp add: oexp_nonneg)
  with j assms(1,3) show ?thesis by (simp add: exp_zero)
qed

lemma row_out_bound:
  assumes A: "fa_exp A = e" "fa_block_d A = width"
    and r: "row_holds e (score A c qf kf m) (\<lambda>j d. v_scale * padded (fa_Skv A) vf j d) (fa_Skv A) width V rel err [0 ..< n] r"
    and n: "fa_Skv A \<le> n" "fa_Skv A > 0" and V: "V \<ge> 0" "err \<ge> 0" and d: "d < width"
  shows "\<exists>x. row_out width (Some r) ! d = Some x
    \<and> \<bar>x - attention_row A c qf kf vf v_scale m d\<bar> \<le> V * (rel + of_nat (fa_Skv A) * err)"
proof -
  let ?val = "\<lambda>j. v_scale * padded (fa_Skv A) vf j d" and ?w = "\<lambda>j. e (raw_score A c qf kf m j)"
  define S where "S = sum_list (map (\<lambda>j. weight e (fr_m r) (score A c qf kf m j) * ?val j) [0 ..< n])"
  have upt: "[0 ..< n] = [0 ..< fa_Skv A] @ [fa_Skv A ..< n]"
    using upt_add_eq_append [of 0 "fa_Skv A" "n - fa_Skv A"] n by simp
  have js: "filter (attends A m) [0 ..< n] = filter (attends A m) [0 ..< fa_Skv A]"
    and count: "length (filter (\<lambda>j. j < fa_Skv A) [0 ..< n]) = fa_Skv A"
    unfolding upt by (auto simp: attends_def filter_empty_conv)
  have m: "fr_m r = omax_list (map (score A c qf kf m) [0 ..< n])"
    and l: "fr_l r = sum_list (map (\<lambda>j. weight e (fr_m r) (score A c qf kf m j)) [0 ..< n])"
    and len: "length (fr_acc r) = width"
    and acc: "\<bar>fr_acc r ! d - S\<bar> \<le> V * (rel * fr_l r + of_nat (fa_Skv A) * err)"
    using r d unfolding row_holds_def S_def count by blast+
  have "0 \<in> set [0 ..< n]" "score A c qf kf m 0 \<noteq> None" using n by (auto simp: score_def attends_def)
  then obtain mx where mx: "fr_m r = Some mx"
    using m omax_list_None [of "map (score A c qf kf m) [0 ..< n]"] by (cases "fr_m r") auto
  from row_sum_at_least_one [OF mx m l] have l1: "fr_l r \<ge> 1" .
  have "S = sum_list (map (\<lambda>j. ?w j * (v_scale * vf j d)) (filter (attends A m) [0 ..< fa_Skv A])) * e (- mx)"
    unfolding S_def mx weight_sum js
    by (auto intro!: arg_cong [where f = sum_list] simp: padded_def attends_def)
  moreover have "fr_l r = sum_list (map ?w (filter (attends A m) [0 ..< fa_Skv A])) * e (- mx)"
    using weight_sum [of mx A c qf kf m "\<lambda>j. 1" "[0 ..< n]"] by (simp add: l mx js)
  ultimately have ref: "attention_row A c qf kf vf v_scale m d = S / fr_l r"
    using exp_pos [of "- mx"] by (simp add: attention_row_def A Let_def)
  have "fr_acc r ! d / fr_l r - S / fr_l r = (fr_acc r ! d - S) / fr_l r" by (simp add: diff_divide_distrib)
  then have "\<bar>fr_acc r ! d / fr_l r - S / fr_l r\<bar> = \<bar>fr_acc r ! d - S\<bar> / fr_l r" using l1 by (simp add: abs_divide)
  also have "\<dots> \<le> V * (rel * fr_l r + of_nat (fa_Skv A) * err) / fr_l r"
    using acc l1 by (intro divide_right_mono) simp_all
  also have "\<dots> = V * (rel + of_nat (fa_Skv A) * err / fr_l r)" using l1 by (simp add: field_simps)
  also have "\<dots> \<le> V * (rel + of_nat (fa_Skv A) * err)"
    using l1 V divide_left_mono [of 1 "fr_l r" "of_nat (fa_Skv A) * err"] by (intro mult_left_mono add_left_mono) simp_all
  finally show ?thesis using d len l1 by (simp add: row_out_def ref)
qed

text \<open>One program writes its rows, each element once, within the error of the weights.\<close>

lemma flash_program_writes:
  assumes A: "fa_exp A = e" "rounds_within (fa_cast A) rel abs_err (fa_fp8_max A)"
    and ok: "inputs_ok A qf kf vf" and bh: "b < fa_B A" "h < fa_H A"
    and V: "V \<ge> 0" "\<And>j d. j < fa_Skv A \<Longrightarrow> d < fa_block_d A \<Longrightarrow> \<bar>fa_vs A ! (b * fa_H A + h) * vf b h j d\<bar> \<le> V"
  shows "\<exists>f. flash_program A (pid_m, b * fa_H A + h) = Some (concat (map (\<lambda>m.
        if m < fa_Sq A then map (\<lambda>d. (out_address A b h m d, f m d)) [0 ..< fa_block_d A] else [])
        [pid_m * fa_block_m A ..< pid_m * fa_block_m A + fa_block_m A]))
    \<and> (\<forall>m. \<forall>d < fa_block_d A. pid_m * fa_block_m A \<le> m \<longrightarrow> m < pid_m * fa_block_m A + fa_block_m A \<longrightarrow> m < fa_Sq A \<longrightarrow>
        (\<exists>x. f m d = Some x \<and> \<bar>x - attention_element A qf kf vf b h m d\<bar>
           \<le> V * (rel + of_nat (fa_Skv A) * (abs_err / fa_fp8_max A))))"
proof -
  let ?bh = "b * fa_H A + h" and ?D = "fa_block_d A" and ?ms = "[pid_m * fa_block_m A ..< pid_m * fa_block_m A + fa_block_m A]"
  let ?off = "\<lambda>s. b * st_b s + h * st_h s"
  let ?c = "fa_sm_scale A * fa_qs A ! ?bh * fa_ks A ! ?bh" and ?vs = "fa_vs A ! ?bh" and ?err = "abs_err / fa_fp8_max A"
  let ?q = "padded (fa_Sq A) (qf b h)" and ?N = "cdiv (fa_Skv A) (fa_block_n A)"
  have pid: "?bh div fa_H A = b" "?bh mod fa_H A = h" and lt: "?bh < fa_B A * fa_H A"
    using bh pair_bound [of b "fa_B A" h "fa_H A"] by simp_all
  note mem = ok [unfolded inputs_ok_def Let_def, THEN conjunct1, rule_format, OF bh]
  have len: "length (fa_qs A) = fa_B A * fa_H A" "length (fa_ks A) = fa_B A * fa_H A" "length (fa_vs A) = fa_B A * fa_H A"
    and pos: "fa_block_m A > 0" "fa_block_n A > 0" "fa_Skv A > 0"
    using ok by (simp_all add: inputs_ok_def)
  have init: "rows_hold A ?c ?q (kf b h) (vf b h) ?vs V rel ?err 0 ?ms (replicate (fa_block_m A) (row_init ?D))"
    by (simp add: rows_hold_def list_all2_conv_all_nth row_holds_init)
  obtain rs where loop: "kv_loop A (?off (fa_k_strides A)) (?off (fa_v_strides A)) ?c ?vs (map (\<lambda>m. (m, map (?q m) [0 ..< ?D])) ?ms)
      [0 ..< ?N] (replicate (fa_block_m A) (Some (row_init ?D))) = Some (map Some rs)"
    and rs: "rows_hold A ?c ?q (kf b h) (vf b h) ?vs V rel ?err ?N ?ms rs"
    using kv_loop_holds [OF A pos(2,3) mem [THEN conjunct2, THEN conjunct1] mem [THEN conjunct2, THEN conjunct2] V init, of ?N]
    by (auto simp: map_replicate)
  have n_rs: "length rs = fa_block_m A" using rs by (auto simp: rows_hold_def dest: list_all2_lengthD)
  define row where "row = (\<lambda>m. Some (rs ! (m - pid_m * fa_block_m A)))"
  have rs_row: "map Some rs = map row ?ms"
    by (rule nth_equalityI) (simp_all add: n_rs row_def)
  have out: "\<exists>x. row_out ?D (row m) ! d = Some x \<and> \<bar>x - attention_element A qf kf vf b h m d\<bar> \<le> V * (rel + of_nat (fa_Skv A) * ?err)"
    if m: "pid_m * fa_block_m A \<le> m" "m < pid_m * fa_block_m A + fa_block_m A" "m < fa_Sq A" and d: "d < ?D" for m d
  proof -
    have "row_holds e (score A ?c ?q (kf b h) m) (\<lambda>j d. ?vs * padded (fa_Skv A) (vf b h) j d) (fa_Skv A) ?D V rel ?err
        [0 ..< ?N * fa_block_n A] (rs ! (m - pid_m * fa_block_m A))"
      using list_all2_nthD [OF rs [unfolded rows_hold_def], of "m - pid_m * fa_block_m A"] m by simp
    from row_out_bound [OF A(1) refl this cdiv_covers [OF pos(2)] pos(3) V(1) _ d] A(2)
    show ?thesis using m by (simp add: row_def attention_element_def Let_def attention_row_padded rounds_within_def)
  qed
  have row_len: "length (row_out ?D (row m)) = ?D" if "m \<in> set ?ms" for m
  proof -
    have "length (fr_acc (rs ! (m - pid_m * fa_block_m A))) = ?D"
      using list_all2_nthD [OF rs [unfolded rows_hold_def], of "m - pid_m * fa_block_m A"] that by (auto simp: row_holds_def)
    then show ?thesis by (simp add: row_def row_out_def)
  qed
  have tile: "map2 (\<lambda>d x. (?off (fa_o_strides A) + m * st_s (fa_o_strides A) + d * st_d (fa_o_strides A), x)) [0 ..< ?D] (row_out ?D (row m))
      = map (\<lambda>d. (out_address A b h m d, row_out ?D (row m) ! d)) [0 ..< ?D]" if "m \<in> set ?ms" for m
    by (rule nth_equalityI) (simp_all add: row_len [OF that] out_address_def)
  have scales: "tl_load (fa_qs A) ?bh True 0 = Some (fa_qs A ! ?bh)" "tl_load (fa_ks A) ?bh True 0 = Some (fa_ks A ! ?bh)"
    "tl_load (fa_vs A) ?bh True 0 = Some (fa_vs A ! ?bh)"
    using lt by (simp_all add: tl_load_def len)
  have zq: "zip ?ms (map (\<lambda>m. map (?q m) [0 ..< ?D]) ?ms) = map (\<lambda>m. (m, map (?q m) [0 ..< ?D])) ?ms"
    by (simp add: zip_map2 zip_same_conv_map)
  have "flash_program A (pid_m, ?bh) = Some (concat (map (\<lambda>m.
        if m < fa_Sq A then map (\<lambda>d. (out_address A b h m d, row_out ?D (row m) ! d)) [0 ..< ?D] else []) ?ms))"
    unfolding flash_program_def Let_def prod.case pid arange_upt scales load_tile_holds [OF mem [THEN conjunct1]] option.case zq loop
      option.inject
  proof (rule arg_cong [where f = concat])
    show "map2 (\<lambda>m row. if m < fa_Sq A
        then map2 (\<lambda>d x. (?off (fa_o_strides A) + m * st_s (fa_o_strides A) + d * st_d (fa_o_strides A), x)) [0 ..< ?D] (row_out ?D row)
        else []) ?ms (map Some rs)
      = map (\<lambda>m. if m < fa_Sq A then map (\<lambda>d. (out_address A b h m d, row_out ?D (row m) ! d)) [0 ..< ?D] else []) ?ms"
      unfolding rs_row zip_map2 zip_same_conv_map map_map using tile by (intro map_cong refl) (simp add: o_def)
  qed
  with out show ?thesis by (intro exI [of _ "\<lambda>m d. row_out ?D (row m) ! d"]) blast
qed

end

text \<open>The output buffer has a place of its own for every element.\<close>

definition output_ok :: "'v flash_args \<Rightarrow> 'w list \<Rightarrow> bool" where
  "output_ok A out \<longleftrightarrow>
     (\<forall>b < fa_B A. \<forall>h < fa_H A. \<forall>m < fa_Sq A. \<forall>d < fa_block_d A. out_address A b h m d < length out
        \<and> (\<forall>b' < fa_B A. \<forall>h' < fa_H A. \<forall>m' < fa_Sq A. \<forall>d' < fa_block_d A.
             out_address A b h m d = out_address A b' h' m' d' \<longrightarrow> b = b' \<and> h = h' \<and> m = m' \<and> d = d'))"

text \<open>The addresses of the writes of one program.\<close>

definition program_cells :: "'v flash_args \<Rightarrow> nat \<times> nat \<Rightarrow> (nat \<times> nat \<times> nat \<times> nat) list" where
  "program_cells A pid =
     concat (map (\<lambda>m. if m < fa_Sq A
         then map (\<lambda>d. (snd pid div fa_H A, snd pid mod fa_H A, m, d)) [0 ..< fa_block_d A] else [])
       [fst pid * fa_block_m A ..< fst pid * fa_block_m A + fa_block_m A])"

lemma set_program_cells:
  "set (program_cells A (p, bh)) = {(b, h, m, d). b = bh div fa_H A \<and> h = bh mod fa_H A \<and> p * fa_block_m A \<le> m
     \<and> m < p * fa_block_m A + fa_block_m A \<and> m < fa_Sq A \<and> d < fa_block_d A}"
  by (auto simp: program_cells_def split: if_splits)

lemma distinct_program_cells: "distinct (program_cells A pid)"
  unfolding program_cells_def by (rule distinct_concat_map) (auto simp: distinct_map inj_on_def split: if_splits)

lemma tile_unique:
  assumes "p * n \<le> (m :: nat)" "m < p * n + n"
  shows "p = m div n"
proof -
  have "m = n * p + (m - p * n)" "m - p * n < n" using assms by (auto simp: mult.commute)
  then show ?thesis by (metis div_mult_self4 add.commute div_less add_0 not_less_zero gr_zeroI mult.commute)
qed

lemma distinct_cells:
  "distinct (concat (map (program_cells A) (flash_programs A)))"
proof (rule distinct_concat_map)
  show "distinct (flash_programs A)" by (simp add: flash_programs_def distinct_product)
  show "set (program_cells A x) \<inter> set (program_cells A y) = {}" if "x \<noteq> y" for x y
  proof -
    have cell: "x = (m div fa_block_m A, b * fa_H A + h)" if "(b, h, m, d) \<in> set (program_cells A x)" for x b h m d
      using that tile_unique [of "fst x" "fa_block_m A" m] div_mult_mod_eq [of "snd x" "fa_H A"]
      by (cases x) (auto simp: set_program_cells)
    have False if "c \<in> set (program_cells A x)" "c \<in> set (program_cells A y)" for c
    proof -
      obtain b h m d where c: "c = (b, h, m, d)" by (cases c)
      from cell [OF that(1) [unfolded c]] cell [OF that(2) [unfolded c]] \<open>x \<noteq> y\<close> show False by simp
    qed
    then show ?thesis by blast
  qed
qed (rule distinct_program_cells)

lemma cell_exists:
  assumes "b < fa_B A" "h < fa_H A" "m < fa_Sq A" "d < fa_block_d A" "fa_block_m A > 0"
  shows "(m div fa_block_m A, b * fa_H A + h) \<in> set (flash_programs A)"
    "(b, h, m, d) \<in> set (program_cells A (m div fa_block_m A, b * fa_H A + h))"
proof -
  have "m div fa_block_m A < cdiv (fa_Sq A) (fa_block_m A)"
    using less_le_trans [OF assms(3) cdiv_covers [OF assms(5)]] assms(5) div_less_iff_less_mult by blast
  with pair_bound [OF assms(1,2)] show "(m div fa_block_m A, b * fa_H A + h) \<in> set (flash_programs A)"
    by (simp add: flash_programs_def)
  have "m div fa_block_m A * fa_block_m A \<le> m" "m < m div fa_block_m A * fa_block_m A + fa_block_m A"
    using assms(5) dividend_less_div_times [of "fa_block_m A" m] by simp_all
  with assms show "(b, h, m, d) \<in> set (program_cells A (m div fa_block_m A, b * fa_H A + h))"
    unfolding set_program_cells by simp
qed

definition in_cells :: "'v flash_args \<Rightarrow> nat \<Rightarrow> bool" where
  "in_cells A a \<longleftrightarrow> (\<exists>b < fa_B A. \<exists>h < fa_H A. \<exists>m < fa_Sq A. \<exists>d < fa_block_d A. a = out_address A b h m d)"

text \<open>What is in memory after the writes, in whatever order.\<close>

definition stores_attention :: "'v::linordered_field flash_args \<Rightarrow> (nat \<Rightarrow> nat \<Rightarrow> nat \<Rightarrow> nat \<Rightarrow> 'v) \<Rightarrow> (nat \<Rightarrow> nat \<Rightarrow> nat \<Rightarrow> nat \<Rightarrow> 'v)
      \<Rightarrow> (nat \<Rightarrow> nat \<Rightarrow> nat \<Rightarrow> nat \<Rightarrow> 'v) \<Rightarrow> 'v \<Rightarrow> 'v option list \<Rightarrow> bool" where
  "stores_attention A qf kf vf tol out' \<longleftrightarrow>
     (\<forall>b < fa_B A. \<forall>h < fa_H A. \<forall>m < fa_Sq A. \<forall>d < fa_block_d A. \<exists>x. out' ! out_address A b h m d = Some x
        \<and> \<bar>x - attention_element A qf kf vf b h m d\<bar> \<le> tol)"

lemma cell_in_range:
  assumes "p \<in> set (flash_programs A)" "(b, h, m, d) \<in> set (program_cells A p)"
  shows "b < fa_B A" "h < fa_H A" "m < fa_Sq A" "d < fa_block_d A"
proof -
  obtain pm bh where p: "p = (pm, bh)" by (cases p)
  from assms(1) have bh: "bh < fa_B A * fa_H A" by (auto simp: p flash_programs_def)
  then have "fa_H A > 0" by (cases "fa_H A") auto
  with bh assms(2) show "b < fa_B A" "h < fa_H A" "m < fa_Sq A" "d < fa_block_d A"
    by (auto simp: p set_program_cells less_mult_imp_div_less)
qed

context exponential
begin

lemma flash_program_cells:
  assumes A: "fa_exp A = e" "rounds_within (fa_cast A) rel abs_err (fa_fp8_max A)"
    and ok: "inputs_ok A qf kf vf" and p: "p \<in> set (flash_programs A)"
    and V: "V \<ge> 0" "\<And>b h j d. b < fa_B A \<Longrightarrow> h < fa_H A \<Longrightarrow> j < fa_Skv A \<Longrightarrow> d < fa_block_d A \<Longrightarrow>
      \<bar>fa_vs A ! (b * fa_H A + h) * vf b h j d\<bar> \<le> V"
  shows "\<exists>f. flash_program A p = Some (map (\<lambda>(b, h, m, d). (out_address A b h m d, f m d)) (program_cells A p))
    \<and> (\<forall>b h m d. (b, h, m, d) \<in> set (program_cells A p) \<longrightarrow>
        (\<exists>x. f m d = Some x \<and> \<bar>x - attention_element A qf kf vf b h m d\<bar>
           \<le> V * (rel + of_nat (fa_Skv A) * (abs_err / fa_fp8_max A))))"
proof -
  obtain pm bh where pid: "p = (pm, bh)" by (cases p)
  let ?b = "bh div fa_H A" and ?h = "bh mod fa_H A"
  from p have bh: "bh < fa_B A * fa_H A" by (auto simp: pid flash_programs_def)
  then have "fa_H A > 0" by (cases "fa_H A") auto
  with bh have b: "?b < fa_B A" "?h < fa_H A" by (simp_all add: less_mult_imp_div_less)
  have e: "?b * fa_H A + ?h = bh" by simp
  obtain f where f: "flash_program A (pm, bh) = Some (concat (map (\<lambda>m.
        if m < fa_Sq A then map (\<lambda>d. (out_address A ?b ?h m d, f m d)) [0 ..< fa_block_d A] else [])
        [pm * fa_block_m A ..< pm * fa_block_m A + fa_block_m A]))"
    and bound: "\<forall>m. \<forall>d < fa_block_d A. pm * fa_block_m A \<le> m \<longrightarrow> m < pm * fa_block_m A + fa_block_m A \<longrightarrow> m < fa_Sq A \<longrightarrow>
        (\<exists>x. f m d = Some x \<and> \<bar>x - attention_element A qf kf vf ?b ?h m d\<bar>
           \<le> V * (rel + of_nat (fa_Skv A) * (abs_err / fa_fp8_max A)))"
    using flash_program_writes [OF A ok b V(1) V(2) [OF b], of pm] unfolding e by blast
  have "flash_program A p = Some (map (\<lambda>(b, h, m, d). (out_address A b h m d, f m d)) (program_cells A p))"
    unfolding pid f program_cells_def map_concat map_map by (auto intro!: arg_cong [where f = concat])
  with bound show ?thesis by (intro exI [of _ f]) (auto simp: pid set_program_cells)
qed

text \<open>The whole launch: no fault, every address written once, every value within the error.\<close>

lemma flash_grid:
  assumes A: "fa_exp A = e" "rounds_within (fa_cast A) rel abs_err (fa_fp8_max A)"
    and ok: "inputs_ok A qf kf vf" and out: "output_ok A out"
    and V: "V \<ge> 0" "\<And>b h j d. b < fa_B A \<Longrightarrow> h < fa_H A \<Longrightarrow> j < fa_Skv A \<Longrightarrow> d < fa_block_d A \<Longrightarrow>
      \<bar>fa_vs A ! (b * fa_H A + h) * vf b h j d\<bar> \<le> V"
  obtains ws where "flash_writes A = Some ws" "distinct (map fst ws)" "\<And>a x. (a, x) \<in> set ws \<Longrightarrow> a < length out"
    "\<And>a x. (a, x) \<in> set ws \<Longrightarrow> \<exists>b h m d. b < fa_B A \<and> h < fa_H A \<and> m < fa_Sq A \<and> d < fa_block_d A \<and> a = out_address A b h m d"
    "\<And>b h m d. b < fa_B A \<Longrightarrow> h < fa_H A \<Longrightarrow> m < fa_Sq A \<Longrightarrow> d < fa_block_d A \<Longrightarrow>
      \<exists>x. (out_address A b h m d, Some x) \<in> set ws \<and> \<bar>x - attention_element A qf kf vf b h m d\<bar>
        \<le> V * (rel + of_nat (fa_Skv A) * (abs_err / fa_fp8_max A))"
proof -
  let ?bound = "V * (rel + of_nat (fa_Skv A) * (abs_err / fa_fp8_max A))"
  let ?cells = "\<lambda>p f. flash_program A p = Some (map (\<lambda>(b, h, m, d). (out_address A b h m d, f m d)) (program_cells A p))
    \<and> (\<forall>b h m d. (b, h, m, d) \<in> set (program_cells A p) \<longrightarrow>
        (\<exists>x. f m d = Some x \<and> \<bar>x - attention_element A qf kf vf b h m d\<bar> \<le> ?bound))"
  have "\<forall>p \<in> set (flash_programs A). \<exists>f. ?cells p f"
    by (intro ballI flash_program_cells [OF A ok _ V])
  from bchoice [OF this] obtain F where cells: "\<forall>p \<in> set (flash_programs A). ?cells p (F p)" ..
  note F = cells [rule_format, THEN conjunct1]
  note bound = cells [rule_format, THEN conjunct2, rule_format]
  define ws where "ws = concat (map (\<lambda>p. map (\<lambda>(b, h, m, d). (out_address A b h m d, F p m d)) (program_cells A p)) (flash_programs A))"
  have writes: "flash_writes A = Some ws"
    unfolding flash_writes_def ws_def by (subst those_map [OF F]) simp_all
  have fst_ws: "map fst ws = map (\<lambda>(b, h, m, d). out_address A b h m d) (concat (map (program_cells A) (flash_programs A)))"
    unfolding ws_def map_concat map_map by (auto intro!: arg_cong [where f = concat])
  note place = out [unfolded output_ok_def, rule_format]
  have "inj_on (\<lambda>(b, h, m, d). out_address A b h m d) (set (concat (map (program_cells A) (flash_programs A))))"
  proof (rule inj_onI)
    fix c c' assume "c \<in> set (concat (map (program_cells A) (flash_programs A)))" "c' \<in> set (concat (map (program_cells A) (flash_programs A)))"
      and eq: "(case c of (b, h, m, d) \<Rightarrow> out_address A b h m d) = (case c' of (b, h, m, d) \<Rightarrow> out_address A b h m d)"
    then obtain p p' where p: "p \<in> set (flash_programs A)" "c \<in> set (program_cells A p)" "p' \<in> set (flash_programs A)"
      "c' \<in> set (program_cells A p')" by auto
    obtain b h m d where c1: "c = (b, h, m, d)" by (cases c)
    obtain b' h' m' d' where c2: "c' = (b', h', m', d')" by (cases c')
    note c = c1 c2
    note r = cell_in_range [OF p(1) p(2) [unfolded c]] and r' = cell_in_range [OF p(3) p(4) [unfolded c]]
    from place [OF r] r' eq show "c = c'" unfolding c prod.case by blast
  qed
  with distinct_cells have d: "distinct (map fst ws)" unfolding fst_ws by (simp add: distinct_map)
  have cell: "\<exists>b h m d. b < fa_B A \<and> h < fa_H A \<and> m < fa_Sq A \<and> d < fa_block_d A \<and> a = out_address A b h m d"
    if ax: "(a, x) \<in> set ws" for a x
  proof -
    from ax obtain p b h m d where p: "p \<in> set (flash_programs A)" "(b, h, m, d) \<in> set (program_cells A p)"
      and a: "a = out_address A b h m d"
      unfolding ws_def by (auto split: prod.splits)
    from cell_in_range [OF p] a show ?thesis by blast
  qed
  have range: "a < length out" if "(a, x) \<in> set ws" for a x
    using cell [OF that] place by blast
  have vals: "\<exists>x. (out_address A b h m d, Some x) \<in> set ws \<and> \<bar>x - attention_element A qf kf vf b h m d\<bar> \<le> ?bound"
    if bhmd: "b < fa_B A" "h < fa_H A" "m < fa_Sq A" "d < fa_block_d A" for b h m d
  proof -
    have "fa_block_m A > 0" using ok by (simp add: inputs_ok_def)
    note cell' = cell_exists [OF bhmd this]
    from bound [OF cell'] obtain x where x: "F (m div fa_block_m A, b * fa_H A + h) m d = Some x"
      "\<bar>x - attention_element A qf kf vf b h m d\<bar> \<le> ?bound" by blast
    have "(out_address A b h m d, Some x) \<in> set ws"
      unfolding ws_def set_concat set_map using cell' x(1) by force
    with x(2) show ?thesis by blast
  qed
  show thesis by (rule that [OF writes d range cell vals])
qed

lemma flash_memory:
  assumes A: "fa_exp A = e" "rounds_within (fa_cast A) rel abs_err (fa_fp8_max A)"
    and ok: "inputs_ok A qf kf vf" and out: "output_ok A out" and V: "V \<ge> 0"
      "\<forall>b < fa_B A. \<forall>h < fa_H A. \<forall>j < fa_Skv A. \<forall>d < fa_block_d A. \<bar>fa_vs A ! (b * fa_H A + h) * vf b h j d\<bar> \<le> V"
  shows "\<exists>ws out'. flash_writes A = Some ws \<and> length out' = length out
    \<and> (\<forall>ws'. mset ws' = mset ws \<longrightarrow> apply_writes ws' out = Some out')
    \<and> stores_attention A qf kf vf (V * (rel + of_nat (fa_Skv A) * (abs_err / fa_fp8_max A))) out'
    \<and> (\<forall>a. \<not> in_cells A a \<longrightarrow> out' ! a = out ! a)"
proof (rule flash_grid [OF A ok out V(1)], goal_cases)
  case (1 b h j d)
  with V(2) show ?case by blast
next
  case (2 ws)
  have "\<exists>out'. apply_writes ws out = Some out' \<and> length out' = length out
    \<and> (\<forall>a x. (a, x) \<in> set ws \<longrightarrow> out' ! a = x) \<and> (\<forall>a. a \<notin> fst ` set ws \<longrightarrow> out' ! a = out ! a)"
    by (rule apply_writes_distinct [OF 2(2)]) (rule 2(3))
  then obtain out' where out': "apply_writes ws out = Some out'" "length out' = length out"
    "\<forall>a x. (a, x) \<in> set ws \<longrightarrow> out' ! a = x" "\<forall>a. a \<notin> fst ` set ws \<longrightarrow> out' ! a = out ! a" by blast
  have order: "apply_writes ws' out = Some out'" if "mset ws' = mset ws" for ws'
    unfolding out'(1) [symmetric] by (rule apply_writes_order [OF 2(2) _ that]) (rule 2(3))
  have "stores_attention A qf kf vf (V * (rel + of_nat (fa_Skv A) * (abs_err / fa_fp8_max A))) out'"
    unfolding stores_attention_def using 2(5) out'(3) by blast
  moreover have "out' ! a = out ! a" if "\<not> in_cells A a" for a
  proof -
    have "(a, x) \<notin> set ws" for x
      using 2(4) [of a x] that unfolding in_cells_def by blast
    then have "a \<notin> fst ` set ws" by auto
    with out'(4) show ?thesis by blast
  qed
  ultimately show ?case using 2(1) out'(2) order by (intro exI [of _ ws] exI [of _ out'] conjI allI impI) auto
qed

end

interpretation real_exp: exponential "exp :: real \<Rightarrow> real"
  by unfold_locales (simp_all add: exp_add)

section \<open>Properties\<close>

lemma bounded_values:
  fixes f :: "nat \<Rightarrow> nat \<Rightarrow> nat \<Rightarrow> nat \<Rightarrow> 'v::linordered_field"
  shows "\<exists>V \<ge> 0. \<forall>b < B. \<forall>h < H. \<forall>j < S. \<forall>d < D. \<bar>f b h j d\<bar> \<le> V"
proof -
  let ?S = "insert 0 ((\<lambda>(b, h, j, d). \<bar>f b h j d\<bar>) ` ({..<B} \<times> {..<H} \<times> {..<S} \<times> {..<D}))"
  have fin: "finite ?S" by simp
  have "\<bar>f b h j d\<bar> \<le> Max ?S" if "b < B" "h < H" "j < S" "d < D" for b h j d
    using that by (intro Max_ge [OF fin]) force
  moreover have "Max ?S \<ge> 0" by (intro Max_ge [OF fin]) simp
  ultimately show ?thesis by blast
qed

text \<open>the fused kernel computes attention. For every tile shape, layout and mask, a launch on
  matrices in memory faults nowhere and stores in the place of every output element a number
  that differs from softmax attention of the 8-bit values by at most what rounding the weights
  to 8 bits can make: the relative error of the cast plus its absolute error, times the largest
  value.\<close>

theorem flash_attention_within_rounding:
  fixes A :: "real flash_args"
  assumes "fa_exp A = exp" "rounds_within (fa_cast A) rel abs_err (fa_fp8_max A)"
    and "inputs_ok A qf kf vf" "output_ok A out" "V \<ge> 0"
    and "\<forall>b < fa_B A. \<forall>h < fa_H A. \<forall>j < fa_Skv A. \<forall>d < fa_block_d A. \<bar>fa_vs A ! (b * fa_H A + h) * vf b h j d\<bar> \<le> V"
  shows "\<exists>out'. flash_launch A out = Some out' \<and> length out' = length out \<and>
    (\<forall>b < fa_B A. \<forall>h < fa_H A. \<forall>m < fa_Sq A. \<forall>d < fa_block_d A. \<exists>x. out' ! out_address A b h m d = Some x
       \<and> \<bar>x - attention_element A qf kf vf b h m d\<bar> \<le> V * (rel + of_nat (fa_Skv A) * (abs_err / fa_fp8_max A)))"
  using real_exp.flash_memory [OF assms] unfolding stores_attention_def flash_launch_def
  by (elim exE conjE) simp

text \<open>C37: the programs of a launch do not race. Their writes go to different places, so whatever the
  order and interleaving in which the device performs them, the memory afterwards is the same,
  and no access is out of range.\<close>

theorem flash_launch_is_race_free:
  fixes A :: "real flash_args"
  assumes "fa_exp A = exp" "rounds_within (fa_cast A) rel abs_err (fa_fp8_max A)"
    and "inputs_ok A qf kf vf" "output_ok A out"
  shows "\<exists>ws out'. flash_writes A = Some ws \<and> flash_launch A out = Some out'
    \<and> (\<forall>ws'. mset ws' = mset ws \<longrightarrow> apply_writes ws' out = Some out')"
proof -
  from bounded_values [of "fa_B A" "fa_H A" "fa_Skv A" "fa_block_d A" "\<lambda>b h j d. fa_vs A ! (b * fa_H A + h) * vf b h j d"]
  obtain V where "V \<ge> 0" "\<forall>b < fa_B A. \<forall>h < fa_H A. \<forall>j < fa_Skv A. \<forall>d < fa_block_d A.
      \<bar>fa_vs A ! (b * fa_H A + h) * vf b h j d\<bar> \<le> V" by blast
  from real_exp.flash_memory [OF assms this] show ?thesis
    unfolding flash_launch_def by (elim exE conjE) simp
qed

text \<open>the tile shape does not matter. Where the cast to 8 bits is exact, two launches that
  differ only in their tile shape leave the same memory behind, so the choice of the autotuner
  cannot change a result.\<close>

theorem tile_shape_does_not_matter:
  fixes A :: "real flash_args"
  assumes "fa_exp A = exp" "rounds_within (fa_cast A) 0 0 (fa_fp8_max A)"
    and "inputs_ok A qf kf vf" "output_ok A out" "bm > 0" "bn > 0"
  shows "flash_launch (A\<lparr>fa_block_m := bm, fa_block_n := bn\<rparr>) out = flash_launch A out"
proof -
  let ?B = "A\<lparr>fa_block_m := bm, fa_block_n := bn\<rparr>"
  from bounded_values [of "fa_B A" "fa_H A" "fa_Skv A" "fa_block_d A" "\<lambda>b h j d. fa_vs A ! (b * fa_H A + h) * vf b h j d"]
  obtain V where V: "V \<ge> 0" "\<forall>b < fa_B A. \<forall>h < fa_H A. \<forall>j < fa_Skv A. \<forall>d < fa_block_d A.
      \<bar>fa_vs A ! (b * fa_H A + h) * vf b h j d\<bar> \<le> V" by blast
  have addr: "out_address ?B = out_address A" by (simp add: out_address_def fun_eq_iff)
  have att: "attends ?B = attends A" by (simp add: attends_def fun_eq_iff)
  have elem: "attention_element ?B = attention_element A"
    by (intro ext) (simp add: attention_element_def attention_row_def raw_score_def att)
  have B: "inputs_ok ?B qf kf vf" "output_ok ?B out" "in_cells ?B = in_cells A"
    using assms by (simp_all add: inputs_ok_def output_ok_def in_cells_def addr fun_eq_iff)
  from real_exp.flash_memory [OF assms(1-4) V] obtain o1 where o1: "flash_launch A out = Some o1" "length o1 = length out"
    "stores_attention A qf kf vf 0 o1" "\<forall>a. \<not> in_cells A a \<longrightarrow> o1 ! a = out ! a"
    unfolding flash_launch_def by (elim exE conjE) simp
  from real_exp.flash_memory [of ?B 0 0 qf kf vf out V] assms V B
  obtain o2 where o2: "flash_launch ?B out = Some o2" "length o2 = length out"
    "stores_attention A qf kf vf 0 o2" "\<forall>a. \<not> in_cells A a \<longrightarrow> o2 ! a = out ! a"
    unfolding flash_launch_def by (auto simp: stores_attention_def addr elem)
  have "o1 ! a = o2 ! a" for a
  proof (cases "in_cells A a")
    case True
    then obtain b h m d where "b < fa_B A" "h < fa_H A" "m < fa_Sq A" "d < fa_block_d A" "a = out_address A b h m d"
      unfolding in_cells_def by blast
    with o1(3) o2(3) have "o1 ! a = Some (attention_element A qf kf vf b h m d)" "o2 ! a = Some (attention_element A qf kf vf b h m d)"
      unfolding stores_attention_def by fastforce+
    then show ?thesis by simp
  qed (use o1(4) o2(4) in simp)
  with o1(1,2) o2(1,2) show ?thesis by (auto intro: nth_equalityI)
qed

section \<open>Witnesses\<close>

definition sample_flash :: "(real \<Rightarrow> real) \<Rightarrow> real flash_args" where
  "sample_flash cast =
     \<lparr>fa_q = [0, 0, 0, 0, 0, 0], fa_k = [1, 2, 3, 4, 5, 6], fa_v = [1, 2, 3, 4, 5, 6], fa_sm_scale = 1,
      fa_qs = [1], fa_ks = [1], fa_vs = [1], fa_q_strides = \<lparr>st_b = 6, st_h = 6, st_s = 2, st_d = 1\<rparr>,
      fa_k_strides = \<lparr>st_b = 6, st_h = 6, st_s = 2, st_d = 1\<rparr>, fa_v_strides = \<lparr>st_b = 6, st_h = 6, st_s = 2, st_d = 1\<rparr>,
      fa_o_strides = \<lparr>st_b = 6, st_h = 6, st_s = 2, st_d = 1\<rparr>, fa_B = 1, fa_H = 1, fa_Sq = 3, fa_Skv = 3,
      fa_block_m = 2, fa_block_n = 2, fa_block_d = 2, fa_causal = True, fa_fp8_max = 240, fa_cast = cast, fa_exp = exp\<rparr>"

definition sample_at :: "real list \<Rightarrow> nat \<Rightarrow> nat \<Rightarrow> nat \<Rightarrow> nat \<Rightarrow> real" where
  "sample_at buf b h r d = buf ! (r * 2 + d)"

lemma sample_flash_ok:
  "fa_exp (sample_flash cast) = exp"
  "inputs_ok (sample_flash cast) (sample_at [0, 0, 0, 0, 0, 0]) (sample_at [1, 2, 3, 4, 5, 6]) (sample_at [1, 2, 3, 4, 5, 6])"
  "output_ok (sample_flash cast) (replicate 6 None)"
  by (auto simp: sample_flash_def inputs_ok_def holds_def sample_at_def output_ok_def out_address_def) presburger+

lemma sample_casts: "rounds_within (\<lambda>x :: real. of_int \<lfloor>x\<rfloor>) 0 1 240" "rounds_within (\<lambda>x :: real. x) 0 0 240"
proof -
  have "\<bar>of_int \<lfloor>x\<rfloor> - x\<bar> \<le> 1" for x :: real by linarith
  then show "rounds_within (\<lambda>x :: real. of_int \<lfloor>x\<rfloor>) 0 1 240" by (simp add: rounds_within_def)
qed (simp add: rounds_within_def)

theorem flash_attention_within_rounding_witness:
  "\<exists>out' x. flash_launch (sample_flash (\<lambda>x. of_int \<lfloor>x\<rfloor>)) (replicate 6 None) = Some out' \<and> out' ! 2 = Some x \<and> \<bar>x - 2\<bar> \<le> 3 / 40"
proof -
  let ?A = "sample_flash (\<lambda>x. of_int \<lfloor>x\<rfloor>)"
  have r: "rounds_within (fa_cast ?A) 0 1 (fa_fp8_max ?A)" using sample_casts(1) by (simp add: sample_flash_def)
  have V: "\<forall>b < fa_B ?A. \<forall>h < fa_H ?A. \<forall>j < fa_Skv ?A. \<forall>d < fa_block_d ?A.
      \<bar>fa_vs ?A ! (b * fa_H ?A + h) * sample_at [1, 2, 3, 4, 5, 6] b h j d\<bar> \<le> 6"
    by (auto simp: sample_flash_def sample_at_def less_Suc_eq numeral_eq_Suc)
  obtain out' where "flash_launch ?A (replicate 6 None) = Some out'" and
    cells: "\<forall>b < fa_B ?A. \<forall>h < fa_H ?A. \<forall>m < fa_Sq ?A. \<forall>d < fa_block_d ?A. \<exists>x. out' ! out_address ?A b h m d = Some x
       \<and> \<bar>x - attention_element ?A (sample_at [0, 0, 0, 0, 0, 0]) (sample_at [1, 2, 3, 4, 5, 6]) (sample_at [1, 2, 3, 4, 5, 6]) b h m d\<bar>
         \<le> 6 * (0 + of_nat (fa_Skv ?A) * (1 / fa_fp8_max ?A))"
    by (rule exE [OF flash_attention_within_rounding [OF sample_flash_ok(1) r sample_flash_ok(2,3) zero_le_numeral V]]) blast
  moreover have "attention_element ?A (sample_at [0, 0, 0, 0, 0, 0]) (sample_at [1, 2, 3, 4, 5, 6]) (sample_at [1, 2, 3, 4, 5, 6]) 0 0 1 0 = 2"
    by (simp add: attention_element_def attention_row_def raw_score_def attends_def sample_flash_def sample_at_def upt_rec numeral_eq_Suc)
  moreover have "out_address ?A 0 0 1 0 = 2" by (simp add: out_address_def sample_flash_def)
  moreover have "fa_B ?A = 1" "fa_H ?A = 1" "fa_Sq ?A = 3" "fa_Skv ?A = 3" "fa_block_d ?A = 2" "fa_fp8_max ?A = 240"
    by (simp_all add: sample_flash_def)
  ultimately show ?thesis using cells [rule_format, of 0 0 1 0] by auto
qed

theorem flash_launch_is_race_free_witness:
  "\<exists>ws out'. flash_writes (sample_flash (\<lambda>x. of_int \<lfloor>x\<rfloor>)) = Some ws \<and> apply_writes (rev ws) (replicate 6 None) = Some out'
    \<and> flash_launch (sample_flash (\<lambda>x. of_int \<lfloor>x\<rfloor>)) (replicate 6 None) = Some out'"
proof -
  let ?A = "sample_flash (\<lambda>x. of_int \<lfloor>x\<rfloor>)"
  have "rounds_within (fa_cast ?A) 0 1 (fa_fp8_max ?A)" using sample_casts(1) by (simp add: sample_flash_def)
  from flash_launch_is_race_free [OF sample_flash_ok(1) this sample_flash_ok(2,3)] obtain ws out' where
    "flash_writes ?A = Some ws" "flash_launch ?A (replicate 6 None) = Some out'"
    "\<forall>ws'. mset ws' = mset ws \<longrightarrow> apply_writes ws' (replicate 6 None) = Some out'" by (elim exE conjE)
  then show ?thesis by simp
qed

theorem tile_shape_does_not_matter_witness:
  "flash_launch ((sample_flash (\<lambda>x. x))\<lparr>fa_block_m := 4, fa_block_n := 1\<rparr>) (replicate 6 None)
     = flash_launch (sample_flash (\<lambda>x. x)) (replicate 6 None)"
proof -
  have "rounds_within (fa_cast (sample_flash (\<lambda>x. x))) 0 0 (fa_fp8_max (sample_flash (\<lambda>x. x)))"
    using sample_casts(2) by (simp add: sample_flash_def)
  then show ?thesis by (rule tile_shape_does_not_matter [OF sample_flash_ok(1) _ sample_flash_ok(2,3)]) simp_all
qed

end
