(* ===== verification/FlashLaunch.thy ===== *)
theory FlashLaunch
  imports FlashKernel AttentionCalls Json
begin

text \<open>
  The host side of the three kernel files in \<open>kernels/triton_kernels/\<close>: 8-bit quantization with one
  scale per batch and head, the grid of tile shapes, the cache of tuned configurations on disk,
  and \<open>fp8_flash_attention\<close>, which launches the kernel of \<open>FlashKernel\<close>. The files differ in a few
  constants (\<open>cdna3\<close>, \<open>hopper\<close>, \<open>ada\<close>). Triton is a parameter: which configuration its autotuner
  picks, which configurations it can compile. So are the JSON codec, the casts and the layout
  that \<open>torch.empty_like\<close> chooses. Tensors have no empty axis.
\<close>

section \<open>Configurations\<close>

record flash_config =
  fc_block_m :: nat
  fc_block_n :: nat
  fc_knobs :: "(string \<times> int) list"
  fc_warps :: nat
  fc_stages :: nat

definition tile_config :: "nat \<times> nat \<Rightarrow> (string \<times> int) list \<Rightarrow> nat \<Rightarrow> nat \<Rightarrow> flash_config" where
  "tile_config t knobs nw ns =
     \<lparr>fc_block_m = fst t, fc_block_n = snd t, fc_knobs = knobs, fc_warps = nw, fc_stages = ns\<rparr>"

definition amd_knob_names :: "string list" where
  "amd_knob_names = [''matrix_instr_nonkdim'', ''kpack'', ''waves_per_eu'']"

text \<open>The fields of \<open>HIPOptions\<close> where Triton has its AMD backend.\<close>

definition supported_amd_knobs :: "string list option \<Rightarrow> string list" where
  "supported_amd_knobs declared =
     (case declared of None \<Rightarrow> [] | Some fs \<Rightarrow> filter (\<lambda>n. n \<in> set fs) amd_knob_names)"

definition env_on :: "string option \<Rightarrow> bool" where
  "env_on v = (case v of None \<Rightarrow> False | Some s \<Rightarrow> s \<in> {''1'', ''true'', ''on''})"

definition amd_variants :: "string list \<Rightarrow> (string \<times> int) list list" where
  "amd_variants knobs =
     (if ''matrix_instr_nonkdim'' \<in> set knobs then [[(''matrix_instr_nonkdim'', 16)], [(''matrix_instr_nonkdim'', 32)]] else [])
     @ (if ''kpack'' \<in> set knobs then [[(''kpack'', 2)]] else [])
     @ (if ''waves_per_eu'' \<in> set knobs then [[(''waves_per_eu'', 2)]] else [])"

definition small_tiles :: "(nat \<times> nat) list" where
  "small_tiles = [(64, 64), (64, 128), (128, 64), (128, 128), (128, 256), (256, 64), (256, 128)]"

definition cdna3_configs :: "string list option \<Rightarrow> string option \<Rightarrow> flash_config list" where
  "cdna3_configs declared tune =
     concat (map (\<lambda>(bm, bn).
       if bm < 32 \<or> bn < 32 then [] else if bm * bn > 256 * 256 then []
       else concat (map (\<lambda>nw. if nw = 8 \<and> bm * bn < 128 * 64 then [] else map (tile_config (bm, bn) [] nw) [2]) [4, 8]))
       (small_tiles @ [(256, 256)]))
     @ concat (map (\<lambda>nw. [tile_config (128, 64) [] nw 3, tile_config (256, 128) [] nw 3]) [4, 8])
     @ (let knobs = if env_on tune then supported_amd_knobs declared else []
        in if knobs = [] then []
           else concat (map (\<lambda>t. concat (map (\<lambda>nw. map (\<lambda>extra. tile_config t extra nw 2) (amd_variants knobs)) [4, 8]))
             [(128, 64), (256, 128)]))"

definition hopper_configs :: "flash_config list" where
  "hopper_configs =
     concat (map (\<lambda>(bm, bn).
       if bm < 32 \<or> bn < 32 then [] else if bm * bn > 256 * 256 then []
       else concat (map (\<lambda>nw.
         if nw = 4 \<and> bm * bn > 64 * 64 then [] else if nw = 8 \<and> bm * bn < 64 * 128 then []
         else concat (map (\<lambda>ns. if ns = 5 \<and> bm * bn > 192 * 256 then [] else [tile_config (bm, bn) [] nw ns]) [2, 3, 4, 5])) [4, 8]))
       (small_tiles @ [(256, 256)]))"

definition ada_configs :: "flash_config list" where
  "ada_configs =
     concat (map (\<lambda>(bm, bn).
       if bm < 32 \<or> bn < 32 then [] else if bm * bn > 256 * 128 then []
       else concat (map (\<lambda>nw. if nw = 8 \<and> bm * bn < 128 * 64 then [] else map (tile_config (bm, bn) [] nw) [2, 3]) [4, 8]))
       small_tiles)"

definition config_dict :: "int \<Rightarrow> int \<Rightarrow> int \<Rightarrow> int \<Rightarrow> (string \<times> json) list" where
  "config_dict bm bn nw ns =
     [(''BLOCK_M'', JInt bm), (''BLOCK_N'', JInt bn), (''num_warps'', JInt nw), (''num_stages'', JInt ns)]"

text \<open>What distinguishes one kernel file from another.\<close>

record kernel_file =
  kf_fp8_max :: real
  kf_cache_env :: string
  kf_cache_name :: string
  kf_fallback :: "(string \<times> json) list"
  kf_configs :: "flash_config list"
  kf_knobs :: "string list"

definition cdna3 :: "string list option \<Rightarrow> string option \<Rightarrow> kernel_file" where
  "cdna3 declared tune =
     \<lparr>kf_fp8_max = 240, kf_cache_env = ''REPERCEP_FP8_AUTOTUNE_CACHE'', kf_cache_name = ''fp8_autotune.json'',
      kf_fallback = config_dict 128 64 4 2, kf_configs = cdna3_configs declared tune, kf_knobs = amd_knob_names\<rparr>"

definition hopper :: kernel_file where
  "hopper =
     \<lparr>kf_fp8_max = 448, kf_cache_env = ''REPERCEP_FP8_AUTOTUNE_CACHE_HOPPER'', kf_cache_name = ''fp8_autotune_hopper.json'',
      kf_fallback = config_dict 128 128 8 3, kf_configs = hopper_configs, kf_knobs = []\<rparr>"

definition ada :: kernel_file where
  "ada =
     \<lparr>kf_fp8_max = 448, kf_cache_env = ''REPERCEP_FP8_AUTOTUNE_CACHE_ADA'', kf_cache_name = ''fp8_autotune_ada.json'',
      kf_fallback = config_dict 128 64 4 2, kf_configs = ada_configs, kf_knobs = []\<rparr>"

section \<open>The cache on disk\<close>

datatype disk_file = Missing | Unreadable | Undecodable | Text string

record cache_host =
  ch_env :: "string \<Rightarrow> string option"
  ch_home :: string
  ch_files :: "string \<Rightarrow> disk_file"
  ch_write_error :: "exn option"

record flash_lib =
  ln_loads :: decoder
  ln_dumps :: encoder
  ln_cast8 :: "real \<Rightarrow> real"
  ln_to_dtype :: "real \<Rightarrow> real"
  ln_compiles :: "(string \<times> json) list \<Rightarrow> bool"
  ln_pick :: "nat \<Rightarrow> nat \<Rightarrow> nat \<Rightarrow> bool \<Rightarrow> flash_config list \<Rightarrow> flash_config"
  ln_best_exposed :: bool
  ln_out_strides :: "nat \<Rightarrow> nat \<Rightarrow> nat \<Rightarrow> nat \<Rightarrow> strides"
  ln_empty :: "nat \<Rightarrow> nat \<Rightarrow> nat \<Rightarrow> nat \<Rightarrow> real option list"

definition cache_path :: "kernel_file \<Rightarrow> cache_host \<Rightarrow> string" where
  "cache_path K ho =
     (let standard = ch_home ho @ ''/.cache/repercep/'' @ kf_cache_name K
      in case ch_env ho (kf_cache_env K) of None \<Rightarrow> standard | Some s \<Rightarrow> if s = [] then standard else s)"

text \<open>\<open>json.load\<close> on bytes that are not UTF-8 raises \<open>UnicodeDecodeError\<close>, which is not caught.\<close>

definition cache_load :: "flash_lib \<Rightarrow> kernel_file \<Rightarrow> cache_host \<Rightarrow> exn + (string \<times> json) list" where
  "cache_load L K ho =
     (case ch_files ho (cache_path K ho) of
        Missing \<Rightarrow> Inr []
      | Unreadable \<Rightarrow> Inr []
      | Undecodable \<Rightarrow> Inl (OtherException ''UnicodeDecodeError'')
      | Text s \<Rightarrow> (case ln_loads L s of
          None \<Rightarrow> Inr []
        | Some doc \<Rightarrow> (case as_obj doc of None \<Rightarrow> Inr [] | Some d \<Rightarrow> Inr d)))"

definition cache_save :: "flash_lib \<Rightarrow> kernel_file \<Rightarrow> (string \<times> json) list \<Rightarrow> cache_host \<Rightarrow> cache_host \<times> (exn + unit)" where
  "cache_save L K cache ho =
     (case ch_write_error ho of
        Some x \<Rightarrow> (ho, Inl x)
      | None \<Rightarrow> (ho\<lparr>ch_files := (ch_files ho)(cache_path K ho := Text (ln_dumps L (JObj cache)))\<rparr>, Inr ()))"

definition cache_key :: "nat \<Rightarrow> nat \<Rightarrow> nat \<Rightarrow> nat \<Rightarrow> nat \<Rightarrow> bool \<Rightarrow> string" where
  "cache_key B H Sq Skv D causal =
     ''B'' @ nat_str B @ ''_H'' @ nat_str H @ ''_Sq'' @ nat_str Sq @ ''_Skv'' @ nat_str Skv @ ''_D'' @ nat_str D
       @ ''_C'' @ nat_str (of_bool causal)"

definition resolve_config ::
    "flash_lib \<Rightarrow> kernel_file \<Rightarrow> nat \<Rightarrow> nat \<Rightarrow> nat \<Rightarrow> nat \<Rightarrow> nat \<Rightarrow> bool \<Rightarrow> cache_host \<Rightarrow> exn + (string \<times> json) list" where
  "resolve_config L K B H Sq Skv D causal ho =
     (case cache_load L K ho of
        Inl x \<Rightarrow> Inl x
      | Inr cache \<Rightarrow> Inr
          (case map_of cache (cache_key B H Sq Skv D causal) of
             Some (JObj cached) \<Rightarrow>
               if list_all (\<lambda>k. k \<in> fst ` set cached) [''BLOCK_M'', ''BLOCK_N'', ''num_warps'', ''num_stages''] then cached else []
           | _ \<Rightarrow> []))"

definition record_config ::
    "flash_lib \<Rightarrow> kernel_file \<Rightarrow> nat \<Rightarrow> nat \<Rightarrow> nat \<Rightarrow> nat \<Rightarrow> nat \<Rightarrow> bool \<Rightarrow> (string \<times> json) list \<Rightarrow> cache_host
      \<Rightarrow> cache_host \<times> (exn + unit)" where
  "record_config L K B H Sq Skv D causal cfg ho =
     (case cache_load L K ho of
        Inl x \<Rightarrow> (ho, Inl x)
      | Inr cache \<Rightarrow> cache_save L K (AList.update (cache_key B H Sq Skv D causal) (JObj cfg) cache) ho)"

section \<open>Quantization\<close>

text \<open>One scale per batch and head: \<open>x\<close> is the list of their matrices.\<close>

definition bh_amax :: "real list list \<Rightarrow> real" where
  "bh_amax m = max (foldr (\<lambda>x a. max \<bar>x\<bar> a) (concat m) 0) (1 / 1000000)"

definition per_bh_scale :: "kernel_file \<Rightarrow> real t4 \<Rightarrow> real list" where
  "per_bh_scale K x = map (\<lambda>m. bh_amax m / (95 / 100 * kf_fp8_max K)) (concat x)"

definition quantize_element :: "flash_lib \<Rightarrow> kernel_file \<Rightarrow> real \<Rightarrow> real \<Rightarrow> real" where
  "quantize_element L K s e = ln_cast8 L (min (max (e * (1 / s)) (- kf_fp8_max K)) (kf_fp8_max K))"

definition quantize8 :: "flash_lib \<Rightarrow> kernel_file \<Rightarrow> real t4 \<Rightarrow> real list \<Rightarrow> real list list list" where
  "quantize8 L K x scales = map2 (\<lambda>m s. map (map (quantize_element L K s)) m) (concat x) scales"

section \<open>The entry point\<close>

definition seq_of :: "'v t4 \<Rightarrow> nat" where
  "seq_of x = length (hd (hd x))"

definition shape4 :: "'v t4 \<Rightarrow> nat \<times> nat \<times> nat \<times> nat" where
  "shape4 x = (length x, heads_of x, seq_of x, channels_of x)"

definition contiguous :: "nat \<Rightarrow> nat \<Rightarrow> nat \<Rightarrow> strides" where
  "contiguous H S D = \<lparr>st_b = H * S * D, st_h = S * D, st_s = D, st_d = 1\<rparr>"

definition launch_args ::
    "flash_lib \<Rightarrow> kernel_file \<Rightarrow> real t4 \<Rightarrow> real t4 \<Rightarrow> real t4 \<Rightarrow> bool \<Rightarrow> real \<Rightarrow> nat \<Rightarrow> nat \<Rightarrow> real flash_args" where
  "launch_args L K q k v causal sm bm bn =
     (let H = heads_of q; S = seq_of q; D = channels_of q; st = contiguous H S D;
          buf = (\<lambda>x. concat (concat (quantize8 L K x (per_bh_scale K x))))
      in \<lparr>fa_q = buf q, fa_k = buf k, fa_v = buf v, fa_sm_scale = sm,
          fa_qs = per_bh_scale K q, fa_ks = per_bh_scale K k, fa_vs = per_bh_scale K v,
          fa_q_strides = st, fa_k_strides = st, fa_v_strides = st, fa_o_strides = ln_out_strides L (length q) H S D,
          fa_B = length q, fa_H = H, fa_Sq = S, fa_Skv = seq_of k, fa_block_m = bm, fa_block_n = bn, fa_block_d = D,
          fa_causal = causal, fa_fp8_max = kf_fp8_max K, fa_cast = ln_cast8 L, fa_exp = exp\<rparr>)"

text \<open>\<open>out.to(q.dtype)\<close>, read back in logical order.\<close>

definition read_out :: "flash_lib \<Rightarrow> real flash_args \<Rightarrow> real option list \<Rightarrow> real option t4" where
  "read_out L A out =
     map (\<lambda>b. map (\<lambda>h. map (\<lambda>m. map (\<lambda>d. map_option (ln_to_dtype L) (out ! out_address A b h m d))
       [0 ..< fa_block_d A]) [0 ..< fa_Sq A]) [0 ..< fa_H A]) [0 ..< fa_B A]"

definition run_kernel ::
    "flash_lib \<Rightarrow> kernel_file \<Rightarrow> real t4 \<Rightarrow> real t4 \<Rightarrow> real t4 \<Rightarrow> bool \<Rightarrow> real \<Rightarrow> nat \<times> nat \<Rightarrow> exn + real option t4" where
  "run_kernel L K q k v causal sm tile =
     (let A = launch_args L K q k v causal sm (fst tile) (snd tile)
      in case flash_launch A (ln_empty L (fa_B A) (fa_H A) (fa_Sq A) (fa_block_d A)) of
           None \<Rightarrow> Inl (OtherException ''memory fault'')
         | Some out \<Rightarrow> Inr (read_out L A out))"

text \<open>The tile shape of a cached or fallback configuration; a value that is no positive integer makes
  the launch fail, as does a configuration Triton cannot compile.\<close>

definition config_tile :: "(string \<times> json) list \<Rightarrow> (nat \<times> nat) option" where
  "config_tile cfg =
     (case (as_int (jget cfg ''BLOCK_M''), as_int (jget cfg ''BLOCK_N'')) of
        (Some m, Some n) \<Rightarrow> if m > 0 \<and> n > 0 then Some (nat m, nat n) else None
      | _ \<Rightarrow> None)"

definition fixed_launch ::
    "flash_lib \<Rightarrow> kernel_file \<Rightarrow> real t4 \<Rightarrow> real t4 \<Rightarrow> real t4 \<Rightarrow> bool \<Rightarrow> real \<Rightarrow> (string \<times> json) list \<Rightarrow> exn + real option t4" where
  "fixed_launch L K q k v causal sm cfg =
     (case config_tile cfg of
        None \<Rightarrow> Inl (OtherException ''TypeError'')
      | Some tile \<Rightarrow> if ln_compiles L cfg then run_kernel L K q k v causal sm tile
                     else Inl (OtherException ''CompilationError''))"

definition winner :: "kernel_file \<Rightarrow> flash_config \<Rightarrow> (string \<times> json) list" where
  "winner K best =
     config_dict (int (fc_block_m best)) (int (fc_block_n best)) (int (fc_warps best)) (int (fc_stages best))
     @ concat (map (\<lambda>k. case map_of (fc_knobs best) k of None \<Rightarrow> [] | Some x \<Rightarrow> [(k, JInt x)]) (kf_knobs K))"

definition fp8_flash_attention ::
    "flash_lib \<Rightarrow> kernel_file \<Rightarrow> real t4 \<Rightarrow> real t4 \<Rightarrow> real t4 \<Rightarrow> bool \<Rightarrow> real option \<Rightarrow> cache_host
      \<Rightarrow> cache_host \<times> (exn + real option t4)" where
  "fp8_flash_attention L K q k v causal scale ho =
     (if \<not> (shape4 q = shape4 k \<and> shape4 k = shape4 v) then (ho, Inl AssertionError)
      else let B = length q; H = heads_of q; Sq = seq_of q; D = channels_of q; Skv = seq_of k in
        if D \<notin> {32, 64, 128, 256} then (ho, Inl AssertionError)
        else let sm = (case scale of None \<Rightarrow> 1 / sqrt (real D) | Some x \<Rightarrow> x) in
          if env_on (ch_env ho ''REPERCEP_FP8_DISABLE_AUTOTUNE'') then
            (ho, fixed_launch L K q k v causal sm (kf_fallback K))
          else case resolve_config L K B H Sq Skv D causal ho of
            Inl x \<Rightarrow> (ho, Inl x)
          | Inr cfg \<Rightarrow>
              if cfg \<noteq> [] then (ho, fixed_launch L K q k v causal sm cfg)
              else let best = ln_pick L Sq D H causal (kf_configs K) in
                case run_kernel L K q k v causal sm (fc_block_m best, fc_block_n best) of
                  Inl x \<Rightarrow> (ho, Inl x)
                | Inr out \<Rightarrow>
                    if ln_best_exposed L then
                      (case record_config L K B H Sq Skv D causal (winner K best) ho of
                         (ho', Inl x) \<Rightarrow> (ho', Inl x)
                       | (ho', Inr _) \<Rightarrow> (ho', Inr out))
                    else (ho, Inr out))"

text \<open>The three files' entry points.\<close>

definition cdna3_attention where
  "cdna3_attention L declared tune = fp8_flash_attention L (cdna3 declared tune)"

definition hopper_attention where
  "hopper_attention L = fp8_flash_attention L hopper"

definition ada_attention where
  "ada_attention L = fp8_flash_attention L ada"

section \<open>Lemmas\<close>

subsection \<open>Keys\<close>

definition digits_value :: "string \<Rightarrow> nat" where
  "digits_value s = foldl (\<lambda>a c. a * 10 + (of_char c - 48)) 0 s"

lemma digits_value_nat_str: "digits_value (nat_str n) = n"
proof (induction n rule: nat_str.induct)
  case (1 n)
  show ?case
  proof (cases "n < 10")
    case True
    then show ?thesis by (simp add: nat_str.simps [of n] digits_value_def of_char_digit_char)
  next
    case False
    with 1 show ?thesis by (simp add: nat_str.simps [of n] digits_value_def of_char_digit_char)
  qed
qed

lemma nat_str_inject [simp]: "nat_str m = nat_str n \<longleftrightarrow> m = n"
  by (metis digits_value_nat_str)

lemma nat_str_then:
  assumes "\<not> is_digit c" "nat_str m @ c # s = nat_str n @ c # t"
  shows "m = n \<and> s = t"
proof -
  have "c \<notin> set (nat_str m)" "c \<notin> set (nat_str n)" using nat_str_digits assms(1) by blast+
  then have "(nat_str m, s) = (nat_str n, t)" using assms(2) by (metis partition_at_first)
  then show ?thesis by simp
qed

lemma cache_key_inject:
  assumes "cache_key B H Sq Skv D c = cache_key B' H' Sq' Skv' D' c'"
  shows "B = B' \<and> H = H' \<and> Sq = Sq' \<and> Skv = Skv' \<and> D = D' \<and> c = c'"
proof -
  have u: "\<not> is_digit (CHR ''_'')" by (simp add: is_digit_def)
  from assms have "nat_str B @ CHR ''_'' # ''H'' @ nat_str H @ ''_Sq'' @ nat_str Sq @ ''_Skv'' @ nat_str Skv @ ''_D'' @ nat_str D
       @ ''_C'' @ nat_str (of_bool c)
     = nat_str B' @ CHR ''_'' # ''H'' @ nat_str H' @ ''_Sq'' @ nat_str Sq' @ ''_Skv'' @ nat_str Skv' @ ''_D'' @ nat_str D'
       @ ''_C'' @ nat_str (of_bool c')"
    by (simp add: cache_key_def)
  note 1 = nat_str_then [OF u this]
  then have "nat_str H @ CHR ''_'' # ''Sq'' @ nat_str Sq @ ''_Skv'' @ nat_str Skv @ ''_D'' @ nat_str D @ ''_C'' @ nat_str (of_bool c)
     = nat_str H' @ CHR ''_'' # ''Sq'' @ nat_str Sq' @ ''_Skv'' @ nat_str Skv' @ ''_D'' @ nat_str D' @ ''_C'' @ nat_str (of_bool c')"
    by simp
  note 2 = nat_str_then [OF u this]
  then have "nat_str Sq @ CHR ''_'' # ''Skv'' @ nat_str Skv @ ''_D'' @ nat_str D @ ''_C'' @ nat_str (of_bool c)
     = nat_str Sq' @ CHR ''_'' # ''Skv'' @ nat_str Skv' @ ''_D'' @ nat_str D' @ ''_C'' @ nat_str (of_bool c')" by simp
  note 3 = nat_str_then [OF u this]
  then have "nat_str Skv @ CHR ''_'' # ''D'' @ nat_str D @ ''_C'' @ nat_str (of_bool c)
     = nat_str Skv' @ CHR ''_'' # ''D'' @ nat_str D' @ ''_C'' @ nat_str (of_bool c')" by simp
  note 4 = nat_str_then [OF u this]
  then have "nat_str D @ CHR ''_'' # ''C'' @ nat_str (of_bool c) = nat_str D' @ CHR ''_'' # ''C'' @ nat_str (of_bool c')" by simp
  note 5 = nat_str_then [OF u this]
  then have "c = c'" by (cases c; cases c') simp_all
  with 1 2 3 4 5 show ?thesis by blast
qed

subsection \<open>The cache\<close>

text \<open>The codec reads back a document it has written.\<close>

definition codec_ok :: "flash_lib \<Rightarrow> (string \<times> json) list \<Rightarrow> bool" where
  "codec_ok L d \<longleftrightarrow> ln_loads L (ln_dumps L (JObj d)) = Some (JObj d)"

lemma cache_path_save: "cache_path K (fst (cache_save L K cache ho)) = cache_path K ho"
  by (auto simp: cache_save_def cache_path_def Let_def split: option.splits)

lemma load_saved:
  assumes "codec_ok L cache" "ch_write_error ho = None"
  shows "cache_load L K (fst (cache_save L K cache ho)) = Inr cache"
  unfolding cache_load_def cache_path_save using assms by (simp add: cache_save_def codec_ok_def)

lemma record_config_cases:
  assumes "ch_write_error ho = None" "cache_load L K ho = Inr cache"
  shows "record_config L K B H Sq Skv D causal cfg ho
    = cache_save L K (AList.update (cache_key B H Sq Skv D causal) (JObj cfg) cache) ho"
    "snd (record_config L K B H Sq Skv D causal cfg ho) = Inr ()"
  using assms by (simp_all add: record_config_def cache_save_def)

lemma resolve_recorded:
  assumes "codec_ok L (AList.update (cache_key B H Sq Skv D causal) (JObj cfg) cache)" "ch_write_error ho = None"
    and "cache_load L K ho = Inr cache"
  shows "resolve_config L K B' H' Sq' Skv' D' causal' (fst (record_config L K B H Sq Skv D causal cfg ho))
    = (if (B', H', Sq', Skv', D', causal') = (B, H, Sq, Skv, D, causal)
       then Inr (if list_all (\<lambda>k. k \<in> fst ` set cfg) [''BLOCK_M'', ''BLOCK_N'', ''num_warps'', ''num_stages''] then cfg else [])
       else resolve_config L K B' H' Sq' Skv' D' causal' ho)"
proof -
  have "cache_load L K (fst (record_config L K B H Sq Skv D causal cfg ho))
      = Inr (AList.update (cache_key B H Sq Skv D causal) (JObj cfg) cache)"
    unfolding record_config_cases(1) [OF assms(2,3)] by (rule load_saved [OF assms(1,2)])
  moreover have "cache_key B' H' Sq' Skv' D' causal' \<noteq> cache_key B H Sq Skv D causal"
    if "(B', H', Sq', Skv', D', causal') \<noteq> (B, H, Sq, Skv, D, causal)"
    using that cache_key_inject [of B' H' Sq' Skv' D' causal' B H Sq Skv D causal] by blast
  ultimately show ?thesis by (auto simp: resolve_config_def map_of_AList_update assms(3))
qed

subsection \<open>The grids\<close>

definition grid_ok :: "flash_config \<Rightarrow> bool" where
  "grid_ok c \<longleftrightarrow> fc_block_m c \<in> {64, 128, 256} \<and> fc_block_n c \<in> {64, 128, 256} \<and> fc_block_n c \<le> 2 * fc_block_m c
     \<and> fc_warps c \<in> {4, 8} \<and> 2 \<le> fc_stages c \<and> fc_stages c \<le> 5"

lemma cdna3_grid_default: "\<not> env_on tune \<Longrightarrow> list_all grid_ok (cdna3_configs declared tune) \<and> length (cdna3_configs declared tune) = 19
    \<and> distinct (cdna3_configs declared tune)"
  by (simp add: cdna3_configs_def small_tiles_def tile_config_def grid_ok_def)

lemma nvidia_grids:
  "list_all grid_ok hopper_configs \<and> length hopper_configs = 31 \<and> distinct hopper_configs"
  "list_all grid_ok ada_configs \<and> length ada_configs = 26 \<and> distinct ada_configs"
  by (simp_all add: hopper_configs_def ada_configs_def small_tiles_def tile_config_def grid_ok_def)

lemma cdna3_grid: "list_all grid_ok (cdna3_configs declared tune)"
proof -
  have "list_all grid_ok (concat (map (\<lambda>t. concat (map (\<lambda>nw. map (\<lambda>extra. tile_config t extra nw 2) vs) [4, 8])) [(128, 64), (256, 128)]))"
    for vs by (auto simp: list_all_iff tile_config_def grid_ok_def)
  then have extra: "list_all grid_ok (let knobs = if env_on tune then supported_amd_knobs declared else []
        in if knobs = [] then []
           else concat (map (\<lambda>t. concat (map (\<lambda>nw. map (\<lambda>extra. tile_config t extra nw 2) (amd_variants knobs)) [4, 8]))
             [(128, 64), (256, 128)]))"
    unfolding Let_def by (cases "(if env_on tune then supported_amd_knobs declared else []) = []") (simp_all only: if_True if_False simp_thms list.pred_inject(1))
  have "list_all grid_ok (cdna3_configs declared None)" using cdna3_grid_default [of None] by (simp add: env_on_def)
  then show ?thesis using extra unfolding cdna3_configs_def list_all_append by blast
qed

subsection \<open>Quantized tensors in memory\<close>

lemma nth_concat_rect:
  "\<forall>xs \<in> set xss. length xs = n \<Longrightarrow> i < length xss \<Longrightarrow> j < n \<Longrightarrow> concat xss ! (i * n + j) = xss ! i ! j"
proof (induction xss arbitrary: i)
  case (Cons xs xss)
  then show ?case by (cases i) (auto simp: nth_append)
qed simp

lemma length_concat_rect: "\<forall>xs \<in> set xss. length xs = n \<Longrightarrow> length (concat xss) = length xss * n"
  by (induction xss) auto

lemma rect4_nth:
  assumes "rect4 b h s d x" "i < b" "j < h"
  shows "length (concat x) = b * h" "concat x ! (i * h + j) = x ! i ! j"
  using assms nth_concat_rect [of x h i j] length_concat_rect [of x h] by (auto simp: rect4_def rect2_def)

lemma rect4_concat:
  assumes "rect4 b h s d x" "m \<in> set (concat x)"
  shows "length m = s" "\<forall>r \<in> set m. length r = d"
  using assms by (auto simp: rect4_def rect2_def)

text \<open>The 8-bit value and what it stands for.\<close>

definition value8 :: "flash_lib \<Rightarrow> kernel_file \<Rightarrow> real t4 \<Rightarrow> nat \<Rightarrow> nat \<Rightarrow> nat \<Rightarrow> nat \<Rightarrow> real" where
  "value8 L K x i j m e = quantize_element L K (per_bh_scale K x ! (i * heads_of x + j)) (x ! i ! j ! m ! e)"

definition dequantized :: "flash_lib \<Rightarrow> kernel_file \<Rightarrow> real t4 \<Rightarrow> nat \<Rightarrow> nat \<Rightarrow> nat \<Rightarrow> nat \<Rightarrow> real" where
  "dequantized L K x i j m e = per_bh_scale K x ! (i * heads_of x + j) * value8 L K x i j m e"

lemma quantized_in_memory:
  assumes x: "rect4 b h s d x" and pos: "b > 0" "h > 0" "s > 0" and i: "i < b" "j < h"
  shows "holds (concat (concat (quantize8 L K x (per_bh_scale K x)))) (i * (h * s * d) + j * (s * d)) d 1 s d (value8 L K x i j)"
proof -
  let ?G = "quantize8 L K x (per_bh_scale K x)"
  have heads: "heads_of x = h" using rect4_heads [OF x pos] by simp
  have bh: "i * h + j < b * h" using i by (rule pair_bound)
  have len: "length (concat x) = b * h" "length (per_bh_scale K x) = b * h" "length ?G = b * h"
    using rect4_nth(1) [OF x i] by (simp_all add: per_bh_scale_def quantize8_def)
  have G: "?G ! n = map (map (quantize_element L K (per_bh_scale K x ! n))) (concat x ! n)" if "n < b * h" for n
    using that len by (simp add: quantize8_def)
  have Gs: "\<forall>m \<in> set ?G. length m = s" and Gr: "\<forall>r \<in> set (concat ?G). length r = d"
    using rect4_concat [OF x] by (auto simp: quantize8_def dest!: set_zip_leftD)
  have lenG: "length (concat ?G) = b * h * s" using length_concat_rect [OF Gs] len by simp
  show ?thesis unfolding holds_def
  proof (intro allI impI conjI)
    fix r e assume r: "r < s" and e: "e < d"
    have row: "(i * h + j) * s + r < b * h * s" using bh r by (rule pair_bound)
    have addr: "i * (h * s * d) + j * (s * d) + r * d + e * 1 = ((i * h + j) * s + r) * d + e" by (simp add: algebra_simps)
    show "i * (h * s * d) + j * (s * d) + r * d + e * 1 < length (concat (concat ?G))"
      unfolding addr length_concat_rect [OF Gr] lenG using row e by (rule pair_bound)
    have "concat (concat ?G) ! (((i * h + j) * s + r) * d + e) = concat ?G ! ((i * h + j) * s + r) ! e"
      using nth_concat_rect [OF Gr _ e, of "(i * h + j) * s + r"] row lenG by simp
    also have "concat ?G ! ((i * h + j) * s + r) = ?G ! (i * h + j) ! r"
      using nth_concat_rect [OF Gs _ r, of "i * h + j"] bh len by simp
    also have "\<dots> ! e = value8 L K x i j r e"
    proof -
      have "concat x ! (i * h + j) \<in> set (concat x)" by (rule nth_mem) (use bh len in simp)
      note R = rect4_concat [OF x this]
      then have "length (concat x ! (i * h + j) ! r) = d" using r by simp
      with R r e show ?thesis by (simp add: G [OF bh] value8_def heads rect4_nth(2) [OF x i])
    qed
    finally show "concat (concat ?G) ! (i * (h * s * d) + j * (s * d) + r * d + e * 1) = value8 L K x i j r e"
      unfolding addr .
  qed
qed

lemma bh_amax_pos: "bh_amax m > 0"
  by (simp add: bh_amax_def)

lemma bh_amax_le:
  assumes "\<forall>r \<in> set m. \<forall>e \<in> set r. \<bar>e\<bar> \<le> W" "1 / 1000000 \<le> W"
  shows "bh_amax m \<le> W"
proof -
  have "foldr (\<lambda>x a. max \<bar>x\<bar> a) es 0 \<le> W" if "\<forall>e \<in> set es. \<bar>e\<bar> \<le> W" for es :: "real list"
    using that assms(2) by (induction es) auto
  then show ?thesis using assms unfolding bh_amax_def by auto
qed

lemma bh_amax_upper:
  assumes "r \<in> set m" "e \<in> set r"
  shows "\<bar>e\<bar> \<le> bh_amax m"
proof -
  have "\<bar>e\<bar> \<le> foldr (\<lambda>x a. max \<bar>x\<bar> a) es 0" if "e \<in> set es" for es :: "real list"
    using that by (induction es) auto
  from this [of "concat m"] assms show ?thesis unfolding bh_amax_def by (auto simp: le_max_iff_disj)
qed

section \<open>The launch\<close>

text \<open>Softmax attention of one element, on matrices given as functions.\<close>

definition softmax_attention :: "real \<Rightarrow> bool \<Rightarrow> nat \<Rightarrow> nat \<Rightarrow> (nat \<Rightarrow> nat \<Rightarrow> real) \<Rightarrow> (nat \<Rightarrow> nat \<Rightarrow> real) \<Rightarrow> (nat \<Rightarrow> nat \<Rightarrow> real) \<Rightarrow> nat \<Rightarrow> nat \<Rightarrow> real" where
  "softmax_attention sm causal S D qf kf vf m e =
     (let js = filter (\<lambda>n. causal \<longrightarrow> n \<le> m) [0 ..< S]; w = (\<lambda>n. exp (sm * sum_list (map (\<lambda>d. qf m d * kf n d) [0 ..< D])))
      in sum_list (map (\<lambda>n. w n * vf n e) js) / sum_list (map w js))"

definition tab4 :: "nat \<Rightarrow> nat \<Rightarrow> nat \<Rightarrow> nat \<Rightarrow> (nat \<Rightarrow> nat \<Rightarrow> nat \<Rightarrow> nat \<Rightarrow> 'a) \<Rightarrow> 'a t4" where
  "tab4 b h s d f = map (\<lambda>i. map (\<lambda>j. map (\<lambda>m. map (f i j m) [0 ..< d]) [0 ..< s]) [0 ..< h]) [0 ..< b]"

lemma tab4_cong:
  "(\<And>i j m e. i < b \<Longrightarrow> j < h \<Longrightarrow> m < s \<Longrightarrow> e < d \<Longrightarrow> f i j m e = g i j m e) \<Longrightarrow> tab4 b h s d f = tab4 b h s d g"
  by (simp add: tab4_def)

text \<open>The layout of the output tensor: \<open>empty_like\<close> gives every element a place.\<close>

definition layout_ok :: "flash_lib \<Rightarrow> nat \<Rightarrow> nat \<Rightarrow> nat \<Rightarrow> nat \<Rightarrow> bool" where
  "layout_ok L B H S D \<longleftrightarrow>
     (let st = ln_out_strides L B H S D; addr = (\<lambda>b h m d. b * st_b st + h * st_h st + m * st_s st + d * st_d st) in
      (\<forall>b < B. \<forall>h < H. \<forall>m < S. \<forall>d < D. addr b h m d < length (ln_empty L B H S D)
        \<and> (\<forall>b' < B. \<forall>h' < H. \<forall>m' < S. \<forall>d' < D.
             addr b h m d = addr b' h' m' d' \<longrightarrow> b = b' \<and> h = h' \<and> m = m' \<and> d = d')))"

text \<open>A cast to 8 bits never leaves the range of the type.\<close>

definition casts_ok :: "flash_lib \<Rightarrow> kernel_file \<Rightarrow> real \<Rightarrow> real \<Rightarrow> bool" where
  "casts_ok L K rel abs_err \<longleftrightarrow> rounds_within (ln_cast8 L) rel abs_err (kf_fp8_max K)
     \<and> (\<forall>x. \<bar>x\<bar> \<le> kf_fp8_max K \<longrightarrow> \<bar>ln_cast8 L x\<bar> \<le> kf_fp8_max K)"

lemma rect4_seq: "rect4 b h s d x \<Longrightarrow> b > 0 \<Longrightarrow> h > 0 \<Longrightarrow> seq_of x = s"
proof -
  assume r: "rect4 b h s d x" "b > 0" "h > 0"
  then obtain m ms where x: "x = m # ms" by (cases x) (auto simp: rect4_def)
  with r obtain t ts where "m = t # ts" by (cases m) (auto simp: rect4_def rect2_def)
  with x r show ?thesis by (simp add: seq_of_def rect4_def rect2_def)
qed

lemma value_bound:
  assumes x: "rect4 b h s d x" and pos: "b > 0" "h > 0" "s > 0" and i: "i < b" "j < h"
    and casts: "casts_ok L K rel abs_err"
    and W: "1 / 1000000 \<le> W" "\<forall>m \<in> set (concat x). \<forall>r \<in> set m. \<forall>e \<in> set r. \<bar>e\<bar> \<le> W"
  shows "\<bar>dequantized L K x i j m e\<bar> \<le> W / (95 / 100)"
proof -
  let ?M = "kf_fp8_max K" and ?n = "i * heads_of x + j"
  have M: "?M > 0" using casts by (simp add: casts_ok_def rounds_within_def)
  have heads: "heads_of x = h" using rect4_heads [OF x pos] by simp
  have n: "?n < length (concat x)" using pair_bound [OF i] rect4_nth(1) [OF x i] heads by simp
  then have scale: "per_bh_scale K x ! ?n = bh_amax (concat x ! ?n) / (95 / 100 * ?M)" by (simp add: per_bh_scale_def)
  have "concat x ! ?n \<in> set (concat x)" by (rule nth_mem [OF n])
  with W have a: "bh_amax (concat x ! ?n) \<le> W" by (intro bh_amax_le) auto
  have "\<bar>min (max y (- ?M)) ?M\<bar> \<le> ?M" for y using M by auto
  then have v: "\<bar>value8 L K x i j m e\<bar> \<le> ?M"
    using casts by (simp add: value8_def quantize_element_def casts_ok_def)
  have "\<bar>dequantized L K x i j m e\<bar> = bh_amax (concat x ! ?n) / (95 / 100 * ?M) * \<bar>value8 L K x i j m e\<bar>"
    using M bh_amax_pos [of "concat x ! ?n"] by (simp add: dequantized_def scale abs_mult)
  also have "\<dots> \<le> W / (95 / 100 * ?M) * ?M"
    using a v M W(1) bh_amax_pos [of "concat x ! ?n"] by (intro mult_mono divide_right_mono) auto
  also have "\<dots> = W / (95 / 100)" using M by simp
  finally show ?thesis .
qed

lemma run_kernel_attention:
  assumes r: "rect4 b h s d q" "rect4 b h s d k" "rect4 b h s d v" and pos: "b > 0" "h > 0" "s > 0"
    and tile: "fst tile > 0" "snd tile > 0" and casts: "casts_ok L K rel abs_err" and lay: "layout_ok L b h s d"
    and W: "1 / 1000000 \<le> W" "\<forall>m \<in> set (concat v). \<forall>r \<in> set m. \<forall>e \<in> set r. \<bar>e\<bar> \<le> W"
  shows "\<exists>F. run_kernel L K q k v causal sm tile = Inr (tab4 b h s d (\<lambda>i j m e. Some (ln_to_dtype L (F i j m e))))
    \<and> (\<forall>i < b. \<forall>j < h. \<forall>m < s. \<forall>e < d.
         \<bar>F i j m e - softmax_attention sm causal s d (dequantized L K q i j) (dequantized L K k i j) (dequantized L K v i j) m e\<bar>
           \<le> W / (95 / 100) * (rel + real s * (abs_err / kf_fp8_max K)))"
proof -
  define A where "A = launch_args L K q k v causal sm (fst tile) (snd tile)"
  let ?out = "ln_empty L b h s d"
  have dims: "length q = b" "heads_of q = h" "heads_of k = h" "heads_of v = h" "seq_of q = s" "seq_of k = s" "channels_of q = d"
    using r pos rect4_heads [OF r(1) pos] rect4_heads [OF r(2) pos] rect4_heads [OF r(3) pos] rect4_seq [OF r(1)] rect4_seq [OF r(2)]
    by (simp_all add: rect4_def)
  have A: "fa_B A = b" "fa_H A = h" "fa_Sq A = s" "fa_Skv A = s" "fa_block_d A = d" "fa_exp A = exp" "fa_cast A = ln_cast8 L"
    "fa_fp8_max A = kf_fp8_max K" "fa_sm_scale A = sm" "fa_causal A = causal" "fa_vs A = per_bh_scale K v" "fa_qs A = per_bh_scale K q"
    "fa_ks A = per_bh_scale K k"
    by (simp_all add: A_def launch_args_def Let_def dims)
  have scales: "length (per_bh_scale K x) = b * h" if "rect4 b h s d x" for x
    using rect4_nth(1) [OF that pos(1,2)] by (simp add: per_bh_scale_def)
  have ok: "inputs_ok A (value8 L K q) (value8 L K k) (value8 L K v)"
    unfolding inputs_ok_def using quantized_in_memory [OF _ pos, where d = d and K = K and L = L] r pos tile scales
    by (simp add: A_def launch_args_def Let_def dims contiguous_def)
  have out: "output_ok A ?out"
    using lay by (simp add: output_ok_def layout_ok_def out_address_def A_def launch_args_def Let_def dims)
  have V: "\<forall>i < fa_B A. \<forall>j < fa_H A. \<forall>m < fa_Skv A. \<forall>e < fa_block_d A. \<bar>fa_vs A ! (i * fa_H A + j) * value8 L K v i j m e\<bar> \<le> W / (95 / 100)"
    using value_bound [OF r(3) pos _ _ casts W] by (simp add: A dequantized_def dims)
  have "W / (95 / 100) \<ge> 0" using W(1) by simp
  from real_exp.flash_memory [OF A(6) _ ok out this V, of rel abs_err] casts
  obtain out' where launch: "flash_launch A ?out = Some out'"
    and st: "stores_attention A (value8 L K q) (value8 L K k) (value8 L K v) (W / (95 / 100) * (rel + real s * (abs_err / kf_fp8_max K))) out'"
    unfolding flash_launch_def by (auto simp: casts_ok_def A)
  define F where "F = (\<lambda>i j m e. the (out' ! out_address A i j m e))"
  have elem: "attention_element A (value8 L K q) (value8 L K k) (value8 L K v) i j m e
      = softmax_attention sm causal s d (dequantized L K q i j) (dequantized L K k i j) (dequantized L K v i j) m e" for i j m e
  proof -
    have raw: "raw_score A (sm * per_bh_scale K q ! (i * h + j) * per_bh_scale K k ! (i * h + j)) (value8 L K q i j) (value8 L K k i j) m n
        = sm * sum_list (map (\<lambda>d. dequantized L K q i j m d * dequantized L K k i j n d) [0 ..< d])" for n
      unfolding raw_score_def A sum_list_mult_const [symmetric] sum_list_const_mult [symmetric]
      by (simp add: dequantized_def dims mult_ac)
    have js: "filter (attends A m) [0 ..< s] = filter (\<lambda>n. causal \<longrightarrow> n \<le> m) [0 ..< s]"
      by (rule filter_cong) (auto simp: attends_def A)
    show ?thesis
      unfolding attention_element_def attention_row_def softmax_attention_def Let_def A raw js
      by (simp add: dequantized_def dims)
  qed
  have at: "out' ! out_address A i j m e = Some (F i j m e) \<and> \<bar>F i j m e - softmax_attention sm causal s d (dequantized L K q i j)
        (dequantized L K k i j) (dequantized L K v i j) m e\<bar> \<le> W / (95 / 100) * (rel + real s * (abs_err / kf_fp8_max K))"
    if "i < b" "j < h" "m < s" "e < d" for i j m e
    using st that unfolding stores_attention_def A elem F_def by fastforce
  have "read_out L A out' = tab4 b h s d (\<lambda>i j m e. Some (ln_to_dtype L (F i j m e)))"
    unfolding read_out_def A tab4_def [symmetric] using at by (intro tab4_cong) simp
  with at launch show ?thesis
    by (intro exI [of _ F]) (simp add: run_kernel_def A_def [symmetric] A)
qed

text \<open>What the launch needs of Triton and of the disk: usable configurations, a readable and writable cache.\<close>

definition usable :: "flash_lib \<Rightarrow> (string \<times> json) list \<Rightarrow> bool" where
  "usable L cfg \<longleftrightarrow> config_tile cfg \<noteq> None \<and> ln_compiles L cfg"

definition flash_ready :: "flash_lib \<Rightarrow> kernel_file \<Rightarrow> nat \<Rightarrow> nat \<Rightarrow> nat \<Rightarrow> nat \<Rightarrow> bool \<Rightarrow> cache_host \<Rightarrow> bool" where
  "flash_ready L K B H S D causal ho \<longleftrightarrow>
     ch_write_error ho = None \<and> ch_files ho (cache_path K ho) \<noteq> Undecodable \<and> ln_compiles L (kf_fallback K) \<and>
     (\<forall>cfg. resolve_config L K B H S S D causal ho = Inr cfg \<longrightarrow> cfg = [] \<or> usable L cfg) \<and>
     ln_pick L S D H causal (kf_configs K) \<in> set (kf_configs K)"

definition kernel_files :: "kernel_file set" where
  "kernel_files = {hopper, ada} \<union> {cdna3 declared tune | declared tune. True}"

lemma kernel_files_cases:
  assumes "K \<in> kernel_files"
  shows "list_all grid_ok (kf_configs K)" "config_tile (kf_fallback K) \<noteq> None" "kf_fp8_max K > 0"
  using assms nvidia_grids cdna3_grid
  by (auto simp: kernel_files_def hopper_def ada_def cdna3_def config_tile_def config_dict_def jget_def)

lemma config_tile_pos: "config_tile cfg = Some tile \<Longrightarrow> fst tile > 0 \<and> snd tile > 0"
  by (auto simp: config_tile_def split: option.splits if_splits)

lemma fixed_launch_usable:
  assumes "usable L cfg"
  obtains tile where "fst tile > 0" "snd tile > 0"
    "fixed_launch L K q k v causal sm cfg = run_kernel L K q k v causal sm tile"
proof -
  from assms obtain tile where t: "config_tile cfg = Some tile" "ln_compiles L cfg" by (auto simp: usable_def)
  from config_tile_pos [OF t(1)] t show thesis by (intro that [of tile]) (simp_all add: fixed_launch_def)
qed

lemma cache_load_ready: "ch_files ho (cache_path K ho) \<noteq> Undecodable \<Longrightarrow> \<exists>cache. cache_load L K ho = Inr cache"
  by (auto simp: cache_load_def split: disk_file.splits option.splits)

text \<open>A call runs the kernel with some tile shape, and only the disk knows which.\<close>

lemma entry_runs_kernel:
  assumes K: "K \<in> kernel_files" and ready: "flash_ready L K (length q) (heads_of q) (seq_of q) (channels_of q) causal ho"
    and shapes: "shape4 q = shape4 k" "shape4 k = shape4 v" and D: "channels_of q \<in> {32, 64, 128, 256}"
    and runs: "\<And>tile. fst tile > 0 \<Longrightarrow> snd tile > 0 \<Longrightarrow>
      \<exists>out. run_kernel L K q k v causal (case scale of None \<Rightarrow> 1 / sqrt (real (channels_of q)) | Some x \<Rightarrow> x) tile = Inr out"
  obtains tile ho' where "fst tile > 0" "snd tile > 0"
    "fp8_flash_attention L K q k v causal scale ho
      = (ho', run_kernel L K q k v causal (case scale of None \<Rightarrow> 1 / sqrt (real (channels_of q)) | Some x \<Rightarrow> x) tile)"
proof -
  let ?sm = "case scale of None \<Rightarrow> 1 / sqrt (real (channels_of q)) | Some x \<Rightarrow> x"
  let ?B = "length q" and ?H = "heads_of q" and ?S = "seq_of q" and ?D = "channels_of q"
  have S: "seq_of k = ?S" using shapes by (simp add: shape4_def)
  from ready obtain cache where load: "cache_load L K ho = Inr cache"
    unfolding flash_ready_def by (meson cache_load_ready)
  then obtain cfg where cfg: "resolve_config L K ?B ?H ?S ?S ?D causal ho = Inr cfg"
    by (simp add: resolve_config_def)
  note entry = fp8_flash_attention_def [of L K q k v causal scale ho, unfolded Let_def S cfg sum.case]
  show thesis
  proof (cases "env_on (ch_env ho ''REPERCEP_FP8_DISABLE_AUTOTUNE'')")
    case True
    from ready kernel_files_cases(2) [OF K] have "usable L (kf_fallback K)" by (simp add: usable_def flash_ready_def)
    then obtain tile where "fst tile > 0" "snd tile > 0" "fixed_launch L K q k v causal ?sm (kf_fallback K) = run_kernel L K q k v causal ?sm tile"
      by (rule fixed_launch_usable)
    with True shapes D show thesis by (intro that [of tile ho]) (simp_all add: entry)
  next
    case no_env: False
    show thesis
    proof (cases "cfg = []")
      case False
      with ready cfg have "usable L cfg" by (auto simp: flash_ready_def)
      then obtain tile where "fst tile > 0" "snd tile > 0" "fixed_launch L K q k v causal ?sm cfg = run_kernel L K q k v causal ?sm tile"
        by (rule fixed_launch_usable)
      with no_env False shapes D show thesis by (intro that [of tile ho]) (simp_all add: entry)
    next
      case True
      let ?best = "ln_pick L ?S ?D ?H causal (kf_configs K)"
      have "grid_ok ?best" using ready kernel_files_cases(1) [OF K] by (auto simp: flash_ready_def list_all_iff)
      then have tile: "fst (fc_block_m ?best, fc_block_n ?best) > 0" "snd (fc_block_m ?best, fc_block_n ?best) > 0"
        by (auto simp: grid_ok_def)
      from runs [OF tile] obtain out where out: "run_kernel L K q k v causal ?sm (fc_block_m ?best, fc_block_n ?best) = Inr out" ..
      obtain ho' where "record_config L K ?B ?H ?S ?S ?D causal (winner K ?best) ho = (ho', Inr ())"
        using record_config_cases(2) [OF _ load] ready by (metis flash_ready_def prod.collapse)
      with no_env True shapes D out show thesis
        by (intro that [OF tile, of "if ln_best_exposed L then ho' else ho"]) (simp_all add: entry)
    qed
  qed
qed

section \<open>Properties\<close>

text \<open>C36: the fused attention of each of the three kernel files is softmax attention. For equally
  shaped tensors of a compiled head width, whatever the cache on disk and the autotuner choose,
  the call returns, and every element differs from the attention of the dequantized tensors by
  at most the rounding of the softmax weights to 8 bits, times the largest value.\<close>

theorem fp8_attention_is_softmax_attention:
  assumes "K \<in> kernel_files" "flash_ready L K b h s d causal ho"
    and "rect4 b h s d q" "rect4 b h s d k" "rect4 b h s d v" "b > 0" "h > 0" "s > 0" "d \<in> {32, 64, 128, 256}"
    and "casts_ok L K rel abs_err" "layout_ok L b h s d"
    and "1 / 1000000 \<le> W" "\<forall>m \<in> set (concat v). \<forall>r \<in> set m. \<forall>e \<in> set r. \<bar>e\<bar> \<le> W"
  shows "\<exists>F. snd (fp8_flash_attention L K q k v causal scale ho) = Inr (tab4 b h s d (\<lambda>i j m e. Some (ln_to_dtype L (F i j m e))))
    \<and> (\<forall>i < b. \<forall>j < h. \<forall>m < s. \<forall>e < d.
         \<bar>F i j m e - softmax_attention (case scale of None \<Rightarrow> 1 / sqrt (real d) | Some x \<Rightarrow> x) causal s d
             (dequantized L K q i j) (dequantized L K k i j) (dequantized L K v i j) m e\<bar>
           \<le> W / (95 / 100) * (rel + real s * (abs_err / kf_fp8_max K)))"
proof -
  have dims: "length q = b" "heads_of q = h" "seq_of q = s" "channels_of q = d" and shapes: "shape4 q = shape4 k" "shape4 k = shape4 v"
    using rect4_heads [OF assms(3,6,7,8)] rect4_heads [OF assms(4,6,7,8)] rect4_heads [OF assms(5,6,7,8)]
      rect4_seq [OF assms(3,6,7)] rect4_seq [OF assms(4,6,7)] rect4_seq [OF assms(5,6,7)] assms(3-5)
    by (simp_all add: shape4_def rect4_def)
  note run = run_kernel_attention [OF assms(3-8) _ _ assms(10-13)]
  obtain tile ho' where t: "fst tile > 0" "snd tile > 0" "fp8_flash_attention L K q k v causal scale ho
      = (ho', run_kernel L K q k v causal (case scale of None \<Rightarrow> 1 / sqrt (real (channels_of q)) | Some x \<Rightarrow> x) tile)"
  proof (rule entry_runs_kernel [OF assms(1) _ shapes])
    show "flash_ready L K (length q) (heads_of q) (seq_of q) (channels_of q) causal ho" unfolding dims by (rule assms(2))
    show "channels_of q \<in> {32, 64, 128, 256}" unfolding dims by (rule assms(9))
    show "\<exists>out. run_kernel L K q k v causal (case scale of None \<Rightarrow> 1 / sqrt (real (channels_of q)) | Some x \<Rightarrow> x) tile = Inr out"
      if "fst tile > 0" "snd tile > 0" for tile using run [OF that] by blast
  qed
  show ?thesis unfolding t(3) [unfolded dims] snd_conv by (rule run [OF t(1,2)])
qed



text \<open>the three search grids keep the constraints their comments state: tiles of powers of two of at
  least 32, at most twice as many columns as rows, 4 or 8 warps; they hold 19, 31 and 26
  configurations, none twice.\<close>

theorem search_grids_are_well_formed:
  "list_all grid_ok (cdna3_configs declared None) \<and> length (cdna3_configs declared None) = 19 \<and> distinct (cdna3_configs declared None)
   \<and> list_all grid_ok (cdna3_configs declared tune)
   \<and> list_all grid_ok hopper_configs \<and> length hopper_configs = 31 \<and> distinct hopper_configs
   \<and> list_all grid_ok ada_configs \<and> length ada_configs = 26 \<and> distinct ada_configs"
  using cdna3_grid_default [of None declared] cdna3_grid [of declared tune] nvidia_grids by (simp add: env_on_def)


section \<open>Witnesses\<close>

definition sample_launch :: flash_lib where
  "sample_launch =
     \<lparr>ln_loads = (\<lambda>s. Some (JObj [(s, JObj (config_dict 64 64 4 2))])), ln_dumps = (\<lambda>d. cache_key 1 1 2 2 32 False),
      ln_cast8 = (\<lambda>x. x), ln_to_dtype = (\<lambda>x. x), ln_compiles = (\<lambda>cfg. True), ln_pick = (\<lambda>s d h c cfgs. hd cfgs),
      ln_best_exposed = True, ln_out_strides = (\<lambda>B H S D. contiguous H S D), ln_empty = (\<lambda>B H S D. replicate (B * H * S * D) None)\<rparr>"

definition blank_host :: cache_host where
  "blank_host = \<lparr>ch_env = (\<lambda>v. None), ch_home = ''/root'', ch_files = (\<lambda>p. Missing), ch_write_error = None\<rparr>"

definition pinned_host :: cache_host where
  "pinned_host = blank_host\<lparr>ch_env := (\<lambda>v. if v = ''REPERCEP_FP8_DISABLE_AUTOTUNE'' then Some ''1'' else None)\<rparr>"

definition zeros :: "real t4" where
  "zeros = [[[replicate 32 0, replicate 32 0]]]"

definition ones_and_threes :: "real t4" where
  "ones_and_threes = [[[replicate 32 1, replicate 32 3]]]"

lemma sample_tensors: "rect4 1 1 2 32 zeros" "rect4 1 1 2 32 ones_and_threes"
  by (simp_all add: zeros_def ones_and_threes_def rect4_def rect2_def)

lemma sample_casts_ok: "casts_ok sample_launch (cdna3 None None) 0 0"
  by (simp add: casts_ok_def rounds_within_def sample_launch_def cdna3_def)

lemma row_major_unique:
  fixes d d' n :: nat
  assumes "m * n + d = m' * n + d'" "d < n" "d' < n"
  shows "m = m' \<and> d = d'"
proof -
  have "(m * n + d) div n = m" "(m' * n + d') div n = m'" using assms(2,3) by simp_all
  with assms(1) show ?thesis by simp
qed

lemma sample_layout: "layout_ok sample_launch 1 1 2 32"
proof -
  have "m * 32 + d < 64" if "m < 2" "d < 32" for m d :: nat using that by linarith
  then show ?thesis
    unfolding layout_ok_def Let_def by (simp add: sample_launch_def contiguous_def) (intro allI impI, erule row_major_unique [THEN conjunct2], assumption+)
qed

lemma sample_kernel_file: "cdna3 None None \<in> kernel_files"
  by (auto simp: kernel_files_def)

lemma cdna3_first: "hd (cdna3_configs None None) \<in> set (cdna3_configs None None)"
  using cdna3_grid_default [of None None] by (intro hd_in_set) (auto simp: env_on_def)

lemma sample_ready:
  "flash_ready sample_launch (cdna3 None None) 1 1 2 32 False blank_host"
  "flash_ready (sample_launch\<lparr>ln_pick := (\<lambda>s d h c cfgs. hd cfgs), ln_best_exposed := False\<rparr>) (cdna3 None None) 1 1 2 32 False pinned_host"
  using cdna3_first
  by (simp_all add: flash_ready_def sample_launch_def blank_host_def pinned_host_def resolve_config_def cache_load_def cdna3_def)

lemma sample_values: "\<forall>m \<in> set (concat ones_and_threes). \<forall>r \<in> set m. \<forall>e \<in> set r. \<bar>e\<bar> \<le> 3"
  by (simp add: ones_and_threes_def)

theorem fp8_attention_is_softmax_attention_witness:
  "\<exists>F. snd (fp8_flash_attention sample_launch (cdna3 None None) zeros zeros ones_and_threes False None blank_host)
      = Inr (tab4 1 1 2 32 (\<lambda>i j m e. Some (ln_to_dtype sample_launch (F i j m e)))) \<and> F 0 0 0 0 = 2"
proof -
  let ?L = sample_launch and ?K = "cdna3 None None"
  obtain F where F: "snd (fp8_flash_attention ?L ?K zeros zeros ones_and_threes False None blank_host)
      = Inr (tab4 1 1 2 32 (\<lambda>i j m e. Some (ln_to_dtype ?L (F i j m e))))"
    and b: "\<forall>i < 1. \<forall>j < 1. \<forall>m < 2. \<forall>e < 32.
         \<bar>F i j m e - softmax_attention (case None of None \<Rightarrow> 1 / sqrt (real 32) | Some x \<Rightarrow> x) False 2 32
             (dequantized ?L ?K zeros i j) (dequantized ?L ?K zeros i j) (dequantized ?L ?K ones_and_threes i j) m e\<bar>
           \<le> 3 / (95 / 100) * (0 + real 2 * (0 / kf_fp8_max ?K))"
    by (rule exE [OF fp8_attention_is_softmax_attention [OF sample_kernel_file sample_ready(1) sample_tensors(1,1,2)
        _ _ _ _ sample_casts_ok sample_layout _ sample_values, of None]]) (simp, simp, simp, simp, simp, blast)
  have zero: "dequantized ?L ?K zeros 0 0 m d = 0" if "m < 2" "d < 32" for m d
    using that by (auto simp: dequantized_def value8_def quantize_element_def zeros_def sample_launch_def cdna3_def less_Suc_eq numeral_2_eq_2)
  have scale: "per_bh_scale ?K ones_and_threes = [3 / 228]"
    by (simp add: per_bh_scale_def ones_and_threes_def bh_amax_def cdna3_def eval_nat_numeral)
  have vals: "dequantized ?L ?K ones_and_threes 0 0 0 0 = 1" "dequantized ?L ?K ones_and_threes 0 0 (Suc 0) 0 = 3"
    by (simp_all add: dequantized_def value8_def quantize_element_def scale sample_launch_def)
      (simp_all add: ones_and_threes_def heads_of_def cdna3_def)
  have "softmax_attention sm False 2 32 (dequantized ?L ?K zeros 0 0) (dequantized ?L ?K zeros 0 0) (dequantized ?L ?K ones_and_threes 0 0) 0 0 = 2" for sm
  proof -
    have m: "map (\<lambda>d. dequantized ?L ?K zeros 0 0 0 d * dequantized ?L ?K zeros 0 0 n d) [0 ..< 32] = map (\<lambda>d. 0) [0 ..< 32]" for n
      by (rule map_cong) (simp_all add: zero)
    have "sum_list (map (\<lambda>d. dequantized ?L ?K zeros 0 0 0 d * dequantized ?L ?K zeros 0 0 n d) [0 ..< 32]) = 0" for n
      by (rule trans [OF arg_cong [OF m, where f = sum_list]]) simp
    moreover have "[0 ..< 2] = [0, 1 :: nat]" by (simp add: upt_rec)
    ultimately show ?thesis unfolding softmax_attention_def Let_def by (simp add: vals)
  qed
  with b have "F 0 0 0 0 = 2" by simp
  with F show ?thesis by blast
qed




end
