(* ===== verification/DiffusersBridge.thy ===== *)
theory DiffusersBridge
  imports AttentionCalls
begin

text \<open>
  The bridges from diffusers' attention dispatcher to the operations of the package
  (\<open>attention/diffusers_backend.py\<close>, \<open>attention/diffusers_backend_amx.py\<close>,
  \<open>attention/wan_processor.py\<close>): the routing of one call, the operations a bridge keeps between
  calls, its registration in the dispatcher's tables, and the installation on Wan's transformers.
  diffusers passes tensors with the sequence before the heads. torch's attention with all its
  arguments, its finiteness test, the dispatcher's \<open>set_active_backend\<close> and the transformers'
  \<open>set_attn_processor\<close> are parameters.
\<close>

section \<open>Calls\<close>

datatype 'v attn_mask = Mask2 "'v list list" | Mask3 "'v list list list" | Mask4 "'v t4"

record 'v attn_call =
  dc_query :: "'v t4"
  dc_key :: "'v t4"
  dc_value :: "'v t4"
  dc_dtype :: dtype
  dc_on_cuda :: bool
  dc_mask :: "'v attn_mask option"
  dc_dropout :: rat
  dc_causal :: bool
  dc_scale :: "'v option"
  dc_gqa :: bool
  dc_return_lse :: bool
  dc_parallel :: bool

record ('v, 'm) bridge_lib =
  bl_attn :: "('v, 'm) attn_lib"
  bl_sdpa :: "'v t4 \<Rightarrow> 'v t4 \<Rightarrow> 'v t4 \<Rightarrow> 'v attn_mask option \<Rightarrow> rat \<Rightarrow> bool \<Rightarrow> 'v option \<Rightarrow> bool \<Rightarrow> exn + 'v t4"
  bl_finite :: "'v \<Rightarrow> bool"
  bl_to_dtype :: "dtype \<Rightarrow> 'v \<Rightarrow> 'v"

text \<open>The operations kept on function attributes: \<open>bs_fa_op\<close> is \<open>Some None\<close> once the flash
  operation could not be built.\<close>

record bridge_ops =
  bs_fa_op :: "attention_op option option"
  bs_fp8_op :: "attention_op option"
  bs_amx_op :: "attention_op option"

definition no_ops :: bridge_ops where
  "no_ops = \<lparr>bs_fa_op = None, bs_fp8_op = None, bs_amx_op = None\<rparr>"

definition shape_of :: "'v t4 \<Rightarrow> nat \<times> nat \<times> nat \<times> nat" where
  "shape_of x = (length x, length (hd x), length (hd (hd x)), channels_of x)"

definition fp8_supported_head_dims :: "nat list" where
  "fp8_supported_head_dims = [32, 64, 128, 256]"

definition fp8_min_seq_len :: nat where
  "fp8_min_seq_len = 4096"

definition route_should_use_fp8 :: "'v attn_call \<Rightarrow> bool" where
  "route_should_use_fp8 c =
     (if dc_dtype c \<notin> {BF16, FP16} then False
      else if shape_of (dc_query c) \<noteq> shape_of (dc_key c) \<or> shape_of (dc_query c) \<noteq> shape_of (dc_value c) then False
      else if channels_of (dc_query c) \<notin> set fp8_supported_head_dims then False
      else length (hd (dc_query c)) \<ge> fp8_min_seq_len)"

text \<open>A mask per batch and key is broadcast over heads and queries.\<close>

definition expand_mask :: "'v attn_call \<Rightarrow> 'v attn_mask option" where
  "expand_mask c =
     (case dc_mask c of
        Some (Mask2 m) \<Rightarrow>
          (if length m = length (dc_query c) \<and> length (hd m) = length (hd (dc_key c))
           then Some (Mask4 (map (\<lambda>r. [[r]]) m)) else Some (Mask2 m))
      | other \<Rightarrow> other)"

definition sdpa_call :: "('v, 'm) bridge_lib \<Rightarrow> 'v attn_call \<Rightarrow> exn + 'v t4" where
  "sdpa_call L c =
     (case bl_sdpa L (swap_heads_seq (dc_query c)) (swap_heads_seq (dc_key c)) (swap_heads_seq (dc_value c))
         (expand_mask c) (dc_dropout c) (dc_causal c) (dc_scale c) (dc_gqa c) of
        Inl x \<Rightarrow> Inl x
      | Inr out \<Rightarrow> Inr (swap_heads_seq out))"

definition fa_lookup :: "host \<Rightarrow> bridge_ops \<Rightarrow> bridge_ops \<times> attention_op option" where
  "fa_lookup h s =
     (case bs_fa_op s of
        Some op \<Rightarrow> (s, op)
      | None \<Rightarrow>
          (let op = (case hopper_flash_init h of Inl _ \<Rightarrow> None | Inr op \<Rightarrow> Some op)
           in (s\<lparr>bs_fa_op := Some op\<rparr>, op)))"

definition native_fallback ::
    "('v, 'm) bridge_lib \<Rightarrow> host \<Rightarrow> 'v attn_call \<Rightarrow> bridge_ops \<Rightarrow> bridge_ops \<times> (exn + 'v t4)" where
  "native_fallback L h c s =
     (if expand_mask c = None \<and> dc_dropout c = 0 \<and> \<not> dc_gqa c \<and> dc_dtype c \<in> {BF16, FP16} \<and> dc_on_cuda c then
        (case fa_lookup h s of
           (s, None) \<Rightarrow> (s, sdpa_call L c)
         | (s, Some op) \<Rightarrow>
             (if available op then
                (case hopper_call (bl_attn L) op (swap_heads_seq (dc_query c)) (swap_heads_seq (dc_key c))
                    (swap_heads_seq (dc_value c)) (dc_causal c) (dc_scale c) of
                   Inr out \<Rightarrow> (s, Inr (swap_heads_seq out))
                 | Inl _ \<Rightarrow> (s, sdpa_call L c))
              else (s, sdpa_call L c)))
      else (s, sdpa_call L c))"

text \<open>The operation of the host: the gfx942 kernel where torch is built for HIP, else Hopper's.\<close>

definition on_hip :: "host \<Rightarrow> bool" where
  "on_hip h = (case hip_version h of None \<Rightarrow> False | Some v \<Rightarrow> v \<noteq> [])"

definition fp8_lookup :: "host \<Rightarrow> bridge_ops \<Rightarrow> bridge_ops \<times> attention_op" where
  "fp8_lookup h s =
     (case bs_fp8_op s of
        Some op \<Rightarrow> (s, op)
      | None \<Rightarrow>
          (let op = (if on_hip h then fp8_triton_init h else fp8_hopper_init h)
           in (s\<lparr>bs_fp8_op := Some op\<rparr>, op)))"

definition fp8_op_call ::
    "('v, 'm) attn_lib \<Rightarrow> attention_op \<Rightarrow> 'v t4 \<Rightarrow> 'v t4 \<Rightarrow> 'v t4 \<Rightarrow> bool \<Rightarrow> 'v option \<Rightarrow> exn + 'v t4" where
  "fp8_op_call L op q k v causal scale =
     (if ao_class op = Fp8Triton then fp8_triton_call L op q k v causal scale
      else fp8_hopper_call L op q k v causal scale)"

definition all_finite :: "('v, 'm) bridge_lib \<Rightarrow> 'v t4 \<Rightarrow> bool" where
  "all_finite L x = list_all (list_all (list_all (list_all (bl_finite L)))) x"

definition as_dtype :: "('v, 'm) bridge_lib \<Rightarrow> dtype \<Rightarrow> 'v t4 \<Rightarrow> 'v t4" where
  "as_dtype L d x = map (map (map (map (bl_to_dtype L d)))) x"

definition repercep_fp8_attention ::
    "('v, 'm) bridge_lib \<Rightarrow> host \<Rightarrow> 'v attn_call \<Rightarrow> bridge_ops \<Rightarrow> bridge_ops \<times> (exn + 'v t4)" where
  "repercep_fp8_attention L h c s =
     (if dc_return_lse c then
        (s, Inl (ValueError ''repercep_fp8 backend does not support return_lse=True.''))
      else if lower (fp8_variable h) \<in> {''fa'', ''flash''} then native_fallback L h c s
      else if dc_parallel c then native_fallback L h c s
      else if dc_mask c \<noteq> None \<or> dc_dropout c \<noteq> 0 \<or> dc_gqa c \<or> \<not> route_should_use_fp8 c then
        native_fallback L h c s
      else
        (case fp8_lookup h s of
           (s, op) \<Rightarrow>
             (if \<not> available op then native_fallback L h c s
              else
                (case fp8_op_call (bl_attn L) op (swap_heads_seq (dc_query c)) (swap_heads_seq (dc_key c))
                    (swap_heads_seq (dc_value c)) (dc_causal c) (dc_scale c) of
                   Inl x \<Rightarrow> (s, Inl x)
                 | Inr out \<Rightarrow>
                     (if \<not> all_finite L out then native_fallback L h c s
                      else (s, Inr (as_dtype L (dc_dtype c) (swap_heads_seq out))))))))"

subsection \<open>The AMX bridge\<close>

definition amx_supported_head_dims :: "nat list" where
  "amx_supported_head_dims = [64, 128]"

definition amx_min_seq_len :: nat where
  "amx_min_seq_len = 4096"

definition route_should_use_amx :: "'v attn_call \<Rightarrow> bool" where
  "route_should_use_amx c =
     (if dc_dtype c \<noteq> BF16 then False
      else if shape_of (dc_query c) \<noteq> shape_of (dc_key c) \<or> shape_of (dc_query c) \<noteq> shape_of (dc_value c) then False
      else if channels_of (dc_query c) \<notin> set amx_supported_head_dims then False
      else length (hd (dc_query c)) \<ge> amx_min_seq_len)"

definition amx_native_fallback :: "('v, 'm) bridge_lib \<Rightarrow> 'v attn_call \<Rightarrow> exn + 'v t4" where
  "amx_native_fallback L c = sdpa_call L c"

definition amx_lookup :: "host \<Rightarrow> bridge_ops \<Rightarrow> bridge_ops \<times> (exn + attention_op)" where
  "amx_lookup h s =
     (case bs_amx_op s of
        Some op \<Rightarrow> (s, Inr op)
      | None \<Rightarrow>
          (case amx_flash_init h of
             Inl x \<Rightarrow> (s, Inl x)
           | Inr op \<Rightarrow> (s\<lparr>bs_amx_op := Some op\<rparr>, Inr op)))"

definition repercep_amx_attention ::
    "('v, 'm) bridge_lib \<Rightarrow> host \<Rightarrow> 'v attn_call \<Rightarrow> bridge_ops \<Rightarrow> bridge_ops \<times> (exn + 'v t4)" where
  "repercep_amx_attention L h c s =
     (if dc_return_lse c then
        (s, Inl (ValueError ''repercep_amx backend does not support return_lse=True.''))
      else if dc_parallel c then (s, amx_native_fallback L c)
      else if dc_mask c \<noteq> None \<or> dc_dropout c \<noteq> 0 \<or> dc_gqa c \<or> \<not> route_should_use_amx c then
        (s, amx_native_fallback L c)
      else
        (case amx_lookup h s of
           (s, Inl x) \<Rightarrow> (s, Inl x)
         | (s, Inr op) \<Rightarrow>
             (if \<not> available op then (s, amx_native_fallback L c)
              else
                (case amx_flash_call (bl_attn L) op (swap_heads_seq (dc_query c)) (swap_heads_seq (dc_key c))
                    (swap_heads_seq (dc_value c)) (dc_causal c) (dc_scale c) of
                   Inl x \<Rightarrow> (s, Inl x)
                 | Inr out \<Rightarrow>
                     (if \<not> all_finite L out then (s, amx_native_fallback L c)
                      else (s, Inr (as_dtype L (dc_dtype c) (swap_heads_seq out))))))))"

section \<open>Registration\<close>

datatype backend_fn = Fp8Bridge | AmxBridge | DiffusersOwn string

record registry =
  rg_members :: "string list"
  rg_backends :: "(string \<times> backend_fn) list"
  rg_constraints :: "(string \<times> string list) list"
  rg_arg_names :: "(string \<times> string list) list"
  rg_active :: string

definition bridge_parameters :: "string list" where
  "bridge_parameters = [''query'', ''key'', ''value'', ''attn_mask'', ''dropout_p'', ''is_causal'', ''scale'',
     ''enable_gqa'', ''return_lse'', ''_parallel_config'']"

definition ensure_backend_name :: "string \<Rightarrow> registry \<Rightarrow> registry" where
  "ensure_backend_name name r =
     (if name \<in> set (rg_members r) then r else r\<lparr>rg_members := rg_members r @ [name]\<rparr>)"

definition diffusers_import :: "host \<Rightarrow> exn option" where
  "diffusers_import h =
     (case importing h ''diffusers.models.attention_dispatch'' of
        Loaded \<Rightarrow> None
      | ImportFails m \<Rightarrow> Some (OtherException m)
      | OtherFails ty m \<Rightarrow> Some (OtherException m))"

definition register_backend :: "host \<Rightarrow> string \<Rightarrow> backend_fn \<Rightarrow> registry \<Rightarrow> exn + registry" where
  "register_backend h name f r =
     (case diffusers_import h of
        Some x \<Rightarrow> Inl x
      | None \<Rightarrow>
          (let r = ensure_backend_name name r in
           if name \<in> fst ` set (rg_backends r) then Inr r
           else Inr (r\<lparr>rg_backends := AList.update name f (rg_backends r),
                       rg_constraints := AList.update name [] (rg_constraints r),
                       rg_arg_names := AList.update name bridge_parameters (rg_arg_names r)\<rparr>)))"

definition activate_backend ::
    "(string \<Rightarrow> registry \<Rightarrow> registry) \<Rightarrow> host \<Rightarrow> string \<Rightarrow> backend_fn \<Rightarrow> registry \<Rightarrow> exn + registry \<times> bool" where
  "activate_backend set_active h name f r =
     (case register_backend h name f r of
        Inl x \<Rightarrow> Inl x
      | Inr r \<Rightarrow> Inr (if rg_active r = name then (r, False) else (set_active name r, True)))"

definition repercep_fp8_name :: string where "repercep_fp8_name = ''repercep_fp8''"
definition repercep_amx_name :: string where "repercep_amx_name = ''repercep_amx''"

definition register_repercep_fp8 where
  "register_repercep_fp8 h = register_backend h repercep_fp8_name Fp8Bridge"

definition activate_repercep_fp8 where
  "activate_repercep_fp8 set_active h = activate_backend set_active h repercep_fp8_name Fp8Bridge"

definition maybe_activate_fp8 ::
    "(string \<Rightarrow> registry \<Rightarrow> registry) \<Rightarrow> host \<Rightarrow> registry \<Rightarrow> exn + registry \<times> bool" where
  "maybe_activate_fp8 set_active h r =
     (if lower (fp8_variable h) \<notin> {''1'', ''true'', ''on'', ''triton'', ''scaled_mm'', ''fa'', ''flash''} then Inr (r, False)
      else activate_repercep_fp8 set_active h r)"

text \<open>Importing the module registers; any exception is swallowed.\<close>

definition import_fp8_bridge :: "host \<Rightarrow> registry \<Rightarrow> registry" where
  "import_fp8_bridge h r = (case register_repercep_fp8 h r of Inl _ \<Rightarrow> r | Inr r' \<Rightarrow> r')"

definition register_repercep_amx where
  "register_repercep_amx h = register_backend h repercep_amx_name AmxBridge"

definition activate_repercep_amx where
  "activate_repercep_amx set_active h = activate_backend set_active h repercep_amx_name AmxBridge"

definition maybe_activate_amx ::
    "(string \<Rightarrow> registry \<Rightarrow> registry) \<Rightarrow> host \<Rightarrow> registry \<Rightarrow> exn + registry \<times> bool" where
  "maybe_activate_amx set_active h r =
     (let e = lower (amx_variable h) in
      if e \<notin> {''1'', ''true'', ''on'', ''amx'', ''ipex''} then Inr (r, False)
      else if e = ''ipex'' then Inr (r, False)
      else activate_repercep_amx set_active h r)"

definition import_amx_bridge :: "host \<Rightarrow> registry \<Rightarrow> registry" where
  "import_amx_bridge h r = (case register_repercep_amx h r of Inl _ \<Rightarrow> r | Inr r' \<Rightarrow> r')"

section \<open>Wan's transformers\<close>

record wan_processor =
  wp_attention_backend :: string
  wp_repercep_backend :: string

text \<open>\<open>wn_set\<close> is a transformer's \<open>set_attn_processor\<close>: its new state, and whether it returned.\<close>

record 't wan_lib =
  wn_processor_class :: bool
  wn_constructs :: bool
  wn_callable :: "'t \<Rightarrow> bool"
  wn_set :: "wan_processor \<Rightarrow> 't \<Rightarrow> 't \<times> bool"

record 't wan_pipe =
  wn_transformer :: "'t option"
  wn_transformer_2 :: "'t option"

definition repercep_processor :: wan_processor where
  "repercep_processor = \<lparr>wp_attention_backend = repercep_fp8_name, wp_repercep_backend = repercep_fp8_name\<rparr>"

definition install_one :: "'t wan_lib \<Rightarrow> 't option \<Rightarrow> 't option \<times> nat" where
  "install_one W t =
     (case t of
        None \<Rightarrow> (None, 0)
      | Some t \<Rightarrow>
          (if \<not> wn_callable W t then (Some t, 0)
           else (case wn_set W repercep_processor t of (t', ok) \<Rightarrow> (Some t', of_bool ok))))"

definition install_repercep_wan_attention ::
    "'t wan_lib \<Rightarrow> host \<Rightarrow> registry \<Rightarrow> 't wan_pipe \<Rightarrow> registry \<times> 't wan_pipe \<times> nat" where
  "install_repercep_wan_attention W h r p =
     (if \<not> wn_processor_class W then (r, p, 0)
      else
        (case register_repercep_fp8 h r of
           Inl _ \<Rightarrow> (r, p, 0)
         | Inr r \<Rightarrow>
             (if \<not> wn_constructs W then (r, p, 0)
              else
                (let (t1, n1) = install_one W (wn_transformer p); (t2, n2) = install_one W (wn_transformer_2 p)
                 in (r, \<lparr>wn_transformer = t1, wn_transformer_2 = t2\<rparr>, n1 + n2)))))"

definition maybe_install_repercep_wan_attention ::
    "'t wan_lib \<Rightarrow> host \<Rightarrow> registry \<Rightarrow> 't wan_pipe \<Rightarrow> registry \<times> 't wan_pipe \<times> bool" where
  "maybe_install_repercep_wan_attention W h r p =
     (if lower (fp8_variable h) \<notin> {''1'', ''true'', ''on'', ''triton'', ''scaled_mm'', ''fa'', ''flash''} then (r, p, False)
      else (case install_repercep_wan_attention W h r p of (r', p', n) \<Rightarrow> (r', p', n > 0)))"

section \<open>Kept operations\<close>

text \<open>A function that keeps what it built: its answer is a function of the call alone while the kept
  values are those it would build.\<close>

locale keeping =
  fixes call :: "'c \<Rightarrow> 's \<Rightarrow> 's \<times> 'r" and ok :: "'s \<Rightarrow> bool" and answer :: "'c \<Rightarrow> 'r"
  assumes keeps: "ok s \<Longrightarrow> ok (fst (call c s)) \<and> snd (call c s) = answer c"

fun run_calls :: "('c \<Rightarrow> 's \<Rightarrow> 's \<times> 'r) \<Rightarrow> 's \<Rightarrow> 'c list \<Rightarrow> 's \<times> 'r list" where
  "run_calls call s [] = (s, [])"
| "run_calls call s (c # cs) =
     (case call c s of (s', r) \<Rightarrow> (case run_calls call s' cs of (s'', rs) \<Rightarrow> (s'', r # rs)))"

context keeping begin

lemma run_answers: "ok s \<Longrightarrow> ok (fst (run_calls call s cs)) \<and> snd (run_calls call s cs) = map answer cs"
proof (induction cs arbitrary: s)
  case (Cons c cs)
  obtain s' where c: "call c s = (s', answer c)" "ok s'" using keeps [OF Cons.prems, of c] by (cases "call c s") auto
  then show ?case using Cons.IH [OF c(2)] by (cases "run_calls call s' cs") simp
qed simp

lemma history_does_not_matter: "ok s \<Longrightarrow> snd (run_calls call s cs) = map (\<lambda>c. snd (call c s)) cs"
  using run_answers [of s cs] keeps [of s] by simp

end

definition fa_op_of :: "host \<Rightarrow> attention_op option" where
  "fa_op_of h = (case hopper_flash_init h of Inl _ \<Rightarrow> None | Inr op \<Rightarrow> Some op)"

definition fp8_op_of :: "host \<Rightarrow> attention_op" where
  "fp8_op_of h = (if on_hip h then fp8_triton_init h else fp8_hopper_init h)"

definition ops_ok :: "host \<Rightarrow> bridge_ops \<Rightarrow> bool" where
  "ops_ok h s \<longleftrightarrow> bs_fa_op s \<in> {None, Some (fa_op_of h)} \<and> bs_fp8_op s \<in> {None, Some (fp8_op_of h)}
     \<and> (case bs_amx_op s of None \<Rightarrow> True | Some op \<Rightarrow> amx_flash_init h = Inr op)"

lemma no_ops_ok [simp]: "ops_ok h no_ops"
  by (simp add: ops_ok_def no_ops_def)

lemma lookups:
  assumes "ops_ok h s"
  shows "snd (fa_lookup h s) = fa_op_of h \<and> ops_ok h (fst (fa_lookup h s))"
    "snd (fp8_lookup h s) = fp8_op_of h \<and> ops_ok h (fst (fp8_lookup h s))"
    "snd (amx_lookup h s) = amx_flash_init h \<and> ops_ok h (fst (amx_lookup h s))"
  using assms
  by (auto simp: ops_ok_def fa_lookup_def fp8_lookup_def amx_lookup_def fa_op_of_def fp8_op_of_def Let_def
      split: option.splits sum.splits)

text \<open>What each function answers, without the kept operations.\<close>

definition flash_wanted :: "'v attn_call \<Rightarrow> bool" where
  "flash_wanted c \<longleftrightarrow> expand_mask c = None \<and> dc_dropout c = 0 \<and> \<not> dc_gqa c \<and> dc_dtype c \<in> {BF16, FP16} \<and> dc_on_cuda c"

definition native_answer :: "('v, 'm) bridge_lib \<Rightarrow> host \<Rightarrow> 'v attn_call \<Rightarrow> exn + 'v t4" where
  "native_answer L h c = snd (native_fallback L h c no_ops)"

lemma native_fallback_keeps:
  assumes "ops_ok h s"
  shows "ops_ok h (fst (native_fallback L h c s)) \<and> snd (native_fallback L h c s) = native_answer L h c"
proof -
  obtain s1 s2 where s: "fa_lookup h s = (s1, fa_op_of h)" "ops_ok h s1" "fa_lookup h no_ops = (s2, fa_op_of h)"
    using lookups(1) [OF assms] lookups(1) [OF no_ops_ok, of h] by (metis fst_conv prod.collapse snd_conv)
  show ?thesis
    unfolding native_answer_def native_fallback_def s prod.case
    using assms s(2) by (auto split: option.splits sum.splits)
qed

lemma fp8_bridge_keeps:
  assumes "ops_ok h s"
  shows "ops_ok h (fst (repercep_fp8_attention L h c s))
    \<and> snd (repercep_fp8_attention L h c s) = snd (repercep_fp8_attention L h c no_ops)"
proof -
  obtain s1 s2 where s: "fp8_lookup h s = (s1, fp8_op_of h)" "ops_ok h s1" "fp8_lookup h no_ops = (s2, fp8_op_of h)" "ops_ok h s2"
    using lookups(2) [OF assms] lookups(2) [OF no_ops_ok, of h] by (metis fst_conv prod.collapse snd_conv)
  note n = native_fallback_keeps [OF assms, of L c] native_fallback_keeps [OF s(2), of L c] native_fallback_keeps [OF s(4), of L c]
    native_fallback_keeps [OF no_ops_ok, of h L c]
  show ?thesis
    unfolding repercep_fp8_attention_def s prod.case using assms s(2) n by (auto split: sum.splits)
qed

lemma amx_bridge_keeps:
  assumes "ops_ok h s"
  shows "ops_ok h (fst (repercep_amx_attention L h c s))
    \<and> snd (repercep_amx_attention L h c s) = snd (repercep_amx_attention L h c no_ops)"
proof -
  obtain s1 s2 where s: "amx_lookup h s = (s1, amx_flash_init h)" "ops_ok h s1" "amx_lookup h no_ops = (s2, amx_flash_init h)"
    using lookups(3) [OF assms] lookups(3) [OF no_ops_ok, of h] by (metis fst_conv prod.collapse snd_conv)
  show ?thesis
    unfolding repercep_amx_attention_def s prod.case using assms s(2) by (auto split: sum.splits)
qed

text \<open>A call of a registered backend function: both bridges share the process.\<close>

definition call_backend ::
    "('v, 'm) bridge_lib \<Rightarrow> host \<Rightarrow> (string \<Rightarrow> 'v attn_call \<Rightarrow> exn + 'v t4) \<Rightarrow> backend_fn \<times> 'v attn_call \<Rightarrow> bridge_ops
      \<Rightarrow> bridge_ops \<times> (exn + 'v t4)" where
  "call_backend L h own fc s =
     (case fc of
        (Fp8Bridge, c) \<Rightarrow> repercep_fp8_attention L h c s
      | (AmxBridge, c) \<Rightarrow> repercep_amx_attention L h c s
      | (DiffusersOwn n, c) \<Rightarrow> (s, own n c))"

lemma call_backend_keeps:
  "ops_ok h s \<Longrightarrow> ops_ok h (fst (call_backend L h own fc s)) \<and> snd (call_backend L h own fc s) = snd (call_backend L h own fc no_ops)"
  using fp8_bridge_keeps [of h s L "snd fc"] amx_bridge_keeps [of h s L "snd fc"]
  by (cases fc; cases "fst fc") (simp_all add: call_backend_def)

interpretation bridge: keeping "call_backend L h own" "ops_ok h" "\<lambda>fc. snd (call_backend L h own fc no_ops)" for L h own
  by unfold_locales (rule call_backend_keeps)

interpretation te_modules: keeping "\<lambda>(h, d, c) cache. te_get_module L h d c cache" "cache_ok L"
    "\<lambda>(h, d, c). te_module L h d (if c then ''causal'' else ''no_mask'')" for L
  by unfold_locales (simp only: get_module_ok prod.case split: prod.split, simp add: get_module_ok)

section \<open>Attention through the bridges\<close>

definition bridge_conforms ::
    "('v, 'm) bridge_lib \<Rightarrow> (kernel \<Rightarrow> 'v t4 \<Rightarrow> 'v t4 \<Rightarrow> 'v t4 \<Rightarrow> bool \<Rightarrow> 'v \<Rightarrow> 'v t4) \<Rightarrow> bool" where
  "bridge_conforms L att \<longleftrightarrow> conforms (bl_attn L) att
     \<and> (\<forall>q k v c sc. bl_sdpa L q k v None 0 c sc False = al_sdpa (bl_attn L) q k v c sc)"

definition plain_call :: "'v attn_call \<Rightarrow> bool" where
  "plain_call c \<longleftrightarrow> dc_mask c = None \<and> dc_dropout c = 0 \<and> \<not> dc_gqa c"

definition call_shape :: "nat \<Rightarrow> nat \<Rightarrow> nat \<Rightarrow> nat \<Rightarrow> nat \<Rightarrow> 'v attn_call \<Rightarrow> bool" where
  "call_shape b hn sq skv d c \<longleftrightarrow> b > 0 \<and> hn > 0 \<and> sq > 0 \<and> skv > 0
     \<and> rect4 b sq hn d (dc_query c) \<and> rect4 b skv hn d (dc_key c) \<and> rect4 b skv hn d (dc_value c)"

text \<open>Attention of one kernel in the dispatcher's layout.\<close>

definition attended ::
    "('v, 'm) bridge_lib \<Rightarrow> (kernel \<Rightarrow> 'v t4 \<Rightarrow> 'v t4 \<Rightarrow> 'v t4 \<Rightarrow> bool \<Rightarrow> 'v \<Rightarrow> 'v t4) \<Rightarrow> nat \<Rightarrow> 'v attn_call \<Rightarrow> kernel \<Rightarrow> 'v t4" where
  "attended L att d c kn = swap_heads_seq (att kn (swap_heads_seq (dc_query c)) (swap_heads_seq (dc_key c))
     (swap_heads_seq (dc_value c)) (dc_causal c) (scale_or (bl_attn L) d (dc_scale c)))"

lemma swap_rect4: "rect4 b s h d x \<Longrightarrow> s > 0 \<Longrightarrow> rect4 b h s d (swap_heads_seq x)"
proof -
  assume x: "rect4 b s h d x" and s: "s > 0"
  have "rect2 h s (transpose m) \<and> (\<forall>r \<in> set (transpose m). \<forall>e \<in> set r. length e = d)"
    if "rect2 s h m" "\<forall>r \<in> set m. \<forall>e \<in> set r. length e = d" for m
  proof -
    note t = transpose_rect2 [OF that(1) s]
    have "m ! j \<in> set m" "m ! j ! i \<in> set (m ! j)" if "i < h" "j < s" for i j
      using that \<open>rect2 s h m\<close> by (auto simp: rect2_def)
    then have "length (m ! j ! i) = d" if "i < h" "j < s" for i j
      using that \<open>\<forall>r \<in> set m. \<forall>e \<in> set r. length e = d\<close> by blast
    then show ?thesis using t(2) unfolding t(1) by auto
  qed
  with x show ?thesis by (auto simp: rect4_def swap_heads_seq_def)
qed

lemma call_shape_swapped:
  assumes "call_shape b hn sq skv d c"
  shows "rect4 b hn sq d (swap_heads_seq (dc_query c))" "rect4 b hn skv d (swap_heads_seq (dc_key c))"
    "rect4 b hn skv d (swap_heads_seq (dc_value c))"
  using assms by (auto simp: call_shape_def intro: swap_rect4)

lemma conforms_call:
  assumes "bridge_conforms L att" "call_shape b hn sq skv d c"
  shows "rect4 b hn sq d (att kn (swap_heads_seq (dc_query c)) (swap_heads_seq (dc_key c)) (swap_heads_seq (dc_value c)) (dc_causal c)
      (scale_or (bl_attn L) d (dc_scale c)))"
    "plain_call c \<Longrightarrow> sdpa_call L c = Inr (attended L att d c TorchSdpa)"
    "kn \<in> {TritonFp8, TritonFp8Hopper, AmxBf16Kernel} \<Longrightarrow> triton_shape kn sq skv d \<Longrightarrow>
      al_fused (bl_attn L) kn (swap_heads_seq (dc_query c)) (swap_heads_seq (dc_key c)) (swap_heads_seq (dc_value c)) (dc_causal c) sc
       = Inr (att kn (swap_heads_seq (dc_query c)) (swap_heads_seq (dc_key c)) (swap_heads_seq (dc_value c)) (dc_causal c)
           (scale_or (bl_attn L) d sc))"
    "ao_kernel op = Some kn \<Longrightarrow> kn \<in> {FlashAttn3, FlashAttn2} \<Longrightarrow>
      hopper_call (bl_attn L) op (swap_heads_seq (dc_query c)) (swap_heads_seq (dc_key c)) (swap_heads_seq (dc_value c)) (dc_causal c) (dc_scale c)
       = Inr (att kn (swap_heads_seq (dc_query c)) (swap_heads_seq (dc_key c)) (swap_heads_seq (dc_value c)) (dc_causal c)
           (scale_or (bl_attn L) d (dc_scale c)))"
proof -
  have pos: "b > 0" "hn > 0" "sq > 0" "skv > 0" using assms(2) by (simp_all add: call_shape_def)
  have con: "conforms (bl_attn L) att" using assms(1) by (simp add: bridge_conforms_def)
  note at = conforms_at [OF con pos call_shape_swapped [OF assms(2)]]
  show r: "rect4 b hn sq d (att kn (swap_heads_seq (dc_query c)) (swap_heads_seq (dc_key c)) (swap_heads_seq (dc_value c)) (dc_causal c)
      (scale_or (bl_attn L) d (dc_scale c)))" for kn by (rule at(1))
  show "sdpa_call L c = Inr (attended L att d c TorchSdpa)" if "plain_call c"
    using assms(1) at(2) [of "dc_causal c" "dc_scale c"] that
    by (simp add: sdpa_call_def plain_call_def expand_mask_def bridge_conforms_def attended_def)
  show "al_fused (bl_attn L) kn (swap_heads_seq (dc_query c)) (swap_heads_seq (dc_key c)) (swap_heads_seq (dc_value c)) (dc_causal c) sc
       = Inr (att kn (swap_heads_seq (dc_query c)) (swap_heads_seq (dc_key c)) (swap_heads_seq (dc_value c)) (dc_causal c)
           (scale_or (bl_attn L) d sc))" if "kn \<in> {TritonFp8, TritonFp8Hopper, AmxBf16Kernel}" "triton_shape kn sq skv d"
    by (rule at(4) [OF _ that(2)]) (use that(1) in blast)
  show "hopper_call (bl_attn L) op (swap_heads_seq (dc_query c)) (swap_heads_seq (dc_key c)) (swap_heads_seq (dc_value c)) (dc_causal c) (dc_scale c)
       = Inr (att kn (swap_heads_seq (dc_query c)) (swap_heads_seq (dc_key c)) (swap_heads_seq (dc_value c)) (dc_causal c)
           (scale_or (bl_attn L) d (dc_scale c)))" if "ao_kernel op = Some kn" "kn \<in> {FlashAttn3, FlashAttn2}"
    by (rule flash_call_att(1) [OF that(1) r pos(2,3) at(3)]) (use that(2) in blast)
qed

lemma native_answer_attends:
  assumes "bridge_conforms L att" "call_shape b hn sq skv d c" "plain_call c"
  shows "\<exists>kn \<in> {TorchSdpa, FlashAttn3, FlashAttn2}. native_answer L h c = Inr (attended L att d c kn)"
proof -
  note con = conforms_call [OF assms(1,2)]
  obtain s' where s': "fa_lookup h no_ops = (s', fa_op_of h)" using lookups(1) [OF no_ops_ok, of h] by (metis prod.collapse)
  show ?thesis
  proof (cases "\<exists>op. fa_op_of h = Some op \<and> available op \<and> flash_wanted c")
    case True
    then obtain op where op: "fa_op_of h = Some op" "available op" "flash_wanted c" by blast
    then have "hopper_flash_init h = Inr op" by (simp add: fa_op_of_def split: sum.splits)
    from init_kernels(6) [OF this op(2)] obtain kn where kn: "kn \<in> {FlashAttn3, FlashAttn2}" "ao_kernel op = Some kn" by auto
    have "native_answer L h c = Inr (attended L att d c kn)"
      using op con(4) [OF kn(2,1)] by (simp add: native_answer_def native_fallback_def flash_wanted_def s' attended_def)
    with kn(1) show ?thesis by blast
  next
    case False
    then have "native_answer L h c = sdpa_call L c"
      by (auto simp: native_answer_def native_fallback_def flash_wanted_def s' split: option.split)
    with con(2) assms(3) show ?thesis by auto
  qed
qed

lemma hd_length: "rect4 b s h d x \<Longrightarrow> b > 0 \<Longrightarrow> length (hd x) = s"
  by (cases x) (auto simp: rect4_def rect2_def)

lemma route_shape:
  assumes "call_shape b hn sq skv d c" "shape_of (dc_query c) = shape_of (dc_key c)"
  shows "sq = skv" "channels_of (dc_query c) = d" "length (hd (dc_query c)) = sq"
proof -
  have r: "rect4 b sq hn d (dc_query c)" "rect4 b skv hn d (dc_key c)" "b > 0" "hn > 0" "sq > 0"
    using assms(1) by (auto simp: call_shape_def)
  show "channels_of (dc_query c) = d" using rect4_heads(2) [OF r(1,3,5,4)] .
  show "length (hd (dc_query c)) = sq" using hd_length [OF r(1,3)] .
  then show "sq = skv" using assms(2) hd_length [OF r(2,3)] by (simp add: shape_of_def)
qed

section \<open>Properties\<close>

text \<open>C34: what a bridge answers depends on the call and the host only. The operations kept on function
  attributes, whatever calls of both bridges came before, never change an answer.\<close>

theorem bridge_answers_ignore_history:
  "snd (run_calls (call_backend L h own) no_ops cs) = map (\<lambda>fc. snd (call_backend L h own fc no_ops)) cs"
  by (rule bridge.run_answers [OF no_ops_ok, THEN conjunct2])

text \<open>a call with a mask, with dropout or with grouped heads is answered by torch's attention with
  every argument it came with, by both bridges and in every mode; no fused kernel sees it, for
  none of them could honour these arguments.\<close>

theorem masked_calls_keep_their_arguments:
  assumes "\<not> plain_call c" "\<not> dc_return_lse c"
  shows "repercep_fp8_attention L h c s = (s, sdpa_call L c) \<and> repercep_amx_attention L h c s = (s, sdpa_call L c)"
proof -
  have "expand_mask c = None \<longleftrightarrow> dc_mask c = None"
    by (auto simp: expand_mask_def split: option.split attn_mask.split)
  then have "native_fallback L h c s = (s, sdpa_call L c)" using assms(1) by (auto simp: native_fallback_def plain_call_def)
  then show ?thesis
    using assms by (auto simp: repercep_fp8_attention_def repercep_amx_attention_def amx_native_fallback_def plain_call_def)
qed

text \<open>C33: a plain call through the FP8 bridge returns the attention of one kernel, in the dispatcher's
  layout, whatever happened before. A Triton kernel is chosen for self-attention of at least 4096
  tokens only and its result is finite and cast back; in all other cases the kernel is torch's or
  FlashAttention.\<close>

theorem fp8_bridge_computes_attention:
  assumes "bridge_conforms L att" "call_shape b hn sq skv d c" "plain_call c" "\<not> dc_return_lse c" "ops_ok h s"
  shows "(\<exists>kn \<in> {TorchSdpa, FlashAttn3, FlashAttn2}. snd (repercep_fp8_attention L h c s) = Inr (attended L att d c kn))
    \<or> (\<exists>kn \<in> {TritonFp8, TritonFp8Hopper}. snd (repercep_fp8_attention L h c s) = Inr (as_dtype L (dc_dtype c) (attended L att d c kn))
        \<and> sq = skv \<and> sq \<ge> 4096 \<and> (kn = TritonFp8 \<longleftrightarrow> on_hip h))"
proof -
  note con = conforms_call [OF assms(1,2)]
  obtain s1 where s1: "fp8_lookup h s = (s1, fp8_op_of h)" "ops_ok h s1" using lookups(2) [OF assms(5)] by (metis prod.collapse)
  note native = native_answer_attends [OF assms(1-3), of h]
  show ?thesis
  proof (cases "snd (repercep_fp8_attention L h c s) = native_answer L h c")
    case False
    then have r: "route_should_use_fp8 c" "available (fp8_op_of h)" and not_fa: "lower (fp8_variable h) \<notin> {''fa'', ''flash''}"
        and par: "\<not> dc_parallel c"
      using native_fallback_keeps [OF assms(5), of L c] native_fallback_keeps [OF s1(2), of L c] assms(3,4)
      by (auto simp: repercep_fp8_attention_def s1 plain_call_def split: if_splits)
    from r(1) have "shape_of (dc_query c) = shape_of (dc_key c)" "channels_of (dc_query c) \<in> {32, 64, 128, 256}"
        "length (hd (dc_query c)) \<ge> 4096"
      by (auto simp: route_should_use_fp8_def fp8_supported_head_dims_def fp8_min_seq_len_def split: if_splits)
    with route_shape [OF assms(2)] have dims: "sq = skv" "d \<in> {32, 64, 128, 256}" "sq \<ge> 4096" by metis+
    define kn where "kn = (if on_hip h then TritonFp8 else TritonFp8Hopper)"
    have kn: "ao_kernel (fp8_op_of h) = Some kn" "ao_class (fp8_op_of h) = (if on_hip h then Fp8Triton else Fp8Hopper)"
      using r(2) init_kernels(2,3) [of h] by (auto simp: fp8_op_of_def kn_def init_class split: if_splits)
    let ?out = "att kn (swap_heads_seq (dc_query c)) (swap_heads_seq (dc_key c)) (swap_heads_seq (dc_value c)) (dc_causal c)
      (scale_or (bl_attn L) d (dc_scale c))"
    have "triton_shape kn sq skv d" "kn \<in> {TritonFp8, TritonFp8Hopper, AmxBf16Kernel}"
      using dims by (auto simp: triton_shape_def kn_def)
    from con(3) [OF this(2,1)] kn
    have call: "fp8_op_call (bl_attn L) (fp8_op_of h) (swap_heads_seq (dc_query c)) (swap_heads_seq (dc_key c)) (swap_heads_seq (dc_value c))
        (dc_causal c) (dc_scale c) = Inr ?out"
      by (simp add: fp8_op_call_def fp8_triton_call_def fp8_hopper_call_def)
    have "snd (repercep_fp8_attention L h c s)
        = (if all_finite L ?out then Inr (as_dtype L (dc_dtype c) (swap_heads_seq ?out)) else snd (native_fallback L h c s1))"
      using assms(3,4) not_fa par r by (simp add: repercep_fp8_attention_def s1 plain_call_def call)
    with False native_fallback_keeps [OF s1(2), of L c]
    have "snd (repercep_fp8_attention L h c s) = Inr (as_dtype L (dc_dtype c) (attended L att d c kn))"
      by (auto simp: attended_def split: if_splits)
    moreover have "kn \<in> {TritonFp8, TritonFp8Hopper}" "kn = TritonFp8 \<longleftrightarrow> on_hip h" by (simp_all add: kn_def)
    ultimately show ?thesis using dims by blast
  qed (use native in simp)
qed

text \<open>the AMX bridge answers a plain call with torch's attention or, for self-attention in BF16 of at
  least 4096 tokens and 64 or 128 channels, with that of the AMX kernel, cast back. It raises
  only what building the operation raises.\<close>

theorem amx_bridge_computes_attention:
  assumes "bridge_conforms L att" "call_shape b hn sq skv d c" "plain_call c" "\<not> dc_return_lse c" "ops_ok h s"
    and "amx_flash_init h = Inr op"
  shows "snd (repercep_amx_attention L h c s) = Inr (attended L att d c TorchSdpa)
    \<or> snd (repercep_amx_attention L h c s) = Inr (as_dtype L BF16 (attended L att d c AmxBf16Kernel)) \<and> sq = skv \<and> sq \<ge> 4096 \<and> d \<in> {64, 128}"
proof -
  note con = conforms_call [OF assms(1,2)]
  have sdpa: "amx_native_fallback L c = Inr (attended L att d c TorchSdpa)" using con(2) [OF assms(3)] by (simp add: amx_native_fallback_def)
  obtain s1 where s1: "amx_lookup h s = (s1, Inr op)" using lookups(3) [OF assms(5)] assms(6) by (metis prod.collapse)
  show ?thesis
  proof (cases "\<not> dc_parallel c \<and> route_should_use_amx c \<and> available op")
    case True
    then have "shape_of (dc_query c) = shape_of (dc_key c)" "channels_of (dc_query c) \<in> {64, 128}"
        "length (hd (dc_query c)) \<ge> 4096" "dc_dtype c = BF16"
      by (auto simp: route_should_use_amx_def amx_supported_head_dims_def amx_min_seq_len_def split: if_splits)
    with route_shape [OF assms(2)] have dims: "sq = skv" "d \<in> {64, 128}" "sq \<ge> 4096" "dc_dtype c = BF16" by metis+
    have kn: "ao_kernel op = Some AmxBf16Kernel" using init_kernels(7) [OF assms(6)] True by auto
    have "channels_of (swap_heads_seq (dc_query c)) = d"
      using rect4_heads(2) [OF call_shape_swapped(1) [OF assms(2)]] assms(2) by (simp add: call_shape_def)
    then have "sm_scale (bl_attn L) (swap_heads_seq (dc_query c)) (dc_scale c) = scale_or (bl_attn L) d (dc_scale c)"
      unfolding sm_scale_def scale_or_def by (simp only:)
    then have "amx_flash_call (bl_attn L) op (swap_heads_seq (dc_query c)) (swap_heads_seq (dc_key c)) (swap_heads_seq (dc_value c))
        (dc_causal c) (dc_scale c) = Inr (att AmxBf16Kernel (swap_heads_seq (dc_query c)) (swap_heads_seq (dc_key c))
          (swap_heads_seq (dc_value c)) (dc_causal c) (scale_or (bl_attn L) d (dc_scale c)))"
      using kn con(3) [of AmxBf16Kernel "Some (scale_or (bl_attn L) d (dc_scale c))"]
      by (simp add: amx_flash_call_def triton_shape_def scale_or_def)
    then show ?thesis using True assms(3,4) dims sdpa
      by (auto simp: repercep_amx_attention_def s1 plain_call_def attended_def)
  next
    case False
    then show ?thesis using assms(3,4) sdpa by (auto simp: repercep_amx_attention_def s1 plain_call_def)
  qed
qed

subsection \<open>The dispatcher's tables\<close>

definition set_active_law :: "(string \<Rightarrow> registry \<Rightarrow> registry) \<Rightarrow> bool" where
  "set_active_law set_active \<longleftrightarrow> (\<forall>n r. set_active n r = r\<lparr>rg_active := n\<rparr>)"

lemma register_backend_result:
  assumes "diffusers_import h = None"
  obtains r' where "register_backend h name f r = Inr r'" "rg_active r' = rg_active r"
    "map_of (rg_backends r') name = (case map_of (rg_backends r) name of None \<Rightarrow> Some f | Some g \<Rightarrow> Some g)"
    "\<And>n. n \<noteq> name \<Longrightarrow> map_of (rg_backends r') n = map_of (rg_backends r) n" "name \<in> set (rg_members r')"
    "register_backend h name f r' = Inr r'"
proof -
  define r' where "r' = projr (register_backend h name f r)"
  have eq: "register_backend h name f r = Inr r'"
    using assms by (simp add: r'_def register_backend_def Let_def)
  have r': "r' = (let r = ensure_backend_name name r in
      if name \<in> fst ` set (rg_backends r) then r
      else r\<lparr>rg_backends := AList.update name f (rg_backends r), rg_constraints := AList.update name [] (rg_constraints r),
             rg_arg_names := AList.update name bridge_parameters (rg_arg_names r)\<rparr>)"
    using assms by (simp add: r'_def register_backend_def Let_def)
  have same: "rg_backends (ensure_backend_name name r) = rg_backends r" "rg_active (ensure_backend_name name r) = rg_active r"
    "name \<in> set (rg_members (ensure_backend_name name r))"
    by (simp_all add: ensure_backend_name_def)
  have none: "map_of (rg_backends r) name = None \<longleftrightarrow> name \<notin> fst ` set (rg_backends r)" by (rule map_of_None_iff)
  have backends: "map_of (rg_backends r') name = (case map_of (rg_backends r) name of None \<Rightarrow> Some f | Some g \<Rightarrow> Some g)"
    using none by (auto simp: r' Let_def same map_of_AList_update split: option.split)
  moreover have "name \<in> set (rg_members r')" by (simp add: r' Let_def same)
  moreover have "register_backend h name f r' = Inr r'"
  proof -
    have "name \<in> fst ` set (rg_backends r')" using backends map_of_None_iff [of "rg_backends r'" name] by (auto split: option.splits)
    with \<open>name \<in> set (rg_members r')\<close> show ?thesis
      using assms by (simp add: register_backend_def ensure_backend_name_def)
  qed
  ultimately show thesis using that [OF eq] by (auto simp: r' Let_def same map_of_AList_update)
qed

text \<open>with the switch set, importing and activating the bridge makes it the dispatcher's active
  backend, adds it to the tables without touching any other backend, and a second activation is
  a no-op that says so; the switch is read without regard to case.\<close>

theorem switch_activates_the_bridge:
  assumes "set_active_law set_active" "diffusers_import h = None"
    and "lower (fp8_variable h) \<in> {''1'', ''true'', ''on'', ''triton'', ''scaled_mm'', ''fa'', ''flash''}"
    and "map_of (rg_backends r) repercep_fp8_name \<in> {None, Some Fp8Bridge}" "rg_active r \<noteq> repercep_fp8_name"
  shows "\<exists>r'. maybe_activate_fp8 set_active h (import_fp8_bridge h r) = Inr (r', True)
    \<and> rg_active r' = repercep_fp8_name \<and> map_of (rg_backends r') (rg_active r') = Some Fp8Bridge
    \<and> (map_of (rg_backends r'))(repercep_fp8_name := None) = (map_of (rg_backends r))(repercep_fp8_name := None)
    \<and> maybe_activate_fp8 set_active h r' = Inr (r', False)"
proof -
  obtain r1 where r1: "register_repercep_fp8 h r = Inr r1" "rg_active r1 = rg_active r" "register_repercep_fp8 h r1 = Inr r1"
    "map_of (rg_backends r1) repercep_fp8_name = Some Fp8Bridge"
    "\<And>n. n \<noteq> repercep_fp8_name \<Longrightarrow> map_of (rg_backends r1) n = map_of (rg_backends r) n" "repercep_fp8_name \<in> set (rg_members r1)"
    unfolding register_repercep_fp8_def
    by (rule register_backend_result [OF assms(2), of repercep_fp8_name Fp8Bridge r]) (use assms(4) in auto)
  let ?r = "r1\<lparr>rg_active := repercep_fp8_name\<rparr>"
  have again: "register_repercep_fp8 h ?r = Inr ?r"
  proof -
    have "repercep_fp8_name \<in> fst ` set (rg_backends r1)" using r1(4) map_of_None_iff [of "rg_backends r1"] by (metis option.distinct(1))
    then show ?thesis using assms(2) r1(6) by (simp add: register_repercep_fp8_def register_backend_def ensure_backend_name_def)
  qed
  note on = maybe_activate_fp8_def activate_repercep_fp8_def activate_backend_def register_repercep_fp8_def [symmetric]
  have "import_fp8_bridge h r = r1" by (simp add: import_fp8_bridge_def r1(1))
  then have "maybe_activate_fp8 set_active h (import_fp8_bridge h r) = Inr (?r, True)"
    using assms(1,3,5) r1(2,3) by (simp add: on set_active_law_def)
  moreover have "maybe_activate_fp8 set_active h ?r = Inr (?r, False)" using assms(3) again by (simp add: on)
  ultimately show ?thesis using r1(4,5) by (auto simp: fun_eq_iff)
qed

text \<open>the two switches are not the same: with \<open>te\<close> the registry selects FP8 operations and the
  dispatcher stays as it is; with \<open>fa\<close> the dispatcher is switched and the registry selects none.\<close>

theorem bridge_and_registry_switches_differ:
  "(lower (fp8_variable h) \<in> {''te'', ''transformer_engine''} \<longrightarrow> fp8_enabled h \<and> maybe_activate_fp8 set_active h r = Inr (r, False))
   \<and> (lower (fp8_variable h) \<in> {''fa'', ''flash''} \<longrightarrow> \<not> fp8_enabled h \<and> maybe_activate_fp8 set_active h r = activate_repercep_fp8 set_active h r)"
  by (auto simp: fp8_enabled_def fp8_env_def maybe_activate_fp8_def)

text \<open>with the switch set, the installation on a Wan pipeline sets the processor on each transformer
  the pipeline has, reports success exactly if one of them took it, and registers the backend
  without making it the active one.\<close>

theorem wan_installation_reports_success:
  assumes "lower (fp8_variable h) \<in> {''1'', ''true'', ''on'', ''triton'', ''scaled_mm'', ''fa'', ''flash''}"
    and "wn_processor_class W" "wn_constructs W" "diffusers_import h = None"
    and "map_of (rg_backends r) repercep_fp8_name \<in> {None, Some Fp8Bridge}"
  shows "\<exists>r'. maybe_install_repercep_wan_attention W h r p
      = (r', \<lparr>wn_transformer = map_option (\<lambda>t. if wn_callable W t then fst (wn_set W repercep_processor t) else t) (wn_transformer p),
              wn_transformer_2 = map_option (\<lambda>t. if wn_callable W t then fst (wn_set W repercep_processor t) else t) (wn_transformer_2 p)\<rparr>,
         \<exists>t. (wn_transformer p = Some t \<or> wn_transformer_2 p = Some t) \<and> wn_callable W t \<and> snd (wn_set W repercep_processor t))
    \<and> rg_active r' = rg_active r \<and> map_of (rg_backends r') (wp_attention_backend repercep_processor) = Some Fp8Bridge"
proof -
  obtain r1 where r1: "register_repercep_fp8 h r = Inr r1" "rg_active r1 = rg_active r"
    "map_of (rg_backends r1) repercep_fp8_name = Some Fp8Bridge"
    unfolding register_repercep_fp8_def
    by (rule register_backend_result [OF assms(4), of repercep_fp8_name Fp8Bridge r]) (use assms(5) in auto)
  have one: "install_one W t = (map_option (\<lambda>t. if wn_callable W t then fst (wn_set W repercep_processor t) else t) t,
      case t of None \<Rightarrow> 0 | Some t \<Rightarrow> of_bool (wn_callable W t \<and> snd (wn_set W repercep_processor t)))" for t
    by (auto simp: install_one_def split: option.split prod.split)
  have "install_repercep_wan_attention W h r p
      = (r1, \<lparr>wn_transformer = fst (install_one W (wn_transformer p)), wn_transformer_2 = fst (install_one W (wn_transformer_2 p))\<rparr>,
         snd (install_one W (wn_transformer p)) + snd (install_one W (wn_transformer_2 p)))"
    using assms(2,3) by (simp add: install_repercep_wan_attention_def r1(1) split_beta)
  then show ?thesis
    using assms(1) r1(2,3) unfolding one
    by (auto simp: maybe_install_repercep_wan_attention_def repercep_processor_def split: option.splits)
qed

section \<open>Witnesses\<close>

definition echo_bridge :: "(rat, unit) bridge_lib" where
  "echo_bridge = \<lparr>bl_attn = echo_lib, bl_sdpa = (\<lambda>q k v m p c s g. Inr q), bl_finite = (\<lambda>x. True), bl_to_dtype = (\<lambda>d x. x)\<rparr>"

lemma echo_bridge_conforms: "bridge_conforms echo_bridge (\<lambda>kn q k v c s. q)"
  using echo_conforms by (simp add: bridge_conforms_def echo_bridge_def echo_lib_def)

definition sample_call :: "rat attn_mask option \<Rightarrow> rat attn_call" where
  "sample_call m = \<lparr>dc_query = small_t4, dc_key = small_t4, dc_value = small_t4, dc_dtype = BF16, dc_on_cuda = True, dc_mask = m,
     dc_dropout = 0, dc_causal = False, dc_scale = None, dc_gqa = False, dc_return_lse = False, dc_parallel = False\<rparr>"

lemma sample_call_shape: "call_shape 1 2 2 2 2 (sample_call m)"
  using small_rect4 by (simp add: call_shape_def sample_call_def)

theorem masked_calls_keep_their_arguments_witness:
  "repercep_fp8_attention echo_bridge (sample_host ''1'' True) (sample_call (Some (Mask2 [[1, 1]]))) no_ops
    = (no_ops, sdpa_call echo_bridge (sample_call (Some (Mask2 [[1, 1]]))))"
  by (rule masked_calls_keep_their_arguments [THEN conjunct1]) (simp_all add: plain_call_def sample_call_def)

theorem fp8_bridge_computes_attention_witness:
  "snd (repercep_fp8_attention echo_bridge (sample_host ''1'' True) (sample_call None) no_ops) = Inr small_t4"
proof -
  have "swap_heads_seq (swap_heads_seq small_t4) = small_t4" by (rule swap_twice [OF small_rect4]) simp_all
  then have "attended echo_bridge (\<lambda>kn q k v c s. q) 2 (sample_call None) kn = small_t4" for kn
    by (simp add: attended_def sample_call_def)
  moreover have "as_dtype echo_bridge BF16 small_t4 = small_t4" by (simp add: as_dtype_def echo_bridge_def)
  moreover have "plain_call (sample_call None)" "\<not> dc_return_lse (sample_call None)" "dc_dtype (sample_call None) = BF16"
    by (simp_all add: plain_call_def sample_call_def)
  ultimately show ?thesis
    using fp8_bridge_computes_attention [OF echo_bridge_conforms sample_call_shape [of None], where s = no_ops and h = "sample_host ''1'' True"]
    by auto
qed

theorem amx_bridge_computes_attention_witness:
  "snd (repercep_amx_attention echo_bridge (sample_host [] True) (sample_call None) no_ops) = Inr small_t4"
proof -
  have "swap_heads_seq (swap_heads_seq small_t4) = small_t4" by (rule swap_twice [OF small_rect4]) simp_all
  then have "attended echo_bridge (\<lambda>kn q k v c s. q) 2 (sample_call None) kn = small_t4" for kn
    by (simp add: attended_def sample_call_def)
  moreover have "as_dtype echo_bridge BF16 small_t4 = small_t4" by (simp add: as_dtype_def echo_bridge_def)
  moreover have "plain_call (sample_call None)" "\<not> dc_return_lse (sample_call None)" by (simp_all add: plain_call_def sample_call_def)
  moreover obtain op where "amx_flash_init (sample_host [] True) = Inr op"
    by (cases "amx_flash_init (sample_host [] True)")
      (auto simp: amx_flash_init_def amx_kernel_init_def detect_amx_bf16_def detect_flag_def sample_host_def)
  ultimately show ?thesis
    using amx_bridge_computes_attention [OF echo_bridge_conforms sample_call_shape [of None], where s = no_ops and h = "sample_host [] True"]
    by auto
qed

definition fresh_registry :: registry where
  "fresh_registry = \<lparr>rg_members = [''native''], rg_backends = [(''native'', DiffusersOwn ''native'')], rg_constraints = [], rg_arg_names = [],
     rg_active = ''native''\<rparr>"

definition diffusers_host :: "string \<Rightarrow> host" where
  "diffusers_host v = (sample_host v True)\<lparr>importing := (\<lambda>n. Loaded)\<rparr>"

lemma diffusers_host: "diffusers_import (diffusers_host v) = None" "fp8_variable (diffusers_host v) = v"
  by (simp_all add: diffusers_import_def diffusers_host_def sample_host_def)

theorem switch_activates_the_bridge_witness:
  "\<exists>r'. maybe_activate_fp8 (\<lambda>n r. r\<lparr>rg_active := n\<rparr>) (diffusers_host ''1'') (import_fp8_bridge (diffusers_host ''1'') fresh_registry) = Inr (r', True)
    \<and> rg_active r' = repercep_fp8_name"
  using switch_activates_the_bridge [of "\<lambda>n r. r\<lparr>rg_active := n\<rparr>" "diffusers_host ''1''" fresh_registry]
  by (auto simp: set_active_law_def diffusers_host fresh_registry_def repercep_fp8_name_def lower_def lower_char_def)

theorem wan_installation_reports_success_witness:
  "snd (snd (maybe_install_repercep_wan_attention
      \<lparr>wn_processor_class = True, wn_constructs = True, wn_callable = (\<lambda>t. True), wn_set = (\<lambda>p t. (Some p, True))\<rparr>
      (diffusers_host ''1'') fresh_registry \<lparr>wn_transformer = Some None, wn_transformer_2 = None\<rparr>))"
  using wan_installation_reports_success [of "diffusers_host ''1''"
      "\<lparr>wn_processor_class = True, wn_constructs = True, wn_callable = (\<lambda>t. True), wn_set = (\<lambda>p t. (Some p, True))\<rparr>" fresh_registry
      "\<lparr>wn_transformer = Some None, wn_transformer_2 = None\<rparr>"]
  by (auto simp: diffusers_host fresh_registry_def repercep_fp8_name_def lower_def lower_char_def)

end
