(* ===== verification/VideoEngines.thy ===== *)
theory VideoEngines
  imports RuntimeTypes Denoise DiffusersBridge ActionCodec "HOL-Library.Word"
begin

text \<open>
  The two engines that generate video with a diffusers pipeline: \<open>models/cosmos.py\<close> and
  \<open>models/wan.py\<close>. Loading, the fallback from the compiled transformer, the guardrail, the call of
  the pipeline or of the package's own denoising loop (theory \<open>Denoise\<close>), and the conversion of the
  decoded video to frames. diffusers' pipelines, \<open>torch.compile\<close>, the guardrail package and what
  loading them raises are parameters, given anew to every call; pixels are 8-bit words.
\<close>

section \<open>Decoded video\<close>

datatype raw_video = Rank4 "rat t4" | OtherRank "nat list"

fun tuple_items :: "nat list \<Rightarrow> string" where
  "tuple_items [] = []"
| "tuple_items [n] = nat_str n"
| "tuple_items (n # ns) = nat_str n @ '', '' @ tuple_items ns"

definition tuple_str :: "nat list \<Rightarrow> string" where
  "tuple_str ns = ''('' @ tuple_items ns @ (if length ns = 1 then '',)'' else '')'')"

definition to_byte :: "rat \<Rightarrow> 8 word" where
  "to_byte x = word_of_int (round_even (min (max x 0) 1 * 255))"

text \<open>\<open>(T, C, H, W)\<close> to \<open>(T, H, W, C)\<close>.\<close>

definition channels_last :: "'a list list list \<Rightarrow> 'a list list list" where
  "channels_last f = map transpose (transpose f)"

definition as_frame_tensor :: "raw_video \<Rightarrow> exn + 8 word t4" where
  "as_frame_tensor video =
     (case video of
        OtherRank dims \<Rightarrow> Inl (ValueError (''unexpected video tensor rank: '' @ tuple_str dims))
      | Rank4 x \<Rightarrow>
          (let x = (if x \<noteq> [] \<and> length (hd x) \<in> {1, 3} then map channels_last x else x)
           in Inr (map (map (map (map to_byte))) x)))"

definition frames_of :: "'p list \<Rightarrow> 'p frame list" where
  "frames_of video = map (\<lambda>i. \<lparr>fr_index = int i, fr_total = int (length video), fr_pixels = video ! i\<rparr>) [0 ..< length video]"

section \<open>Cosmos\<close>

record cosmos_config =
  cc_repo_id :: string
  cc_device_index :: nat
  cc_dtype :: string
  cc_enable_guardrail :: bool
  cc_compile_transformer :: bool
  cc_compile_mode :: "string option"
  cc_compile_dynamic :: bool
  cc_compile_max_frames :: int
  cc_use_native_loop :: bool
  cc_cache_skip_every :: int
  cc_cache_warmup_steps :: int
  cc_cache_mode :: string
  cc_cache_adaptive_threshold :: pyfloat
  cc_cache_force_full_every :: int

definition default_cosmos_config :: cosmos_config where
  "default_cosmos_config =
     \<lparr>cc_repo_id = ''nvidia/Cosmos-1.0-Diffusion-7B-Text2World'', cc_device_index = 0, cc_dtype = ''bfloat16'',
      cc_enable_guardrail = False, cc_compile_transformer = False, cc_compile_mode = None, cc_compile_dynamic = False,
      cc_compile_max_frames = 64, cc_use_native_loop = False, cc_cache_skip_every = 0, cc_cache_warmup_steps = 4,
      cc_cache_mode = ''none'', cc_cache_adaptive_threshold = Fin (3 / 10), cc_cache_force_full_every = 16\<rparr>"

text \<open>The transformer in the pipeline: as loaded, or wrapped by \<open>torch.compile(mode, dynamic)\<close>.\<close>

datatype dit = Eager | Compiled "string option" bool

record 'c cosmos_pipeline =
  pl_transformer :: dit
  pl_scheduler :: 'c

record 'c cosmos_engine =
  ce_config :: cosmos_config
  ce_pipe :: "'c cosmos_pipeline option"
  ce_guardrail :: bool
  ce_uncompiled :: "dit option"
  ce_compile_gated :: bool

text \<open>What loading changes in the process: diffusers' safety checker and its attention dispatcher.\<close>

record process =
  pr_checker_disabled :: bool
  pr_registry :: registry

record pipe_args =
  pa_prompt :: string
  pa_negative_prompt :: "string option"
  pa_height :: int
  pa_width :: int
  pa_num_frames :: int
  pa_num_inference_steps :: int
  pa_guidance_scale :: pyfloat
  pa_fps :: "int option"
  pa_guidance_scale_2 :: "pyfloat option"
  pa_seed :: "int option"

datatype checked_video = Rejected | Bytes "8 word t4" | Numbers "rat t4"

text \<open>\<open>cl_imports\<close>, \<open>cl_pretrained\<close>, \<open>cl_compile\<close>, \<open>cl_load_guardrail\<close> and \<open>cl_manual_seed\<close> are what
  the imports, fetching the pipeline and moving it to the device, \<open>torch.compile\<close>, building the
  guardrail and seeding a generator raise.\<close>

record ('x, 'c) cosmos_lib =
  cl_imports :: "exn option"
  cl_pretrained :: "cosmos_config \<Rightarrow> exn option"
  cl_compile :: "exn option"
  cl_load_guardrail :: "exn option"
  cl_manual_seed :: "int \<Rightarrow> exn option"
  cl_scheduler :: 'c
  cl_text_safe :: "string \<Rightarrow> bool"
  cl_check_video :: "8 word t4 \<Rightarrow> checked_video"
  cl_call :: "dit \<Rightarrow> 'c \<Rightarrow> pipe_args \<Rightarrow> 'c \<times> (exn + raw_video)"
  cl_pipe :: "dit \<Rightarrow> ('x, pyfloat, 'c) cosmos_pipe"
  cl_first :: "'x \<Rightarrow> raw_video"
  cl_set_active :: "string \<Rightarrow> registry \<Rightarrow> registry"

definition cosmos_init :: "cosmos_config \<Rightarrow> 'c cosmos_engine" where
  "cosmos_init cfg =
     \<lparr>ce_config = cfg, ce_pipe = None, ce_guardrail = False, ce_uncompiled = None, ce_compile_gated = False\<rparr>"

definition cosmos_is_loaded :: "'c cosmos_engine \<Rightarrow> bool" where
  "cosmos_is_loaded e \<longleftrightarrow> ce_pipe e \<noteq> None"

definition cosmos_is_compiled :: "'c cosmos_engine \<Rightarrow> bool" where
  "cosmos_is_compiled e \<longleftrightarrow> ce_pipe e \<noteq> None \<and> cc_compile_transformer (ce_config e)"

definition cosmos_pipeline_of :: "'c cosmos_engine \<Rightarrow> exn + 'c cosmos_pipeline" where
  "cosmos_pipeline_of e =
     (case ce_pipe e of None \<Rightarrow> Inl (RuntimeError ''engine not loaded; call load() first'') | Some p \<Rightarrow> Inr p)"

definition cosmos_info :: "string \<Rightarrow> 'c cosmos_engine \<Rightarrow> engine_info" where
  "cosmos_info backend_name e =
     \<lparr>ei_model_name = ''cosmos-predict1-7b-text2world'', ei_backend = backend_name,
      ei_device = backend_name @ '':'' @ nat_str (cc_device_index (ce_config e)),
      ei_dtype = cc_dtype (ce_config e), ei_ready = cosmos_is_loaded e\<rparr>"

definition disable_cosmos_guardrail :: "process \<Rightarrow> process" where
  "disable_cosmos_guardrail pr = pr\<lparr>pr_checker_disabled := True\<rparr>"

definition cosmos_load ::
    "('x, 'c) cosmos_lib \<Rightarrow> host \<Rightarrow> process \<Rightarrow> 'c cosmos_engine \<Rightarrow> process \<times> 'c cosmos_engine \<times> (exn + unit)" where
  "cosmos_load L h pr e =
     (let cfg = ce_config e in
      if ce_pipe e \<noteq> None then (pr, e, Inr ())
      else
        (case cl_imports L of
           Some x \<Rightarrow> (pr, e, Inl x)
         | None \<Rightarrow>
             (let pr = disable_cosmos_guardrail pr;
                  pr = pr\<lparr>pr_registry := import_fp8_bridge h (pr_registry pr)\<rparr>
              in case maybe_activate_fp8 (cl_set_active L) h (pr_registry pr) of
                   Inl x \<Rightarrow> (pr, e, Inl x)
                 | Inr (r, _) \<Rightarrow>
                     (let pr = pr\<lparr>pr_registry := r\<rparr> in
                      case cl_pretrained L cfg of
                        Some x \<Rightarrow> (pr, e, Inl x)
                      | None \<Rightarrow>
                          (let e = (if cc_compile_transformer cfg then e\<lparr>ce_uncompiled := Some Eager\<rparr> else e) in
                           case (if cc_compile_transformer cfg then cl_compile L else None) of
                             Some x \<Rightarrow> (pr, e, Inl x)
                           | None \<Rightarrow>
                               (let t = (if cc_compile_transformer cfg
                                         then Compiled (cc_compile_mode cfg) (cc_compile_dynamic cfg) else Eager);
                                    e = e\<lparr>ce_pipe := Some \<lparr>pl_transformer = t, pl_scheduler = cl_scheduler L\<rparr>\<rparr>
                                in if \<not> cc_enable_guardrail cfg then (pr, e, Inr ())
                                   else (case cl_load_guardrail L of
                                           Some x \<Rightarrow> (pr, e, Inl x)
                                         | None \<Rightarrow> (pr, e\<lparr>ce_guardrail := True\<rparr>, Inr ()))))))))"

definition gate_compile_if_needed :: "int \<Rightarrow> 'c cosmos_engine \<Rightarrow> 'c cosmos_engine" where
  "gate_compile_if_needed frames e =
     (case (ce_pipe e, ce_uncompiled e) of
        (Some p, Some u) \<Rightarrow>
          (let ceiling = cc_compile_max_frames (ce_config e) in
           if ceiling \<le> 0 then e
           else if frames \<le> ceiling then e
           else e\<lparr>ce_compile_gated := True, ce_pipe := Some (p\<lparr>pl_transformer := u\<rparr>)\<rparr>)
      | _ \<Rightarrow> e)"

definition apply_video_guardrail :: "('x, 'c) cosmos_lib \<Rightarrow> 8 word t4 \<Rightarrow> exn + 8 word t4" where
  "apply_video_guardrail L video =
     (case cl_check_video L video of
        Rejected \<Rightarrow> Inl (RuntimeError ''generated video rejected by the Cosmos safety guardrail'')
      | Bytes v \<Rightarrow> Inr v
      | Numbers v \<Rightarrow> Inr (map (map (map (map (\<lambda>x. word_of_int \<lfloor>min (max x 0) 255\<rfloor>)))) v))"

definition loop_args :: "cosmos_config \<Rightarrow> generation_request \<Rightarrow> pyfloat denoise_args" where
  "loop_args cfg r =
     (let p = gr_params r in
      \<lparr>prompt = gr_prompt r, negative_prompt = gr_negative_prompt r, height = gp_height p, width = gp_width p,
       num_frames = gp_num_frames p, num_inference_steps = gp_num_inference_steps p,
       guidance_scale = gp_guidance_scale p, fps = gp_fps p, seed = gp_seed p, output_type = ''pt'', cfg_batched = True,
       cache_skip_every = cc_cache_skip_every cfg, cache_warmup_steps = cc_cache_warmup_steps cfg,
       cache_mode = cc_cache_mode cfg, cache_adaptive_threshold = cc_cache_adaptive_threshold cfg,
       cache_force_full_every = cc_cache_force_full_every cfg\<rparr>)"

definition request_args :: "generation_request \<Rightarrow> pipe_args" where
  "request_args r =
     (let p = gr_params r in
      \<lparr>pa_prompt = gr_prompt r, pa_negative_prompt = gr_negative_prompt r, pa_height = gp_height p, pa_width = gp_width p,
       pa_num_frames = gp_num_frames p, pa_num_inference_steps = gp_num_inference_steps p,
       pa_guidance_scale = gp_guidance_scale p, pa_fps = Some (gp_fps p), pa_guidance_scale_2 = None, pa_seed = gp_seed p\<rparr>)"

text \<open>The pipeline or the package's loop, whichever is configured: the scheduler's new state and the
  first video of the batch.\<close>

definition run_cosmos ::
    "('x, 'c) cosmos_lib \<Rightarrow> cosmos_config \<Rightarrow> generation_request \<Rightarrow> 'c cosmos_pipeline \<Rightarrow> 'c cosmos_pipeline \<times> (exn + raw_video)" where
  "run_cosmos L cfg r p =
     (if cc_use_native_loop cfg then
        (case denoise_cosmos_video (cl_pipe L (pl_transformer p)) (loop_args cfg r) None (pl_scheduler p) of
           Inl x \<Rightarrow> (p, Inl x)
         | Inr (v, _, c) \<Rightarrow> (p\<lparr>pl_scheduler := c\<rparr>, Inr (cl_first L v)))
      else
        (case cl_call L (pl_transformer p) (pl_scheduler p) (request_args r) of
           (c, res) \<Rightarrow> (p\<lparr>pl_scheduler := c\<rparr>, res)))"

definition finish_video ::
    "('x, 'c) cosmos_lib \<Rightarrow> bool \<Rightarrow> raw_video \<Rightarrow> exn + 8 word list list list frame list" where
  "finish_video L guarded raw =
     (case as_frame_tensor raw of
        Inl x \<Rightarrow> Inl x
      | Inr video \<Rightarrow>
          (case (if guarded then apply_video_guardrail L video else Inr video) of
             Inl x \<Rightarrow> Inl x
           | Inr video \<Rightarrow> Inr (frames_of video)))"

definition produce_video ::
    "('x, 'c) cosmos_lib \<Rightarrow> generation_request \<Rightarrow> 'c cosmos_engine
      \<Rightarrow> 'c cosmos_engine \<times> (exn + 8 word list list list frame list)" where
  "produce_video L r e =
     (let e = gate_compile_if_needed (gp_num_frames (gr_params r)) e in
      case Option.bind (gp_seed (gr_params r)) (cl_manual_seed L) of
        Some x \<Rightarrow> (e, Inl x)
      | None \<Rightarrow>
          (case ce_pipe e of
             None \<Rightarrow> (e, Inl AssertionError)
           | Some p \<Rightarrow>
               (case run_cosmos L (ce_config e) r p of
                  (p, res) \<Rightarrow>
                    (e\<lparr>ce_pipe := Some p\<rparr>,
                     (case res of Inl x \<Rightarrow> Inl x | Inr raw \<Rightarrow> finish_video L (ce_guardrail e) raw)))))"

text \<open>\<open>generate\<close> up to its first frame; the frames are then handed out one by one.\<close>

definition cosmos_generate ::
    "('x, 'c) cosmos_lib \<Rightarrow> host \<Rightarrow> generation_request \<Rightarrow> process \<Rightarrow> 'c cosmos_engine
      \<Rightarrow> process \<times> 'c cosmos_engine \<times> (exn + 8 word list list list frame list)" where
  "cosmos_generate L h r pr e =
     (case cosmos_load L h pr e of
        (pr, e, Inl x) \<Rightarrow> (pr, e, Inl x)
      | (pr, e, Inr _) \<Rightarrow>
          (if ce_guardrail e \<and> \<not> cl_text_safe L (gr_prompt r) then
             (pr, e, Inl (RuntimeError ''prompt rejected by the Cosmos safety guardrail''))
           else (pr, produce_video L r e)))"

section \<open>Wan\<close>

record wan_config =
  wc_repo_id :: string
  wc_device_index :: nat
  wc_dtype :: string
  wc_vae_dtype :: string
  wc_guidance_scale_2 :: pyfloat
  wc_compile_transformer :: bool
  wc_use_native_loop :: bool
  wc_cache_skip_every :: int
  wc_cache_warmup_steps :: int
  wc_vae_tiling :: bool

definition default_wan_config :: wan_config where
  "default_wan_config =
     \<lparr>wc_repo_id = ''Wan-AI/Wan2.2-T2V-A14B-Diffusers'', wc_device_index = 0, wc_dtype = ''bfloat16'', wc_vae_dtype = ''float32'',
      wc_guidance_scale_2 = Fin 3, wc_compile_transformer = False, wc_use_native_loop = False, wc_cache_skip_every = 0,
      wc_cache_warmup_steps = 4, wc_vae_tiling = False\<rparr>"

text \<open>\<open>wl_call\<close> gets the pipeline with its transformers, and whether the VAE decodes in tiles.\<close>

record 't wan_engine =
  we_config :: wan_config
  we_pipe :: "('t wan_pipe \<times> bool) option"

record 't wan_world =
  wl_imports :: "exn option"
  wl_pretrained :: "wan_config \<Rightarrow> exn + 't wan_pipe"
  wl_processors :: "'t wan_lib"
  wl_compile :: "'t \<Rightarrow> exn + 't"
  wl_manual_seed :: "int \<Rightarrow> exn option"
  wl_boundary_ratio :: "rat option"
  wl_call :: "'t wan_pipe \<Rightarrow> bool \<Rightarrow> pipe_args \<Rightarrow> exn + raw_video"

definition wan_init :: "wan_config \<Rightarrow> 't wan_engine" where
  "wan_init cfg = \<lparr>we_config = cfg, we_pipe = None\<rparr>"

definition wan_is_loaded :: "'t wan_engine \<Rightarrow> bool" where
  "wan_is_loaded e \<longleftrightarrow> we_pipe e \<noteq> None"

definition wan_is_compiled :: "'t wan_engine \<Rightarrow> bool" where
  "wan_is_compiled e \<longleftrightarrow> we_pipe e \<noteq> None \<and> wc_compile_transformer (we_config e)"

definition wan_info :: "string \<Rightarrow> 't wan_engine \<Rightarrow> engine_info" where
  "wan_info backend_name e =
     \<lparr>ei_model_name = ''wan-2.2-t2v-a14b'', ei_backend = backend_name,
      ei_device = backend_name @ '':'' @ nat_str (wc_device_index (we_config e)),
      ei_dtype = wc_dtype (we_config e), ei_ready = wan_is_loaded e\<rparr>"

definition compile_transformer :: "('t \<Rightarrow> exn + 't) \<Rightarrow> 't option \<Rightarrow> exn + 't option" where
  "compile_transformer wrap t =
     (case t of None \<Rightarrow> Inr None | Some t \<Rightarrow> (case wrap t of Inl x \<Rightarrow> Inl x | Inr t' \<Rightarrow> Inr (Some t')))"

definition wan_load ::
    "'t wan_world \<Rightarrow> host \<Rightarrow> process \<Rightarrow> 't wan_engine \<Rightarrow> process \<times> 't wan_engine \<times> (exn + unit)" where
  "wan_load L h pr e =
     (let cfg = we_config e in
      if we_pipe e \<noteq> None then (pr, e, Inr ())
      else
        (case wl_imports L of
           Some x \<Rightarrow> (pr, e, Inl x)
         | None \<Rightarrow>
             (case wl_pretrained L cfg of
                Inl x \<Rightarrow> (pr, e, Inl x)
              | Inr p \<Rightarrow>
                  (case maybe_install_repercep_wan_attention (wl_processors L) h (pr_registry pr) p of
                     (r, p, _) \<Rightarrow>
                       (let pr = pr\<lparr>pr_registry := r\<rparr> in
                        if \<not> wc_compile_transformer cfg then (pr, e\<lparr>we_pipe := Some (p, wc_vae_tiling cfg)\<rparr>, Inr ())
                        else
                          (case compile_transformer (wl_compile L) (wn_transformer p) of
                             Inl x \<Rightarrow> (pr, e, Inl x)
                           | Inr t1 \<Rightarrow>
                               (case compile_transformer (wl_compile L) (wn_transformer_2 p) of
                                  Inl x \<Rightarrow> (pr, e, Inl x)
                                | Inr t2 \<Rightarrow>
                                    (pr, e\<lparr>we_pipe := Some (\<lparr>wn_transformer = t1, wn_transformer_2 = t2\<rparr>, wc_vae_tiling cfg)\<rparr>,
                                     Inr ()))))))))"

text \<open>Wan's pipeline takes no frame rate, and the second guidance scale only where it has a boundary
  between its experts.\<close>

definition wan_args :: "wan_config \<Rightarrow> rat option \<Rightarrow> generation_request \<Rightarrow> pipe_args" where
  "wan_args cfg boundary r =
     (request_args r)\<lparr>pa_fps := None,
       pa_guidance_scale_2 := (if boundary \<noteq> None then Some (wc_guidance_scale_2 cfg) else None)\<rparr>"

definition wan_generate ::
    "'t wan_world \<Rightarrow> host \<Rightarrow> generation_request \<Rightarrow> process \<Rightarrow> 't wan_engine
      \<Rightarrow> process \<times> 't wan_engine \<times> (exn + 8 word list list list frame list)" where
  "wan_generate L h r pr e =
     (case wan_load L h pr e of
        (pr, e, Inl x) \<Rightarrow> (pr, e, Inl x)
      | (pr, e, Inr _) \<Rightarrow>
          (case we_pipe e of
             None \<Rightarrow> (pr, e, Inl AssertionError)
           | Some (p, tiled) \<Rightarrow>
               (case Option.bind (gp_seed (gr_params r)) (wl_manual_seed L) of
                  Some x \<Rightarrow> (pr, e, Inl x)
                | None \<Rightarrow>
                    (case wl_call L p tiled (wan_args (we_config e) (wl_boundary_ratio L) r) of
                       Inl x \<Rightarrow> (pr, e, Inl x)
                     | Inr raw \<Rightarrow>
                         (case as_frame_tensor raw of
                            Inl x \<Rightarrow> (pr, e, Inl x)
                          | Inr video \<Rightarrow> (pr, e, Inr (frames_of video)))))))"

section \<open>Frames\<close>

lemma frames_of_in_order: "frames_in_order (frames_of video)"
  by (simp add: frames_in_order_def frames_of_def list_all_iff comp_def)

lemma frames_of_pixels: "map fr_pixels (frames_of video) = video"
  by (simp add: frames_of_def comp_def map_nth)

lemma cosmos_generate_frames:
  "snd (snd (cosmos_generate L h r pr e)) = Inr fs \<Longrightarrow> \<exists>video. fs = frames_of video"
  by (auto simp: cosmos_generate_def produce_video_def finish_video_def Let_def split: prod.splits sum.splits option.splits if_splits)

lemma wan_generate_frames:
  "snd (snd (wan_generate L h r pr e)) = Inr fs \<Longrightarrow> \<exists>video. fs = frames_of video"
  by (auto simp: wan_generate_def split: prod.splits sum.splits option.splits)

text \<open>The frames an engine yields, none where it raises.\<close>

definition yielded :: "'a \<times> 'b \<times> (exn + 'x frame list) \<Rightarrow> 'x frame list" where
  "yielded res = (case snd (snd res) of Inl _ \<Rightarrow> [] | Inr fs \<Rightarrow> fs)"

lemma yielded_in_order: "(\<And>fs. snd (snd res) = Inr fs \<Longrightarrow> \<exists>video. fs = frames_of video) \<Longrightarrow> frames_in_order (yielded res)"
  by (cases "snd (snd res)") (auto simp: yielded_def frames_of_in_order frames_in_order_def [of "[]"])

interpretation cosmos: frame_engine "\<lambda>(L, h, pr, e) r. yielded (cosmos_generate L h r pr e)"
  by unfold_locales (auto split: prod.split intro!: yielded_in_order cosmos_generate_frames)

interpretation wan: frame_engine "\<lambda>(L, h, pr, e) r. yielded (wan_generate L h r pr e)"
  by unfold_locales (auto split: prod.split intro!: yielded_in_order wan_generate_frames)

section \<open>Pixels\<close>

definition of_byte :: "8 word \<Rightarrow> rat" where
  "of_byte b = of_int (uint b) / 255"

definition channels_first :: "'a list list list \<Rightarrow> 'a list list list" where
  "channels_first f = transpose (map transpose f)"

lemma to_byte_of_byte [simp]: "to_byte (of_byte b) = b"
proof -
  have b: "of_byte b * 255 = of_int (uint b)" by (simp add: of_byte_def)
  have "uint b \<le> 255" using uint_lt2p [of b] by simp
  then have "of_int (uint b) \<le> (of_int 255 :: rat)" by (simp only: of_int_le_iff)
  then have "of_byte b \<le> 1" by (simp add: of_byte_def)
  moreover have "0 \<le> (of_int (uint b) :: rat)" by (simp only: of_int_0_le_iff uint_ge_0)
  then have "0 \<le> of_byte b" unfolding of_byte_def by (rule divide_nonneg_pos) simp
  ultimately have "min (max (of_byte b) 0) 1 = of_byte b" by simp
  then show ?thesis unfolding to_byte_def by (simp only: b round_even_of_int word_of_int_uint)
qed

lemma to_byte_error: "\<bar>of_byte (to_byte x) - min (max x 0) 1\<bar> \<le> 1 / 510"
proof -
  define c where "c = min (max x 0) (1 :: rat)"
  define R where "R = round_even (c * 255)"
  have "0 \<le> c" "c \<le> 1" by (simp_all add: c_def)
  then have "0 \<le> R" "R \<le> 255" unfolding R_def using round_even_between [of 0 "c * 255" 255] by simp_all
  then have "uint (to_byte x) = R" by (simp add: to_byte_def uint_word_of_int_eq take_bit_int_eq_self flip: c_def R_def)
  then have "(of_byte (to_byte x) - c) * 255 = of_int R - c * 255" by (simp add: of_byte_def left_diff_distrib)
  moreover have "\<bar>of_int R - c * 255\<bar> \<le> 1 / 2" unfolding R_def by (rule round_even_error)
  moreover have "\<bar>of_byte (to_byte x) - c\<bar> * 255 = \<bar>(of_byte (to_byte x) - c) * 255\<bar>" by (simp only: abs_mult abs_numeral)
  ultimately have "\<bar>of_byte (to_byte x) - c\<bar> * 255 \<le> 1 / 2" by (simp only:)
  then show ?thesis by (simp add: c_def)
qed

lemma channels_round:
  assumes "rect2 h w f" "\<forall>r \<in> set f. \<forall>e \<in> set r. length e = c" "h > 0" "w > 0" "c > 0"
  shows "channels_last (channels_first f) = f"
proof -
  have row: "rect2 w c r" if "r \<in> set f" for r using assms(1,2) that by (auto simp: rect2_def)
  have "rect2 h c (map transpose f)" using assms(1) transpose_rect2(2) [OF row assms(4)] by (auto simp: rect2_def)
  from transpose_twice [OF this assms(3,5)] have "channels_last (channels_first f) = map transpose (map transpose f)"
    by (simp add: channels_last_def channels_first_def)
  also have "\<dots> = f" using transpose_twice [OF row assms(4,5)] by (auto intro: map_idI)
  finally show ?thesis .
qed

lemma channels_first_length: "rect2 h w f \<Longrightarrow> \<forall>r \<in> set f. \<forall>e \<in> set r. length e = c \<Longrightarrow> h > 0 \<Longrightarrow> w > 0 \<Longrightarrow> length (channels_first f) = c"
proof -
  assume a: "rect2 h w f" "\<forall>r \<in> set f. \<forall>e \<in> set r. length e = c" "h > 0" "w > 0"
  then have row: "rect2 w c r" if "r \<in> set f" for r using that by (auto simp: rect2_def)
  have "rect2 h c (map transpose f)" using a(1) transpose_rect2(2) [OF row a(4)] by (auto simp: rect2_def)
  from transpose_rect2(2) [OF this a(3)] show ?thesis by (simp add: channels_first_def rect2_def)
qed

section \<open>Invariants of the Cosmos engine\<close>

text \<open>Calls with the collaborators each of them meets.\<close>

definition cosmos_call ::
    "host \<Rightarrow> ('x, 'c) cosmos_lib \<times> generation_request \<Rightarrow> process \<times> 'c cosmos_engine
      \<Rightarrow> (process \<times> 'c cosmos_engine) \<times> (exn + 8 word list list list frame list)" where
  "cosmos_call h c s = (case cosmos_generate (fst c) h (snd c) (fst s) (snd s) of (pr, e, res) \<Rightarrow> ((pr, e), res))"

definition cosmos_ok :: "cosmos_config \<Rightarrow> 'c cosmos_engine \<Rightarrow> bool" where
  "cosmos_ok cfg e \<longleftrightarrow> ce_config e = cfg \<and> ce_uncompiled e \<in> {None, Some Eager}
     \<and> (ce_guardrail e \<longrightarrow> ce_pipe e \<noteq> None \<and> cc_enable_guardrail cfg)
     \<and> (\<forall>p. ce_pipe e = Some p \<longrightarrow> (if cc_compile_transformer cfg then ce_uncompiled e = Some Eager else pl_transformer p = Eager))"

lemma cosmos_init_ok: "cosmos_ok cfg (cosmos_init cfg)"
  by (simp add: cosmos_ok_def cosmos_init_def)

lemma load_ok: "cosmos_ok cfg e \<Longrightarrow> cosmos_ok cfg (fst (snd (cosmos_load L h pr e)))"
  by (auto simp: cosmos_ok_def cosmos_load_def Let_def split: option.splits sum.splits prod.splits)

lemma compile_gate_ok: "cosmos_ok cfg e \<Longrightarrow> cosmos_ok cfg (gate_compile_if_needed n e)"
  by (auto simp: cosmos_ok_def gate_compile_if_needed_def Let_def split: option.splits)

lemma run_cosmos_transformer: "pl_transformer (fst (run_cosmos L cfg r p)) = pl_transformer p"
  by (auto simp: run_cosmos_def split: sum.splits prod.splits)

lemma ok_same_transformer:
  "cosmos_ok cfg e \<Longrightarrow> ce_pipe e = Some p \<Longrightarrow> pl_transformer p' = pl_transformer p \<Longrightarrow> cosmos_ok cfg (e\<lparr>ce_pipe := Some p'\<rparr>)"
  by (auto simp: cosmos_ok_def)

text \<open>The engine after \<open>produce_video\<close>: that after the gate, perhaps with a new scheduler state.\<close>

lemma produce_engine:
  obtains "fst (produce_video L r e) = gate_compile_if_needed (gp_num_frames (gr_params r)) e"
    | p p' where "ce_pipe (gate_compile_if_needed (gp_num_frames (gr_params r)) e) = Some p" "pl_transformer p' = pl_transformer p"
      "fst (produce_video L r e) = (gate_compile_if_needed (gp_num_frames (gr_params r)) e)\<lparr>ce_pipe := Some p'\<rparr>"
proof -
  let ?g = "gate_compile_if_needed (gp_num_frames (gr_params r)) e"
  show thesis
  proof (cases "Option.bind (gp_seed (gr_params r)) (cl_manual_seed L)")
    case None
    show ?thesis
    proof (cases "ce_pipe ?g")
      case (Some p)
      with None have "fst (produce_video L r e) = ?g\<lparr>ce_pipe := Some (fst (run_cosmos L (ce_config ?g) r p))\<rparr>"
        by (simp add: produce_video_def Let_def split_beta)
      with that(2) [OF Some run_cosmos_transformer] show ?thesis by blast
    qed (use None that(1) in \<open>simp add: produce_video_def Let_def\<close>)
  qed (use that(1) in \<open>simp add: produce_video_def Let_def\<close>)
qed

lemma produce_ok:
  assumes "cosmos_ok cfg e" shows "cosmos_ok cfg (fst (produce_video L r e))"
  by (rule produce_engine [of L r e]) (simp_all only: compile_gate_ok [OF assms] ok_same_transformer [OF compile_gate_ok [OF assms]])

lemma cosmos_generate_cases:
  obtains (load) pr1 e1 x where "cosmos_load L h pr e = (pr1, e1, Inl x)" "cosmos_generate L h r pr e = (pr1, e1, Inl x)"
    | (prompt) pr1 e1 where "cosmos_load L h pr e = (pr1, e1, Inr ())" "ce_guardrail e1" "\<not> cl_text_safe L (gr_prompt r)"
      "cosmos_generate L h r pr e = (pr1, e1, Inl (RuntimeError ''prompt rejected by the Cosmos safety guardrail''))"
    | (run) pr1 e1 where "cosmos_load L h pr e = (pr1, e1, Inr ())" "ce_guardrail e1 \<longrightarrow> cl_text_safe L (gr_prompt r)"
      "cosmos_generate L h r pr e = (pr1, produce_video L r e1)"
proof -
  obtain pr1 e1 o1 where l: "cosmos_load L h pr e = (pr1, e1, o1)" by (metis prod_cases3)
  show thesis
  proof (cases o1)
    case (Inl x)
    with l show ?thesis by (intro load) (simp_all add: cosmos_generate_def)
  next
    case (Inr u)
    show ?thesis
    proof (cases "ce_guardrail e1 \<and> \<not> cl_text_safe L (gr_prompt r)")
      case True
      with l Inr show ?thesis by (intro prompt) (simp_all add: cosmos_generate_def)
    next
      case False
      with l Inr show ?thesis by (intro run) (auto simp: cosmos_generate_def)
    qed
  qed
qed

lemma generate_ok:
  assumes "cosmos_ok cfg e" shows "cosmos_ok cfg (fst (snd (cosmos_generate L h r pr e)))"
proof -
  obtain pr1 e1 o1 where l: "cosmos_load L h pr e = (pr1, e1, o1)" by (metis prod_cases3)
  have "cosmos_ok cfg e1" using load_ok [OF assms, of L h pr] by (simp add: l)
  then show ?thesis using produce_ok [of cfg e1 L r] by (auto simp: cosmos_generate_def l split: sum.split)
qed

lemma run_ok:
  "cosmos_ok cfg (snd s) \<Longrightarrow> cosmos_ok cfg (snd (fst (run_calls (cosmos_call h) s cs)))"
proof (induction cs arbitrary: s)
  case (Cons c cs)
  obtain s' res where c: "cosmos_call h c s = (s', res)" by fastforce
  then have "cosmos_ok cfg (snd s')" using generate_ok [OF Cons.prems, of "fst c" h "snd c" "fst s"]
    by (auto simp: cosmos_call_def split: prod.splits)
  from Cons.IH [OF this] show ?case by (cases "run_calls (cosmos_call h) s' cs") (simp add: c)
qed simp

section \<open>The guardrail\<close>

text \<open>Frames the guardrail of this call approved: the prompt, and then the video as it returned it.\<close>

definition approved :: "('x, 'c) cosmos_lib \<Rightarrow> generation_request \<Rightarrow> 8 word list list list frame list \<Rightarrow> bool" where
  "approved L r fs \<longleftrightarrow> cl_text_safe L (gr_prompt r) \<and> (\<exists>video. apply_video_guardrail L video = Inr (map fr_pixels fs))"

definition guarded :: "'c cosmos_engine \<Rightarrow> bool" where
  "guarded e \<longleftrightarrow> (ce_pipe e \<noteq> None \<longrightarrow> ce_guardrail e)"

lemma load_guarded:
  assumes "guarded e" "cc_enable_guardrail (ce_config e)" "cl_load_guardrail L = None"
  shows "guarded (fst (snd (cosmos_load L h pr e)))" "snd (snd (cosmos_load L h pr e)) = Inr u \<Longrightarrow> ce_guardrail (fst (snd (cosmos_load L h pr e)))"
  using assms by (auto simp: cosmos_load_def guarded_def Let_def split: option.splits sum.splits prod.splits)

lemma gate_frame [simp]:
  "ce_guardrail (gate_compile_if_needed n e) = ce_guardrail e" "ce_config (gate_compile_if_needed n e) = ce_config e"
  "ce_uncompiled (gate_compile_if_needed n e) = ce_uncompiled e"
  by (auto simp: gate_compile_if_needed_def Let_def split: option.splits)

lemma gate_pipe: "ce_pipe (gate_compile_if_needed n e) = None \<longleftrightarrow> ce_pipe e = None"
  by (auto simp: gate_compile_if_needed_def Let_def split: option.splits)

lemma produce_frame [simp]:
  "ce_guardrail (fst (produce_video L r e)) = ce_guardrail e" "ce_config (fst (produce_video L r e)) = ce_config e"
  "ce_uncompiled (fst (produce_video L r e)) = ce_uncompiled e"
  by (rule produce_engine [of L r e]; simp; fail)+

lemma produce_pipe [simp]: "ce_pipe (fst (produce_video L r e)) = None \<longleftrightarrow> ce_pipe e = None"
proof (rule produce_engine [of L r e])
  fix p p' assume "ce_pipe (gate_compile_if_needed (gp_num_frames (gr_params r)) e) = Some p"
    "fst (produce_video L r e) = (gate_compile_if_needed (gp_num_frames (gr_params r)) e)\<lparr>ce_pipe := Some p'\<rparr>"
  moreover from this(1) have "ce_pipe e \<noteq> None" by (metis gate_pipe option.distinct(1))
  ultimately show ?thesis by simp
qed (simp add: gate_pipe)

lemma produce_approved:
  assumes "snd (produce_video L r e) = Inr fs" "ce_guardrail e"
  shows "\<exists>video. apply_video_guardrail L video = Inr (map fr_pixels fs)"
  using assms by (auto simp: produce_video_def finish_video_def frames_of_pixels Let_def split: option.splits prod.splits sum.splits)

lemma load_config [simp]: "ce_config (fst (snd (cosmos_load L h pr e))) = ce_config e"
  by (auto simp: cosmos_load_def Let_def split: option.splits sum.splits prod.splits)

lemma generate_guarded:
  assumes "guarded e" "cc_enable_guardrail (ce_config e)" "cl_load_guardrail L = None"
  shows "guarded (fst (snd (cosmos_generate L h r pr e))) \<and> ce_config (fst (snd (cosmos_generate L h r pr e))) = ce_config e
    \<and> (\<forall>fs. snd (snd (cosmos_generate L h r pr e)) = Inr fs \<longrightarrow> approved L r fs)"
proof (cases rule: cosmos_generate_cases [of L h pr e r])
  case (load pr1 e1 x)
  with load_guarded(1) [OF assms, of h pr] load_config [of L h pr e] show ?thesis by simp
next
  case (prompt pr1 e1)
  with load_guarded(1) [OF assms, of h pr] load_config [of L h pr e] show ?thesis by simp
next
  case (run pr1 e1)
  then have e1: "guarded e1" "ce_guardrail e1" "ce_config e1 = ce_config e"
    using load_guarded [OF assms, of h pr] load_config [of L h pr e] by simp_all
  then show ?thesis
    using run produce_approved [of L r e1] by (auto simp: guarded_def approved_def)
qed

lemma produce_cong:
  assumes "cl_manual_seed L1 = cl_manual_seed L2" "finish_video L1 (ce_guardrail e) = finish_video L2 (ce_guardrail e)"
    and "\<And>p. ce_pipe (gate_compile_if_needed (gp_num_frames (gr_params r)) e) = Some p \<Longrightarrow>
      run_cosmos L1 (ce_config e) r p = run_cosmos L2 (ce_config e) r p"
  shows "produce_video L1 r e = produce_video L2 r e"
  unfolding produce_video_def Let_def gate_frame assms(1,2)
  by (cases "Option.bind (gp_seed (gr_params r)) (cl_manual_seed L2)";
      cases "ce_pipe (gate_compile_if_needed (gp_num_frames (gr_params r)) e)") (simp_all add: assms(3))

section \<open>The compile gate\<close>

text \<open>The same collaborators, except that the compiled transformer does something else.\<close>

definition compiled_does ::
    "(dit \<Rightarrow> 'c \<Rightarrow> pipe_args \<Rightarrow> 'c \<times> (exn + raw_video)) \<Rightarrow> (dit \<Rightarrow> ('x, pyfloat, 'c) cosmos_pipe) \<Rightarrow> ('x, 'c) cosmos_lib
      \<Rightarrow> ('x, 'c) cosmos_lib" where
  "compiled_does call pipe L = L\<lparr>cl_call := (\<lambda>t. if t = Eager then cl_call L t else call t),
     cl_pipe := (\<lambda>t. if t = Eager then cl_pipe L t else pipe t)\<rparr>"

lemma compiled_does_fields [simp]:
  "cosmos_load (compiled_does call pipe L) = cosmos_load L" "cl_text_safe (compiled_does call pipe L) = cl_text_safe L"
  "cl_manual_seed (compiled_does call pipe L) = cl_manual_seed L" "finish_video (compiled_does call pipe L) = finish_video L"
  "pl_transformer p = Eager \<Longrightarrow> run_cosmos (compiled_does call pipe L) cfg r p = run_cosmos L cfg r p"
  by (auto simp: fun_eq_iff cosmos_load_def Let_def compiled_does_def finish_video_def apply_video_guardrail_def run_cosmos_def
      split: option.split sum.split)

definition runs_eager :: "'c cosmos_engine \<Rightarrow> bool" where
  "runs_eager e \<longleftrightarrow> (\<forall>p. ce_pipe e = Some p \<longrightarrow> pl_transformer p = Eager)"

lemma produce_eager:
  assumes "runs_eager (gate_compile_if_needed (gp_num_frames (gr_params r)) e)"
  shows "produce_video (compiled_does call pipe L) r e = produce_video L r e" "runs_eager (fst (produce_video L r e))"
proof -
  show "produce_video (compiled_does call pipe L) r e = produce_video L r e"
    using assms by (intro produce_cong) (simp_all add: runs_eager_def)
  show "runs_eager (fst (produce_video L r e))"
    by (rule produce_engine [of L r e]) (use assms in \<open>simp_all add: runs_eager_def\<close>)
qed

lemma gate_eager:
  assumes "cosmos_ok cfg e" "cc_compile_max_frames cfg > 0" "n > cc_compile_max_frames cfg"
  shows "runs_eager (gate_compile_if_needed n e)"
  using assms by (auto simp: gate_compile_if_needed_def cosmos_ok_def runs_eager_def Let_def split: option.split if_splits)

lemma gate_keeps_eager: "cosmos_ok cfg e \<Longrightarrow> runs_eager e \<Longrightarrow> runs_eager (gate_compile_if_needed n e)"
  by (cases "ce_pipe e"; cases "ce_uncompiled e")
    (simp_all add: gate_compile_if_needed_def cosmos_ok_def runs_eager_def Let_def)

lemma load_when_loaded: "ce_pipe e \<noteq> None \<Longrightarrow> cosmos_load L h pr e = (pr, e, Inr ())"
  by (auto simp: cosmos_load_def Let_def)

section \<open>Properties\<close>

text \<open>C30: with the guardrail enabled and loadable, every clip the engine yields, in any sequence of
  requests, is for a prompt the guardrail accepted and consists of the frames the guardrail
  returned; a rejection of either is an error without frames.\<close>

theorem guarded_engine_yields_only_approved_frames:
  fixes rs :: "(('x, 'c) cosmos_lib \<times> generation_request) list"
  assumes "cc_enable_guardrail cfg" "list_all (\<lambda>(L, r). cl_load_guardrail L = None) rs"
  shows "list_all2 (\<lambda>(L, r) res. case res of Inl _ \<Rightarrow> True | Inr fs \<Rightarrow> approved L r fs) rs
    (snd (run_calls (cosmos_call h) (pr, cosmos_init cfg) rs))"
proof -
  have "list_all2 (\<lambda>(L, r) res. case res of Inl _ \<Rightarrow> True | Inr fs \<Rightarrow> approved L r fs) rs (snd (run_calls (cosmos_call h) s rs))"
    if "guarded (snd s)" "cc_enable_guardrail (ce_config (snd s))" for s :: "process \<times> 'c cosmos_engine"
    using assms(2) that
  proof (induction rs arbitrary: s)
    case (Cons c rs)
    obtain L r where c: "c = (L, r)" by (cases c)
    have L: "cl_load_guardrail L = None" using Cons.prems(1) by (simp add: c)
    obtain pr1 e1 res where g: "cosmos_generate L h r (fst s) (snd s) = (pr1, e1, res)" by (metis prod_cases3)
    note ok = generate_guarded [OF Cons.prems(2,3) L, of h r "fst s", unfolded g fst_conv snd_conv]
    have "list_all2 (\<lambda>(L, r) res. case res of Inl _ \<Rightarrow> True | Inr fs \<Rightarrow> approved L r fs) rs (snd (run_calls (cosmos_call h) (pr1, e1) rs))"
      by (rule Cons.IH) (use Cons.prems ok in auto)
    moreover have "cosmos_call h c s = ((pr1, e1), res)" by (simp add: c cosmos_call_def g)
    moreover have "case res of Inl _ \<Rightarrow> True | Inr fs \<Rightarrow> approved L r fs" using ok by (simp split: sum.split)
    ultimately show ?case by (cases "run_calls (cosmos_call h) (pr1, e1) rs") (simp add: c)
  qed simp
  then show ?thesis using assms(1) by (simp add: guarded_def cosmos_init_def)
qed

text \<open>C31: if building the guardrail fails, the engine is left loaded without it: the first request
  raises, and every later one is answered as if the guardrail were switched off, even by
  collaborators whose guardrail rejects everything.\<close>

theorem failed_guardrail_load_leaves_engine_unguarded:
  assumes "ce_pipe e = None" "\<not> ce_guardrail e" "cosmos_load L h pr e = (pr1, e1, Inl x)" "ce_pipe e1 \<noteq> None"
  shows "cc_enable_guardrail (ce_config e) \<and> cl_load_guardrail L = Some x
    \<and> cosmos_generate L h r pr e = (pr1, e1, Inl x)
    \<and> cosmos_generate (L'\<lparr>cl_text_safe := (\<lambda>_. False), cl_check_video := (\<lambda>_. Rejected)\<rparr>) h' r' pr' e1 = cosmos_generate L' h' r' pr' e1"
proof -
  have load: "cc_enable_guardrail (ce_config e)" "cl_load_guardrail L = Some x" "\<not> ce_guardrail e1"
    using assms by (auto simp: cosmos_load_def Let_def split: option.splits sum.splits prod.splits if_splits)
  have "finish_video (L'\<lparr>cl_text_safe := (\<lambda>_. False), cl_check_video := (\<lambda>_. Rejected)\<rparr>) False = finish_video L' False"
    by (simp only: fun_eq_iff finish_video_def if_False) simp
  moreover have "run_cosmos (L'\<lparr>cl_text_safe := (\<lambda>_. False), cl_check_video := (\<lambda>_. Rejected)\<rparr>) = run_cosmos L'"
    by (simp add: fun_eq_iff run_cosmos_def split: sum.split)
  ultimately have "produce_video (L'\<lparr>cl_text_safe := (\<lambda>_. False), cl_check_video := (\<lambda>_. Rejected)\<rparr>) r' e1 = produce_video L' r' e1"
    using load(3) by (intro produce_cong) (simp_all add: fun_eq_iff)
  then show ?thesis using load assms(3) by (simp add: cosmos_generate_def load_when_loaded [OF assms(4)])
qed

text \<open>above the configured number of frames the compiled transformer never runs, whatever requests
  came before: the call behaves the same for any behaviour of the compiled module.\<close>

theorem oversized_requests_never_run_compiled:
  assumes "0 < cc_compile_max_frames cfg" "cc_compile_max_frames cfg < gp_num_frames (gr_params r)"
    and "s = fst (run_calls (cosmos_call h) (pr, cosmos_init cfg) rs)"
  shows "cosmos_generate (compiled_does call pipe L) h r (fst s) (snd s) = cosmos_generate L h r (fst s) (snd s)"
proof -
  have ok: "cosmos_ok cfg (snd s)" unfolding assms(3) by (rule run_ok) (simp add: cosmos_init_ok)
  obtain pr1 e1 o1 where l: "cosmos_load L h (fst s) (snd s) = (pr1, e1, o1)" by (metis prod_cases3)
  have "cosmos_ok cfg e1" using load_ok [OF ok, of L h "fst s"] by (simp add: l)
  from produce_eager(1) [OF gate_eager [OF this assms(1,2)], of call pipe L] show ?thesis
    by (cases o1) (simp_all add: cosmos_generate_def l)
qed

text \<open>the fallback is not for one request: once an oversized request has been answered, no later request
  of any size runs the compiled transformer, while \<open>is_compiled\<close> still says so.\<close>

theorem compile_gate_is_permanent:
  assumes "0 < cc_compile_max_frames cfg" "cc_compile_max_frames cfg < gp_num_frames (gr_params r)" "cc_compile_transformer cfg"
    and "cosmos_ok cfg e" "cosmos_generate L h r pr e = (pr1, e1, Inr fs)"
  shows "cosmos_is_compiled e1 \<and> cosmos_generate (compiled_does call pipe L') h' r' pr1 e1 = cosmos_generate L' h' r' pr1 e1"
proof (cases rule: cosmos_generate_cases [of L h pr e r])
  case (run pr2 e2)
  have ok2: "cosmos_ok cfg e2" using load_ok [OF assms(4), of L h pr] run(1) by simp
  have e1: "e1 = fst (produce_video L r e2)" using run(3) assms(5) by (cases "produce_video L r e2") simp
  have eager: "runs_eager e1" unfolding e1 by (rule produce_eager(2) [OF gate_eager [OF ok2 assms(1,2)]])
  have ok1: "cosmos_ok cfg e1" unfolding e1 by (rule produce_ok [OF ok2])
  have "ce_pipe e2 \<noteq> None" using run(1) by (auto simp: cosmos_load_def Let_def split: option.splits sum.splits prod.splits if_splits)
  then have loaded: "ce_pipe e1 \<noteq> None" by (simp add: e1)
  have "cosmos_is_compiled e1" using loaded ok1 assms(3) by (simp add: cosmos_is_compiled_def cosmos_ok_def)
  moreover have "produce_video (compiled_does call pipe L') r' e1 = produce_video L' r' e1"
    by (rule produce_eager(1) [OF gate_keeps_eager [OF ok1 eager]])
  ultimately show ?thesis by (simp add: cosmos_generate_def load_when_loaded [OF loaded])
qed (use assms(5) in auto)


section \<open>Witnesses\<close>

text \<open>Collaborators over trivial tensors: every clip is one white frame of one pixel.\<close>

definition unit_pipe :: "(unit, pyfloat, unit) cosmos_pipe" where
  "unit_pipe =
     \<lparr>encode_prompt = (\<lambda>p n. ((), ())), set_timesteps = (\<lambda>n c. (c, [])), prepare_latents = (\<lambda>h w n s. ()), zero_mask = (\<lambda>x h w. ()),
      scale_model_input = (\<lambda>x t c. (c, ())), to_dtype = id, expand_to = (\<lambda>x y. ()), transformer = (\<lambda>x t e f p. ()),
      scheduler_step = (\<lambda>n t s g c. (c, ((), ()))), rewind_index = id, t_cat = (\<lambda>x y. ()), t_repeat2 = id, t_chunk2 = (\<lambda>x. ((), ())),
      t_add = (\<lambda>x y. ()), t_sub = (\<lambda>x y. ()), t_mul = (\<lambda>x y. ()), t_div = (\<lambda>x y. ()), t_scale = (\<lambda>f x. ()), t_unscale = (\<lambda>x f. ()),
      t_abs = id, t_mean = id, clamp_min_eps = id, t_float = (\<lambda>x. Fin 0), f_zero = Fin 0, f_add = (\<lambda>x y. x), f_less = (\<lambda>x y. False),
      latents_mean = None, latents_std = (), view_as = (\<lambda>x y. ()), sigma_data = Fin 1, vae_decode = id, postprocess_video = (\<lambda>x t. ())\<rparr>"

definition white :: raw_video where
  "white = Rank4 [[[[1]], [[1]], [[1]]]]"

lemma white_bytes: "as_frame_tensor white = Inr [[[[255, 255, 255]]]]"
  by (simp add: as_frame_tensor_def white_def channels_last_def to_byte_def round_even_def)

definition sample_world :: "exn option \<Rightarrow> (unit, unit) cosmos_lib" where
  "sample_world fails =
     \<lparr>cl_imports = None, cl_pretrained = (\<lambda>c. None), cl_compile = None, cl_load_guardrail = fails, cl_manual_seed = (\<lambda>s. None),
      cl_scheduler = (), cl_text_safe = (\<lambda>p. p \<noteq> ''bad''), cl_check_video = Bytes, cl_call = (\<lambda>t c a. (c, Inr white)),
      cl_pipe = (\<lambda>t. unit_pipe), cl_first = (\<lambda>x. white), cl_set_active = (\<lambda>n r. r\<lparr>rg_active := n\<rparr>)\<rparr>"

definition sample_request :: "string \<Rightarrow> generation_request" where
  "sample_request p = \<lparr>gr_prompt = p, gr_negative_prompt = None, gr_params = default_params, gr_conditioning = \<lparr>ci_kind = KindNone, ci_uri = None\<rparr>\<rparr>"

definition sample_process :: process where
  "sample_process = \<lparr>pr_checker_disabled = False, pr_registry = fresh_registry\<rparr>"

definition guarded_config :: cosmos_config where
  "guarded_config = default_cosmos_config\<lparr>cc_enable_guardrail := True, cc_compile_transformer := True\<rparr>"

lemma sample_load:
  "cosmos_load (sample_world fails) (sample_host [] True) sample_process (cosmos_init guarded_config)
    = (\<lparr>pr_checker_disabled = True, pr_registry = fresh_registry\<rparr>,
       \<lparr>ce_config = guarded_config, ce_pipe = Some \<lparr>pl_transformer = Compiled None False, pl_scheduler = ()\<rparr>, ce_guardrail = (fails = None),
        ce_uncompiled = Some Eager, ce_compile_gated = False\<rparr>,
       case fails of None \<Rightarrow> Inr () | Some x \<Rightarrow> Inl x)"
  by (auto simp: cosmos_load_def sample_world_def sample_host_def sample_process_def cosmos_init_def guarded_config_def
      default_cosmos_config_def disable_cosmos_guardrail_def import_fp8_bridge_def register_repercep_fp8_def register_backend_def
      diffusers_import_def maybe_activate_fp8_def lower_def Let_def split: option.split)

theorem guarded_engine_yields_only_approved_frames_witness:
  "\<exists>r1 r2. snd (run_calls (cosmos_call (sample_host [] True)) (sample_process, cosmos_init guarded_config)
      [(sample_world None, sample_request ''a cat''), (sample_world None, sample_request ''bad'')]) = [r1, r2]
    \<and> (case r2 of Inl _ \<Rightarrow> True | Inr fs \<Rightarrow> approved (sample_world None) (sample_request ''bad'') fs)"
proof -
  let ?rs = "[(sample_world None, sample_request ''a cat''), (sample_world None, sample_request ''bad'')]"
  let ?out = "snd (run_calls (cosmos_call (sample_host [] True)) (sample_process, cosmos_init guarded_config) ?rs)"
  have "list_all2 (\<lambda>(L, r) res. case res of Inl _ \<Rightarrow> True | Inr fs \<Rightarrow> approved L r fs) ?rs ?out"
    by (rule guarded_engine_yields_only_approved_frames) (simp_all add: guarded_config_def sample_world_def)
  then show ?thesis by (auto simp: list_all2_Cons1)
qed

theorem failed_guardrail_load_leaves_engine_unguarded_witness:
  "\<exists>pr1 e1. cosmos_generate (sample_world (Some (OtherException ''gated''))) (sample_host [] True) (sample_request ''bad'') sample_process
      (cosmos_init guarded_config) = (pr1, e1, Inl (OtherException ''gated''))
    \<and> snd (snd (cosmos_generate ((sample_world None)\<lparr>cl_text_safe := (\<lambda>_. False), cl_check_video := (\<lambda>_. Rejected)\<rparr>) (sample_host [] True)
        (sample_request ''bad'') pr1 e1)) = Inr (frames_of [[[[255, 255, 255]]]])"
proof -
  let ?e1 = "\<lparr>ce_config = guarded_config, ce_pipe = Some \<lparr>pl_transformer = Compiled None False, pl_scheduler = ()\<rparr>, ce_guardrail = False,
      ce_uncompiled = Some Eager, ce_compile_gated = False\<rparr>"
  let ?pr1 = "\<lparr>pr_checker_disabled = True, pr_registry = fresh_registry\<rparr>"
  have l: "cosmos_load (sample_world (Some (OtherException ''gated''))) (sample_host [] True) sample_process (cosmos_init guarded_config)
      = (?pr1, ?e1, Inl (OtherException ''gated''))" by (simp add: sample_load)
  have init: "ce_pipe (cosmos_init guarded_config) = None" "\<not> ce_guardrail (cosmos_init guarded_config)" by (simp_all add: cosmos_init_def)
  have "snd (snd (cosmos_generate (sample_world None) (sample_host [] True) (sample_request ''bad'') ?pr1 ?e1)) = Inr (frames_of [[[[255, 255, 255]]]])"
    by (simp add: cosmos_generate_def load_when_loaded produce_video_def finish_video_def gate_compile_if_needed_def run_cosmos_def white_bytes
        sample_world_def sample_request_def default_params_def guarded_config_def default_cosmos_config_def Let_def)
  then show ?thesis
    using failed_guardrail_load_leaves_engine_unguarded [OF init l, of "sample_request ''bad''" "sample_world None" "sample_host [] True"
        "sample_request ''bad''" ?pr1] by auto
qed

theorem oversized_requests_never_run_compiled_witness:
  "cosmos_generate (compiled_does (\<lambda>t c a. (c, Inl AssertionError)) (\<lambda>t. unit_pipe) (sample_world None)) (sample_host [] True) (sample_request ''a cat'')
      sample_process (cosmos_init guarded_config)
    = cosmos_generate (sample_world None) (sample_host [] True) (sample_request ''a cat'') sample_process (cosmos_init guarded_config)"
  using oversized_requests_never_run_compiled [of guarded_config "sample_request ''a cat''" "(sample_process, cosmos_init guarded_config)"
      "sample_host [] True" sample_process "[]" "\<lambda>t c a. (c, Inl AssertionError)" "\<lambda>t. unit_pipe" "sample_world None"]
  by (simp add: guarded_config_def default_cosmos_config_def sample_request_def default_params_def)

theorem compile_gate_is_permanent_witness:
  "\<exists>e1. cosmos_is_compiled e1 \<and> cosmos_generate (compiled_does (\<lambda>t c a. (c, Inl AssertionError)) (\<lambda>t. unit_pipe) (sample_world None))
      (sample_host [] True) ((sample_request ''a cat'')\<lparr>gr_params := default_params\<lparr>gp_num_frames := 1\<rparr>\<rparr>) sample_process e1
    = cosmos_generate (sample_world None) (sample_host [] True) ((sample_request ''a cat'')\<lparr>gr_params := default_params\<lparr>gp_num_frames := 1\<rparr>\<rparr>) sample_process e1"
proof -
  let ?e = "\<lparr>ce_config = guarded_config, ce_pipe = Some \<lparr>pl_transformer = Compiled None False, pl_scheduler = ()\<rparr>, ce_guardrail = True,
      ce_uncompiled = Some Eager, ce_compile_gated = False\<rparr> :: unit cosmos_engine"
  have ok: "cosmos_ok guarded_config ?e" by (simp add: cosmos_ok_def guarded_config_def)
  obtain e1 fs where "cosmos_generate (sample_world None) (sample_host [] True) (sample_request ''a cat'') sample_process ?e = (sample_process, e1, Inr fs)"
    by (simp add: cosmos_generate_def load_when_loaded produce_video_def finish_video_def gate_compile_if_needed_def run_cosmos_def white_bytes
        apply_video_guardrail_def sample_world_def sample_request_def default_params_def guarded_config_def default_cosmos_config_def Let_def)
  note g = this
  have c: "0 < cc_compile_max_frames guarded_config" "cc_compile_max_frames guarded_config < gp_num_frames (gr_params (sample_request ''a cat''))"
    "cc_compile_transformer guarded_config"
    by (simp_all add: guarded_config_def default_cosmos_config_def sample_request_def default_params_def)
  show ?thesis by (intro exI) (rule compile_gate_is_permanent [OF c ok g])
qed


end
