(* ===== verification/Cosmos3.thy ===== *)
theory Cosmos3
  imports RuntimeTypes ActionCodec AttentionCalls
begin

text \<open>
  The Cosmos 3 engine (\<open>models/cosmos3.py\<close>): a world model without memory between chunks. Its
  state is the frame the next chunk starts from and a counter; \<open>step\<close> runs one chunk under the
  executed actions and continues from its last frame, \<open>plan\<close> asks for the model's own actions.
  The pipeline, an action's uuid and PIL's fitting of an image to a size are parameters; images
  are lists of rows of pixels.
\<close>

section \<open>Configuration\<close>

definition policy_mode :: string where "policy_mode = ''policy''"
definition forward_dynamics_mode :: string where "forward_dynamics_mode = ''forward_dynamics''"

record cosmos3_config =
  c3_repo :: string
  c3_device_index :: nat
  c3_dtype :: string
  c3_prompt :: string
  c3_domain_name :: string
  c3_chunk_size :: nat
  c3_resolution_tier :: nat
  c3_view_point :: string
  c3_fps :: nat
  c3_step_mode :: string
  c3_num_inference_steps :: nat
  c3_guidance_scale :: rat
  c3_flow_shift :: rat
  c3_seed :: int
  c3_action_dim :: nat
  c3_pose_dim :: nat
  c3_canvas_width :: nat
  c3_canvas_height :: nat
  c3_enable_guardrail :: bool
  c3_diffusers_commit :: "string option"

definition default_cosmos3_config :: cosmos3_config where
  "default_cosmos3_config =
     \<lparr>c3_repo = ''nvidia/Cosmos3-Nano-Policy-DROID'', c3_device_index = 0, c3_dtype = ''bfloat16'',
      c3_prompt = ''Pick up the object and place it in the target container.'', c3_domain_name = ''droid_lerobot'',
      c3_chunk_size = 16, c3_resolution_tier = 480, c3_view_point = ''concat_view'', c3_fps = 15,
      c3_step_mode = forward_dynamics_mode, c3_num_inference_steps = 30, c3_guidance_scale = 1, c3_flow_shift = 5, c3_seed = 0,
      c3_action_dim = 10, c3_pose_dim = 9, c3_canvas_width = 640, c3_canvas_height = 540, c3_enable_guardrail = False,
      c3_diffusers_commit = None\<rparr>"

type_synonym 'p image = "'p list list"

text \<open>\<open>infer_chunk(conditioning, prompt, mode, raw_actions, seed)\<close>.\<close>

record 'p cosmos3_pipeline =
  cp_resolve_conditioning :: "conditioning_input \<Rightarrow> exn + 'p image"
  cp_infer_chunk :: "'p image \<Rightarrow> string \<Rightarrow> string \<Rightarrow> rat list list option \<Rightarrow> int \<Rightarrow> exn + 'p image list \<times> rat list list option"

record 'p cosmos3_engine =
  c3_config :: cosmos3_config
  c3_pipeline :: "'p cosmos3_pipeline option"
  c3_action_stats :: "(rat list \<times> rat list) option"

definition cosmos3_is_loaded :: "'p cosmos3_engine \<Rightarrow> bool" where
  "cosmos3_is_loaded e \<longleftrightarrow> c3_pipeline e \<noteq> None"

definition cosmos3_info :: "string \<Rightarrow> 'p cosmos3_engine \<Rightarrow> engine_info" where
  "cosmos3_info backend_name e =
     \<lparr>ei_model_name = ''cosmos3-nano-policy-droid'', ei_backend = backend_name,
      ei_device = backend_name @ '':'' @ nat_str (c3_device_index (c3_config e)), ei_dtype = c3_dtype (c3_config e),
      ei_ready = cosmos3_is_loaded e\<rparr>"

section \<open>Operations\<close>

definition cosmos3_load :: "exn + 'p cosmos3_pipeline" where
  "cosmos3_load = Inl (NotImplementedError (''Cosmos 3 Nano weight loading is Phase 1 (GPU) - see this method's ''
     @ ''docstring and docs/COSMOS3_PORT_PLAN.md 2/4 for the port recipe. ''
     @ ''Inject a pipeline to exercise the chunk loop on CPU.''))"

definition require_pipeline :: "'p cosmos3_engine \<Rightarrow> exn + 'p cosmos3_pipeline" where
  "require_pipeline e = (case c3_pipeline e of None \<Rightarrow> cosmos3_load | Some p \<Rightarrow> Inr p)"

definition last_frame :: "'p image list \<Rightarrow> exn + 'p image" where
  "last_frame frames = (if frames = [] then Inl (ValueError ''pipeline returned no frames'') else Inr (last frames))"

definition parse_action_chunk :: "cosmos3_config \<Rightarrow> rat action \<Rightarrow> exn + rat list list" where
  "parse_action_chunk cfg a =
     (let a_dim = c3_action_dim cfg in
      if a_dim = 0 then Inl (OtherException ''ZeroDivisionError'')
      else if length (act_values a) mod a_dim \<noteq> 0 then
        Inl (ValueError (''action chunk length '' @ nat_str (length (act_values a)) @ '' is not a multiple ''
          @ ''of action_dim='' @ nat_str a_dim @ '' (space='' @ py_repr (act_space a) @ '')''))
      else Inr (chunks_of a_dim (act_values a)))"

definition cosmos3_reset ::
    "'p cosmos3_engine \<Rightarrow> string \<Rightarrow> conditioning_input \<Rightarrow> rollout_params \<Rightarrow> exn + 'p image world_state" where
  "cosmos3_reset e uuid conditioning params =
     (case require_pipeline e of
        Inl x \<Rightarrow> Inl x
      | Inr p \<Rightarrow>
          (case cp_resolve_conditioning p conditioning of
             Inl x \<Rightarrow> Inl x
           | Inr canvas \<Rightarrow> Inr \<lparr>ws_context = canvas, ws_step_index = 0, ws_session_id = uuid\<rparr>))"

definition cosmos3_step ::
    "'p cosmos3_engine \<Rightarrow> 'p image world_state \<Rightarrow> rat action \<Rightarrow> exn + 'p image world_state \<times> latent_step" where
  "cosmos3_step e s a =
     (let cfg = c3_config e in
      case require_pipeline e of
        Inl x \<Rightarrow> Inl x
      | Inr p \<Rightarrow>
          (case parse_action_chunk cfg a of
             Inl x \<Rightarrow> Inl x
           | Inr actions \<Rightarrow>
               (case cp_infer_chunk p (ws_context s) (c3_prompt cfg) (c3_step_mode cfg)
                   (if c3_step_mode cfg = forward_dynamics_mode then Some actions else None) (c3_seed cfg + ws_step_index s) of
                  Inl x \<Rightarrow> Inl x
                | Inr (frames, _) \<Rightarrow>
                    (case last_frame frames of
                       Inl x \<Rightarrow> Inl x
                     | Inr f \<Rightarrow>
                         Inr (\<lparr>ws_context = f, ws_step_index = ws_step_index s + 1, ws_session_id = ws_session_id s\<rparr>,
                              \<lparr>ls_step_index = ws_step_index s + 1, ls_energy = None, ls_frame = None\<rparr>)))))"

definition cosmos3_denormalize :: "'p cosmos3_engine \<Rightarrow> rat list list \<Rightarrow> exn + rat list list" where
  "cosmos3_denormalize e actions =
     (case c3_action_stats e of
        None \<Rightarrow> Inl (RuntimeError (''DROID action quantile stats not loaded - Phase 1 loads ''
          @ ''droid_lerobot_stats.json in load(); refusing to return '' @ ''normalized values as if they were meters''))
      | Some (q01, q99) \<Rightarrow> denormalize_quantile actions q01 q99 0)"

definition cosmos3_plan :: "'p cosmos3_engine \<Rightarrow> 'p image world_state \<Rightarrow> 'g \<Rightarrow> int \<Rightarrow> exn + rat action" where
  "cosmos3_plan e s goal horizon =
     (let cfg = c3_config e in
      case require_pipeline e of
        Inl x \<Rightarrow> Inl x
      | Inr p \<Rightarrow>
          (case cp_infer_chunk p (ws_context s) (c3_prompt cfg) policy_mode None (c3_seed cfg + ws_step_index s) of
             Inl x \<Rightarrow> Inl x
           | Inr (_, None) \<Rightarrow>
               Inl (RuntimeError (''pipeline returned no actions in '' @ py_repr policy_mode @ '' mode - a policy ''
                 @ ''call must produce an action chunk''))
           | Inr (_, Some proposed) \<Rightarrow>
               (case cosmos3_denormalize e proposed of
                  Inl x \<Rightarrow> Inl x
                | Inr [] \<Rightarrow> Inl (OtherException ''IndexError'')
                | Inr (values # _) \<Rightarrow> Inr \<lparr>act_values = values, act_space = ''cosmos3_chunk_droid_ee''\<rparr>)))"

section \<open>The conditioning canvas\<close>

text \<open>\<open>Image.paste\<close>: the part of the image that lies on the canvas replaces it there.\<close>

definition paste :: "'p image \<Rightarrow> nat \<times> nat \<Rightarrow> 'p image \<Rightarrow> 'p image" where
  "paste img pos canvas =
     (let (x0, y0) = pos in
      map (\<lambda>(y, row). map (\<lambda>(x, px).
          if y0 \<le> y \<and> y - y0 < length img \<and> x0 \<le> x \<and> x - x0 < length (img ! (y - y0)) then img ! (y - y0) ! (x - x0) else px)
        (enumerate 0 row)) (enumerate 0 canvas))"

definition build_conditioning_canvas ::
    "('p image \<Rightarrow> nat \<times> nat \<Rightarrow> 'p image) \<Rightarrow> 'p \<Rightarrow> cosmos3_config \<Rightarrow> 'p image \<Rightarrow> 'p image \<Rightarrow> 'p image \<Rightarrow> 'p image" where
  "build_conditioning_canvas fit black cfg wrist exterior_1 exterior_2 =
     (let w = c3_canvas_width cfg; h = c3_canvas_height cfg; top_height = h div 2; bottom_height = h - top_height; half_width = w div 2
      in fold (\<lambda>(frame, size, position) canvas. paste (fit frame size) position canvas)
           [(wrist, (w, top_height), (0, 0)),
            (exterior_1, (half_width, bottom_height), (0, top_height)),
            (exterior_2, (half_width, bottom_height), (half_width, top_height))]
           (replicate h (replicate w black)))"

section \<open>Lemmas\<close>

lemma paste_rect: "rect2 h w c \<Longrightarrow> rect2 h w (paste img pos c)"
  by (auto simp: paste_def rect2_def in_set_enumerate_eq split: prod.split)

lemma paste_pixel:
  assumes "rect2 h w c" "y < h" "x < w" "rect2 ih iw img"
  shows "paste img (x0, y0) c ! y ! x
    = (if y0 \<le> y \<and> y < y0 + ih \<and> x0 \<le> x \<and> x < x0 + iw then img ! (y - y0) ! (x - x0) else c ! y ! x)"
proof -
  have len: "length c = h" "length (c ! y) = w" using assms by (auto simp: rect2_def)
  have row: "length (img ! (y - y0)) = iw" if "y - y0 < ih" using assms(4) that by (auto simp: rect2_def)
  have "length img = ih" using assms(4) by (simp add: rect2_def)
  with row len assms(2,3) show ?thesis by (auto simp: paste_def nth_enumerate_eq)
qed

text \<open>The reference rollout: chunk \<open>i\<close> starts from the last frame of the chunk before, with its own seed.\<close>

fun reference_rollout ::
    "'p cosmos3_pipeline \<Rightarrow> string \<Rightarrow> int \<Rightarrow> 'p image \<Rightarrow> rat list list list \<Rightarrow> exn + 'p image list list" where
  "reference_rollout p prompt seed frame [] = Inr []"
| "reference_rollout p prompt seed frame (acts # rest) =
     (case cp_infer_chunk p frame prompt forward_dynamics_mode (Some acts) seed of
        Inl x \<Rightarrow> Inl x
      | Inr (frames, _) \<Rightarrow>
          (if frames = [] then Inl (ValueError ''pipeline returned no frames'')
           else (case reference_rollout p prompt (seed + 1) (last frames) rest of
                   Inl x \<Rightarrow> Inl x
                 | Inr chunks \<Rightarrow> Inr (frames # chunks))))"

fun engine_rollout ::
    "'p cosmos3_engine \<Rightarrow> 'p image world_state \<Rightarrow> rat action list \<Rightarrow> exn + ('p image world_state \<times> latent_step) list" where
  "engine_rollout e s [] = Inr []"
| "engine_rollout e s (a # as) =
     (case cosmos3_step e s a of
        Inl x \<Rightarrow> Inl x
      | Inr (s', o1) \<Rightarrow> (case engine_rollout e s' as of Inl x \<Rightarrow> Inl x | Inr rs \<Rightarrow> Inr ((s', o1) # rs)))"

lemma parse_flat:
  assumes "c3_action_dim cfg > 0" "\<forall>r \<in> set acts. length r = c3_action_dim cfg"
  shows "parse_action_chunk cfg \<lparr>act_values = concat acts, act_space = sp\<rparr> = Inr acts"
proof -
  have "length (concat acts) = length acts * c3_action_dim cfg"
    using assms(2) by (induction acts) auto
  then show ?thesis using assms by (simp add: parse_action_chunk_def Let_def chunks_concat)
qed

section \<open>Properties\<close>

text \<open>C35: a sequence of steps under executed chunks is the reference rollout: each chunk starts from the
  last frame the one before generated, with a seed of its own, and an error of the pipeline ends
  it at the same chunk. The counter numbers the steps and the session keeps its id.\<close>

theorem steps_are_the_reference_rollout:
  assumes "c3_pipeline e = Some p" "c3_step_mode (c3_config e) = forward_dynamics_mode" "c3_action_dim (c3_config e) > 0"
    and "\<forall>acts \<in> set chunks. \<forall>r \<in> set acts. length r = c3_action_dim (c3_config e)"
  shows "engine_rollout e s (map (\<lambda>acts. \<lparr>act_values = concat acts, act_space = sp\<rparr>) chunks)
    = (case reference_rollout p (c3_prompt (c3_config e)) (c3_seed (c3_config e) + ws_step_index s) (ws_context s) chunks of
         Inl x \<Rightarrow> Inl x
       | Inr videos \<Rightarrow> Inr (map (\<lambda>(i, frames).
           (\<lparr>ws_context = last frames, ws_step_index = ws_step_index s + int i, ws_session_id = ws_session_id s\<rparr>,
            \<lparr>ls_step_index = ws_step_index s + int i, ls_energy = None, ls_frame = None\<rparr>)) (enumerate 1 videos)))"
  using assms(4)
proof (induction chunks arbitrary: s)
  case (Cons acts chunks)
  have parse: "parse_action_chunk (c3_config e) \<lparr>act_values = concat acts, act_space = sp\<rparr> = Inr acts"
    by (rule parse_flat [OF assms(3)]) (use Cons.prems in simp)
  let ?inf = "cp_infer_chunk p (ws_context s) (c3_prompt (c3_config e)) forward_dynamics_mode (Some acts) (c3_seed (c3_config e) + ws_step_index s)"
  show ?case
  proof (cases "\<exists>frames o1. ?inf = Inr (frames, o1) \<and> frames \<noteq> []")
    case False
    then show ?thesis using assms(1,2)
      by (auto simp: cosmos3_step_def require_pipeline_def parse last_frame_def Let_def split: sum.splits)
  next
    case True
    then obtain frames o1 where inf: "?inf = Inr (frames, o1)" "frames \<noteq> []" by blast
    let ?s' = "\<lparr>ws_context = last frames, ws_step_index = ws_step_index s + 1, ws_session_id = ws_session_id s\<rparr>"
    have step: "cosmos3_step e s \<lparr>act_values = concat acts, act_space = sp\<rparr>
        = Inr (?s', \<lparr>ls_step_index = ws_step_index s + 1, ls_energy = None, ls_frame = None\<rparr>)"
      using assms(1,2) inf by (simp add: cosmos3_step_def require_pipeline_def parse last_frame_def Let_def)
    have shift: "enumerate 2 xs = map (\<lambda>(i, x). (Suc i, x)) (enumerate 1 xs)" for xs :: "'a image list list"
      by (simp add: numeral_2_eq_2 enumerate_Suc_eq case_prod_unfold apfst_def map_prod_def)
    show ?thesis
      using inf Cons.IH [of ?s'] Cons.prems
      by (auto simp: step shift add.assoc comp_def case_prod_beta simp del: One_nat_def split: sum.splits)
  qed
qed simp

text \<open>in policy mode the executed actions have no influence: a chunk of well-formed length is dropped.\<close>

theorem policy_steps_ignore_the_actions:
  assumes "c3_step_mode (c3_config e) \<noteq> forward_dynamics_mode" "c3_action_dim (c3_config e) > 0"
    and "length (act_values a) mod c3_action_dim (c3_config e) = 0" "length (act_values b) mod c3_action_dim (c3_config e) = 0"
  shows "cosmos3_step e s a = cosmos3_step e s b"
  using assms by (simp add: cosmos3_step_def parse_action_chunk_def Let_def split: sum.split)

text \<open>the canvas of three camera views: the wrist camera fills the upper half, the two exterior cameras
  stand side by side in the lower one; the tiles do not overlap, and cover the canvas when its
  width is even (of an odd width the last column stays black below).\<close>

theorem canvas_pixels:
  assumes "\<And>img tw th. rect2 th tw (fit img (tw, th))" "c3_canvas_width cfg = w" "c3_canvas_height cfg = h" "y < h" "x < w"
  shows "build_conditioning_canvas fit black cfg wrist exterior_1 exterior_2 ! y ! x
    = (if y < h div 2 then fit wrist (w, h div 2) ! y ! x
       else if x < w div 2 then fit exterior_1 (w div 2, h - h div 2) ! (y - h div 2) ! x
       else if x < 2 * (w div 2) then fit exterior_2 (w div 2, h - h div 2) ! (y - h div 2) ! (x - w div 2)
       else black)
    \<and> rect2 h w (build_conditioning_canvas fit black cfg wrist exterior_1 exterior_2)"
proof -
  define c0 where "c0 = replicate h (replicate w black)"
  define c1 where "c1 = paste (fit wrist (w, h div 2)) (0, 0) c0"
  define c2 where "c2 = paste (fit exterior_1 (w div 2, h - h div 2)) (0, h div 2) c1"
  define c3 where "c3 = paste (fit exterior_2 (w div 2, h - h div 2)) (w div 2, h div 2) c2"
  have build: "build_conditioning_canvas fit black cfg wrist exterior_1 exterior_2 = c3"
    by (simp add: build_conditioning_canvas_def Let_def assms(2,3) c0_def c1_def c2_def c3_def)
  have r0: "rect2 h w c0" by (simp add: c0_def rect2_def)
  have r1: "rect2 h w c1" unfolding c1_def by (rule paste_rect [OF r0])
  have r2: "rect2 h w c2" unfolding c2_def by (rule paste_rect [OF r1])
  have r3: "rect2 h w c3" unfolding c3_def by (rule paste_rect [OF r2])
  have "c0 ! y ! x = black" using assms(4,5) by (simp add: c0_def)
  moreover note paste_pixel [OF r0 assms(4,5) assms(1), of wrist w "h div 2" 0 0, folded c1_def]
    paste_pixel [OF r1 assms(4,5) assms(1), of exterior_1 "w div 2" "h - h div 2" 0 "h div 2", folded c2_def]
    paste_pixel [OF r2 assms(4,5) assms(1), of exterior_2 "w div 2" "h - h div 2" "w div 2" "h div 2", folded c3_def]
  ultimately show ?thesis using r3 assms(4,5) unfolding build by auto
qed

text \<open>without the statistics no plan is returned, whatever the pipeline proposes.\<close>

theorem plan_refuses_normalized_values:
  assumes "c3_action_stats e = None" shows "\<exists>x. cosmos3_plan e s goal n = Inl x"
  using assms by (auto simp: cosmos3_plan_def cosmos3_denormalize_def Let_def split: sum.split option.split)

section \<open>Witnesses\<close>

definition fading :: "nat cosmos3_pipeline" where
  "fading = \<lparr>cp_resolve_conditioning = (\<lambda>c. Inr [[9]]),
     cp_infer_chunk = (\<lambda>f pr m a sd. Inr ([f, map (map (\<lambda>x. x + 1)) f], None))\<rparr>"

definition fading_engine :: "nat cosmos3_engine" where
  "fading_engine = \<lparr>c3_config = default_cosmos3_config\<lparr>c3_action_dim := 2\<rparr>, c3_pipeline = Some fading, c3_action_stats = None\<rparr>"

theorem steps_are_the_reference_rollout_witness:
  "\<exists>rs. engine_rollout fading_engine \<lparr>ws_context = [[5]], ws_step_index = 0, ws_session_id = ''s''\<rparr>
      (map (\<lambda>acts. \<lparr>act_values = concat acts, act_space = ''raw''\<rparr>) [[[1, 2]], [[3, 4], [5, 6]]]) = Inr rs
    \<and> map (\<lambda>(s, _). ws_context s) rs = [[[6]], [[7]]]"
proof -
  have e: "c3_pipeline fading_engine = Some fading" "c3_step_mode (c3_config fading_engine) = forward_dynamics_mode"
    "c3_action_dim (c3_config fading_engine) > 0"
    "\<forall>acts \<in> set [[[1, 2]], [[3, 4], [5, 6]]]. \<forall>r \<in> set acts. length r = c3_action_dim (c3_config fading_engine)"
    by (simp_all add: fading_engine_def default_cosmos3_config_def)
  show ?thesis unfolding steps_are_the_reference_rollout [OF e] by (simp add: fading_def)
qed

theorem policy_steps_ignore_the_actions_witness:
  "cosmos3_step (fading_engine\<lparr>c3_config := default_cosmos3_config\<lparr>c3_action_dim := 2, c3_step_mode := policy_mode\<rparr>\<rparr>)
      \<lparr>ws_context = [[5]], ws_step_index = 0, ws_session_id = ''s''\<rparr> \<lparr>act_values = [1, 2], act_space = ''raw''\<rparr>
    = cosmos3_step (fading_engine\<lparr>c3_config := default_cosmos3_config\<lparr>c3_action_dim := 2, c3_step_mode := policy_mode\<rparr>\<rparr>)
      \<lparr>ws_context = [[5]], ws_step_index = 0, ws_session_id = ''s''\<rparr> \<lparr>act_values = [7, 8], act_space = ''raw''\<rparr>"
  by (rule policy_steps_ignore_the_actions) (simp_all add: policy_mode_def forward_dynamics_mode_def)

theorem canvas_pixels_witness:
  "build_conditioning_canvas (\<lambda>img (tw, th). replicate th (replicate tw (hd (hd img)))) 0
      (default_cosmos3_config\<lparr>c3_canvas_width := 5, c3_canvas_height := 2\<rparr>) [[1]] [[2]] [[3]] ! 1 ! 3 = (3 :: nat)"
  using canvas_pixels [of "\<lambda>img (tw, th). replicate th (replicate tw (hd (hd img)))"
      "default_cosmos3_config\<lparr>c3_canvas_width := 5, c3_canvas_height := 2\<rparr>" 5 2 1 3 0 "[[1 :: nat]]" "[[2]]" "[[3]]"]
  by (simp add: rect2_def)

theorem plan_refuses_normalized_values_witness:
  "\<exists>x. cosmos3_plan fading_engine \<lparr>ws_context = [[5]], ws_step_index = 0, ws_session_id = ''s''\<rparr> () 16 = Inl x"
  by (rule plan_refuses_normalized_values) (simp add: fading_engine_def)

end
