(* ===== verification/Spec2Isabelle.thy ===== *)
theory Spec2Isabelle
  imports Scheduler Router Driver V2System Metering LlmProxy Tenancy Usage Gateway WorldSession
    LatentCache Denoise RuntimeTypes VJepa2AC LingBotPipeline DreamZeroPipeline
    ActionCodec VlaEngine AttentionCalls Backends FlashLaunch DiffusersBridge
    VideoEngines Cosmos3
begin

text \<open>
  \<^bold>\<open>The Repercep runtime.\<close> The program (\<open>src/repercep/\<close>) serves world models and, behind the same
  gateway, a language model. Its parts and how they interact:

  \<^item> A generate call of the v2 API gets an id, stages its payload in the scheduler adapter and is
    accepted by the router, which makes an entry for it and submits it to the scheduler through
    the adapter. The driver thread pops the scheduler, runs the engine and pushes the frames to
    the router, whose bounded queue the HTTP response reads.
  \<^item> The LLM proxy forwards OpenAI calls to an upstream, meters the response as it passes, and
    emits one record per call to the gateway, which writes it to the usage ledger under the
    principal that authentication found. Authentication and quota read the key store and the
    ledger.
  \<^item> The interactive endpoint holds one engine session per WebSocket.

  \<^bold>\<open>Theories.\<close>

  \<^item> \<open>Prelude\<close>: Python exceptions as a datatype, dictionaries as association lists in insertion
    order. \<open>PyStr\<close>: the string operations the code uses. \<open>Json\<close>: decoded documents; the codec
    itself is a parameter. \<open>Sql\<close>: what the stores use of SQLite; the locale \<open>row_order\<close>.
  \<^item> \<open>Interfaces\<close>: the locales \<open>invariant_machine\<close>, \<open>work_queue\<close> and \<open>fifo_channel\<close>, the contracts
    between components over runs of a step function.
  \<^item> \<open>Scheduler\<close> models \<open>runtime/scheduler.py\<close>: \<open>submit\<close>, \<open>cancel\<close>, \<open>pop_next\<close>, \<open>next_blocking\<close>. It
    is refined to one list in service order, and interpreted as a \<open>work_queue\<close>.
  \<^item> \<open>Router\<close> models \<open>runtime/router.py\<close>: the entry of a request and its operations, the frame stream,
    and the router over an abstract scheduler. One request is interpreted as a \<open>fifo_channel\<close>; a
    projection shows that each request of the router is such a channel.
  \<^item> \<open>Driver\<close> models \<open>serving/driver.py\<close> (adapter, \<open>_push\<close>, \<open>_run_one\<close>) and the v2 handlers of
    \<open>serving/app.py\<close>; \<open>V2System\<close> puts handlers, router, adapter and scheduler together, proves the
    invariant across them and the mapping of refusals to HTTP answers, and holds the witnesses.
  \<^item> \<open>Metering\<close> models \<open>serving/metering.py\<close> with a specification on whole lines; \<open>LlmProxy\<close> models
    \<open>serving/llm_proxy.py\<close> over a parameter for the HTTP client.
  \<^item> \<open>Tenancy\<close> models \<open>serving/tenancy.py\<close> and \<open>Usage\<close> models \<open>serving/usage.py\<close>, each a table with
    its operations; \<open>Gateway\<close> models the closures of \<open>create_app\<close> that authenticate, check the
    quota, record calls and report usage, with calls in flight as a machine; \<open>WorldSession\<close> models
    the WebSocket handler as a machine over all connections.

  \<^item> \<open>RuntimeTypes\<close> models \<open>runtime/types.py\<close> (validation and dumps), the engine contract and the stub
    engine, which interprets the locale \<open>frame_engine\<close>. \<open>LatentCache\<close> models
    \<open>runtime/latent_cache.py\<close> over a locale of eviction policies; \<open>Denoise\<close> models
    \<open>runtime/denoise.py\<close>: the loop, its skip gates and the guidance paths.
  \<^item> \<open>PredictorSpec\<close> states the contract between the V-JEPA 2-AC engine and its predictor as locales;
    \<open>AcPredictor\<close> models the adapter of \<open>models/vjepa2_ac.py\<close> and interprets them; \<open>VJepa2AC\<close> models
    the engine: loading, reset, step with its cache, planner, release.
  \<^item> \<open>ChunkEngine\<close> models the chunk loop that \<open>models/lingbot_va.py\<close> and \<open>models/dreamzero.py\<close> share, with
    the pipeline protocol as the locale \<open>session_pipeline\<close>; \<open>LingBotPipeline\<close> and \<open>DreamZeroPipeline\<close>
    model the two pipelines and interpret it.
  \<^item> \<open>VlaEngine\<close> models \<open>models/vla.py\<close> over its pipeline protocol; \<open>ActionCodec\<close> models the action
    tokens (\<open>models/vla_tokenize.py\<close>), the quantile scaling (\<open>models/action_norm.py\<close>) and the INT8
    quantization of linear layers (\<open>runtime/quantize.py\<close>).
  \<^item> \<open>Hardware\<close> models \<open>hardware.py\<close>, \<open>attention/types.py\<close> and what a host reports; \<open>Attention\<close> the
    construction, the \<open>supports\<close> predicate and the selection of every operation of \<open>attention/\<close>;
    \<open>AttentionCalls\<close> their calls over the kernels as parameters; \<open>Backends\<close> models \<open>backend/\<close>.
  \<^item> \<open>FlashKernel\<close> models the body of the Triton kernels of \<open>kernels/triton_kernels/\<close> (one text in three
    files): tiles, masks, strides, the online softmax, the stores and the grid, whose programs run
    in any order; it is proved to compute attention up to the rounding of the probabilities, by an
    invariant of the running maximum, sum and accumulator. \<open>FlashLaunch\<close> models the host side of the
    three files: quantization, the search grids, the cache of tuned configurations, the entry point.
  \<^item> \<open>DiffusersBridge\<close> models the two backends that the package registers with the attention dispatcher
    of diffusers and the processor of Wan (\<open>attention/diffusers_backend.py\<close>,
    \<open>diffusers_backend_amx.py\<close>, \<open>wan_processor.py\<close>): routing, fallbacks, operations cached between
    calls, registration. \<open>VideoEngines\<close> models \<open>models/cosmos.py\<close> and \<open>models/wan.py\<close> on top of it and
    of \<open>Denoise\<close>; both interpret \<open>frame_engine\<close>. \<open>Cosmos3\<close> models \<open>models/cosmos3.py\<close>.

  \<^bold>\<open>Correspondence.\<close> A class is a record of its fields, a method a function that returns the new
  record, with the exception as \<open>Inl\<close>. Methods that hold a lock, and coroutine bodies between two
  suspensions, are one step. What another thread or task does in the middle of a call (the wait
  in \<open>next_blocking\<close>, the driver between two pushes) is an argument of the model, and the theorems
  hold for every such argument. Clocks, random bytes and draws, hashing, JSON, HTTP, the networks
  and torch's operations on them are arguments too; tensors are nested lists, compared by value,
  with exact components.

  \<^bold>\<open>Lemma groups.\<close> Per component: invariants preserved by every operation, behaviour on every branch,
  refinement of a simpler specification; across components: payload and id discipline from the
  handler to the scheduler, frames from the engine to the subscriber, tokens from the upstream
  to the invoice and the quota.

  \<^bold>\<open>Bounds and termination.\<close> No fuel is used: the loop of the meter ends because each turn removes a
  line from the buffer (\<open>Metering.sse_rounds\<close> counts the turns), \<open>next_blocking\<close> recurses on the list of wake-ups, all other recursion is
  structural. Strings are lists of code points below 256; token sums are exact integers, and
  agree with SQLite while they stay below 2^63; values bound to an INTEGER column are checked
  against 64 bits as SQLite's driver does.

  \<^bold>\<open>Not modelled.\<close> The native wheels behind \<open>Scheduler\<close>, \<open>Router\<close> and the latent cache (not in the
  package), the C++ and HIP kernels, floating-point rounding (arithmetic is exact), the FastAPI and
  uvicorn machinery, the v1 generate stream, and the scripts that drive devices.
\<close>

end
